(* ===== verification/Prelude.thy ===== *)
theory Prelude
  imports
    Complex_Main
    "HOL-Library.AList"
    "HOL-Library.Char_ord"
    "HOL-Library.List_Lexorder"
    "HOL-Library.Multiset"
begin

text \<open>
  Shared vocabulary of the development: the JavaScript collection idioms the sources
  use, with the lemmas every component needs about them.

  \<^item> A JavaScript \<open>Set\<close> that is iterated or spread is a duplicate-free list in insertion
    order (\<open>js_set\<close>, \<open>set_add\<close>); one that is only asked for membership is read
    through \<^term>\<open>set\<close>.
  \<^item> A JavaScript \<open>Map\<close> is an association list: \<^term>\<open>map_of\<close> reads it and
    \<^const>\<open>AList.update\<close> is \<open>Map.set\<close>, which overwrites in place or appends.
  \<^item> \<open>xs[i]\<close> on an array is \<open>js_nth\<close>, \<open>None\<close> standing for \<open>undefined\<close>, and
    \<open>a ?? b\<close> is \<open>a ?? b\<close> read as \<open>or_else a b\<close>.
  \<^item> \<open>deps_before\<close> is the shared notion of an ordering that respects dependencies.
\<close>

named_theorems js_simps \<open>unfolding rules of the JavaScript idioms\<close>
named_theorems inv_intros \<open>introduction rules that establish component invariants\<close>

subsection \<open>Optional values\<close>

definition or_else :: "'a option \<Rightarrow> 'a \<Rightarrow> 'a" where
  "or_else x d = (case x of None \<Rightarrow> d | Some v \<Rightarrow> v)"

lemma or_else_simps [simp]: "or_else None d = d" "or_else (Some v) d = v"
  by (simp_all add: or_else_def)

lemma set_or_else_Nil [simp]: "set (or_else x []) = (case x of None \<Rightarrow> {} | Some xs \<Rightarrow> set xs)"
  by (cases x) simp_all

definition js_nth :: "'a list \<Rightarrow> nat \<Rightarrow> 'a option" where
  "js_nth xs i = (if i < length xs then Some (xs ! i) else None)"

lemma js_nth_Some_iff: "js_nth xs i = Some x \<longleftrightarrow> i < length xs \<and> xs ! i = x"
  by (auto simp: js_nth_def)

lemma js_nth_None_iff: "js_nth xs i = None \<longleftrightarrow> length xs \<le> i"
  by (auto simp: js_nth_def)

lemma js_nth_in_set: "js_nth xs i = Some x \<Longrightarrow> x \<in> set xs"
  by (auto simp: js_nth_Some_iff)

text \<open>A string that is absent or empty is falsy in a JavaScript test.\<close>

definition truthy :: "string option \<Rightarrow> string option" where
  "truthy x = (case x of None \<Rightarrow> None | Some s \<Rightarrow> if s = [] then None else Some s)"

lemma truthy_Some_iff: "truthy x = Some s \<longleftrightarrow> x = Some s \<and> s \<noteq> []"
  by (auto simp: truthy_def split: option.splits)

lemma truthy_None_iff: "truthy x = None \<longleftrightarrow> x = None \<or> x = Some []"
  by (auto simp: truthy_def split: option.splits)

subsection \<open>Numbers in messages\<close>

definition digit_char :: "nat \<Rightarrow> char" where
  "digit_char d = char_of (48 + d)"

fun show_nat :: "nat \<Rightarrow> string" where
  "show_nat n = (if n < 10 then [digit_char n] else show_nat (n div 10) @ [digit_char (n mod 10)])"

declare show_nat.simps [simp del]

definition show_int :: "int \<Rightarrow> string" where
  "show_int i = (if i < 0 then CHR 0x2D # show_nat (nat (- i)) else show_nat (nat i))"

lemma show_nat_nonempty [simp]: "show_nat n \<noteq> []"
  by (subst show_nat.simps) simp

definition quoted :: "string \<Rightarrow> string" where
  "quoted s = CHR 0x27 # s @ [CHR 0x27]"

subsection \<open>Strings\<close>

text \<open>\<open>Array.prototype.join\<close>, \<open>String.prototype.includes\<close>, \<open>startsWith\<close> and \<open>toLowerCase\<close>.\<close>

fun join_with :: "string \<Rightarrow> string list \<Rightarrow> string" where
  "join_with sep [] = []"
| "join_with sep [s] = s"
| "join_with sep (s # ss) = s @ sep @ join_with sep ss"

fun str_includes :: "string \<Rightarrow> string \<Rightarrow> bool" where
  "str_includes [] sub \<longleftrightarrow> sub = []"
| "str_includes (c # cs) sub \<longleftrightarrow> take (length sub) (c # cs) = sub \<or> str_includes cs sub"

lemma str_includes_iff: "str_includes s sub \<longleftrightarrow> (\<exists>before rest. s = before @ sub @ rest)"
proof (induction s)
  case (Cons c cs)
  have "take (length sub) (c # cs) = sub \<longleftrightarrow> (\<exists>rest. c # cs = sub @ rest)"
    by (metis append_eq_conv_conj append_take_drop_id)
  moreover have "(\<exists>before rest. c # cs = before @ sub @ rest) \<longleftrightarrow>
      (\<exists>rest. c # cs = sub @ rest) \<or> (\<exists>before rest. cs = before @ sub @ rest)"
    by (metis append_Cons append_Nil list.sel(3) neq_Nil_conv)
  ultimately show ?case using Cons.IH by simp
qed simp

definition starts_with :: "string \<Rightarrow> string \<Rightarrow> bool" where
  "starts_with s pre \<longleftrightarrow> take (length pre) s = pre"

definition char_to_lower :: "char \<Rightarrow> char" where
  "char_to_lower c = (let n = (of_char c :: nat) in
     if 65 \<le> n \<and> n \<le> 90 \<or> 192 \<le> n \<and> n \<le> 222 \<and> n \<noteq> 215 then char_of (n + 32) else c)"

definition to_lower :: "string \<Rightarrow> string" where
  "to_lower s = map char_to_lower s"

subsection \<open>Insertion-ordered sets\<close>

definition set_add :: "'a list \<Rightarrow> 'a \<Rightarrow> 'a list" where
  "set_add xs x = (if x \<in> set xs then xs else xs @ [x])"

definition js_set :: "'a list \<Rightarrow> 'a list" where
  "js_set xs = foldl set_add [] xs"

lemma set_set_add [simp]: "set (set_add xs x) = insert x (set xs)"
  by (auto simp: set_add_def)

lemma distinct_set_add [simp]: "distinct (set_add xs x) = distinct xs"
  by (auto simp: set_add_def)

lemma set_foldl_set_add: "set (foldl set_add acc xs) = set acc \<union> set xs"
  by (induction xs arbitrary: acc) auto

lemma distinct_foldl_set_add: "distinct (foldl set_add acc xs) = distinct acc"
  by (induction xs arbitrary: acc) auto

lemma set_js_set [simp]: "set (js_set xs) = set xs"
  by (simp add: js_set_def set_foldl_set_add)

lemma distinct_js_set [simp]: "distinct (js_set xs)"
  by (simp add: js_set_def distinct_foldl_set_add)

lemma foldl_set_add_id:
  "distinct (acc @ xs) \<Longrightarrow> foldl set_add acc xs = acc @ xs"
  by (induction xs arbitrary: acc) (auto simp: set_add_def)

lemma js_set_distinct [simp]: "distinct xs \<Longrightarrow> js_set xs = xs"
  by (simp add: js_set_def foldl_set_add_id)

lemma foldl_set_add_filter:
  "filter P (foldl set_add acc xs) = foldl set_add (filter P acc) (filter P xs)"
  by (induction xs arbitrary: acc) (auto simp: set_add_def)

lemma js_set_filter: "filter P (js_set xs) = js_set (filter P xs)"
  by (simp add: js_set_def foldl_set_add_filter)

lemma length_js_set_le: "length (js_set xs) \<le> length xs"
  by (metis card_length distinct_card distinct_js_set set_js_set)

subsection \<open>Insertion-ordered maps\<close>

lemma map_of_update [simp]: "map_of (AList.update k v m) = (map_of m)(k \<mapsto> v)"
  by (rule update_conv')

lemma map_of_delete [simp]: "map_of (AList.delete k m) = (map_of m)(k := None)"
  by (rule delete_conv')

lemma finite_map_of_values: "finite (\<Union>(set ` snd ` set m))"
  by simp

lemma map_of_value_subset:
  "map_of m k = Some v \<Longrightarrow> set v \<subseteq> \<Union>(set ` snd ` set m)"
  by (force dest: map_of_SomeD)

subsection \<open>Orderings that respect dependencies\<close>

text \<open>
  \<open>deps_before D S xs\<close>: every element of \<open>xs\<close> comes after all its dependencies,
  where those in \<open>S\<close> are already available.
\<close>

fun deps_before :: "('a \<Rightarrow> 'a set) \<Rightarrow> 'a set \<Rightarrow> 'a list \<Rightarrow> bool" where
  "deps_before D S [] \<longleftrightarrow> True"
| "deps_before D S (x # xs) \<longleftrightarrow> D x \<subseteq> S \<and> deps_before D (insert x S) xs"

lemma deps_before_append:
  "deps_before D S (xs @ ys) \<longleftrightarrow> deps_before D S xs \<and> deps_before D (S \<union> set xs) ys"
  by (induction xs arbitrary: S) auto

lemma deps_before_closed:
  "deps_before D S xs \<Longrightarrow> x \<in> set xs \<Longrightarrow> D x \<subseteq> S \<union> set xs"
  by (induction xs arbitrary: S) auto

lemma deps_before_nth:
  "deps_before D S xs \<Longrightarrow> i < length xs \<Longrightarrow> D (xs ! i) \<subseteq> S \<union> set (take i xs)"
proof (induction xs arbitrary: S i)
  case (Cons x xs)
  then show ?case by (cases i) auto
qed simp

lemma deps_before_mono:
  "deps_before D S xs \<Longrightarrow> S \<subseteq> T \<Longrightarrow> deps_before D T xs"
  by (induction xs arbitrary: S T) (auto, meson insert_mono)

subsection \<open>Finite acyclic relations\<close>

lemma acyclic_insert_source:
  assumes "acyclic r" and "\<And>y. (y, x) \<notin> r" and "x \<notin> A"
  shows "acyclic (r \<union> {x} \<times> A)"
proof -
  have no_in: "(y, x) \<notin> r \<union> {x} \<times> A" for y
    using assms by auto
  have no_in_trancl: "(y, x) \<notin> (r \<union> {x} \<times> A)\<^sup>+" for y
    by (metis no_in tranclE)
  show ?thesis
  proof (rule acyclicI, rule allI, rule notI)
    fix z assume zz: "(z, z) \<in> (r \<union> {x} \<times> A)\<^sup>+"
    have zx: "z \<noteq> x" using zz no_in_trancl by blast
    have "(u, v) \<in> r\<^sup>+" if "(u, v) \<in> (r \<union> {x} \<times> A)\<^sup>+" "u \<noteq> x" for u v
      using that
    proof (induction rule: trancl_induct)
      case (base y)
      then show ?case by auto
    next
      case (step y w)
      then have "y \<noteq> x" using no_in_trancl by blast
      with step show ?case by (auto intro: trancl_into_trancl)
    qed
    with zz zx assms(1) show False by (auto simp: acyclic_def)
  qed
qed

lemma rtrancl_step_iff:
  "(a, c) \<in> r\<^sup>* \<longleftrightarrow> a = c \<or> (\<exists>b. (a, b) \<in> r \<and> (b, c) \<in> r\<^sup>*)"
  by (metis converse_rtranclE converse_rtrancl_into_rtrancl rtrancl.rtrancl_refl)

lemma finite_acyclic_reaches_sink:
  assumes "finite r" "acyclic r"
  shows "\<exists>s. (x, s) \<in> r\<^sup>* \<and> (\<forall>y. (s, y) \<notin> r)"
proof -
  have "wf (r\<inverse>)" using assms by (simp add: finite_acyclic_wf_converse)
  then show ?thesis
  proof (induction x rule: wf_induct_rule)
    case (less x)
    show ?case
    proof (cases "\<exists>y. (x, y) \<in> r")
      case True
      then obtain y where "(x, y) \<in> r" by blast
      with less show ?thesis by (meson converse_iff converse_rtrancl_into_rtrancl)
    qed blast
  qed
qed

text \<open>An ordering with every dependency before its dependent rules out cycles.\<close>

lemma deps_before_acyclic:
  assumes "deps_before D {} xs" "distinct xs" "r \<subseteq> {(d, n). d \<in> D n \<and> n \<in> set xs}"
  shows "acyclic r"
proof -
  have "acyclic {(d, n). d \<in> D n \<and> n \<in> set xs}"
    using assms(1,2)
  proof (induction xs rule: rev_induct)
    case Nil
    then show ?case by (simp add: acyclic_def)
  next
    case (snoc x xs)
    let ?r = "{(d, n). d \<in> D n \<and> n \<in> set xs}"
    have x: "D x \<subseteq> set xs" and ac: "acyclic ?r"
      using snoc by (auto simp: deps_before_append)
    have dom: "D n \<subseteq> set xs" if "n \<in> set xs" for n
      using snoc.prems that deps_before_closed [of D "{}" xs n] by (simp add: deps_before_append)
    have "acyclic ((?r \<union> D x \<times> {x})\<inverse>)"
    proof -
      have "acyclic (?r\<inverse> \<union> {x} \<times> D x)"
        using ac x dom snoc.prems(2) by (intro acyclic_insert_source) auto
      then show ?thesis by (simp add: converse_Un converse_Times)
    qed
    then have "acyclic (?r \<union> D x \<times> {x})" by (simp only: acyclic_converse)
    moreover have "{(d, n). d \<in> D n \<and> n \<in> set (xs @ [x])} = ?r \<union> D x \<times> {x}"
      by auto
    ultimately show ?case by simp
  qed
  then show ?thesis using assms(3) by (rule acyclic_subset)
qed

lemma update_new_key: "k \<notin> fst ` set m \<Longrightarrow> AList.update k v m = m @ [(k, v)]"
  by (induction m) auto

text \<open>Bounds for the elements of a list give a bound for the list.\<close>

lemma enough_for_all:
  assumes "\<And>x. x \<in> set xs \<Longrightarrow> \<exists>n. \<forall>d \<ge> n. P d x"
  shows "\<exists>n. \<forall>d \<ge> n. \<forall>x \<in> set xs. P (d::nat) x"
  using assms
proof (induction xs)
  case (Cons x xs)
  then obtain n m where "\<forall>d \<ge> n. P d x" "\<forall>d \<ge> m. \<forall>x \<in> set xs. P d x" by (metis list.set_intros)
  then have "\<forall>d \<ge> max n m. \<forall>y \<in> set (x # xs). P d y" by auto
  then show ?case by blast
qed simp

end
