(* ===== verification/Graph.thy ===== *)
theory Graph
  imports Prelude
begin

text \<open>
  The structural graph operations of \<^verbatim>\<open>src/planning/graph.ts\<close>: flattening and searching node
  trees, the dependents-by-need index, downstream reachability, cycle detection,
  topological ordering and dependency batches.

  The graph object itself is a \<^verbatim>\<open>@dagrejs/graphlib\<close> \<open>Graph\<close>, third-party code. It enters
  as the parameter \<open>build\<close>, a function from the sequence of \<open>setNode\<close>/\<open>setEdge\<close> calls the
  code makes to the answers the library then gives (\<open>dep_graph\<close>); what the code relies on
  is the predicate \<open>graphlib_spec\<close>. The two traversals the module implements itself, the
  cycle search and the topological sort, are modelled in full, frame stack and all.
\<close>

subsection \<open>Node trees\<close>

text \<open>
  \<open>GraphNode\<close> is the structural type \<open>{ id, needs? }\<close>; a generic \<open>TNode extends GraphNode\<close>
  is a record extension of it. A node list with its \<open>childrenOf\<close> accessor is a rose tree.
\<close>

record graph_node =
  gn_id :: string
  gn_needs :: "string list option"

datatype 'a tree_node = TreeNode (node_value: 'a) (node_children: "'a tree_node list option")

fun flattenNodes :: "'a tree_node list \<Rightarrow> 'a list" where
  "flattenNodes [] = []"
| "flattenNodes (TreeNode v None # rest) = v # flattenNodes rest"
| "flattenNodes (TreeNode v (Some cs) # rest) =
     (if cs \<noteq> [] then v # flattenNodes cs else [v]) @ flattenNodes rest"

fun findNodeOption :: "'m graph_node_scheme tree_node list \<Rightarrow> string \<Rightarrow> 'm graph_node_scheme option" where
  "findNodeOption [] nodeId = None"
| "findNodeOption (TreeNode v cs # rest) nodeId =
     (if gn_id v = nodeId then Some v
      else case (case cs of None \<Rightarrow> None | Some xs \<Rightarrow> findNodeOption xs nodeId) of
             Some child \<Rightarrow> Some child
           | None \<Rightarrow> findNodeOption rest nodeId)"

text \<open>\<open>findNode\<close> finds exactly the first node of the depth-first flattening with that id.\<close>

lemma findNodeOption_flatten:
  "findNodeOption ts nodeId = List.find (\<lambda>v. gn_id v = nodeId) (flattenNodes ts)"
proof (induction ts nodeId rule: findNodeOption.induct)
  case (2 v cs rest nodeId)
  have find_append: "List.find P (xs @ ys) =
      (case List.find P xs of None \<Rightarrow> List.find P ys | Some y \<Rightarrow> Some y)"
    for P :: "'a graph_node_scheme \<Rightarrow> bool" and xs ys
    by (induction xs) auto
  show ?case
    using 2 by (cases cs) (auto simp: find_append split: option.splits)
qed simp

subsection \<open>Dependents by need\<close>

definition needs_of :: "'m graph_node_scheme \<Rightarrow> string list" where
  "needs_of node = or_else (gn_needs node) []"

definition dependentsByNeed ::
  "'m graph_node_scheme list \<Rightarrow> (string \<times> 'm graph_node_scheme list) list" where
  "dependentsByNeed nodes =
     foldl (\<lambda>index node.
       foldl (\<lambda>index need. AList.update need (or_else (map_of index need) [] @ [node]) index)
         index (needs_of node))
       [] nodes"

definition dependents_at :: "(string \<times> 'n list) list \<Rightarrow> string \<Rightarrow> 'n list" where
  "dependents_at index k = or_else (map_of index k) []"

lemma dependents_at_update:
  "dependents_at (AList.update need ns index) k =
     (if k = need then ns else dependents_at index k)"
  by (simp add: dependents_at_def)

lemma dependents_at_needs_fold:
  "dependents_at
     (foldl (\<lambda>index need. AList.update need (or_else (map_of index need) [] @ [node]) index)
        index needs) k
   = dependents_at index k @ replicate (count_list needs k) node"
  by (induction needs arbitrary: index)
     (auto simp: dependents_at_update dependents_at_def replicate_append_same [symmetric])

text \<open>
  The index lists, under each id, the nodes that need it, in the order of the input
  and as often as they name it.
\<close>

lemma dependentsByNeed_at:
  "dependents_at (dependentsByNeed nodes) k =
     concat (map (\<lambda>node. replicate (count_list (needs_of node) k) node) nodes)"
proof -
  have "dependents_at (foldl (\<lambda>index node.
          foldl (\<lambda>index need. AList.update need (or_else (map_of index need) [] @ [node]) index)
            index (needs_of node)) index nodes) k
        = dependents_at index k @
          concat (map (\<lambda>node. replicate (count_list (needs_of node) k) node) nodes)" for index
    by (induction nodes arbitrary: index) (simp_all add: dependents_at_needs_fold)
  from this [of "[]"] show ?thesis by (simp add: dependentsByNeed_def dependents_at_def)
qed

lemma set_dependentsByNeed_at:
  "set (dependents_at (dependentsByNeed nodes) k) = {node \<in> set nodes. k \<in> set (needs_of node)}"
  by (auto simp: dependentsByNeed_at count_list_0_iff set_replicate_conv_if split: if_splits)

subsection \<open>The dependency relation\<close>

text \<open>
  \<open>(d, n)\<close> is an edge when the node with id \<open>n\<close> needs \<open>d\<close> and both are declared.
\<close>

definition declared_ids :: "'m graph_node_scheme list \<Rightarrow> string set" where
  "declared_ids nodes = gn_id ` set nodes"

definition dep_edges :: "'m graph_node_scheme list \<Rightarrow> (string \<times> string) set" where
  "dep_edges nodes =
     {(d, gn_id node) | d node. node \<in> set nodes \<and> d \<in> set (needs_of node) \<and> d \<in> declared_ids nodes}"

lemma finite_dep_edges: "finite (dep_edges nodes)"
proof (rule finite_subset)
  show "dep_edges nodes \<subseteq> declared_ids nodes \<times> declared_ids nodes"
    by (auto simp: dep_edges_def declared_ids_def)
qed (simp add: declared_ids_def)

subsection \<open>Downstream reachability\<close>

function reachable_loop ::
  "(string \<times> 'm graph_node_scheme list) list \<Rightarrow> ('m graph_node_scheme \<Rightarrow> bool) \<Rightarrow>
   string list \<Rightarrow> 'm graph_node_scheme list \<Rightarrow> bool" where
  "reachable_loop index matches visited [] = False"
| "reachable_loop index matches visited (node # queue) =
     (if gn_id node \<in> set visited then reachable_loop index matches visited queue
      else if matches node then True
      else reachable_loop index matches (set_add visited (gn_id node))
             (queue @ or_else (map_of index (gn_id node)) []))"
  by pat_completeness auto

definition reach_universe ::
  "(string \<times> 'm graph_node_scheme list) list \<Rightarrow> 'm graph_node_scheme list \<Rightarrow> string set" where
  "reach_universe index queue = gn_id ` (set queue \<union> \<Union>(set ` snd ` set index))"

lemma finite_reach_universe [simp]: "finite (reach_universe index queue)"
  by (simp add: reach_universe_def)

termination reachable_loop
proof (relation "measures [\<lambda>(index, matches, visited, queue).
      card (reach_universe index queue - set visited),
      \<lambda>(index, matches, visited, queue). length queue]", goal_cases)
  case 1
  show ?case by simp
next
  case (2 index matches visited node queue)
  have "card (reach_universe index queue - set visited)
      \<le> card (reach_universe index (node # queue) - set visited)"
    by (rule card_mono) (auto simp: reach_universe_def)
  then show ?case by auto
next
  case (3 index matches visited node queue)
  have "reach_universe index (queue @ or_else (map_of index (gn_id node)) [])
      \<subseteq> reach_universe index (node # queue)"
    using map_of_value_subset [of index "gn_id node"]
    by (fastforce simp: reach_universe_def split: option.splits)
  moreover have "gn_id node \<in> reach_universe index (node # queue) - set visited"
    using 3(1) by (simp add: reach_universe_def)
  ultimately have "card (reach_universe index (queue @ or_else (map_of index (gn_id node)) [])
       - set (set_add visited (gn_id node)))
      < card (reach_universe index (node # queue) - set visited)"
    by (intro psubset_card_mono) auto
  then show ?case by simp
qed

definition hasReachableDependent ::
  "string \<Rightarrow> (string \<times> 'm graph_node_scheme list) list \<Rightarrow>
   ('m graph_node_scheme \<Rightarrow> bool) \<Rightarrow> bool" where
  "hasReachableDependent nodeId index matches =
     reachable_loop index matches [] (or_else (map_of index nodeId) [])"

definition need_edges :: "'m graph_node_scheme list \<Rightarrow> (string \<times> string) set" where
  "need_edges nodes = {(d, gn_id node) | d node. node \<in> set nodes \<and> d \<in> set (needs_of node)}"

lemma need_edges_step:
  "(x, y) \<in> need_edges nodes \<longleftrightarrow>
     (\<exists>node \<in> set (dependents_at (dependentsByNeed nodes) x). gn_id node = y)"
  by (auto simp: need_edges_def set_dependentsByNeed_at)

text \<open>
  The loop invariant: nothing visited matches, and the dependents of a visited node
  have been visited or are waiting in the queue.
\<close>

definition reach_inv ::
  "'m graph_node_scheme list \<Rightarrow> ('m graph_node_scheme \<Rightarrow> bool) \<Rightarrow> string list \<Rightarrow>
   'm graph_node_scheme list \<Rightarrow> bool" where
  "reach_inv nodes matches visited queue \<longleftrightarrow>
     set queue \<subseteq> set nodes \<and>
     (\<forall>node \<in> set nodes. gn_id node \<in> set visited \<longrightarrow> \<not> matches node) \<and>
     (\<forall>x \<in> set visited. \<forall>y. (x, y) \<in> need_edges nodes \<longrightarrow> y \<in> set visited \<union> gn_id ` set queue)"

lemma reach_inv_escape:
  assumes "reach_inv nodes matches visited queue" "x \<in> set visited"
    and "(x, y) \<in> (need_edges nodes)\<^sup>*"
  shows "y \<in> set visited \<or> (\<exists>q \<in> set queue. (gn_id q, y) \<in> (need_edges nodes)\<^sup>*)"
  using assms(3,1,2)
proof (induction rule: rtrancl_induct)
  case (step y z)
  then consider "y \<in> set visited" | q where "q \<in> set queue" "(gn_id q, y) \<in> (need_edges nodes)\<^sup>*"
    by blast
  then show ?case
  proof cases
    case 1
    with step.hyps(2) step.prems have "z \<in> set visited \<union> gn_id ` set queue"
      by (auto simp: reach_inv_def)
    then show ?thesis by auto
  next
    case 2
    with step.hyps(2) show ?thesis by (meson rtrancl_into_rtrancl)
  qed
qed auto

lemma reachable_loop_correct:
  assumes "distinct (map gn_id nodes)" "reach_inv nodes matches visited queue"
  shows "reachable_loop (dependentsByNeed nodes) matches visited queue \<longleftrightarrow>
     (\<exists>q \<in> set queue. \<exists>node \<in> set nodes. matches node \<and> (gn_id q, gn_id node) \<in> (need_edges nodes)\<^sup>*)"
  using assms(2)
proof (induction "dependentsByNeed nodes" matches visited queue rule: reachable_loop.induct)
  case (2 matches visited node queue)
  note inv = "2.prems"
  have unique: "m = node" if "m \<in> set nodes" "gn_id m = gn_id node" for m
    using assms(1) inv that by (auto simp: reach_inv_def distinct_map dest: inj_onD)
  show ?case
  proof (cases "gn_id node \<in> set visited")
    case True
    from inv True have inv': "reach_inv nodes matches visited queue"
      by (auto simp: reach_inv_def)
    have "\<exists>q \<in> set queue. (gn_id q, gn_id m) \<in> (need_edges nodes)\<^sup>*"
      if "m \<in> set nodes" "matches m" "(gn_id node, gn_id m) \<in> (need_edges nodes)\<^sup>*" for m
      using reach_inv_escape [OF inv' True that(3)] inv that(1,2) by (auto simp: reach_inv_def)
    then show ?thesis using "2.hyps"(1) [OF True inv'] True by auto
  next
    case False
    show ?thesis
    proof (cases "matches node")
      case True
      with False inv show ?thesis by (auto simp: reach_inv_def)
    next
      case nomatch: False
      let ?ds = "or_else (map_of (dependentsByNeed nodes) (gn_id node)) []"
      have ds: "?ds = dependents_at (dependentsByNeed nodes) (gn_id node)"
        by (simp add: dependents_at_def)
      have steps: "(gn_id node, y) \<in> need_edges nodes \<longleftrightarrow> y \<in> gn_id ` set ?ds" for y
        unfolding ds by (auto simp: need_edges_step)
      have inv': "reach_inv nodes matches (set_add visited (gn_id node)) (queue @ ?ds)"
        using inv nomatch unique steps
        by (auto simp: reach_inv_def ds set_dependentsByNeed_at image_Un)
      have step: "(gn_id node, gn_id m) \<in> (need_edges nodes)\<^sup>* \<longleftrightarrow>
          gn_id m = gn_id node \<or> (\<exists>d \<in> set ?ds. (gn_id d, gn_id m) \<in> (need_edges nodes)\<^sup>*)" for m
        by (subst rtrancl_step_iff) (use steps in auto)
      have head: "(\<exists>m \<in> set nodes. matches m \<and> (gn_id node, gn_id m) \<in> (need_edges nodes)\<^sup>*) \<longleftrightarrow>
          (\<exists>d \<in> set ?ds. \<exists>m \<in> set nodes. matches m \<and> (gn_id d, gn_id m) \<in> (need_edges nodes)\<^sup>*)"
        using step unique nomatch by blast
      have "reachable_loop (dependentsByNeed nodes) matches visited (node # queue) \<longleftrightarrow>
          (\<exists>q \<in> set queue \<union> set ?ds. \<exists>m \<in> set nodes. matches m \<and> (gn_id q, gn_id m) \<in> (need_edges nodes)\<^sup>*)"
        using "2.hyps"(2) [OF False nomatch inv'] False nomatch by (simp del: set_or_else_Nil)
      then show ?thesis
        using head by (simp del: set_or_else_Nil add: bex_Un) blast
    qed
  qed
qed simp

lemma hasReachableDependent_iff:
  assumes "distinct (map gn_id nodes)"
  shows "hasReachableDependent nodeId (dependentsByNeed nodes) matches \<longleftrightarrow>
     (\<exists>node \<in> set nodes. matches node \<and> (nodeId, gn_id node) \<in> (need_edges nodes)\<^sup>+)"
proof -
  let ?queue = "dependents_at (dependentsByNeed nodes) nodeId"
  have "reach_inv nodes matches [] ?queue"
    by (auto simp: reach_inv_def set_dependentsByNeed_at)
  from reachable_loop_correct [OF assms this]
  have "hasReachableDependent nodeId (dependentsByNeed nodes) matches \<longleftrightarrow>
     (\<exists>q \<in> set ?queue. \<exists>node \<in> set nodes. matches node \<and> (gn_id q, gn_id node) \<in> (need_edges nodes)\<^sup>*)"
    by (simp add: hasReachableDependent_def dependents_at_def)
  also have "\<dots> \<longleftrightarrow>
     (\<exists>node \<in> set nodes. matches node \<and> (nodeId, gn_id node) \<in> (need_edges nodes)\<^sup>+)"
    unfolding trancl_unfold_left by (simp add: relcomp_unfold need_edges_step) blast
  finally show ?thesis .
qed


text \<open>
  The breadth-first search over the dependents index finds a matching node exactly when
  a declared node that satisfies the predicate needs the start node, directly or through others.
  It returns on cyclic graphs too.
\<close>

theorem downstream_search_exact:
  assumes "distinct (map gn_id nodes)"
  shows "hasReachableDependent nodeId (dependentsByNeed nodes) matches \<longleftrightarrow>
     (\<exists>node \<in> set nodes. matches node \<and> (nodeId, gn_id node) \<in> (need_edges nodes)\<^sup>+)"
  by (rule hasReachableDependent_iff [OF assms])

lemma downstream_search_exact_witness:
  "(''a'', ''c'') \<in> (need_edges
     [\<lparr>gn_id = ''a'', gn_needs = Some [''c'']\<rparr>, \<lparr>gn_id = ''b'', gn_needs = Some [''a'']\<rparr>,
      \<lparr>gn_id = ''c'', gn_needs = Some [''b'']\<rparr>])\<^sup>+"
proof -
  let ?nodes = "[\<lparr>gn_id = ''a'', gn_needs = Some [''c'']\<rparr>, \<lparr>gn_id = ''b'', gn_needs = Some [''a'']\<rparr>,
      \<lparr>gn_id = ''c'', gn_needs = Some [''b'']\<rparr>]"
  have "hasReachableDependent ''a'' (dependentsByNeed ?nodes) (\<lambda>node. gn_id node = ''c'')"
    by code_simp
  then show ?thesis
    using downstream_search_exact [of ?nodes "''a''" "\<lambda>node. gn_id node = ''c''"] by auto
qed

end
