(* ===== verification/Cycles.thy ===== *)
theory Cycles
  imports Graph
begin

text \<open>
  The dependency-cycle search of \<^verbatim>\<open>src/planning/graph.ts\<close> (\<open>findDependencyCycles\<close> and the
  iterative depth-first visit under it), with its frame stack, visit marks, path index and
  cycle keys. The lemmas show that the search terminates, that every reported list is a
  cycle of the dependency relation, that no member set is reported twice, and that an
  empty report means the relation is acyclic.

  The frame stack is a list whose head is the top of the stack, \<open>frames.at(-1)\<close>. A node id
  that is the empty string is falsy, so \<open>if (!dependentId)\<close> takes it for the end of the
  dependents: \<open>truthy\<close> keeps that.
\<close>

subsection \<open>The search\<close>

datatype visit_mark = Visiting | Done

record cycle_visit_state =
  cv_cycleKeys :: "string list"
  cv_cycles :: "string list list"
  cv_path :: "string list"
  cv_pathIndex :: "(string \<times> nat) list"
  cv_state :: "(string \<times> visit_mark) list"

record visit_frame =
  vf_index :: nat
  vf_nodeId :: string

definition markVisiting :: "string \<Rightarrow> cycle_visit_state \<Rightarrow> cycle_visit_state" where
  "markVisiting nodeId vs =
     vs\<lparr>cv_state := AList.update nodeId Visiting (cv_state vs),
        cv_pathIndex := AList.update nodeId (length (cv_path vs)) (cv_pathIndex vs),
        cv_path := cv_path vs @ [nodeId]\<rparr>"

definition markDone :: "string \<Rightarrow> cycle_visit_state \<Rightarrow> cycle_visit_state" where
  "markDone nodeId vs =
     vs\<lparr>cv_state := AList.update nodeId Done (cv_state vs),
        cv_pathIndex := AList.delete nodeId (cv_pathIndex vs),
        cv_path := butlast (cv_path vs)\<rparr>"

definition cycle_key :: "string list \<Rightarrow> string" where
  "cycle_key cycle = (case sort cycle of [] \<Rightarrow> [] | s # ss \<Rightarrow> s @ concat (map (\<lambda>t. CHR 0x00 # t) ss))"

definition recordCycle :: "string \<Rightarrow> cycle_visit_state \<Rightarrow> cycle_visit_state" where
  "recordCycle nodeId vs =
     (case map_of (cv_pathIndex vs) nodeId of
        None \<Rightarrow> vs
      | Some startIndex \<Rightarrow>
          let cycle = drop startIndex (cv_path vs); key = cycle_key cycle in
          if key \<in> set (cv_cycleKeys vs) then vs
          else vs\<lparr>cv_cycleKeys := set_add (cv_cycleKeys vs) key,
                  cv_cycles := cv_cycles vs @ [cycle]\<rparr>)"

definition adjacent :: "(string \<times> string list) list \<Rightarrow> string \<Rightarrow> string list" where
  "adjacent adjacency nodeId = or_else (map_of adjacency nodeId) []"

function visit_loop ::
  "(string \<times> string list) list \<Rightarrow> visit_frame list \<Rightarrow> cycle_visit_state \<Rightarrow> cycle_visit_state" where
  "visit_loop adjacency [] vs = vs"
| "visit_loop adjacency (frame # frames) vs =
     (case truthy (js_nth (adjacent adjacency (vf_nodeId frame)) (vf_index frame)) of
        None \<Rightarrow> visit_loop adjacency frames (markDone (vf_nodeId frame) vs)
      | Some dependentId \<Rightarrow>
          let frame' = frame\<lparr>vf_index := Suc (vf_index frame)\<rparr> in
          (case map_of (cv_state vs) dependentId of
             Some Visiting \<Rightarrow> visit_loop adjacency (frame' # frames) (recordCycle dependentId vs)
           | Some Done \<Rightarrow> visit_loop adjacency (frame' # frames) vs
           | None \<Rightarrow> visit_loop adjacency (\<lparr>vf_index = 0, vf_nodeId = dependentId\<rparr> # frame' # frames)
                       (markVisiting dependentId vs)))"
  by pat_completeness auto

lemma recordCycle_frame [simp]:
  "cv_state (recordCycle n vs) = cv_state vs"
  "cv_path (recordCycle n vs) = cv_path vs"
  "cv_pathIndex (recordCycle n vs) = cv_pathIndex vs"
  by (simp_all add: recordCycle_def Let_def split: option.splits)

lemma markVisiting_simps [simp]:
  "map_of (cv_state (markVisiting n vs)) = (map_of (cv_state vs))(n \<mapsto> Visiting)"
  "cv_path (markVisiting n vs) = cv_path vs @ [n]"
  "map_of (cv_pathIndex (markVisiting n vs)) = (map_of (cv_pathIndex vs))(n \<mapsto> length (cv_path vs))"
  "cv_cycles (markVisiting n vs) = cv_cycles vs"
  "cv_cycleKeys (markVisiting n vs) = cv_cycleKeys vs"
  by (simp_all add: markVisiting_def)

lemma markDone_simps [simp]:
  "map_of (cv_state (markDone n vs)) = (map_of (cv_state vs))(n \<mapsto> Done)"
  "cv_path (markDone n vs) = butlast (cv_path vs)"
  "map_of (cv_pathIndex (markDone n vs)) = (map_of (cv_pathIndex vs))(n := None)"
  "cv_cycles (markDone n vs) = cv_cycles vs"
  "cv_cycleKeys (markDone n vs) = cv_cycleKeys vs"
  by (simp_all add: markDone_def)

definition unvisited :: "(string \<times> string list) list \<Rightarrow> cycle_visit_state \<Rightarrow> string set" where
  "unvisited adjacency vs = \<Union>(set ` snd ` set adjacency) - dom (map_of (cv_state vs))"

definition frame_work :: "(string \<times> string list) list \<Rightarrow> visit_frame \<Rightarrow> nat" where
  "frame_work adjacency frame =
     Suc (length (adjacent adjacency (vf_nodeId frame)) - vf_index frame)"

lemma adjacent_in_universe:
  "d \<in> set (adjacent adjacency n) \<Longrightarrow> d \<in> \<Union>(set ` snd ` set adjacency)"
  using map_of_value_subset [of adjacency n]
  by (auto simp: adjacent_def split: option.splits)

lemma finite_unvisited [simp]: "finite (unvisited adjacency vs)"
  by (simp add: unvisited_def)

lemma frame_work_step:
  "truthy (js_nth (adjacent adjacency (vf_nodeId frame)) (vf_index frame)) = Some d \<Longrightarrow>
   frame_work adjacency (frame\<lparr>vf_index := Suc (vf_index frame)\<rparr>) < frame_work adjacency frame"
  by (auto simp: frame_work_def truthy_Some_iff js_nth_Some_iff)

termination visit_loop
proof (relation "measures [\<lambda>(adjacency, frames, vs). card (unvisited adjacency vs),
    \<lambda>(adjacency, frames, vs). sum_list (map (frame_work adjacency) frames)]", goal_cases)
  case 1
  show ?case by simp
next
  case (2 adjacency frame frames vs)
  have "card (unvisited adjacency (markDone (vf_nodeId frame) vs)) \<le> card (unvisited adjacency vs)"
    by (rule card_mono) (auto simp: unvisited_def)
  moreover have "0 < frame_work adjacency frame" by (simp add: frame_work_def)
  ultimately show ?case by auto
next
  case (3 adjacency frame frames vs d)
  have "d \<in> unvisited adjacency vs"
    using 3 adjacent_in_universe [OF js_nth_in_set]
    by (auto simp: unvisited_def truthy_Some_iff)
  then have "card (unvisited adjacency (markVisiting d vs)) < card (unvisited adjacency vs)"
    by (intro psubset_card_mono) (auto simp: unvisited_def)
  then show ?case by simp
next
  case (4 adjacency frame frames vs d f m)
  then show ?case using frame_work_step by (simp add: unvisited_def)
next
  case (5 adjacency frame frames vs d f m)
  then show ?case using frame_work_step by simp
qed

definition visitForCycles ::
  "(string \<times> string list) list \<Rightarrow> string \<Rightarrow> cycle_visit_state \<Rightarrow> cycle_visit_state" where
  "visitForCycles adjacency startId vs =
     visit_loop adjacency [\<lparr>vf_index = 0, vf_nodeId = startId\<rparr>] (markVisiting startId vs)"

definition cycle_adjacency :: "'m graph_node_scheme list \<Rightarrow> (string \<times> string list) list" where
  "cycle_adjacency nodes =
     (let nodeIds = map gn_id nodes; index = dependentsByNeed nodes in
      foldl (\<lambda>adjacency node.
         AList.update (gn_id node)
           (filter (\<lambda>id. id \<in> set nodeIds) (map gn_id (or_else (map_of index (gn_id node)) [])))
           adjacency)
        [] nodes)"

definition findDependencyCycles :: "'m graph_node_scheme list \<Rightarrow> string list list" where
  "findDependencyCycles nodes =
     cv_cycles (foldl (\<lambda>vs node.
         if map_of (cv_state vs) (gn_id node) \<noteq> None then vs
         else visitForCycles (cycle_adjacency nodes) (gn_id node) vs)
       \<lparr>cv_cycleKeys = [], cv_cycles = [], cv_path = [], cv_pathIndex = [], cv_state = []\<rparr> nodes)"

subsection \<open>Reported cycles are cycles\<close>

definition adj_rel :: "(string \<times> string list) list \<Rightarrow> (string \<times> string) set" where
  "adj_rel adjacency = {(a, b). b \<in> set (adjacent adjacency a)}"

definition is_cycle :: "(string \<times> string) set \<Rightarrow> string list \<Rightarrow> bool" where
  "is_cycle E c \<longleftrightarrow>
     c \<noteq> [] \<and> distinct c \<and> successively (\<lambda>a b. (a, b) \<in> E) c \<and> (last c, hd c) \<in> E"

lemma successively_rtrancl:
  "successively (\<lambda>a b. (a, b) \<in> E) c \<Longrightarrow> c \<noteq> [] \<Longrightarrow> (hd c, last c) \<in> E\<^sup>*"
  by (induction c rule: induct_list012) (auto intro: converse_rtrancl_into_rtrancl)

lemma is_cycle_trancl: "is_cycle E c \<Longrightarrow> (hd c, hd c) \<in> E\<^sup>+"
  by (auto simp: is_cycle_def intro: rtrancl_into_trancl1 successively_rtrancl)

text \<open>
  The path invariant: the nodes on the path are pairwise different and exactly the ones
  marked visiting, the path index locates them, each is a dependent of the one before, and
  the cycles recorded so far are cycles with pairwise different keys.
\<close>

definition path_ok :: "(string \<times> string list) list \<Rightarrow> cycle_visit_state \<Rightarrow> bool" where
  "path_ok adjacency vs \<longleftrightarrow>
     distinct (cv_path vs) \<and>
     (\<forall>n. map_of (cv_state vs) n = Some Visiting \<longleftrightarrow> n \<in> set (cv_path vs)) \<and>
     (\<forall>i < length (cv_path vs). map_of (cv_pathIndex vs) (cv_path vs ! i) = Some i) \<and>
     successively (\<lambda>a b. (a, b) \<in> adj_rel adjacency) (cv_path vs) \<and>
     (\<forall>c \<in> set (cv_cycles vs). is_cycle (adj_rel adjacency) c) \<and>
     cv_cycleKeys vs = map cycle_key (cv_cycles vs) \<and> distinct (cv_cycleKeys vs)"

lemma path_ok_markVisiting [inv_intros]:
  assumes ok: "path_ok adjacency vs" and new: "map_of (cv_state vs) d = None"
    and edge: "cv_path vs \<noteq> [] \<Longrightarrow> (last (cv_path vs), d) \<in> adj_rel adjacency"
  shows "path_ok adjacency (markVisiting d vs)"
proof -
  have d: "d \<notin> set (cv_path vs)"
    using ok new unfolding path_ok_def by (metis option.distinct(1))
  have idx: "map_of (cv_pathIndex (markVisiting d vs)) ((cv_path vs @ [d]) ! i) = Some i"
    if "i < length (cv_path vs @ [d])" for i
    using ok d that nth_mem unfolding path_ok_def
    by (cases "i = length (cv_path vs)") (fastforce simp: nth_append)+
  have succ: "successively (\<lambda>a b. (a, b) \<in> adj_rel adjacency) (cv_path vs @ [d])"
    using ok edge by (auto simp: path_ok_def successively_append_iff)
  show ?thesis
    using ok d idx succ unfolding path_ok_def by auto
qed

lemma path_ok_markDone [inv_intros]:
  assumes ok: "path_ok adjacency vs" and p: "cv_path vs = p @ [n]"
  shows "path_ok adjacency (markDone n vs)"
proof -
  have n: "n \<notin> set p" using ok p by (simp add: path_ok_def)
  have idx: "map_of (cv_pathIndex (markDone n vs)) (p ! i) = Some i" if "i < length p" for i
  proof -
    have "map_of (cv_pathIndex vs) (cv_path vs ! i) = Some i"
      using ok p that by (simp add: path_ok_def)
    then show ?thesis using n that nth_mem [OF that] by (auto simp: p nth_append)
  qed
  have succ: "successively (\<lambda>a b. (a, b) \<in> adj_rel adjacency) p"
    using ok p by (simp add: path_ok_def successively_append_iff)
  show ?thesis
    using ok n idx succ unfolding path_ok_def by (auto simp: p)
qed

lemma recordCycle_visiting:
  assumes "path_ok adjacency vs" "map_of (cv_state vs) d = Some Visiting"
  obtains i where "i < length (cv_path vs)" "cv_path vs ! i = d"
    "map_of (cv_pathIndex vs) d = Some i"
  using assms unfolding path_ok_def by (metis in_set_conv_nth)

lemma path_ok_recordCycle [inv_intros]:
  assumes ok: "path_ok adjacency vs" and d: "map_of (cv_state vs) d = Some Visiting"
    and edge: "(last (cv_path vs), d) \<in> adj_rel adjacency"
  shows "path_ok adjacency (recordCycle d vs)"
proof -
  obtain i where i: "i < length (cv_path vs)" "cv_path vs ! i = d"
      "map_of (cv_pathIndex vs) d = Some i"
    using recordCycle_visiting [OF ok d] .
  let ?c = "drop i (cv_path vs)"
  have "successively (\<lambda>a b. (a, b) \<in> adj_rel adjacency) (take i (cv_path vs) @ ?c)"
    using ok by (simp add: path_ok_def)
  then have "successively (\<lambda>a b. (a, b) \<in> adj_rel adjacency) ?c"
    unfolding successively_append_iff by blast
  then have "is_cycle (adj_rel adjacency) ?c"
    using ok i edge by (simp add: is_cycle_def hd_drop_conv_nth path_ok_def)
  then show ?thesis
    using ok i unfolding path_ok_def by (auto simp: recordCycle_def Let_def set_add_def)
qed

lemma recordCycle_nonempty:
  assumes ok: "path_ok adjacency vs" and "map_of (cv_state vs) d = Some Visiting"
  shows "cv_cycles (recordCycle d vs) \<noteq> []"
proof -
  obtain i where "map_of (cv_pathIndex vs) d = Some i"
    using recordCycle_visiting [OF assms] by metis
  moreover have "cv_cycleKeys vs = map cycle_key (cv_cycles vs)"
    using ok by (simp add: path_ok_def)
  ultimately show ?thesis by (auto simp: recordCycle_def Let_def)
qed

lemma recordCycle_keeps: "set (cv_cycles vs) \<subseteq> set (cv_cycles (recordCycle d vs))"
  by (auto simp: recordCycle_def Let_def split: option.splits)

subsection \<open>An empty report means acyclic\<close>

text \<open>
  While nothing has been recorded, the finished nodes are closed under the relation and
  acyclic, and each frame's dependents up to its index are finished, the one being visited
  by the frame above excepted.
\<close>

definition done_set :: "cycle_visit_state \<Rightarrow> string set" where
  "done_set vs = {n. map_of (cv_state vs) n = Some Done}"

definition done_ok :: "(string \<times> string list) list \<Rightarrow> cycle_visit_state \<Rightarrow> bool" where
  "done_ok adjacency vs \<longleftrightarrow>
     (\<forall>a \<in> done_set vs. set (adjacent adjacency a) \<subseteq> done_set vs) \<and>
     acyclic (adj_rel adjacency \<inter> done_set vs \<times> done_set vs)"

fun frames_ok ::
  "(string \<times> string list) list \<Rightarrow> string set \<Rightarrow> string set \<Rightarrow> visit_frame list \<Rightarrow> bool" where
  "frames_ok adjacency D cur [] \<longleftrightarrow> True"
| "frames_ok adjacency D cur (f # fs) \<longleftrightarrow>
     set (take (vf_index f) (adjacent adjacency (vf_nodeId f))) \<subseteq> D \<union> cur \<and>
     frames_ok adjacency D {vf_nodeId f} fs"

lemma frames_ok_mono:
  "frames_ok adjacency D cur fs \<Longrightarrow> D \<subseteq> D' \<Longrightarrow> cur \<subseteq> D' \<union> cur' \<Longrightarrow>
   frames_ok adjacency D' cur' fs"
proof (induction fs arbitrary: cur cur')
  case (Cons f fs)
  then have "frames_ok adjacency D' {vf_nodeId f} fs"
    by (intro Cons.IH [of "{vf_nodeId f}"]) auto
  with Cons.prems show ?case by auto
qed simp

definition visit_inv ::
  "(string \<times> string list) list \<Rightarrow> visit_frame list \<Rightarrow> cycle_visit_state \<Rightarrow> bool" where
  "visit_inv adjacency frames vs \<longleftrightarrow>
     cv_path vs = rev (map vf_nodeId frames) \<and>
     path_ok adjacency vs \<and>
     (cv_cycles vs = [] \<longrightarrow> done_ok adjacency vs \<and> frames_ok adjacency (done_set vs) {} frames)"

lemma done_set_markVisiting:
  "map_of (cv_state vs) d = None \<Longrightarrow> done_set (markVisiting d vs) = done_set vs"
  by (auto simp: done_set_def)

lemma done_set_markDone [simp]: "done_set (markDone n vs) = insert n (done_set vs)"
  by (auto simp: done_set_def)

lemma done_ok_markDone:
  assumes "done_ok adjacency vs" "n \<notin> done_set vs"
    and "set (adjacent adjacency n) \<subseteq> done_set vs"
  shows "done_ok adjacency (markDone n vs)"
proof -
  let ?D = "done_set vs"
  have "adj_rel adjacency \<inter> insert n ?D \<times> insert n ?D =
      (adj_rel adjacency \<inter> ?D \<times> ?D) \<union> {n} \<times> set (adjacent adjacency n)"
    using assms by (auto simp: adj_rel_def done_ok_def)
  moreover have "acyclic ((adj_rel adjacency \<inter> ?D \<times> ?D) \<union> {n} \<times> set (adjacent adjacency n))"
    using assms by (intro acyclic_insert_source) (auto simp: done_ok_def)
  ultimately show ?thesis using assms by (auto simp: done_ok_def)
qed

lemma visit_inv_pop:
  assumes inv: "visit_inv adjacency (frame # frames) vs"
    and ids: "[] \<notin> set (adjacent adjacency (vf_nodeId frame))"
    and none: "truthy (js_nth (adjacent adjacency (vf_nodeId frame)) (vf_index frame)) = None"
  shows "visit_inv adjacency frames (markDone (vf_nodeId frame) vs)"
proof -
  let ?n = "vf_nodeId frame"
  have path: "cv_path vs = rev (map vf_nodeId frames) @ [?n]"
    using inv by (simp add: visit_inv_def)
  have "length (adjacent adjacency ?n) \<le> vf_index frame"
    using none ids by (auto simp: truthy_None_iff js_nth_None_iff dest: js_nth_in_set)
  then have deps: "set (adjacent adjacency ?n) \<subseteq> done_set vs"
    if "cv_cycles vs = []"
    using inv that by (simp add: visit_inv_def)
  have "map_of (cv_state vs) ?n = Some Visiting"
    using inv path by (simp add: visit_inv_def path_ok_def)
  then have "?n \<notin> done_set vs" by (simp add: done_set_def)
  then show ?thesis
    using inv path deps
    by (auto simp: visit_inv_def intro!: path_ok_markDone done_ok_markDone elim: frames_ok_mono)
qed

lemma visit_inv_push:
  assumes inv: "visit_inv adjacency (frame # frames) vs"
    and dep: "js_nth (adjacent adjacency (vf_nodeId frame)) (vf_index frame) = Some d"
    and new: "map_of (cv_state vs) d = None"
  shows "visit_inv adjacency (\<lparr>vf_index = 0, vf_nodeId = d\<rparr> #
           frame\<lparr>vf_index := Suc (vf_index frame)\<rparr> # frames) (markVisiting d vs)"
proof -
  have edge: "(vf_nodeId frame, d) \<in> adj_rel adjacency"
    using dep by (auto simp: adj_rel_def dest: js_nth_in_set)
  have "done_ok adjacency (markVisiting d vs) \<longleftrightarrow> done_ok adjacency vs"
    by (simp add: done_ok_def done_set_markVisiting [OF new])
  then show ?thesis
    using inv dep new edge
    by (auto simp: visit_inv_def done_set_markVisiting [OF new] js_nth_Some_iff
        take_Suc_conv_app_nth intro!: path_ok_markVisiting elim: frames_ok_mono)
qed

lemma visit_inv_back:
  assumes inv: "visit_inv adjacency (frame # frames) vs"
    and dep: "js_nth (adjacent adjacency (vf_nodeId frame)) (vf_index frame) = Some d"
    and vis: "map_of (cv_state vs) d = Some Visiting"
  shows "visit_inv adjacency (frame\<lparr>vf_index := Suc (vf_index frame)\<rparr> # frames) (recordCycle d vs)"
proof -
  have edge: "(last (cv_path vs), d) \<in> adj_rel adjacency"
    using inv dep by (auto simp: visit_inv_def adj_rel_def dest: js_nth_in_set)
  then show ?thesis
    using inv vis recordCycle_nonempty [of adjacency vs d]
    by (auto simp: visit_inv_def intro: path_ok_recordCycle)
qed

lemma visit_inv_skip:
  assumes inv: "visit_inv adjacency (frame # frames) vs"
    and dep: "js_nth (adjacent adjacency (vf_nodeId frame)) (vf_index frame) = Some d"
    and "map_of (cv_state vs) d = Some Done"
  shows "visit_inv adjacency (frame\<lparr>vf_index := Suc (vf_index frame)\<rparr> # frames) vs"
  using assms by (auto simp: visit_inv_def js_nth_Some_iff take_Suc_conv_app_nth done_set_def)

lemma visit_loop_steps:
  "truthy (js_nth (adjacent adjacency (vf_nodeId frame)) (vf_index frame)) = None \<Longrightarrow>
   visit_loop adjacency (frame # frames) vs =
     visit_loop adjacency frames (markDone (vf_nodeId frame) vs)"
  "truthy (js_nth (adjacent adjacency (vf_nodeId frame)) (vf_index frame)) = Some d \<Longrightarrow>
   map_of (cv_state vs) d = None \<Longrightarrow>
   visit_loop adjacency (frame # frames) vs =
     visit_loop adjacency (\<lparr>vf_index = 0, vf_nodeId = d\<rparr> #
       frame\<lparr>vf_index := Suc (vf_index frame)\<rparr> # frames) (markVisiting d vs)"
  "truthy (js_nth (adjacent adjacency (vf_nodeId frame)) (vf_index frame)) = Some d \<Longrightarrow>
   map_of (cv_state vs) d = Some Visiting \<Longrightarrow>
   visit_loop adjacency (frame # frames) vs =
     visit_loop adjacency (frame\<lparr>vf_index := Suc (vf_index frame)\<rparr> # frames) (recordCycle d vs)"
  "truthy (js_nth (adjacent adjacency (vf_nodeId frame)) (vf_index frame)) = Some d \<Longrightarrow>
   map_of (cv_state vs) d = Some Done \<Longrightarrow>
   visit_loop adjacency (frame # frames) vs =
     visit_loop adjacency (frame\<lparr>vf_index := Suc (vf_index frame)\<rparr> # frames) vs"
  by (simp_all add: Let_def)

declare visit_loop.simps(2) [simp del]

lemma visit_loop_inv:
  assumes "\<forall>n. [] \<notin> set (adjacent adjacency n)" "visit_inv adjacency frames vs"
  shows "visit_inv adjacency [] (visit_loop adjacency frames vs) \<and>
     dom (map_of (cv_state vs)) \<subseteq> dom (map_of (cv_state (visit_loop adjacency frames vs)))"
  using assms
proof (induction adjacency frames vs rule: visit_loop.induct)
  case (2 adjacency frame frames vs)
  let ?item = "js_nth (adjacent adjacency (vf_nodeId frame)) (vf_index frame)"
  note inv = "2.prems"(2)
  show ?case
  proof (cases "truthy ?item")
    case None
    then have "visit_inv adjacency frames (markDone (vf_nodeId frame) vs)"
      using "2.prems" by (intro visit_inv_pop) auto
    moreover have "dom (map_of (cv_state vs)) \<subseteq> dom (map_of (cv_state (markDone (vf_nodeId frame) vs)))"
      by auto
    ultimately show ?thesis
      using "2.IH"(1) [OF None] "2.prems"(1) by (simp only: visit_loop_steps(1) [OF None]) blast
  next
    case (Some d)
    then have item: "?item = Some d" by (simp add: truthy_Some_iff)
    show ?thesis
    proof (cases "map_of (cv_state vs) d")
      case None
      have "dom (map_of (cv_state vs)) \<subseteq> dom (map_of (cv_state (markVisiting d vs)))"
        by auto
      with "2.IH"(2) [OF Some refl None] "2.prems"(1) visit_inv_push [OF inv item None]
      show ?thesis by (simp only: visit_loop_steps(2) [OF Some None]) blast
    next
      case mark: (Some m)
      show ?thesis
      proof (cases m)
        case Visiting
        with mark have vis: "map_of (cv_state vs) d = Some Visiting" by simp
        with "2.IH"(3) [OF Some refl mark] "2.prems"(1) visit_inv_back [OF inv item vis] Visiting
        show ?thesis by (simp add: visit_loop_steps(3) [OF Some vis])
      next
        case Done
        with mark have vis: "map_of (cv_state vs) d = Some Done" by simp
        with "2.IH"(4) [OF Some refl mark] "2.prems"(1) visit_inv_skip [OF inv item vis] Done
        show ?thesis by (simp add: visit_loop_steps(4) [OF Some vis])
      qed
    qed
  qed
qed simp

subsection \<open>The whole search\<close>

lemma visitForCycles_inv:
  assumes ids: "\<forall>n. [] \<notin> set (adjacent adjacency n)" and inv: "visit_inv adjacency [] vs"
    and new: "map_of (cv_state vs) startId = None"
  shows "visit_inv adjacency [] (visitForCycles adjacency startId vs) \<and>
     insert startId (dom (map_of (cv_state vs))) \<subseteq>
       dom (map_of (cv_state (visitForCycles adjacency startId vs)))"
proof -
  have "done_ok adjacency (markVisiting startId vs) \<longleftrightarrow> done_ok adjacency vs"
    by (simp add: done_ok_def done_set_markVisiting [OF new])
  then have "visit_inv adjacency [\<lparr>vf_index = 0, vf_nodeId = startId\<rparr>] (markVisiting startId vs)"
    using inv new by (auto simp: visit_inv_def intro: path_ok_markVisiting)
  from visit_loop_inv [OF ids this] show ?thesis by (simp add: visitForCycles_def)
qed

definition search_nodes ::
  "(string \<times> string list) list \<Rightarrow> 'm graph_node_scheme list \<Rightarrow> cycle_visit_state \<Rightarrow> cycle_visit_state" where
  "search_nodes adjacency nodes vs =
     foldl (\<lambda>vs node. if map_of (cv_state vs) (gn_id node) \<noteq> None then vs
                      else visitForCycles adjacency (gn_id node) vs) vs nodes"

lemma search_nodes_inv:
  assumes "\<forall>n. [] \<notin> set (adjacent adjacency n)" "visit_inv adjacency [] vs"
  shows "visit_inv adjacency [] (search_nodes adjacency nodes vs) \<and>
     dom (map_of (cv_state vs)) \<union> declared_ids nodes \<subseteq>
       dom (map_of (cv_state (search_nodes adjacency nodes vs)))"
  using assms(2)
proof (induction nodes arbitrary: vs)
  case Nil
  then show ?case by (simp add: search_nodes_def declared_ids_def)
next
  case (Cons node nodes)
  let ?vs = "if map_of (cv_state vs) (gn_id node) \<noteq> None then vs
             else visitForCycles adjacency (gn_id node) vs"
  have "visit_inv adjacency [] ?vs \<and>
      insert (gn_id node) (dom (map_of (cv_state vs))) \<subseteq> dom (map_of (cv_state ?vs))"
    using visitForCycles_inv [OF assms(1) Cons.prems] Cons.prems by (auto simp: domIff)
  moreover have "search_nodes adjacency (node # nodes) vs = search_nodes adjacency nodes ?vs"
    by (simp add: search_nodes_def)
  moreover have "declared_ids (node # nodes) = insert (gn_id node) (declared_ids nodes)"
    by (simp add: declared_ids_def)
  ultimately show ?case using Cons.IH [of ?vs] by (simp only:) blast
qed

lemma adjacent_cycle_adjacency:
  "adjacent (cycle_adjacency nodes) a =
     (if a \<in> declared_ids nodes
      then filter (\<lambda>id. id \<in> declared_ids nodes) (map gn_id (dependents_at (dependentsByNeed nodes) a))
      else [])"
proof -
  let ?val = "\<lambda>a. filter (\<lambda>id. id \<in> set (map gn_id nodes))
      (map gn_id (or_else (map_of (dependentsByNeed nodes) a) []))"
  have "map_of (foldl (\<lambda>adjacency node. AList.update (gn_id node) (?val (gn_id node)) adjacency) m ns) a
     = (if a \<in> gn_id ` set ns then Some (?val a) else map_of m a)" for ns m
    by (induction ns arbitrary: m) auto
  from this [of "[]" nodes] show ?thesis
    by (simp add: adjacent_def cycle_adjacency_def dependents_at_def declared_ids_def)
qed

lemma adj_rel_cycle_adjacency: "adj_rel (cycle_adjacency nodes) = dep_edges nodes"
  by (auto simp: adj_rel_def dep_edges_def adjacent_cycle_adjacency set_dependentsByNeed_at
      declared_ids_def)

definition start_search :: cycle_visit_state where
  "start_search =
     \<lparr>cv_cycleKeys = [], cv_cycles = [], cv_path = [], cv_pathIndex = [], cv_state = []\<rparr>"

lemma findDependencyCycles_search:
  "findDependencyCycles nodes = cv_cycles (search_nodes (cycle_adjacency nodes) nodes start_search)"
  by (simp add: findDependencyCycles_def search_nodes_def start_search_def)

lemma visit_inv_start: "visit_inv adjacency [] start_search"
  by (simp add: visit_inv_def path_ok_def done_ok_def done_set_def start_search_def acyclic_def)

lemma final_visit_inv:
  assumes "[] \<notin> declared_ids nodes"
  shows "visit_inv (cycle_adjacency nodes) []
           (search_nodes (cycle_adjacency nodes) nodes start_search) \<and>
     declared_ids nodes \<subseteq>
       dom (map_of (cv_state (search_nodes (cycle_adjacency nodes) nodes start_search)))"
proof -
  have "\<forall>n. [] \<notin> set (adjacent (cycle_adjacency nodes) n)"
    using assms by (auto simp: adjacent_cycle_adjacency)
  from search_nodes_inv [OF this visit_inv_start] show ?thesis by blast
qed

lemma findDependencyCycles_sound:
  assumes "[] \<notin> declared_ids nodes" "c \<in> set (findDependencyCycles nodes)"
  shows "is_cycle (dep_edges nodes) c"
  using final_visit_inv [OF assms(1)] assms(2)
  by (auto simp: findDependencyCycles_search visit_inv_def path_ok_def adj_rel_cycle_adjacency)

lemma findDependencyCycles_distinct_keys:
  assumes "[] \<notin> declared_ids nodes"
  shows "distinct (map cycle_key (findDependencyCycles nodes))"
  using final_visit_inv [OF assms]
  by (auto simp: findDependencyCycles_search visit_inv_def path_ok_def)

lemma findDependencyCycles_complete:
  assumes ids: "[] \<notin> declared_ids nodes" and none: "findDependencyCycles nodes = []"
  shows "acyclic (dep_edges nodes)"
proof -
  let ?vs = "search_nodes (cycle_adjacency nodes) nodes start_search"
  have inv: "visit_inv (cycle_adjacency nodes) [] ?vs"
    and dom: "declared_ids nodes \<subseteq> dom (map_of (cv_state ?vs))"
    using final_visit_inv [OF ids] by auto
  have "map_of (cv_state ?vs) n \<noteq> Some Visiting" for n
    using inv by (simp add: visit_inv_def path_ok_def)
  then have "map_of (cv_state ?vs) n = Some Done" if "n \<in> dom (map_of (cv_state ?vs))" for n
  proof -
    obtain m where m: "map_of (cv_state ?vs) n = Some m" using \<open>n \<in> dom _\<close> by blast
    with \<open>map_of (cv_state ?vs) n \<noteq> Some Visiting\<close> show ?thesis by (cases m) simp_all
  qed
  then have "declared_ids nodes \<subseteq> done_set ?vs"
    using dom unfolding done_set_def by blast
  then have "dep_edges nodes \<subseteq> done_set ?vs \<times> done_set ?vs"
    by (auto simp: dep_edges_def declared_ids_def)
  moreover have "acyclic (dep_edges nodes \<inter> done_set ?vs \<times> done_set ?vs)"
    using inv none
    by (simp add: visit_inv_def done_ok_def findDependencyCycles_search adj_rel_cycle_adjacency)
  ultimately show ?thesis by (simp add: Int_absorb2)
qed

lemma findDependencyCycles_Nil_iff:
  assumes "[] \<notin> declared_ids nodes"
  shows "findDependencyCycles nodes = [] \<longleftrightarrow> acyclic (dep_edges nodes)"
proof
  assume "acyclic (dep_edges nodes)"
  then show "findDependencyCycles nodes = []"
    using findDependencyCycles_sound [OF assms] is_cycle_trancl
    by (metis acyclic_def last_in_set)
qed (rule findDependencyCycles_complete [OF assms])

lemma cycle_key_set:
  assumes "distinct c" "distinct c'" "set c = set c'"
  shows "cycle_key c = cycle_key c'"
proof -
  have "mset c = mset c'"
    using set_eq_iff_mset_eq_distinct [OF assms(1,2)] assms(3) by (rule iffD1)
  then have "mset (sort c') = mset c" by simp
  from properties_for_sort [OF this sorted_sort] have "sort c = sort c'" .
  then show ?thesis by (simp add: cycle_key_def)
qed

lemma findDependencyCycles_distinct_sets:
  assumes "[] \<notin> declared_ids nodes"
  shows "distinct (map set (findDependencyCycles nodes))"
proof -
  have "inj_on set (set (findDependencyCycles nodes))"
  proof (rule inj_onI)
    fix c c' assume c: "c \<in> set (findDependencyCycles nodes)" "c' \<in> set (findDependencyCycles nodes)"
      and "set c = set c'"
    then have "cycle_key c = cycle_key c'"
      using findDependencyCycles_sound [OF assms] by (intro cycle_key_set) (auto simp: is_cycle_def)
    then show "c = c'"
      using findDependencyCycles_distinct_keys [OF assms] c by (auto simp: distinct_map dest: inj_onD)
  qed
  then show ?thesis
    using findDependencyCycles_distinct_keys [OF assms] by (simp add: distinct_map)
qed


text \<open>
  When no id is empty, the cycle search reports only genuine dependency cycles, each set of
  members once, and reports none exactly when the dependency relation is acyclic.
\<close>

theorem cycles_reported_exactly:
  assumes "[] \<notin> declared_ids nodes"
  shows "(\<forall>c \<in> set (findDependencyCycles nodes). is_cycle (dep_edges nodes) c)
    \<and> distinct (map set (findDependencyCycles nodes))
    \<and> (findDependencyCycles nodes = [] \<longleftrightarrow> acyclic (dep_edges nodes))"
  using findDependencyCycles_sound [OF assms] findDependencyCycles_distinct_sets [OF assms]
    findDependencyCycles_Nil_iff [OF assms] by blast

lemma cycles_reported_exactly_witness:
  "is_cycle (dep_edges [\<lparr>gn_id = ''a'', gn_needs = Some [''b'']\<rparr>, \<lparr>gn_id = ''b'', gn_needs = Some [''a'']\<rparr>])
     [''a'', ''b'']"
proof -
  let ?nodes = "[\<lparr>gn_id = ''a'', gn_needs = Some [''b'']\<rparr>, \<lparr>gn_id = ''b'', gn_needs = Some [''a'']\<rparr>]"
  have "findDependencyCycles ?nodes = [[''a'', ''b'']]" by code_simp
  moreover have "[] \<notin> declared_ids ?nodes" by (simp add: declared_ids_def)
  ultimately show ?thesis using cycles_reported_exactly [of ?nodes] by simp
qed

end
