(* ===== verification/Toposort.thy ===== *)
theory Toposort
  imports Graph
begin

text \<open>
  The dependency graph, the iterative topological order and the dependency batches of
  \<^verbatim>\<open>src/planning/graph.ts\<close>.

  The graph library is the parameter \<open>build\<close>: it maps the \<open>setNode\<close>/\<open>setEdge\<close> calls made on a
  fresh directed \<open>Graph\<close> to the answers of its queries, collected in a \<open>dep_graph\<close>.
  \<open>graphlib_spec build\<close> states the documented behaviour the code relies on. The lemmas show
  that on a well-formed graph the topological order exists exactly when the graph is
  acyclic, lists every node once after its predecessors, and that the batches partition
  the nodes with every predecessor in an earlier batch.
\<close>

subsection \<open>The graph\<close>

datatype 'v graph_op = SetNode string 'v | SetEdge string string

record 'v dep_graph =
  dg_nodes :: "(string \<times> 'v) list"
  dg_predecessors :: "(string \<times> string list) list"
  dg_successors :: "(string \<times> string list) list"
  dg_sinks :: "string list"

definition addDependencyGraphNodes ::
  "('n \<Rightarrow> string) \<Rightarrow> ('n \<Rightarrow> nat \<Rightarrow> 'v) \<Rightarrow> 'n list \<Rightarrow> 'v graph_op list" where
  "addDependencyGraphNodes idOf valueOf nodes =
     map (\<lambda>(index, node). SetNode (idOf node) (valueOf node index)) (List.enumerate 0 nodes)"

definition declaredDependencyIds ::
  "('n \<Rightarrow> string list option) \<Rightarrow> string set \<Rightarrow> 'n \<Rightarrow> string list" where
  "declaredDependencyIds dependenciesOf nodeIds node =
     filter (\<lambda>id. id \<in> nodeIds) (or_else (dependenciesOf node) [])"

definition addDependencyGraphEdges ::
  "('n \<Rightarrow> string) \<Rightarrow> ('n \<Rightarrow> string list option) \<Rightarrow> string set \<Rightarrow> 'n list \<Rightarrow> 'v graph_op list" where
  "addDependencyGraphEdges idOf dependenciesOf nodeIds nodes =
     concat (map (\<lambda>node. map (\<lambda>dependencyId. SetEdge dependencyId (idOf node))
                            (declaredDependencyIds dependenciesOf nodeIds node)) nodes)"

definition createDependencyGraph ::
  "('v graph_op list \<Rightarrow> 'v dep_graph) \<Rightarrow> ('n \<Rightarrow> string) \<Rightarrow> ('n \<Rightarrow> string list option) \<Rightarrow>
   ('n \<Rightarrow> nat \<Rightarrow> 'v) \<Rightarrow> 'n list \<Rightarrow> 'v dep_graph" where
  "createDependencyGraph build idOf dependenciesOf valueOf nodes =
     build (addDependencyGraphNodes idOf valueOf nodes @
            addDependencyGraphEdges idOf dependenciesOf (set (map idOf nodes)) nodes)"

definition dependencyPredecessorIds :: "'v dep_graph \<Rightarrow> string \<Rightarrow> string list" where
  "dependencyPredecessorIds graph nodeId = or_else (map_of (dg_predecessors graph) nodeId) []"

definition successorIds :: "'v dep_graph \<Rightarrow> string \<Rightarrow> string list" where
  "successorIds graph nodeId = or_else (map_of (dg_successors graph) nodeId) []"

definition dependencyGraphNodeIds :: "'v dep_graph \<Rightarrow> string list" where
  "dependencyGraphNodeIds graph = map fst (dg_nodes graph)"

definition dependencyGraphHasNode :: "'v dep_graph \<Rightarrow> string \<Rightarrow> bool" where
  "dependencyGraphHasNode graph nodeId \<longleftrightarrow> nodeId \<in> set (dependencyGraphNodeIds graph)"

definition dependencyGraphValue :: "'v dep_graph \<Rightarrow> string \<Rightarrow> 'v option" where
  "dependencyGraphValue graph nodeId =
     (if \<not> dependencyGraphHasNode graph nodeId then None else map_of (dg_nodes graph) nodeId)"

text \<open>What the library promises about the graph built by a sequence of calls.\<close>

definition op_ids :: "'v graph_op list \<Rightarrow> string set" where
  "op_ids ops = (\<Union>oper \<in> set ops. case oper of SetNode n v \<Rightarrow> {n} | SetEdge v w \<Rightarrow> {v, w})"

definition op_edges :: "'v graph_op list \<Rightarrow> (string \<times> string) set" where
  "op_edges ops = {(v, w). SetEdge v w \<in> set ops}"

definition graphlib_spec :: "('v graph_op list \<Rightarrow> 'v dep_graph) \<Rightarrow> bool" where
  "graphlib_spec build \<longleftrightarrow>
     (\<forall>ops. let graph = build ops in
        distinct (dependencyGraphNodeIds graph) \<and>
        set (dependencyGraphNodeIds graph) = op_ids ops \<and>
        (\<forall>before n v rest. ops = before @ SetNode n v # rest \<and> (\<forall>v'. SetNode n v' \<notin> set rest) \<longrightarrow>
            map_of (dg_nodes graph) n = Some v) \<and>
        (\<forall>w. distinct (dependencyPredecessorIds graph w) \<and>
             set (dependencyPredecessorIds graph w) = {v. (v, w) \<in> op_edges ops}) \<and>
        (\<forall>v. distinct (successorIds graph v) \<and>
             set (successorIds graph v) = {w. (v, w) \<in> op_edges ops}) \<and>
        distinct (dg_sinks graph) \<and>
        set (dg_sinks graph) = {n \<in> op_ids ops. \<forall>w. (n, w) \<notin> op_edges ops})"

subsection \<open>Topological order\<close>

datatype topo_error = DependencyCycle

record topo_frame =
  tf_index :: nat
  tf_nodeId :: string
  tf_predecessors :: "string list"

record topo_state =
  ts_visited :: "string list"
  ts_inStack :: "string list"
  ts_results :: "string list"

definition completeTopologicalFrame :: "topo_frame \<Rightarrow> topo_state \<Rightarrow> topo_state" where
  "completeTopologicalFrame frame ts =
     ts\<lparr>ts_inStack := removeAll (tf_nodeId frame) (ts_inStack ts),
        ts_results := ts_results ts @ [tf_nodeId frame]\<rparr>"

definition pushTopologicalFrame ::
  "'v dep_graph \<Rightarrow> string \<Rightarrow> topo_state \<Rightarrow> topo_frame list \<Rightarrow> topo_state \<times> topo_frame list" where
  "pushTopologicalFrame graph nodeId ts frames =
     (ts\<lparr>ts_visited := set_add (ts_visited ts) nodeId,
         ts_inStack := set_add (ts_inStack ts) nodeId\<rparr>,
      \<lparr>tf_index = 0, tf_nodeId = nodeId, tf_predecessors = dependencyPredecessorIds graph nodeId\<rparr> # frames)"

definition visitTopologicalPredecessor ::
  "'v dep_graph \<Rightarrow> string \<Rightarrow> topo_state \<Rightarrow> topo_frame list \<Rightarrow> topo_error + (topo_state \<times> topo_frame list)" where
  "visitTopologicalPredecessor graph predecessorId ts frames =
     (if predecessorId \<in> set (ts_inStack ts) then Inl DependencyCycle
      else if predecessorId \<in> set (ts_visited ts) then Inr (ts, frames)
      else Inr (pushTopologicalFrame graph predecessorId ts frames))"

definition visitTopologicalFrame ::
  "'v dep_graph \<Rightarrow> topo_state \<Rightarrow> topo_frame list \<Rightarrow> topo_error + (topo_state \<times> topo_frame list)" where
  "visitTopologicalFrame graph ts frames =
     (case frames of
        [] \<Rightarrow> Inr (ts, frames)
      | frame # rest \<Rightarrow>
          (case truthy (js_nth (tf_predecessors frame) (tf_index frame)) of
             None \<Rightarrow> Inr (completeTopologicalFrame frame ts, rest)
           | Some predecessorId \<Rightarrow>
               visitTopologicalPredecessor graph predecessorId ts
                 (frame\<lparr>tf_index := Suc (tf_index frame)\<rparr> # rest)))"

function topo_loop ::
  "'v dep_graph \<Rightarrow> topo_state \<Rightarrow> topo_frame list \<Rightarrow> topo_error + topo_state" where
  "topo_loop graph ts frames =
     (if frames = [] then Inr ts
      else case visitTopologicalFrame graph ts frames of
             Inl e \<Rightarrow> Inl e
           | Inr (ts', frames') \<Rightarrow> topo_loop graph ts' frames')"
  by pat_completeness auto

definition topo_universe :: "'v dep_graph \<Rightarrow> topo_frame list \<Rightarrow> string set" where
  "topo_universe graph frames =
     \<Union>(set ` snd ` set (dg_predecessors graph)) \<union> \<Union>((set \<circ> tf_predecessors) ` set frames)"

definition topo_work :: "topo_frame list \<Rightarrow> nat" where
  "topo_work frames =
     sum_list (map (\<lambda>f. Suc (length (tf_predecessors f) - tf_index f)) frames)"

lemma predecessor_universe:
  "set (dependencyPredecessorIds graph n) \<subseteq> \<Union>(set ` snd ` set (dg_predecessors graph))"
  using map_of_value_subset [of "dg_predecessors graph" n]
  by (auto simp: dependencyPredecessorIds_def split: option.splits)

lemma finite_topo_universe [simp]: "finite (topo_universe graph frames)"
  by (simp add: topo_universe_def)

termination topo_loop
proof (relation "measures [\<lambda>(graph, ts, frames). card (topo_universe graph frames - set (ts_visited ts)),
    \<lambda>(graph, ts, frames). topo_work frames]", goal_cases)
  case 1
  show ?case by simp
next
  case (2 graph ts frames p ts' frames')
  then obtain frame rest where frames: "frames = frame # rest" by (cases frames) auto
  let ?item = "js_nth (tf_predecessors frame) (tf_index frame)"
  have shrink: "card (topo_universe graph fs - set (ts_visited ts))
      \<le> card (topo_universe graph frames - set (ts_visited ts))"
    if "topo_universe graph fs \<subseteq> topo_universe graph frames" for fs
    using that by (intro card_mono) auto
  show ?case
  proof (cases "truthy ?item")
    case None
    then have "ts' = completeTopologicalFrame frame ts" "frames' = rest"
      using 2 frames by (auto simp: visitTopologicalFrame_def)
    then show ?thesis
      using shrink [of rest] frames
      by (auto simp: completeTopologicalFrame_def topo_universe_def topo_work_def le_less)
  next
    case (Some d)
    then have d: "?item = Some d" "d \<in> set (tf_predecessors frame)"
      by (auto simp: truthy_Some_iff dest: js_nth_in_set)
    let ?fs = "frame\<lparr>tf_index := Suc (tf_index frame)\<rparr> # rest"
    have univ: "topo_universe graph ?fs = topo_universe graph frames"
      by (simp add: topo_universe_def frames)
    have work: "topo_work ?fs < topo_work frames"
      using d(1) by (auto simp: topo_work_def frames js_nth_Some_iff)
    show ?thesis
    proof (cases "d \<in> set (ts_visited ts)")
      case True
      then have "ts' = ts" "frames' = ?fs"
        using 2 frames Some
        by (auto simp: visitTopologicalFrame_def visitTopologicalPredecessor_def split: if_splits)
      then show ?thesis using univ work by simp
    next
      case False
      then have new: "(ts', frames') = pushTopologicalFrame graph d ts ?fs"
        using 2 frames Some
        by (auto simp: visitTopologicalFrame_def visitTopologicalPredecessor_def split: if_splits)
      have "topo_universe graph frames' = topo_universe graph frames"
        using new predecessor_universe [of graph d]
        by (auto simp: pushTopologicalFrame_def topo_universe_def frames)
      moreover have "d \<in> topo_universe graph frames - set (ts_visited ts)"
        using False d by (auto simp: topo_universe_def frames)
      ultimately have "card (topo_universe graph frames' - set (ts_visited ts'))
          < card (topo_universe graph frames - set (ts_visited ts))"
        using new by (intro psubset_card_mono) (auto simp: pushTopologicalFrame_def)
      then show ?thesis by simp
    qed
  qed
qed

declare topo_loop.simps [simp del]

definition visitForTopologicalOrder ::
  "'v dep_graph \<Rightarrow> string \<Rightarrow> topo_state \<Rightarrow> topo_error + topo_state" where
  "visitForTopologicalOrder graph startId ts =
     (case pushTopologicalFrame graph startId ts [] of (ts', frames) \<Rightarrow> topo_loop graph ts' frames)"

fun visit_sinks :: "'v dep_graph \<Rightarrow> string list \<Rightarrow> topo_state \<Rightarrow> topo_error + topo_state" where
  "visit_sinks graph [] ts = Inr ts"
| "visit_sinks graph (sink # sinks) ts =
     (case visitForTopologicalOrder graph sink ts of
        Inl e \<Rightarrow> Inl e
      | Inr ts' \<Rightarrow> visit_sinks graph sinks ts')"

definition topologicalDependencyOrder :: "'v dep_graph \<Rightarrow> topo_error + string list" where
  "topologicalDependencyOrder graph =
     (case visit_sinks graph (dg_sinks graph)
             \<lparr>ts_visited = [], ts_inStack = [], ts_results = []\<rparr> of
        Inl e \<Rightarrow> Inl e
      | Inr ts \<Rightarrow>
          if length (ts_visited ts) \<noteq> length (dg_nodes graph) then Inl DependencyCycle
          else Inr (ts_results ts))"

subsection \<open>Correctness of the topological order\<close>

definition graph_edges :: "'v dep_graph \<Rightarrow> (string \<times> string) set" where
  "graph_edges graph = {(p, n). p \<in> set (dependencyPredecessorIds graph n)}"

definition pred_set :: "'v dep_graph \<Rightarrow> string \<Rightarrow> string set" where
  "pred_set graph n = set (dependencyPredecessorIds graph n)"

definition dep_graph_ok :: "'v dep_graph \<Rightarrow> bool" where
  "dep_graph_ok graph \<longleftrightarrow>
     distinct (dependencyGraphNodeIds graph) \<and>
     [] \<notin> set (dependencyGraphNodeIds graph) \<and>
     graph_edges graph \<subseteq> set (dependencyGraphNodeIds graph) \<times> set (dependencyGraphNodeIds graph) \<and>
     distinct (dg_sinks graph) \<and>
     set (dg_sinks graph) =
       {n \<in> set (dependencyGraphNodeIds graph). \<forall>w. (n, w) \<notin> graph_edges graph}"

lemma dep_graph_ok_pred_nonempty:
  "dep_graph_ok graph \<Longrightarrow> [] \<notin> set (dependencyPredecessorIds graph n)"
  by (auto simp: dep_graph_ok_def graph_edges_def)

fun topo_frames_ok :: "'v dep_graph \<Rightarrow> string set \<Rightarrow> string set \<Rightarrow> topo_frame list \<Rightarrow> bool" where
  "topo_frames_ok graph R cur [] \<longleftrightarrow> True"
| "topo_frames_ok graph R cur (f # fs) \<longleftrightarrow>
     tf_predecessors f = dependencyPredecessorIds graph (tf_nodeId f) \<and>
     set (take (tf_index f) (tf_predecessors f)) \<subseteq> R \<union> cur \<and>
     cur \<subseteq> set (tf_predecessors f) \<and>
     topo_frames_ok graph R {tf_nodeId f} fs"

lemma topo_frames_ok_mono:
  "topo_frames_ok graph R cur fs \<Longrightarrow> R \<subseteq> R' \<Longrightarrow> topo_frames_ok graph R' cur fs"
  by (induction fs arbitrary: cur) auto

lemma topo_frames_ok_finish:
  "topo_frames_ok graph R {n} fs \<Longrightarrow> topo_frames_ok graph (insert n R) {} fs"
  by (cases fs) (auto intro: topo_frames_ok_mono)

lemma topo_frames_ok_chain:
  "topo_frames_ok graph R cur (f # fs) \<Longrightarrow> g \<in> set (f # fs) \<Longrightarrow>
   (tf_nodeId f, tf_nodeId g) \<in> (graph_edges graph)\<^sup>*"
proof (induction fs arbitrary: f cur)
  case (Cons f' fs)
  show ?case
  proof (cases "g = f")
    case False
    have "(tf_nodeId f', tf_nodeId g) \<in> (graph_edges graph)\<^sup>*"
      using Cons.IH [of "{tf_nodeId f}" f'] Cons.prems False by auto
    moreover have "(tf_nodeId f, tf_nodeId f') \<in> graph_edges graph"
      using Cons.prems(1) by (auto simp: graph_edges_def)
    ultimately show ?thesis by (rule converse_rtrancl_into_rtrancl [rotated])
  qed simp
qed auto

definition has_successor :: "'v dep_graph \<Rightarrow> string \<Rightarrow> bool" where
  "has_successor graph n \<longleftrightarrow> n \<in> Domain (graph_edges graph)"

definition topo_inv :: "'v dep_graph \<Rightarrow> string set \<Rightarrow> topo_state \<Rightarrow> topo_frame list \<Rightarrow> bool" where
  "topo_inv graph S ts frames \<longleftrightarrow>
     set (ts_visited ts) = set (ts_results ts) \<union> set (ts_inStack ts) \<and>
     set (ts_inStack ts) = tf_nodeId ` set frames \<and>
     distinct (map tf_nodeId frames @ ts_results ts) \<and>
     distinct (ts_visited ts) \<and>
     deps_before (pred_set graph) {} (ts_results ts) \<and>
     topo_frames_ok graph (set (ts_results ts)) {} frames \<and>
     (\<forall>v \<in> set (ts_visited ts). v \<in> S \<or> has_successor graph v)"

lemma topo_inv_complete:
  assumes ok: "dep_graph_ok graph" and inv: "topo_inv graph S ts (frame # rest)"
    and none: "truthy (js_nth (tf_predecessors frame) (tf_index frame)) = None"
  shows "topo_inv graph S (completeTopologicalFrame frame ts) rest"
proof -
  let ?ps = "tf_predecessors frame"
  have ps: "?ps = dependencyPredecessorIds graph (tf_nodeId frame)"
    using inv by (simp add: topo_inv_def)
  have "length ?ps \<le> tf_index frame"
    using none dep_graph_ok_pred_nonempty [OF ok] ps
    by (auto simp: truthy_None_iff js_nth_None_iff dest: js_nth_in_set)
  then have "pred_set graph (tf_nodeId frame) \<subseteq> set (ts_results ts)"
    using inv ps by (simp add: topo_inv_def pred_set_def)
  then have deps: "deps_before (pred_set graph) {} (ts_results ts @ [tf_nodeId frame])"
    using inv by (simp add: topo_inv_def deps_before_append)
  have frames: "topo_frames_ok graph (insert (tf_nodeId frame) (set (ts_results ts))) {} rest"
    using inv by (auto simp: topo_inv_def intro: topo_frames_ok_finish)
  show ?thesis
    using inv deps frames unfolding topo_inv_def completeTopologicalFrame_def by auto
qed

lemma topo_inv_skip:
  assumes inv: "topo_inv graph S ts (frame # rest)"
    and item: "js_nth (tf_predecessors frame) (tf_index frame) = Some p"
    and p: "p \<notin> set (ts_inStack ts)" "p \<in> set (ts_visited ts)"
  shows "topo_inv graph S ts (frame\<lparr>tf_index := Suc (tf_index frame)\<rparr> # rest)"
  using assms unfolding topo_inv_def
  by (auto simp: js_nth_Some_iff take_Suc_conv_app_nth)

lemma topo_inv_push:
  assumes inv: "topo_inv graph S ts (frame # rest)"
    and item: "js_nth (tf_predecessors frame) (tf_index frame) = Some p"
    and p: "p \<notin> set (ts_visited ts)"
    and new: "pushTopologicalFrame graph p ts (frame\<lparr>tf_index := Suc (tf_index frame)\<rparr> # rest) = (ts', frames')"
  shows "topo_inv graph S ts' frames'"
proof -
  have mem: "p \<in> set (tf_predecessors frame)" using item by (rule js_nth_in_set)
  then have "has_successor graph p"
    using inv by (auto simp: topo_inv_def graph_edges_def has_successor_def)
  have take: "take (Suc (tf_index frame)) (tf_predecessors frame) =
      take (tf_index frame) (tf_predecessors frame) @ [p]"
    using item by (auto simp: js_nth_Some_iff take_Suc_conv_app_nth)
  have pnew: "p \<notin> set (ts_results ts)" "p \<notin> tf_nodeId ` set (frame # rest)"
    using inv p unfolding topo_inv_def by blast+
  have upd: "ts' = ts\<lparr>ts_visited := set_add (ts_visited ts) p, ts_inStack := set_add (ts_inStack ts) p\<rparr>"
    "frames' = \<lparr>tf_index = 0, tf_nodeId = p, tf_predecessors = dependencyPredecessorIds graph p\<rparr> #
      frame\<lparr>tf_index := Suc (tf_index frame)\<rparr> # rest"
    using new by (simp_all add: pushTopologicalFrame_def)
  have "topo_frames_ok graph (set (ts_results ts)) {} (frame # rest)"
    using inv unfolding topo_inv_def by blast
  then have "topo_frames_ok graph (set (ts_results ts)) {} frames'"
    using take mem by (auto simp: upd)
  moreover have "distinct (map tf_nodeId frames' @ ts_results ts')"
    using inv pnew unfolding topo_inv_def by (simp add: upd)
  moreover have "tf_nodeId ` set frames' = insert p (set (ts_inStack ts))"
    using inv unfolding topo_inv_def by (simp add: upd)
  moreover have "set (ts_visited ts) = set (ts_results ts) \<union> set (ts_inStack ts)"
    "distinct (ts_visited ts)" "deps_before (pred_set graph) {} (ts_results ts)"
    "\<forall>v \<in> set (ts_visited ts). v \<in> S \<or> has_successor graph v"
    using inv unfolding topo_inv_def by blast+
  ultimately show ?thesis
    using p \<open>has_successor graph p\<close> unfolding topo_inv_def by (simp add: upd(1))
qed

lemma topo_inv_cycle:
  assumes inv: "topo_inv graph S ts (frame # rest)"
    and item: "js_nth (tf_predecessors frame) (tf_index frame) = Some p"
    and p: "p \<in> set (ts_inStack ts)"
  shows "\<not> acyclic (graph_edges graph)"
proof -
  obtain g where g: "g \<in> set (frame # rest)" "p = tf_nodeId g"
    using inv p by (auto simp: topo_inv_def)
  have "topo_frames_ok graph (set (ts_results ts)) {} (frame # rest)"
    using inv unfolding topo_inv_def by blast
  from topo_frames_ok_chain [OF this g(1)]
  have "(tf_nodeId frame, p) \<in> (graph_edges graph)\<^sup>*" by (simp add: g(2))
  moreover have "(p, tf_nodeId frame) \<in> graph_edges graph"
    using inv js_nth_in_set [OF item] by (auto simp: topo_inv_def graph_edges_def)
  ultimately show ?thesis unfolding acyclic_def by (meson rtrancl_into_trancl2)
qed

lemma topo_loop_inv:
  assumes "dep_graph_ok graph" "topo_inv graph S ts frames"
  shows "case topo_loop graph ts frames of
           Inl e \<Rightarrow> \<not> acyclic (graph_edges graph)
         | Inr ts' \<Rightarrow> topo_inv graph S ts' [] \<and> set (ts_visited ts) \<subseteq> set (ts_visited ts')"
  using assms
proof (induction graph ts frames rule: topo_loop.induct)
  case (1 graph ts frames)
  show ?case
  proof (cases frames)
    case Nil
    then show ?thesis using "1.prems" by (simp add: topo_loop.simps)
  next
    case (Cons frame rest)
    let ?item = "js_nth (tf_predecessors frame) (tf_index frame)"
    note inv = "1.prems"(2) [unfolded Cons]
    have step: ?thesis
      if v: "visitTopologicalFrame graph ts frames = Inr (ts', frames')"
        and i: "topo_inv graph S ts' frames'" and sub: "set (ts_visited ts) \<subseteq> set (ts_visited ts')"
      for ts' frames'
    proof -
      have "case topo_loop graph ts' frames' of
           Inl e \<Rightarrow> \<not> acyclic (graph_edges graph)
         | Inr ts'' \<Rightarrow> topo_inv graph S ts'' [] \<and> set (ts_visited ts') \<subseteq> set (ts_visited ts'')"
        using "1.IH" [OF _ v refl "1.prems"(1) i] Cons by simp
      moreover have "topo_loop graph ts frames = topo_loop graph ts' frames'"
        by (subst topo_loop.simps) (simp add: v, simp add: Cons)
      ultimately show ?thesis using sub by (auto split: sum.splits)
    qed
    show ?thesis
    proof (cases "truthy ?item")
      case None
      show ?thesis
        by (rule step [OF _ topo_inv_complete [OF "1.prems"(1) inv None]])
          (use None Cons in \<open>simp_all add: visitTopologicalFrame_def completeTopologicalFrame_def\<close>)
    next
      case (Some p)
      then have item: "?item = Some p" by (simp add: truthy_Some_iff)
      let ?fs = "frame\<lparr>tf_index := Suc (tf_index frame)\<rparr> # rest"
      have visit: "visitTopologicalFrame graph ts frames = visitTopologicalPredecessor graph p ts ?fs"
        using Some Cons by (simp add: visitTopologicalFrame_def)
      consider "p \<in> set (ts_inStack ts)" | "p \<notin> set (ts_inStack ts)" "p \<in> set (ts_visited ts)"
        | "p \<notin> set (ts_visited ts)" "p \<notin> set (ts_inStack ts)"
        by blast
      then show ?thesis
      proof cases
        case 1
        then show ?thesis using topo_inv_cycle [OF inv item] visit Cons
          by (simp add: topo_loop.simps visitTopologicalPredecessor_def)
      next
        case 2
        show ?thesis
          by (rule step [OF _ topo_inv_skip [OF inv item 2]])
            (use 2 visit in \<open>simp_all add: visitTopologicalPredecessor_def\<close>)
      next
        case 3
        obtain ts' frames' where new: "pushTopologicalFrame graph p ts ?fs = (ts', frames')"
          by (cases "pushTopologicalFrame graph p ts ?fs")
        show ?thesis
        proof (rule step)
          show "visitTopologicalFrame graph ts frames = Inr (ts', frames')"
            using 3 visit new by (simp add: visitTopologicalPredecessor_def)
          show "topo_inv graph S ts' frames'" by (rule topo_inv_push [OF inv item 3(1) new])
          show "set (ts_visited ts) \<subseteq> set (ts_visited ts')"
            using new by (auto simp: pushTopologicalFrame_def)
        qed
      qed
    qed
  qed
qed

lemma visit_sinks_inv:
  assumes ok: "dep_graph_ok graph" and inv: "topo_inv graph S ts []"
    and sinks: "distinct sinks" "set sinks \<inter> S = {}" "set sinks \<subseteq> set (dg_sinks graph)"
  shows "case visit_sinks graph sinks ts of
           Inl e \<Rightarrow> \<not> acyclic (graph_edges graph)
         | Inr ts' \<Rightarrow> topo_inv graph (S \<union> set sinks) ts' [] \<and>
             set (ts_visited ts) \<union> set sinks \<subseteq> set (ts_visited ts')"
  using inv sinks
proof (induction sinks arbitrary: S ts)
  case (Cons sink sinks)
  let ?push = "pushTopologicalFrame graph sink ts []"
  have "\<not> has_successor graph sink"
    using ok Cons.prems(4) by (auto simp: dep_graph_ok_def has_successor_def)
  then have new: "sink \<notin> set (ts_visited ts)"
    using Cons.prems(1,3) by (auto simp: topo_inv_def)
  have "topo_inv graph (insert sink S) (fst ?push) (snd ?push)"
    using Cons.prems(1) new by (auto simp: topo_inv_def pushTopologicalFrame_def)
  from topo_loop_inv [OF ok this]
  have visit: "case visitForTopologicalOrder graph sink ts of
        Inl e \<Rightarrow> \<not> acyclic (graph_edges graph)
      | Inr ts' \<Rightarrow> topo_inv graph (insert sink S) ts' [] \<and>
          insert sink (set (ts_visited ts)) \<subseteq> set (ts_visited ts')"
    by (auto simp: visitForTopologicalOrder_def pushTopologicalFrame_def split: sum.splits)
  show ?case
  proof (cases "visitForTopologicalOrder graph sink ts")
    case (Inl e)
    then show ?thesis using visit by simp
  next
    case (Inr ts')
    have "case visit_sinks graph sinks ts' of
           Inl e \<Rightarrow> \<not> acyclic (graph_edges graph)
         | Inr ts'' \<Rightarrow> topo_inv graph (insert sink S \<union> set sinks) ts'' [] \<and>
             set (ts_visited ts') \<union> set sinks \<subseteq> set (ts_visited ts'')"
      using Cons.prems Inr visit by (intro Cons.IH) auto
    then show ?thesis using Inr visit by (auto split: sum.splits)
  qed
qed simp

text \<open>
  Everything reachable backwards from the sinks is visited; in an acyclic finite graph
  that is every node.
\<close>

lemma visited_all:
  assumes ok: "dep_graph_ok graph" and ac: "acyclic (graph_edges graph)"
    and inv: "topo_inv graph (set (dg_sinks graph)) ts []" and sinks: "set (dg_sinks graph) \<subseteq> set (ts_visited ts)"
  shows "set (ts_visited ts) = set (dependencyGraphNodeIds graph)"
proof
  have edges: "graph_edges graph \<subseteq> set (dependencyGraphNodeIds graph) \<times> set (dependencyGraphNodeIds graph)"
    using ok by (simp add: dep_graph_ok_def)
  show "set (ts_visited ts) \<subseteq> set (dependencyGraphNodeIds graph)"
    using inv ok edges by (auto simp: topo_inv_def dep_graph_ok_def has_successor_def)
  have closed: "p \<in> set (ts_visited ts)" if "n \<in> set (ts_visited ts)" "(p, n) \<in> graph_edges graph" for p n
    using inv that deps_before_closed [of "pred_set graph" "{}" "ts_results ts" n]
    by (auto simp: topo_inv_def pred_set_def graph_edges_def)
  have reach: "x \<in> set (ts_visited ts)" if "(x, s) \<in> (graph_edges graph)\<^sup>*" "s \<in> set (ts_visited ts)" for x s
    using that by (induction rule: converse_rtrancl_induct) (auto intro: closed)
  have "finite (graph_edges graph)" using edges by (rule finite_subset) simp
  then show "set (dependencyGraphNodeIds graph) \<subseteq> set (ts_visited ts)"
  proof (intro subsetI)
    fix x assume x: "x \<in> set (dependencyGraphNodeIds graph)"
    obtain s where s: "(x, s) \<in> (graph_edges graph)\<^sup>*" "\<forall>y. (s, y) \<notin> graph_edges graph"
      using finite_acyclic_reaches_sink [OF \<open>finite (graph_edges graph)\<close> ac] by blast
    have "s \<in> set (dependencyGraphNodeIds graph)"
      using s(1) x edges by (induction rule: rtrancl_induct) auto
    then have "s \<in> set (dg_sinks graph)" using s(2) ok by (simp add: dep_graph_ok_def)
    with sinks s(1) show "x \<in> set (ts_visited ts)" by (blast intro: reach)
  qed
qed

lemma topologicalDependencyOrder_correct:
  assumes ok: "dep_graph_ok graph"
  shows "case topologicalDependencyOrder graph of
           Inl e \<Rightarrow> \<not> acyclic (graph_edges graph)
         | Inr order \<Rightarrow> acyclic (graph_edges graph) \<and> distinct order \<and>
             set order = set (dependencyGraphNodeIds graph) \<and> deps_before (pred_set graph) {} order"
proof -
  let ?start = "\<lparr>ts_visited = [], ts_inStack = [], ts_results = []\<rparr>"
  have start: "topo_inv graph {} ?start []" by (simp add: topo_inv_def)
  have run: "case visit_sinks graph (dg_sinks graph) ?start of
        Inl e \<Rightarrow> \<not> acyclic (graph_edges graph)
      | Inr ts \<Rightarrow> topo_inv graph (set (dg_sinks graph)) ts [] \<and>
          set (dg_sinks graph) \<subseteq> set (ts_visited ts)"
    using visit_sinks_inv [OF ok start, of "dg_sinks graph"] ok
    by (auto simp: dep_graph_ok_def split: sum.splits)
  show ?thesis
  proof (cases "visit_sinks graph (dg_sinks graph) ?start")
    case (Inl e)
    then show ?thesis using run by (simp add: topologicalDependencyOrder_def)
  next
    case (Inr ts)
    then have inv: "topo_inv graph (set (dg_sinks graph)) ts []"
      and sinks: "set (dg_sinks graph) \<subseteq> set (ts_visited ts)"
      using run by simp_all
    have len: "length (ts_visited ts) = length (dg_nodes graph)
        \<longleftrightarrow> card (set (ts_visited ts)) = card (set (dependencyGraphNodeIds graph))"
    proof -
      have "card (set (ts_visited ts)) = length (ts_visited ts)"
        using inv by (intro distinct_card) (simp add: topo_inv_def)
      moreover have "card (set (dependencyGraphNodeIds graph)) = length (dependencyGraphNodeIds graph)"
        using ok by (intro distinct_card) (simp add: dep_graph_ok_def)
      ultimately show ?thesis by (simp add: dependencyGraphNodeIds_def)
    qed
    have sub: "set (ts_visited ts) \<subseteq> set (dependencyGraphNodeIds graph)"
      using inv ok by (auto simp: topo_inv_def dep_graph_ok_def has_successor_def)
    show ?thesis
    proof (cases "length (ts_visited ts) = length (dg_nodes graph)")
      case True
      then have all: "set (ts_results ts) = set (dependencyGraphNodeIds graph)"
        using card_subset_eq [OF _ sub] len inv by (simp add: topo_inv_def)
      moreover have "acyclic (graph_edges graph)"
        using inv ok all by (intro deps_before_acyclic [of "pred_set graph" "ts_results ts"])
          (auto simp: topo_inv_def graph_edges_def pred_set_def dep_graph_ok_def)
      ultimately show ?thesis
        using inv True Inr by (simp add: topologicalDependencyOrder_def topo_inv_def)
    next
      case False
      then have "\<not> acyclic (graph_edges graph)"
        using visited_all [OF ok _ inv sinks] len by auto
      then show ?thesis using Inr False by (simp add: topologicalDependencyOrder_def)
    qed
  qed
qed


text \<open>
  On a well-formed graph the iterative depth-first sort returns an order exactly when the
  graph is acyclic; the order has every node once, each after its predecessors.
\<close>

theorem topological_sort_exact:
  assumes "dep_graph_ok graph"
  shows "case topologicalDependencyOrder graph of
      Inl e \<Rightarrow> \<not> acyclic (graph_edges graph)
    | Inr order \<Rightarrow> acyclic (graph_edges graph) \<and> distinct order
        \<and> set order = set (dependencyGraphNodeIds graph)
        \<and> (\<forall>i < length order. set (dependencyPredecessorIds graph (order ! i)) \<subseteq> set (take i order))"
  using topologicalDependencyOrder_correct [OF assms] deps_before_nth [of "pred_set graph" "{}"]
  by (auto split: sum.splits simp: pred_set_def)

lemma topological_sort_exact_witness:
  "acyclic (graph_edges
     \<lparr>dg_nodes = [(''a'', ()), (''b'', ())], dg_predecessors = [(''a'', [''b''])],
      dg_successors = [(''b'', [''a''])], dg_sinks = [''a'']\<rparr>)"
proof -
  let ?graph = "\<lparr>dg_nodes = [(''a'', ()), (''b'', ())], dg_predecessors = [(''a'', [''b''])],
      dg_successors = [(''b'', [''a''])], dg_sinks = [''a'']\<rparr>"
  have "dep_graph_ok ?graph"
    by (auto simp: dep_graph_ok_def dependencyGraphNodeIds_def graph_edges_def
        dependencyPredecessorIds_def split: if_splits)
  moreover have "topologicalDependencyOrder ?graph = Inr [''b'', ''a'']" by code_simp
  ultimately show ?thesis using topological_sort_exact [of ?graph] by simp
qed

end
