(* ===== verification/Batches.thy ===== *)
theory Batches
  imports Toposort
begin

text \<open>
  The parallel batches of \<^verbatim>\<open>src/planning/graph.ts\<close> (\<open>dependencyBatches\<close>), its terminal items,
  and what the graph library's contract gives for a graph made by \<open>createDependencyGraph\<close>.

  The comparator of \<open>toSorted\<close> is the comparison of a key into a linear order, as the
  comparator the planner passes is (\<open>left.index - right.index\<close>).
\<close>

subsection \<open>The graph of a node list\<close>

definition list_edges :: "('n \<Rightarrow> string) \<Rightarrow> ('n \<Rightarrow> string list option) \<Rightarrow> 'n list \<Rightarrow> (string \<times> string) set" where
  "list_edges idOf dependenciesOf nodes =
     {(d, idOf node) | d node. node \<in> set nodes \<and> d \<in> set (or_else (dependenciesOf node) []) \<and>
        d \<in> idOf ` set nodes}"

definition graph_ops ::
  "('n \<Rightarrow> string) \<Rightarrow> ('n \<Rightarrow> string list option) \<Rightarrow> ('n \<Rightarrow> nat \<Rightarrow> 'v) \<Rightarrow> 'n list \<Rightarrow> 'v graph_op list" where
  "graph_ops idOf dependenciesOf valueOf nodes =
     addDependencyGraphNodes idOf valueOf nodes @
     addDependencyGraphEdges idOf dependenciesOf (set (map idOf nodes)) nodes"

lemma set_graph_ops:
  fixes valueOf :: "'n \<Rightarrow> nat \<Rightarrow> 'v"
  shows "set (graph_ops idOf dependenciesOf valueOf nodes) =
     {SetNode (idOf (nodes ! i)) (valueOf (nodes ! i) i) | i. i < length nodes} \<union>
     {SetEdge d n | d n. (d, n) \<in> list_edges idOf dependenciesOf nodes}"
proof -
  have "set (addDependencyGraphNodes idOf valueOf nodes) =
      {SetNode (idOf (nodes ! i)) (valueOf (nodes ! i) i) | i. i < length nodes}"
  proof -
    have "set (List.enumerate 0 nodes) = (\<lambda>i. (i, nodes ! i)) ` {..<length nodes}"
      by (auto simp: in_set_enumerate_eq image_iff)
    then show ?thesis by (auto simp: addDependencyGraphNodes_def)
  qed
  moreover have "set (addDependencyGraphEdges idOf dependenciesOf (set (map idOf nodes)) nodes :: 'v graph_op list) =
      {SetEdge d n | d n. (d, n) \<in> list_edges idOf dependenciesOf nodes}"
    by (auto simp: addDependencyGraphEdges_def declaredDependencyIds_def list_edges_def
        simp del: set_or_else_Nil)
  ultimately show ?thesis by (simp only: graph_ops_def set_append)
qed

lemma op_ids_graph_ops: "op_ids (graph_ops idOf dependenciesOf valueOf nodes) = idOf ` set nodes"
proof
  show "op_ids (graph_ops idOf dependenciesOf valueOf nodes) \<subseteq> idOf ` set nodes"
    by (auto simp: op_ids_def set_graph_ops list_edges_def)
  show "idOf ` set nodes \<subseteq> op_ids (graph_ops idOf dependenciesOf valueOf nodes)"
  proof clarify
    fix node assume "node \<in> set nodes"
    then obtain i where "i < length nodes" "nodes ! i = node" by (auto simp: in_set_conv_nth)
    then have "SetNode (idOf node) (valueOf node i) \<in> set (graph_ops idOf dependenciesOf valueOf nodes)"
      by (auto simp: set_graph_ops)
    then show "idOf node \<in> op_ids (graph_ops idOf dependenciesOf valueOf nodes)"
      unfolding op_ids_def by (rule UN_I) simp
  qed
qed

lemma op_edges_graph_ops:
  "op_edges (graph_ops idOf dependenciesOf valueOf nodes) = list_edges idOf dependenciesOf nodes"
  by (auto simp: op_edges_def set_graph_ops)

lemma graph_ops_last_node:
  assumes "distinct (map idOf nodes)" "i < length nodes"
  obtains before rest where
    "graph_ops idOf dependenciesOf valueOf nodes =
       before @ SetNode (idOf (nodes ! i)) (valueOf (nodes ! i) i) # rest"
    "\<forall>v. SetNode (idOf (nodes ! i)) v \<notin> set rest"
proof -
  let ?f = "\<lambda>(index, node). SetNode (idOf node) (valueOf node index)"
  let ?E = "addDependencyGraphEdges idOf dependenciesOf (set (map idOf nodes)) nodes"
  let ?en = "List.enumerate 0 nodes"
  have len: "i < length ?en" using assms(2) by simp
  have nth: "?en ! i = (i, nodes ! i)" using assms(2) by (simp add: nth_enumerate_eq)
  have "graph_ops idOf dependenciesOf valueOf nodes =
      map ?f (take i ?en) @ ?f (?en ! i) # (map ?f (drop (Suc i) ?en) @ ?E)"
    using arg_cong [OF id_take_nth_drop [OF len], of "map ?f"]
    by (simp only: graph_ops_def addDependencyGraphNodes_def map_append list.map append.assoc append_Cons)
  moreover have "SetNode (idOf (nodes ! i)) v \<notin> set (map ?f (drop (Suc i) ?en) @ ?E)" for v
  proof
    assume "SetNode (idOf (nodes ! i)) v \<in> set (map ?f (drop (Suc i) ?en) @ ?E)"
    then have "SetNode (idOf (nodes ! i)) v \<in> set (map ?f (drop (Suc i) ?en))"
      by (auto simp: addDependencyGraphEdges_def)
    then have "\<exists>j. Suc i + j < length nodes \<and> idOf (nodes ! i) = idOf (nodes ! (Suc i + j))"
    proof -
      obtain k where "k < length (drop (Suc i) ?en)"
        "?f (drop (Suc i) ?en ! k) = SetNode (idOf (nodes ! i)) v"
        using \<open>SetNode (idOf (nodes ! i)) v \<in> set (map ?f (drop (Suc i) ?en))\<close>
        unfolding in_set_conv_nth [of "SetNode (idOf (nodes ! i)) v"] length_map
        by (elim exE conjE) (simp only: nth_map)
      then show ?thesis by (intro exI [of _ k]) (auto simp: nth_enumerate_eq)
    qed
    then obtain j where j: "Suc i + j < length nodes" "idOf (nodes ! i) = idOf (nodes ! (Suc i + j))"
      by blast
    then have "map idOf nodes ! i = map idOf nodes ! (Suc i + j)" using assms(2) by simp
    then show False
      using nth_eq_iff_index_eq [OF assms(1)] j assms(2) by auto
  qed
  ultimately show ?thesis using nth by (intro that) auto
qed

lemma createDependencyGraph_spec:
  assumes "graphlib_spec build"
    and graph_eq: "graph = createDependencyGraph build idOf dependenciesOf valueOf nodes"
  shows createDependencyGraph_ids: "set (dependencyGraphNodeIds graph) = idOf ` set nodes"
    and createDependencyGraph_edges: "graph_edges graph = list_edges idOf dependenciesOf nodes"
    and createDependencyGraph_succ:
      "set (successorIds graph n) = {w. (n, w) \<in> list_edges idOf dependenciesOf nodes}"
      "distinct (successorIds graph n)"
    and createDependencyGraph_value:
      "distinct (map idOf nodes) \<Longrightarrow> i < length nodes \<Longrightarrow>
       dependencyGraphValue graph (idOf (nodes ! i)) = Some (valueOf (nodes ! i) i)"
    and createDependencyGraph_ok: "[] \<notin> idOf ` set nodes \<Longrightarrow> dep_graph_ok graph"
proof -
  let ?ops = "graph_ops idOf dependenciesOf valueOf nodes"
  have graph: "graph = build ?ops"
    by (simp add: graph_eq createDependencyGraph_def graph_ops_def)
  note spec = assms(1) [unfolded graphlib_spec_def Let_def, rule_format, of ?ops, folded graph,
      unfolded op_ids_graph_ops op_edges_graph_ops]
  show ids: "set (dependencyGraphNodeIds graph) = idOf ` set nodes"
    using spec by blast
  show edges: "graph_edges graph = list_edges idOf dependenciesOf nodes"
    using spec by (auto simp: graph_edges_def)
  show "set (successorIds graph n) = {w. (n, w) \<in> list_edges idOf dependenciesOf nodes}"
    "distinct (successorIds graph n)"
    using spec by blast+
  show "dependencyGraphValue graph (idOf (nodes ! i)) = Some (valueOf (nodes ! i) i)"
    if i: "distinct (map idOf nodes)" "i < length nodes"
  proof -
    obtain before rest where
      "?ops = before @ SetNode (idOf (nodes ! i)) (valueOf (nodes ! i) i) # rest"
      "\<forall>v. SetNode (idOf (nodes ! i)) v \<notin> set rest"
      using graph_ops_last_node [OF i] by blast
    then have "map_of (dg_nodes graph) (idOf (nodes ! i)) = Some (valueOf (nodes ! i) i)"
      using spec by blast
    moreover have "dependencyGraphHasNode graph (idOf (nodes ! i))"
      using ids i by (simp add: dependencyGraphHasNode_def)
    ultimately show ?thesis by (simp add: dependencyGraphValue_def)
  qed
  show "dep_graph_ok graph" if "[] \<notin> idOf ` set nodes"
    using spec that ids edges unfolding dep_graph_ok_def by (auto simp: list_edges_def)
qed

subsection \<open>Batches\<close>

function batches_loop ::
  "'v dep_graph \<Rightarrow> (string \<Rightarrow> 'k::linorder) \<Rightarrow> string list \<Rightarrow> string list list \<Rightarrow> string list list" where
  "batches_loop graph key remaining batches =
     (if remaining = [] then batches
      else let ready = sort_key key
                 (filter (\<lambda>id. \<forall>d \<in> set (dependencyPredecessorIds graph id). d \<notin> set remaining) remaining)
           in if ready = [] then []
              else batches_loop graph key (filter (\<lambda>id. id \<notin> set ready) remaining) (batches @ [ready]))"
  by pat_completeness auto

lemma length_filter_notin_less:
  assumes "ys \<noteq> []" "set ys \<subseteq> set xs"
  shows "length (filter (\<lambda>x. x \<notin> set ys) xs) < length xs"
proof -
  have "hd ys \<in> set xs" using assms by (cases ys) auto
  then show ?thesis using assms(1) by (intro length_filter_less [of "hd ys"]) auto
qed

termination batches_loop
proof (relation "measure (\<lambda>(graph, key, remaining, batches). length remaining)", goal_cases)
  case (2 graph key remaining batches ready)
  have "set ready \<subseteq> set remaining" using 2(2) by auto
  then show ?case using 2(3) length_filter_notin_less by simp
qed simp

declare batches_loop.simps [simp del]

definition dependencyBatches ::
  "'v dep_graph \<Rightarrow> string list \<Rightarrow> (string \<Rightarrow> 'k::linorder) \<Rightarrow> string list list" where
  "dependencyBatches graph nodeIds key = batches_loop graph key (js_set nodeIds) []"

definition terminalDependencyItems ::
  "'i list \<Rightarrow> ('i \<Rightarrow> string) \<Rightarrow> ('i \<Rightarrow> string list option) \<Rightarrow> 'i list" where
  "terminalDependencyItems items keyOf dependenciesOf =
     (let dependedOn = concat (map (\<lambda>item. or_else (dependenciesOf item) []) items) in
      filter (\<lambda>item. keyOf item \<notin> set dependedOn) items)"

text \<open>
  \<open>layers D U bs\<close>: the lists \<open>bs\<close> peel \<open>U\<close> off layer by layer, each holding exactly the
  elements none of whose dependencies remain.
\<close>

fun layers :: "(string \<Rightarrow> string set) \<Rightarrow> string set \<Rightarrow> string list list \<Rightarrow> bool" where
  "layers D U [] \<longleftrightarrow> U = {}"
| "layers D U (b # bs) \<longleftrightarrow>
     b \<noteq> [] \<and> distinct b \<and> set b = {x \<in> U. D x \<inter> U = {}} \<and> layers D (U - set b) bs"

lemma layers_ConsD:
  "layers D U (b # bs) \<Longrightarrow> layers D (U - set b) bs"
  "layers D U (b # bs) \<Longrightarrow> distinct b"
  unfolding layers.simps by blast+

lemma layers_set: "layers D U bs \<Longrightarrow> set (concat bs) = U"
  by (induction bs arbitrary: U) auto

lemma layers_nonempty: "layers D U bs \<Longrightarrow> [] \<notin> set bs"
  by (induction bs arbitrary: U) auto

lemma layers_distinct: "layers D U bs \<Longrightarrow> distinct (concat bs)"
proof (induction bs arbitrary: U)
  case (Cons b bs)
  note rest = layers_ConsD(1) [OF Cons.prems] and b = layers_ConsD(2) [OF Cons.prems]
  have "set b \<inter> set (concat bs) = {}" using layers_set [OF rest] by blast
  then show ?case using Cons.IH [OF rest] b by simp
qed simp

lemma layers_before:
  "layers D U bs \<Longrightarrow> i < length bs \<Longrightarrow> x \<in> set (bs ! i) \<Longrightarrow> d \<in> D x \<Longrightarrow> d \<in> U \<Longrightarrow>
   \<exists>j < i. d \<in> set (bs ! j)"
proof (induction bs arbitrary: U i)
  case (Cons b bs)
  show ?case
  proof (cases i)
    case 0
    then show ?thesis using Cons.prems by auto
  next
    case (Suc k)
    show ?thesis
    proof (cases "d \<in> set b")
      case True
      then show ?thesis using Suc by (intro exI [of _ 0]) simp
    next
      case False
      then have "\<exists>j < k. d \<in> set (bs ! j)"
        using Cons.prems Suc by (intro Cons.IH [of "U - set b"]) auto
      then show ?thesis using Suc by auto
    qed
  qed
qed simp

lemma layers_needs_previous:
  "layers D U bs \<Longrightarrow> Suc i < length bs \<Longrightarrow> x \<in> set (bs ! Suc i) \<Longrightarrow> D x \<inter> set (bs ! i) \<noteq> {}"
proof (induction bs arbitrary: U i)
  case (Cons b bs)
  show ?case
  proof (cases i)
    case 0
    then obtain c cs where bs: "bs = c # cs" using Cons.prems(2) by (cases bs) auto
    then have "x \<in> U" "x \<notin> set b" "D x \<inter> (U - set b) = {}" using Cons.prems 0 by auto
    then show ?thesis using Cons.prems(1) 0 by auto
  next
    case (Suc k)
    then show ?thesis using Cons by auto
  qed
qed simp

lemma acyclic_has_source:
  assumes "finite U" "U \<noteq> {}" "acyclic {(d, x). x \<in> U \<and> d \<in> D x \<and> d \<in> U}"
  shows "\<exists>x \<in> U. D x \<inter> U = {}"
proof -
  let ?r = "{(d, x). x \<in> U \<and> d \<in> D x \<and> d \<in> U}"
  have "?r \<subseteq> U \<times> U" by auto
  then have "finite ?r" using assms(1) by (meson finite_SigmaI finite_subset)
  then have "wf ?r" using assms(3) by (rule finite_acyclic_wf)
  then show ?thesis
  proof (rule wfE_min')
    show "U \<noteq> {}" by (rule assms(2))
  next
    fix x assume x: "x \<in> U" and min: "\<And>y. (y, x) \<in> ?r \<Longrightarrow> y \<notin> U"
    have "y \<notin> U" if "y \<in> D x" for y using min [of y] x that by auto
    then show ?thesis using x by blast
  qed
qed

lemma batches_loop_cases:
  assumes "distinct remaining"
  shows "batches_loop graph key remaining batches = [] \<and>
       \<not> acyclic {(d, x). x \<in> set remaining \<and> d \<in> pred_set graph x \<and> d \<in> set remaining}
     \<or> (\<exists>new. batches_loop graph key remaining batches = batches @ new \<and>
          layers (pred_set graph) (set remaining) new \<and> (\<forall>b \<in> set new. sorted (map key b)))"
  using assms
proof (induction graph key remaining batches rule: batches_loop.induct)
  case (1 graph key remaining batches)
  let ?ready = "sort_key key
      (filter (\<lambda>id. \<forall>d \<in> set (dependencyPredecessorIds graph id). d \<notin> set remaining) remaining)"
  let ?rest = "filter (\<lambda>id. id \<notin> set ?ready) remaining"
  let ?rel = "\<lambda>U. {(d, x). x \<in> U \<and> d \<in> pred_set graph x \<and> d \<in> U}"
  have ready: "set ?ready = {x \<in> set remaining. pred_set graph x \<inter> set remaining = {}}"
    by (auto simp: pred_set_def)
  show ?case
  proof (cases "remaining = []")
    case True
    then show ?thesis by (simp add: batches_loop.simps)
  next
    case False
    show ?thesis
    proof (cases "?ready = []")
      case True
      then have "\<not> acyclic (?rel (set remaining))"
        using acyclic_has_source [of "set remaining" "pred_set graph"] False ready by fastforce
      moreover have "batches_loop graph key remaining batches = []"
        using False True by (subst batches_loop.simps) (simp only: Let_def if_True if_False refl)
      ultimately show ?thesis by blast
    next
      case nonempty: False
      have rest: "set ?rest = set remaining - set ?ready" by auto
      have step: "batches_loop graph key remaining batches = batches_loop graph key ?rest (batches @ [?ready])"
        using False nonempty by (subst batches_loop.simps) (simp only: Let_def if_False)
      have "?rel (set ?rest) \<subseteq> ?rel (set remaining)" by auto
      then have mono: "\<not> acyclic (?rel (set ?rest)) \<Longrightarrow> \<not> acyclic (?rel (set remaining))"
        using acyclic_subset by blast
      have "distinct ?rest" using "1.prems" by simp
      from "1.IH" [OF False refl nonempty this] show ?thesis
      proof (elim disjE exE conjE)
        fix new
        assume new: "batches_loop graph key ?rest (batches @ [?ready]) = (batches @ [?ready]) @ new"
          "layers (pred_set graph) (set ?rest) new" "\<forall>b \<in> set new. sorted (map key b)"
        have "distinct ?ready" using "1.prems" by simp
        with nonempty ready new(2) have "layers (pred_set graph) (set remaining) (?ready # new)"
          unfolding layers.simps rest by blast
        moreover have "\<forall>b \<in> set (?ready # new). sorted (map key b)"
          using new(3) by simp
        moreover have "batches_loop graph key remaining batches = batches @ (?ready # new)"
          using step new(1) by simp
        ultimately show ?thesis by blast
      qed (use step mono in simp)
    qed
  qed
qed

lemma layers_acyclic:
  assumes "layers D U bs" "finite U"
  shows "acyclic {(d, x). x \<in> U \<and> d \<in> D x \<and> d \<in> U}"
  using assms
proof (induction bs arbitrary: U)
  case (Cons b bs)
  let ?r = "{(d, x). x \<in> U - set b \<and> d \<in> D x \<and> d \<in> U - set b}"
  have sub: "{(d, x). x \<in> U \<and> d \<in> D x \<and> d \<in> U} \<subseteq> ?r \<union> set b \<times> (U - set b)"
    using Cons.prems by auto
  have "finite (U - set b)" using Cons.prems by simp
  with layers_ConsD(1) [OF Cons.prems(1)] have "acyclic ?r" by (rule Cons.IH)
  moreover have "acyclic (?r \<union> A \<times> (U - set b))" if "A \<subseteq> set b" "finite A" "acyclic ?r" for A
    using that(2,1)
  proof (induction A rule: finite_induct)
    case empty
    then show ?case using that(3) by simp
  next
    case (insert a A)
    have "acyclic (?r \<union> A \<times> (U - set b) \<union> {a} \<times> (U - set b))"
      using insert by (intro acyclic_insert_source) auto
    moreover have "?r \<union> A \<times> (U - set b) \<union> {a} \<times> (U - set b) = ?r \<union> insert a A \<times> (U - set b)"
      by auto
    ultimately show ?case by (simp only:)
  qed
  ultimately have "acyclic (?r \<union> set b \<times> (U - set b))" by auto
  then show ?case using sub by (rule acyclic_subset)
qed (simp add: acyclic_def)

lemma dependencyBatches_layers:
  assumes "acyclic {(d, x). x \<in> set nodeIds \<and> d \<in> pred_set graph x \<and> d \<in> set nodeIds}"
  shows "layers (pred_set graph) (set nodeIds) (dependencyBatches graph nodeIds key)"
    and "\<forall>b \<in> set (dependencyBatches graph nodeIds key). sorted (map key b)"
  using batches_loop_cases [of "js_set nodeIds" graph key "[]"] assms
  by (auto simp: dependencyBatches_def)

lemma dependencyBatches_Nil_iff:
  "dependencyBatches graph nodeIds key = [] \<longleftrightarrow>
     nodeIds = [] \<or>
     \<not> acyclic {(d, x). x \<in> set nodeIds \<and> d \<in> pred_set graph x \<and> d \<in> set nodeIds}"
proof -
  have "js_set nodeIds = [] \<longleftrightarrow> nodeIds = []" by (metis set_empty set_js_set)
  moreover have "dependencyBatches graph nodeIds key = [] \<Longrightarrow>
      acyclic {(d, x). x \<in> set nodeIds \<and> d \<in> pred_set graph x \<and> d \<in> set nodeIds} \<Longrightarrow> nodeIds = []"
    using dependencyBatches_layers(1) [of nodeIds graph key] by simp
  moreover have "dependencyBatches graph nodeIds key = []"
    if "\<not> acyclic {(d, x). x \<in> set nodeIds \<and> d \<in> pred_set graph x \<and> d \<in> set nodeIds}"
  proof -
    have "\<not> layers (pred_set graph) (set nodeIds) new" for new
      using that layers_acyclic [of "pred_set graph" "set nodeIds" new] by blast
    then show ?thesis
      using batches_loop_cases [of "js_set nodeIds" graph key "[]"]
      by (auto simp: dependencyBatches_def)
  qed
  moreover have "dependencyBatches graph [] key = []"
    by (subst dependencyBatches_def, subst batches_loop.simps) (simp add: js_set_def)
  ultimately show ?thesis by blast
qed

end
