(* ===== verification/Graphlib.thy ===== *)
theory Graphlib
  imports Batches
begin

text \<open>
  An executable graph with the behaviour the planner relies on (\<open>graphlib_spec\<close>): node
  labels in insertion order, predecessors, successors and sinks read off the calls. It shows
  that the assumption can be met and lets the planner be run on concrete workflows. The label of
  a node that was only ever named by an edge is \<open>d\<close> (the planner never adds such an edge).
\<close>

fun apply_op :: "'v \<Rightarrow> (string \<times> 'v) list \<Rightarrow> 'v graph_op \<Rightarrow> (string \<times> 'v) list" where
  "apply_op d m (SetNode n v) = AList.update n v m"
| "apply_op d m (SetEdge v w) =
     (let ensure = (\<lambda>n m. if map_of m n = None then AList.update n d m else m)
      in ensure w (ensure v m))"

fun op_edge_list :: "'v graph_op list \<Rightarrow> (string \<times> string) list" where
  "op_edge_list [] = []"
| "op_edge_list (SetNode n v # ops) = op_edge_list ops"
| "op_edge_list (SetEdge v w # ops) = (v, w) # op_edge_list ops"

definition reference_graph :: "'v \<Rightarrow> 'v graph_op list \<Rightarrow> 'v dep_graph" where
  "reference_graph d ops =
     (let nodes = foldl (apply_op d) [] ops; ids = map fst nodes; edges = op_edge_list ops in
      \<lparr>dg_nodes = nodes,
       dg_predecessors = map (\<lambda>w. (w, js_set (map fst (filter (\<lambda>e. snd e = w) edges)))) ids,
       dg_successors = map (\<lambda>v. (v, js_set (map snd (filter (\<lambda>e. fst e = v) edges)))) ids,
       dg_sinks = filter (\<lambda>n. n \<notin> set (map fst edges)) ids\<rparr>)"

lemma set_op_edge_list: "set (op_edge_list ops) = op_edges ops"
  by (induction ops rule: op_edge_list.induct) (auto simp: op_edges_def)

lemma dom_AList_update: "fst ` set (AList.update k v m) = insert k (fst ` set m)"
  by (simp add: dom_update)

lemma apply_op_ids:
  "fst ` set (apply_op d m oper) =
     fst ` set m \<union> (case oper of SetNode n v \<Rightarrow> {n} | SetEdge v w \<Rightarrow> {v, w})"
  by (cases oper) (auto simp: Let_def dom_AList_update map_of_eq_None_iff)

lemma apply_op_distinct: "distinct (map fst m) \<Longrightarrow> distinct (map fst (apply_op d m oper))"
  by (cases oper) (simp_all add: Let_def distinct_update)

lemma fold_apply_op_ids: "fst ` set (foldl (apply_op d) m ops) = fst ` set m \<union> op_ids ops"
  by (induction ops arbitrary: m) (auto simp: apply_op_ids op_ids_def)

lemma fold_apply_op_distinct:
  "distinct (map fst m) \<Longrightarrow> distinct (map fst (foldl (apply_op d) m ops))"
  by (induction ops arbitrary: m) (simp_all add: apply_op_distinct)

lemma fold_apply_op_keeps:
  "map_of m n = Some v \<Longrightarrow> \<forall>v'. SetNode n v' \<notin> set ops \<Longrightarrow> map_of (foldl (apply_op d) m ops) n = Some v"
proof (induction ops arbitrary: m)
  case (Cons oper ops)
  have "map_of (apply_op d m oper) n = Some v"
    using Cons.prems by (cases oper) (auto simp: Let_def)
  then show ?case using Cons by simp
qed simp

lemma map_of_map_self: "map_of (map (\<lambda>k. (k, f k)) ks) x = (if x \<in> set ks then Some (f x) else None)"
  by (induction ks) auto

lemma op_edges_in_ids: "(v, w) \<in> op_edges ops \<Longrightarrow> v \<in> op_ids ops \<and> w \<in> op_ids ops"
  unfolding op_edges_def op_ids_def by force

lemma reference_graph_spec: "graphlib_spec (reference_graph d)"
proof -
  have "let graph = reference_graph d ops in
        distinct (dependencyGraphNodeIds graph) \<and>
        set (dependencyGraphNodeIds graph) = op_ids ops \<and>
        (\<forall>before n v rest. ops = before @ SetNode n v # rest \<and> (\<forall>v'. SetNode n v' \<notin> set rest) \<longrightarrow>
            map_of (dg_nodes graph) n = Some v) \<and>
        (\<forall>w. distinct (dependencyPredecessorIds graph w) \<and>
             set (dependencyPredecessorIds graph w) = {v. (v, w) \<in> op_edges ops}) \<and>
        (\<forall>v. distinct (successorIds graph v) \<and>
             set (successorIds graph v) = {w. (v, w) \<in> op_edges ops}) \<and>
        distinct (dg_sinks graph) \<and>
        set (dg_sinks graph) = {n \<in> op_ids ops. \<forall>w. (n, w) \<notin> op_edges ops}" for ops
  proof -
    let ?graph = "reference_graph d ops" and ?nodes = "foldl (apply_op d) [] ops"
    have ids: "fst ` set ?nodes = op_ids ops" using fold_apply_op_ids [of d "[]" ops] by simp
    have dist: "distinct (map fst ?nodes)" using fold_apply_op_distinct [of "[]"] by simp
    have sel: "dg_nodes ?graph = ?nodes"
      "dependencyPredecessorIds ?graph w = (if w \<in> op_ids ops
         then js_set (map fst (filter (\<lambda>e. snd e = w) (op_edge_list ops))) else [])"
      "successorIds ?graph v = (if v \<in> op_ids ops
         then js_set (map snd (filter (\<lambda>e. fst e = v) (op_edge_list ops))) else [])"
      "dg_sinks ?graph = filter (\<lambda>n. n \<notin> fst ` op_edges ops) (map fst ?nodes)" for v w
      using ids by (auto simp: reference_graph_def Let_def dependencyPredecessorIds_def successorIds_def
          map_of_map_self set_op_edge_list simp del: map_map)
    have label: "map_of (dg_nodes ?graph) n = Some v"
      if "ops = before @ SetNode n v # rest" "\<forall>v'. SetNode n v' \<notin> set rest" for before n v rest
      unfolding sel(1) using that by (simp add: fold_apply_op_keeps)
    have preds: "set (dependencyPredecessorIds ?graph w) = {v. (v, w) \<in> op_edges ops}" for w
      using op_edges_in_ids [of _ w ops] by (force simp: sel set_op_edge_list)
    have succs: "set (successorIds ?graph v) = {w. (v, w) \<in> op_edges ops}" for v
      using op_edges_in_ids [of v _ ops] by (force simp: sel set_op_edge_list)
    have sinks: "set (dg_sinks ?graph) = {n \<in> op_ids ops. \<forall>w. (n, w) \<notin> op_edges ops}"
      using ids by (force simp: sel)
    have ids_eq: "dependencyGraphNodeIds ?graph = map fst ?nodes"
      by (simp add: dependencyGraphNodeIds_def sel(1))
    have d_preds: "distinct (dependencyPredecessorIds ?graph w)" for w unfolding sel(2) by simp
    have d_succs: "distinct (successorIds ?graph v)" for v unfolding sel(3) by simp
    have d_sinks: "distinct (dg_sinks ?graph)" unfolding sel(4) using dist by simp
    show ?thesis
      unfolding Let_def preds succs sinks ids_eq set_map ids
      using dist label d_preds d_succs d_sinks by blast
  qed
  then show ?thesis by (simp add: graphlib_spec_def)
qed

end
