(* ===== verification/Contracts.thy ===== *)
theory Contracts
  imports Prelude
begin

text \<open>
  The data the runtime components exchange (\<^verbatim>\<open>src/runtime/contracts/contracts.ts\<close>): failures,
  gate results, node results, node execution states. A time stamp is the string the source
  stores; attempts are \<^typ>\<open>nat\<close>, exit codes \<^typ>\<open>int\<close>, and delays, which a fractional multiplier
  scales, are rational (the rounding of floating-point numbers is not modelled).
\<close>

record runtime_failure =
  rf_evidence :: "string list"
  rf_gate :: string
  rf_nodeId :: "string option"
  rf_reason :: string

record unmet_criterion =
  uc_criterion :: string
  uc_evidence :: "string list"
  uc_reason :: string

record gate_result =
  gr_evidence :: "string list"
  gr_gateId :: string
  gr_kind :: string
  gr_nodeId :: string
  gr_passed :: bool
  gr_reason :: "string option"
  gr_unmet :: "unmet_criterion list option"

datatype result_status = ResultFailed | ResultPassed

record node_result =
  nr_attempts :: nat
  nr_evidence :: "string list"
  nr_exitCode :: int
  nr_nodeId :: string
  nr_output :: string
  nr_status :: result_status

datatype node_status =
  CANCELLED_ST | FAILED_ST | GATING_ST | PASSED_ST | PENDING_ST | READY_ST | RUNNING_ST | SKIPPED_ST

datatype retry_reason = ExitNonzero | GateFailure | Timeout

record node_retry =
  rt_attempt :: nat
  rt_delayMs :: rat
  rt_evidence :: "string list"
  rt_exhausted :: bool
  rt_gate :: string
  rt_reason :: string
  rt_retryReason :: retry_reason
  rt_scheduled :: bool

record node_execution_state =
  ns_attempts :: nat
  ns_evidence :: "string list"
  ns_exitCode :: "int option"
  ns_failure :: "runtime_failure option"
  ns_finishedAt :: "string option"
  ns_gates :: "gate_result list"
  ns_id :: string
  ns_output :: "string option"
  ns_retry :: "node_retry option"
  ns_sessionId :: "string option"
  ns_startedAt :: "string option"
  ns_status :: node_status

datatype run_outcome = CANCELLED | FAIL | PASS

text \<open>The result of one attempt at a node; a handoff is kept as its text.\<close>

record attempt_result =
  ar_evidence :: "string list"
  ar_exitCode :: int
  ar_handoff :: "string option"
  ar_output :: string
  ar_timedOut :: "bool option"

record attempt_retry =
  at_attempt :: nat
  at_evidence :: "string list"
  at_gate :: string
  at_reason :: string
  at_retryReason :: retry_reason

lemma result_status_not [simp]:
  "s \<noteq> ResultFailed \<longleftrightarrow> s = ResultPassed" "s \<noteq> ResultPassed \<longleftrightarrow> s = ResultFailed"
  by (cases s, simp_all)+

end
