(* ===== verification/Plan.thy ===== *)
theory Plan
  imports Cycles Graphlib Contracts
begin

text \<open>
  The workflow planner of \<^verbatim>\<open>src/planning/compile.ts\<close>: validation of the declared node list
  (duplicates, group references, missing dependencies, cycles), the planned nodes, the
  graph with its dependents, the topological order and the parallel batches.

  Messages are built as the source builds them, because \<open>codeForIssue\<close> derives the error
  code from the message text. The schema values the planner only passes through
  (\<open>artifacts\<close>, \<open>gates\<close>) are type parameters.
\<close>

subsection \<open>Workflow declarations\<close>

record retries_config =
  rc_backoff_ms :: "nat option"
  rc_max_attempts :: nat
  rc_multiplier :: "rat option"
  rc_retry_on :: "retry_reason list option"

record task_context =
  tc_acceptanceCriteria :: "(string \<times> string) list option"
  tc_description :: "string option"
  tc_id :: "string option"
  tc_title :: "string option"

datatype ('a, 'g) workflow_node =
  WorkflowNode (wn_id: string) (wn_body: "('a, 'g) node_body") (wn_needs: "string list option")
    (wn_artifacts: "'a option") (wn_gates: "'g option") (wn_models: "string list option")
    (wn_reasoning_effort: "string option") (wn_retries: "retries_config option")
    (wn_task_context: "task_context option") (wn_timeout_ms: "nat option")
and ('a, 'g) node_body =
    AgentBody string "string option"
  | BuiltinBody string
  | CommandBody "string list"
  | GroupBody "string list"
  | ParallelBody "('a, 'g) workflow_node list"

datatype node_kind = AgentKind | BuiltinKind | CommandKind | GroupKind | ParallelKind

fun body_kind :: "('a, 'g) node_body \<Rightarrow> node_kind" where
  "body_kind (AgentBody p c) = AgentKind"
| "body_kind (BuiltinBody b) = BuiltinKind"
| "body_kind (CommandBody c) = CommandKind"
| "body_kind (GroupBody ns) = GroupKind"
| "body_kind (ParallelBody cs) = ParallelKind"

datatype ('a, 'g) planned_node =
  PlannedNode (pn_id: string) (pn_index: nat) (pn_kind: node_kind) (pn_needs: "string list")
    (pn_dependents: "string list") (pn_artifacts: "'a option") (pn_builtin: "string option")
    (pn_category: "string option") (pn_children: "('a, 'g) planned_node list option")
    (pn_command: "string list option") (pn_gates: "'g option") (pn_models: "string list option")
    (pn_nodes: "string list option") (pn_profile: "string option")
    (pn_reasoning_effort: "string option") (pn_retries: "retries_config option")
    (pn_taskContext: "task_context option") (pn_timeoutMs: "nat option")

fun set_dependents :: "string list \<Rightarrow> ('a, 'g) planned_node \<Rightarrow> ('a, 'g) planned_node" where
  "set_dependents ds (PlannedNode i ix k ns ds' ar b c ch co g m nd p re rt tc t) =
     PlannedNode i ix k ns ds ar b c ch co g m nd p re rt tc t"

lemma set_dependents_simps [simp]:
  "pn_id (set_dependents ds n) = pn_id n" "pn_index (set_dependents ds n) = pn_index n"
  "pn_needs (set_dependents ds n) = pn_needs n" "pn_dependents (set_dependents ds n) = ds"
  "pn_kind (set_dependents ds n) = pn_kind n" "pn_children (set_dependents ds n) = pn_children n"
  by (cases n, simp)+

record workflow_execution =
  we_fail_fast :: "bool option"
  we_max_parallel_nodes :: "nat option"
  we_timeout_ms :: "nat option"

record ('a, 'g) workflow =
  wf_nodes :: "('a, 'g) workflow_node list"
  wf_execution :: "workflow_execution option"

record ('a, 'g) pipeline_config =
  pc_default_workflow :: string
  pc_workflows :: "(string \<times> ('a, 'g) workflow) list"

record planned_execution =
  pe_failFast :: bool
  pe_maxParallelNodes :: "nat option"
  pe_timeoutMs :: "nat option"

record ('a, 'g) execution_plan =
  ep_execution :: planned_execution
  ep_graph :: "('a, 'g) planned_node dep_graph"
  ep_parallelBatches :: "('a, 'g) planned_node list list"
  ep_topologicalOrder :: "('a, 'g) planned_node list"
  ep_workflowId :: string

datatype planner_code =
    WORKFLOW_CYCLE | WORKFLOW_DUPLICATE_NODE | WORKFLOW_GROUP_REFERENCE
  | WORKFLOW_MISSING_DEPENDENCY | WORKFLOW_MISSING_WORKFLOW

record planner_issue =
  pi_message :: string
  pi_path :: "string option"

datatype planner_error =
    WorkflowPlannerError planner_code string "planner_issue list"
  | GraphCycleError

subsection \<open>Validation\<close>

definition nonzero :: "nat option \<Rightarrow> nat option" where
  "nonzero x = (case x of None \<Rightarrow> None | Some n \<Rightarrow> if n = 0 then None else Some n)"

definition workflowExecution :: "('a, 'g) workflow \<Rightarrow> planned_execution" where
  "workflowExecution w =
     (let execution = wf_execution w in
      \<lparr>pe_failFast = (Option.bind execution we_fail_fast = Some True),
       pe_maxParallelNodes = nonzero (Option.bind execution we_max_parallel_nodes),
       pe_timeoutMs = nonzero (Option.bind execution we_timeout_ms)\<rparr>)"

definition issue :: "string \<Rightarrow> string \<Rightarrow> planner_issue" where
  "issue message path = \<lparr>pi_message = message, pi_path = Some path\<rparr>"

definition node_path :: "string \<Rightarrow> string \<Rightarrow> string" where
  "node_path workflowId nodeId = ''workflows.'' @ workflowId @ ''.nodes.'' @ nodeId"

fun duplicates_from :: "string \<Rightarrow> string list \<Rightarrow> ('a, 'g) workflow_node list \<Rightarrow> planner_issue list" where
  "duplicates_from workflowId seen [] = []"
| "duplicates_from workflowId seen (node # nodes) =
     (if wn_id node \<in> set seen
      then issue (''workflow '' @ quoted workflowId @ '' declares duplicate node id '' @ quoted (wn_id node))
             (node_path workflowId (wn_id node)) # duplicates_from workflowId seen nodes
      else duplicates_from workflowId (set_add seen (wn_id node)) nodes)"

definition duplicateNodeIssues :: "string \<Rightarrow> ('a, 'g) workflow_node list \<Rightarrow> planner_issue list" where
  "duplicateNodeIssues workflowId nodes = duplicates_from workflowId [] nodes"

definition wn_needs_list :: "('a, 'g) workflow_node \<Rightarrow> string list" where
  "wn_needs_list node = or_else (wn_needs node) []"

definition dependencyIssues ::
  "string \<Rightarrow> ('a, 'g) workflow_node list \<Rightarrow> string set \<Rightarrow> planner_issue list" where
  "dependencyIssues workflowId nodes nodeIds =
     concat (map (\<lambda>node.
       map (\<lambda>need. issue (''node '' @ quoted (wn_id node) @ '' references missing dependency '' @ quoted need)
                       (node_path workflowId (wn_id node) @ ''.needs''))
         (filter (\<lambda>need. need \<notin> nodeIds) (wn_needs_list node))) nodes)"

definition emptyGroupIssues :: "string \<Rightarrow> string \<Rightarrow> string list \<Rightarrow> planner_issue list" where
  "emptyGroupIssues workflowId nodeId members =
     (if members \<noteq> [] then []
      else [issue (''group node '' @ quoted nodeId @ '' must reference at least one child node'')
              (node_path workflowId nodeId @ ''.nodes'')])"

definition groupChildIssues :: "string \<Rightarrow> string \<Rightarrow> string list \<Rightarrow> string set \<Rightarrow> planner_issue list" where
  "groupChildIssues workflowId nodeId members nodeIds =
     concat (map (\<lambda>childId.
       if childId \<notin> nodeIds
       then [issue (''group node '' @ quoted nodeId @ '' references missing child node '' @ quoted childId)
               (node_path workflowId nodeId @ ''.nodes'')]
       else if childId = nodeId
       then [issue (''group node '' @ quoted nodeId @ '' cannot reference itself'')
               (node_path workflowId nodeId @ ''.nodes'')]
       else []) members)"

fun normalizeGroupNode :: "('a, 'g) workflow_node \<Rightarrow> ('a, 'g) workflow_node" where
  "normalizeGroupNode (WorkflowNode i (GroupBody members) ns ar g m re rt tc t) =
     WorkflowNode i (GroupBody members) (Some (js_set (members @ or_else ns []))) ar g m re rt tc t"
| "normalizeGroupNode node = node"

definition normalizeGroupDependencies ::
  "('a, 'g) workflow_node list \<Rightarrow> ('a, 'g) workflow_node list" where
  "normalizeGroupDependencies nodes = map normalizeGroupNode nodes"

definition group_node_issues :: "string \<Rightarrow> string set \<Rightarrow> ('a, 'g) workflow_node \<Rightarrow> planner_issue list" where
  "group_node_issues workflowId nodeIds node =
     (case wn_body node of
        GroupBody members \<Rightarrow> emptyGroupIssues workflowId (wn_id node) members @
                             groupChildIssues workflowId (wn_id node) members nodeIds
      | _ \<Rightarrow> [])"

definition groupIssues ::
  "string \<Rightarrow> ('a, 'g) workflow_node list \<Rightarrow> string set \<Rightarrow> planner_issue list" where
  "groupIssues workflowId nodes nodeIds = concat (map (group_node_issues workflowId nodeIds) nodes)"

definition as_graph_node :: "('a, 'g) workflow_node \<Rightarrow> graph_node" where
  "as_graph_node node = \<lparr>gn_id = wn_id node, gn_needs = wn_needs node\<rparr>"

definition cycleIssues :: "string \<Rightarrow> ('a, 'g) workflow_node list \<Rightarrow> planner_issue list" where
  "cycleIssues workflowId nodes =
     map (\<lambda>cycle. issue (''workflow '' @ quoted workflowId @ '' contains dependency cycle: '' @
                        join_with '' -> '' cycle)
                   (node_path workflowId (or_else (js_nth cycle 0) ''nodes'') @ ''.needs''))
       (findDependencyCycles (map as_graph_node nodes))"

definition validateNodeGraph :: "string \<Rightarrow> ('a, 'g) workflow_node list \<Rightarrow> planner_issue list" where
  "validateNodeGraph workflowId nodes =
     (let duplicateIssues = duplicateNodeIssues workflowId nodes;
          nodeIds = set (map wn_id nodes);
          issues = duplicateIssues @ groupIssues workflowId nodes nodeIds @
                   dependencyIssues workflowId nodes nodeIds
      in if duplicateIssues = [] then issues @ cycleIssues workflowId nodes else issues)"

subsection \<open>Errors\<close>

definition codeForIssue :: "string \<Rightarrow> planner_code" where
  "codeForIssue message =
     (if str_includes message ''duplicate node id'' then WORKFLOW_DUPLICATE_NODE
      else if str_includes message ''missing dependency'' then WORKFLOW_MISSING_DEPENDENCY
      else if str_includes message ''group node'' then WORKFLOW_GROUP_REFERENCE
      else if str_includes message ''cycle'' then WORKFLOW_CYCLE
      else WORKFLOW_MISSING_DEPENDENCY)"

definition issue_line :: "planner_issue \<Rightarrow> string" where
  "issue_line i = (case truthy (pi_path i) of
     Some path \<Rightarrow> ''- '' @ path @ '': '' @ pi_message i
   | None \<Rightarrow> ''- '' @ pi_message i)"

definition issuesToError :: "planner_issue list \<Rightarrow> planner_error" where
  "issuesToError issues =
     WorkflowPlannerError (codeForIssue (pi_message (hd issues)))
       (join_with [CHR 0x0A] (''Invalid workflow plan:'' # map issue_line issues)) issues"

subsection \<open>Planned nodes\<close>

definition agentNodeCategory :: "('a, 'g) node_body \<Rightarrow> string option" where
  "agentNodeCategory body = (case body of AgentBody p c \<Rightarrow> c | _ \<Rightarrow> None)"

definition plannedTaskContext :: "task_context option \<Rightarrow> task_context option" where
  "plannedTaskContext tc = map_option (\<lambda>c.
     \<lparr>tc_acceptanceCriteria = tc_acceptanceCriteria c, tc_description = truthy (tc_description c),
      tc_id = truthy (tc_id c), tc_title = truthy (tc_title c)\<rparr>) tc"

fun toPlannedNode :: "('a, 'g) workflow_node \<Rightarrow> nat \<Rightarrow> ('a, 'g) planned_node"
and toPlannedChildren :: "('a, 'g) workflow_node list \<Rightarrow> nat \<Rightarrow> ('a, 'g) planned_node list" where
  "toPlannedNode (WorkflowNode i body ns ar g m re rt tc t) index =
     PlannedNode i index (body_kind body) (or_else ns []) [] ar
       (case body of BuiltinBody b \<Rightarrow> Some b | _ \<Rightarrow> None)
       (agentNodeCategory body)
       (case body of ParallelBody cs \<Rightarrow> Some (toPlannedChildren cs 0) | _ \<Rightarrow> None)
       (case body of CommandBody c \<Rightarrow> Some c | _ \<Rightarrow> None)
       g m
       (case body of GroupBody members \<Rightarrow> Some members | _ \<Rightarrow> None)
       (case body of AgentBody p c \<Rightarrow> Some p | _ \<Rightarrow> None)
       re rt (plannedTaskContext tc) (nonzero t)"
| "toPlannedChildren [] childIndex = []"
| "toPlannedChildren (child # children) childIndex =
     toPlannedNode child childIndex # toPlannedChildren children (Suc childIndex)"

lemma toPlannedNode_simps [simp]:
  "pn_id (toPlannedNode node index) = wn_id node"
  "pn_index (toPlannedNode node index) = index"
  "pn_needs (toPlannedNode node index) = wn_needs_list node"
  "pn_dependents (toPlannedNode node index) = []"
  by (cases node, simp add: wn_needs_list_def)+

subsection \<open>The plan\<close>

definition createWorkflowGraph ::
  "(('a, 'g) planned_node graph_op list \<Rightarrow> ('a, 'g) planned_node dep_graph) \<Rightarrow>
   ('a, 'g) workflow_node list \<Rightarrow> ('a, 'g) planned_node dep_graph" where
  "createWorkflowGraph build nodes =
     (let graph = createDependencyGraph build wn_id wn_needs toPlannedNode nodes in
      graph\<lparr>dg_nodes := map (\<lambda>(nodeId, planned). (nodeId, set_dependents (successorIds graph nodeId) planned))
                          (dg_nodes graph)\<rparr>)"

definition plannedNodesForIds ::
  "('a, 'g) planned_node dep_graph \<Rightarrow> string list \<Rightarrow> ('a, 'g) planned_node list" where
  "plannedNodesForIds graph nodeIds = List.map_filter (dependencyGraphValue graph) nodeIds"

definition plannedNodeIndex :: "(string \<times> ('a, 'g) planned_node) list \<Rightarrow> string \<Rightarrow> nat" where
  "plannedNodeIndex nodesById nodeId = (case map_of nodesById nodeId of None \<Rightarrow> 0 | Some n \<Rightarrow> pn_index n)"

definition buildParallelBatches ::
  "('a, 'g) planned_node dep_graph \<Rightarrow> ('a, 'g) planned_node list \<Rightarrow> ('a, 'g) planned_node list list" where
  "buildParallelBatches graph topologicalOrder =
     (let byId = map (\<lambda>node. (pn_id node, node)) topologicalOrder in
      map (plannedNodesForIds graph)
        (dependencyBatches graph (map pn_id topologicalOrder) (plannedNodeIndex byId)))"

definition compileWorkflowPlan ::
  "(('a, 'g) planned_node graph_op list \<Rightarrow> ('a, 'g) planned_node dep_graph) \<Rightarrow>
   ('a, 'g) pipeline_config \<Rightarrow> string option \<Rightarrow> planner_error + ('a, 'g) execution_plan" where
  "compileWorkflowPlan build config requested =
     (let workflowId = or_else requested (pc_default_workflow config) in
      case map_of (pc_workflows config) workflowId of
        None \<Rightarrow> Inl (WorkflowPlannerError WORKFLOW_MISSING_WORKFLOW
                  (''workflow '' @ quoted workflowId @ '' is not declared'')
                  [issue ''workflow is missing'' (''workflows.'' @ workflowId)])
      | Some w \<Rightarrow>
          let nodes = normalizeGroupDependencies (wf_nodes w);
              issues = validateNodeGraph workflowId nodes in
          if issues \<noteq> [] then Inl (issuesToError issues)
          else let graph = createWorkflowGraph build nodes in
            (case topologicalDependencyOrder graph of
               Inl e \<Rightarrow> Inl GraphCycleError
             | Inr order \<Rightarrow>
                 let topologicalOrder = plannedNodesForIds graph order in
                 Inr \<lparr>ep_execution = workflowExecution w, ep_graph = graph,
                      ep_parallelBatches = buildParallelBatches graph topologicalOrder,
                      ep_topologicalOrder = topologicalOrder, ep_workflowId = workflowId\<rparr>))"


subsection \<open>Validation accepts exactly the plannable node lists\<close>

definition group_ok :: "string set \<Rightarrow> ('a, 'g) workflow_node \<Rightarrow> bool" where
  "group_ok ids node = (case wn_body node of
     GroupBody members \<Rightarrow> members \<noteq> [] \<and> set members \<subseteq> ids - {wn_id node} | _ \<Rightarrow> True)"

definition plannable :: "('a, 'g) workflow_node list \<Rightarrow> bool" where
  "plannable nodes \<longleftrightarrow>
     distinct (map wn_id nodes) \<and>
     (\<forall>node \<in> set nodes. set (wn_needs_list node) \<subseteq> wn_id ` set nodes) \<and>
     (\<forall>node \<in> set nodes. group_ok (wn_id ` set nodes) node) \<and>
     acyclic (list_edges wn_id wn_needs nodes)"

lemma duplicates_from_Nil_iff:
  "duplicates_from workflowId seen nodes = [] \<longleftrightarrow>
     distinct (map wn_id nodes) \<and> set (map wn_id nodes) \<inter> set seen = {}"
  by (induction workflowId seen nodes rule: duplicates_from.induct) auto

lemma duplicateNodeIssues_Nil_iff:
  "duplicateNodeIssues workflowId nodes = [] \<longleftrightarrow> distinct (map wn_id nodes)"
  by (simp add: duplicateNodeIssues_def duplicates_from_Nil_iff)

lemma dependencyIssues_Nil_iff:
  "dependencyIssues workflowId nodes nodeIds = [] \<longleftrightarrow>
     (\<forall>node \<in> set nodes. set (wn_needs_list node) \<subseteq> nodeIds)"
  by (auto simp: dependencyIssues_def filter_empty_conv)

lemma groupChildIssues_Nil_iff:
  "groupChildIssues workflowId nodeId members nodeIds = [] \<longleftrightarrow> set members \<subseteq> nodeIds - {nodeId}"
  unfolding groupChildIssues_def by (induction members) simp_all

lemma group_node_issues_Nil_iff:
  "group_node_issues workflowId nodeIds node = [] \<longleftrightarrow> group_ok nodeIds node"
  by (cases "wn_body node")
     (simp_all add: group_node_issues_def group_ok_def emptyGroupIssues_def groupChildIssues_Nil_iff)

lemma groupIssues_Nil_iff:
  "groupIssues workflowId nodes nodeIds = [] \<longleftrightarrow> (\<forall>node \<in> set nodes. group_ok nodeIds node)"
  by (simp add: groupIssues_def group_node_issues_Nil_iff)

lemma dep_edges_mem:
  "(d, n) \<in> dep_edges nodes \<longleftrightarrow>
     (\<exists>node \<in> set nodes. n = gn_id node \<and> d \<in> set (needs_of node)) \<and> d \<in> declared_ids nodes"
  unfolding dep_edges_def by blast

lemma list_edges_mem:
  "(d, n) \<in> list_edges idOf dependenciesOf nodes \<longleftrightarrow>
     (\<exists>node \<in> set nodes. n = idOf node \<and> d \<in> set (or_else (dependenciesOf node) [])) \<and>
     d \<in> idOf ` set nodes"
  unfolding list_edges_def by blast

lemma dep_edges_as_graph_node:
  "dep_edges (map as_graph_node nodes) = list_edges wn_id wn_needs nodes"
proof (rule set_eqI, clarify)
  show "(d, n) \<in> dep_edges (map as_graph_node nodes) \<longleftrightarrow> (d, n) \<in> list_edges wn_id wn_needs nodes"
    for d n
    by (simp add: dep_edges_mem list_edges_mem declared_ids_def image_image needs_of_def
        as_graph_node_def del: set_or_else_Nil)
qed

lemma cycleIssues_Nil_iff:
  assumes "[] \<notin> wn_id ` set nodes"
  shows "cycleIssues workflowId nodes = [] \<longleftrightarrow> acyclic (list_edges wn_id wn_needs nodes)"
proof -
  have "[] \<notin> declared_ids (map as_graph_node nodes)"
    using assms by (auto simp: declared_ids_def as_graph_node_def)
  from findDependencyCycles_Nil_iff [OF this] show ?thesis
    by (simp add: cycleIssues_def dep_edges_as_graph_node)
qed

lemma validateNodeGraph_Nil_iff:
  assumes "[] \<notin> wn_id ` set nodes"
  shows "validateNodeGraph workflowId nodes = [] \<longleftrightarrow> plannable nodes"
  using cycleIssues_Nil_iff [OF assms]
  by (auto simp: validateNodeGraph_def Let_def plannable_def duplicateNodeIssues_Nil_iff
      groupIssues_Nil_iff dependencyIssues_Nil_iff)

lemma normalizeGroupNode_id [simp]: "wn_id (normalizeGroupNode node) = wn_id node"
  by (cases node rule: normalizeGroupNode.cases) simp_all

lemma normalizeGroupDependencies_ids [simp]:
  "map wn_id (normalizeGroupDependencies nodes) = map wn_id nodes"
  by (simp add: normalizeGroupDependencies_def)

lemma normalizeGroupDependencies_id_set [simp]:
  "wn_id ` set (normalizeGroupDependencies nodes) = wn_id ` set nodes"
  by (metis normalizeGroupDependencies_ids set_map)

subsection \<open>The workflow graph\<close>

abbreviation raw_graph ::
  "(('a, 'g) planned_node graph_op list \<Rightarrow> ('a, 'g) planned_node dep_graph) \<Rightarrow>
   ('a, 'g) workflow_node list \<Rightarrow> ('a, 'g) planned_node dep_graph" where
  "raw_graph b nodes \<equiv> createDependencyGraph b wn_id wn_needs toPlannedNode nodes"

lemma createWorkflowGraph_fields [simp]:
  "dg_predecessors (createWorkflowGraph b nodes) = dg_predecessors (raw_graph b nodes)"
  "dg_successors (createWorkflowGraph b nodes) = dg_successors (raw_graph b nodes)"
  "dg_sinks (createWorkflowGraph b nodes) = dg_sinks (raw_graph b nodes)"
  "dependencyGraphNodeIds (createWorkflowGraph b nodes) = dependencyGraphNodeIds (raw_graph b nodes)"
  by (simp_all add: createWorkflowGraph_def Let_def dependencyGraphNodeIds_def comp_def
      case_prod_beta)

lemma createWorkflowGraph_predecessors [simp]:
  "dependencyPredecessorIds (createWorkflowGraph b nodes) = dependencyPredecessorIds (raw_graph b nodes)"
  by (simp add: dependencyPredecessorIds_def fun_eq_iff)

lemma createWorkflowGraph_views [simp]:
  "successorIds (createWorkflowGraph b nodes) = successorIds (raw_graph b nodes)"
  "graph_edges (createWorkflowGraph b nodes) = graph_edges (raw_graph b nodes)"
  "pred_set (createWorkflowGraph b nodes) = pred_set (raw_graph b nodes)"
  by (simp_all add: successorIds_def graph_edges_def pred_set_def fun_eq_iff)

lemma createWorkflowGraph_ok [simp]:
  "dep_graph_ok (createWorkflowGraph b nodes) = dep_graph_ok (raw_graph b nodes)"
  by (simp add: dep_graph_ok_def)

lemma map_of_map_snd:
  "map_of (map (\<lambda>(k, v). (k, f k v)) m) x = map_option (f x) (map_of m x)"
  by (induction m) auto

lemma createWorkflowGraph_value:
  "dependencyGraphValue (createWorkflowGraph b nodes) n =
     map_option (set_dependents (successorIds (createDependencyGraph b wn_id wn_needs toPlannedNode nodes) n))
       (dependencyGraphValue (createDependencyGraph b wn_id wn_needs toPlannedNode nodes) n)"
  by (simp add: dependencyGraphValue_def dependencyGraphHasNode_def)
     (simp add: createWorkflowGraph_def Let_def map_of_map_snd)


subsection \<open>Compilation\<close>

text \<open>The planned node the plan ends up with for the declaration at position \<open>i\<close>.\<close>

definition final_node ::
  "('a, 'g) planned_node dep_graph \<Rightarrow> ('a, 'g) workflow_node list \<Rightarrow> nat \<Rightarrow> ('a, 'g) planned_node" where
  "final_node graph nodes i =
     set_dependents (successorIds graph (wn_id (nodes ! i))) (toPlannedNode (nodes ! i) i)"

definition declared_nodes ::
  "('a, 'g) pipeline_config \<Rightarrow> string \<Rightarrow> ('a, 'g) workflow_node list" where
  "declared_nodes config workflowId = (case map_of (pc_workflows config) workflowId of
     None \<Rightarrow> [] | Some w \<Rightarrow> normalizeGroupDependencies (wf_nodes w))"

definition nonempty_ids :: "('a, 'g) pipeline_config \<Rightarrow> bool" where
  "nonempty_ids config \<longleftrightarrow> (\<forall>(workflowId, w) \<in> set (pc_workflows config). [] \<notin> wn_id ` set (wf_nodes w))"

lemma nonempty_declared_nodes:
  assumes "nonempty_ids config"
  shows "[] \<notin> wn_id ` set (declared_nodes config workflowId)"
proof (cases "map_of (pc_workflows config) workflowId")
  case (Some w)
  then have "[] \<notin> wn_id ` set (wf_nodes w)"
    using assms map_of_SomeD [OF Some] unfolding nonempty_ids_def by blast
  then show ?thesis using Some by (simp add: declared_nodes_def del: set_map image_iff)
qed (simp add: declared_nodes_def)

lemma createWorkflowGraph_node:
  assumes "graphlib_spec build" "distinct (map wn_id nodes)" "i < length nodes"
  shows "dependencyGraphValue (createWorkflowGraph build nodes) (wn_id (nodes ! i)) =
    Some (final_node (raw_graph build nodes) nodes i)"
  using createDependencyGraph_value [OF assms(1) refl assms(2,3)]
  by (simp add: createWorkflowGraph_value final_node_def)

lemma plannedNodesForIds_ids:
  assumes build: "graphlib_spec build" and dist: "distinct (map wn_id nodes)"
  shows "set order \<subseteq> wn_id ` set nodes \<Longrightarrow>
    map pn_id (plannedNodesForIds (createWorkflowGraph build nodes) order) = order"
proof (induction order)
  case (Cons x order)
  then obtain i where i: "i < length nodes" "wn_id (nodes ! i) = x"
    by (auto simp: in_set_conv_nth)
  note val = createWorkflowGraph_node [OF build dist i(1), unfolded i(2)]
  have id: "pn_id (final_node (raw_graph build nodes) nodes i) = x"
    using i(2) by (simp add: final_node_def)
  then show ?case using Cons val by (simp add: plannedNodesForIds_def map_filter_simps)
qed (simp add: plannedNodesForIds_def map_filter_simps)

lemma plannedNodesForIds_nodes:
  assumes build: "graphlib_spec build" and dist: "distinct (map wn_id nodes)"
    and ids: "set order \<subseteq> wn_id ` set nodes"
    and node: "node \<in> set (plannedNodesForIds (createWorkflowGraph build nodes) order)"
  shows "\<exists>i < length nodes. node = final_node (raw_graph build nodes) nodes i"
proof -
  obtain x where x: "x \<in> set order" "dependencyGraphValue (createWorkflowGraph build nodes) x = Some node"
    using node by (auto simp: plannedNodesForIds_def List.map_filter_def)
  then have "x \<in> wn_id ` set nodes" using ids by blast
  then obtain i where i: "i < length nodes" "wn_id (nodes ! i) = x"
    by (auto simp: in_set_conv_nth)
  then show ?thesis
    using createWorkflowGraph_node [OF build dist i(1)] x(2) by auto
qed

lemma raw_graph_pred_set:
  assumes "graphlib_spec build" "plannable nodes" "i < length nodes"
  shows "pred_set (raw_graph build nodes) (wn_id (nodes ! i)) = set (wn_needs_list (nodes ! i))"
proof -
  have "pred_set (raw_graph build nodes) (wn_id (nodes ! i)) =
      {d. (d, wn_id (nodes ! i)) \<in> list_edges wn_id wn_needs nodes}"
    using createDependencyGraph_edges [OF assms(1) refl, of wn_id wn_needs toPlannedNode nodes]
    by (auto simp: pred_set_def graph_edges_def)
  also have "\<dots> = set (wn_needs_list (nodes ! i))"
  proof -
    have "node = nodes ! i" if "node \<in> set nodes" "wn_id (nodes ! i) = wn_id node" for node
      using that assms(2,3) by (metis eq_key_imp_eq_value inj_on_def plannable_def distinct_map nth_mem)
    then show ?thesis
      using assms(2,3) unfolding plannable_def wn_needs_list_def list_edges_mem
      by (auto simp del: set_or_else_Nil)
  qed
  finally show ?thesis .
qed

lemma topological_order_of_plannable:
  assumes build: "graphlib_spec build" and ids: "[] \<notin> wn_id ` set nodes" and ok: "plannable nodes"
  obtains order where "topologicalDependencyOrder (createWorkflowGraph build nodes) = Inr order"
    "distinct order" "set order = wn_id ` set nodes" "deps_before (pred_set (raw_graph build nodes)) {} order"
proof -
  let ?g = "raw_graph build nodes"
  have "dep_graph_ok ?g" by (rule createDependencyGraph_ok [OF build refl ids])
  moreover have "acyclic (graph_edges ?g)"
    using ok createDependencyGraph_edges [OF build refl] unfolding plannable_def by metis
  ultimately show ?thesis
    using topologicalDependencyOrder_correct [of "createWorkflowGraph build nodes"]
      createDependencyGraph_ids [OF build refl, of wn_id wn_needs toPlannedNode nodes] that
    by (auto split: sum.splits)
qed


definition plan_of ::
  "(('a, 'g) planned_node graph_op list \<Rightarrow> ('a, 'g) planned_node dep_graph) \<Rightarrow>
   ('a, 'g) pipeline_config \<Rightarrow> ('a, 'g) workflow \<Rightarrow> string \<Rightarrow> string list \<Rightarrow> ('a, 'g) execution_plan" where
  "plan_of build config w workflowId order =
     (let graph = createWorkflowGraph build (declared_nodes config workflowId) in
      \<lparr>ep_execution = workflowExecution w, ep_graph = graph,
       ep_parallelBatches = buildParallelBatches graph (plannedNodesForIds graph order),
       ep_topologicalOrder = plannedNodesForIds graph order, ep_workflowId = workflowId\<rparr>)"

lemma compileWorkflowPlan_declared:
  fixes requested config
  defines "workflowId \<equiv> or_else requested (pc_default_workflow config)"
  defines "nodes \<equiv> declared_nodes config workflowId"
  assumes w: "map_of (pc_workflows config) workflowId = Some w"
  shows "compileWorkflowPlan build config requested =
    (if validateNodeGraph workflowId nodes \<noteq> []
     then Inl (issuesToError (validateNodeGraph workflowId nodes))
     else case topologicalDependencyOrder (createWorkflowGraph build nodes) of
            Inl e \<Rightarrow> Inl GraphCycleError
          | Inr order \<Rightarrow> Inr (plan_of build config w workflowId order))"
  using w unfolding compileWorkflowPlan_def Let_def declared_nodes_def plan_of_def
    workflowId_def nodes_def by (simp split: sum.split)

lemma compileWorkflowPlan_plannable:
  fixes requested config
  defines "workflowId \<equiv> or_else requested (pc_default_workflow config)"
  defines "nodes \<equiv> declared_nodes config workflowId"
  assumes build: "graphlib_spec build" and ids: "nonempty_ids config"
    and w: "map_of (pc_workflows config) workflowId = Some w" and ok: "plannable nodes"
  obtains order where
    "compileWorkflowPlan build config requested = Inr (plan_of build config w workflowId order)"
    "distinct order" "set order = wn_id ` set nodes" "deps_before (pred_set (raw_graph build nodes)) {} order"
proof -
  note nonempty = nonempty_declared_nodes [OF ids, of workflowId, folded nodes_def]
  obtain order where order: "topologicalDependencyOrder (createWorkflowGraph build nodes) = Inr order"
    "distinct order" "set order = wn_id ` set nodes" "deps_before (pred_set (raw_graph build nodes)) {} order"
    using topological_order_of_plannable [OF build nonempty ok] by blast
  have "validateNodeGraph workflowId nodes = []"
    using ok validateNodeGraph_Nil_iff [OF nonempty] by blast
  then have "compileWorkflowPlan build config requested = Inr (plan_of build config w workflowId order)"
    using compileWorkflowPlan_declared [OF w [unfolded workflowId_def], of build] order(1)
    by (simp add: workflowId_def nodes_def)
  then show ?thesis using order(2-4) by (rule that)
qed

text \<open>Everything a successful compilation tells about its plan, for the proofs below.\<close>

lemma compileWorkflowPlan_Inr:
  assumes build: "graphlib_spec build" and ids: "nonempty_ids config"
    and plan: "compileWorkflowPlan build config requested = Inr plan"
  obtains w order where
    "ep_workflowId plan = or_else requested (pc_default_workflow config)"
    "map_of (pc_workflows config) (ep_workflowId plan) = Some w"
    "plannable (declared_nodes config (ep_workflowId plan))"
    "plan = plan_of build config w (ep_workflowId plan) order"
    "distinct order" "set order = wn_id ` set (declared_nodes config (ep_workflowId plan))"
    "deps_before (pred_set (raw_graph build (declared_nodes config (ep_workflowId plan)))) {} order"
proof -
  let ?wid = "or_else requested (pc_default_workflow config)"
  obtain w where w: "map_of (pc_workflows config) ?wid = Some w"
    using plan by (auto simp: compileWorkflowPlan_def Let_def split: option.splits)
  have "validateNodeGraph ?wid (declared_nodes config ?wid) = []"
    using plan unfolding compileWorkflowPlan_declared [OF w] by (auto split: if_splits)
  then have ok: "plannable (declared_nodes config ?wid)"
    using validateNodeGraph_Nil_iff [OF nonempty_declared_nodes [OF ids]] by blast
  obtain order where order:
    "compileWorkflowPlan build config requested = Inr (plan_of build config w ?wid order)"
    "distinct order" "set order = wn_id ` set (declared_nodes config ?wid)"
    "deps_before (pred_set (raw_graph build (declared_nodes config ?wid))) {} order"
    using compileWorkflowPlan_plannable [OF build ids w ok] by blast
  then have eq: "plan = plan_of build config w ?wid order" using plan by simp
  then have "ep_workflowId plan = ?wid" by (simp add: plan_of_def Let_def)
  then show ?thesis using eq w ok order(2-4) by (intro that [of w order]) simp_all
qed


lemma final_node_simps [simp]:
  "pn_id (final_node graph nodes i) = wn_id (nodes ! i)"
  "pn_index (final_node graph nodes i) = i"
  "pn_needs (final_node graph nodes i) = wn_needs_list (nodes ! i)"
  "pn_dependents (final_node graph nodes i) = successorIds graph (wn_id (nodes ! i))"
  by (simp_all add: final_node_def)

text \<open>The facts about \<open>plan_of\<close> for a plannable node list, with its order.\<close>

lemma plan_of_fields [simp]:
  "ep_workflowId (plan_of build config w workflowId order) = workflowId"
  "ep_execution (plan_of build config w workflowId order) = workflowExecution w"
  "ep_graph (plan_of build config w workflowId order) =
     createWorkflowGraph build (declared_nodes config workflowId)"
  "ep_topologicalOrder (plan_of build config w workflowId order) =
     plannedNodesForIds (createWorkflowGraph build (declared_nodes config workflowId)) order"
  "ep_parallelBatches (plan_of build config w workflowId order) =
     buildParallelBatches (createWorkflowGraph build (declared_nodes config workflowId))
       (plannedNodesForIds (createWorkflowGraph build (declared_nodes config workflowId)) order)"
  by (simp_all add: plan_of_def Let_def)

lemma plannable_distinct: "plannable nodes \<Longrightarrow> distinct (map wn_id nodes)"
  by (simp add: plannable_def)

lemma planned_node_preds:
  assumes "graphlib_spec build" "plannable nodes" "set order \<subseteq> wn_id ` set nodes"
    and "node \<in> set (plannedNodesForIds (createWorkflowGraph build nodes) order)"
  shows "pred_set (raw_graph build nodes) (pn_id node) = set (pn_needs node)"
  using plannedNodesForIds_nodes [OF assms(1) plannable_distinct [OF assms(2)] assms(3,4)]
    raw_graph_pred_set [OF assms(1,2)] by auto

lemma planned_node_needs_declared:
  assumes "graphlib_spec build" "plannable nodes" "set order \<subseteq> wn_id ` set nodes"
    and "node \<in> set (plannedNodesForIds (createWorkflowGraph build nodes) order)"
  shows "set (pn_needs node) \<subseteq> wn_id ` set nodes"
proof -
  obtain i where "i < length nodes" "node = final_node (raw_graph build nodes) nodes i"
    using plannedNodesForIds_nodes [OF assms(1) plannable_distinct [OF assms(2)] assms(3,4)] by blast
  moreover have "\<forall>node \<in> set nodes. set (wn_needs_list node) \<subseteq> wn_id ` set nodes"
    using assms(2) unfolding plannable_def by blast
  ultimately show ?thesis by (metis final_node_simps(3) nth_mem)
qed

lemma plannedNodeIndex_planned:
  assumes "distinct (map pn_id planned)" "node \<in> set planned"
  shows "plannedNodeIndex (map (\<lambda>node. (pn_id node, node)) planned) (pn_id node) = pn_index node"
proof -
  have "map_of (map (\<lambda>node. (pn_id node, node)) planned) (pn_id node) = Some node"
    using assms by (intro map_of_is_SomeI) (auto simp: comp_def)
  then show ?thesis by (simp add: plannedNodeIndex_def)
qed

lemma parallelBatches_layers:
  assumes build: "graphlib_spec build" and ok: "plannable nodes"
    and order: "distinct order" "set order = wn_id ` set nodes"
  defines "graph \<equiv> createWorkflowGraph build nodes"
  defines "topo \<equiv> plannedNodesForIds graph order"
  defines "batches \<equiv> buildParallelBatches graph topo"
  shows "layers (pred_set (raw_graph build nodes)) (wn_id ` set nodes) (map (map pn_id) batches)"
    and "\<forall>b \<in> set batches. sorted (map pn_index b)"
    and "\<forall>b \<in> set batches. set b \<subseteq> set topo"
proof -
  note dist = plannable_distinct [OF ok]
  let ?key = "plannedNodeIndex (map (\<lambda>node. (pn_id node, node)) topo)"
  let ?ids = "dependencyBatches graph order ?key"
  have topo_ids: "map pn_id topo = order"
    unfolding topo_def graph_def using order by (intro plannedNodesForIds_ids build dist) simp
  have batches: "batches = map (plannedNodesForIds graph) ?ids"
    by (simp add: batches_def buildParallelBatches_def Let_def topo_ids)
  have "graph_edges graph = list_edges wn_id wn_needs nodes"
    unfolding graph_def using createDependencyGraph_edges [OF build refl] by simp
  then have "acyclic (graph_edges graph)" using ok by (simp add: plannable_def)
  then have ac: "acyclic {(d, x). x \<in> set order \<and> d \<in> pred_set graph x \<and> d \<in> set order}"
    by (rule acyclic_subset) (auto simp: graph_edges_def pred_set_def)
  have layers: "layers (pred_set graph) (set order) ?ids"
    and sorted: "\<forall>b \<in> set ?ids. sorted (map ?key b)"
    using dependencyBatches_layers [OF ac] by auto
  have sub: "set b \<subseteq> wn_id ` set nodes" if "b \<in> set ?ids" for b
    using layers_set [OF layers] that order(2) by auto
  have back_ids: "map pn_id (plannedNodesForIds graph b) = b" if "b \<in> set ?ids" for b
    unfolding graph_def using sub [OF that] by (intro plannedNodesForIds_ids build dist)
  have "map (map pn_id) batches = ?ids"
    unfolding batches map_map by (rule map_idI) (simp add: back_ids)
  then show "layers (pred_set (raw_graph build nodes)) (wn_id ` set nodes) (map (map pn_id) batches)"
    using layers order(2) by (simp add: graph_def)
  have member: "node \<in> set topo" if "b \<in> set ?ids" "node \<in> set (plannedNodesForIds graph b)" for b node
    using that sub [OF that(1)] order(2) unfolding topo_def plannedNodesForIds_def
    by (auto simp: List.map_filter_def)
  have "map pn_index (plannedNodesForIds graph b) = map ?key b" if b: "b \<in> set ?ids" for b
  proof -
    have "map ?key b = map ?key (map pn_id (plannedNodesForIds graph b))"
      by (simp add: back_ids [OF b])
    also have "\<dots> = map pn_index (plannedNodesForIds graph b)"
      using plannedNodeIndex_planned [of topo] member [OF b] topo_ids order(1) by simp
    finally show ?thesis by simp
  qed
  then show "\<forall>b \<in> set batches. sorted (map pn_index b)" using sorted by (simp add: batches)
  show "\<forall>b \<in> set batches. set b \<subseteq> set topo" using member by (auto simp: batches)
qed


subsection \<open>Properties of the planner\<close>

text \<open>
  A workflow to apply the properties to: \<open>build\<close>, then \<open>test\<close> and \<open>lint\<close> that need it, and a
  group over the two.
\<close>

definition command_node :: "string \<Rightarrow> string list \<Rightarrow> (unit, unit) workflow_node" where
  "command_node i ns = WorkflowNode i (CommandBody [i]) (Some ns) None None None None None None None"

definition group_node :: "string \<Rightarrow> string list \<Rightarrow> (unit, unit) workflow_node" where
  "group_node i members = WorkflowNode i (GroupBody members) None None None None None None None None"

definition config_of :: "(unit, unit) workflow_node list \<Rightarrow> (unit, unit) pipeline_config" where
  "config_of nodes = \<lparr>pc_default_workflow = ''ci'',
     pc_workflows = [(''ci'', \<lparr>wf_nodes = nodes, wf_execution = None\<rparr>)]\<rparr>"

definition sample_config :: "(unit, unit) pipeline_config" where
  "sample_config = config_of [group_node ''all'' [''test'', ''lint''], command_node ''test'' [''build''],
     command_node ''build'' [], command_node ''lint'' [''build'']]"

definition sample_build :: "(unit, unit) planned_node graph_op list \<Rightarrow> (unit, unit) planned_node dep_graph" where
  "sample_build = reference_graph (toPlannedNode (command_node [] []) 0)"

lemma sample_facts:
  "graphlib_spec sample_build" "nonempty_ids sample_config"
  by (simp_all add: sample_build_def reference_graph_spec nonempty_ids_def sample_config_def
      config_of_def command_node_def group_node_def)

lemma sample_plan: "\<exists>plan. compileWorkflowPlan sample_build sample_config None = Inr plan"
proof -
  have "case compileWorkflowPlan sample_build sample_config None of Inl e \<Rightarrow> False | Inr plan \<Rightarrow> True"
    by code_simp
  then show ?thesis by (auto split: sum.splits)
qed

text \<open>
  C1: Compiling a declared workflow yields a plan exactly when the declared nodes, after group
  members are added to a group's needs, have distinct ids, need only declared nodes, form an
  acyclic dependency relation, and every group is nonempty and references other declared nodes.
  In particular the topological sort never throws after validation.
\<close>

theorem compile_succeeds_iff_plannable:
  assumes "graphlib_spec build" "nonempty_ids config"
    and "or_else requested (pc_default_workflow config) = workflowId"
  shows "(\<exists>plan. compileWorkflowPlan build config requested = Inr plan) \<longleftrightarrow>
    workflowId \<in> dom (map_of (pc_workflows config)) \<and> plannable (declared_nodes config workflowId)"
proof
  assume "\<exists>plan. compileWorkflowPlan build config requested = Inr plan"
  then obtain plan where "compileWorkflowPlan build config requested = Inr plan" by blast
  with assms(1,2) show "workflowId \<in> dom (map_of (pc_workflows config)) \<and>
      plannable (declared_nodes config workflowId)"
    by (rule compileWorkflowPlan_Inr) (use assms(3) in auto)
next
  assume "workflowId \<in> dom (map_of (pc_workflows config)) \<and> plannable (declared_nodes config workflowId)"
  then obtain w where w: "map_of (pc_workflows config) workflowId = Some w"
    and ok: "plannable (declared_nodes config workflowId)" by blast
  from assms(1,2) w [folded assms(3)] ok [folded assms(3)]
  show "\<exists>plan. compileWorkflowPlan build config requested = Inr plan"
    by (rule compileWorkflowPlan_plannable) blast
qed

lemma compile_succeeds_iff_plannable_witness:
  "plannable (declared_nodes sample_config ''ci'')"
  using compile_succeeds_iff_plannable [OF sample_facts, of None "''ci''"] sample_plan
  by (simp add: sample_config_def config_of_def)

lemma plan_order_facts:
  assumes "graphlib_spec build" "nonempty_ids config"
    and "compileWorkflowPlan build config requested = Inr plan"
  shows "distinct (map pn_id (ep_topologicalOrder plan))
    \<and> pn_id ` set (ep_topologicalOrder plan) = wn_id ` set (declared_nodes config (ep_workflowId plan))
    \<and> (\<forall>i < length (ep_topologicalOrder plan). \<forall>need \<in> set (pn_needs (ep_topologicalOrder plan ! i)).
         \<exists>j < i. pn_id (ep_topologicalOrder plan ! j) = need)"
  using assms
proof (rule compileWorkflowPlan_Inr)
  fix w order
  let ?nodes = "declared_nodes config (ep_workflowId plan)" and ?topo = "ep_topologicalOrder plan"
  assume ok: "plannable ?nodes" and plan: "plan = plan_of build config w (ep_workflowId plan) order"
    and order: "distinct order" "set order = wn_id ` set ?nodes"
    "deps_before (pred_set (raw_graph build ?nodes)) {} order"
  have topo: "?topo = plannedNodesForIds (createWorkflowGraph build ?nodes) order"
    by (subst plan) simp
  have ids: "map pn_id ?topo = order"
    unfolding topo using order(2) by (intro plannedNodesForIds_ids assms plannable_distinct ok) simp
  have len: "length ?topo = length order" using ids by (metis length_map)
  have "\<exists>j < i. pn_id (?topo ! j) = need"
    if i: "i < length ?topo" and need: "need \<in> set (pn_needs (?topo ! i))" for i need
  proof -
    have "need \<in> pred_set (raw_graph build ?nodes) (pn_id (?topo ! i))"
      using planned_node_preds [OF assms(1) ok, of order "?topo ! i"] i need order(2)
      by (simp flip: topo)
    also have "pn_id (?topo ! i) = order ! i" using ids i by (metis nth_map)
    finally have "need \<in> set (take i order)"
      using deps_before_nth [OF order(3), of i] i len by auto
    then obtain j where j: "j < i" "order ! j = need" using i len by (auto simp: in_set_conv_nth)
    moreover have "pn_id (?topo ! j) = order ! j" using ids j(1) i by (metis less_trans nth_map)
    ultimately show ?thesis by auto
  qed
  moreover have "pn_id ` set ?topo = wn_id ` set ?nodes" using ids order(2) by (metis set_map)
  ultimately show ?thesis using ids order(1) by simp
qed

text \<open>
  C2: The topological order of a plan contains every declared node exactly once, and every node
  comes after all nodes it needs.
\<close>

theorem plan_order_respects_needs:
  assumes "graphlib_spec build" "nonempty_ids config"
    and "compileWorkflowPlan build config requested = Inr plan"
  shows "distinct (map pn_id (ep_topologicalOrder plan))
    \<and> pn_id ` set (ep_topologicalOrder plan) = wn_id ` set (declared_nodes config (ep_workflowId plan))
    \<and> (\<forall>i < length (ep_topologicalOrder plan). \<forall>need \<in> set (pn_needs (ep_topologicalOrder plan ! i)).
         \<exists>j < i. pn_id (ep_topologicalOrder plan ! j) = need)"
  by (rule plan_order_facts [OF assms])

lemma plan_order_respects_needs_witness:
  "\<exists>plan. compileWorkflowPlan sample_build sample_config None = Inr plan
    \<and> distinct (map pn_id (ep_topologicalOrder plan))"
proof -
  obtain plan where plan: "compileWorkflowPlan sample_build sample_config None = Inr plan"
    using sample_plan by blast
  show ?thesis using plan plan_order_respects_needs [OF sample_facts plan] by blast
qed


text \<open>
  Every node of the plan is the translation of one declaration, at the index of that
  declaration, and its dependents are exactly the declared nodes that need it, each once.
\<close>

theorem plan_nodes_translate_declarations:
  assumes "graphlib_spec build" "nonempty_ids config"
    and "compileWorkflowPlan build config requested = Inr plan"
    and "nodes = declared_nodes config (ep_workflowId plan)"
    and "node \<in> set (ep_topologicalOrder plan)"
  shows "pn_index node < length nodes
    \<and> node = set_dependents (pn_dependents node) (toPlannedNode (nodes ! pn_index node) (pn_index node))
    \<and> distinct (pn_dependents node)
    \<and> set (pn_dependents node) = wn_id ` {m \<in> set nodes. pn_id node \<in> set (wn_needs_list m)}"
  using assms(1-3)
proof (rule compileWorkflowPlan_Inr)
  fix w order
  assume ok': "plannable (declared_nodes config (ep_workflowId plan))"
    and plan: "plan = plan_of build config w (ep_workflowId plan) order"
    and order': "set order = wn_id ` set (declared_nodes config (ep_workflowId plan))"
  note ok = ok' [folded assms(4)] and order = order' [folded assms(4)]
  have "node \<in> set (plannedNodesForIds (createWorkflowGraph build nodes) order)"
    using assms(5) by (subst (asm) plan) (simp flip: assms(4))
  then obtain i where i: "i < length nodes" "node = final_node (raw_graph build nodes) nodes i"
    using plannedNodesForIds_nodes [OF assms(1) plannable_distinct [OF ok]] order by blast
  have "set (successorIds (raw_graph build nodes) (wn_id (nodes ! i))) =
      wn_id ` {m \<in> set nodes. wn_id (nodes ! i) \<in> set (wn_needs_list m)}"
    using createDependencyGraph_succ(1) [OF assms(1) refl, of wn_id wn_needs toPlannedNode nodes] i(1)
    by (auto simp: list_edges_mem wn_needs_list_def simp del: set_or_else_Nil)
  moreover have "distinct (successorIds (raw_graph build nodes) (wn_id (nodes ! i)))"
    by (rule createDependencyGraph_succ(2) [OF assms(1) refl])
  ultimately show ?thesis using i by (simp add: final_node_def)
qed

lemma plan_nodes_translate_declarations_witness:
  "\<exists>plan. compileWorkflowPlan sample_build sample_config None = Inr plan \<and>
     (\<forall>node \<in> set (ep_topologicalOrder plan). pn_index node < 4)"
proof -
  obtain plan where plan: "compileWorkflowPlan sample_build sample_config None = Inr plan"
    using sample_plan by blast
  have wid: "ep_workflowId plan = ''ci''"
    using compileWorkflowPlan_Inr [OF sample_facts plan]
    by (metis or_else_simps(1) sample_config_def config_of_def pipeline_config.select_convs(1))
  have "length (declared_nodes sample_config ''ci'') = 4" by code_simp
  then show ?thesis
    using plan plan_nodes_translate_declarations [OF sample_facts plan refl] wid by auto
qed

lemma same_nodes:
  assumes "map pn_id nodes = order" "distinct order" "pn_id ` B = set order" "B \<subseteq> set nodes"
  shows "B = set nodes"
proof -
  have "inj_on pn_id (set nodes)" using assms(1,2) by (metis distinct_map)
  then show ?thesis using assms(1,3,4) by (metis inj_on_image_eq_iff order_refl set_map)
qed

text \<open>
  The parallel batches partition the nodes of the plan. Whatever a node needs is in an
  earlier batch, every node of a later batch needs a node of the batch just before (so each runs
  as early as its needs allow), no batch is empty, and a batch lists its nodes in declaration order.
\<close>

theorem plan_batches_are_layers:
  assumes "graphlib_spec build" "nonempty_ids config"
    and "compileWorkflowPlan build config requested = Inr plan"
  defines "batches \<equiv> ep_parallelBatches plan"
  shows "distinct (map pn_id (concat batches))
    \<and> set (concat batches) = set (ep_topologicalOrder plan)
    \<and> [] \<notin> set batches
    \<and> (\<forall>i < length batches. \<forall>node \<in> set (batches ! i). \<forall>need \<in> set (pn_needs node).
         \<exists>j < i. need \<in> pn_id ` set (batches ! j))
    \<and> (\<forall>i. Suc i < length batches \<longrightarrow> (\<forall>node \<in> set (batches ! Suc i).
         set (pn_needs node) \<inter> pn_id ` set (batches ! i) \<noteq> {}))
    \<and> (\<forall>b \<in> set batches. sorted (map pn_index b))"
  using assms(1-3)
proof (rule compileWorkflowPlan_Inr)
  fix w order
  let ?nodes = "declared_nodes config (ep_workflowId plan)"
  let ?D = "pred_set (raw_graph build ?nodes)" and ?U = "wn_id ` set ?nodes"
  let ?g = "createWorkflowGraph build ?nodes"
  assume ok: "plannable ?nodes" and plan: "plan = plan_of build config w (ep_workflowId plan) order"
    and order: "distinct order" "set order = ?U"
  have topo: "ep_topologicalOrder plan = plannedNodesForIds ?g order" by (subst plan) simp
  have b: "batches = buildParallelBatches ?g (plannedNodesForIds ?g order)"
    unfolding batches_def by (subst plan) simp
  note facts = parallelBatches_layers [OF assms(1) ok order, folded b topo]
  note layers = facts(1)
  have len: "length (map (map pn_id) batches) = length batches" by simp
  have concat_ids: "map pn_id (concat batches) = concat (map (map pn_id) batches)"
    by (simp add: map_concat)
  have dist: "distinct (map pn_id (concat batches))"
    unfolding concat_ids by (rule layers_distinct [OF layers])
  have ids: "pn_id ` set (concat batches) = ?U"
    using layers_set [OF layers] unfolding concat_ids [symmetric] set_map .
  have topo_ids: "map pn_id (ep_topologicalOrder plan) = order"
    unfolding topo using order(2) by (intro plannedNodesForIds_ids assms plannable_distinct ok) simp
  have nodes: "set (concat batches) = set (ep_topologicalOrder plan)"
    by (rule same_nodes [OF topo_ids order(1)]) (use ids order(2) facts(3) in auto)
  have sub_order: "set order \<subseteq> ?U" using order(2) by simp
  have member: "node \<in> set (plannedNodesForIds ?g order)"
    if "node \<in> set (batches ! i)" "i < length batches" for node i
    using subsetD [OF facts(3) [rule_format, OF nth_mem [OF that(2)]] that(1)] unfolding topo .
  note D = planned_node_preds [OF assms(1) ok sub_order member]
  note need_declared = subsetD [OF planned_node_needs_declared [OF assms(1) ok sub_order member]]
  have needs_before: "\<forall>i < length batches. \<forall>node \<in> set (batches ! i). \<forall>need \<in> set (pn_needs node).
      \<exists>j < i. need \<in> pn_id ` set (batches ! j)"
  proof (intro allI ballI impI)
    fix i node need assume at_i: "i < length batches" "node \<in> set (batches ! i)" "need \<in> set (pn_needs node)"
    then show "\<exists>j < i. need \<in> pn_id ` set (batches ! j)"
      using layers_before [OF layers, of i "pn_id node" need] D [OF at_i(2,1)] need_declared [OF at_i(2,1,3)] by auto
  qed
  have needs_previous: "\<forall>i. Suc i < length batches \<longrightarrow> (\<forall>node \<in> set (batches ! Suc i).
      set (pn_needs node) \<inter> pn_id ` set (batches ! i) \<noteq> {})"
  proof (intro allI ballI impI)
    fix i node assume at_i: "Suc i < length batches" "node \<in> set (batches ! Suc i)"
    then show "set (pn_needs node) \<inter> pn_id ` set (batches ! i) \<noteq> {}"
      using layers_needs_previous [OF layers, of i "pn_id node"] D [OF at_i(2,1)] by auto
  qed
  have nonempty: "[] \<notin> set batches" using layers_nonempty [OF layers] by (auto simp: image_iff)
  show ?thesis by (intro conjI dist nodes nonempty needs_before needs_previous facts(2))
qed

lemma plan_batches_are_layers_witness:
  "\<exists>plan. compileWorkflowPlan sample_build sample_config None = Inr plan
    \<and> map (map pn_id) (ep_parallelBatches plan) = [[''build''], [''test'', ''lint''], [''all'']]
    \<and> [] \<notin> set (ep_parallelBatches plan)"
proof -
  obtain plan where plan: "compileWorkflowPlan sample_build sample_config None = Inr plan"
    using sample_plan by blast
  have "case compileWorkflowPlan sample_build sample_config None of Inl e \<Rightarrow> False
    | Inr plan \<Rightarrow> map (map pn_id) (ep_parallelBatches plan) = [[''build''], [''test'', ''lint''], [''all'']]"
    by code_simp
  then show ?thesis using plan plan_batches_are_layers [OF sample_facts plan] by auto
qed


text \<open>The message test of \<open>codeForIssue\<close>.\<close>

lemma duplicates_from_message:
  "i \<in> set (duplicates_from workflowId seen nodes) \<Longrightarrow> codeForIssue (pi_message i) = WORKFLOW_DUPLICATE_NODE"
proof (induction workflowId seen nodes rule: duplicates_from.induct)
  case (2 workflowId seen node nodes)
  have "''workflow '' @ quoted workflowId @ '' declares duplicate node id '' @ quoted n =
      (''workflow '' @ quoted workflowId @ '' declares '') @ ''duplicate node id'' @ ('' '' @ quoted n)" for n
    by simp
  then have "str_includes (''workflow '' @ quoted workflowId @ '' declares duplicate node id '' @ quoted n)
      ''duplicate node id''" for n
    unfolding str_includes_iff by blast
  then show ?case using 2 by (auto simp: codeForIssue_def issue_def split: if_splits)
qed simp

lemma codeForIssue_not_missing_workflow: "codeForIssue message \<noteq> WORKFLOW_MISSING_WORKFLOW"
  by (simp add: codeForIssue_def)

text \<open>
  A compilation fails only with a planner error that carries at least one issue: an
  undeclared workflow with \<open>WORKFLOW_MISSING_WORKFLOW\<close>, any other with exactly the validation
  issues of the workflow, and a workflow with a duplicate id with \<open>WORKFLOW_DUPLICATE_NODE\<close>.
\<close>

theorem compile_error_classified:
  assumes "graphlib_spec build" "nonempty_ids config"
    and "compileWorkflowPlan build config requested = Inl e"
    and "workflowId = or_else requested (pc_default_workflow config)"
  shows "\<exists>code message issues. e = WorkflowPlannerError code message issues \<and> issues \<noteq> []
    \<and> (code = WORKFLOW_MISSING_WORKFLOW \<longleftrightarrow> workflowId \<notin> dom (map_of (pc_workflows config)))
    \<and> (workflowId \<in> dom (map_of (pc_workflows config)) \<longrightarrow>
        issues = validateNodeGraph workflowId (declared_nodes config workflowId)
        \<and> (\<not> distinct (map wn_id (declared_nodes config workflowId)) \<longrightarrow> code = WORKFLOW_DUPLICATE_NODE))"
proof (cases "map_of (pc_workflows config) workflowId")
  case None
  then show ?thesis
    using assms(3) unfolding compileWorkflowPlan_def Let_def assms(4) [symmetric] by auto
next
  case (Some w)
  let ?nodes = "declared_nodes config workflowId"
  let ?issues = "validateNodeGraph workflowId ?nodes"
  have nonempty: "?issues \<noteq> []"
  proof
    assume "?issues = []"
    then have "plannable ?nodes"
      using validateNodeGraph_Nil_iff [OF nonempty_declared_nodes [OF assms(2)]] by blast
    from compileWorkflowPlan_plannable [OF assms(1,2) Some [unfolded assms(4)] this [unfolded assms(4)]]
    show False using assms(3) by simp
  qed
  then have e: "e = issuesToError ?issues"
    using compileWorkflowPlan_declared [OF Some [unfolded assms(4)], of build] assms(3)
    by (simp add: assms(4))
  have "codeForIssue (pi_message (hd ?issues)) = WORKFLOW_DUPLICATE_NODE"
    if "\<not> distinct (map wn_id ?nodes)"
  proof -
    have dup: "duplicateNodeIssues workflowId ?nodes \<noteq> []"
      using that by (simp add: duplicateNodeIssues_Nil_iff)
    then have "hd ?issues = hd (duplicateNodeIssues workflowId ?nodes)"
      by (simp add: validateNodeGraph_def Let_def hd_append)
    then show ?thesis
      using dup duplicates_from_message [of _ workflowId "[]" ?nodes]
      by (metis duplicateNodeIssues_def hd_in_set)
  qed
  then show ?thesis
    using e nonempty Some by (auto simp: issuesToError_def codeForIssue_not_missing_workflow)
qed

lemma compile_error_classified_witness:
  "\<exists>message issues. compileWorkflowPlan sample_build
      (config_of [command_node ''a'' [], command_node ''a'' []]) None
    = Inl (WorkflowPlannerError WORKFLOW_DUPLICATE_NODE message issues)"
proof -
  let ?config = "config_of [command_node ''a'' [], command_node ''a'' []]"
  have ids: "nonempty_ids ?config" by (simp add: nonempty_ids_def config_of_def command_node_def)
  have "case compileWorkflowPlan sample_build ?config None of Inl e \<Rightarrow> True | Inr plan \<Rightarrow> False"
    by code_simp
  then obtain e where e: "compileWorkflowPlan sample_build ?config None = Inl e"
    by (auto split: sum.splits)
  have dup: "\<not> distinct (map wn_id (declared_nodes ?config ''ci''))" by code_simp
  have dom: "''ci'' \<in> dom (map_of (pc_workflows ?config))"
    and wid: "''ci'' = or_else None (pc_default_workflow ?config)" by (simp_all add: config_of_def)
  obtain code message issues where "e = WorkflowPlannerError code message issues"
    "code = WORKFLOW_DUPLICATE_NODE"
    using compile_error_classified [OF sample_facts(1) ids e wid] dup dom by auto
  then show ?thesis using e by simp
qed

text \<open>Cyclic workflows under a given id, and the code a compilation fails with.\<close>

definition cyclic_config :: "string \<Rightarrow> (unit, unit) pipeline_config" where
  "cyclic_config workflowId = \<lparr>pc_default_workflow = workflowId,
     pc_workflows = [(workflowId, \<lparr>wf_nodes = [command_node ''a'' [''b''], command_node ''b'' [''a'']],
                                   wf_execution = None\<rparr>)]\<rparr>"

fun error_code :: "planner_error + ('a, 'g) execution_plan \<Rightarrow> planner_code option" where
  "error_code (Inl (WorkflowPlannerError code message issues)) = Some code"
| "error_code _ = None"

text \<open>
  The code of an error is read off its message, which quotes the workflow id: a cyclic
  workflow whose id contains \<open>group node\<close> is reported as a bad group reference.
\<close>

theorem cycle_code_depends_on_workflow_id:
  "error_code (compileWorkflowPlan sample_build (cyclic_config ''ci'') None) = Some WORKFLOW_CYCLE
    \<and> error_code (compileWorkflowPlan sample_build (cyclic_config ''group node demo'') None)
        = Some WORKFLOW_GROUP_REFERENCE"
  by code_simp

text \<open>
  A node whose id is the empty string is skipped by the traversals, which test ids for truthiness:
  an acyclic workflow with such a node passes validation and is then rejected as cyclic.
\<close>

theorem empty_node_id_rejected_as_cycle:
  "plannable (declared_nodes (config_of [command_node [] [], command_node ''b'' [[]]]) ''ci'')
    \<and> compileWorkflowPlan sample_build (config_of [command_node [] [], command_node ''b'' [[]]]) None
        = Inl GraphCycleError"
proof
  let ?nodes = "declared_nodes (config_of [command_node [] [], command_node ''b'' [[]]]) ''ci''"
  have nodes: "?nodes = [command_node [] [], command_node ''b'' [[]]]"
    by (simp add: declared_nodes_def config_of_def normalizeGroupDependencies_def command_node_def)
  have "list_edges wn_id wn_needs ?nodes \<subseteq> {([], ''b'')}"
    unfolding nodes by (auto simp: list_edges_def command_node_def)
  then have "acyclic (list_edges wn_id wn_needs ?nodes)"
    by (rule acyclic_subset [rotated]) (auto simp: acyclic_def dest: tranclD tranclD2)
  then show "plannable ?nodes"
    by (simp add: plannable_def nodes) (simp add: command_node_def wn_needs_list_def group_ok_def)
next
  have "case compileWorkflowPlan sample_build (config_of [command_node [] [], command_node ''b'' [[]]]) None
    of Inl e \<Rightarrow> (case e of GraphCycleError \<Rightarrow> True | _ \<Rightarrow> False) | Inr plan \<Rightarrow> False"
    by code_simp
  then show "compileWorkflowPlan sample_build (config_of [command_node [] [], command_node ''b'' [[]]]) None
      = Inl GraphCycleError"
    by (auto split: sum.splits planner_error.splits)
qed

end
