(* ===== verification/DurableStore.thy ===== *)
theory DurableStore
  imports Contracts
begin

text \<open>
  The durability seam: \<^verbatim>\<open>src/runtime/durable-store/durable-store.ts\<close> (the in-memory store),
  \<^verbatim>\<open>src/runtime/run-journal.ts\<close> (the journal built over a store, and the append-only journal)
  and the single write path \<open>recordNodeResult\<close> of \<^verbatim>\<open>src/runtime/step/step-node.ts\<close>.

  Two interfaces: \<open>durable_store\<close>, what the stepping core relies on, and \<open>run_journal\<close>, what
  the scheduler relies on. Every durable store gives a journal (\<open>buildRunJournal\<close>).
\<close>

subsection \<open>The in-memory store\<close>

record 'i durable_record =
  dr_criteria :: "(string \<times> string) list"
  dr_inputs :: "'i option"
  dr_recordedAt :: string
  dr_result :: node_result

type_synonym 'i run_bucket = "(string \<times> 'i durable_record) list"
type_synonym 'i memory_store = "(string \<times> 'i run_bucket) list"

definition makeBucket :: "'i memory_store \<Rightarrow> string \<Rightarrow> 'i memory_store \<times> 'i run_bucket" where
  "makeBucket store runId =
     (case map_of store runId of
        Some bucket \<Rightarrow> (store, bucket)
      | None \<Rightarrow> (AList.update runId [] store, []))"

definition memory_get :: "'i memory_store \<Rightarrow> string \<Rightarrow> string \<Rightarrow> 'i durable_record option" where
  "memory_get store runId nodeId = Option.bind (map_of store runId) (\<lambda>bucket. map_of bucket nodeId)"

text \<open>The entry of \<open>record\<close> is a record without its time stamp, which \<open>now\<close> supplies.\<close>

definition memory_record ::
  "string \<Rightarrow> string \<Rightarrow> string \<Rightarrow> (string \<times> string) list \<Rightarrow> 'i option \<Rightarrow> node_result \<Rightarrow>
   'i memory_store \<Rightarrow> 'i memory_store" where
  "memory_record now runId nodeId criteria inputs result store =
     (case makeBucket store runId of
        (store', bucket) \<Rightarrow>
          AList.update runId
            (AList.update nodeId
              \<lparr>dr_criteria = criteria, dr_inputs = inputs, dr_recordedAt = now, dr_result = result\<rparr> bucket)
            store')"

definition passedResultsForRun :: "'i memory_store \<Rightarrow> string \<Rightarrow> node_result list" where
  "passedResultsForRun store runId =
     (case map_of store runId of
        None \<Rightarrow> []
      | Some bucket \<Rightarrow> map dr_result (filter (\<lambda>r. nr_status (dr_result r) = ResultPassed) (map snd bucket)))"

definition memory_resumeCompleted :: "string \<Rightarrow> 'i memory_store \<Rightarrow> node_result list" where
  "memory_resumeCompleted runId store = passedResultsForRun store runId"

text \<open>The one write path of a node's terminal result, over any store's \<open>record\<close>.\<close>

definition recordNodeResult ::
  "(string \<Rightarrow> string \<Rightarrow> (string \<times> string) list \<Rightarrow> 'i option \<Rightarrow> node_result \<Rightarrow> 's \<Rightarrow> 's) \<Rightarrow>
   string \<Rightarrow> node_result \<Rightarrow> 's \<Rightarrow> 's" where
  "recordNodeResult record runId result store = record runId (nr_nodeId result) [] None result store"

record 'j journal =
  rj_record :: "node_result \<Rightarrow> 'j \<Rightarrow> 'j"
  rj_resumeCompleted :: "'j \<Rightarrow> node_result list"

definition buildRunJournal ::
  "(string \<Rightarrow> string \<Rightarrow> (string \<times> string) list \<Rightarrow> 'i option \<Rightarrow> node_result \<Rightarrow> 's \<Rightarrow> 's) \<Rightarrow>
   (string \<Rightarrow> 's \<Rightarrow> node_result list) \<Rightarrow> string \<Rightarrow> 's journal" where
  "buildRunJournal record resumeCompleted runId =
     \<lparr>rj_record = recordNodeResult record runId, rj_resumeCompleted = resumeCompleted runId\<rparr>"

text \<open>The append-only journal: its state is the list of recorded lines, already parsed.\<close>

definition passedOnly :: "node_result list \<Rightarrow> node_result list" where
  "passedOnly results = filter (\<lambda>result. nr_status result = ResultPassed) results"

definition fileRunJournal :: "node_result list journal" where
  "fileRunJournal = \<lparr>rj_record = (\<lambda>result log. log @ [result]), rj_resumeCompleted = passedOnly\<rparr>"

subsection \<open>The store interface\<close>

locale durable_store =
  fixes get :: "'s \<Rightarrow> string \<Rightarrow> string \<Rightarrow> 'i durable_record option"
    and put :: "string \<Rightarrow> string \<Rightarrow> (string \<times> string) list \<Rightarrow> 'i option \<Rightarrow> node_result \<Rightarrow> 's \<Rightarrow> 's"
    and resumeCompleted :: "string \<Rightarrow> 's \<Rightarrow> node_result list"
    and store_ok :: "'s \<Rightarrow> bool"
  assumes record_ok: "store_ok s \<Longrightarrow> store_ok (put runId nodeId cs inp result s)"
    and get_record: "store_ok s \<Longrightarrow>
      map_option dr_result (get (put runId nodeId cs inp result s) runId' nodeId') =
        (if runId' = runId \<and> nodeId' = nodeId then Some result
         else map_option dr_result (get s runId' nodeId'))"
    and resume_get: "store_ok s \<Longrightarrow> set (resumeCompleted runId s) =
      {result. nr_status result = ResultPassed \<and>
        (\<exists>nodeId. map_option dr_result (get s runId nodeId) = Some result)}"
begin

definition stored :: "'s \<Rightarrow> string \<Rightarrow> string \<Rightarrow> node_result option" where
  "stored s runId nodeId = map_option dr_result (get s runId nodeId)"

text \<open>Results recorded through the one write path are keyed by their own node id.\<close>

definition well_keyed :: "'s \<Rightarrow> string \<Rightarrow> bool" where
  "well_keyed s runId \<longleftrightarrow> (\<forall>nodeId result. stored s runId nodeId = Some result \<longrightarrow> nr_nodeId result = nodeId)"

lemma stored_recordNodeResult:
  "store_ok s \<Longrightarrow> stored (recordNodeResult put runId result s) runId' nodeId =
    (if runId' = runId \<and> nodeId = nr_nodeId result then Some result else stored s runId' nodeId)"
  by (simp add: stored_def recordNodeResult_def get_record)

lemma recordNodeResult_ok: "store_ok s \<Longrightarrow> store_ok (recordNodeResult put runId result s)"
  by (simp add: recordNodeResult_def record_ok)

lemma well_keyed_record:
  "store_ok s \<Longrightarrow> well_keyed s runId \<Longrightarrow> well_keyed (recordNodeResult put runId result s) runId"
  by (auto simp: well_keyed_def stored_recordNodeResult)

lemma resume_stored:
  assumes "store_ok s" "well_keyed s runId"
  shows "r \<in> set (resumeCompleted runId s) \<longleftrightarrow>
    nr_status r = ResultPassed \<and> stored s runId (nr_nodeId r) = Some r"
proof -
  have "r \<in> set (resumeCompleted runId s) \<longleftrightarrow>
      nr_status r = ResultPassed \<and> (\<exists>nodeId. stored s runId nodeId = Some r)"
    using resume_get [OF assms(1), of runId] by (simp add: stored_def)
  then show ?thesis using assms(2) by (auto simp: well_keyed_def)
qed

lemma resume_recordNodeResult:
  assumes "store_ok s" "well_keyed s runId"
  shows "set (resumeCompleted runId (recordNodeResult put runId result s)) =
     {r \<in> set (resumeCompleted runId s). nr_nodeId r \<noteq> nr_nodeId result} \<union>
     (if nr_status result = ResultPassed then {result} else {})"
proof (rule set_eqI)
  note after = resume_stored [OF recordNodeResult_ok [OF assms(1)] well_keyed_record [OF assms]]
  show "r \<in> set (resumeCompleted runId (recordNodeResult put runId result s)) \<longleftrightarrow>
      r \<in> {r \<in> set (resumeCompleted runId s). nr_nodeId r \<noteq> nr_nodeId result} \<union>
        (if nr_status result = ResultPassed then {result} else {})" for r
    by (auto simp: after resume_stored [OF assms] stored_recordNodeResult [OF assms(1)])
qed

end

subsection \<open>The journal interface\<close>

text \<open>
  The law the scheduler needs: recording a node that has no passed result yet adds that result
  to the resume seed when it passed, and changes nothing else of the seed.
\<close>

locale run_journal =
  fixes journal :: "'j journal" and journal_ok :: "'j \<Rightarrow> bool"
  assumes record_keeps_ok: "journal_ok j \<Longrightarrow> journal_ok (rj_record journal result j)"
    and resume_record: "journal_ok j \<Longrightarrow> nr_nodeId result \<notin> nr_nodeId ` set (rj_resumeCompleted journal j) \<Longrightarrow>
      set (rj_resumeCompleted journal (rj_record journal result j)) =
        set (rj_resumeCompleted journal j) \<union> (if nr_status result = ResultPassed then {result} else {})"
    and resume_passed: "journal_ok j \<Longrightarrow>
      \<forall>result \<in> set (rj_resumeCompleted journal j). nr_status result = ResultPassed"
begin

text \<open>Recording results of different nodes one after the other.\<close>

lemma fold_record_ok: "journal_ok j \<Longrightarrow> journal_ok (fold (rj_record journal) results j)"
  by (induction results arbitrary: j) (simp_all add: record_keeps_ok)

lemma resume_fold_record:
  assumes "journal_ok j" "distinct (map nr_nodeId results)"
    and "nr_nodeId ` set results \<inter> nr_nodeId ` set (rj_resumeCompleted journal j) = {}"
  shows "set (rj_resumeCompleted journal (fold (rj_record journal) results j)) =
    set (rj_resumeCompleted journal j) \<union> set (passedOnly results)"
  using assms
proof (induction results arbitrary: j)
  case (Cons r results)
  have r: "nr_nodeId r \<notin> nr_nodeId ` set (rj_resumeCompleted journal j)" using Cons.prems by simp
  note step = resume_record [OF Cons.prems(1) r]
  have "nr_nodeId ` set results \<inter> nr_nodeId ` set (rj_resumeCompleted journal (rj_record journal r j)) = {}"
    unfolding step using Cons.prems by (auto split: if_splits)
  then show ?case
    using Cons.IH [OF record_keeps_ok [OF Cons.prems(1)]] Cons.prems(2) step by (auto simp: passedOnly_def)
qed (simp add: passedOnly_def)

end

text \<open>A store gives a journal for each run.\<close>

sublocale durable_store \<subseteq> store_journal: run_journal
  "buildRunJournal put resumeCompleted runId" "\<lambda>s. store_ok s \<and> well_keyed s runId"
proof
  fix j result
  assume j: "store_ok j \<and> well_keyed j runId"
  then show "store_ok (rj_record (buildRunJournal put resumeCompleted runId) result j) \<and>
      well_keyed (rj_record (buildRunJournal put resumeCompleted runId) result j) runId"
    by (simp add: buildRunJournal_def recordNodeResult_ok well_keyed_record)
  show "set (rj_resumeCompleted (buildRunJournal put resumeCompleted runId)
        (rj_record (buildRunJournal put resumeCompleted runId) result j)) =
      set (rj_resumeCompleted (buildRunJournal put resumeCompleted runId) j) \<union>
      (if nr_status result = ResultPassed then {result} else {})"
    if "nr_nodeId result \<notin> nr_nodeId ` set (rj_resumeCompleted (buildRunJournal put resumeCompleted runId) j)"
    using that j by (auto simp: buildRunJournal_def resume_recordNodeResult image_iff)
next
  fix j assume "store_ok j \<and> well_keyed j runId"
  then show "\<forall>result \<in> set (rj_resumeCompleted (buildRunJournal put resumeCompleted runId) j).
      nr_status result = ResultPassed"
    by (auto simp: buildRunJournal_def resume_get)
qed

subsection \<open>The providers\<close>

definition memory_ok :: "'i memory_store \<Rightarrow> bool" where
  "memory_ok store \<longleftrightarrow> (\<forall>(runId, bucket) \<in> set store. distinct (map fst bucket))"

lemma memory_ok_bucket: "memory_ok store \<Longrightarrow> map_of store runId = Some bucket \<Longrightarrow> distinct (map fst bucket)"
  by (auto simp: memory_ok_def dest: map_of_SomeD)

lemma set_AList_update_subset: "set (AList.update k v m) \<subseteq> insert (k, v) (set m)"
  by (induction m) auto

lemma memory_ok_update:
  "memory_ok store \<Longrightarrow> distinct (map fst bucket) \<Longrightarrow> memory_ok (AList.update runId bucket store)"
  using set_AList_update_subset [of runId bucket store] unfolding memory_ok_def by fast

lemma memory_record_alt:
  "map_of (memory_record now runId nodeId cs inp result store) runId' =
     (if runId' = runId
      then Some (AList.update nodeId
        \<lparr>dr_criteria = cs, dr_inputs = inp, dr_recordedAt = now, dr_result = result\<rparr>
        (or_else (map_of store runId) []))
      else map_of store runId')"
  by (auto simp: memory_record_def makeBucket_def split: option.splits)

lemma memory_record_ok:
  assumes "memory_ok store"
  shows "memory_ok (memory_record now runId nodeId cs inp result store)"
proof (cases "map_of store runId")
  case None
  have "memory_ok (AList.update runId [] store)" by (intro memory_ok_update assms) simp
  then show ?thesis using None memory_ok_update [OF assms]
    by (simp add: memory_record_def makeBucket_def)
next
  case (Some bucket)
  then show ?thesis using memory_ok_bucket [OF assms Some] assms
    by (simp add: memory_record_def makeBucket_def memory_ok_update distinct_update)
qed

lemma memory_get_record:
  "map_option dr_result (memory_get (memory_record now runId nodeId cs inp result store) runId' nodeId') =
     (if runId' = runId \<and> nodeId' = nodeId then Some result
      else map_option dr_result (memory_get store runId' nodeId'))"
  by (cases "map_of store runId") (auto simp: memory_get_def memory_record_alt)

lemma memory_resume_get:
  assumes "memory_ok store"
  shows "set (memory_resumeCompleted runId store) =
    {result. nr_status result = ResultPassed \<and>
       (\<exists>nodeId. map_option dr_result (memory_get store runId nodeId) = Some result)}"
proof (cases "map_of store runId")
  case (Some bucket)
  then have dist: "distinct (map fst bucket)" by (rule memory_ok_bucket [OF assms])
  have "r \<in> snd ` set bucket \<longleftrightarrow> (\<exists>nodeId. map_of bucket nodeId = Some r)" for r
    using dist by (force simp: image_iff)
  then show ?thesis
    using Some by (auto simp: memory_resumeCompleted_def passedResultsForRun_def memory_get_def)
qed (simp add: memory_resumeCompleted_def passedResultsForRun_def memory_get_def)

interpretation memory: durable_store memory_get "memory_record now" memory_resumeCompleted memory_ok
  for now
  by unfold_locales (rule memory_record_ok memory_get_record memory_resume_get; assumption?)+

interpretation file_journal: run_journal fileRunJournal "\<lambda>log. True"
  by unfold_locales (auto simp: fileRunJournal_def passedOnly_def)

end
