(* ===== verification/Scheduler.thy ===== *)
theory Scheduler
  imports DurableStore
begin

text \<open>
  The workflow scheduler of \<^verbatim>\<open>src/runtime/scheduler.ts\<close>: readiness, capacity and category caps,
  launching, folding a completion into the run state, blocking and fail-fast skipping, the tick
  and the loop. \<open>Effect\<close>'s fibers and completion queue are the environment: the next outcome taken
  from the queue is that of some node in flight, whichever finishes first.

  The calls \<open>markNodeReady\<close> and \<open>skipNode\<close>, which only notify the client, are kept as a log of
  the context; the journal is the \<^typ>\<open>'j journal\<close> of \<open>DurableStore\<close> with its state in the context.
\<close>

subsection \<open>Data\<close>

record schedule_node =
  wsn_category :: "string option"
  wsn_dependents :: "string list"
  wsn_id :: string
  wsn_index :: nat
  wsn_needs :: "string list"

record fan_out_width =
  fo_by_category :: "(string \<times> nat) list"
  fo_default :: nat

record 'j scheduler_input =
  si_failFast :: bool
  si_fanOutWidth :: "fan_out_width option"
  si_journal :: "'j journal option"
  si_maxParallelNodes :: "nat option"
  si_nodes :: "schedule_node list"
  si_shouldContinue :: "node_result \<Rightarrow> bool"

record scheduler_state =
  ss_blocked :: "string list"
  ss_completed :: "node_result list"
  ss_nodes :: "schedule_node list"
  ss_running :: "string list"

datatype client_call = MarkNodeReady string | SkipNode string string

datatype node_outcome = NodeOk node_result | NodeError string

record 'j scheduler_context =
  sc_failure :: "runtime_failure option"
  sc_fibers :: "string list"
  sc_state :: scheduler_state
  sc_journal :: 'j
  sc_calls :: "client_call list"

record run_result =
  rr_completed :: "node_result list"
  rr_failure :: "runtime_failure option"
  rr_outcome :: run_outcome

subsection \<open>Readiness\<close>

definition orderedNodes :: "schedule_node list \<Rightarrow> schedule_node list" where
  "orderedNodes nodes = sort_key wsn_index nodes"

text \<open>\<open>shouldContinue\<close> is optional in the input of \<open>computeReadyNodeIds\<close>.\<close>

definition result_continues :: "(node_result \<Rightarrow> bool) option \<Rightarrow> node_result \<Rightarrow> bool" where
  "result_continues shouldContinue result =
     (case shouldContinue of Some f \<Rightarrow> f result | None \<Rightarrow> nr_status result \<noteq> ResultFailed)"

definition result_of :: "node_result list \<Rightarrow> string \<Rightarrow> node_result option" where
  "result_of completed needId = List.find (\<lambda>r. nr_nodeId r = needId) completed"

definition need_met :: "(node_result \<Rightarrow> bool) option \<Rightarrow> node_result list \<Rightarrow> string \<Rightarrow> bool" where
  "need_met shouldContinue completed needId =
     (case result_of completed needId of
        None \<Rightarrow> False
      | Some result \<Rightarrow> result_continues shouldContinue result)"

definition computeReadyNodeIds ::
  "string list \<Rightarrow> node_result list \<Rightarrow> schedule_node list \<Rightarrow> string list \<Rightarrow>
   (node_result \<Rightarrow> bool) option \<Rightarrow> string list" where
  "computeReadyNodeIds blocked completed nodes running shouldContinue =
     (let completedIds = set (map nr_nodeId completed); runningIds = set running;
          blockedIds = set blocked; settled = completedIds \<union> runningIds
      in map wsn_id
           (filter (\<lambda>node. \<forall>needId \<in> set (wsn_needs node). need_met shouldContinue completed needId)
             (filter (\<lambda>node. \<not> (wsn_id node \<in> settled \<or> wsn_id node \<in> blockedIds)) (orderedNodes nodes))))"

subsection \<open>Capacity and category caps\<close>

definition node_limit :: "'j scheduler_input \<Rightarrow> schedule_node list \<Rightarrow> nat" where
  "node_limit input nodes =
     (if si_failFast input then 1 else or_else (si_maxParallelNodes input) (length nodes))"

definition workflowNodeCapacity :: "'j scheduler_input \<Rightarrow> scheduler_state \<Rightarrow> nat" where
  "workflowNodeCapacity input st = node_limit input (ss_nodes st) - length (ss_running st)"

definition categoryCap :: "string \<Rightarrow> fan_out_width \<Rightarrow> nat" where
  "categoryCap category fanOut = or_else (map_of (fo_by_category fanOut) category) (fo_default fanOut)"

type_synonym category_counts = "(string \<times> nat) list"

definition count_of :: "category_counts \<Rightarrow> string \<Rightarrow> nat" where
  "count_of counts category = or_else (map_of counts category) 0"

definition claimNamedCategorySlot ::
  "fan_out_width \<Rightarrow> category_counts \<Rightarrow> string \<Rightarrow> bool \<times> category_counts" where
  "claimNamedCategorySlot fanOut counts category =
     (let current = count_of counts category in
      if categoryCap category fanOut \<le> current then (False, counts)
      else (True, AList.update category (current + 1) counts))"

definition claimCategorySlot ::
  "fan_out_width \<Rightarrow> category_counts \<Rightarrow> string option \<Rightarrow> bool \<times> category_counts" where
  "claimCategorySlot fanOut counts category =
     (case category of None \<Rightarrow> (True, counts) | Some name \<Rightarrow> claimNamedCategorySlot fanOut counts name)"

definition recordCategoryRun :: "category_counts \<Rightarrow> string option \<Rightarrow> category_counts" where
  "recordCategoryRun counts category =
     (case category of None \<Rightarrow> counts | Some name \<Rightarrow> AList.update name (count_of counts name + 1) counts)"

definition category_of :: "schedule_node list \<Rightarrow> string \<Rightarrow> string option" where
  "category_of nodes nodeId =
     or_else (map_of (rev (map (\<lambda>node. (wsn_id node, wsn_category node)) nodes)) nodeId) None"

definition categoryRunCounts :: "string list \<Rightarrow> (string \<Rightarrow> string option) \<Rightarrow> category_counts" where
  "categoryRunCounts running categoryOf =
     foldl (\<lambda>counts nodeId. recordCategoryRun counts (categoryOf nodeId)) [] running"

fun capped_loop ::
  "fan_out_width \<Rightarrow> (string \<Rightarrow> string option) \<Rightarrow> nat \<Rightarrow> string list \<Rightarrow> category_counts \<Rightarrow> string list \<Rightarrow> string list" where
  "capped_loop fanOut categoryOf capacity [] counts selected = selected"
| "capped_loop fanOut categoryOf capacity (nodeId # ready) counts selected =
     (if capacity \<le> length selected then selected
      else case claimCategorySlot fanOut counts (categoryOf nodeId) of
        (True, counts') \<Rightarrow> capped_loop fanOut categoryOf capacity ready counts' (selected @ [nodeId])
      | (False, counts') \<Rightarrow> capped_loop fanOut categoryOf capacity ready counts' selected)"

definition cappedSelection :: "string list \<Rightarrow> nat \<Rightarrow> scheduler_state \<Rightarrow> fan_out_width \<Rightarrow> string list" where
  "cappedSelection ready capacity st fanOut =
     (let categoryOf = category_of (ss_nodes st) in
      capped_loop fanOut categoryOf capacity ready (categoryRunCounts (ss_running st) categoryOf) [])"

definition readyNodeIds :: "'j scheduler_input \<Rightarrow> scheduler_state \<Rightarrow> string list" where
  "readyNodeIds input st =
     computeReadyNodeIds (ss_blocked st) (ss_completed st) (ss_nodes st) (ss_running st)
       (Some (si_shouldContinue input))"

definition selectLaunchableNodes :: "'j scheduler_input \<Rightarrow> scheduler_state \<Rightarrow> nat \<Rightarrow> string list" where
  "selectLaunchableNodes input st capacity =
     (let ready = readyNodeIds input st in
      case si_fanOutWidth input of
        None \<Rightarrow> take capacity ready
      | Some fanOut \<Rightarrow> cappedSelection ready capacity st fanOut)"

subsection \<open>Launching and completing nodes\<close>

definition launch_node :: "'j scheduler_context \<Rightarrow> string \<Rightarrow> 'j scheduler_context" where
  "launch_node ctx nodeId =
     ctx\<lparr>sc_calls := sc_calls ctx @ [MarkNodeReady nodeId],
         sc_state := (sc_state ctx)\<lparr>ss_running := ss_running (sc_state ctx) @ [nodeId]\<rparr>,
         sc_fibers := set_add (sc_fibers ctx) nodeId\<rparr>"

definition launchReady :: "'j scheduler_input \<Rightarrow> 'j scheduler_context \<Rightarrow> 'j scheduler_context" where
  "launchReady input ctx =
     (let capacity = workflowNodeCapacity input (sc_state ctx) in
      if capacity \<le> 0 then ctx
      else foldl launch_node ctx (selectLaunchableNodes input (sc_state ctx) capacity))"

definition settledNodeIds :: "scheduler_state \<Rightarrow> string set" where
  "settledNodeIds st = set (map nr_nodeId (ss_completed st)) \<union> set (ss_running st)"

definition unstartedNodeIds :: "scheduler_state \<Rightarrow> string list" where
  "unstartedNodeIds st =
     filter (\<lambda>nodeId. nodeId \<notin> settledNodeIds st) (map wsn_id (orderedNodes (ss_nodes st)))"

definition skip_reason :: "string \<Rightarrow> string" where
  "skip_reason nodeId =
     ''skipped because workflow fail_fast stopped after node '' @ CHR 0x27 # nodeId @ CHR 0x27 # '' failed''"

definition applyFailFastSkip :: "'j scheduler_context \<Rightarrow> node_result \<Rightarrow> 'j scheduler_context" where
  "applyFailFastSkip ctx result =
     (let reason = skip_reason (nr_nodeId result); skipped = unstartedNodeIds (sc_state ctx) in
      ctx\<lparr>sc_state := (sc_state ctx)\<lparr>ss_blocked := js_set (ss_blocked (sc_state ctx) @ skipped)\<rparr>,
          sc_calls := sc_calls ctx @ map (\<lambda>nodeId. SkipNode nodeId reason) skipped\<rparr>)"

definition index_of :: "schedule_node list \<Rightarrow> string \<Rightarrow> nat" where
  "index_of nodes nodeId =
     (case map_of (rev (map (\<lambda>node. (wsn_id node, wsn_index node)) (orderedNodes nodes))) nodeId of
        None \<Rightarrow> 0 | Some i \<Rightarrow> i)"

definition directDependents :: "string \<Rightarrow> schedule_node list \<Rightarrow> string list" where
  "directDependents nodeId nodes =
     (let declared = (case List.find (\<lambda>node. wsn_id node = nodeId) nodes of
                        None \<Rightarrow> [] | Some node \<Rightarrow> wsn_dependents node);
          inferred = map wsn_id (filter (\<lambda>node. nodeId \<in> set (wsn_needs node)) (orderedNodes nodes))
      in sort_key (index_of nodes) (js_set (declared @ inferred)))"

lemma set_directDependents:
  "set (directDependents nodeId nodes) =
     (case List.find (\<lambda>node. wsn_id node = nodeId) nodes of None \<Rightarrow> {} | Some node \<Rightarrow> set (wsn_dependents node)) \<union>
     wsn_id ` {node \<in> set nodes. nodeId \<in> set (wsn_needs node)}"
  by (auto simp: directDependents_def Let_def orderedNodes_def split: option.splits)

text \<open>The ids the descendant search can ever see.\<close>

definition descendant_universe :: "schedule_node list \<Rightarrow> string set" where
  "descendant_universe nodes = wsn_id ` set nodes \<union> \<Union>((set \<circ> wsn_dependents) ` set nodes)"

lemma directDependents_universe: "set (directDependents nodeId nodes) \<subseteq> descendant_universe nodes"
  unfolding set_directDependents descendant_universe_def
  by (auto split: option.splits simp: find_Some_iff)

function descendants_loop :: "schedule_node list \<Rightarrow> string list \<Rightarrow> string list \<Rightarrow> string list" where
  "descendants_loop nodes descendants [] = descendants"
| "descendants_loop nodes descendants (descendantId # queue) =
     (if descendantId \<in> set descendants then descendants_loop nodes descendants queue
      else descendants_loop nodes (set_add descendants descendantId)
             (queue @ directDependents descendantId nodes))"
  by pat_completeness auto

termination descendants_loop
proof (relation "measures [\<lambda>(nodes, descendants, queue).
      card ((descendant_universe nodes \<union> set queue) - set descendants),
      \<lambda>(nodes, descendants, queue). length queue]", goal_cases)
  case (2 nodes descendants descendantId queue)
  have "insert descendantId (descendant_universe nodes \<union> set queue) - set descendants =
      descendant_universe nodes \<union> set queue - set descendants"
    using 2 by auto
  then show ?case by simp
next
  case (3 nodes descendants descendantId queue)
  have eq: "descendant_universe nodes \<union> set (queue @ directDependents descendantId nodes) =
      descendant_universe nodes \<union> set queue"
    using directDependents_universe [of descendantId nodes] by auto
  have "card ((descendant_universe nodes \<union> set queue) - set (set_add descendants descendantId)) <
      card ((descendant_universe nodes \<union> set (descendantId # queue)) - set descendants)"
    by (rule psubset_card_mono) (use 3 in \<open>auto simp: descendant_universe_def\<close>)
  then show ?case using eq by simp
qed simp

definition unstartedBlockingDescendants :: "string \<Rightarrow> scheduler_state \<Rightarrow> string list" where
  "unstartedBlockingDescendants nodeId st =
     (let unstarted = set (unstartedNodeIds st);
          descendants = set (descendants_loop (ss_nodes st) [] (directDependents nodeId (ss_nodes st)))
      in filter (\<lambda>d. d \<in> unstarted)
           (filter (\<lambda>d. d \<in> descendants) (map wsn_id (orderedNodes (ss_nodes st)))))"

definition nodeRuntimeFailure :: "node_result \<Rightarrow> runtime_failure" where
  "nodeRuntimeFailure node =
     \<lparr>rf_evidence = nr_evidence node, rf_gate = nr_nodeId node, rf_nodeId = Some (nr_nodeId node),
      rf_reason = ''node '' @ CHR 0x27 # nr_nodeId node @ CHR 0x27 # '' failed''\<rparr>"

definition isBlockingFailure :: "'j scheduler_input \<Rightarrow> node_result \<Rightarrow> bool" where
  "isBlockingFailure input result \<longleftrightarrow>
     nr_status result = ResultFailed \<and> \<not> si_shouldContinue input result"

definition recordToJournal :: "'j scheduler_input \<Rightarrow> node_result \<Rightarrow> 'j \<Rightarrow> 'j" where
  "recordToJournal input result j =
     (case si_journal input of None \<Rightarrow> j | Some journal \<Rightarrow> rj_record journal result j)"

definition complete_node :: "'j scheduler_input \<Rightarrow> 'j scheduler_context \<Rightarrow> node_result \<Rightarrow> 'j scheduler_context" where
  "complete_node input ctx result =
     ctx\<lparr>sc_fibers := removeAll (nr_nodeId result) (sc_fibers ctx),
         sc_state := (sc_state ctx)\<lparr>ss_running := filter (\<lambda>i. i \<noteq> nr_nodeId result) (ss_running (sc_state ctx)),
                                   ss_completed := ss_completed (sc_state ctx) @ [result]\<rparr>,
         sc_journal := recordToJournal input result (sc_journal ctx)\<rparr>"

definition applyCompletion :: "'j scheduler_input \<Rightarrow> 'j scheduler_context \<Rightarrow> node_result \<Rightarrow> 'j scheduler_context" where
  "applyCompletion input ctx result =
     (let ctx1 = complete_node input ctx result in
      if \<not> isBlockingFailure input result then ctx1
      else let ctx2 = ctx1\<lparr>sc_failure := Some (or_else (sc_failure ctx1) (nodeRuntimeFailure result))\<rparr> in
        if si_failFast input then applyFailFastSkip ctx2 result
        else let blocked = unstartedBlockingDescendants (nr_nodeId result) (sc_state ctx2) in
          ctx2\<lparr>sc_state := (sc_state ctx2)\<lparr>ss_blocked := js_set (ss_blocked (sc_state ctx2) @ blocked)\<rparr>\<rparr>)"

subsection \<open>Results, tick and loop\<close>

definition cancelledResult :: "scheduler_state \<Rightarrow> run_result" where
  "cancelledResult st = \<lparr>rr_completed = ss_completed st, rr_failure = None, rr_outcome = CANCELLED\<rparr>"

definition terminalResult :: "scheduler_state \<Rightarrow> runtime_failure option \<Rightarrow> run_result" where
  "terminalResult st failure =
     \<lparr>rr_completed = ss_completed st, rr_failure = failure,
      rr_outcome = (if failure = None then PASS else FAIL)\<rparr>"

definition workflowServiceFailure :: "string \<Rightarrow> string \<Rightarrow> runtime_failure" where
  "workflowServiceFailure reason gate =
     \<lparr>rf_evidence = [reason], rf_gate = gate, rf_nodeId = None, rf_reason = reason\<rparr>"

definition nodeErrorResult :: "scheduler_state \<Rightarrow> string \<Rightarrow> run_result" where
  "nodeErrorResult st reason =
     \<lparr>rr_completed = ss_completed st, rr_failure = Some (workflowServiceFailure reason ''workflow.node''),
      rr_outcome = FAIL\<rparr>"

text \<open>A tick ends the run or hands the context to the next tick.\<close>

datatype 'j tick = Finished run_result | Continue "'j scheduler_context"

definition applyOutcome ::
  "'j scheduler_input \<Rightarrow> 'j scheduler_context \<Rightarrow> node_outcome \<Rightarrow> 'j tick" where
  "applyOutcome input ctx outcome =
     (case outcome of
        NodeError reason \<Rightarrow> Finished (nodeErrorResult (sc_state ctx) reason)
      | NodeOk result \<Rightarrow> Continue (applyCompletion input ctx result))"

text \<open>
  \<open>cancelled\<close> is what \<open>isCancelled\<close> answers in this tick, \<open>take\<close> what the completion queue
  yields for the nodes in flight.
\<close>

definition schedulerTick ::
  "'j scheduler_input \<Rightarrow> bool \<Rightarrow> (string list \<Rightarrow> node_outcome) \<Rightarrow> 'j scheduler_context \<Rightarrow> 'j tick" where
  "schedulerTick input cancelled takeOutcome ctx =
     (if cancelled then Finished (cancelledResult (sc_state ctx))
      else let ctx' = launchReady input ctx in
        if sc_fibers ctx' = [] then Finished (terminalResult (sc_state ctx') (sc_failure ctx'))
        else applyOutcome input ctx' (takeOutcome (sc_fibers ctx')))"

definition resumeFromJournal :: "'j scheduler_input \<Rightarrow> 'j \<Rightarrow> node_result list" where
  "resumeFromJournal input j =
     (case si_journal input of None \<Rightarrow> [] | Some journal \<Rightarrow> rj_resumeCompleted journal j)"

definition initialSchedulerState :: "'j scheduler_input \<Rightarrow> 'j \<Rightarrow> scheduler_state" where
  "initialSchedulerState input j =
     \<lparr>ss_blocked = [], ss_completed = resumeFromJournal input j,
      ss_nodes = orderedNodes (si_nodes input), ss_running = []\<rparr>"

definition initial_context :: "'j scheduler_input \<Rightarrow> 'j \<Rightarrow> 'j scheduler_context" where
  "initial_context input j =
     \<lparr>sc_failure = None, sc_fibers = [], sc_state = initialSchedulerState input j,
      sc_journal = j, sc_calls = []\<rparr>"

text \<open>
  The loop, with fuel. The environment \<open>env\<close> gives, for every tick, the answer of
  \<open>isCancelled\<close> and the outcome taken; \<open>None\<close> is a run that has not ended within the fuel.
\<close>

type_synonym scheduler_env = "nat \<Rightarrow> bool \<times> (string list \<Rightarrow> node_outcome)"

fun schedulerLoop ::
  "nat \<Rightarrow> 'j scheduler_input \<Rightarrow> scheduler_env \<Rightarrow> nat \<Rightarrow> 'j scheduler_context \<Rightarrow> run_result option" where
  "schedulerLoop 0 input env k ctx = None"
| "schedulerLoop (Suc fuel) input env k ctx =
     (case schedulerTick input (fst (env k)) (snd (env k)) ctx of
        Finished result \<Rightarrow> Some result
      | Continue ctx' \<Rightarrow> schedulerLoop fuel input env (Suc k) ctx')"

definition runWorkflowScheduler ::
  "nat \<Rightarrow> 'j scheduler_input \<Rightarrow> 'j \<Rightarrow> scheduler_env \<Rightarrow> run_result option" where
  "runWorkflowScheduler fuel input j env = schedulerLoop fuel input env 0 (initial_context input j)"

end
