(* ===== verification/SchedulerSafety.thy ===== *)
theory SchedulerSafety
  imports Scheduler "HOL-Library.Sublist"
begin

text \<open>
  What the scheduler guarantees at every tick of every run: which nodes are in flight and why
  they may be, how many, what has been recorded, what is blocked. The runs are those of the step
  relation \<open>sched_step\<close>, whose environment chooses the node that finishes next and its outcome.
\<close>

subsection \<open>What a tick may launch\<close>

lemma set_orderedNodes [simp]: "set (orderedNodes nodes) = set nodes"
  by (simp add: orderedNodes_def)

lemma length_orderedNodes [simp]: "length (orderedNodes nodes) = length nodes"
  by (simp add: orderedNodes_def)

lemma distinct_orderedNodes:
  "distinct (map wsn_id (orderedNodes nodes)) \<longleftrightarrow> distinct (map wsn_id nodes)"
proof -
  have "mset (map wsn_id (orderedNodes nodes)) = mset (map wsn_id nodes)"
    by (simp add: orderedNodes_def)
  then show ?thesis by (metis mset_eq_imp_distinct_iff)
qed

lemma orderedNodes_idem [simp]: "orderedNodes (orderedNodes nodes) = orderedNodes nodes"
  by (simp add: orderedNodes_def sort_key_id_if_sorted)

definition ready_node :: "'j scheduler_input \<Rightarrow> scheduler_state \<Rightarrow> schedule_node \<Rightarrow> bool" where
  "ready_node input st node \<longleftrightarrow>
     node \<in> set (ss_nodes st) \<and> wsn_id node \<notin> nr_nodeId ` set (ss_completed st) \<and>
     wsn_id node \<notin> set (ss_running st) \<and> wsn_id node \<notin> set (ss_blocked st) \<and>
     (\<forall>needId \<in> set (wsn_needs node). need_met (Some (si_shouldContinue input)) (ss_completed st) needId)"

lemma set_readyNodeIds:
  "nodeId \<in> set (readyNodeIds input st) \<longleftrightarrow> (\<exists>node. ready_node input st node \<and> wsn_id node = nodeId)"
  by (auto simp: readyNodeIds_def computeReadyNodeIds_def Let_def ready_node_def)

lemma distinct_map_filter_sub: "distinct (map f xs) \<Longrightarrow> distinct (map f (filter P xs))"
  by (induction xs) auto

lemma distinct_readyNodeIds:
  assumes "distinct (map wsn_id (ss_nodes st))"
  shows "distinct (readyNodeIds input st)"
  using assms by (simp add: readyNodeIds_def computeReadyNodeIds_def Let_def distinct_map_filter_sub
      distinct_orderedNodes)

text \<open>The number of nodes of a list that carry a category.\<close>

definition category_load :: "(string \<Rightarrow> string option) \<Rightarrow> string list \<Rightarrow> string \<Rightarrow> nat" where
  "category_load categoryOf ids c = length (filter (\<lambda>i. categoryOf i = Some c) ids)"

lemma category_load_simps [simp]:
  "category_load categoryOf [] c = 0"
  "category_load categoryOf (xs @ ys) c = category_load categoryOf xs c + category_load categoryOf ys c"
  "category_load categoryOf (x # xs) c =
     (if categoryOf x = Some c then 1 else 0) + category_load categoryOf xs c"
  by (simp_all add: category_load_def)

lemma count_of_update [simp]:
  "count_of (AList.update k v counts) c = (if c = k then v else count_of counts c)"
  by (simp add: count_of_def)

lemma categoryRunCounts_load: "count_of (categoryRunCounts running categoryOf) c = category_load categoryOf running c"
proof -
  have "count_of (foldl (\<lambda>counts nodeId. recordCategoryRun counts (categoryOf nodeId)) counts running) c =
      count_of counts c + category_load categoryOf running c" for counts
    by (induction running arbitrary: counts) (auto simp: recordCategoryRun_def split: option.splits)
  from this [of "[]"] show ?thesis by (simp add: categoryRunCounts_def count_of_def)
qed

lemma subseq_members: "subseq xs ys \<Longrightarrow> x \<in> set xs \<Longrightarrow> x \<in> set ys"
  by (auto simp: subseq_conv_nths set_nths)

lemma subseq_distinct': "subseq xs ys \<Longrightarrow> distinct ys \<Longrightarrow> distinct xs"
  by (auto simp: subseq_conv_nths distinct_nthsI)

lemma capped_loop_spec:
  assumes "\<forall>c. count_of counts c = category_load categoryOf (base @ selected) c"
    and "\<forall>c. category_load categoryOf (base @ selected) c \<le> categoryCap c fanOut"
    and "length selected \<le> capacity"
  shows "\<exists>more. capped_loop fanOut categoryOf capacity ready counts selected = selected @ more
    \<and> subseq more ready \<and> length (selected @ more) \<le> capacity
    \<and> (\<forall>c. category_load categoryOf (base @ selected @ more) c \<le> categoryCap c fanOut)"
  using assms
proof (induction fanOut categoryOf capacity ready counts selected rule: capped_loop.induct)
  case (1 fanOut categoryOf capacity counts selected)
  then show ?case by simp
next
  case (2 fanOut categoryOf capacity nodeId ready counts selected)
  show ?case
  proof (cases "capacity \<le> length selected")
    case True
    then show ?thesis using 2 by auto
  next
    case False
    obtain ok counts' where claim: "claimCategorySlot fanOut counts (categoryOf nodeId) = (ok, counts')"
      by (cases "claimCategorySlot fanOut counts (categoryOf nodeId)")
    show ?thesis
    proof (cases ok)
      case True
      have load: "\<forall>c. category_load categoryOf (base @ (selected @ [nodeId])) c \<le> categoryCap c fanOut"
        and counts: "\<forall>c. count_of counts' c = category_load categoryOf (base @ (selected @ [nodeId])) c"
        using claim True 2(3,4) by (auto simp: claimCategorySlot_def claimNamedCategorySlot_def Let_def
            split: option.splits if_splits)
      have "\<exists>more. capped_loop fanOut categoryOf capacity ready counts' (selected @ [nodeId]) =
          (selected @ [nodeId]) @ more \<and> subseq more ready
          \<and> length ((selected @ [nodeId]) @ more) \<le> capacity
          \<and> (\<forall>c. category_load categoryOf (base @ (selected @ [nodeId]) @ more) c \<le> categoryCap c fanOut)"
        using 2(1) [OF False claim [symmetric]] True counts load False by auto
      then obtain more where "capped_loop fanOut categoryOf capacity ready counts' (selected @ [nodeId]) =
          (selected @ [nodeId]) @ more" "subseq more ready" "length ((selected @ [nodeId]) @ more) \<le> capacity"
          "\<forall>c. category_load categoryOf (base @ (selected @ [nodeId]) @ more) c \<le> categoryCap c fanOut"
        by blast
      then show ?thesis using False claim True
        by (intro exI [of _ "nodeId # more"]) simp
    next
      case no: False
      then have "counts' = counts"
        using claim by (auto simp: claimCategorySlot_def claimNamedCategorySlot_def Let_def
            split: option.splits if_splits)
      then have "\<exists>more. capped_loop fanOut categoryOf capacity ready counts' selected = selected @ more
          \<and> subseq more ready \<and> length (selected @ more) \<le> capacity
          \<and> (\<forall>c. category_load categoryOf (base @ selected @ more) c \<le> categoryCap c fanOut)"
        using 2(2) [OF False claim [symmetric]] no 2(3-5) by auto
      then show ?thesis using False claim no by auto
    qed
  qed
qed

text \<open>The nodes a tick launches.\<close>

definition launch_ids :: "'j scheduler_input \<Rightarrow> scheduler_state \<Rightarrow> string list" where
  "launch_ids input st =
     (let capacity = workflowNodeCapacity input st in
      if capacity \<le> 0 then [] else selectLaunchableNodes input st capacity)"

definition caps_ok :: "'j scheduler_input \<Rightarrow> (string \<Rightarrow> string option) \<Rightarrow> string list \<Rightarrow> bool" where
  "caps_ok input categoryOf running \<longleftrightarrow>
     (\<forall>fanOut. si_fanOutWidth input = Some fanOut \<longrightarrow>
        (\<forall>c. category_load categoryOf running c \<le> categoryCap c fanOut))"

lemma launch_ids_spec:
  assumes "caps_ok input (category_of (ss_nodes st)) (ss_running st)"
  shows "subseq (launch_ids input st) (readyNodeIds input st)"
    and "length (ss_running st @ launch_ids input st) \<le> max (length (ss_running st)) (node_limit input (ss_nodes st))"
    and "caps_ok input (category_of (ss_nodes st)) (ss_running st @ launch_ids input st)"
proof -
  let ?cap = "workflowNodeCapacity input st" and ?ready = "readyNodeIds input st"
  have "subseq (launch_ids input st) ?ready \<and> length (launch_ids input st) \<le> ?cap
    \<and> caps_ok input (category_of (ss_nodes st)) (ss_running st @ launch_ids input st)"
  proof (cases "?cap \<le> 0")
    case True
    then show ?thesis using assms by (simp add: launch_ids_def)
  next
    case False
    show ?thesis
    proof (cases "si_fanOutWidth input")
      case None
      then show ?thesis using False
        by (simp add: launch_ids_def selectLaunchableNodes_def caps_ok_def prefix_imp_subseq take_is_prefix)
    next
      case (Some fanOut)
      have "\<exists>more. cappedSelection ?ready ?cap st fanOut = more \<and> subseq more ?ready \<and> length more \<le> ?cap
        \<and> (\<forall>c. category_load (category_of (ss_nodes st)) (ss_running st @ more) c \<le> categoryCap c fanOut)"
        using capped_loop_spec [of "categoryRunCounts (ss_running st) (category_of (ss_nodes st))"
            "category_of (ss_nodes st)" "ss_running st" "[]" fanOut ?cap ?ready] assms Some
        by (simp add: cappedSelection_def Let_def categoryRunCounts_load caps_ok_def)
      then show ?thesis using Some False
        by (auto simp: launch_ids_def Let_def selectLaunchableNodes_def caps_ok_def)
    qed
  qed
  then show "subseq (launch_ids input st) ?ready"
    "length (ss_running st @ launch_ids input st) \<le> max (length (ss_running st)) (node_limit input (ss_nodes st))"
    "caps_ok input (category_of (ss_nodes st)) (ss_running st @ launch_ids input st)"
    by (auto simp: workflowNodeCapacity_def)
qed

lemma launch_ids_ready:
  assumes "caps_ok input (category_of (ss_nodes st)) (ss_running st)" "nodeId \<in> set (launch_ids input st)"
  shows "\<exists>node. ready_node input st node \<and> wsn_id node = nodeId"
  using launch_ids_spec(1) [OF assms(1)] assms(2) set_readyNodeIds subseq_members by metis

lemma launch_ids_distinct:
  assumes "caps_ok input (category_of (ss_nodes st)) (ss_running st)" "distinct (map wsn_id (ss_nodes st))"
  shows "distinct (launch_ids input st)"
  using launch_ids_spec(1) [OF assms(1)] distinct_readyNodeIds [OF assms(2)] subseq_distinct' by metis

text \<open>The effect of launching.\<close>

lemma launchReady_eq:
  "launchReady input ctx = foldl launch_node ctx (launch_ids input (sc_state ctx))"
  by (simp add: launchReady_def launch_ids_def Let_def)

lemma foldl_launch_node:
  "foldl launch_node ctx ids =
     ctx\<lparr>sc_calls := sc_calls ctx @ map MarkNodeReady ids,
         sc_state := (sc_state ctx)\<lparr>ss_running := ss_running (sc_state ctx) @ ids\<rparr>,
         sc_fibers := foldl set_add (sc_fibers ctx) ids\<rparr>"
  by (induction ids arbitrary: ctx) (simp_all add: launch_node_def)

lemma launchReady_simps [simp]:
  "sc_failure (launchReady input ctx) = sc_failure ctx"
  "sc_journal (launchReady input ctx) = sc_journal ctx"
  "sc_calls (launchReady input ctx) = sc_calls ctx @ map MarkNodeReady (launch_ids input (sc_state ctx))"
  "sc_fibers (launchReady input ctx) = foldl set_add (sc_fibers ctx) (launch_ids input (sc_state ctx))"
  "ss_running (sc_state (launchReady input ctx)) = ss_running (sc_state ctx) @ launch_ids input (sc_state ctx)"
  "ss_completed (sc_state (launchReady input ctx)) = ss_completed (sc_state ctx)"
  "ss_blocked (sc_state (launchReady input ctx)) = ss_blocked (sc_state ctx)"
  "ss_nodes (sc_state (launchReady input ctx)) = ss_nodes (sc_state ctx)"
  by (simp_all add: launchReady_eq foldl_launch_node)


subsection \<open>The invariant of a run\<close>

text \<open>
  The invariants are stated for the results \<open>new\<close> this run has added to the ones it resumed
  from the journal state \<open>j\<close>.
\<close>

fun marked_ids :: "client_call list \<Rightarrow> string list" where
  "marked_ids [] = []"
| "marked_ids (MarkNodeReady n # calls) = n # marked_ids calls"
| "marked_ids (SkipNode n r # calls) = marked_ids calls"

lemma marked_ids_append [simp]: "marked_ids (xs @ ys) = marked_ids xs @ marked_ids ys"
  by (induction xs rule: marked_ids.induct) auto

lemma marked_ids_map [simp]:
  "marked_ids (map MarkNodeReady ns) = ns" "marked_ids (map (\<lambda>n. SkipNode n r) ns) = []"
  by (induction ns) auto

abbreviation node_ids :: "'j scheduler_input \<Rightarrow> string set" where
  "node_ids input \<equiv> wsn_id ` set (si_nodes input)"

abbreviation running_of :: "'j scheduler_context \<Rightarrow> string list" where
  "running_of ctx \<equiv> ss_running (sc_state ctx)"

abbreviation first_blocking :: "'j scheduler_input \<Rightarrow> node_result list \<Rightarrow> node_result option" where
  "first_blocking input new \<equiv> List.find (isBlockingFailure input) new"

text \<open>Which nodes are in flight, and what has been recorded.\<close>

definition flight_inv :: "'j scheduler_input \<Rightarrow> 'j \<Rightarrow> node_result list \<Rightarrow> 'j scheduler_context \<Rightarrow> bool" where
  "flight_inv input j new ctx \<longleftrightarrow>
     ss_nodes (sc_state ctx) = orderedNodes (si_nodes input) \<and>
     ss_completed (sc_state ctx) = resumeFromJournal input j @ new \<and>
     distinct (map nr_nodeId new) \<and>
     nr_nodeId ` set new \<inter> nr_nodeId ` set (resumeFromJournal input j) = {} \<and>
     distinct (running_of ctx) \<and> distinct (sc_fibers ctx) \<and> set (sc_fibers ctx) = set (running_of ctx) \<and>
     set (running_of ctx) \<union> nr_nodeId ` set new \<subseteq> node_ids input \<and>
     set (running_of ctx) \<inter> nr_nodeId ` set (ss_completed (sc_state ctx)) = {} \<and>
     distinct (marked_ids (sc_calls ctx)) \<and>
     set (marked_ids (sc_calls ctx)) = set (running_of ctx) \<union> nr_nodeId ` set new \<and>
     sc_journal ctx = fold (recordToJournal input) new j"

text \<open>Everything launched had its needs met by results that let the run go on.\<close>

definition needs_inv :: "'j scheduler_input \<Rightarrow> node_result list \<Rightarrow> 'j scheduler_context \<Rightarrow> bool" where
  "needs_inv input new ctx \<longleftrightarrow>
     (\<forall>node \<in> set (si_nodes input). wsn_id node \<in> set (running_of ctx) \<union> nr_nodeId ` set new \<longrightarrow>
        (\<forall>needId \<in> set (wsn_needs node).
           need_met (Some (si_shouldContinue input)) (ss_completed (sc_state ctx)) needId))"

text \<open>Capacity and category caps.\<close>

definition caps_inv :: "'j scheduler_input \<Rightarrow> 'j scheduler_context \<Rightarrow> bool" where
  "caps_inv input ctx \<longleftrightarrow>
     length (running_of ctx) \<le> node_limit input (si_nodes input) \<and>
     caps_ok input (category_of (orderedNodes (si_nodes input))) (running_of ctx)"

text \<open>Blocking: the first blocking failure is the one reported; what is blocked does not run.\<close>

definition dependent_rel :: "schedule_node list \<Rightarrow> (string \<times> string) set" where
  "dependent_rel nodes = {(a, b). b \<in> set (directDependents a nodes)}"

definition blocking_inv :: "'j scheduler_input \<Rightarrow> node_result list \<Rightarrow> 'j scheduler_context \<Rightarrow> bool" where
  "blocking_inv input new ctx \<longleftrightarrow>
     sc_failure ctx = map_option nodeRuntimeFailure (first_blocking input new) \<and>
     set (ss_blocked (sc_state ctx)) \<inter> set (running_of ctx) = {} \<and>
     (first_blocking input new = None \<longrightarrow> ss_blocked (sc_state ctx) = []) \<and>
     (si_failFast input \<and> first_blocking input new \<noteq> None \<longrightarrow>
        running_of ctx = [] \<and>
        node_ids input \<subseteq> set (ss_blocked (sc_state ctx)) \<union> nr_nodeId ` set (ss_completed (sc_state ctx))) \<and>
     (\<not> si_failFast input \<longrightarrow> (\<forall>b \<in> set (ss_blocked (sc_state ctx)). \<exists>r \<in> set new.
        isBlockingFailure input r \<and> (nr_nodeId r, b) \<in> (dependent_rel (orderedNodes (si_nodes input)))\<^sup>+))"

definition sched_inv :: "'j scheduler_input \<Rightarrow> 'j \<Rightarrow> node_result list \<Rightarrow> 'j scheduler_context \<Rightarrow> bool" where
  "sched_inv input j new ctx \<longleftrightarrow>
     flight_inv input j new ctx \<and> needs_inv input new ctx \<and> caps_inv input ctx \<and> blocking_inv input new ctx"

lemma sched_inv_initial: "sched_inv input j [] (initial_context input j)"
  by (simp add: sched_inv_def flight_inv_def needs_inv_def caps_inv_def blocking_inv_def
      initial_context_def initialSchedulerState_def caps_ok_def)

text \<open>Launching keeps the invariant.\<close>

lemma sched_inv_launch_ids:
  assumes inv: "sched_inv input j new ctx" and ids: "distinct (map wsn_id (si_nodes input))"
  shows "distinct (launch_ids input (sc_state ctx))"
    and "\<And>nodeId. nodeId \<in> set (launch_ids input (sc_state ctx)) \<Longrightarrow>
      \<exists>node. ready_node input (sc_state ctx) node \<and> wsn_id node = nodeId"
    and "node_limit input (ss_nodes (sc_state ctx)) = node_limit input (si_nodes input)"
proof -
  have nodes: "ss_nodes (sc_state ctx) = orderedNodes (si_nodes input)"
    and caps: "caps_ok input (category_of (orderedNodes (si_nodes input))) (running_of ctx)"
    using inv by (auto simp: sched_inv_def flight_inv_def caps_inv_def)
  show "distinct (launch_ids input (sc_state ctx))"
    using caps ids nodes by (intro launch_ids_distinct) (simp_all add: distinct_orderedNodes)
  show "\<And>nodeId. nodeId \<in> set (launch_ids input (sc_state ctx)) \<Longrightarrow>
      \<exists>node. ready_node input (sc_state ctx) node \<and> wsn_id node = nodeId"
    using caps nodes by (intro launch_ids_ready) simp_all
  show "node_limit input (ss_nodes (sc_state ctx)) = node_limit input (si_nodes input)"
    by (simp add: nodes node_limit_def)
qed

lemma flight_inv_launch:
  assumes inv: "sched_inv input j new ctx" and ids: "distinct (map wsn_id (si_nodes input))"
  shows "flight_inv input j new (launchReady input ctx)"
proof -
  let ?ids = "launch_ids input (sc_state ctx)"
  note launch = sched_inv_launch_ids [OF inv ids]
  have flight: "flight_inv input j new ctx" using inv by (simp add: sched_inv_def)
  have nodes: "ss_nodes (sc_state ctx) = orderedNodes (si_nodes input)"
    using flight by (simp add: flight_inv_def)
  have fresh: "set ?ids \<subseteq> node_ids input" "set ?ids \<inter> set (running_of ctx) = {}"
    "set ?ids \<inter> nr_nodeId ` set (ss_completed (sc_state ctx)) = {}"
    using launch(2) nodes by (fastforce simp: ready_node_def)+
  have fibers: "set (foldl set_add (sc_fibers ctx) ?ids) = set (sc_fibers ctx) \<union> set ?ids"
    "distinct (foldl set_add (sc_fibers ctx) ?ids) = distinct (sc_fibers ctx)"
    by (simp_all add: set_foldl_set_add distinct_foldl_set_add)
  show ?thesis
    using flight launch(1) fresh unfolding flight_inv_def launchReady_simps fibers
    by (auto simp: Int_Un_distrib Int_Un_distrib2 Int_commute)
qed

lemma needs_inv_launch:
  assumes inv: "sched_inv input j new ctx" and ids: "distinct (map wsn_id (si_nodes input))"
  shows "needs_inv input new (launchReady input ctx)"
proof -
  have nodes: "ss_nodes (sc_state ctx) = orderedNodes (si_nodes input)"
    and needs: "needs_inv input new ctx"
    using inv by (simp_all add: sched_inv_def flight_inv_def)
  have "\<forall>needId \<in> set (wsn_needs node).
      need_met (Some (si_shouldContinue input)) (ss_completed (sc_state ctx)) needId"
    if node: "node \<in> set (si_nodes input)" "wsn_id node \<in> set (launch_ids input (sc_state ctx))" for node
  proof -
    obtain node' where ready: "ready_node input (sc_state ctx) node'" "wsn_id node' = wsn_id node"
      using sched_inv_launch_ids(2) [OF inv ids node(2)] by blast
    then have "node' \<in> set (si_nodes input)" by (simp add: ready_node_def nodes)
    then have "node' = node" using ready(2) ids node(1) by (metis distinct_map inj_onD)
    then show ?thesis using ready(1) by (simp add: ready_node_def)
  qed
  then show ?thesis using needs unfolding needs_inv_def launchReady_simps by auto
qed

lemma caps_inv_launch:
  assumes inv: "sched_inv input j new ctx" and ids: "distinct (map wsn_id (si_nodes input))"
  shows "caps_inv input (launchReady input ctx)"
proof -
  have nodes: "ss_nodes (sc_state ctx) = orderedNodes (si_nodes input)" and caps: "caps_inv input ctx"
    using inv by (simp_all add: sched_inv_def flight_inv_def)
  then show ?thesis
    using launch_ids_spec(2,3) [of input "sc_state ctx"] sched_inv_launch_ids(3) [OF inv ids]
    by (auto simp: caps_inv_def)
qed

lemma blocking_inv_launch:
  assumes inv: "sched_inv input j new ctx" and ids: "distinct (map wsn_id (si_nodes input))"
  shows "blocking_inv input new (launchReady input ctx)"
proof -
  let ?ids = "launch_ids input (sc_state ctx)"
  have nodes: "ss_nodes (sc_state ctx) = orderedNodes (si_nodes input)" and blocking: "blocking_inv input new ctx"
    using inv by (simp_all add: sched_inv_def flight_inv_def)
  note launch = sched_inv_launch_ids(2) [OF inv ids]
  have fresh: "set (ss_blocked (sc_state ctx)) \<inter> set ?ids = {}"
    using launch by (fastforce simp: ready_node_def)
  have stop: "?ids = []" if "si_failFast input" "first_blocking input new \<noteq> None"
  proof -
    have all: "node_ids input \<subseteq> set (ss_blocked (sc_state ctx)) \<union> nr_nodeId ` set (ss_completed (sc_state ctx))"
      using blocking that by (simp add: blocking_inv_def)
    have "set ?ids = {}"
    proof (rule equals0I)
      fix nodeId assume "nodeId \<in> set ?ids"
      from launch [OF this] show False using all nodes by (auto simp: ready_node_def)
    qed
    then show ?thesis by simp
  qed
  then show ?thesis using blocking fresh unfolding blocking_inv_def launchReady_simps by auto
qed

lemma sched_inv_launch:
  assumes "sched_inv input j new ctx" "distinct (map wsn_id (si_nodes input))"
  shows "sched_inv input j new (launchReady input ctx)"
  unfolding sched_inv_def
  using flight_inv_launch [OF assms] needs_inv_launch [OF assms] caps_inv_launch [OF assms]
    blocking_inv_launch [OF assms] by blast


text \<open>Completing a node in flight keeps the invariant.\<close>

lemma complete_node_simps [simp]:
  "sc_fibers (complete_node input ctx r) = removeAll (nr_nodeId r) (sc_fibers ctx)"
  "running_of (complete_node input ctx r) = filter (\<lambda>i. i \<noteq> nr_nodeId r) (running_of ctx)"
  "ss_completed (sc_state (complete_node input ctx r)) = ss_completed (sc_state ctx) @ [r]"
  "ss_nodes (sc_state (complete_node input ctx r)) = ss_nodes (sc_state ctx)"
  "ss_blocked (sc_state (complete_node input ctx r)) = ss_blocked (sc_state ctx)"
  "sc_journal (complete_node input ctx r) = recordToJournal input r (sc_journal ctx)"
  "sc_calls (complete_node input ctx r) = sc_calls ctx"
  "sc_failure (complete_node input ctx r) = sc_failure ctx"
  by (simp_all add: complete_node_def)

lemma applyCompletion_simps [simp]:
  "sc_fibers (applyCompletion input ctx r) = removeAll (nr_nodeId r) (sc_fibers ctx)"
  "running_of (applyCompletion input ctx r) = filter (\<lambda>i. i \<noteq> nr_nodeId r) (running_of ctx)"
  "ss_completed (sc_state (applyCompletion input ctx r)) = ss_completed (sc_state ctx) @ [r]"
  "ss_nodes (sc_state (applyCompletion input ctx r)) = ss_nodes (sc_state ctx)"
  "sc_journal (applyCompletion input ctx r) = recordToJournal input r (sc_journal ctx)"
  "marked_ids (sc_calls (applyCompletion input ctx r)) = marked_ids (sc_calls ctx)"
  "sc_failure (applyCompletion input ctx r) =
     (if isBlockingFailure input r then Some (or_else (sc_failure ctx) (nodeRuntimeFailure r)) else sc_failure ctx)"
  by (simp_all add: applyCompletion_def Let_def applyFailFastSkip_def)

lemma applyCompletion_blocked:
  "set (ss_blocked (sc_state (applyCompletion input ctx r))) = set (ss_blocked (sc_state ctx)) \<union>
     (if \<not> isBlockingFailure input r then {}
      else if si_failFast input then set (unstartedNodeIds (sc_state (complete_node input ctx r)))
      else set (unstartedBlockingDescendants (nr_nodeId r) (sc_state (complete_node input ctx r))))"
proof -
  have st: "sc_state (x\<lparr>sc_failure := y\<rparr>) = sc_state x" for x :: "'a scheduler_context" and y by simp
  show ?thesis by (simp add: applyCompletion_def Let_def applyFailFastSkip_def)
qed

lemma find_append_Some: "List.find P xs = Some x \<Longrightarrow> List.find P (xs @ ys) = Some x"
  by (induction xs) (auto split: if_splits)

lemma need_met_append:
  "need_met f completed needId \<Longrightarrow> need_met f (completed @ rest) needId"
  by (auto simp: need_met_def result_of_def find_append_Some split: option.splits)

lemma find_append_singleton:
  "List.find P (xs @ [x]) =
     (case List.find P xs of None \<Rightarrow> (if P x then Some x else None) | Some y \<Rightarrow> Some y)"
  by (induction xs) auto

lemma flight_facts:
  assumes inv: "sched_inv input j new ctx" and r: "nr_nodeId r \<in> set (sc_fibers ctx)"
  shows "ss_nodes (sc_state ctx) = orderedNodes (si_nodes input)"
    "ss_completed (sc_state ctx) = resumeFromJournal input j @ new"
    "nr_nodeId r \<in> set (running_of ctx)" "nr_nodeId r \<in> node_ids input"
    "nr_nodeId r \<notin> nr_nodeId ` set (ss_completed (sc_state ctx))"
  using inv r unfolding sched_inv_def flight_inv_def by auto

lemma flight_inv_complete:
  assumes inv: "sched_inv input j new ctx" and r: "nr_nodeId r \<in> set (sc_fibers ctx)"
  shows "flight_inv input j (new @ [r]) (applyCompletion input ctx r)"
proof -
  have flight: "flight_inv input j new ctx" using inv by (simp add: sched_inv_def)
  then show ?thesis
    using flight_facts [OF assms] unfolding flight_inv_def applyCompletion_simps
    by (auto simp: image_iff distinct_removeAll)
qed

lemma needs_inv_complete:
  assumes inv: "sched_inv input j new ctx" and r: "nr_nodeId r \<in> set (sc_fibers ctx)"
  shows "needs_inv input (new @ [r]) (applyCompletion input ctx r)"
  using inv flight_facts(3) [OF assms] unfolding sched_inv_def needs_inv_def applyCompletion_simps
  by (auto intro!: need_met_append)

lemma category_load_filter: "category_load f (filter P xs) c \<le> category_load f xs c"
  by (induction xs) auto

lemma caps_inv_complete:
  assumes "sched_inv input j new ctx"
  shows "caps_inv input (applyCompletion input ctx r)"
proof -
  have caps: "caps_inv input ctx" using assms by (simp add: sched_inv_def)
  then show ?thesis
    unfolding caps_inv_def caps_ok_def applyCompletion_simps
    by (meson category_load_filter le_trans length_filter_le)
qed


text \<open>Blocking.\<close>

lemma descendants_loop_sound:
  assumes "\<forall>d \<in> set queue. (a, d) \<in> (dependent_rel nodes)\<^sup>+" "\<forall>d \<in> set ds. (a, d) \<in> (dependent_rel nodes)\<^sup>+"
  shows "\<forall>d \<in> set (descendants_loop nodes ds queue). (a, d) \<in> (dependent_rel nodes)\<^sup>+"
  using assms
proof (induction nodes ds queue rule: descendants_loop.induct)
  case (2 nodes ds d queue)
  show ?case
  proof (cases "d \<in> set ds")
    case True
    then show ?thesis using 2 by simp
  next
    case False
    have queue: "\<forall>e \<in> set (queue @ directDependents d nodes). (a, e) \<in> (dependent_rel nodes)\<^sup>+"
      using "2.prems"(1) by (auto simp: dependent_rel_def intro: trancl_into_trancl)
    have seen: "\<forall>e \<in> set (set_add ds d). (a, e) \<in> (dependent_rel nodes)\<^sup>+"
      using "2.prems" by simp
    have "descendants_loop nodes ds (d # queue) =
        descendants_loop nodes (set_add ds d) (queue @ directDependents d nodes)"
      using False by simp
    then show ?thesis using "2.IH"(2) [OF False queue seen] by argo
  qed
qed simp

lemma unstartedBlockingDescendants_sound:
  assumes "d \<in> set (unstartedBlockingDescendants nodeId st)"
  shows "(nodeId, d) \<in> (dependent_rel (ss_nodes st))\<^sup>+" "d \<notin> settledNodeIds st"
proof -
  have "\<forall>d \<in> set (directDependents nodeId (ss_nodes st)). (nodeId, d) \<in> (dependent_rel (ss_nodes st))\<^sup>+"
    by (auto simp: dependent_rel_def)
  then show "(nodeId, d) \<in> (dependent_rel (ss_nodes st))\<^sup>+"
    using assms descendants_loop_sound [of "directDependents nodeId (ss_nodes st)" nodeId "ss_nodes st" "[]"]
    by (auto simp: unstartedBlockingDescendants_def Let_def)
  show "d \<notin> settledNodeIds st"
    using assms by (auto simp: unstartedBlockingDescendants_def Let_def unstartedNodeIds_def)
qed

lemma unstartedNodeIds_settled:
  "set (unstartedNodeIds st) = wsn_id ` set (ss_nodes st) - settledNodeIds st"
  by (auto simp: unstartedNodeIds_def)

lemma settledNodeIds_complete:
  "settledNodeIds (sc_state (complete_node input ctx r)) =
     nr_nodeId ` set (ss_completed (sc_state ctx)) \<union> {nr_nodeId r} \<union> set (running_of ctx)"
  by (auto simp: settledNodeIds_def)

lemma failFast_running:
  assumes "si_failFast input" "caps_inv input ctx" "n \<in> set (running_of ctx)" "distinct (running_of ctx)"
  shows "set (running_of ctx) = {n}"
proof -
  have "length (running_of ctx) \<le> 1" using assms(1,2) by (simp add: caps_inv_def node_limit_def)
  then show ?thesis using assms(3) by (cases "running_of ctx") auto
qed

lemma blocked_not_running_complete:
  assumes inv: "sched_inv input j new ctx" and r: "nr_nodeId r \<in> set (sc_fibers ctx)"
  shows "set (ss_blocked (sc_state (applyCompletion input ctx r))) \<inter>
    set (running_of (applyCompletion input ctx r)) = {}"
proof -
  have "set (ss_blocked (sc_state ctx)) \<inter> set (running_of ctx) = {}"
    using inv by (simp add: sched_inv_def blocking_inv_def)
  moreover have "set (unstartedBlockingDescendants (nr_nodeId r) (sc_state (complete_node input ctx r))) \<inter>
      settledNodeIds (sc_state (complete_node input ctx r)) = {}"
    using unstartedBlockingDescendants_sound(2) by blast
  moreover have "set (running_of ctx) \<subseteq> settledNodeIds (sc_state (complete_node input ctx r))"
    unfolding settledNodeIds_complete by blast
  ultimately show ?thesis
    unfolding applyCompletion_blocked unstartedNodeIds_settled applyCompletion_simps by auto
qed

lemma blocking_inv_complete:
  assumes inv: "sched_inv input j new ctx" and r: "nr_nodeId r \<in> set (sc_fibers ctx)"
  shows "blocking_inv input (new @ [r]) (applyCompletion input ctx r)"
proof -
  let ?ctx = "applyCompletion input ctx r" and ?st = "sc_state (complete_node input ctx r)"
  let ?rel = "dependent_rel (orderedNodes (si_nodes input))"
  note facts = flight_facts [OF assms]
  have flight: "flight_inv input j new ctx" and caps: "caps_inv input ctx" and blk: "blocking_inv input new ctx"
    using inv by (simp_all add: sched_inv_def)
  have nodes: "ss_nodes ?st = orderedNodes (si_nodes input)" using facts(1) by simp
  have failure: "sc_failure ?ctx = map_option nodeRuntimeFailure (first_blocking input (new @ [r]))"
    using blk by (auto simp: blocking_inv_def find_append_singleton split: option.splits)
  have none: "ss_blocked (sc_state ?ctx) = []" if "first_blocking input (new @ [r]) = None"
  proof -
    have "first_blocking input new = None" "\<not> isBlockingFailure input r"
      using that by (auto simp: find_append_singleton split: option.splits if_splits)
    then have "set (ss_blocked (sc_state ?ctx)) = {}"
      using blk unfolding applyCompletion_blocked blocking_inv_def by simp
    then show ?thesis by simp
  qed
  have stop: "running_of ?ctx = [] \<and>
      node_ids input \<subseteq> set (ss_blocked (sc_state ?ctx)) \<union> nr_nodeId ` set (ss_completed (sc_state ?ctx))"
    if ff: "si_failFast input" and some: "first_blocking input (new @ [r]) \<noteq> None"
  proof (cases "first_blocking input new")
    case (Some x)
    then have "running_of ctx = []" using blk ff by (simp add: blocking_inv_def)
    then show ?thesis using facts(3) by simp
  next
    case None
    then have b: "isBlockingFailure input r"
      using some by (auto simp: find_append_singleton split: if_splits)
    have only: "set (running_of ctx) = {nr_nodeId r}"
      using failFast_running [OF ff caps facts(3)] flight by (simp add: flight_inv_def)
    then have "running_of ?ctx = []" by (simp add: filter_empty_conv)
    moreover have "node_ids input \<subseteq> set (ss_blocked (sc_state ?ctx)) \<union> nr_nodeId ` set (ss_completed (sc_state ?ctx))"
      using b ff only unfolding applyCompletion_blocked unstartedNodeIds_settled settledNodeIds_complete nodes
      by auto
    ultimately show ?thesis by blast
  qed
  have reach: "\<exists>x \<in> set (new @ [r]). isBlockingFailure input x \<and> (nr_nodeId x, b) \<in> ?rel\<^sup>+"
    if ff: "\<not> si_failFast input" and b: "b \<in> set (ss_blocked (sc_state ?ctx))" for b
  proof (cases "b \<in> set (ss_blocked (sc_state ctx))")
    case True
    then obtain x where "x \<in> set new" "isBlockingFailure input x" "(nr_nodeId x, b) \<in> ?rel\<^sup>+"
      using blk ff unfolding blocking_inv_def by blast
    then show ?thesis by auto
  next
    case False
    then have "isBlockingFailure input r" "b \<in> set (unstartedBlockingDescendants (nr_nodeId r) ?st)"
      using b ff unfolding applyCompletion_blocked by (auto split: if_splits)
    then show ?thesis
      using unstartedBlockingDescendants_sound(1) [of b "nr_nodeId r" ?st] nodes by auto
  qed
  show ?thesis
    unfolding blocking_inv_def
    using failure blocked_not_running_complete [OF assms] none stop reach by blast
qed

lemma sched_inv_complete:
  assumes "sched_inv input j new ctx" "nr_nodeId r \<in> set (sc_fibers ctx)"
  shows "sched_inv input j (new @ [r]) (applyCompletion input ctx r)"
  unfolding sched_inv_def
  using flight_inv_complete [OF assms] needs_inv_complete [OF assms] caps_inv_complete [OF assms(1)]
    blocking_inv_complete [OF assms] by blast

end
