(* ===== verification/SchedulerRuns.thy ===== *)
theory SchedulerRuns
  imports SchedulerSafety
begin

text \<open>
  Runs of the scheduler: the step relation of the ticks, what holds in every reachable context,
  that every run ends within one tick more than there are nodes, and what a run that drains has done.
\<close>

subsection \<open>The step relation\<close>

text \<open>
  \<open>answers n\<close> are the outcomes node \<open>n\<close> may report. A tick takes an outcome of some node in flight.
\<close>

definition admissible :: "(string \<Rightarrow> node_outcome set) \<Rightarrow> (string list \<Rightarrow> node_outcome) \<Rightarrow> bool" where
  "admissible answers takeOutcome \<longleftrightarrow>
     (\<forall>fibers. fibers \<noteq> [] \<longrightarrow> (\<exists>n \<in> set fibers. takeOutcome fibers \<in> answers n))"

text \<open>A node's runner reports under the node's own id, as \<open>executePlannedNode\<close> does.\<close>

definition answers_ok :: "(string \<Rightarrow> node_outcome set) \<Rightarrow> bool" where
  "answers_ok answers \<longleftrightarrow> (\<forall>n r. NodeOk r \<in> answers n \<longrightarrow> nr_nodeId r = n)"

inductive sched_step ::
  "'j scheduler_input \<Rightarrow> (string \<Rightarrow> node_outcome set) \<Rightarrow> 'j scheduler_context \<Rightarrow> 'j scheduler_context \<Rightarrow> bool"
  for input answers where
  tick: "admissible answers takeOutcome \<Longrightarrow> schedulerTick input False takeOutcome ctx = Continue ctx' \<Longrightarrow>
    sched_step input answers ctx ctx'"

inductive_cases sched_stepE: "sched_step input answers ctx ctx'"

definition sched_reachable ::
  "'j scheduler_input \<Rightarrow> (string \<Rightarrow> node_outcome set) \<Rightarrow> 'j \<Rightarrow> 'j scheduler_context \<Rightarrow> bool" where
  "sched_reachable input answers j ctx \<longleftrightarrow> (sched_step input answers)\<^sup>*\<^sup>* (initial_context input j) ctx"

lemma schedulerTick_Continue:
  assumes "schedulerTick input c takeOutcome ctx = Continue ctx'"
  obtains r where "sc_fibers (launchReady input ctx) \<noteq> []"
    "takeOutcome (sc_fibers (launchReady input ctx)) = NodeOk r"
    "ctx' = applyCompletion input (launchReady input ctx) r" "\<not> c"
  using assms
  by (auto simp: schedulerTick_def Let_def applyOutcome_def split: if_splits node_outcome.splits)

lemma sched_inv_tick:
  assumes inv: "sched_inv input j new ctx" and ids: "distinct (map wsn_id (si_nodes input))"
    and ok: "answers_ok answers" "admissible answers takeOutcome"
    and tick: "schedulerTick input c takeOutcome ctx = Continue ctx'"
  shows "\<exists>r. sched_inv input j (new @ [r]) ctx'"
proof -
  obtain r where r: "sc_fibers (launchReady input ctx) \<noteq> []"
    "takeOutcome (sc_fibers (launchReady input ctx)) = NodeOk r"
    "ctx' = applyCompletion input (launchReady input ctx) r"
    using tick by (rule schedulerTick_Continue)
  then obtain n where "n \<in> set (sc_fibers (launchReady input ctx))" "NodeOk r \<in> answers n"
    using ok(2) unfolding admissible_def by metis
  then have "nr_nodeId r \<in> set (sc_fibers (launchReady input ctx))"
    using ok(1) by (auto simp: answers_ok_def simp del: launchReady_simps)
  then show ?thesis
    using sched_inv_complete [OF sched_inv_launch [OF inv ids]] r(3) by blast
qed

lemma sched_reachable_inv:
  assumes "sched_reachable input answers j ctx" "distinct (map wsn_id (si_nodes input))" "answers_ok answers"
  shows "\<exists>new. sched_inv input j new ctx"
  using assms(1) unfolding sched_reachable_def
proof (induction rule: rtranclp_induct)
  case base
  show ?case by (rule exI, rule sched_inv_initial)
next
  case (step ctx ctx')
  then obtain new where inv: "sched_inv input j new ctx" by blast
  from step.hyps(2) show ?case
    by (rule sched_stepE) (use sched_inv_tick [OF inv assms(2,3)] in blast)
qed

lemma schedulerTick_Finished:
  "schedulerTick input c takeOutcome ctx = Finished result \<Longrightarrow>
     (c \<and> result = cancelledResult (sc_state ctx)) \<or>
     (\<not> c \<and> sc_fibers (launchReady input ctx) = [] \<and>
        result = terminalResult (sc_state (launchReady input ctx)) (sc_failure (launchReady input ctx))) \<or>
     (\<not> c \<and> (\<exists>reason. result = nodeErrorResult (sc_state (launchReady input ctx)) reason))"
  by (auto simp: schedulerTick_def Let_def applyOutcome_def split: if_splits node_outcome.splits)

subsection \<open>Ending\<close>

text \<open>The nodes that have not completed yet, the measure of the loop.\<close>

definition uncompleted :: "'j scheduler_input \<Rightarrow> 'j scheduler_context \<Rightarrow> string set" where
  "uncompleted input ctx = node_ids input - nr_nodeId ` set (ss_completed (sc_state ctx))"

lemma uncompleted_tick:
  assumes inv: "sched_inv input j new ctx" and ids: "distinct (map wsn_id (si_nodes input))"
    and ok: "answers_ok answers" "admissible answers takeOutcome"
    and tick: "schedulerTick input c takeOutcome ctx = Continue ctx'"
  shows "card (uncompleted input ctx') < card (uncompleted input ctx)"
proof -
  obtain r where r: "sc_fibers (launchReady input ctx) \<noteq> []"
    "takeOutcome (sc_fibers (launchReady input ctx)) = NodeOk r"
    "ctx' = applyCompletion input (launchReady input ctx) r"
    using tick by (rule schedulerTick_Continue)
  then obtain n where "n \<in> set (sc_fibers (launchReady input ctx))" "NodeOk r \<in> answers n"
    using ok(2) unfolding admissible_def by metis
  then have "nr_nodeId r \<in> set (sc_fibers (launchReady input ctx))"
    using ok(1) by (auto simp: answers_ok_def simp del: launchReady_simps)
  note facts = flight_facts [OF sched_inv_launch [OF inv ids] this]
  have "uncompleted input ctx' = uncompleted input ctx - {nr_nodeId r}"
    using r(3) by (auto simp: uncompleted_def)
  moreover have "nr_nodeId r \<in> uncompleted input ctx"
    using facts(4,5) by (auto simp: uncompleted_def)
  moreover have "finite (uncompleted input ctx)" by (simp add: uncompleted_def)
  ultimately show ?thesis by (metis card_Diff1_less)
qed

definition env_ok :: "(string \<Rightarrow> node_outcome set) \<Rightarrow> scheduler_env \<Rightarrow> bool" where
  "env_ok answers env \<longleftrightarrow> (\<forall>k. admissible answers (snd (env k)))"

text \<open>How a run ends: the last context, reachable, and the tick that finishes.\<close>

lemma schedulerLoop_ends:
  assumes "sched_inv input j new ctx" and ids: "distinct (map wsn_id (si_nodes input))"
    and ok: "answers_ok answers" "env_ok answers env"
    and "card (uncompleted input ctx) < fuel"
  shows "\<exists>k' ctx' new' result. schedulerLoop fuel input env k ctx = Some result
    \<and> sched_inv input j new' ctx'
    \<and> schedulerTick input (fst (env k')) (snd (env k')) ctx' = Finished result"
  using assms(1,5)
proof (induction fuel arbitrary: k ctx new)
  case (Suc fuel)
  show ?case
  proof (cases "schedulerTick input (fst (env k)) (snd (env k)) ctx")
    case (Finished result)
    then have "schedulerLoop (Suc fuel) input env k ctx = Some result" by simp
    then show ?thesis using Finished Suc.prems(1) by blast
  next
    case (Continue ctx')
    have adm: "admissible answers (snd (env k))" using ok(2) by (simp add: env_ok_def)
    obtain r where inv': "sched_inv input j (new @ [r]) ctx'"
      using sched_inv_tick [OF Suc.prems(1) ids ok(1) adm Continue] by blast
    have "card (uncompleted input ctx') < fuel"
      using uncompleted_tick [OF Suc.prems(1) ids ok(1) adm Continue] Suc.prems(2) by simp
    from Suc.IH [OF inv' this, of "Suc k"] show ?thesis using Continue by simp
  qed
qed simp

lemma runWorkflowScheduler_ends:
  assumes "distinct (map wsn_id (si_nodes input))" "answers_ok answers" "env_ok answers env"
    and "length (si_nodes input) < fuel"
  shows "\<exists>k' ctx' new' result. runWorkflowScheduler fuel input j env = Some result
    \<and> sched_inv input j new' ctx'
    \<and> schedulerTick input (fst (env k')) (snd (env k')) ctx' = Finished result"
proof -
  have "card (uncompleted input (initial_context input j)) \<le> card (node_ids input)"
    by (intro card_mono) (auto simp: uncompleted_def)
  also have "\<dots> \<le> length (si_nodes input)" by (metis card_length length_map set_map)
  finally have "card (uncompleted input (initial_context input j)) < fuel" using assms(4) by simp
  then show ?thesis
    unfolding runWorkflowScheduler_def by (rule schedulerLoop_ends [OF sched_inv_initial assms(1-3)])
qed

subsection \<open>What a drained run has done\<close>

text \<open>
  A schedule that can make progress: the needs of every node are declared and acyclic, at least
  one node may run, every category may run one, and only a failed result can stop the run.
\<close>

definition schedule_ok :: "'j scheduler_input \<Rightarrow> bool" where
  "schedule_ok input \<longleftrightarrow>
     distinct (map wsn_id (si_nodes input)) \<and>
     (\<forall>node \<in> set (si_nodes input). set (wsn_needs node) \<subseteq> node_ids input) \<and>
     acyclic {(d, wsn_id node) | d node. node \<in> set (si_nodes input) \<and> d \<in> set (wsn_needs node)} \<and>
     (\<forall>m. si_maxParallelNodes input = Some m \<longrightarrow> 0 < m) \<and>
     (\<forall>fanOut c. si_fanOutWidth input = Some fanOut \<longrightarrow> 0 < categoryCap c fanOut) \<and>
     (\<forall>r. nr_status r = ResultPassed \<longrightarrow> si_shouldContinue input r)"

text \<open>What the journal's resume seed promises: only passed results.\<close>

definition resume_ok :: "'j scheduler_input \<Rightarrow> 'j \<Rightarrow> bool" where
  "resume_ok input j \<longleftrightarrow> (\<forall>r \<in> set (resumeFromJournal input j). nr_status r = ResultPassed)"

lemma capped_loop_keeps:
  "set selected \<subseteq> set (capped_loop fanOut categoryOf capacity ready counts selected)"
proof (induction ready arbitrary: counts selected)
  case (Cons n ready)
  obtain ok counts' where "claimCategorySlot fanOut counts (categoryOf n) = (ok, counts')"
    by (cases "claimCategorySlot fanOut counts (categoryOf n)")
  then show ?case
    using Cons.IH [of selected counts'] Cons.IH [of "selected @ [n]" counts'] by (cases ok) auto
qed simp

lemma capped_loop_first:
  assumes "0 < capacity" "\<forall>c. 0 < categoryCap c fanOut" "\<forall>c. count_of counts c = 0"
  shows "capped_loop fanOut categoryOf capacity (n # ready) counts [] \<noteq> []"
proof -
  have "fst (claimCategorySlot fanOut counts (categoryOf n))"
    using assms by (cases "categoryOf n")
      (simp_all add: claimCategorySlot_def claimNamedCategorySlot_def Let_def)
  then obtain counts' where "claimCategorySlot fanOut counts (categoryOf n) = (True, counts')"
    by (metis prod.collapse)
  then have "capped_loop fanOut categoryOf capacity (n # ready) counts [] =
      capped_loop fanOut categoryOf capacity ready counts' [n]"
    using assms(1) by simp
  moreover have "n \<in> set (capped_loop fanOut categoryOf capacity ready counts' [n])"
    using capped_loop_keeps [of "[n]" fanOut categoryOf capacity ready counts'] by simp
  ultimately show ?thesis by (metis list.set(1) empty_iff)
qed

lemma launch_ids_nonempty:
  assumes ok: "schedule_ok input" and nodes: "ss_nodes st = orderedNodes (si_nodes input)"
    and idle: "ss_running st = []" and ready: "readyNodeIds input st \<noteq> []"
  shows "launch_ids input st \<noteq> []"
proof -
  have "si_nodes input \<noteq> []"
    using ready by (auto simp: readyNodeIds_def computeReadyNodeIds_def Let_def nodes orderedNodes_def)
  then have cap: "0 < workflowNodeCapacity input st"
    using ok idle nodes by (cases "si_maxParallelNodes input")
      (simp_all add: workflowNodeCapacity_def node_limit_def schedule_ok_def)
  obtain n rest where r: "readyNodeIds input st = n # rest" using ready by (cases "readyNodeIds input st") auto
  show ?thesis
  proof (cases "si_fanOutWidth input")
    case None
    then show ?thesis using cap r by (simp add: launch_ids_def selectLaunchableNodes_def)
  next
    case (Some fanOut)
    then have "\<forall>c. 0 < categoryCap c fanOut" using ok by (simp add: schedule_ok_def)
    moreover have "\<forall>c. count_of (categoryRunCounts (ss_running st) f) c = 0" for f
      by (simp add: idle categoryRunCounts_load)
    ultimately have "cappedSelection (readyNodeIds input st) (workflowNodeCapacity input st) st fanOut \<noteq> []"
      unfolding cappedSelection_def Let_def r using cap by (intro capped_loop_first) auto
    then show ?thesis using cap Some by (simp add: launch_ids_def selectLaunchableNodes_def)
  qed
qed

text \<open>
  When nothing is in flight after launching, every node that has not completed depends, through
  needs or declared dependents, on a blocking failure of this run, or the run stopped fail-fast.
\<close>

lemma dependent_rel_need:
  "node \<in> set nodes \<Longrightarrow> d \<in> set (wsn_needs node) \<Longrightarrow> (d, wsn_id node) \<in> dependent_rel nodes"
  by (auto simp: dependent_rel_def set_directDependents)

lemma need_met_None: "need_met f completed d \<longleftrightarrow>
    (\<exists>r. result_of completed d = Some r \<and> result_continues f r)"
  by (auto simp: need_met_def split: option.splits)

lemma result_of_Some: "result_of completed d = Some r \<Longrightarrow> r \<in> set completed \<and> nr_nodeId r = d"
  by (auto simp: result_of_def find_Some_iff)

lemma result_of_exists: "d \<in> nr_nodeId ` set completed \<Longrightarrow> \<exists>r. result_of completed d = Some r"
proof -
  assume "d \<in> nr_nodeId ` set completed"
  then have "result_of completed d \<noteq> None" by (auto simp: result_of_def find_None_iff)
  then show ?thesis by blast
qed

definition blocked_by :: "'j scheduler_input \<Rightarrow> node_result list \<Rightarrow> string \<Rightarrow> bool" where
  "blocked_by input new n \<longleftrightarrow> (\<exists>r \<in> set new. isBlockingFailure input r \<and>
     (nr_nodeId r, n) \<in> (dependent_rel (orderedNodes (si_nodes input)))\<^sup>+)"

lemma blocked_by_dependent:
  "blocked_by input new d \<Longrightarrow> (d, n) \<in> dependent_rel (orderedNodes (si_nodes input)) \<Longrightarrow> blocked_by input new n"
  unfolding blocked_by_def by (meson trancl.trancl_into_trancl)

lemma idle_not_ready:
  assumes ok: "schedule_ok input" and inv: "sched_inv input j new ctx"
    and idle: "sc_fibers (launchReady input ctx) = []"
  shows "\<not> ready_node input (sc_state ctx) node"
proof
  assume "ready_node input (sc_state ctx) node"
  then have "readyNodeIds input (sc_state ctx) \<noteq> []"
    using set_readyNodeIds [of "wsn_id node" input "sc_state ctx"] by auto
  moreover have empty: "sc_fibers ctx = []" "launch_ids input (sc_state ctx) = []"
  proof -
    have "set (sc_fibers ctx) \<union> set (launch_ids input (sc_state ctx)) = {}"
      using idle by (metis launchReady_simps(4) list.set(1) set_foldl_set_add)
    then show "sc_fibers ctx = []" "launch_ids input (sc_state ctx) = []" by auto
  qed
  moreover have "ss_nodes (sc_state ctx) = orderedNodes (si_nodes input)" "running_of ctx = []"
    using inv empty(1) by (auto simp: sched_inv_def flight_inv_def)
  ultimately show False using launch_ids_nonempty [OF ok] by blast
qed

lemma drained_uncompleted:
  assumes ok: "schedule_ok input" and resume: "resume_ok input j" and inv: "sched_inv input j new ctx"
    and idle: "sc_fibers (launchReady input ctx) = []"
    and slow: "\<not> (si_failFast input \<and> first_blocking input new \<noteq> None)"
    and n: "n \<in> uncompleted input ctx"
  shows "blocked_by input new n"
proof -
  let ?edges = "{(d, wsn_id node) | d node. node \<in> set (si_nodes input) \<and> d \<in> set (wsn_needs node)}"
  have "finite ?edges"
  proof (rule finite_subset)
    show "?edges \<subseteq> (\<Union>(set ` wsn_needs ` set (si_nodes input))) \<times> node_ids input" by auto
  qed simp
  then have "wf ?edges" using ok by (intro finite_acyclic_wf) (simp_all add: schedule_ok_def)
  then show ?thesis using n
  proof (induction n rule: wf_induct_rule)
    case (less n)
    have nodes: "ss_nodes (sc_state ctx) = orderedNodes (si_nodes input)"
      and completed: "ss_completed (sc_state ctx) = resumeFromJournal input j @ new"
      and blk: "blocking_inv input new ctx"
      using inv by (auto simp: sched_inv_def flight_inv_def)
    have running: "running_of ctx = []"
    proof -
      have "set (sc_fibers ctx) = {}"
        using idle by (metis Un_empty launchReady_simps(4) list.set(1) set_foldl_set_add)
      then show ?thesis using inv by (auto simp: sched_inv_def flight_inv_def)
    qed
    obtain node where node: "node \<in> set (si_nodes input)" "wsn_id node = n"
      using less.prems by (auto simp: uncompleted_def)
    show ?case
    proof (cases "n \<in> set (ss_blocked (sc_state ctx))")
      case True
      then have "\<not> si_failFast input" using blk slow by (auto simp: blocking_inv_def)
      then show ?thesis using blk True unfolding blocking_inv_def blocked_by_def by blast
    next
      case False
      have "\<not> ready_node input (sc_state ctx) node" by (rule idle_not_ready [OF ok inv idle])
      then obtain d where d: "d \<in> set (wsn_needs node)"
        "\<not> need_met (Some (si_shouldContinue input)) (ss_completed (sc_state ctx)) d"
        using node less.prems False running nodes by (auto simp: ready_node_def uncompleted_def)
      have rel: "(d, n) \<in> dependent_rel (orderedNodes (si_nodes input))"
        using dependent_rel_need [of node "orderedNodes (si_nodes input)" d] node d(1) by simp
      show ?thesis
      proof (cases "d \<in> nr_nodeId ` set (ss_completed (sc_state ctx))")
        case True
        then obtain r where r: "result_of (ss_completed (sc_state ctx)) d = Some r"
          using result_of_exists by blast
        then have stop: "\<not> si_shouldContinue input r"
          using d(2) by (simp add: need_met_None result_continues_def)
        have member: "r \<in> set (resumeFromJournal input j @ new)" "nr_nodeId r = d"
          using result_of_Some [OF r] completed by auto
        have "nr_status r \<noteq> ResultPassed" using ok stop by (auto simp: schedule_ok_def simp del: result_status_not)
        then have "r \<in> set new" "isBlockingFailure input r"
          using member stop resume by (auto simp: resume_ok_def isBlockingFailure_def)
        then show ?thesis using member(2) rel unfolding blocked_by_def by blast
      next
        case False
        then have "d \<in> uncompleted input ctx"
          using ok node(1) d(1) by (auto simp: uncompleted_def schedule_ok_def)
        moreover have "(d, n) \<in> ?edges" using node d(1) by blast
        ultimately have "blocked_by input new d" using less.IH by blast
        then show ?thesis using rel by (rule blocked_by_dependent)
      qed
    qed
  qed
qed


subsection \<open>A run to apply the properties to\<close>

definition sample_node :: "string \<Rightarrow> nat \<Rightarrow> string list \<Rightarrow> schedule_node" where
  "sample_node n i needs =
     \<lparr>wsn_category = Some ''tests'', wsn_dependents = [], wsn_id = n, wsn_index = i, wsn_needs = needs\<rparr>"

definition sample_result :: "result_status \<Rightarrow> string \<Rightarrow> node_result" where
  "sample_result status n = \<lparr>nr_attempts = 1, nr_evidence = [], nr_exitCode = 0, nr_nodeId = n,
     nr_output = n, nr_status = status\<rparr>"

definition sample_input :: "bool \<Rightarrow> unit memory_store scheduler_input" where
  "sample_input failFast =
     \<lparr>si_failFast = failFast, si_fanOutWidth = Some \<lparr>fo_by_category = [(''tests'', 1)], fo_default = 2\<rparr>,
      si_journal = Some (buildRunJournal (memory_record ''now'') memory_resumeCompleted ''run''),
      si_maxParallelNodes = Some 2,
      si_nodes = [sample_node ''b'' 1 [''a''], sample_node ''a'' 0 []],
      si_shouldContinue = (\<lambda>r. nr_status r \<noteq> ResultFailed)\<rparr>"

definition sample_answers :: "result_status \<Rightarrow> string \<Rightarrow> node_outcome set" where
  "sample_answers status n = {NodeOk (sample_result status n)}"

definition sample_take :: "result_status \<Rightarrow> string list \<Rightarrow> node_outcome" where
  "sample_take status fibers = NodeOk (sample_result status (hd fibers))"

definition sample_env :: "result_status \<Rightarrow> scheduler_env" where
  "sample_env status k = (False, sample_take status)"

lemma sample_run_facts:
  "distinct (map wsn_id (si_nodes (sample_input failFast)))" "answers_ok (sample_answers status)"
  "admissible (sample_answers status) (sample_take status)" "env_ok (sample_answers status) (sample_env status)"
  "length (si_nodes (sample_input failFast)) < 3"
  by (auto simp: sample_input_def sample_node_def answers_ok_def sample_answers_def sample_result_def
      admissible_def sample_take_def env_ok_def sample_env_def intro: hd_in_set)

lemma sample_schedule_ok: "schedule_ok (sample_input failFast)"
proof -
  have union: "{(d, wsn_id node) | d node. node \<in> set nodes \<and> d \<in> set (wsn_needs node)} =
      (\<Union>node \<in> set nodes. (\<lambda>d. (d, wsn_id node)) ` set (wsn_needs node))" for nodes by auto
  have edges: "{(d, wsn_id node) | d node. node \<in> set (si_nodes (sample_input failFast)) \<and>
      d \<in> set (wsn_needs node)} = {(''a'', ''b'')}"
    unfolding union by (simp add: sample_input_def sample_node_def)
  have "acyclic {(''a'', ''b'')}" by (auto simp: acyclic_def dest: tranclD tranclD2)
  then show ?thesis unfolding schedule_ok_def edges
    by (auto simp: sample_input_def sample_node_def categoryCap_def or_else_def split: option.splits)
qed

definition sample_after_a :: "result_status \<Rightarrow> bool \<Rightarrow> unit memory_store scheduler_context" where
  "sample_after_a status failFast =
     (case schedulerTick (sample_input failFast) False (sample_take status)
             (initial_context (sample_input failFast) []) of
        Continue ctx \<Rightarrow> ctx | Finished r \<Rightarrow> initial_context (sample_input failFast) [])"

lemma sample_reachable: "sched_reachable (sample_input failFast) (sample_answers status) [] (sample_after_a status failFast)"
proof (cases "schedulerTick (sample_input failFast) False (sample_take status)
    (initial_context (sample_input failFast) [])")
  case (Finished r)
  then show ?thesis by (simp add: sample_after_a_def sched_reachable_def)
next
  case (Continue ctx)
  have "sched_step (sample_input failFast) (sample_answers status) (initial_context (sample_input failFast) []) ctx"
    using sample_run_facts(3) Continue by (rule sched_step.tick)
  then show ?thesis using Continue by (simp add: sample_after_a_def sched_reachable_def)
qed

subsection \<open>Properties of the scheduler\<close>

text \<open>
  C8: Every run ends: whatever the nodes answer and in whatever order they finish, the loop
  returns within one tick more than there are nodes.
\<close>

theorem scheduler_terminates:
  assumes "distinct (map wsn_id (si_nodes input))" "answers_ok answers" "env_ok answers env"
    and "length (si_nodes input) < fuel"
  shows "\<exists>result. runWorkflowScheduler fuel input j env = Some result"
  using runWorkflowScheduler_ends [OF assms, of j] by blast

lemma scheduler_terminates_witness:
  "\<exists>result. runWorkflowScheduler 3 (sample_input True) [] (sample_env ResultFailed) = Some result"
  by (rule scheduler_terminates [OF sample_run_facts(1,2,4,5)])

text \<open>
  C3: At every tick of every run, after launching: no node has been launched twice, none that
  the journal already had as passed is launched, nothing blocked is in flight, and every launched
  node's needs each have a completed result that lets the run go on.
\<close>

theorem scheduler_launches_safely:
  assumes "distinct (map wsn_id (si_nodes input))" "answers_ok answers"
    and "sched_reachable input answers j ctx"
    and "ctx' = launchReady input ctx"
  shows "distinct (marked_ids (sc_calls ctx'))
    \<and> set (marked_ids (sc_calls ctx')) \<inter> nr_nodeId ` set (resumeFromJournal input j) = {}
    \<and> set (ss_running (sc_state ctx')) \<inter> set (ss_blocked (sc_state ctx')) = {}
    \<and> (\<forall>node \<in> set (si_nodes input). wsn_id node \<in> set (marked_ids (sc_calls ctx')) \<longrightarrow>
         (\<forall>needId \<in> set (wsn_needs node).
            need_met (Some (si_shouldContinue input)) (ss_completed (sc_state ctx')) needId))"
proof -
  obtain new where "sched_inv input j new ctx"
    using sched_reachable_inv [OF assms(3,1,2)] by blast
  then have "sched_inv input j new ctx'" unfolding assms(4) by (rule sched_inv_launch [OF _ assms(1)])
  then have flight: "flight_inv input j new ctx'" and needs: "needs_inv input new ctx'"
    and blocking: "blocking_inv input new ctx'" by (simp_all add: sched_inv_def)
  have marked: "set (marked_ids (sc_calls ctx')) = set (running_of ctx') \<union> nr_nodeId ` set new"
    using flight by (simp add: flight_inv_def)
  have "set (marked_ids (sc_calls ctx')) \<inter> nr_nodeId ` set (resumeFromJournal input j) = {}"
    using flight unfolding marked flight_inv_def by auto
  moreover have "distinct (marked_ids (sc_calls ctx'))" using flight by (simp add: flight_inv_def)
  moreover have "set (running_of ctx') \<inter> set (ss_blocked (sc_state ctx')) = {}"
    using blocking unfolding blocking_inv_def by blast
  ultimately show ?thesis using needs unfolding needs_inv_def marked by blast
qed

lemma scheduler_launches_safely_witness:
  "distinct (marked_ids (sc_calls (launchReady (sample_input False) (sample_after_a ResultPassed False))))
   \<and> marked_ids (sc_calls (launchReady (sample_input False) (sample_after_a ResultPassed False))) = [''a'', ''b'']"
proof
  show "distinct (marked_ids (sc_calls (launchReady (sample_input False) (sample_after_a ResultPassed False))))"
    using scheduler_launches_safely [OF sample_run_facts(1,2) sample_reachable refl] by blast
  show "marked_ids (sc_calls (launchReady (sample_input False) (sample_after_a ResultPassed False))) = [''a'', ''b'']"
    by code_simp
qed

text \<open>
  At every tick of every run, after launching, the nodes in flight are at most the limit
  (one under fail-fast, else the maximum or the number of nodes), and at most the cap of each
  category carry that category.
\<close>

theorem scheduler_respects_caps:
  assumes "distinct (map wsn_id (si_nodes input))" "answers_ok answers"
    and "sched_reachable input answers j ctx"
    and "running = ss_running (sc_state (launchReady input ctx))"
  shows "length running \<le> (if si_failFast input then 1 else or_else (si_maxParallelNodes input) (length (si_nodes input)))
    \<and> (\<forall>fanOut category. si_fanOutWidth input = Some fanOut \<longrightarrow>
         length (filter (\<lambda>n. category_of (orderedNodes (si_nodes input)) n = Some category) running)
           \<le> categoryCap category fanOut)"
proof -
  obtain new where "sched_inv input j new ctx"
    using sched_reachable_inv [OF assms(3,1,2)] by blast
  then have "caps_inv input (launchReady input ctx)" by (rule caps_inv_launch [OF _ assms(1)])
  then show ?thesis
    unfolding caps_inv_def caps_ok_def category_load_def node_limit_def assms(4) by blast
qed

lemma scheduler_respects_caps_witness:
  "length (ss_running (sc_state (launchReady (sample_input False) (sample_after_a ResultPassed False)))) \<le> 2"
  using scheduler_respects_caps [OF sample_run_facts(1,2) sample_reachable [of False ResultPassed] refl]
  by (simp add: sample_input_def)

text \<open>
  C6: Under fail-fast, once a blocking failure has been folded in, the next tick launches
  nothing and ends the run with FAIL, reporting that failure.
\<close>

theorem fail_fast_stops:
  assumes "distinct (map wsn_id (si_nodes input))" "answers_ok answers"
    and "sched_reachable input answers j ctx"
    and "si_failFast input" "sc_failure ctx = Some failure"
  shows "schedulerTick input False takeOutcome ctx = Finished
    \<lparr>rr_completed = ss_completed (sc_state ctx), rr_failure = Some failure, rr_outcome = FAIL\<rparr>"
proof -
  obtain new where inv: "sched_inv input j new ctx"
    using sched_reachable_inv [OF assms(3,1,2)] by blast
  then have inv': "sched_inv input j new (launchReady input ctx)" by (rule sched_inv_launch [OF _ assms(1)])
  have "first_blocking input new \<noteq> None"
    using inv assms(5) by (auto simp: sched_inv_def blocking_inv_def)
  then have "running_of (launchReady input ctx) = []"
    using inv' assms(4) unfolding sched_inv_def blocking_inv_def by blast
  then have "sc_fibers (launchReady input ctx) = []"
    using inv' unfolding sched_inv_def flight_inv_def by (metis set_empty)
  then show ?thesis
    using assms(5) by (simp add: schedulerTick_def Let_def terminalResult_def del: launchReady_simps(4))
qed

lemma fail_fast_stops_witness:
  "schedulerTick (sample_input True) False (sample_take ResultPassed) (sample_after_a ResultFailed True) =
     Finished \<lparr>rr_completed = [sample_result ResultFailed ''a''],
       rr_failure = Some (nodeRuntimeFailure (sample_result ResultFailed ''a'')), rr_outcome = FAIL\<rparr>"
proof -
  have failure: "sc_failure (sample_after_a ResultFailed True) =
      Some (nodeRuntimeFailure (sample_result ResultFailed ''a''))" by code_simp
  have ff: "si_failFast (sample_input True)" by (simp add: sample_input_def)
  have "ss_completed (sc_state (sample_after_a ResultFailed True)) = [sample_result ResultFailed ''a'']"
    by code_simp
  then show ?thesis
    using fail_fast_stops [OF sample_run_facts(1,2) sample_reachable [of True ResultFailed] ff failure] by simp
qed


text \<open>Runs that are not cancelled and whose node runners never reject end by draining.\<close>

definition undisturbed :: "(string \<Rightarrow> node_outcome set) \<Rightarrow> scheduler_env \<Rightarrow> bool" where
  "undisturbed answers env \<longleftrightarrow> (\<forall>n reason. NodeError reason \<notin> answers n) \<and> (\<forall>k. \<not> fst (env k))"

lemma undisturbed_ends_drained:
  assumes "undisturbed answers env" "env_ok answers env"
    and "schedulerTick input (fst (env k)) (snd (env k)) ctx = Finished result"
  shows "sc_fibers (launchReady input ctx) = []"
    and "result = terminalResult (sc_state (launchReady input ctx)) (sc_failure (launchReady input ctx))"
proof -
  have taken: "\<exists>r. snd (env k) fibers = NodeOk r" if "fibers \<noteq> []" for fibers
    using assms(1,2) that unfolding undisturbed_def env_ok_def admissible_def by (metis node_outcome.exhaust)
  show empty: "sc_fibers (launchReady input ctx) = []"
  proof (rule ccontr)
    assume "sc_fibers (launchReady input ctx) \<noteq> []"
    then show False
      using assms(1,3) taken [of "sc_fibers (launchReady input ctx)"]
      by (auto simp: schedulerTick_def Let_def applyOutcome_def undisturbed_def simp del: launchReady_simps(4)
          split: if_splits)
  qed
  then show "result = terminalResult (sc_state (launchReady input ctx)) (sc_failure (launchReady input ctx))"
    using assms(1,3) by (auto simp: schedulerTick_def Let_def undisturbed_def simp del: launchReady_simps
        split: if_splits)
qed

lemma scheduler_run_facts:
  assumes "schedule_ok input" "resume_ok input j"
    and "answers_ok answers" "env_ok answers env" "undisturbed answers env"
    and "length (si_nodes input) < fuel"
  shows "\<exists>new result. runWorkflowScheduler fuel input j env = Some result
    \<and> rr_completed result = resumeFromJournal input j @ new
    \<and> distinct (map nr_nodeId new)
    \<and> nr_nodeId ` set new \<inter> nr_nodeId ` set (resumeFromJournal input j) = {}
    \<and> rr_outcome result = (if \<exists>r \<in> set new. isBlockingFailure input r then FAIL else PASS)
    \<and> rr_failure result = map_option nodeRuntimeFailure (List.find (isBlockingFailure input) new)
    \<and> (rr_outcome result = PASS \<longrightarrow> node_ids input \<subseteq> nr_nodeId ` set (rr_completed result))
    \<and> (\<not> si_failFast input \<longrightarrow>
         (\<forall>n \<in> node_ids input - nr_nodeId ` set (rr_completed result). blocked_by input new n))"
proof -
  have ids: "distinct (map wsn_id (si_nodes input))" using assms(1) by (simp add: schedule_ok_def)
  obtain k ctx new result where run: "runWorkflowScheduler fuel input j env = Some result"
    and inv: "sched_inv input j new ctx"
    and last: "schedulerTick input (fst (env k)) (snd (env k)) ctx = Finished result"
    using runWorkflowScheduler_ends [OF ids assms(3,4,6), of j] by blast
  note drained = undisturbed_ends_drained [OF assms(5,4) last]
  have facts: "rr_completed result = ss_completed (sc_state ctx)" "rr_failure result = sc_failure ctx"
    "rr_outcome result = (if sc_failure ctx = None then PASS else FAIL)"
    using drained(2) by (simp_all add: terminalResult_def)
  have flight: "flight_inv input j new ctx" and failure: "sc_failure ctx = map_option nodeRuntimeFailure (first_blocking input new)"
    using inv by (simp_all add: sched_inv_def blocking_inv_def)
  have find_None: "first_blocking input new = None \<longleftrightarrow> \<not> (\<exists>r \<in> set new. isBlockingFailure input r)"
    by (auto simp: find_None_iff)
  have uncompleted: "uncompleted input ctx = node_ids input - nr_nodeId ` set (rr_completed result)"
    by (simp add: uncompleted_def facts)
  have left: "blocked_by input new n"
    if "n \<in> node_ids input - nr_nodeId ` set (rr_completed result)"
      "\<not> (si_failFast input \<and> first_blocking input new \<noteq> None)" for n
    using drained_uncompleted [OF assms(1,2) inv drained(1) that(2)] that(1) uncompleted by blast
  have pass: "node_ids input \<subseteq> nr_nodeId ` set (rr_completed result)" if "rr_outcome result = PASS"
  proof -
    have none: "first_blocking input new = None" using that facts(3) failure by (auto split: if_splits)
    then have "\<not> blocked_by input new n" for n using find_None unfolding blocked_by_def by blast
    then show ?thesis using left none by blast
  qed
  have outcome: "rr_outcome result = (if \<exists>r \<in> set new. isBlockingFailure input r then FAIL else PASS)"
    unfolding facts(3) failure using find_None by simp
  have new: "rr_completed result = resumeFromJournal input j @ new" "distinct (map nr_nodeId new)"
    "nr_nodeId ` set new \<inter> nr_nodeId ` set (resumeFromJournal input j) = {}"
    using flight facts(1) by (simp_all add: flight_inv_def)
  have reported: "rr_failure result = map_option nodeRuntimeFailure (first_blocking input new)"
    using facts(2) failure by simp
  have left_over: "\<not> si_failFast input \<longrightarrow>
      (\<forall>n \<in> node_ids input - nr_nodeId ` set (rr_completed result). blocked_by input new n)"
    using left by blast
  have passed: "rr_outcome result = PASS \<longrightarrow> node_ids input \<subseteq> nr_nodeId ` set (rr_completed result)"
    using pass by blast
  show ?thesis
    by (intro exI [of _ new] exI [of _ result] conjI run new outcome reported passed left_over)
qed

text \<open>
  C4: A run that is not cancelled and whose runners do not reject completes each node at most
  once and none the journal had, reports FAIL exactly when some result is a blocking failure, with
  the first one as the failure, and PASS only when every node has completed. Unless it stopped
  fail-fast, a node it leaves uncompleted depends on a blocking failure.
\<close>

theorem scheduler_run_outcome:
  assumes "schedule_ok input" "resume_ok input j"
    and "answers_ok answers" "env_ok answers env" "undisturbed answers env"
    and "length (si_nodes input) < fuel"
  shows "\<exists>new result. runWorkflowScheduler fuel input j env = Some result
    \<and> rr_completed result = resumeFromJournal input j @ new
    \<and> distinct (map nr_nodeId new)
    \<and> nr_nodeId ` set new \<inter> nr_nodeId ` set (resumeFromJournal input j) = {}
    \<and> rr_outcome result = (if \<exists>r \<in> set new. isBlockingFailure input r then FAIL else PASS)
    \<and> rr_failure result = map_option nodeRuntimeFailure (List.find (isBlockingFailure input) new)
    \<and> (rr_outcome result = PASS \<longrightarrow> node_ids input \<subseteq> nr_nodeId ` set (rr_completed result))
    \<and> (\<not> si_failFast input \<longrightarrow>
         (\<forall>n \<in> node_ids input - nr_nodeId ` set (rr_completed result). blocked_by input new n))"
  by (rule scheduler_run_facts [OF assms])

lemma scheduler_run_outcome_witness:
  "\<exists>result. runWorkflowScheduler 3 (sample_input False) [] (sample_env ResultPassed) = Some result
     \<and> rr_outcome result = PASS \<and> {''a'', ''b''} \<subseteq> nr_nodeId ` set (rr_completed result)"
proof -
  have "resume_ok (sample_input False) []" by (simp add: resume_ok_def resumeFromJournal_def sample_input_def
        buildRunJournal_def memory_resumeCompleted_def passedResultsForRun_def)
  moreover have "undisturbed (sample_answers ResultPassed) (sample_env ResultPassed)"
    by (simp add: undisturbed_def sample_answers_def sample_env_def)
  ultimately obtain result where result:
    "runWorkflowScheduler 3 (sample_input False) [] (sample_env ResultPassed) = Some result"
    "rr_outcome result = PASS \<longrightarrow> node_ids (sample_input False) \<subseteq> nr_nodeId ` set (rr_completed result)"
    using scheduler_run_outcome [OF sample_schedule_ok _ sample_run_facts(2,4) _ sample_run_facts(5)] by blast
  have "map_option rr_outcome (runWorkflowScheduler 3 (sample_input False) [] (sample_env ResultPassed)) = Some PASS"
    by code_simp
  moreover have "node_ids (sample_input False) = {''a'', ''b''}" by (auto simp: sample_input_def sample_node_def)
  ultimately show ?thesis using result by simp
qed

subsection \<open>Resuming after a crash\<close>

text \<open>
  What a run has recorded when it is killed at any tick, for any journal that keeps the law of
  \<open>run_journal\<close>: the passed results of its context, resumed or new.
\<close>

context run_journal
begin

lemma resume_at_any_tick:
  assumes inv: "sched_inv input j new ctx" and seam: "si_journal input = Some journal" and ok: "journal_ok j"
  shows "set (resumeFromJournal input (sc_journal ctx)) =
    {r \<in> set (ss_completed (sc_state ctx)). nr_status r = ResultPassed}"
    and "journal_ok (sc_journal ctx)"
proof -
  have flight: "flight_inv input j new ctx" using inv by (simp add: sched_inv_def)
  have resume: "resumeFromJournal input x = rj_resumeCompleted journal x" for x
    by (simp add: resumeFromJournal_def seam)
  have "recordToJournal input = rj_record journal" by (simp add: recordToJournal_def seam fun_eq_iff)
  then have journal: "sc_journal ctx = fold (rj_record journal) new j"
    using flight by (simp add: flight_inv_def)
  have "distinct (map nr_nodeId new)"
    "nr_nodeId ` set new \<inter> nr_nodeId ` set (rj_resumeCompleted journal j) = {}"
    and completed: "ss_completed (sc_state ctx) = rj_resumeCompleted journal j @ new"
    using flight by (simp_all add: flight_inv_def resume)
  from resume_fold_record [OF ok this(1,2)] resume_passed [OF ok]
  show "set (resumeFromJournal input (sc_journal ctx)) =
    {r \<in> set (ss_completed (sc_state ctx)). nr_status r = ResultPassed}"
    by (auto simp: resume journal completed passedOnly_def)
  show "journal_ok (sc_journal ctx)" unfolding journal by (rule fold_record_ok [OF ok])
qed

end



text \<open>The same for the append-only journal, whatever lines it already holds.\<close>

theorem crash_resume_from_log:
  assumes "distinct (map wsn_id (si_nodes input))" "answers_ok answers"
    and "sched_reachable input answers lines ctx" and "si_journal input = Some fileRunJournal"
  shows "set (ss_completed (sc_state (initial_context input (sc_journal ctx)))) =
    {r \<in> set (ss_completed (sc_state ctx)). nr_status r = ResultPassed}"
proof -
  obtain new where inv: "sched_inv input lines new ctx"
    using sched_reachable_inv [OF assms(3,1,2)] by blast
  from file_journal.resume_at_any_tick(1) [OF inv assms(4) TrueI]
  show ?thesis by (simp add: initial_context_def initialSchedulerState_def)
qed

definition log_input :: "node_result list scheduler_input" where
  "log_input = \<lparr>si_failFast = False, si_fanOutWidth = None, si_journal = Some fileRunJournal,
     si_maxParallelNodes = None, si_nodes = [sample_node ''a'' 0 []],
     si_shouldContinue = (\<lambda>r. nr_status r \<noteq> ResultFailed)\<rparr>"

lemma crash_resume_from_log_witness:
  "set (ss_completed (sc_state (initial_context log_input [sample_result ResultPassed ''a'']))) =
     {sample_result ResultPassed ''a''}"
proof -
  let ?log = "[sample_result ResultPassed ''a'']"
  have ids: "distinct (map wsn_id (si_nodes log_input))" by (simp add: log_input_def)
  have "sched_reachable log_input (sample_answers ResultPassed) ?log (initial_context log_input ?log)"
    by (simp add: sched_reachable_def)
  then have "set (ss_completed (sc_state (initial_context log_input (sc_journal (initial_context log_input ?log))))) =
      {r \<in> set (ss_completed (sc_state (initial_context log_input ?log))). nr_status r = ResultPassed}"
    by (rule crash_resume_from_log [OF ids sample_run_facts(2)]) (simp add: log_input_def)
  moreover have "ss_completed (sc_state (initial_context log_input ?log)) = ?log"
    "sc_journal (initial_context log_input ?log) = ?log" by code_simp+
  moreover have "nr_status (sample_result ResultPassed ''a'') = ResultPassed" by (simp add: sample_result_def)
  ultimately show ?thesis by auto
qed

end
