(* ===== verification/NodeState.thy ===== *)
theory NodeState
  imports Contracts
begin

text \<open>
  The node state machine of \<^verbatim>\<open>src/runtime/node-state-tracker.ts\<close>: the events, the transition table
  (the statuses an event is allowed from, what it changes, the status after it) and the
  tracker. An illegal event is the \<open>Inl\<close> of a transition, the error the source throws.
\<close>

subsection \<open>Events and transitions\<close>

datatype node_event_body =
    READY
  | STARTED nat
  | START_HOOKS_FINISHED
  | SNAPSHOT_BEFORE_FINISHED
  | RUNNER_STARTED
  | RUNNER_FINISHED "string list" int string "bool option"
  | OUTPUT_RECORDED
  | SNAPSHOT_AFTER_FINISHED
  | GATES_STARTED
  | GATES_FINISHED "gate_result list"
  | SUCCESS_HOOKS_STARTED
  | RETRYING nat "string list" node_retry
  | PASSED node_result
  | FAILED runtime_failure node_result
  | CANCELLED_EVENT runtime_failure
  | SKIPPED string

record node_event =
  ne_at :: string
  ne_body :: node_event_body

datatype transition_error = IllegalNodeEvent node_event_body node_status

definition initialNodeExecutionState :: "string \<Rightarrow> node_execution_state" where
  "initialNodeExecutionState nodeId =
     \<lparr>ns_attempts = 0, ns_evidence = [], ns_exitCode = None, ns_failure = None, ns_finishedAt = None,
      ns_gates = [], ns_id = nodeId, ns_output = None, ns_retry = None, ns_sessionId = None,
      ns_startedAt = None, ns_status = PENDING_ST\<rparr>"

definition stateFromResult :: "node_execution_state \<Rightarrow> node_result \<Rightarrow> string \<Rightarrow> node_execution_state" where
  "stateFromResult st result time =
     st\<lparr>ns_attempts := nr_attempts result, ns_evidence := nr_evidence result,
        ns_exitCode := Some (nr_exitCode result), ns_finishedAt := Some time,
        ns_output := Some (nr_output result)\<rparr>"

fun allowedFrom :: "node_event_body \<Rightarrow> node_status list" where
  "allowedFrom (CANCELLED_EVENT f) = [RUNNING_ST, GATING_ST]"
| "allowedFrom (FAILED f r) = [RUNNING_ST, GATING_ST]"
| "allowedFrom (GATES_FINISHED gs) = [GATING_ST]"
| "allowedFrom GATES_STARTED = [RUNNING_ST]"
| "allowedFrom OUTPUT_RECORDED = [RUNNING_ST]"
| "allowedFrom (PASSED r) = [RUNNING_ST, GATING_ST]"
| "allowedFrom READY = [PENDING_ST]"
| "allowedFrom (RETRYING a e r) = [RUNNING_ST, GATING_ST]"
| "allowedFrom (RUNNER_FINISHED e c out t) = [RUNNING_ST]"
| "allowedFrom RUNNER_STARTED = [RUNNING_ST]"
| "allowedFrom (SKIPPED reason) = [PENDING_ST, READY_ST]"
| "allowedFrom SNAPSHOT_AFTER_FINISHED = [RUNNING_ST]"
| "allowedFrom SNAPSHOT_BEFORE_FINISHED = [RUNNING_ST]"
| "allowedFrom (STARTED a) = [READY_ST, RUNNING_ST]"
| "allowedFrom START_HOOKS_FINISHED = [RUNNING_ST]"
| "allowedFrom SUCCESS_HOOKS_STARTED = [GATING_ST]"

fun statusAfter :: "node_event_body \<Rightarrow> node_status" where
  "statusAfter (CANCELLED_EVENT f) = CANCELLED_ST"
| "statusAfter (FAILED f r) = FAILED_ST"
| "statusAfter (GATES_FINISHED gs) = GATING_ST"
| "statusAfter GATES_STARTED = GATING_ST"
| "statusAfter OUTPUT_RECORDED = RUNNING_ST"
| "statusAfter (PASSED r) = PASSED_ST"
| "statusAfter READY = READY_ST"
| "statusAfter (RETRYING a e r) = RUNNING_ST"
| "statusAfter (RUNNER_FINISHED e c out t) = RUNNING_ST"
| "statusAfter RUNNER_STARTED = RUNNING_ST"
| "statusAfter (SKIPPED reason) = SKIPPED_ST"
| "statusAfter SNAPSHOT_AFTER_FINISHED = RUNNING_ST"
| "statusAfter SNAPSHOT_BEFORE_FINISHED = RUNNING_ST"
| "statusAfter (STARTED a) = RUNNING_ST"
| "statusAfter START_HOOKS_FINISHED = RUNNING_ST"
| "statusAfter SUCCESS_HOOKS_STARTED = GATING_ST"

fun applyTransition :: "node_execution_state \<Rightarrow> string \<Rightarrow> node_event_body \<Rightarrow> node_execution_state" where
  "applyTransition st time (CANCELLED_EVENT failure) = st\<lparr>ns_failure := Some failure, ns_finishedAt := Some time\<rparr>"
| "applyTransition st time (FAILED failure result) = (stateFromResult st result time)\<lparr>ns_failure := Some failure\<rparr>"
| "applyTransition st time (GATES_FINISHED gates) = st\<lparr>ns_gates := gates\<rparr>"
| "applyTransition st time (PASSED result) = stateFromResult st result time"
| "applyTransition st time READY = st\<lparr>ns_startedAt := Some (or_else (ns_startedAt st) time)\<rparr>"
| "applyTransition st time (RETRYING attempt evidence retry) =
     st\<lparr>ns_attempts := attempt, ns_evidence := evidence, ns_retry := Some retry\<rparr>"
| "applyTransition st time (RUNNER_FINISHED evidence exitCode out timedOut) =
     st\<lparr>ns_evidence := evidence, ns_exitCode := Some exitCode, ns_output := Some out\<rparr>"
| "applyTransition st time (SKIPPED reason) =
     st\<lparr>ns_failure := Some \<lparr>rf_evidence = [reason], rf_gate = ns_id st, rf_nodeId = Some (ns_id st),
                             rf_reason = reason\<rparr>,
        ns_finishedAt := Some time\<rparr>"
| "applyTransition st time (STARTED attempt) =
     st\<lparr>ns_attempts := attempt, ns_startedAt := Some (or_else (ns_startedAt st) time)\<rparr>"
| "applyTransition st time body = st"

definition applyNodeExecutionEvent ::
  "node_execution_state \<Rightarrow> node_event \<Rightarrow> transition_error + node_execution_state" where
  "applyNodeExecutionEvent st event =
     (if ns_status st \<notin> set (allowedFrom (ne_body event))
      then Inl (IllegalNodeEvent (ne_body event) (ns_status st))
      else Inr ((applyTransition st (ne_at event) (ne_body event))\<lparr>ns_status := statusAfter (ne_body event)\<rparr>))"

subsection \<open>The tracker\<close>

definition new_tracker :: "string \<Rightarrow> node_execution_state option \<Rightarrow> node_execution_state" where
  "new_tracker nodeId initialState = or_else initialState (initialNodeExecutionState nodeId)"

fun record_events :: "node_execution_state \<Rightarrow> node_event list \<Rightarrow> transition_error + node_execution_state" where
  "record_events st [] = Inr st"
| "record_events st (event # events) =
     (case applyNodeExecutionEvent st event of Inl e \<Rightarrow> Inl e | Inr st' \<Rightarrow> record_events st' events)"

lemma record_events_append:
  "record_events st (xs @ ys) =
     (case record_events st xs of Inl e \<Rightarrow> Inl e | Inr st' \<Rightarrow> record_events st' ys)"
  by (induction st xs rule: record_events.induct) (auto split: sum.splits)

fun_cases record_events_ConsE: "record_events st (event # events) = Inr st'"

inductive node_step :: "node_execution_state \<Rightarrow> node_execution_state \<Rightarrow> bool" where
  event: "applyNodeExecutionEvent st ev = Inr st' \<Longrightarrow> node_step st st'"

inductive_cases node_stepE: "node_step st st'"

inductive_simps node_step_iff: "node_step st st'"

definition terminal_statuses :: "node_status set" where
  "terminal_statuses = {PASSED_ST, FAILED_ST, CANCELLED_ST, SKIPPED_ST}"

lemma terminal_no_event:
  "ns_status st \<in> terminal_statuses \<Longrightarrow> applyNodeExecutionEvent st ev = Inl (IllegalNodeEvent (ne_body ev) (ns_status st))"
  by (cases "ne_body ev") (auto simp: applyNodeExecutionEvent_def terminal_statuses_def)

text \<open>The phase of a status: it never decreases, and it is 2 exactly in a terminal status.\<close>

fun status_phase :: "node_status \<Rightarrow> nat" where
  "status_phase PENDING_ST = 0"
| "status_phase READY_ST = 1"
| "status_phase RUNNING_ST = 2"
| "status_phase GATING_ST = 2"
| "status_phase _ = 3"

definition node_state_ok :: "string \<Rightarrow> node_execution_state \<Rightarrow> bool" where
  "node_state_ok nodeId st \<longleftrightarrow>
     ns_id st = nodeId \<and>
     (ns_status st \<in> terminal_statuses \<longleftrightarrow> ns_finishedAt st \<noteq> None) \<and>
     (ns_status st \<in> {RUNNING_ST, GATING_ST, PASSED_ST, FAILED_ST, CANCELLED_ST, READY_ST} \<longrightarrow> ns_startedAt st \<noteq> None) \<and>
     (ns_status st \<in> {FAILED_ST, CANCELLED_ST, SKIPPED_ST} \<longleftrightarrow> ns_failure st \<noteq> None) \<and>
     (ns_status st \<in> {PASSED_ST, FAILED_ST} \<longrightarrow> ns_exitCode st \<noteq> None \<and> ns_output st \<noteq> None)"

lemmas event_defs = applyNodeExecutionEvent_def stateFromResult_def terminal_statuses_def

lemma node_state_ok_step:
  assumes "node_state_ok nodeId st" "applyNodeExecutionEvent st ev = Inr st'"
  shows "node_state_ok nodeId st' \<and> status_phase (ns_status st) \<le> status_phase (ns_status st')"
proof -
  have "ns_status st \<in> set (allowedFrom (ne_body ev))"
    and st': "st' = (applyTransition st (ne_at ev) (ne_body ev))\<lparr>ns_status := statusAfter (ne_body ev)\<rparr>"
    using assms(2) by (auto simp: applyNodeExecutionEvent_def split: if_splits)
  then show ?thesis
    using assms(1) unfolding st' node_state_ok_def
    by (cases "ne_body ev"; cases "ns_status st")
       (simp_all add: stateFromResult_def terminal_statuses_def)
qed

lemma record_events_ok:
  "node_state_ok nodeId st \<Longrightarrow> record_events st events = Inr st' \<Longrightarrow>
     node_state_ok nodeId st' \<and> status_phase (ns_status st) \<le> status_phase (ns_status st')"
proof (induction events arbitrary: st)
  case (Cons ev events)
  obtain st1 where st1: "applyNodeExecutionEvent st ev = Inr st1" "record_events st1 events = Inr st'"
    using Cons.prems(2) by (auto split: sum.splits)
  show ?case
    using node_state_ok_step [OF Cons.prems(1) st1(1)] Cons.IH [OF _ st1(2)] by auto
qed simp

lemma initial_node_state_ok: "node_state_ok nodeId (initialNodeExecutionState nodeId)"
  by (simp add: node_state_ok_def initialNodeExecutionState_def terminal_statuses_def)

subsection \<open>Properties\<close>

text \<open>
  C12: Whatever events a tracker of a fresh node accepts, the state keeps its id, has a finish
  time exactly in a terminal status, a failure exactly when failed, cancelled or skipped, a start
  time from ready on and an exit code and output once passed or failed.
\<close>

theorem tracker_states_wellformed:
  assumes "record_events (new_tracker nodeId None) events = Inr st"
  shows "ns_id st = nodeId
    \<and> (ns_finishedAt st \<noteq> None \<longleftrightarrow> ns_status st \<in> {PASSED_ST, FAILED_ST, CANCELLED_ST, SKIPPED_ST})
    \<and> (ns_failure st \<noteq> None \<longleftrightarrow> ns_status st \<in> {FAILED_ST, CANCELLED_ST, SKIPPED_ST})
    \<and> (ns_status st \<notin> {PENDING_ST, SKIPPED_ST} \<longrightarrow> ns_startedAt st \<noteq> None)
    \<and> (ns_status st \<in> {PASSED_ST, FAILED_ST} \<longrightarrow> ns_exitCode st \<noteq> None \<and> ns_output st \<noteq> None)"
proof -
  have "node_state_ok nodeId st"
    using record_events_ok [OF initial_node_state_ok, of nodeId events st] assms
    by (simp add: new_tracker_def)
  then show ?thesis
    by (cases "ns_status st") (simp_all add: node_state_ok_def terminal_statuses_def)
qed

lemma tracker_states_wellformed_witness:
  "\<exists>st. record_events (new_tracker ''n'' None)
      [\<lparr>ne_at = ''t0'', ne_body = READY\<rparr>, \<lparr>ne_at = ''t1'', ne_body = STARTED 1\<rparr>] = Inr st
    \<and> ns_id st = ''n'' \<and> ns_finishedAt st = None"
proof -
  let ?events = "[\<lparr>ne_at = ''t0'', ne_body = READY\<rparr>, \<lparr>ne_at = ''t1'', ne_body = STARTED 1\<rparr>]"
  obtain st where st: "record_events (new_tracker ''n'' None) ?events = Inr st" "ns_status st = RUNNING_ST"
    by (simp add: new_tracker_def initialNodeExecutionState_def applyNodeExecutionEvent_def)
  then show ?thesis using tracker_states_wellformed [OF st(1)] by simp
qed

text \<open>
  The state machine only moves forward (pending, ready, running or gating, terminal), and a
  terminal status is final: every further event is refused.
\<close>

theorem tracker_moves_forward:
  assumes "record_events (new_tracker nodeId None) events = Inr st"
    and "record_events st later = Inr st'"
  shows "status_phase (ns_status st) \<le> status_phase (ns_status st')
    \<and> (ns_status st \<in> {PASSED_ST, FAILED_ST, CANCELLED_ST, SKIPPED_ST} \<longrightarrow> later = [] \<and> st' = st)"
proof -
  have "node_state_ok nodeId st"
    using record_events_ok [OF initial_node_state_ok, of nodeId events st] assms(1)
    by (simp add: new_tracker_def)
  then have "status_phase (ns_status st) \<le> status_phase (ns_status st')"
    using record_events_ok assms(2) by blast
  moreover have "later = [] \<and> st' = st" if "ns_status st \<in> terminal_statuses"
  proof (cases later)
    case Nil
    then show ?thesis using assms(2) by simp
  next
    case (Cons ev rest)
    then show ?thesis using assms(2) terminal_no_event [OF that] by simp
  qed
  ultimately show ?thesis by (simp add: terminal_statuses_def)
qed

lemma tracker_moves_forward_witness:
  "\<exists>st st'. record_events (new_tracker ''n'' None) [\<lparr>ne_at = ''t0'', ne_body = READY\<rparr>] = Inr st
    \<and> record_events st [\<lparr>ne_at = ''t1'', ne_body = SKIPPED ''r''\<rparr>] = Inr st'
    \<and> status_phase (ns_status st) \<le> status_phase (ns_status st') \<and> ns_status st' = SKIPPED_ST"
proof -
  obtain st where st: "record_events (new_tracker ''n'' None) [\<lparr>ne_at = ''t0'', ne_body = READY\<rparr>] = Inr st"
    "ns_status st = READY_ST"
    by (simp add: new_tracker_def initialNodeExecutionState_def applyNodeExecutionEvent_def)
  obtain st' where st': "record_events st [\<lparr>ne_at = ''t1'', ne_body = SKIPPED ''r''\<rparr>] = Inr st'"
    "ns_status st' = SKIPPED_ST"
    using st(2) by (simp add: applyNodeExecutionEvent_def)
  show ?thesis using st(1) st' tracker_moves_forward [OF st(1) st'(1)] by blast
qed

end
