(* ===== verification/Postorder.thy ===== *)
theory Postorder
  imports Plan
begin

text \<open>
  The recursive visit shared by \<^verbatim>\<open>src/runtime/scheduled-dependencies.ts\<close>
  (\<open>scheduledDependencyNodeIds\<close>) and \<^verbatim>\<open>src/runtime/remediation/remediation.ts\<close>
  (\<open>upstreamImplementationNodes\<close>): a depth-first walk along the needs of a plan's graph that skips
  ids already visited and ids without a node, and emits a node after what it needs. The
  recursion is kept as a stack of pending visits and emissions.
\<close>

datatype visit_item = Visit string | Emit string

definition graph_needs :: "('a, 'g) planned_node dep_graph \<Rightarrow> string \<Rightarrow> string list" where
  "graph_needs graph nodeId = (case map_of (dg_nodes graph) nodeId of None \<Rightarrow> [] | Some node \<Rightarrow> pn_needs node)"

fun item_ids :: "visit_item list \<Rightarrow> string list" where
  "item_ids [] = []"
| "item_ids (Visit n # stack) = n # item_ids stack"
| "item_ids (Emit n # stack) = item_ids stack"

fun emit_ids :: "visit_item list \<Rightarrow> string list" where
  "emit_ids [] = []"
| "emit_ids (Visit n # stack) = emit_ids stack"
| "emit_ids (Emit n # stack) = n # emit_ids stack"

lemma item_ids_append [simp]: "item_ids (xs @ ys) = item_ids xs @ item_ids ys"
  by (induction xs rule: item_ids.induct) auto

lemma emit_ids_append [simp]: "emit_ids (xs @ ys) = emit_ids xs @ emit_ids ys"
  by (induction xs rule: emit_ids.induct) auto

lemma item_ids_map [simp]: "item_ids (map Visit ns) = ns" "emit_ids (map Visit ns) = []"
  by (induction ns) auto

definition needs_universe :: "('a, 'g) planned_node dep_graph \<Rightarrow> string set" where
  "needs_universe graph = \<Union>((set \<circ> pn_needs \<circ> snd) ` set (dg_nodes graph))"

lemma graph_needs_universe: "set (graph_needs graph n) \<subseteq> needs_universe graph"
proof (cases "map_of (dg_nodes graph) n")
  case (Some node)
  then have "(n, node) \<in> set (dg_nodes graph)" by (rule map_of_SomeD)
  then show ?thesis using Some by (force simp: graph_needs_def needs_universe_def)
qed (simp add: graph_needs_def)

function postorder_loop ::
  "('a, 'g) planned_node dep_graph \<Rightarrow> string list \<Rightarrow> string list \<Rightarrow> visit_item list \<Rightarrow> string list" where
  "postorder_loop graph visited ordered [] = ordered"
| "postorder_loop graph visited ordered (Emit n # stack) = postorder_loop graph visited (ordered @ [n]) stack"
| "postorder_loop graph visited ordered (Visit n # stack) =
     (if n \<in> set visited then postorder_loop graph visited ordered stack
      else if \<not> dependencyGraphHasNode graph n then postorder_loop graph (set_add visited n) ordered stack
      else postorder_loop graph (set_add visited n) ordered
             (map Visit (graph_needs graph n) @ Emit n # stack))"
  by pat_completeness auto

termination postorder_loop
proof (relation "measures [\<lambda>(graph, visited, ordered, stack).
      card ((needs_universe graph \<union> set (item_ids stack)) - set visited),
      \<lambda>(graph, visited, ordered, stack). length stack]", goal_cases)
  case (3 graph visited ordered n stack)
  have "needs_universe graph \<union> set (item_ids (Visit n # stack)) - set visited =
      needs_universe graph \<union> set (item_ids stack) - set visited" using 3 by auto
  then show ?case by simp
next
  case (4 graph visited ordered n stack)
  have "card (needs_universe graph \<union> set (item_ids stack) - set (set_add visited n)) <
      card (needs_universe graph \<union> set (item_ids (Visit n # stack)) - set visited)"
    by (rule psubset_card_mono) (use 4 in \<open>auto simp: needs_universe_def\<close>)
  then show ?case by simp
next
  case (5 graph visited ordered n stack)
  have eq: "needs_universe graph \<union> set (item_ids (map Visit (graph_needs graph n) @ Emit n # stack)) =
      needs_universe graph \<union> set (item_ids stack)"
    using graph_needs_universe [of graph n] by auto
  have "card (needs_universe graph \<union> set (item_ids stack) - set (set_add visited n)) <
      card (needs_universe graph \<union> set (item_ids (Visit n # stack)) - set visited)"
    by (rule psubset_card_mono) (use 5 in \<open>auto simp: needs_universe_def\<close>)
  then show ?case unfolding in_measures prod.case eq by simp
qed auto

declare postorder_loop.simps(3) [simp del]

definition needs_postorder :: "('a, 'g) planned_node dep_graph \<Rightarrow> string list \<Rightarrow> string list" where
  "needs_postorder graph needs = postorder_loop graph [] [] (map Visit needs)"

subsection \<open>What the walk emits\<close>

text \<open>One need of a node of the graph, which a walk follows.\<close>

definition needs_rel :: "('a, 'g) planned_node dep_graph \<Rightarrow> (string \<times> string) set" where
  "needs_rel graph = {(n, m). dependencyGraphHasNode graph n \<and> m \<in> set (graph_needs graph n)}"

definition needs_closure :: "('a, 'g) planned_node dep_graph \<Rightarrow> string list \<Rightarrow> string set" where
  "needs_closure graph needs =
     {n. dependencyGraphHasNode graph n \<and> (\<exists>m \<in> set needs. (m, n) \<in> (needs_rel graph)\<^sup>*)}"

definition walk_inv ::
  "('a, 'g) planned_node dep_graph \<Rightarrow> string list \<Rightarrow> string list \<Rightarrow> string list \<Rightarrow> visit_item list \<Rightarrow> bool" where
  "walk_inv graph roots visited ordered stack \<longleftrightarrow>
     distinct (ordered @ emit_ids stack) \<and>
     set (ordered @ emit_ids stack) = {n \<in> set visited. dependencyGraphHasNode graph n} \<and>
     (\<forall>n \<in> set visited \<union> set (item_ids stack). \<exists>m \<in> set roots. (m, n) \<in> (needs_rel graph)\<^sup>*) \<and>
     (\<forall>n \<in> set visited. \<forall>m. (n, m) \<in> needs_rel graph \<longrightarrow> m \<in> set visited \<union> set (item_ids stack)) \<and>
     set roots \<subseteq> set visited \<union> set (item_ids stack)"

lemma walk_inv_result:
  assumes "walk_inv graph roots visited ordered []"
  shows "distinct ordered \<and> set ordered = needs_closure graph roots"
proof -
  have closed: "n \<in> set visited" if "m \<in> set roots" "(m, n) \<in> (needs_rel graph)\<^sup>*" for m n
    using that(2)
  proof (induction rule: rtrancl_induct)
    case base
    then show ?case using assms that(1) by (auto simp: walk_inv_def)
  next
    case (step y z)
    then show ?case using assms by (auto simp: walk_inv_def)
  qed
  have "set ordered = {n \<in> set visited. dependencyGraphHasNode graph n}" "distinct ordered"
    and "\<forall>n \<in> set visited. \<exists>m \<in> set roots. (m, n) \<in> (needs_rel graph)\<^sup>*"
    using assms by (auto simp: walk_inv_def)
  then show ?thesis using closed unfolding needs_closure_def by blast
qed

lemma walk_inv_skip:
  assumes "walk_inv graph roots visited ordered (Visit n # stack)" "n \<in> set visited"
  shows "walk_inv graph roots visited ordered stack"
  using assms unfolding walk_inv_def by (simp add: insert_absorb subset_insert_iff)

lemma walk_inv_absent:
  assumes "walk_inv graph roots visited ordered (Visit n # stack)" "\<not> dependencyGraphHasNode graph n"
  shows "walk_inv graph roots (set_add visited n) ordered stack"
  using assms unfolding walk_inv_def by (auto simp: needs_rel_def)

lemma walk_inv_push:
  assumes inv: "walk_inv graph roots visited ordered (Visit n # stack)"
    and new: "n \<notin> set visited" "dependencyGraphHasNode graph n"
  shows "walk_inv graph roots (set_add visited n) ordered (map Visit (graph_needs graph n) @ Emit n # stack)"
proof -
  obtain m where m: "m \<in> set roots" "(m, n) \<in> (needs_rel graph)\<^sup>*"
    using inv by (auto simp: walk_inv_def)
  have succ: "k \<in> set (graph_needs graph n) \<longleftrightarrow> (n, k) \<in> needs_rel graph" for k
    using new(2) by (simp add: needs_rel_def)
  then have "\<forall>k \<in> set (graph_needs graph n). \<exists>m \<in> set roots. (m, k) \<in> (needs_rel graph)\<^sup>*"
    using m by (meson rtrancl.rtrancl_into_rtrancl)
  then show ?thesis
    using inv new unfolding walk_inv_def by (auto simp: succ)
qed

lemma postorder_loop_correct:
  "walk_inv graph roots visited ordered stack \<Longrightarrow>
     distinct (postorder_loop graph visited ordered stack) \<and>
     set (postorder_loop graph visited ordered stack) = needs_closure graph roots"
proof (induction graph visited ordered stack rule: postorder_loop.induct)
  case (1 graph visited ordered)
  then show ?case using walk_inv_result by simp
next
  case (2 graph visited ordered n stack)
  have "walk_inv graph roots visited (ordered @ [n]) stack"
    using "2.prems" by (simp add: walk_inv_def)
  then show ?case using "2.IH" by simp
next
  case (3 graph visited ordered n stack)
  show ?case
  proof (cases "n \<in> set visited")
    case True
    then show ?thesis
      using "3.IH"(1) [OF True walk_inv_skip [OF "3.prems" True]] by (simp add: postorder_loop.simps(3))
  next
    case new: False
    show ?thesis
    proof (cases "dependencyGraphHasNode graph n")
      case True
      then show ?thesis
        using "3.IH"(3) [OF new _ walk_inv_push [OF "3.prems" new True]] new
        by (simp add: postorder_loop.simps(3))
    next
      case False
      then show ?thesis
        using "3.IH"(2) [OF new False walk_inv_absent [OF "3.prems" False]] new
        by (simp add: postorder_loop.simps(3))
    qed
  qed
qed

lemma needs_postorder_correct:
  "distinct (needs_postorder graph needs)"
  "set (needs_postorder graph needs) = needs_closure graph needs"
proof -
  have "walk_inv graph needs [] [] (map Visit needs)" by (auto simp: walk_inv_def)
  from postorder_loop_correct [OF this]
  show "distinct (needs_postorder graph needs)" "set (needs_postorder graph needs) = needs_closure graph needs"
    by (simp_all add: needs_postorder_def)
qed

end
