(* ===== verification/NodeStore.thy ===== *)
theory NodeStore
  imports NodeState Postorder
begin

text \<open>
  The state of the nodes of one run: \<^verbatim>\<open>src/runtime/node-state-store.ts\<close>, and the hydration of the
  states and outputs of scheduled dependencies (\<^verbatim>\<open>src/runtime/scheduled-dependencies.ts\<close>). A
  handoff is kept as its text, a structured output is the type parameter \<open>'o\<close>. The time stamp
  of a call is its argument \<open>now\<close>.
\<close>

subsection \<open>The store\<close>

record changed_snapshot =
  cs_files :: "string list"
  cs_fingerprints :: "(string \<times> string) list"

record 'o node_store =
  st_handoffByNode :: "(string \<times> string) list"
  st_inheritedOutputNodeIds :: "string list"
  st_lastOutputByNode :: "(string \<times> string) list"
  st_nodeSnapshots :: "(string \<times> changed_snapshot) list"
  st_nodeStates :: "(string \<times> node_execution_state) list"
  st_structuredOutputs :: "'o list"

definition pendingNodeState :: "string \<Rightarrow> node_execution_state" where
  "pendingNodeState i = initialNodeExecutionState i"

text \<open>\<open>new Map\<close> of entries: a later entry of the same key replaces the earlier.\<close>

definition new_map :: "(string \<times> 'v) list \<Rightarrow> (string \<times> 'v) list" where
  "new_map entries = foldl (\<lambda>m (k, v). AList.update k v m) [] entries"

lemma map_of_new_map: "map_of (new_map entries) k = map_of (rev entries) k"
proof -
  have "map_of (foldl (\<lambda>m (k, v). AList.update k v m) m entries) k = (map_of m ++ map_of (rev entries)) k" for m
    by (induction entries arbitrary: m) (auto simp: map_add_def split: option.splits)
  from this [of "[]"] show ?thesis by (simp add: new_map_def)
qed

lemma foldl_update_new:
  assumes "distinct (map fst entries)" "fst ` set entries \<inter> fst ` set m = {}"
  shows "foldl (\<lambda>m (k, v). AList.update k v m) m entries = m @ entries"
  using assms
proof (induction entries arbitrary: m)
  case (Cons entry entries)
  obtain k v where entry: "entry = (k, v)" by fastforce
  have "AList.update k v m = m @ [(k, v)]" using Cons.prems entry by (intro update_new_key) auto
  then show ?case using Cons entry by auto
qed simp

lemma new_map_distinct: "distinct (map fst entries) \<Longrightarrow> new_map entries = entries"
  using foldl_update_new [of entries "[]"] by (simp add: new_map_def)

definition forkForParallelChildren ::
  "'o node_store \<Rightarrow> ('a, 'g) planned_node list \<Rightarrow> 'o node_store" where
  "forkForParallelChildren store children =
     \<lparr>st_handoffByNode = st_handoffByNode store,
      st_inheritedOutputNodeIds = js_set (map fst (st_lastOutputByNode store)),
      st_lastOutputByNode = st_lastOutputByNode store,
      st_nodeSnapshots = [],
      st_nodeStates = new_map (map (\<lambda>child. (pn_id child, pendingNodeState (pn_id child))) children),
      st_structuredOutputs = st_structuredOutputs store\<rparr>"

definition getNodeState :: "'o node_store \<Rightarrow> string \<Rightarrow> node_execution_state option" where
  "getNodeState store nodeId = map_of (st_nodeStates store) nodeId"

definition recordHandoff :: "string \<Rightarrow> string option \<Rightarrow> 'o node_store \<Rightarrow> 'o node_store" where
  "recordHandoff nodeId handoff store =
     (case handoff of None \<Rightarrow> store
      | Some h \<Rightarrow> store\<lparr>st_handoffByNode := AList.update nodeId h (st_handoffByNode store)\<rparr>)"

definition set_state :: "string \<Rightarrow> node_execution_state \<Rightarrow> 'o node_store \<Rightarrow> 'o node_store" where
  "set_state nodeId st store = store\<lparr>st_nodeStates := AList.update nodeId st (st_nodeStates store)\<rparr>"

definition recordSessionId :: "string \<Rightarrow> string \<Rightarrow> 'o node_store \<Rightarrow> 'o node_store" where
  "recordSessionId nodeId sessionId store =
     (case map_of (st_nodeStates store) nodeId of
        None \<Rightarrow> store
      | Some existing \<Rightarrow> set_state nodeId (existing\<lparr>ns_sessionId := Some sessionId\<rparr>) store)"

definition initialNodeStateStore :: "('a, 'g) planned_node list \<Rightarrow> 'o node_store" where
  "initialNodeStateStore topologicalOrder =
     \<lparr>st_handoffByNode = [], st_inheritedOutputNodeIds = [], st_lastOutputByNode = [],
      st_nodeSnapshots = [],
      st_nodeStates = new_map (map (\<lambda>node. (pn_id node, pendingNodeState (pn_id node))) topologicalOrder),
      st_structuredOutputs = []\<rparr>"

lemma getNodeState_set_state [simp]:
  "getNodeState (set_state n st store) m = (if m = n then Some st else getNodeState store m)"
  by (simp add: getNodeState_def set_state_def)

subsection \<open>Scheduled dependencies\<close>

definition inherited_evidence :: "string" where
  "inherited_evidence = ''dependency output inherited from Argo artifact''"

definition satisfied_evidence :: "string" where
  "satisfied_evidence = ''dependency satisfied by scheduled workflow''"

definition existingAttempts :: "node_execution_state option \<Rightarrow> nat" where
  "existingAttempts existing = (case existing of Some st \<Rightarrow> ns_attempts st | None \<Rightarrow> 1)"

definition inheritedOutputEvidence :: "node_execution_state option \<Rightarrow> string list" where
  "inheritedOutputEvidence existing =
     (case existing of Some st \<Rightarrow> ns_evidence st | None \<Rightarrow> []) @ [inherited_evidence]"

definition existingExitCode :: "node_execution_state option \<Rightarrow> int" where
  "existingExitCode existing = (case existing of Some st \<Rightarrow> or_else (ns_exitCode st) 0 | None \<Rightarrow> 0)"

definition existingFinishedAt :: "string \<Rightarrow> node_execution_state option \<Rightarrow> string" where
  "existingFinishedAt fallback existing =
     (case existing of Some st \<Rightarrow> or_else (ns_finishedAt st) fallback | None \<Rightarrow> fallback)"

definition existingGates :: "node_execution_state option \<Rightarrow> gate_result list" where
  "existingGates existing = (case existing of Some st \<Rightarrow> ns_gates st | None \<Rightarrow> [])"

definition inheritedDependencyOutputState ::
  "'o node_store \<Rightarrow> string \<Rightarrow> string \<Rightarrow> string \<Rightarrow> node_execution_state" where
  "inheritedDependencyOutputState store nodeId out finishedAt =
     (let existing = getNodeState store nodeId in
      \<lparr>ns_attempts = existingAttempts existing, ns_evidence = inheritedOutputEvidence existing,
       ns_exitCode = Some (existingExitCode existing), ns_failure = None,
       ns_finishedAt = Some (existingFinishedAt finishedAt existing), ns_gates = existingGates existing,
       ns_id = nodeId, ns_output = Some out, ns_retry = None, ns_sessionId = None, ns_startedAt = None,
       ns_status = PASSED_ST\<rparr>)"

definition positiveAttempts :: "node_execution_state \<Rightarrow> nat" where
  "positiveAttempts st = (if ns_attempts st > 0 then ns_attempts st else 1)"

definition dependencyEvidence :: "node_execution_state \<Rightarrow> string list" where
  "dependencyEvidence st = (if ns_evidence st \<noteq> [] then ns_evidence st else [satisfied_evidence])"

definition completedScheduledDependencyState ::
  "node_execution_state \<Rightarrow> string \<Rightarrow> node_execution_state" where
  "completedScheduledDependencyState base finishedAt =
     base\<lparr>ns_attempts := positiveAttempts base, ns_evidence := dependencyEvidence base,
          ns_exitCode := Some (or_else (ns_exitCode base) 0),
          ns_finishedAt := Some (or_else (ns_finishedAt base) finishedAt),
          ns_output := Some (or_else (ns_output base) []), ns_status := PASSED_ST\<rparr>"

definition scheduledDependencyState ::
  "string \<Rightarrow> string \<Rightarrow> node_execution_state option \<Rightarrow> node_execution_state" where
  "scheduledDependencyState i finishedAt existing =
     completedScheduledDependencyState (or_else existing (pendingNodeState i)) finishedAt"

definition scheduledDependencyNodeIds :: "('a, 'g) planned_node dep_graph \<Rightarrow> string \<Rightarrow> string list" where
  "scheduledDependencyNodeIds graph nodeId =
     (if \<not> dependencyGraphHasNode graph nodeId then []
      else needs_postorder graph (graph_needs graph nodeId))"

definition hydrateDependencyOutputs ::
  "string \<Rightarrow> (string \<times> string) list option \<Rightarrow> 'o node_store \<Rightarrow> 'o node_store" where
  "hydrateDependencyOutputs now outputs store =
     foldl (\<lambda>s (nodeId, out).
         let s1 = s\<lparr>st_lastOutputByNode := AList.update nodeId out (st_lastOutputByNode s),
                    st_inheritedOutputNodeIds := set_add (st_inheritedOutputNodeIds s) nodeId\<rparr>
         in set_state nodeId (inheritedDependencyOutputState s1 nodeId out now) s1)
       store (or_else outputs [])"

definition hydrateScheduledDependencyStates ::
  "string \<Rightarrow> ('a, 'g) planned_node dep_graph \<Rightarrow> string \<Rightarrow> 'o node_store \<Rightarrow> 'o node_store" where
  "hydrateScheduledDependencyStates now graph nodeId store =
     foldl (\<lambda>s dependencyId.
         set_state dependencyId (scheduledDependencyState dependencyId now (getNodeState s dependencyId)) s)
       store (scheduledDependencyNodeIds graph nodeId)"

lemma fold_hydrate:
  assumes "distinct ids"
  shows "getNodeState (foldl (\<lambda>s i. set_state i (scheduledDependencyState i now (getNodeState s i)) s) store ids) n =
    (if n \<in> set ids then Some (scheduledDependencyState n now (getNodeState store n)) else getNodeState store n)"
  using assms by (induction ids arbitrary: store) auto

lemma fold_hydrate_rest:
  "st_lastOutputByNode (foldl (\<lambda>s i. set_state i (f s i) s) store ids) = st_lastOutputByNode store"
  by (induction ids arbitrary: store) (simp_all add: set_state_def)

subsection \<open>Properties\<close>

text \<open>
  Hydrating the dependencies of a scheduled node marks exactly the nodes it needs, directly
  or through others, as passed, keeping what was recorded of their output, exit code, attempts and
  evidence, and leaves every other node's state as it was.
\<close>

theorem scheduled_dependencies_hydrated:
  assumes "dependencyGraphHasNode graph nodeId"
  shows "getNodeState (hydrateScheduledDependencyStates now graph nodeId store) n =
    (if n \<in> needs_closure graph (graph_needs graph nodeId)
     then Some (completedScheduledDependencyState (or_else (getNodeState store n) (pendingNodeState n)) now)
     else getNodeState store n)"
proof -
  have "getNodeState (hydrateScheduledDependencyStates now graph nodeId store) n =
      (if n \<in> set (needs_postorder graph (graph_needs graph nodeId))
       then Some (scheduledDependencyState n now (getNodeState store n)) else getNodeState store n)"
    unfolding hydrateScheduledDependencyStates_def scheduledDependencyNodeIds_def
    using assms by (simp add: fold_hydrate [OF needs_postorder_correct(1)])
  then show ?thesis by (simp add: needs_postorder_correct(2) scheduledDependencyState_def)
qed

definition dependency_graph_sample :: "(unit, unit) planned_node dep_graph" where
  "dependency_graph_sample = createWorkflowGraph sample_build
     [command_node ''a'' [], command_node ''b'' [''a''], command_node ''c'' [''b''], command_node ''d'' []]"

lemma scheduled_dependencies_hydrated_witness:
  "map_option ns_status (getNodeState (hydrateScheduledDependencyStates ''now'' dependency_graph_sample ''c''
      (initialNodeStateStore [] :: unit node_store)) ''a'') = Some PASSED_ST
   \<and> getNodeState (hydrateScheduledDependencyStates ''now'' dependency_graph_sample ''c''
      (initialNodeStateStore [] :: unit node_store)) ''d'' = None"
proof -
  have has: "dependencyGraphHasNode dependency_graph_sample ''c''" by code_simp
  have "needs_postorder dependency_graph_sample (graph_needs dependency_graph_sample ''c'') = [''a'', ''b'']"
    by code_simp
  then have closure: "needs_closure dependency_graph_sample (graph_needs dependency_graph_sample ''c'') = {''a'', ''b''}"
    using needs_postorder_correct(2) [of dependency_graph_sample "graph_needs dependency_graph_sample ''c''"] by simp
  have none: "getNodeState (initialNodeStateStore [] :: unit node_store) n = None" for n
    by (simp add: getNodeState_def initialNodeStateStore_def new_map_def)
  show ?thesis
    by (simp add: scheduled_dependencies_hydrated [OF has] closure none completedScheduledDependencyState_def)
qed

text \<open>
  The store a parallel node forks for its children has every child pending and nothing else
  recorded about states or changed files, hands down the outputs and handoffs, and marks exactly
  the outputs it hands down as inherited.
\<close>

theorem forked_store_isolated:
  "getNodeState (forkForParallelChildren store children) n =
     (if n \<in> pn_id ` set children then Some (pendingNodeState n) else None)
   \<and> st_nodeSnapshots (forkForParallelChildren store children) = []
   \<and> map_of (st_lastOutputByNode (forkForParallelChildren store children)) = map_of (st_lastOutputByNode store)
   \<and> set (st_inheritedOutputNodeIds (forkForParallelChildren store children)) = dom (map_of (st_lastOutputByNode store))
   \<and> distinct (st_inheritedOutputNodeIds (forkForParallelChildren store children))"
proof -
  have "map_of (rev (map (\<lambda>child. (pn_id child, pendingNodeState (pn_id child))) children)) n =
      (if n \<in> pn_id ` set children then Some (pendingNodeState n) else None)"
  proof (cases "n \<in> pn_id ` set children")
    case True
    let ?m = "map_of (rev (map (\<lambda>child. (pn_id child, pendingNodeState (pn_id child))) children))"
    have "?m n \<noteq> None" using True by (auto simp: map_of_eq_None_iff image_image)
    then obtain st where st: "?m n = Some st" by blast
    then have "st = pendingNodeState n" by (auto dest!: map_of_SomeD)
    then show ?thesis using st True by simp
  next
    case False
    then show ?thesis by (auto simp: map_of_eq_None_iff)
  qed
  then show ?thesis
    by (simp add: forkForParallelChildren_def getNodeState_def map_of_new_map dom_map_of_conv_image_fst)
qed

end
