(* ===== verification/Retry.thy ===== *)
theory Retry
  imports Plan
begin

text \<open>
  The retry policy of \<^verbatim>\<open>src/runtime/retry.ts\<close>: the policy of a node, the delay before the next
  attempt and the decision. Delays are exact rationals; the source's rounding is not modelled.
\<close>

record retry_policy =
  rp_backoffMs :: nat
  rp_maxAttempts :: nat
  rp_multiplier :: rat
  rp_retryOn :: "retry_reason list"

record retry_decision_input =
  rdi_attempt :: nat
  rdi_evidence :: "string list"
  rdi_gate :: string
  rdi_policy :: retry_policy
  rdi_reason :: string
  rdi_retryReason :: retry_reason

definition nodeRetryPolicy :: "('a, 'g) planned_node \<Rightarrow> retry_policy" where
  "nodeRetryPolicy node =
     (let retries = pn_retries node;
          retryOn = (case Option.bind retries rc_retry_on of
                       Some reasons \<Rightarrow> reasons | None \<Rightarrow> [ExitNonzero, GateFailure, Timeout])
      in \<lparr>rp_backoffMs = or_else (Option.bind retries rc_backoff_ms) 0,
          rp_maxAttempts = or_else (map_option rc_max_attempts retries) 1,
          rp_multiplier = or_else (Option.bind retries rc_multiplier) 1,
          rp_retryOn = retryOn\<rparr>)"

definition retryDelayMs :: "retry_policy \<Rightarrow> nat \<Rightarrow> rat" where
  "retryDelayMs policy attempt =
     of_nat (rp_backoffMs policy) * (max 1 (rp_multiplier policy)) ^ (attempt - 1)"

definition decideNodeRetry :: "retry_decision_input \<Rightarrow> node_retry" where
  "decideNodeRetry input =
     (let scheduled = (rdi_retryReason input \<in> set (rp_retryOn (rdi_policy input)) \<and>
                       rdi_attempt input < rp_maxAttempts (rdi_policy input))
      in \<lparr>rt_attempt = rdi_attempt input,
          rt_delayMs = (if scheduled then retryDelayMs (rdi_policy input) (rdi_attempt input) else 0),
          rt_evidence = rdi_evidence input, rt_exhausted = \<not> scheduled, rt_gate = rdi_gate input,
          rt_reason = rdi_reason input, rt_retryReason = rdi_retryReason input, rt_scheduled = scheduled\<rparr>)"

lemma decideNodeRetry_scheduled:
  "rt_scheduled (decideNodeRetry input) \<longleftrightarrow>
     rdi_retryReason input \<in> set (rp_retryOn (rdi_policy input)) \<and>
     rdi_attempt input < rp_maxAttempts (rdi_policy input)"
  by (simp add: decideNodeRetry_def Let_def)

lemma retryDelayMs_mono: "m \<le> n \<Longrightarrow> retryDelayMs policy m \<le> retryDelayMs policy n"
  by (auto simp: retryDelayMs_def intro!: mult_left_mono power_increasing)

text \<open>
  A retry is scheduled only for a reason the policy retries on and below the maximum number
  of attempts, exactly one of scheduled and exhausted holds, a scheduled delay is at least the
  backoff and never shrinks from one attempt to the next, and an exhausted retry has no delay.
\<close>

theorem retry_decisions_bounded:
  assumes "rdi_policy later = rdi_policy input" "rdi_attempt input \<le> rdi_attempt later"
    and "rt_scheduled (decideNodeRetry later)"
  shows "(rt_scheduled (decideNodeRetry input) \<longleftrightarrow>
      rdi_retryReason input \<in> set (rp_retryOn (rdi_policy input)) \<and>
      rdi_attempt input < rp_maxAttempts (rdi_policy input))
    \<and> rt_exhausted (decideNodeRetry input) = (\<not> rt_scheduled (decideNodeRetry input))
    \<and> (rt_scheduled (decideNodeRetry input) \<longrightarrow>
        of_nat (rp_backoffMs (rdi_policy input)) \<le> rt_delayMs (decideNodeRetry input)
        \<and> rt_delayMs (decideNodeRetry input) \<le> rt_delayMs (decideNodeRetry later))
    \<and> (rt_exhausted (decideNodeRetry input) \<longrightarrow> rt_delayMs (decideNodeRetry input) = 0)"
proof -
  have delay: "rt_delayMs (decideNodeRetry i) =
      (if rt_scheduled (decideNodeRetry i) then retryDelayMs (rdi_policy i) (rdi_attempt i) else 0)" for i
    by (simp add: decideNodeRetry_def Let_def)
  have "rt_exhausted (decideNodeRetry i) = (\<not> rt_scheduled (decideNodeRetry i))" for i
    by (simp add: decideNodeRetry_def Let_def)
  moreover have "of_nat (rp_backoffMs policy) \<le> retryDelayMs policy attempt" for policy attempt
    using retryDelayMs_mono [of 0 attempt policy] by (simp add: retryDelayMs_def)
  ultimately show ?thesis
    using retryDelayMs_mono [OF assms(2), of "rdi_policy input"] assms(1,3)
    by (simp add: delay decideNodeRetry_scheduled)
qed

lemma retry_decisions_bounded_witness:
  "rt_delayMs (decideNodeRetry \<lparr>rdi_attempt = 1, rdi_evidence = [], rdi_gate = ''g'',
      rdi_policy = \<lparr>rp_backoffMs = 100, rp_maxAttempts = 4, rp_multiplier = 3 / 2, rp_retryOn = [Timeout]\<rparr>,
      rdi_reason = ''r'', rdi_retryReason = Timeout\<rparr>)
   \<le> rt_delayMs (decideNodeRetry \<lparr>rdi_attempt = 3, rdi_evidence = [], rdi_gate = ''g'',
      rdi_policy = \<lparr>rp_backoffMs = 100, rp_maxAttempts = 4, rp_multiplier = 3 / 2, rp_retryOn = [Timeout]\<rparr>,
      rdi_reason = ''r'', rdi_retryReason = Timeout\<rparr>)"
  (is "rt_delayMs (decideNodeRetry ?first) \<le> rt_delayMs (decideNodeRetry ?third)")
proof -
  have "rt_scheduled (decideNodeRetry ?first)" "rt_scheduled (decideNodeRetry ?third)"
    by (simp_all add: decideNodeRetry_scheduled)
  then show ?thesis using retry_decisions_bounded [of ?third ?first] by simp
qed

end
