(* ===== verification/NodeRun.thy ===== *)
theory NodeRun
  imports NodeStore Retry
begin

text \<open>
  The effects of one run's node execution: a computation threads the run state (the node store,
  the task text, the runtime events emitted and the outside world) and ends with a value, a
  failure that \<open>Effect.match\<close> can catch, a defect that it cannot (an exception thrown inside an
  effect body, here an illegal state transition, tagged with the id of its node), or no fuel left.

  The outside world is the type parameter \<open>'w\<close>; what the source asks of it (the clock, the abort
  signal, hooks, the node executors, gates, snapshots of changed files) are the functions of
  \<open>node_env\<close>.
\<close>

subsection \<open>Computations\<close>

text \<open>
  An error value: an \<open>Error\<close> with its message, another value with its string, or the wrapper
  that a rejected promise gets.
\<close>

datatype js_error = JsError string | JsOther string | WrappedError js_error

datatype 'x outcome = Ok 'x | Failed js_error | Defect string transition_error | NoFuel

datatype runtime_event =
    NodeStartEvent string nat
  | NodeFinishEvent node_result
  | OutputRecordedEvent string nat string
  | RetryScheduledEvent string nat retry_reason
  | RetryExhaustedEvent string nat retry_reason

record ('w, 'o) run_state =
  rs_world :: 'w
  rs_store :: "'o node_store"
  rs_task :: string
  rs_events :: "runtime_event list"

type_synonym ('w, 'o, 'x) run = "('w, 'o) run_state \<Rightarrow> 'x outcome \<times> ('w, 'o) run_state"

definition return_run :: "'x \<Rightarrow> ('w, 'o, 'x) run" where
  "return_run x s = (Ok x, s)"

definition fail_run :: "js_error \<Rightarrow> ('w, 'o, 'x) run" where
  "fail_run e s = (Failed e, s)"

definition no_fuel :: "('w, 'o, 'x) run" where
  "no_fuel s = (NoFuel, s)"

definition bind_run :: "('w, 'o, 'x) run \<Rightarrow> ('x \<Rightarrow> ('w, 'o, 'y) run) \<Rightarrow> ('w, 'o, 'y) run" where
  "bind_run m f s = (case m s of
     (Ok x, s') \<Rightarrow> f x s'
   | (Failed e, s') \<Rightarrow> (Failed e, s')
   | (Defect i d, s') \<Rightarrow> (Defect i d, s')
   | (NoFuel, s') \<Rightarrow> (NoFuel, s'))"

text \<open>\<open>Effect.match\<close> to a sum: failures become values, defects stay.\<close>

definition match_run :: "('w, 'o, 'x) run \<Rightarrow> ('w, 'o, js_error + 'x) run" where
  "match_run m s = (case m s of
     (Ok x, s') \<Rightarrow> (Ok (Inr x), s')
   | (Failed e, s') \<Rightarrow> (Ok (Inl e), s')
   | (Defect i d, s') \<Rightarrow> (Defect i d, s')
   | (NoFuel, s') \<Rightarrow> (NoFuel, s'))"

text \<open>\<open>Effect.ensuring\<close>: the finalizer runs however the computation ends.\<close>

definition ensuring_run :: "('w, 'o, 'x) run \<Rightarrow> (('w, 'o) run_state \<Rightarrow> ('w, 'o) run_state) \<Rightarrow> ('w, 'o, 'x) run" where
  "ensuring_run m finalizer s = (case m s of (r, s') \<Rightarrow> (r, finalizer s'))"

definition modify_run :: "(('w, 'o) run_state \<Rightarrow> ('w, 'o) run_state) \<Rightarrow> ('w, 'o, unit) run" where
  "modify_run f s = (Ok (), f s)"

definition gets_run :: "(('w, 'o) run_state \<Rightarrow> 'x) \<Rightarrow> ('w, 'o, 'x) run" where
  "gets_run f s = (Ok (f s), s)"

text \<open>A call to the outside world, which may reject.\<close>

definition world_run :: "('w \<Rightarrow> 'x \<times> 'w) \<Rightarrow> ('w, 'o, 'x) run" where
  "world_run f s = (case f (rs_world s) of (x, w) \<Rightarrow> (Ok x, s\<lparr>rs_world := w\<rparr>))"

definition try_run :: "('w \<Rightarrow> (js_error + 'x) \<times> 'w) \<Rightarrow> ('w, 'o, 'x) run" where
  "try_run f = bind_run (world_run f) (\<lambda>r. case r of Inl e \<Rightarrow> fail_run e | Inr x \<Rightarrow> return_run x)"

subsection \<open>The environment\<close>

datatype hook_event = NodeStartHook | NodeSuccessHook | NodeErrorHook | NodeFinishHook | GateFailureHook string

record ('a, 'g, 'w) node_env =
  en_now :: "'w \<Rightarrow> string \<times> 'w"
  en_aborted :: "'w \<Rightarrow> bool \<times> 'w"
  en_hook :: "hook_event \<Rightarrow> runtime_failure option \<Rightarrow> ('a, 'g) planned_node \<Rightarrow>
    'w \<Rightarrow> (js_error + runtime_failure option) \<times> 'w"
  en_attempt :: "('a, 'g) planned_node \<Rightarrow> string \<Rightarrow> nat \<Rightarrow> 'w \<Rightarrow> (js_error + attempt_result) \<times> 'w"
  en_gates :: "('a, 'g) planned_node \<Rightarrow> (string \<times> changed_snapshot) list \<Rightarrow> attempt_result \<Rightarrow>
    'w \<Rightarrow> (js_error + gate_result list) \<times> 'w"
  en_snapshot :: "'w \<Rightarrow> changed_snapshot \<times> 'w"
  en_fingerprint :: "string \<Rightarrow> 'w \<Rightarrow> string"
  en_retryDelay :: "rat \<Rightarrow> 'w \<Rightarrow> 'w"

text \<open>The parts of a run's context that do not change: the plan and the profiles of the configuration.\<close>

record profile =
  pf_filesystem_mode :: "string option"
  pf_tools :: "string list option"
  pf_scheduling_roles :: "string list option"

record ('a, 'g) run_context =
  cx_graph :: "('a, 'g) planned_node dep_graph"
  cx_topologicalOrder :: "('a, 'g) planned_node list"
  cx_profiles :: "(string \<times> profile) list"

subsection \<open>Recording events\<close>

definition emit_run :: "runtime_event \<Rightarrow> ('w, 'o, unit) run" where
  "emit_run event = modify_run (\<lambda>s. s\<lparr>rs_events := rs_events s @ [event]\<rparr>)"

definition recordNodeEvent ::
  "('a, 'g, 'w) node_env \<Rightarrow> string \<Rightarrow> node_event_body \<Rightarrow> ('w, 'o, unit) run" where
  "recordNodeEvent env nodeId body =
     bind_run (world_run (en_now env)) (\<lambda>now s.
       let tracker = new_tracker nodeId (getNodeState (rs_store s) nodeId) in
       case applyNodeExecutionEvent tracker \<lparr>ne_at = now, ne_body = body\<rparr> of
         Inl e \<Rightarrow> (Defect nodeId e, s)
       | Inr st \<Rightarrow> (Ok (), s\<lparr>rs_store := set_state nodeId st (rs_store s)\<rparr>))"

definition isCancelled :: "('a, 'g, 'w) node_env \<Rightarrow> ('w, 'o, bool) run" where
  "isCancelled env = world_run (en_aborted env)"

definition markNodeReady :: "('a, 'g, 'w) node_env \<Rightarrow> string \<Rightarrow> ('w, 'o, unit) run" where
  "markNodeReady env nodeId = recordNodeEvent env nodeId READY"

definition recordSkippedNodeState :: "('a, 'g, 'w) node_env \<Rightarrow> string \<Rightarrow> string \<Rightarrow> ('w, 'o, unit) run" where
  "recordSkippedNodeState env nodeId reason = recordNodeEvent env nodeId (SKIPPED reason)"

definition dispatchHooks ::
  "('a, 'g, 'w) node_env \<Rightarrow> hook_event \<Rightarrow> runtime_failure option \<Rightarrow> ('a, 'g) planned_node \<Rightarrow>
   ('w, 'o, runtime_failure option) run" where
  "dispatchHooks env event failure node = try_run (en_hook env event failure node)"

text \<open>\<open>diffChangedFiles\<close>: the files new or changed since \<open>before\<close>, with their fingerprints.\<close>

definition diffChangedFiles ::
  "(string \<Rightarrow> string) \<Rightarrow> changed_snapshot \<Rightarrow> changed_snapshot \<Rightarrow> changed_snapshot" where
  "diffChangedFiles fileFingerprint before after =
     (let fingerprint = (\<lambda>file. or_else (map_of (cs_fingerprints after) file) (fileFingerprint file));
          candidateFiles = js_set (cs_files before @ cs_files after);
          files = filter (\<lambda>file. file \<notin> set (cs_files before) \<or>
                           map_of (cs_fingerprints before) file \<noteq> Some (fingerprint file)) candidateFiles
      in \<lparr>cs_files = js_set files, cs_fingerprints = map (\<lambda>file. (file, fingerprint file)) files\<rparr>)"

text \<open>
  The difference of two snapshots of changed files has exactly the files that were not
  changed before, or whose fingerprint is now another, each once and with its present fingerprint.
\<close>

theorem changed_files_difference:
  "(file \<in> set (cs_files (diffChangedFiles fp before after)) \<longleftrightarrow>
      file \<in> set (cs_files before) \<union> set (cs_files after) \<and>
      (file \<notin> set (cs_files before) \<or>
       map_of (cs_fingerprints before) file \<noteq> Some (or_else (map_of (cs_fingerprints after) file) (fp file))))
   \<and> distinct (cs_files (diffChangedFiles fp before after))
   \<and> map_of (cs_fingerprints (diffChangedFiles fp before after)) file =
       (if file \<in> set (cs_files (diffChangedFiles fp before after))
        then Some (or_else (map_of (cs_fingerprints after) file) (fp file)) else None)"
proof -
  have keyed: "map_of (map (\<lambda>f. (f, g f)) fs) file = (if file \<in> set fs then Some (g file) else None)"
    for g :: "string \<Rightarrow> string" and fs
    by (induction fs) auto
  show ?thesis by (simp add: diffChangedFiles_def Let_def keyed)
qed

lemma changed_files_difference_witness:
  "''b'' \<in> set (cs_files (diffChangedFiles (\<lambda>file. []) \<lparr>cs_files = [''a''], cs_fingerprints = [(''a'', ''1'')]\<rparr>
     \<lparr>cs_files = [''a'', ''b''], cs_fingerprints = [(''a'', ''1''), (''b'', ''2'')]\<rparr>))"
  using changed_files_difference [of "''b''" "\<lambda>file. []" "\<lparr>cs_files = [''a''], cs_fingerprints = [(''a'', ''1'')]\<rparr>"
      "\<lparr>cs_files = [''a'', ''b''], cs_fingerprints = [(''a'', ''1''), (''b'', ''2'')]\<rparr>"]
  by simp

end
