(* ===== verification/NodeExecution.thy ===== *)
theory NodeExecution
  imports NodeRun
begin

text \<open>
  Executing one node (\<^verbatim>\<open>src/runtime/node-execution.ts\<close>): the attempt cycle (start hook, runner,
  output, gates, success hook), the retry loop and the final failure. Remediation is the
  dependency \<open>remediate\<close>, which \<open>Remediation\<close> provides, itself given the executor: the two are
  tied together there. The number of attempts is the fuel of \<open>runNodeAttempts\<close>.
\<close>

subsection \<open>Results and retries\<close>

definition EXIT_INFRA :: int where "EXIT_INFRA = 70"

definition cancelledFailure :: runtime_failure where
  "cancelledFailure = \<lparr>rf_evidence = [''pipeline cancelled by AbortSignal''], rf_gate = ''cancelled'',
     rf_nodeId = None, rf_reason = ''pipeline cancelled''\<rparr>"

definition result_failure :: "node_result \<Rightarrow> runtime_failure" where
  "result_failure node = \<lparr>rf_evidence = nr_evidence node, rf_gate = nr_nodeId node,
     rf_nodeId = Some (nr_nodeId node), rf_reason = ''node '' @ quoted (nr_nodeId node) @ '' failed''\<rparr>"

fun findPlannedNode :: "('a, 'g) planned_node list \<Rightarrow> string \<Rightarrow> ('a, 'g) planned_node option" where
  "findPlannedNode [] nodeId = None"
| "findPlannedNode (PlannedNode i ix k ns ds ar b c ch co g m nd p re rt tc t # rest) nodeId =
     (if i = nodeId then Some (PlannedNode i ix k ns ds ar b c ch co g m nd p re rt tc t)
      else case (case ch of None \<Rightarrow> None | Some cs \<Rightarrow> findPlannedNode cs nodeId) of
             Some child \<Rightarrow> Some child
           | None \<Rightarrow> findPlannedNode rest nodeId)"

definition plannedNodeById :: "('a, 'g) run_context \<Rightarrow> string \<Rightarrow> ('a, 'g) planned_node option" where
  "plannedNodeById context nodeId =
     (if dependencyGraphHasNode (cx_graph context) nodeId then map_of (dg_nodes (cx_graph context)) nodeId
      else findPlannedNode (cx_topologicalOrder context) nodeId)"

record loop_state =
  ls_last :: attempt_result
  ls_retry :: "attempt_retry option"

datatype loop_step = FailedStep | RetryStep | ResultStep node_result

record cycle_result =
  cy_last :: attempt_result
  cy_result :: "node_result option"
  cy_retry :: "attempt_retry option"

record remediation_result =
  rm_result :: "node_result option"
  rm_retryNode :: "bool option"

definition initialAttemptLoopState :: loop_state where
  "initialAttemptLoopState =
     \<lparr>ls_last = \<lparr>ar_evidence = [], ar_exitCode = 1, ar_handoff = None, ar_output = [], ar_timedOut = None\<rparr>,
      ls_retry = None\<rparr>"

definition remediationPassedResult :: "remediation_result option \<Rightarrow> node_result option" where
  "remediationPassedResult remediation = Option.bind remediation rm_result"

definition remediationRequestsRetry :: "remediation_result option \<Rightarrow> bool" where
  "remediationRequestsRetry remediation =
     (case remediation of None \<Rightarrow> False | Some value \<Rightarrow> rm_retryNode value = Some True)"

definition cancelledRetry :: "string \<Rightarrow> nat \<Rightarrow> attempt_result \<Rightarrow> attempt_retry" where
  "cancelledRetry nodeId attempt lastR =
     \<lparr>at_attempt = attempt, at_evidence = ar_evidence lastR @ rf_evidence cancelledFailure,
      at_gate = nodeId, at_reason = ''pipeline cancelled'', at_retryReason = Timeout\<rparr>"

fun attemptErrorMessage :: "js_error \<Rightarrow> string" where
  "attemptErrorMessage (WrappedError inner) = attemptErrorMessage inner"
| "attemptErrorMessage (JsError message) = (if message \<noteq> [] then message else ''Error'')"
| "attemptErrorMessage (JsOther text) = text"

definition nodeRetryFailure :: "('a, 'g) planned_node \<Rightarrow> attempt_retry \<Rightarrow> runtime_failure" where
  "nodeRetryFailure node retry =
     \<lparr>rf_evidence = at_evidence retry, rf_gate = at_gate retry, rf_nodeId = Some (pn_id node),
      rf_reason = at_reason retry\<rparr>"

definition passedNodeResult :: "string \<Rightarrow> nat \<Rightarrow> attempt_result \<Rightarrow> node_result" where
  "passedNodeResult nodeId attempt lastR =
     \<lparr>nr_attempts = attempt, nr_evidence = ar_evidence lastR, nr_exitCode = 0, nr_nodeId = nodeId,
      nr_output = ar_output lastR, nr_status = ResultPassed\<rparr>"

definition exited_with :: "int \<Rightarrow> string" where
  "exited_with code = ''node exited with code '' @ show_int code"

definition retryGateId :: "string \<Rightarrow> gate_result option \<Rightarrow> string" where
  "retryGateId nodeId failedGate = (case failedGate of None \<Rightarrow> nodeId | Some gate \<Rightarrow> gr_gateId gate)"

definition retryReasonText :: "int \<Rightarrow> gate_result option \<Rightarrow> string" where
  "retryReasonText exitCode failedGate =
     (case failedGate of None \<Rightarrow> exited_with exitCode
      | Some gate \<Rightarrow> or_else (gr_reason gate) (exited_with exitCode))"

definition retryEvidence :: "attempt_result \<Rightarrow> gate_result option \<Rightarrow> string list" where
  "retryEvidence lastR failedGate =
     (case failedGate of None \<Rightarrow> ar_evidence lastR @ [exited_with (ar_exitCode lastR)]
      | Some gate \<Rightarrow> ar_evidence lastR @ gr_evidence gate)"

definition nodeRetryReason :: "attempt_result \<Rightarrow> gate_result option \<Rightarrow> retry_reason" where
  "nodeRetryReason attempt failedGate =
     (if ar_timedOut attempt = Some True then Timeout
      else if failedGate \<noteq> None then GateFailure else ExitNonzero)"

definition failedAttemptRetry :: "string \<Rightarrow> nat \<Rightarrow> attempt_result \<Rightarrow> js_error \<Rightarrow> attempt_retry" where
  "failedAttemptRetry nodeId attempt lastR err =
     (let message = attemptErrorMessage err in
      \<lparr>at_attempt = attempt, at_evidence = ar_evidence lastR @ [message], at_gate = nodeId,
       at_reason = message, at_retryReason = nodeRetryReason lastR None\<rparr>)"

definition retryFromAttemptError ::
  "('a, 'g, 'w) node_env \<Rightarrow> ('a, 'g) planned_node \<Rightarrow> nat \<Rightarrow> attempt_result \<Rightarrow> js_error \<Rightarrow>
   ('w, 'o, attempt_retry) run" where
  "retryFromAttemptError env node attempt lastR err =
     bind_run (isCancelled env) (\<lambda>cancelled.
       return_run (if cancelled then cancelledRetry (pn_id node) attempt lastR
                   else failedAttemptRetry (pn_id node) attempt lastR err))"

definition exhaustedRetry :: "('a, 'g) planned_node \<Rightarrow> nat \<Rightarrow> attempt_result \<Rightarrow> attempt_retry" where
  "exhaustedRetry node maxAttempts lastR =
     \<lparr>at_attempt = max 1 maxAttempts, at_evidence = ar_evidence lastR, at_gate = pn_id node,
      at_reason = exited_with (ar_exitCode lastR), at_retryReason = nodeRetryReason lastR None\<rparr>"

definition retryCycle ::
  "('a, 'g) planned_node \<Rightarrow> nat \<Rightarrow> attempt_result \<Rightarrow> gate_result option \<Rightarrow> cycle_result" where
  "retryCycle node attempt lastR failedGate =
     \<lparr>cy_last = lastR, cy_result = None,
      cy_retry = Some \<lparr>at_attempt = attempt, at_evidence = retryEvidence lastR failedGate,
        at_gate = retryGateId (pn_id node) failedGate,
        at_reason = retryReasonText (ar_exitCode lastR) failedGate,
        at_retryReason = nodeRetryReason lastR failedGate\<rparr>\<rparr>"

definition retryCandidateForCycle ::
  "('a, 'g) planned_node \<Rightarrow> cycle_result \<Rightarrow> attempt_result \<Rightarrow> nat \<Rightarrow> attempt_retry" where
  "retryCandidateForCycle node cycle lastR attempt =
     or_else (cy_retry cycle)
       \<lparr>at_attempt = attempt, at_evidence = ar_evidence lastR, at_gate = pn_id node,
        at_reason = exited_with (ar_exitCode lastR), at_retryReason = nodeRetryReason lastR None\<rparr>"

definition nodeFailure :: "string \<Rightarrow> nat \<Rightarrow> string list \<Rightarrow> string \<Rightarrow> int \<Rightarrow> node_result" where
  "nodeFailure nodeId attempts evidence out exitCode =
     \<lparr>nr_attempts = attempts, nr_evidence = evidence, nr_exitCode = exitCode, nr_nodeId = nodeId,
      nr_output = out, nr_status = ResultFailed\<rparr>"

definition cancelledCycle :: "string \<Rightarrow> nat \<Rightarrow> attempt_result \<Rightarrow> cycle_result" where
  "cancelledCycle nodeId attempt previous =
     \<lparr>cy_last = previous,
      cy_result = Some (nodeFailure nodeId attempt (rf_evidence cancelledFailure) (ar_output previous) 1),
      cy_retry = None\<rparr>"

subsection \<open>One attempt\<close>

definition recordRetryingNodeEvent ::
  "('a, 'g, 'w) node_env \<Rightarrow> string \<Rightarrow> nat \<Rightarrow> attempt_retry \<Rightarrow> node_retry \<Rightarrow> ('w, 'o, unit) run" where
  "recordRetryingNodeEvent env nodeId attempt retry decision =
     recordNodeEvent env nodeId (RETRYING attempt (at_evidence retry) decision)"

definition emitRemediationPass ::
  "('a, 'g, 'w) node_env \<Rightarrow> string \<Rightarrow> node_result \<Rightarrow> ('w, 'o, unit) run" where
  "emitRemediationPass env nodeId result =
     bind_run (recordNodeEvent env nodeId (PASSED result)) (\<lambda>_. emit_run (NodeFinishEvent result))"

definition recordRemediationRetryingNodeEvent ::
  "('a, 'g, 'w) node_env \<Rightarrow> string \<Rightarrow> nat \<Rightarrow> attempt_retry \<Rightarrow> ('w, 'o, unit) run" where
  "recordRemediationRetryingNodeEvent env nodeId attempt retry =
     recordRetryingNodeEvent env nodeId attempt retry
       \<lparr>rt_attempt = attempt, rt_delayMs = 0, rt_evidence = at_evidence retry, rt_exhausted = False,
        rt_gate = at_gate retry, rt_reason = at_reason retry, rt_retryReason = at_retryReason retry,
        rt_scheduled = True\<rparr>"

definition finishFailedNode ::
  "('a, 'g, 'w) node_env \<Rightarrow> ('a, 'g) planned_node \<Rightarrow> attempt_result \<Rightarrow> attempt_retry \<Rightarrow>
   ('w, 'o, node_result) run" where
  "finishFailedNode env node lastR retry =
     bind_run (dispatchHooks env NodeErrorHook (Some (nodeRetryFailure node retry)) node) (\<lambda>_.
       let result = nodeFailure (pn_id node) (at_attempt retry) (at_evidence retry) (ar_output lastR)
                      (if ar_exitCode lastR = EXIT_INFRA then EXIT_INFRA else 1)
       in bind_run (recordNodeEvent env (pn_id node) (FAILED (result_failure result) result)) (\<lambda>_.
            bind_run (emit_run (NodeFinishEvent result)) (\<lambda>_. return_run result)))"

definition emitRuntimeRetry :: "string \<Rightarrow> node_retry \<Rightarrow> retry_reason \<Rightarrow> ('w, 'o, unit) run" where
  "emitRuntimeRetry nodeId retry reason =
     emit_run (if rt_scheduled retry then RetryScheduledEvent nodeId (rt_attempt retry + 1) reason
               else RetryExhaustedEvent nodeId (rt_attempt retry) reason)"

text \<open>Waiting is the world's concern: the delay ends early when the run is aborted.\<close>

definition waitForRetryDelay :: "('a, 'g, 'w) node_env \<Rightarrow> rat \<Rightarrow> ('w, 'o, unit) run" where
  "waitForRetryDelay env delayMs =
     (if delayMs \<le> 0 then return_run () else world_run (\<lambda>w. ((), en_retryDelay env delayMs w)))"

definition scheduleNodeRetry ::
  "('a, 'g, 'w) node_env \<Rightarrow> ('a, 'g) planned_node \<Rightarrow> retry_policy \<Rightarrow> attempt_retry \<Rightarrow> nat \<Rightarrow>
   ('w, 'o, loop_step) run" where
  "scheduleNodeRetry env node policy retry attempt =
     (let decision = decideNodeRetry \<lparr>rdi_attempt = attempt, rdi_evidence = at_evidence retry,
            rdi_gate = at_gate retry, rdi_policy = policy, rdi_reason = at_reason retry,
            rdi_retryReason = at_retryReason retry\<rparr>
      in bind_run (recordRetryingNodeEvent env (pn_id node) attempt retry decision) (\<lambda>_.
         bind_run (emitRuntimeRetry (pn_id node) decision (at_retryReason retry)) (\<lambda>_.
         if \<not> rt_scheduled decision then return_run FailedStep
         else bind_run (waitForRetryDelay env (rt_delayMs decision)) (\<lambda>_. return_run RetryStep))))"

definition failedHookCycle ::
  "('a, 'g, 'w) node_env \<Rightarrow> string \<Rightarrow> nat \<Rightarrow> attempt_result \<Rightarrow> string list \<Rightarrow> ('w, 'o, cycle_result) run" where
  "failedHookCycle env nodeId attempt previous evidence =
     (let result = nodeFailure nodeId attempt evidence (ar_output previous) 1 in
      bind_run (recordNodeEvent env nodeId (FAILED (result_failure result) result)) (\<lambda>_.
        return_run \<lparr>cy_last = previous, cy_result = Some result, cy_retry = None\<rparr>))"

definition beginNodeAttempt ::
  "('a, 'g, 'w) node_env \<Rightarrow> ('a, 'g) planned_node \<Rightarrow> nat \<Rightarrow> attempt_result \<Rightarrow>
   ('w, 'o, cycle_result option) run" where
  "beginNodeAttempt env node attempt previous =
     bind_run (isCancelled env) (\<lambda>cancelled.
       if cancelled then return_run (Some (cancelledCycle (pn_id node) attempt previous))
       else bind_run (emit_run (NodeStartEvent (pn_id node) attempt)) (\<lambda>_.
         bind_run (recordNodeEvent env (pn_id node) (STARTED attempt)) (\<lambda>_.
         bind_run (dispatchHooks env NodeStartHook None node) (\<lambda>startHook.
           case startHook of
             Some failure \<Rightarrow>
               bind_run (failedHookCycle env (pn_id node) attempt previous (rf_evidence failure)) (\<lambda>cycle.
                 return_run (Some cycle))
           | None \<Rightarrow>
               bind_run (isCancelled env) (\<lambda>cancelled'.
                 return_run (if cancelled' then Some (cancelledCycle (pn_id node) attempt previous) else None))))))"

definition set_snapshot :: "string \<Rightarrow> changed_snapshot \<Rightarrow> ('w, 'o, unit) run" where
  "set_snapshot nodeId snapshot = modify_run (\<lambda>s. s\<lparr>rs_store := (rs_store s)\<lparr>st_nodeSnapshots :=
     AList.update nodeId snapshot (st_nodeSnapshots (rs_store s))\<rparr>\<rparr>)"

definition set_last_output :: "string \<Rightarrow> string \<Rightarrow> ('w, 'o, unit) run" where
  "set_last_output nodeId out = modify_run (\<lambda>s. s\<lparr>rs_store := (rs_store s)\<lparr>st_lastOutputByNode :=
     AList.update nodeId out (st_lastOutputByNode (rs_store s))\<rparr>\<rparr>)"

definition recordAttemptOutput ::
  "('a, 'g, 'w) node_env \<Rightarrow> ('a, 'g) planned_node \<Rightarrow> nat \<Rightarrow> attempt_result \<Rightarrow> ('w, 'o, unit) run" where
  "recordAttemptOutput env node attempt lastR =
     bind_run (world_run (en_snapshot env)) (\<lambda>afterSnapshot.
     bind_run (gets_run (\<lambda>s. (map_of (st_nodeSnapshots (rs_store s)) (pn_id node), rs_world s))) (\<lambda>(beforeSnapshot, w).
     bind_run (case beforeSnapshot of
         None \<Rightarrow> return_run ()
       | Some before \<Rightarrow> set_snapshot (pn_id node)
           (diffChangedFiles (\<lambda>file. en_fingerprint env file w) before afterSnapshot)) (\<lambda>_.
     bind_run (set_last_output (pn_id node) (ar_output lastR)) (\<lambda>_.
     bind_run (modify_run (\<lambda>s. s\<lparr>rs_store := recordHandoff (pn_id node) (ar_handoff lastR) (rs_store s)\<rparr>)) (\<lambda>_.
     bind_run (emit_run (OutputRecordedEvent (pn_id node) attempt (ar_output lastR))) (\<lambda>_.
     bind_run (recordNodeEvent env (pn_id node) OUTPUT_RECORDED) (\<lambda>_.
     recordNodeEvent env (pn_id node) SNAPSHOT_AFTER_FINISHED)))))))"

definition evaluateGatesForAttempt ::
  "('a, 'g, 'w) node_env \<Rightarrow> ('a, 'g) planned_node \<Rightarrow> attempt_result \<Rightarrow> ('w, 'o, gate_result list) run" where
  "evaluateGatesForAttempt env node lastR =
     bind_run (recordNodeEvent env (pn_id node) GATES_STARTED) (\<lambda>_.
     bind_run (gets_run (\<lambda>s. st_nodeSnapshots (rs_store s))) (\<lambda>snapshots.
     bind_run (try_run (en_gates env node snapshots lastR)) (\<lambda>gateResults.
     bind_run (recordNodeEvent env (pn_id node) (GATES_FINISHED gateResults)) (\<lambda>_.
     return_run gateResults))))"

definition passedCycle ::
  "('a, 'g, 'w) node_env \<Rightarrow> string \<Rightarrow> nat \<Rightarrow> attempt_result \<Rightarrow> ('w, 'o, cycle_result) run" where
  "passedCycle env nodeId attempt lastR =
     (let result = passedNodeResult nodeId attempt lastR in
      bind_run (recordNodeEvent env nodeId (PASSED result)) (\<lambda>_.
        return_run \<lparr>cy_last = lastR, cy_result = Some result, cy_retry = None\<rparr>))"

definition cancelledNodeResult ::
  "('a, 'g, 'w) node_env \<Rightarrow> string \<Rightarrow> nat \<Rightarrow> attempt_result \<Rightarrow> ('w, 'o, node_result option) run" where
  "cancelledNodeResult env nodeId attempt lastR =
     bind_run (isCancelled env) (\<lambda>cancelled.
       if \<not> cancelled then return_run None
       else let result = \<lparr>nr_attempts = attempt, nr_evidence = ar_evidence lastR @ rf_evidence cancelledFailure,
                nr_exitCode = ar_exitCode lastR, nr_nodeId = nodeId, nr_output = ar_output lastR,
                nr_status = (if ar_exitCode lastR = 0 then ResultPassed else ResultFailed)\<rparr>
         in bind_run (recordNodeEvent env nodeId (CANCELLED_EVENT cancelledFailure)) (\<lambda>_.
              return_run (Some result)))"

definition result_cycle :: "attempt_result \<Rightarrow> node_result \<Rightarrow> cycle_result" where
  "result_cycle lastR result = \<lparr>cy_last = lastR, cy_result = Some result, cy_retry = None\<rparr>"

definition successfulAttemptCycle ::
  "('a, 'g, 'w) node_env \<Rightarrow> ('a, 'g) planned_node \<Rightarrow> nat \<Rightarrow> attempt_result \<Rightarrow> ('w, 'o, cycle_result) run" where
  "successfulAttemptCycle env node attempt lastR =
     bind_run (dispatchHooks env NodeSuccessHook None node) (\<lambda>successHook.
       case successHook of
         Some failure \<Rightarrow> failedHookCycle env (pn_id node) attempt lastR (rf_evidence failure)
       | None \<Rightarrow>
           bind_run (cancelledNodeResult env (pn_id node) attempt lastR) (\<lambda>cancelledAfterHook.
             case cancelledAfterHook of
               Some result \<Rightarrow> return_run (result_cycle lastR result)
             | None \<Rightarrow> passedCycle env (pn_id node) attempt lastR))"

definition finishNodeAttemptWithGate ::
  "('a, 'g, 'w) node_env \<Rightarrow> ('a, 'g) planned_node \<Rightarrow> nat \<Rightarrow> attempt_result \<Rightarrow> gate_result option \<Rightarrow>
   ('w, 'o, cycle_result) run" where
  "finishNodeAttemptWithGate env node attempt lastR failedGate =
     (if failedGate \<noteq> None \<or> ar_exitCode lastR \<noteq> 0 then return_run (retryCycle node attempt lastR failedGate)
      else successfulAttemptCycle env node attempt lastR)"

definition finishNodeAttemptAfterGates ::
  "('a, 'g, 'w) node_env \<Rightarrow> ('a, 'g) planned_node \<Rightarrow> nat \<Rightarrow> attempt_result \<Rightarrow> ('w, 'o, cycle_result) run" where
  "finishNodeAttemptAfterGates env node attempt lastR =
     (if ar_exitCode lastR = EXIT_INFRA then finishNodeAttemptWithGate env node attempt lastR None
      else bind_run (evaluateGatesForAttempt env node lastR) (\<lambda>gateResults.
        bind_run (cancelledNodeResult env (pn_id node) attempt lastR) (\<lambda>cancelledAfterGates.
          case cancelledAfterGates of
            Some result \<Rightarrow> return_run (result_cycle lastR result)
          | None \<Rightarrow> finishNodeAttemptWithGate env node attempt lastR
                      (List.find (\<lambda>gate. \<not> gr_passed gate) gateResults))))"

definition executeGroupAttempt :: "('a, 'g) planned_node \<Rightarrow> attempt_result" where
  "executeGroupAttempt node =
     \<lparr>ar_evidence = [''group '' @ quoted (pn_id node) @ '' completed''], ar_exitCode = 0,
      ar_handoff = None, ar_output = [], ar_timedOut = None\<rparr>"

text \<open>Group nodes complete at once; the executors of the other kinds are the world's.\<close>

definition executeNodeAttempt ::
  "('a, 'g, 'w) node_env \<Rightarrow> ('a, 'g) planned_node \<Rightarrow> nat \<Rightarrow> ('w, 'o, attempt_result) run" where
  "executeNodeAttempt env node attempt =
     (if pn_kind node = GroupKind then return_run (executeGroupAttempt node)
      else bind_run (gets_run rs_task) (\<lambda>task. try_run (en_attempt env node task attempt)))"

definition runNodeAttemptBody ::
  "('a, 'g, 'w) node_env \<Rightarrow> ('a, 'g) planned_node \<Rightarrow> nat \<Rightarrow> ('w, 'o, attempt_result) run" where
  "runNodeAttemptBody env node attempt =
     bind_run (recordNodeEvent env (pn_id node) START_HOOKS_FINISHED) (\<lambda>_.
     bind_run (world_run (en_snapshot env)) (\<lambda>snapshot.
     bind_run (set_snapshot (pn_id node) snapshot) (\<lambda>_.
     bind_run (recordNodeEvent env (pn_id node) SNAPSHOT_BEFORE_FINISHED) (\<lambda>_.
     bind_run (recordNodeEvent env (pn_id node) RUNNER_STARTED) (\<lambda>_.
     bind_run (executeNodeAttempt env node attempt) (\<lambda>lastR.
     bind_run (recordNodeEvent env (pn_id node)
         (RUNNER_FINISHED (ar_evidence lastR) (ar_exitCode lastR) (ar_output lastR) (ar_timedOut lastR))) (\<lambda>_.
     bind_run (recordAttemptOutput env node attempt lastR) (\<lambda>_.
     return_run lastR))))))))"

definition executeNodeAttemptCycle ::
  "('a, 'g, 'w) node_env \<Rightarrow> ('a, 'g) planned_node \<Rightarrow> nat \<Rightarrow> attempt_result \<Rightarrow> ('w, 'o, cycle_result) run" where
  "executeNodeAttemptCycle env node attempt previous =
     bind_run (beginNodeAttempt env node attempt previous) (\<lambda>startResult.
       case startResult of
         Some cycle \<Rightarrow> return_run cycle
       | None \<Rightarrow>
           bind_run (runNodeAttemptBody env node attempt) (\<lambda>lastR.
           bind_run (cancelledNodeResult env (pn_id node) attempt lastR) (\<lambda>cancelledAfterAttempt.
             case cancelledAfterAttempt of
               Some result \<Rightarrow> return_run (result_cycle lastR result)
             | None \<Rightarrow> finishNodeAttemptAfterGates env node attempt lastR)))"

subsection \<open>The retry loop\<close>

type_synonym ('a, 'g, 'w, 'o) remediator =
  "nat \<Rightarrow> ('a, 'g) planned_node \<Rightarrow> attempt_retry \<Rightarrow> ('w, 'o, remediation_result option) run"

definition continueAfterRetryCandidate ::
  "('a, 'g, 'w) node_env \<Rightarrow> ('a, 'g, 'w, 'o) remediator \<Rightarrow> ('a, 'g) planned_node \<Rightarrow> retry_policy \<Rightarrow>
   attempt_retry \<Rightarrow> nat \<Rightarrow> ('w, 'o, loop_step) run" where
  "continueAfterRetryCandidate env remediate node policy retry attempt =
     bind_run (remediate attempt node retry) (\<lambda>remediation.
       case remediationPassedResult remediation of
         Some passed \<Rightarrow>
           bind_run (emitRemediationPass env (pn_id node) passed) (\<lambda>_. return_run (ResultStep passed))
       | None \<Rightarrow>
           if remediationRequestsRetry remediation
           then bind_run (recordRemediationRetryingNodeEvent env (pn_id node) attempt retry) (\<lambda>_.
                  return_run RetryStep)
           else scheduleNodeRetry env node policy retry attempt)"

text \<open>The loop state is mutable in the source: it is returned with the step.\<close>

definition continueAfterAttemptCycle ::
  "('a, 'g, 'w) node_env \<Rightarrow> ('a, 'g, 'w, 'o) remediator \<Rightarrow> ('a, 'g) planned_node \<Rightarrow> retry_policy \<Rightarrow>
   loop_state \<Rightarrow> nat \<Rightarrow> cycle_result \<Rightarrow> ('w, 'o, loop_state \<times> loop_step) run" where
  "continueAfterAttemptCycle env remediate node policy st attempt cycle =
     (case cy_result cycle of
        Some result \<Rightarrow>
          bind_run (emit_run (NodeFinishEvent result)) (\<lambda>_. return_run (st, ResultStep result))
      | None \<Rightarrow>
          let retry = retryCandidateForCycle node cycle (ls_last st) attempt; st' = st\<lparr>ls_retry := Some retry\<rparr> in
          bind_run (continueAfterRetryCandidate env remediate node policy retry attempt) (\<lambda>loopStep.
            return_run (st', loopStep)))"

definition runSingleNodeAttempt ::
  "('a, 'g, 'w) node_env \<Rightarrow> ('a, 'g, 'w, 'o) remediator \<Rightarrow> ('a, 'g) planned_node \<Rightarrow> retry_policy \<Rightarrow>
   loop_state \<Rightarrow> nat \<Rightarrow> ('w, 'o, loop_state \<times> loop_step) run" where
  "runSingleNodeAttempt env remediate node policy st attempt =
     bind_run (match_run (executeNodeAttemptCycle env node attempt (ls_last st))) (\<lambda>cycleOutcome.
       case cycleOutcome of
         Inl err \<Rightarrow>
           bind_run (retryFromAttemptError env node attempt (ls_last st) err) (\<lambda>retry.
             return_run (st\<lparr>ls_retry := Some retry\<rparr>, FailedStep))
       | Inr cycle \<Rightarrow>
           continueAfterAttemptCycle env remediate node policy (st\<lparr>ls_last := cy_last cycle\<rparr>) attempt cycle)"

primrec runNodeAttempts ::
  "nat \<Rightarrow> ('a, 'g, 'w) node_env \<Rightarrow> ('a, 'g, 'w, 'o) remediator \<Rightarrow> ('a, 'g) planned_node \<Rightarrow> retry_policy \<Rightarrow>
   loop_state \<Rightarrow> nat \<Rightarrow> ('w, 'o, loop_state \<times> node_result option) run" where
  "runNodeAttempts 0 env remediate node policy st attempt = no_fuel"
| "runNodeAttempts (Suc fuel) env remediate node policy st attempt =
     bind_run (runSingleNodeAttempt env remediate node policy st attempt) (\<lambda>(st', loopStep).
       case loopStep of
         RetryStep \<Rightarrow> runNodeAttempts fuel env remediate node policy st' (attempt + 1)
       | FailedStep \<Rightarrow> return_run (st', None)
       | ResultStep result \<Rightarrow> return_run (st', Some result))"

definition executeNode_with ::
  "nat \<Rightarrow> ('a, 'g, 'w) node_env \<Rightarrow> ('a, 'g, 'w, 'o) remediator \<Rightarrow> ('a, 'g) planned_node \<Rightarrow>
   ('w, 'o, node_result) run" where
  "executeNode_with fuel env remediate node =
     (let policy = nodeRetryPolicy node in
      bind_run (runNodeAttempts fuel env remediate node policy initialAttemptLoopState 1) (\<lambda>(st, result).
        case result of
          Some r \<Rightarrow> return_run r
        | None \<Rightarrow> finishFailedNode env node (ls_last st)
                     (or_else (ls_retry st) (exhaustedRetry node (rp_maxAttempts policy) (ls_last st)))))"

end
