(* ===== verification/NodeProtocol.thy ===== *)
theory NodeProtocol
  imports NodeExecution
begin

text \<open>
  The protocol between the node executor and the state machine of \<open>NodeState\<close>, in a small
  Hoare logic over runs: executing a ready node only ever records events its state allows, and how
  its result and its final state fit together. The logic is also used to confine a run to the
  states of certain ids, which is what remediation promises (\<open>remediation\<close>).
\<close>

subsection \<open>A Hoare logic for runs\<close>

text \<open>
  \<open>hoare tot D P m Q E\<close>: from a state with \<open>P\<close>, the run \<open>m\<close> ends with \<open>Q\<close> and a value, or with \<open>E\<close>
  and a failure, or in a defect of an id in \<open>D\<close>, or out of fuel unless \<open>tot\<close>.
\<close>

definition hoare ::
  "bool \<Rightarrow> (string \<Rightarrow> bool) \<Rightarrow> (('w, 'o) run_state \<Rightarrow> bool) \<Rightarrow> ('w, 'o, 'x) run \<Rightarrow> ('x \<Rightarrow> ('w, 'o) run_state \<Rightarrow> bool) \<Rightarrow>
   (('w, 'o) run_state \<Rightarrow> bool) \<Rightarrow> bool" where
  "hoare tot D P m Q E \<longleftrightarrow> (\<forall>s. P s \<longrightarrow> (case m s of
     (Ok x, s') \<Rightarrow> Q x s' | (Failed e, s') \<Rightarrow> E s' | (Defect i d, s') \<Rightarrow> D i | (NoFuel, s') \<Rightarrow> \<not> tot))"

lemma hoare_bind:
  assumes "hoare tot D P m Q E" "\<And>x. hoare tot D (Q x) (f x) R E"
  shows "hoare tot D P (bind_run m f) R E"
  unfolding hoare_def
proof (intro allI impI)
  fix s assume "P s"
  obtain r s' where m: "m s = (r, s')" by (cases "m s")
  show "case bind_run m f s of (Ok x, s') \<Rightarrow> R x s' | (Failed e, s') \<Rightarrow> E s' | (Defect i d, s') \<Rightarrow> D i
      | (NoFuel, s') \<Rightarrow> \<not> tot"
  proof (cases r)
    case (Ok x)
    then have "Q x s'" using assms(1) \<open>P s\<close> m by (auto simp: hoare_def)
    then show ?thesis using assms(2) [of x] m Ok by (simp add: hoare_def bind_run_def)
  qed (use assms(1) \<open>P s\<close> m in \<open>auto simp: hoare_def bind_run_def\<close>)
qed

lemma hoare_conseq:
  assumes "hoare tot D P m Q E" "\<And>s. P' s \<Longrightarrow> P s" "\<And>x s. Q x s \<Longrightarrow> Q' x s" "\<And>s. E s \<Longrightarrow> E' s"
  shows "hoare tot D P' m Q' E'"
  unfolding hoare_def
proof (intro allI impI)
  fix s assume "P' s"
  obtain r s' where m: "m s = (r, s')" by (cases "m s")
  show "case m s of (Ok x, s') \<Rightarrow> Q' x s' | (Failed e, s') \<Rightarrow> E' s' | (Defect i d, s') \<Rightarrow> D i
      | (NoFuel, s') \<Rightarrow> \<not> tot"
    using assms(1) assms(2) [OF \<open>P' s\<close>] assms(3,4) m unfolding hoare_def by (cases r) force+
qed

lemma hoare_return: "(\<And>s. P s \<Longrightarrow> Q x s) \<Longrightarrow> hoare tot D P (return_run x) Q E"
  by (simp add: hoare_def return_run_def)

lemma hoare_fail: "(\<And>s. P s \<Longrightarrow> E s) \<Longrightarrow> hoare tot D P (fail_run e) Q E"
  by (simp add: hoare_def fail_run_def)

lemma hoare_no_fuel: "\<not> tot \<Longrightarrow> hoare tot D P no_fuel Q E"
  by (simp add: hoare_def no_fuel_def)

lemma hoare_false: "hoare tot D (\<lambda>s. False) m Q E"
  by (simp add: hoare_def)

lemma hoare_pre: "(\<And>s. P s \<Longrightarrow> c) \<Longrightarrow> (c \<Longrightarrow> hoare tot D P m Q E) \<Longrightarrow> hoare tot D P m Q E"
  by (auto simp: hoare_def)

subsection \<open>Assertions on one node's state\<close>

definition cur :: "string \<Rightarrow> ('w, 'o) run_state \<Rightarrow> node_execution_state" where
  "cur n s = new_tracker n (getNodeState (rs_store s) n)"

abbreviation on_node :: "string \<Rightarrow> (node_execution_state \<Rightarrow> bool) \<Rightarrow> ('w, 'o) run_state \<Rightarrow> bool" where
  "on_node n P \<equiv> (\<lambda>s. P (cur n s))"

text \<open>Runs that leave the node states alone: every call to the world, output and snapshot updates, events.\<close>

definition quiet :: "('w, 'o, 'x) run \<Rightarrow> bool" where
  "quiet m \<longleftrightarrow> (\<forall>s. st_nodeStates (rs_store (snd (m s))) = st_nodeStates (rs_store s) \<and>
     (case fst (m s) of Defect i d \<Rightarrow> False | NoFuel \<Rightarrow> False | _ \<Rightarrow> True))"

lemma quiet_hoare:
  fixes m :: "('w, 'o, 'x) run"
  assumes "quiet m"
  shows "hoare tot D (on_node n P) m (\<lambda>_. on_node n P) (on_node n P)"
  unfolding hoare_def
proof (intro allI impI)
  fix s :: "('w, 'o) run_state" assume P: "P (cur n s)"
  obtain r s' where m: "m s = (r, s')" by (cases "m s")
  have "st_nodeStates (rs_store s') = st_nodeStates (rs_store s)" "\<And>i d. r \<noteq> Defect i d" "r \<noteq> NoFuel"
    using assms m by (auto simp: quiet_def dest!: spec [of _ s])
  then show "case m s of (Ok x, s') \<Rightarrow> P (cur n s') | (Failed e, s') \<Rightarrow> P (cur n s')
      | (Defect i d, s') \<Rightarrow> D i | (NoFuel, s') \<Rightarrow> \<not> tot"
    using P m by (cases r) (auto simp: cur_def getNodeState_def)
qed

lemma quiet_world: "quiet (world_run f)"
  by (simp add: quiet_def world_run_def case_prod_beta)

lemma quiet_try: "quiet (try_run f)"
  by (auto simp: quiet_def try_run_def bind_run_def world_run_def fail_run_def return_run_def
      split: prod.splits sum.splits)

lemma quiet_emit: "quiet (emit_run e)"
  by (simp add: quiet_def emit_run_def modify_run_def)

lemma quiet_gets: "quiet (gets_run f)"
  by (simp add: quiet_def gets_run_def)

lemma quiet_return: "quiet (return_run x)"
  by (simp add: quiet_def return_run_def)

lemma quiet_set_snapshot: "quiet (set_snapshot n sn)" and quiet_set_last_output: "quiet (set_last_output n out)"
  by (simp_all add: quiet_def set_snapshot_def set_last_output_def modify_run_def)

lemma quiet_handoff: "quiet (modify_run (\<lambda>s. s\<lparr>rs_store := recordHandoff n h (rs_store s)\<rparr>))"
  by (simp add: quiet_def modify_run_def recordHandoff_def split: option.splits)

lemmas quiet_intros = quiet_world quiet_try quiet_emit quiet_gets quiet_return quiet_set_snapshot
  quiet_set_last_output quiet_handoff

lemma quiet_dispatchHooks: "quiet (dispatchHooks env ev f node)"
  by (simp add: dispatchHooks_def quiet_intros)

text \<open>Calm runs do not fail either.\<close>

definition calm :: "('w, 'o, 'x) run \<Rightarrow> bool" where
  "calm m \<longleftrightarrow> quiet m \<and> (\<forall>s. case fst (m s) of Failed e \<Rightarrow> False | _ \<Rightarrow> True)"

lemma calm_world: "calm (world_run f)" and calm_emit: "calm (emit_run e)" and calm_gets: "calm (gets_run g)"
  and calm_return: "calm (return_run x)" and calm_set_snapshot: "calm (set_snapshot n sn)"
  and calm_set_last_output: "calm (set_last_output n out)"
  and calm_handoff: "calm (modify_run (\<lambda>s. s\<lparr>rs_store := recordHandoff n h (rs_store s)\<rparr>))"
  by (auto simp: calm_def quiet_intros)
     (simp_all add: world_run_def emit_run_def modify_run_def gets_run_def return_run_def
       set_snapshot_def set_last_output_def case_prod_beta)

lemma calm_isCancelled: "calm (isCancelled env)"
  by (simp add: isCancelled_def calm_world)

lemma calm_waitForRetryDelay: "calm (waitForRetryDelay env d)"
  by (simp add: waitForRetryDelay_def calm_world calm_return)

lemma calm_emitRuntimeRetry: "calm (emitRuntimeRetry n retry reason)"
  by (simp add: emitRuntimeRetry_def calm_emit)

lemmas calm_rules = calm_world calm_emit calm_gets calm_return calm_set_snapshot calm_set_last_output
  calm_handoff calm_isCancelled calm_waitForRetryDelay calm_emitRuntimeRetry

text \<open>A quiet step inside a computation.\<close>

lemma hoare_quiet_bind:
  fixes m :: "('w, 'o, 'x) run" and E :: "('w, 'o) run_state \<Rightarrow> bool"
  assumes "quiet m" "\<And>x. hoare tot D (on_node n P) (f x) R E" "\<And>s. P (cur n s) \<Longrightarrow> E s"
  shows "hoare tot D (on_node n P) (bind_run m f) R E"
proof (rule hoare_bind)
  show "hoare tot D (on_node n P) m (\<lambda>_. on_node n P) E"
    using quiet_hoare [OF assms(1), where n = n and P = P] by (rule hoare_conseq) (simp_all add: assms(3))
qed (rule assms(2))

lemma hoare_case_mono:
  "case m of (Ok x, s') \<Rightarrow> Q x s' | (Failed e, s') \<Rightarrow> E s' | (Defect i d, s') \<Rightarrow> D i d | (NoFuel, s') \<Rightarrow> F \<Longrightarrow>
   (\<And>e. fst m \<noteq> Failed e) \<Longrightarrow>
   case m of (Ok x, s') \<Rightarrow> Q x s' | (Failed e, s') \<Rightarrow> E' s' | (Defect i d, s') \<Rightarrow> D i d | (NoFuel, s') \<Rightarrow> F"
  by (cases m; cases "fst m") auto

lemma calm_hoare:
  fixes m :: "('w, 'o, 'x) run" and E :: "('w, 'o) run_state \<Rightarrow> bool"
  assumes "calm m"
  shows "hoare tot D (on_node n P) m (\<lambda>_. on_node n P) E"
proof -
  have quiet: "hoare tot D (on_node n P) m (\<lambda>_. on_node n P) (on_node n P)"
    using assms by (simp add: calm_def quiet_hoare)
  have calm: "fst (m s) \<noteq> Failed e" for s e using assms by (auto simp: calm_def dest: spec [of _ s])
  show ?thesis
    unfolding hoare_def
  proof (intro allI impI)
    fix s :: "('w, 'o) run_state" assume "on_node n P s"
    with quiet have "case m s of (Ok x, s') \<Rightarrow> on_node n P s' | (Failed e, s') \<Rightarrow> on_node n P s'
        | (Defect i d, s') \<Rightarrow> D i | (NoFuel, s') \<Rightarrow> \<not> tot"
      by (simp only: hoare_def)
    then show "case m s of (Ok x, s') \<Rightarrow> on_node n P s' | (Failed e, s') \<Rightarrow> E s'
        | (Defect i d, s') \<Rightarrow> D i | (NoFuel, s') \<Rightarrow> \<not> tot"
      by (rule hoare_case_mono) (rule calm)
  qed
qed

lemma hoare_calm_bind:
  fixes m :: "('w, 'o, 'x) run" and E :: "('w, 'o) run_state \<Rightarrow> bool"
  assumes "calm m" "\<And>x. hoare tot D (on_node n P) (f x) R E"
  shows "hoare tot D (on_node n P) (bind_run m f) R E"
  by (rule hoare_bind [OF calm_hoare [OF assms(1)] assms(2)])

lemma hoare_event:
  fixes env :: "('a, 'g, 'w) node_env" and E :: "('w, 'o) run_state \<Rightarrow> bool"
  assumes "\<And>st. P st \<Longrightarrow> ns_status st \<in> set (allowedFrom body)"
    and "\<And>st time. P st \<Longrightarrow> Q ((applyTransition st time body)\<lparr>ns_status := statusAfter body\<rparr>)"
  shows "hoare tot D (on_node n P) (recordNodeEvent env n body) (\<lambda>_. on_node n Q) E"
  unfolding hoare_def
proof (intro allI impI)
  fix s :: "('w, 'o) run_state" assume P: "P (cur n s)"
  obtain t w where now: "en_now env (rs_world s) = (t, w)" by (cases "en_now env (rs_world s)")
  have "ns_status (cur n s) \<in> set (allowedFrom body)" using assms(1) P by blast
  then have "recordNodeEvent env n body s = (Ok (), (s\<lparr>rs_world := w\<rparr>)\<lparr>rs_store := set_state n
      ((applyTransition (cur n s) t body)\<lparr>ns_status := statusAfter body\<rparr>) (rs_store s)\<rparr>)"
    using now by (simp add: recordNodeEvent_def bind_run_def world_run_def Let_def
        applyNodeExecutionEvent_def cur_def)
  then show "case recordNodeEvent env n body s of (Ok x, s') \<Rightarrow> Q (cur n s') | (Failed e, s') \<Rightarrow> E s'
      | (Defect i d, s') \<Rightarrow> D i | (NoFuel, s') \<Rightarrow> \<not> tot"
    using assms(2) [OF P, of t] by (simp add: cur_def new_tracker_def)
qed

lemma hoare_event_bind:
  fixes env :: "('a, 'g, 'w) node_env" and E :: "('w, 'o) run_state \<Rightarrow> bool"
  assumes "\<And>st. P st \<Longrightarrow> ns_status st \<in> set (allowedFrom body)"
    and "\<And>st time. P st \<Longrightarrow> Q ((applyTransition st time body)\<lparr>ns_status := statusAfter body\<rparr>)"
    and "hoare tot D (on_node n Q) (f ()) R E"
  shows "hoare tot D (on_node n P) (bind_run (recordNodeEvent env n body) f) R E"
  by (rule hoare_bind [OF hoare_event [of P body Q, OF assms(1,2)]]) (use assms(3) in simp_all)

lemma hoare_event_end:
  fixes env :: "('a, 'g, 'w) node_env" and E :: "('w, 'o) run_state \<Rightarrow> bool"
  assumes "\<And>st. P st \<Longrightarrow> ns_status st \<in> set (allowedFrom body)"
    and "\<And>st time. P st \<Longrightarrow> Q ((applyTransition st time body)\<lparr>ns_status := statusAfter body\<rparr>)"
    and "\<And>s. Q (cur n s) \<Longrightarrow> R x s"
  shows "hoare tot D (on_node n P) (bind_run (recordNodeEvent env n body) (\<lambda>_. return_run x)) R E"
  by (rule hoare_event_bind [of P body Q, OF assms(1,2)]) (use assms(3) in \<open>simp_all add: hoare_return\<close>)

subsection \<open>How a node's execution ends\<close>

text \<open>
  What the result of node \<open>n\<close> says together with its final state: \<open>R\<close> recognises the results of
  a remediation, \<open>A\<close> the attempt numbers a result may carry.
\<close>

definition final_ok ::
  "string \<Rightarrow> (node_result \<Rightarrow> bool) \<Rightarrow> (nat \<Rightarrow> bool) \<Rightarrow> node_result \<Rightarrow> node_execution_state \<Rightarrow> bool" where
  "final_ok n R A r st \<longleftrightarrow> nr_nodeId r = n \<and> (A (nr_attempts r) \<or> R r) \<and> (case ns_status st of
     PASSED_ST \<Rightarrow> nr_status r = ResultPassed \<and> ns_exitCode st = Some (nr_exitCode r) \<and>
       ns_output st = Some (nr_output r) \<and>
       (nr_exitCode r = 0 \<and> (\<forall>g \<in> set (ns_gates st). gr_passed g) \<or> R r)
   | FAILED_ST \<Rightarrow> nr_status r = ResultFailed \<and> nr_exitCode r \<noteq> 0 \<and> ns_failure st = Some (result_failure r)
   | CANCELLED_ST \<Rightarrow> ns_failure st = Some cancelledFailure \<and>
       (nr_status r = ResultPassed \<longleftrightarrow> nr_exitCode r = 0)
   | READY_ST \<Rightarrow> nr_status r = ResultFailed \<and> nr_evidence r = rf_evidence cancelledFailure
   | RUNNING_ST \<Rightarrow> nr_status r = ResultFailed \<and> nr_evidence r = rf_evidence cancelledFailure
   | _ \<Rightarrow> False)"

definition in_status :: "node_status set \<Rightarrow> node_execution_state \<Rightarrow> bool" where
  "in_status S st \<longleftrightarrow> ns_status st \<in> S"

abbreviation active :: "node_execution_state \<Rightarrow> bool" where
  "active \<equiv> in_status {RUNNING_ST, GATING_ST}"

text \<open>What one attempt cycle of attempt \<open>k\<close> leaves.\<close>

definition cycle_ok :: "string \<Rightarrow> nat \<Rightarrow> cycle_result \<Rightarrow> node_execution_state \<Rightarrow> bool" where
  "cycle_ok n k cycle st \<longleftrightarrow> (case cy_result cycle of
     Some r \<Rightarrow> final_ok n (\<lambda>_. False) (\<lambda>a. a = k) r st
   | None \<Rightarrow> (\<exists>retry. cy_retry cycle = Some retry \<and> at_attempt retry = k) \<and> active st)"

lemma hoare_if: "(b \<Longrightarrow> hoare tot D P m1 Q E) \<Longrightarrow> (\<not> b \<Longrightarrow> hoare tot D P m2 Q E) \<Longrightarrow> hoare tot D P (if b then m1 else m2) Q E"
  by simp

lemma hoare_case_option:
  "(x = None \<Longrightarrow> hoare tot D P m1 Q E) \<Longrightarrow> (\<And>y. x = Some y \<Longrightarrow> hoare tot D P (m2 y) Q E) \<Longrightarrow>
   hoare tot D P (case x of None \<Rightarrow> m1 | Some y \<Rightarrow> m2 y) Q E"
  by (simp split: option.split)

lemma hoare_status_bind:
  fixes env :: "('a, 'g, 'w) node_env" and E :: "('w, 'o) run_state \<Rightarrow> bool"
  assumes "S \<subseteq> set (allowedFrom body)"
    and "hoare tot D (on_node n (in_status {statusAfter body})) (f ()) R E"
  shows "hoare tot D (on_node n (in_status S)) (bind_run (recordNodeEvent env n body) f) R E"
  by (rule hoare_event_bind [where Q = "in_status {statusAfter body}"])
     (use assms in \<open>auto simp: in_status_def\<close>)

definition ends :: "string \<Rightarrow> nat \<Rightarrow> cycle_result \<Rightarrow> node_execution_state \<Rightarrow> bool" where
  "ends n k cycle st \<longleftrightarrow> (\<exists>r. cy_result cycle = Some r \<and> final_ok n (\<lambda>_. False) (\<lambda>a. a = k) r st)"

lemma ends_cycle_ok: "ends n k cycle st \<Longrightarrow> cycle_ok n k cycle st"
  by (auto simp: ends_def cycle_ok_def)

lemma cancelledCycle_ends:
  "in_status {READY_ST, RUNNING_ST} st \<Longrightarrow> ends n k (cancelledCycle n k previous) st"
  by (auto simp: ends_def cancelledCycle_def final_ok_def nodeFailure_def in_status_def)

lemma hoare_failedHookCycle:
  "S \<subseteq> {RUNNING_ST, GATING_ST} \<Longrightarrow> hoare tot D (on_node n (in_status S)) (failedHookCycle env n k previous evidence)
     (\<lambda>cycle. on_node n (ends n k cycle)) E"
  unfolding failedHookCycle_def Let_def
  by (rule hoare_event_end [where Q = "\<lambda>st. ns_status st = FAILED_ST \<and> ns_failure st =
          Some (result_failure (nodeFailure n k evidence (ar_output previous) 1))"])
     (auto simp: in_status_def ends_def final_ok_def nodeFailure_def)

lemma in_status_mono: "in_status S st \<Longrightarrow> S \<subseteq> T \<Longrightarrow> in_status T st"
  by (auto simp: in_status_def)

lemma hoare_status_end:
  fixes env :: "('a, 'g, 'w) node_env" and E :: "('w, 'o) run_state \<Rightarrow> bool"
  assumes "S \<subseteq> set (allowedFrom body)" and "statusAfter body \<in> T"
  shows "hoare tot D (on_node n (in_status S)) (recordNodeEvent env n body) (\<lambda>_. on_node n (in_status T)) E"
  by (rule hoare_event) (use assms in \<open>auto simp: in_status_def\<close>)

lemma hoare_case_prod:
  "(\<And>a b. x = (a, b) \<Longrightarrow> hoare tot D P (f a b) Q E) \<Longrightarrow> hoare tot D P (case x of (a, b) \<Rightarrow> f a b) Q E"
  by (cases x) simp

lemmas hoare_steps = hoare_if hoare_case_option hoare_case_prod hoare_status_bind
  hoare_calm_bind [OF calm_isCancelled] hoare_calm_bind [OF calm_emit] hoare_calm_bind [OF calm_world]
  hoare_calm_bind [OF calm_gets] hoare_calm_bind [OF calm_set_snapshot] hoare_calm_bind [OF calm_return]
  hoare_calm_bind [OF calm_set_last_output] hoare_calm_bind [OF calm_handoff]
  hoare_quiet_bind [OF quiet_dispatchHooks] hoare_quiet_bind [OF quiet_try]

lemma hoare_beginNodeAttempt:
  "hoare tot D (on_node (pn_id node) (in_status {READY_ST, RUNNING_ST}))
     (beginNodeAttempt env node k previous)
     (\<lambda>c. on_node (pn_id node) (case c of None \<Rightarrow> in_status {RUNNING_ST} | Some cycle \<Rightarrow> ends (pn_id node) k cycle))
     (on_node (pn_id node) (in_status {RUNNING_ST}))"
proof -
  have run: "in_status {RUNNING_ST} st \<Longrightarrow> in_status {READY_ST, RUNNING_ST} st" for st
    by (simp add: in_status_def)
  have hook: "hoare tot D (on_node (pn_id node) (in_status {RUNNING_ST}))
     (bind_run (failedHookCycle env (pn_id node) k previous ev) (\<lambda>cycle. return_run (Some cycle)))
     (\<lambda>c. on_node (pn_id node) (case c of None \<Rightarrow> in_status {RUNNING_ST} | Some cycle \<Rightarrow> ends (pn_id node) k cycle)) E"
    for ev and E
    by (rule hoare_bind [OF hoare_failedHookCycle]) (auto intro: hoare_return)
  show ?thesis
    unfolding beginNodeAttempt_def
    by (rule hoare_steps hook | (rule hoare_return, simp add: cancelledCycle_ends run) | simp)+
qed

lemma hoare_recordAttemptOutput:
  "hoare tot D (on_node (pn_id node) (in_status {RUNNING_ST})) (recordAttemptOutput env node k lastR)
     (\<lambda>_. on_node (pn_id node) (in_status {RUNNING_ST})) E"
proof -
  have diff: "calm (case b of None \<Rightarrow> return_run () | Some before \<Rightarrow> set_snapshot (pn_id node) (d before))" for b d
    by (simp add: calm_rules split: option.split)
  show ?thesis
    unfolding recordAttemptOutput_def
    by (rule hoare_steps hoare_calm_bind [OF diff] hoare_status_end | simp)+
qed

lemma hoare_executeNodeAttempt:
  "hoare tot D (on_node n P) (executeNodeAttempt env node k) (\<lambda>_. on_node n P) (on_node n P)"
  unfolding executeNodeAttempt_def
  by (rule hoare_steps hoare_return quiet_hoare [OF quiet_try] | simp)+

lemma hoare_runNodeAttemptBody:
  "hoare tot D (on_node (pn_id node) (in_status {RUNNING_ST})) (runNodeAttemptBody env node k)
     (\<lambda>_. on_node (pn_id node) (in_status {RUNNING_ST})) (on_node (pn_id node) (in_status {RUNNING_ST}))"
  unfolding runNodeAttemptBody_def
  by (rule hoare_steps hoare_bind [OF hoare_executeNodeAttempt] hoare_bind [OF hoare_recordAttemptOutput]
        hoare_return | simp)+

subsection \<open>The attempt cycle\<close>

lemma hoare_cancelledNodeResult:
  fixes env :: "('a, 'g, 'w) node_env" and E :: "('w, 'o) run_state \<Rightarrow> bool"
  assumes "\<And>st. P st \<Longrightarrow> in_status {RUNNING_ST, GATING_ST} st"
  shows "hoare tot D (on_node n P) (cancelledNodeResult env n k lastR)
     (\<lambda>c. on_node n (case c of None \<Rightarrow> P | Some r \<Rightarrow> ends n k (result_cycle lastR r))) E"
  unfolding cancelledNodeResult_def Let_def
  apply (rule hoare_steps)+
   apply (rule hoare_return, simp)
  apply (rule hoare_event_end [where Q = "\<lambda>st. ns_status st = CANCELLED_ST \<and> ns_failure st = Some cancelledFailure"])
    apply (use assms in \<open>auto simp: in_status_def ends_def final_ok_def result_cycle_def\<close>)
  done

text \<open>The gates of a node in its gating status have all passed.\<close>

definition gates_passed :: "node_execution_state \<Rightarrow> bool" where
  "gates_passed st \<longleftrightarrow> ns_status st = GATING_ST \<and> (\<forall>g \<in> set (ns_gates st). gr_passed g)"

lemma hoare_successfulAttemptCycle:
  assumes "ar_exitCode lastR = 0"
  shows "hoare tot D (on_node (pn_id node) gates_passed)
     (successfulAttemptCycle env node k lastR)
     (\<lambda>cycle. on_node (pn_id node) (ends (pn_id node) k cycle)) (on_node (pn_id node) active)"
proof -
  have hook: "hoare tot D (on_node (pn_id node) gates_passed)
      (failedHookCycle env (pn_id node) k lastR ev) (\<lambda>cycle. on_node (pn_id node) (ends (pn_id node) k cycle)) E"
    for ev and E
    by (rule hoare_conseq [OF hoare_failedHookCycle [of "{GATING_ST}"]]) (auto simp: gates_passed_def in_status_def)
  have cancel: "hoare tot D (on_node (pn_id node) gates_passed) (cancelledNodeResult env (pn_id node) k lastR)
     (\<lambda>c. on_node (pn_id node) (case c of None \<Rightarrow> gates_passed | Some r \<Rightarrow> ends (pn_id node) k (result_cycle lastR r))) E" for E
    by (rule hoare_cancelledNodeResult) (simp add: gates_passed_def in_status_def)
  have pass: "hoare tot D (on_node (pn_id node) gates_passed) (passedCycle env (pn_id node) k lastR)
      (\<lambda>cycle. on_node (pn_id node) (ends (pn_id node) k cycle)) E" for E
    unfolding passedCycle_def Let_def
    by (rule hoare_event_end [where Q = "\<lambda>st. ns_status st = PASSED_ST \<and> (\<forall>g \<in> set (ns_gates st). gr_passed g) \<and>
          ns_exitCode st = Some 0 \<and> ns_output st = Some (ar_output lastR)"])
       (auto simp: gates_passed_def stateFromResult_def passedNodeResult_def ends_def final_ok_def)
  show ?thesis
    unfolding successfulAttemptCycle_def
    apply (rule hoare_steps)+
      apply (rule hoare_bind [OF cancel])
      apply (simp add: pass hoare_return split: option.split)
     apply (rule hook)
    apply (simp add: gates_passed_def in_status_def)
    done
qed

lemma hoare_evaluateGatesForAttempt:
  "hoare tot D (on_node (pn_id node) (in_status {RUNNING_ST})) (evaluateGatesForAttempt env node lastR)
     (\<lambda>gs. on_node (pn_id node) (\<lambda>st. ns_status st = GATING_ST \<and> ns_gates st = gs)) (on_node (pn_id node) active)"
proof -
  have finished: "hoare tot D (on_node (pn_id node) (in_status {GATING_ST}))
      (bind_run (recordNodeEvent env (pn_id node) (GATES_FINISHED gs)) (\<lambda>_. return_run gs))
      (\<lambda>gs. on_node (pn_id node) (\<lambda>st. ns_status st = GATING_ST \<and> ns_gates st = gs)) E" for gs and E
    by (rule hoare_event_end [where Q = "\<lambda>st. ns_status st = GATING_ST \<and> ns_gates st = gs"])
       (auto simp: in_status_def)
  show ?thesis
    unfolding evaluateGatesForAttempt_def
    apply (rule hoare_status_bind)
     apply simp
    apply (rule hoare_quiet_bind [OF quiet_gets])
     apply (rule hoare_quiet_bind [OF quiet_try])
      apply (simp add: finished)
     apply (simp_all add: in_status_def)
    done
qed

lemma retryCycle_ok:
  "active st \<Longrightarrow> cycle_ok n k (retryCycle node k lastR failedGate) st"
  by (simp add: cycle_ok_def retryCycle_def)

lemma no_failed_gate:
  "List.find (\<lambda>gate. \<not> gr_passed gate) gs = None \<Longrightarrow> \<forall>g \<in> set gs. gr_passed g"
  by (auto simp: find_None_iff)

lemma hoare_finishNodeAttemptAfterGates:
  "hoare tot D (on_node (pn_id node) (in_status {RUNNING_ST})) (finishNodeAttemptAfterGates env node k lastR)
     (\<lambda>cycle. on_node (pn_id node) (cycle_ok (pn_id node) k cycle)) (on_node (pn_id node) active)"
proof -
  have infra: "hoare tot D (on_node (pn_id node) (in_status {RUNNING_ST}))
      (finishNodeAttemptWithGate env node k lastR None)
      (\<lambda>cycle. on_node (pn_id node) (cycle_ok (pn_id node) k cycle)) (on_node (pn_id node) active)"
    if "ar_exitCode lastR = EXIT_INFRA"
    unfolding finishNodeAttemptWithGate_def using that
    by (auto simp: EXIT_INFRA_def in_status_def intro!: hoare_return retryCycle_ok)
  have gated: "hoare tot D (on_node (pn_id node) (\<lambda>st. ns_status st = GATING_ST \<and> ns_gates st = gs))
      (finishNodeAttemptWithGate env node k lastR (List.find (\<lambda>gate. \<not> gr_passed gate) gs))
      (\<lambda>cycle. on_node (pn_id node) (cycle_ok (pn_id node) k cycle)) (on_node (pn_id node) active)" for gs
    unfolding finishNodeAttemptWithGate_def
    apply (rule hoare_if)
     apply (rule hoare_return, simp add: retryCycle_ok in_status_def)
    apply (rule hoare_conseq [OF hoare_successfulAttemptCycle])
       apply simp
      apply (auto simp: gates_passed_def dest: no_failed_gate)[1]
     apply (simp add: ends_cycle_ok)
    apply simp
    done
  have cancel: "hoare tot D (on_node (pn_id node) (\<lambda>st. ns_status st = GATING_ST \<and> ns_gates st = gs))
     (cancelledNodeResult env (pn_id node) k lastR)
     (\<lambda>c. on_node (pn_id node) (case c of None \<Rightarrow> (\<lambda>st. ns_status st = GATING_ST \<and> ns_gates st = gs)
        | Some r \<Rightarrow> ends (pn_id node) k (result_cycle lastR r))) E" for E gs
    by (rule hoare_cancelledNodeResult) (simp add: in_status_def)
  show ?thesis
    unfolding finishNodeAttemptAfterGates_def
    apply (rule hoare_if)
     apply (erule infra)
    apply (rule hoare_bind [OF hoare_evaluateGatesForAttempt])
    apply (rule hoare_bind [OF cancel])
    apply (simp add: gated ends_cycle_ok hoare_return split: option.split)
    done
qed

lemma hoare_executeNodeAttemptCycle:
  "hoare tot D (on_node (pn_id node) (in_status {READY_ST, RUNNING_ST}))
     (executeNodeAttemptCycle env node k previous)
     (\<lambda>cycle. on_node (pn_id node) (cycle_ok (pn_id node) k cycle)) (on_node (pn_id node) active)"
proof -
  have cancel: "hoare tot D (on_node (pn_id node) (in_status {RUNNING_ST}))
     (cancelledNodeResult env (pn_id node) k lastR)
     (\<lambda>c. on_node (pn_id node) (case c of None \<Rightarrow> in_status {RUNNING_ST}
        | Some r \<Rightarrow> ends (pn_id node) k (result_cycle lastR r))) E" for E lastR
    by (rule hoare_cancelledNodeResult) (simp add: in_status_def)
  have run: "hoare tot D (on_node (pn_id node) (in_status {RUNNING_ST}))
     (bind_run (runNodeAttemptBody env node k) (\<lambda>lastR.
        bind_run (cancelledNodeResult env (pn_id node) k lastR) (\<lambda>c. case c of
            Some result \<Rightarrow> return_run (result_cycle lastR result)
          | None \<Rightarrow> finishNodeAttemptAfterGates env node k lastR)))
     (\<lambda>cycle. on_node (pn_id node) (cycle_ok (pn_id node) k cycle)) (on_node (pn_id node) active)"
    apply (rule hoare_bind [OF hoare_conseq [OF hoare_runNodeAttemptBody]])
       apply assumption
      apply assumption
     apply (simp add: in_status_def)
    apply (rule hoare_bind [OF cancel])
    apply (simp add: hoare_finishNodeAttemptAfterGates ends_cycle_ok hoare_return split: option.split)
    done
  show ?thesis
    unfolding executeNodeAttemptCycle_def
    apply (rule hoare_bind [OF hoare_conseq [OF hoare_beginNodeAttempt]])
       apply assumption
      apply assumption
     apply (simp add: in_status_def)
    apply (simp add: run ends_cycle_ok hoare_return split: option.split)
    done
qed

subsection \<open>The retry loop\<close>

lemma hoare_match:
  fixes m :: "('w, 'o, 'x) run"
  shows "hoare tot D P m Q E \<Longrightarrow> hoare tot D P (match_run m) (\<lambda>r s. case r of Inl e \<Rightarrow> E s | Inr x \<Rightarrow> Q x s) F"
  unfolding hoare_def
proof (intro allI impI)
  fix s :: "('w, 'o) run_state" assume all: "\<forall>s. P s \<longrightarrow> (case m s of (Ok x, s') \<Rightarrow> Q x s' | (Failed e, s') \<Rightarrow> E s'
      | (Defect i d, s') \<Rightarrow> D i | (NoFuel, s') \<Rightarrow> \<not> tot)" and "P s"
  obtain r s' where m: "m s = (r, s')" by (cases "m s")
  from all \<open>P s\<close> m show "case match_run m s of
      (Ok r, s') \<Rightarrow> (case r of Inl e \<Rightarrow> E s' | Inr x \<Rightarrow> Q x s') | (Failed e, s') \<Rightarrow> F s'
      | (Defect i d, s') \<Rightarrow> D i | (NoFuel, s') \<Rightarrow> \<not> tot"
    by (cases r) (auto simp: match_run_def dest!: spec [of _ s])
qed

text \<open>The attempt numbers of a bounded loop, and what one round and its step leave behind.\<close>

definition attempt_bound :: "bool \<Rightarrow> ('a, 'g) planned_node \<Rightarrow> nat \<Rightarrow> bool" where
  "attempt_bound tot node k \<longleftrightarrow> (tot \<longrightarrow> k \<le> max 1 (rp_maxAttempts (nodeRetryPolicy node)))"

definition step_ok ::
  "bool \<Rightarrow> ('a, 'g) planned_node \<Rightarrow> (node_result \<Rightarrow> bool) \<Rightarrow> nat \<Rightarrow> loop_step \<Rightarrow> node_execution_state \<Rightarrow> bool" where
  "step_ok tot node R k step st \<longleftrightarrow> (case step of
     ResultStep r \<Rightarrow> final_ok (pn_id node) R (attempt_bound tot node) r st
   | FailedStep \<Rightarrow> active st
   | RetryStep \<Rightarrow> ns_status st = RUNNING_ST \<and> (tot \<longrightarrow> k < rp_maxAttempts (nodeRetryPolicy node)))"

definition loop_ok ::
  "bool \<Rightarrow> ('a, 'g) planned_node \<Rightarrow> (node_result \<Rightarrow> bool) \<Rightarrow> nat \<Rightarrow> loop_state \<times> loop_step \<Rightarrow>
   node_execution_state \<Rightarrow> bool" where
  "loop_ok tot node R k res st \<longleftrightarrow> step_ok tot node R k (snd res) st \<and>
     (snd res = FailedStep \<longrightarrow>
        (\<exists>retry. ls_retry (fst res) = Some retry \<and> attempt_bound tot node (at_attempt retry)))"

text \<open>
  What the retry loop asks of remediation: it leaves the state of the node it remediates alone,
  the result it passes the node with is the node's own and passed, and, where the loop is to be
  bounded (\<open>tot\<close>), it does not ask for another attempt of the node.
\<close>

locale remediating =
  fixes tot :: bool and D :: "string \<Rightarrow> bool" and node :: "('a, 'g) planned_node" and remediate :: "('a, 'g, 'w, 'o) remediator"
    and R :: "node_result \<Rightarrow> bool"
  assumes remediate_frame: "hoare tot D (on_node (pn_id node) P) (remediate k node retry)
      (\<lambda>res s. on_node (pn_id node) P s \<and> (\<forall>r. remediationPassedResult res = Some r \<longrightarrow> R r) \<and>
        (tot \<longrightarrow> \<not> remediationRequestsRetry res)) (on_node (pn_id node) P)"
    and R_own: "R r \<Longrightarrow> nr_nodeId r = pn_id node \<and> nr_status r = ResultPassed"
begin

abbreviation in_bound :: "nat \<Rightarrow> bool" where
  "in_bound \<equiv> attempt_bound tot node"

abbreviation settled :: "node_result \<Rightarrow> node_execution_state \<Rightarrow> bool" where
  "settled \<equiv> final_ok (pn_id node) R in_bound"

lemma ends_settled: "ends (pn_id node) k cycle st \<Longrightarrow> in_bound k \<Longrightarrow> \<exists>r. cy_result cycle = Some r \<and> settled r st"
  by (auto simp: ends_def final_ok_def split: node_status.splits)

lemma hoare_emitRemediationPass:
  fixes env :: "('a, 'g, 'w) node_env" and E :: "('w, 'o) run_state \<Rightarrow> bool"
  assumes "R r"
  shows "hoare tot D (on_node (pn_id node) active)
     (bind_run (emitRemediationPass env (pn_id node) r) (\<lambda>_. return_run (ResultStep r)))
     (\<lambda>step. on_node (pn_id node) (step_ok tot node R k step)) E"
proof -
  have "hoare tot D (on_node (pn_id node) active) (emitRemediationPass env (pn_id node) r)
      (\<lambda>_. on_node (pn_id node) (settled r)) E"
    unfolding emitRemediationPass_def
    apply (rule hoare_event_bind [where Q = "settled r"])
      apply (auto simp: in_status_def)[1]
     apply (use assms R_own [OF assms] in \<open>auto simp: final_ok_def stateFromResult_def\<close>)[1]
    apply (rule calm_hoare [OF calm_emit])
    done
  then show ?thesis by (rule hoare_bind) (simp add: hoare_return step_ok_def)
qed

lemma hoare_scheduleNodeRetry:
  fixes env :: "('a, 'g, 'w) node_env" and E :: "('w, 'o) run_state \<Rightarrow> bool"
  shows "hoare tot D (on_node (pn_id node) active)
     (scheduleNodeRetry env node (nodeRetryPolicy node) retry k)
     (\<lambda>step. on_node (pn_id node) (step_ok tot node R k step)) E"
  unfolding scheduleNodeRetry_def Let_def recordRetryingNodeEvent_def
  by (rule hoare_steps hoare_calm_bind [OF calm_emitRuntimeRetry] hoare_calm_bind [OF calm_waitForRetryDelay]
    | (rule hoare_return, simp add: step_ok_def in_status_def decideNodeRetry_scheduled) | simp)+

lemma hoare_continueAfterRetryCandidate:
  fixes env :: "('a, 'g, 'w) node_env"
  shows "hoare tot D (on_node (pn_id node) active)
     (continueAfterRetryCandidate env remediate node (nodeRetryPolicy node) retry k)
     (\<lambda>step. on_node (pn_id node) (step_ok tot node R k step)) (on_node (pn_id node) active)"
proof -
  have asked: "\<not> tot \<Longrightarrow> hoare tot D (on_node (pn_id node) active)
      (bind_run (recordRemediationRetryingNodeEvent env (pn_id node) k retry) (\<lambda>_. return_run RetryStep))
      (\<lambda>step. on_node (pn_id node) (step_ok tot node R k step)) E" for E
    unfolding recordRemediationRetryingNodeEvent_def recordRetryingNodeEvent_def
    by (rule hoare_steps | (rule hoare_return, simp add: step_ok_def in_status_def) | simp)+
  show ?thesis
    unfolding continueAfterRetryCandidate_def
    apply (rule hoare_bind [OF remediate_frame])
    apply (rule hoare_case_option)
     apply (rule hoare_if)
      apply (rule hoare_pre [where c = "\<not> tot"], simp)
      apply (rule hoare_conseq [OF asked], assumption, simp, simp, simp)
     apply (rule hoare_conseq [OF hoare_scheduleNodeRetry], simp, simp, simp)
    subgoal for res r
      apply (rule hoare_pre [where c = "R r"], simp)
      apply (rule hoare_conseq [OF hoare_emitRemediationPass], assumption, simp, simp, simp)
      done
    done
qed

lemma hoare_continueAfterAttemptCycle:
  fixes env :: "('a, 'g, 'w) node_env"
  assumes "in_bound k"
  shows "hoare tot D (on_node (pn_id node) (cycle_ok (pn_id node) k cycle))
     (continueAfterAttemptCycle env remediate node (nodeRetryPolicy node) st k cycle)
     (\<lambda>res. on_node (pn_id node) (loop_ok tot node R k res)) (on_node (pn_id node) active)"
proof (cases "cy_result cycle")
  case None
  show ?thesis
  proof (rule hoare_pre)
    show "on_node (pn_id node) (cycle_ok (pn_id node) k cycle) s \<Longrightarrow>
        \<exists>retry. cy_retry cycle = Some retry \<and> at_attempt retry = k" for s :: "('w, 'o) run_state"
      by (simp add: cycle_ok_def None)
  next
    assume "\<exists>retry. cy_retry cycle = Some retry \<and> at_attempt retry = k"
    then obtain retry where retry: "cy_retry cycle = Some retry" "at_attempt retry = k" by blast
    show ?thesis
      unfolding continueAfterAttemptCycle_def None Let_def option.case
      apply (rule hoare_bind [OF hoare_conseq [OF hoare_continueAfterRetryCandidate]])
         apply (simp add: cycle_ok_def None)
        apply assumption
       apply assumption
      apply (rule hoare_return)
      apply (use retry assms in \<open>auto simp: loop_ok_def retryCandidateForCycle_def\<close>)
      done
  qed
next
  case (Some r)
  show ?thesis
    unfolding continueAfterAttemptCycle_def Some option.case
    apply (rule hoare_calm_bind [OF calm_emit])
    apply (rule hoare_return)
    using assms apply (auto simp: cycle_ok_def Some loop_ok_def step_ok_def final_ok_def split: node_status.splits)
    done
qed

lemma hoare_runSingleNodeAttempt:
  fixes env :: "('a, 'g, 'w) node_env"
  assumes "in_bound k"
  shows "hoare tot D (on_node (pn_id node) (in_status {READY_ST, RUNNING_ST}))
     (runSingleNodeAttempt env remediate node (nodeRetryPolicy node) st k)
     (\<lambda>res. on_node (pn_id node) (loop_ok tot node R k res)) (on_node (pn_id node) active)"
proof -
  have failed: "hoare tot D (on_node (pn_id node) active)
      (bind_run (retryFromAttemptError env node k lst err) (\<lambda>retry. return_run (st\<lparr>ls_retry := Some retry\<rparr>, FailedStep)))
      (\<lambda>res. on_node (pn_id node) (loop_ok tot node R k res)) E" for lst err and E :: "('w, 'o) run_state \<Rightarrow> bool"
  proof -
    have "hoare tot D (on_node (pn_id node) active) (retryFromAttemptError env node k lst err)
        (\<lambda>retry s. on_node (pn_id node) active s \<and> at_attempt retry = k) E"
      unfolding retryFromAttemptError_def
      by (rule hoare_steps)+ (rule hoare_return, simp add: cancelledRetry_def failedAttemptRetry_def Let_def)
    then show ?thesis
      by (rule hoare_bind) (rule hoare_return, simp add: loop_ok_def step_ok_def assms)
  qed
  have finished: "hoare tot D (on_node (pn_id node) (cycle_ok (pn_id node) k cycle))
      (continueAfterAttemptCycle env remediate node (nodeRetryPolicy node) lst k cycle)
      (\<lambda>res. on_node (pn_id node) (loop_ok tot node R k res)) (on_node (pn_id node) active)" for cycle lst
    by (rule hoare_continueAfterAttemptCycle) (rule assms)
  show ?thesis
    unfolding runSingleNodeAttempt_def
    by (rule hoare_bind [OF hoare_match [OF hoare_executeNodeAttemptCycle]])
       (simp add: failed finished split: sum.split)
qed

text \<open>The bounded loop needs no more fuel than it has attempts left.\<close>

lemma hoare_runNodeAttempts:
  fixes env :: "('a, 'g, 'w) node_env"
  assumes "in_bound k" "tot \<Longrightarrow> max 1 (rp_maxAttempts (nodeRetryPolicy node)) < k + fuel"
  shows "hoare tot D (on_node (pn_id node) (in_status {READY_ST, RUNNING_ST}))
     (runNodeAttempts fuel env remediate node (nodeRetryPolicy node) st k)
     (\<lambda>res. on_node (pn_id node) (\<lambda>s. case snd res of
         Some r \<Rightarrow> settled r s
       | None \<Rightarrow> active s \<and> (\<exists>retry. ls_retry (fst res) = Some retry \<and> in_bound (at_attempt retry))))
     (on_node (pn_id node) active)"
  using assms
proof (induction fuel arbitrary: k st)
  case 0
  then have "\<not> tot" by (auto simp: attempt_bound_def)
  then show ?case by (simp add: hoare_no_fuel)
next
  case (Suc fuel)
  show ?case
    unfolding runNodeAttempts.simps
  proof (rule hoare_bind [OF hoare_runSingleNodeAttempt [OF Suc.prems(1)]], rule hoare_case_prod)
    fix res :: "loop_state \<times> loop_step" and st' loopStep assume res: "res = (st', loopStep)"
    show "hoare tot D (on_node (pn_id node) (loop_ok tot node R k res))
      (case loopStep of RetryStep \<Rightarrow> runNodeAttempts fuel env remediate node (nodeRetryPolicy node) st' (k + 1)
        | FailedStep \<Rightarrow> return_run (st', None) | ResultStep result \<Rightarrow> return_run (st', Some result))
      (\<lambda>res. on_node (pn_id node) (\<lambda>s. case snd res of
         Some r \<Rightarrow> settled r s
       | None \<Rightarrow> active s \<and> (\<exists>retry. ls_retry (fst res) = Some retry \<and> in_bound (at_attempt retry))))
      (on_node (pn_id node) active)"
    proof (cases loopStep)
      case RetryStep
      show ?thesis
      proof (rule hoare_pre)
        show "on_node (pn_id node) (loop_ok tot node R k res) s \<Longrightarrow>
            tot \<longrightarrow> k < rp_maxAttempts (nodeRetryPolicy node)" for s :: "('w, 'o) run_state"
          by (simp add: loop_ok_def res RetryStep step_ok_def)
      next
        assume more_left: "tot \<longrightarrow> k < rp_maxAttempts (nodeRetryPolicy node)"
        have "in_bound (k + 1)" "tot \<Longrightarrow> max 1 (rp_maxAttempts (nodeRetryPolicy node)) < k + 1 + fuel"
          using more_left Suc.prems(2) by (auto simp: attempt_bound_def)
        from Suc.IH [OF this] show ?thesis
          unfolding RetryStep loop_step.case
          by (rule hoare_conseq) (auto simp: loop_ok_def res RetryStep step_ok_def in_status_def)
      qed
    qed (auto simp: res loop_ok_def step_ok_def intro!: hoare_return)
  qed
qed

lemma hoare_finishFailedNode:
  fixes env :: "('a, 'g, 'w) node_env"
  assumes "in_bound (at_attempt retry)"
  shows "hoare tot D (on_node (pn_id node) active) (finishFailedNode env node lastR retry)
     (\<lambda>r. on_node (pn_id node) (settled r)) (on_node (pn_id node) active)"
  unfolding finishFailedNode_def Let_def
  apply (rule hoare_quiet_bind [OF quiet_dispatchHooks])
   apply (rule hoare_event_bind [where Q = "settled (nodeFailure (pn_id node) (at_attempt retry) (at_evidence retry)
        (ar_output lastR) (if ar_exitCode lastR = EXIT_INFRA then EXIT_INFRA else 1))"])
     apply (simp add: in_status_def)
    apply (use assms in \<open>simp add: final_ok_def nodeFailure_def EXIT_INFRA_def\<close>)
   apply (rule hoare_steps)
   apply (rule hoare_return, simp)
  apply simp
  done

lemma executeNode_settles:
  fixes env :: "('a, 'g, 'w) node_env"
  assumes "tot \<Longrightarrow> max 1 (rp_maxAttempts (nodeRetryPolicy node)) \<le> fuel"
  shows "hoare tot D (on_node (pn_id node) (in_status {READY_ST, RUNNING_ST}))
     (executeNode_with fuel env remediate node)
     (\<lambda>r. on_node (pn_id node) (settled r)) (on_node (pn_id node) active)"
proof -
  have "hoare tot D (on_node (pn_id node) (in_status {READY_ST, RUNNING_ST}))
     (runNodeAttempts fuel env remediate node (nodeRetryPolicy node) initialAttemptLoopState 1)
     (\<lambda>res. on_node (pn_id node) (\<lambda>s. case snd res of
         Some r \<Rightarrow> settled r s
       | None \<Rightarrow> active s \<and> (\<exists>retry. ls_retry (fst res) = Some retry \<and> in_bound (at_attempt retry))))
     (on_node (pn_id node) active)"
    by (rule hoare_runNodeAttempts) (use assms in \<open>auto simp: attempt_bound_def\<close>)
  then show ?thesis
    unfolding executeNode_with_def Let_def
  proof (rule hoare_bind)
    fix res :: "loop_state \<times> node_result option"
    obtain st result where res: "res = (st, result)" by (cases res)
    show "hoare tot D (on_node (pn_id node) (\<lambda>s. case snd res of
         Some r \<Rightarrow> settled r s
       | None \<Rightarrow> active s \<and> (\<exists>retry. ls_retry (fst res) = Some retry \<and> in_bound (at_attempt retry))))
      (case res of (st, result) \<Rightarrow> case result of Some r \<Rightarrow> return_run r
        | None \<Rightarrow> finishFailedNode env node (ls_last st)
            (or_else (ls_retry st) (exhaustedRetry node (rp_maxAttempts (nodeRetryPolicy node)) (ls_last st))))
      (\<lambda>r. on_node (pn_id node) (settled r)) (on_node (pn_id node) active)"
    proof (cases result)
      case None
      have "hoare tot D (on_node (pn_id node) active)
          (finishFailedNode env node (ls_last st) (or_else (ls_retry st) d))
          (\<lambda>r. on_node (pn_id node) (settled r)) (on_node (pn_id node) active)"
        if "\<exists>retry. ls_retry st = Some retry \<and> in_bound (at_attempt retry)" for d
        using that by (elim exE conjE) (simp add: hoare_finishFailedNode)
      note finish = this
      show ?thesis
        unfolding res None prod.case option.case snd_conv fst_conv
        apply (rule hoare_pre [where c = "\<exists>retry. ls_retry st = Some retry \<and> in_bound (at_attempt retry)"])
         apply (erule conjunct2)
        apply (rule hoare_conseq [OF finish], assumption)
          apply (erule conjunct1)
         apply assumption+
        done
    qed (simp add: res hoare_return)
  qed
qed

end

end
