(* ===== verification/Remediation.thy ===== *)
theory Remediation
  imports NodeProtocol
begin

text \<open>
  Remediation of a failed node (\<^verbatim>\<open>src/runtime/remediation/remediation.ts\<close>) and the executor it is
  tied to (\<open>executeNode\<close> and \<open>executePlannedNode\<close> of \<^verbatim>\<open>src/runtime/node-execution.ts\<close>). A
  remediation runs a further node under an id with \<open>:remediate:\<close> in it: the failed node itself with
  the gate's feedback, or the implementation nodes it depends on. The strategies take the
  executor as an argument \<open>exec\<close>; the recursion of the two is bounded by the fuel of
  \<open>executeNode\<close>, of which a remediation needs one unit only.
\<close>

subsection \<open>Who can be remediated\<close>

definition remediate_mark :: "string" where
  "remediate_mark = '':remediate:''"

definition isRemediationNode :: "('a, 'g) planned_node \<Rightarrow> bool" where
  "isRemediationNode node \<longleftrightarrow> str_includes (pn_id node) remediate_mark"

definition isWriteTool :: "string \<Rightarrow> bool" where
  "isWriteTool t \<longleftrightarrow> (if t = ''edit'' then True else t = ''write'')"

definition hasWriteTool :: "string list \<Rightarrow> bool" where
  "hasWriteTool tools \<longleftrightarrow> (\<exists>t \<in> set tools. isWriteTool t)"

definition hasWorkspaceWriteMode :: "profile \<Rightarrow> bool" where
  "hasWorkspaceWriteMode p \<longleftrightarrow> pf_filesystem_mode p = Some ''workspace-write''"

definition profileCanWrite :: "profile option \<Rightarrow> bool" where
  "profileCanWrite p = (case p of None \<Rightarrow> False
     | Some p \<Rightarrow> if hasWorkspaceWriteMode p then True else hasWriteTool (or_else (pf_tools p) []))"

definition nodeCanWrite :: "('a, 'g) run_context \<Rightarrow> ('a, 'g) planned_node \<Rightarrow> bool" where
  "nodeCanWrite cx node = (case truthy (pn_profile node) of None \<Rightarrow> False
     | Some profileId \<Rightarrow> profileCanWrite (map_of (cx_profiles cx) profileId))"

definition hasSchedulingRole :: "('a, 'g) run_context \<Rightarrow> ('a, 'g) planned_node \<Rightarrow> string \<Rightarrow> bool" where
  "hasSchedulingRole cx node role = (case truthy (pn_profile node) of None \<Rightarrow> False
     | Some profileId \<Rightarrow>
         (case Option.bind (map_of (cx_profiles cx) profileId) pf_scheduling_roles of
            None \<Rightarrow> False | Some roles \<Rightarrow> role \<in> set roles))"

definition nodeStatePassed :: "'o node_store \<Rightarrow> string \<Rightarrow> bool" where
  "nodeStatePassed store nodeId =
     (case getNodeState store nodeId of None \<Rightarrow> False | Some st \<Rightarrow> ns_status st = PASSED_ST)"

definition canSelfRemediateWritableNode ::
  "('a, 'g) run_context \<Rightarrow> ('a, 'g) planned_node \<Rightarrow> attempt_retry \<Rightarrow> bool" where
  "canSelfRemediateWritableNode cx node retry =
     (if at_retryReason retry \<noteq> GateFailure then False
      else if isRemediationNode node then False
      else nodeCanWrite cx node)"

subsection \<open>The implementation nodes upstream\<close>

definition pushIfImplementation ::
  "('a, 'g) run_context \<Rightarrow> ('a, 'g) planned_node \<Rightarrow> ('a, 'g) planned_node list" where
  "pushIfImplementation cx node = (if hasSchedulingRole cx node ''implementation'' then [node] else [])"

fun appendPassedImplementationChild ::
  "('a, 'g) run_context \<Rightarrow> ('a, 'g) planned_node \<Rightarrow> ('a, 'g) planned_node list" where
  "appendPassedImplementationChild cx (PlannedNode i ix k ns ds ar b c ch co g m nd p re rt tc t) =
     pushIfImplementation cx (PlannedNode i ix k ns ds ar b c ch co g m nd p re rt tc t) @
     (case ch of None \<Rightarrow> [] | Some cs \<Rightarrow> concat (map (appendPassedImplementationChild cx) cs))"

definition appendImplementationNode ::
  "('a, 'g) run_context \<Rightarrow> 'o node_store \<Rightarrow> ('a, 'g) planned_node \<Rightarrow> ('a, 'g) planned_node list" where
  "appendImplementationNode cx store candidate =
     (if \<not> nodeStatePassed store (pn_id candidate) then []
      else pushIfImplementation cx candidate @
           concat (map (appendPassedImplementationChild cx) (or_else (pn_children candidate) [])))"

definition upstreamImplementationNodes ::
  "('a, 'g) run_context \<Rightarrow> 'o node_store \<Rightarrow> ('a, 'g) planned_node \<Rightarrow> ('a, 'g) planned_node list" where
  "upstreamImplementationNodes cx store node =
     concat (map (\<lambda>nodeId. case map_of (dg_nodes (cx_graph cx)) nodeId of
         None \<Rightarrow> [] | Some candidate \<Rightarrow> appendImplementationNode cx store candidate)
       (needs_postorder (cx_graph cx) (pn_needs node)))"

subsection \<open>The remediation nodes and their tasks\<close>

definition remediation_id :: "string \<Rightarrow> string \<Rightarrow> nat \<Rightarrow> string" where
  "remediation_id nodeId suffix attempt =
     nodeId @ remediate_mark @ suffix @ '':'' @ show_nat attempt"

definition implementationRemediationTask :: "('a, 'g) planned_node \<Rightarrow> string \<Rightarrow> attempt_retry \<Rightarrow> string" where
  "implementationRemediationTask coverageNode originalTask retry = join_with [CHR 0x0A]
     ([''Remediate a pipeline coverage failure.'', [], ''Original task:'', originalTask, [],
       ''Coverage node:'', pn_id coverageNode, [], ''Failed gate:'', at_gate retry, [],
       ''Failure reason:'', at_reason retry, [], ''Coverage failure feedback:''] @
      map (\<lambda>item. ''- '' @ item) (at_evidence retry) @
      [[], ''Update the implementation so the coverage node can pass on its next run.''])"

definition nodeRemediationTask :: "('a, 'g) planned_node \<Rightarrow> string \<Rightarrow> attempt_retry \<Rightarrow> string" where
  "nodeRemediationTask node originalTask retry = join_with [CHR 0x0A]
     ([''Remediate a pipeline node gate failure.'', [], ''Original task:'', originalTask, [],
       ''Node:'', pn_id node, [], ''Failed gate:'', at_gate retry, [],
       ''Failure reason:'', at_reason retry, [], ''Gate failure feedback:''] @
      map (\<lambda>item. ''- '' @ item) (at_evidence retry) @
      [[], ''Update the node output and files so this gate can pass.''])"

fun implementation_remediation_node ::
  "('a, 'g) planned_node \<Rightarrow> string \<Rightarrow> nat \<Rightarrow> ('a, 'g) planned_node" where
  "implementation_remediation_node (PlannedNode i ix k ns ds ar b c ch co g m nd p re rt tc t) suffix attempt =
     PlannedNode (remediation_id i suffix attempt) ix k [] [] None b c ch co None m nd p re None tc t"

fun self_remediation_node ::
  "('a, 'g) planned_node \<Rightarrow> string \<Rightarrow> nat \<Rightarrow> ('a, 'g) planned_node" where
  "self_remediation_node (PlannedNode i ix k ns ds ar b c ch co g m nd p re rt tc t) suffix attempt =
     PlannedNode (remediation_id i suffix attempt) ix k [] [] None b c ch co g m nd p re None tc t"

subsection \<open>The strategies\<close>

text \<open>
  The executor a remediation is given does something when it is called (it marks the node ready)
  and returns the computation that runs the node.
\<close>

type_synonym ('a, 'g, 'w, 'o) node_executor = "('a, 'g) planned_node \<Rightarrow> ('w, 'o, node_result) run"

type_synonym ('a, 'g, 'w, 'o) node_starter =
  "('a, 'g) planned_node \<Rightarrow> ('w, 'o, ('w, 'o, node_result) run) run"

definition set_task :: "string \<Rightarrow> ('w, 'o) run_state \<Rightarrow> ('w, 'o) run_state" where
  "set_task task s = s\<lparr>rs_task := task\<rparr>"

text \<open>The task is restored however the computation ends, but not when starting it throws.\<close>

definition withRemediationTask ::
  "(string \<Rightarrow> string) \<Rightarrow> ('w, 'o, ('w, 'o, node_result) run) run \<Rightarrow> ('w, 'o, node_result) run" where
  "withRemediationTask task effect =
     bind_run (gets_run rs_task) (\<lambda>originalTask.
     bind_run (modify_run (set_task (task originalTask))) (\<lambda>_.
     bind_run effect (\<lambda>computation. ensuring_run computation (set_task originalTask))))"

definition executeSelfRemediation ::
  "('a, 'g, 'w, 'o) node_starter \<Rightarrow> nat \<Rightarrow> ('a, 'g) planned_node \<Rightarrow> attempt_retry \<Rightarrow>
   ('w, 'o, node_result) run" where
  "executeSelfRemediation exec attempt node retry =
     withRemediationTask (\<lambda>task. nodeRemediationTask node task retry)
       (exec (self_remediation_node node (at_gate retry) attempt))"

definition executeImplementationRemediation ::
  "('a, 'g, 'w, 'o) node_starter \<Rightarrow> nat \<Rightarrow> ('a, 'g) planned_node \<Rightarrow> ('a, 'g) planned_node \<Rightarrow>
   attempt_retry \<Rightarrow> ('w, 'o, node_result) run" where
  "executeImplementationRemediation exec attempt coverageNode implementationNode retry =
     withRemediationTask (\<lambda>task. implementationRemediationTask coverageNode task retry)
       (exec (implementation_remediation_node implementationNode (pn_id coverageNode) attempt))"

definition remediationChangedNothing :: "nat \<Rightarrow> node_result \<Rightarrow> string option \<Rightarrow> bool" where
  "remediationChangedNothing changedFileCount result beforeOutput =
     (if changedFileCount \<noteq> 0 then False else Some (nr_output result) = beforeOutput)"

definition changed_since ::
  "('a, 'g, 'w) node_env \<Rightarrow> changed_snapshot \<Rightarrow> ('w, 'o, changed_snapshot) run" where
  "changed_since env before =
     bind_run (world_run (en_snapshot env)) (\<lambda>after.
     gets_run (\<lambda>s. diffChangedFiles (\<lambda>file. en_fingerprint env file (rs_world s)) before after))"

definition lastOutput :: "string \<Rightarrow> ('w, 'o, string option) run" where
  "lastOutput nodeId = gets_run (\<lambda>s. map_of (st_lastOutputByNode (rs_store s)) nodeId)"

definition remediateWritableNodeFailure ::
  "('a, 'g, 'w) node_env \<Rightarrow> ('a, 'g) run_context \<Rightarrow> ('a, 'g, 'w, 'o) node_starter \<Rightarrow> nat \<Rightarrow>
   ('a, 'g) planned_node \<Rightarrow> attempt_retry \<Rightarrow> ('w, 'o, remediation_result option) run" where
  "remediateWritableNodeFailure env cx exec attempt node retry =
     (if \<not> canSelfRemediateWritableNode cx node retry then return_run None
      else bind_run (world_run (en_snapshot env)) (\<lambda>beforeSnapshot.
        bind_run (lastOutput (pn_id node)) (\<lambda>beforeOutput.
        bind_run (executeSelfRemediation exec attempt node retry) (\<lambda>result.
          if nr_status result \<noteq> ResultPassed then return_run None
          else bind_run (changed_since env beforeSnapshot) (\<lambda>changed.
            if remediationChangedNothing (length (cs_files changed)) result beforeOutput then return_run None
            else bind_run (set_snapshot (pn_id node) changed) (\<lambda>_.
              bind_run (set_last_output (pn_id node) (nr_output result)) (\<lambda>_.
              return_run (Some \<lparr>rm_result = Some \<lparr>nr_attempts = attempt + 1, nr_evidence = nr_evidence result,
                  nr_exitCode = nr_exitCode result, nr_nodeId = pn_id node, nr_output = nr_output result,
                  nr_status = ResultPassed\<rparr>, rm_retryNode = None\<rparr>))))))))"

definition recordImplementationRemediationEffect ::
  "('a, 'g, 'w) node_env \<Rightarrow> string option \<Rightarrow> changed_snapshot \<Rightarrow> ('a, 'g) planned_node \<Rightarrow> node_result \<Rightarrow>
   ('w, 'o, bool) run" where
  "recordImplementationRemediationEffect env beforeOutput beforeSnapshot implementationNode result =
     bind_run (changed_since env beforeSnapshot) (\<lambda>changed.
       if length (cs_files changed) = 0 \<and> Some (nr_output result) = beforeOutput then return_run False
       else bind_run (set_last_output (pn_id implementationNode) (nr_output result)) (\<lambda>_. return_run True))"

definition remediateImplementationAncestor ::
  "('a, 'g, 'w) node_env \<Rightarrow> ('a, 'g, 'w, 'o) node_starter \<Rightarrow> nat \<Rightarrow> ('a, 'g) planned_node \<Rightarrow> attempt_retry \<Rightarrow>
   ('a, 'g) planned_node \<Rightarrow> ('w, 'o, bool) run" where
  "remediateImplementationAncestor env exec attempt node retry implementationNode =
     bind_run (isCancelled env) (\<lambda>cancelled.
       if cancelled then return_run False
       else bind_run (world_run (en_snapshot env)) (\<lambda>beforeSnapshot.
         bind_run (lastOutput (pn_id implementationNode)) (\<lambda>beforeOutput.
         bind_run (executeImplementationRemediation exec attempt node implementationNode retry) (\<lambda>result.
           if nr_status result \<noteq> ResultPassed then return_run False
           else recordImplementationRemediationEffect env beforeOutput beforeSnapshot implementationNode result))))"

text \<open>The loop over the implementation nodes goes on past those that changed nothing.\<close>

fun remediate_ancestors ::
  "('a, 'g, 'w) node_env \<Rightarrow> ('a, 'g, 'w, 'o) node_starter \<Rightarrow> nat \<Rightarrow> ('a, 'g) planned_node \<Rightarrow> attempt_retry \<Rightarrow>
   ('a, 'g) planned_node list \<Rightarrow> bool \<Rightarrow> ('w, 'o, bool) run" where
  "remediate_ancestors env exec attempt node retry [] remediated = return_run remediated"
| "remediate_ancestors env exec attempt node retry (implementationNode # rest) remediated =
     bind_run (remediateImplementationAncestor env exec attempt node retry implementationNode) (\<lambda>changed.
       remediate_ancestors env exec attempt node retry rest (if changed then True else remediated))"

definition remediatePassedImplementationAncestors ::
  "('a, 'g, 'w) node_env \<Rightarrow> ('a, 'g) run_context \<Rightarrow> ('a, 'g, 'w, 'o) node_starter \<Rightarrow> nat \<Rightarrow>
   ('a, 'g) planned_node \<Rightarrow> attempt_retry \<Rightarrow> ('w, 'o, bool) run" where
  "remediatePassedImplementationAncestors env cx exec attempt node retry =
     bind_run (gets_run (\<lambda>s. upstreamImplementationNodes cx (rs_store s) node)) (\<lambda>implementationNodes.
       if implementationNodes = [] then return_run False
       else remediate_ancestors env exec attempt node retry implementationNodes False)"

definition retryNodeWhenRemediated :: "bool \<Rightarrow> remediation_result option" where
  "retryNodeWhenRemediated remediated =
     (if remediated then Some \<lparr>rm_result = None, rm_retryNode = Some True\<rparr> else None)"

definition remediateCoverageFailure ::
  "('a, 'g, 'w) node_env \<Rightarrow> ('a, 'g) run_context \<Rightarrow> ('a, 'g, 'w, 'o) node_starter \<Rightarrow> nat \<Rightarrow>
   ('a, 'g) planned_node \<Rightarrow> attempt_retry \<Rightarrow> ('w, 'o, remediation_result option) run" where
  "remediateCoverageFailure env cx exec attempt node retry =
     (if at_retryReason retry \<noteq> GateFailure \<or> \<not> hasSchedulingRole cx node ''coverage'' then return_run None
      else bind_run (remediatePassedImplementationAncestors env cx exec attempt node retry) (\<lambda>remediated.
        return_run (retryNodeWhenRemediated remediated)))"

definition remediateUpstreamImplementationFailure ::
  "('a, 'g, 'w) node_env \<Rightarrow> ('a, 'g) run_context \<Rightarrow> ('a, 'g, 'w, 'o) node_starter \<Rightarrow> nat \<Rightarrow>
   ('a, 'g) planned_node \<Rightarrow> attempt_retry \<Rightarrow> ('w, 'o, remediation_result option) run" where
  "remediateUpstreamImplementationFailure env cx exec attempt node retry =
     (if isRemediationNode node \<or> nodeCanWrite cx node \<or> hasSchedulingRole cx node ''coverage'' then return_run None
      else bind_run (remediatePassedImplementationAncestors env cx exec attempt node retry) (\<lambda>remediated.
        return_run (retryNodeWhenRemediated remediated)))"

text \<open>The first strategy with an answer decides.\<close>

definition remediateFailedNode ::
  "('a, 'g, 'w) node_env \<Rightarrow> ('a, 'g) run_context \<Rightarrow> ('a, 'g, 'w, 'o) node_starter \<Rightarrow>
   ('a, 'g, 'w, 'o) remediator" where
  "remediateFailedNode env cx exec attempt node retry =
     bind_run (remediateWritableNodeFailure env cx exec attempt node retry) (\<lambda>r1.
       if r1 \<noteq> None then return_run r1
       else bind_run (remediateCoverageFailure env cx exec attempt node retry) (\<lambda>r2.
         if r2 \<noteq> None then return_run r2
         else remediateUpstreamImplementationFailure env cx exec attempt node retry))"

subsection \<open>The executor\<close>

text \<open>\<open>runtimeRemediationDependencies\<close>: a remediation node is marked ready before it is executed.\<close>

definition ready_executor ::
  "('a, 'g, 'w) node_env \<Rightarrow> ('a, 'g, 'w, 'o) node_executor \<Rightarrow> ('a, 'g, 'w, 'o) node_starter" where
  "ready_executor env exec node = bind_run (markNodeReady env (pn_id node)) (\<lambda>_. return_run (exec node))"

primrec executeNode ::
  "nat \<Rightarrow> ('a, 'g, 'w) node_env \<Rightarrow> ('a, 'g) run_context \<Rightarrow> ('a, 'g, 'w, 'o) node_executor" where
  "executeNode 0 env cx node = no_fuel"
| "executeNode (Suc fuel) env cx node =
     executeNode_with (Suc fuel) env
       (remediateFailedNode env cx (ready_executor env (executeNode fuel env cx))) node"

definition executePlannedNode ::
  "nat \<Rightarrow> ('a, 'g, 'w) node_env \<Rightarrow> ('a, 'g) run_context \<Rightarrow> string \<Rightarrow> ('w, 'o, node_result) run" where
  "executePlannedNode fuel env cx nodeId =
     (case plannedNodeById cx nodeId of
        None \<Rightarrow> fail_run (JsError (''workflow scheduler referenced unknown node '' @ quoted nodeId))
      | Some node \<Rightarrow>
          bind_run (executeNode fuel env cx node) (\<lambda>result.
          bind_run (dispatchHooks env NodeFinishHook
              (if nr_status result = ResultFailed then Some (result_failure result) else None) node) (\<lambda>_.
          return_run result)))"

subsection \<open>Runs confined to the states of some ids\<close>

text \<open>
  A framed run only touches the states of ids in \<open>D\<close>, ends in a defect only of such an id, and
  does not run out of fuel if \<open>tot\<close>.
\<close>

definition frame_ok ::
  "bool \<Rightarrow> (string \<Rightarrow> bool) \<Rightarrow> ('w, 'o) run_state \<Rightarrow> 'x outcome \<times> ('w, 'o) run_state \<Rightarrow> bool" where
  "frame_ok tot D s res \<longleftrightarrow>
     (\<forall>j. \<not> D j \<longrightarrow> getNodeState (rs_store (snd res)) j = getNodeState (rs_store s) j) \<and>
     (case fst res of Defect i d \<Rightarrow> D i | NoFuel \<Rightarrow> \<not> tot | _ \<Rightarrow> True)"

definition framed :: "bool \<Rightarrow> (string \<Rightarrow> bool) \<Rightarrow> ('w, 'o, 'x) run \<Rightarrow> bool" where
  "framed tot D m \<longleftrightarrow> (\<forall>s. frame_ok tot D s (m s))"

lemma framedD: "framed tot D m \<Longrightarrow> frame_ok tot D s (m s)"
  by (simp add: framed_def)

lemma framed_bind:
  assumes "framed tot D m" "\<And>x. framed tot D (f x)"
  shows "framed tot D (bind_run m f)"
  unfolding framed_def
proof (rule allI)
  fix s
  obtain r s' where m: "m s = (r, s')" by (cases "m s")
  show "frame_ok tot D s (bind_run m f s)"
    using framedD [OF assms(1), of s] framedD [OF assms(2), where s = s'] m
    by (cases r) (simp_all add: bind_run_def frame_ok_def)
qed

lemma framed_match:
  assumes "framed tot D m"
  shows "framed tot D (match_run m)"
  unfolding framed_def
proof (rule allI)
  fix s
  obtain r s' where m: "m s = (r, s')" by (cases "m s")
  show "frame_ok tot D s (match_run m s)"
    using framedD [OF assms, of s] m by (cases r) (simp_all add: match_run_def frame_ok_def)
qed

lemma framed_quiet: "quiet m \<Longrightarrow> framed tot D m"
  unfolding framed_def quiet_def frame_ok_def getNodeState_def by (auto split: outcome.splits)

lemma framed_no_fuel: "\<not> tot \<Longrightarrow> framed tot D no_fuel"
  by (simp add: framed_def frame_ok_def no_fuel_def)

lemma framed_fail: "framed tot D (fail_run e)"
  by (simp add: framed_def frame_ok_def fail_run_def)

lemma framed_event: "D n \<Longrightarrow> framed tot D (recordNodeEvent env n body)"
  by (auto simp: framed_def frame_ok_def recordNodeEvent_def bind_run_def world_run_def Let_def getNodeState_def set_state_def
      split: prod.splits sum.splits)

lemma framed_if: "(b \<Longrightarrow> framed tot D m1) \<Longrightarrow> (\<not> b \<Longrightarrow> framed tot D m2) \<Longrightarrow> framed tot D (if b then m1 else m2)"
  by simp

lemma framed_case_option:
  "(x = None \<Longrightarrow> framed tot D m1) \<Longrightarrow> (\<And>y. x = Some y \<Longrightarrow> framed tot D (m2 y)) \<Longrightarrow>
   framed tot D (case x of None \<Rightarrow> m1 | Some y \<Rightarrow> m2 y)"
  by (simp split: option.split)

lemma framed_case_sum:
  "(\<And>y. x = Inl y \<Longrightarrow> framed tot D (m1 y)) \<Longrightarrow> (\<And>y. x = Inr y \<Longrightarrow> framed tot D (m2 y)) \<Longrightarrow>
   framed tot D (case x of Inl y \<Rightarrow> m1 y | Inr y \<Rightarrow> m2 y)"
  by (simp split: sum.split)

lemma framed_case_prod: "(\<And>a b. x = (a, b) \<Longrightarrow> framed tot D (f a b)) \<Longrightarrow> framed tot D (case x of (a, b) \<Rightarrow> f a b)"
  by (cases x) simp

lemma framed_mono: "framed tot D m \<Longrightarrow> (\<And>j. D j \<Longrightarrow> D' j) \<Longrightarrow> (tot' \<Longrightarrow> tot) \<Longrightarrow> framed tot' D' m"
  unfolding framed_def frame_ok_def by (fastforce split: outcome.splits)

lemma quiet_set_task: "quiet (modify_run (set_task t))"
  by (simp add: quiet_def modify_run_def set_task_def)

lemma quiet_calm: "calm m \<Longrightarrow> quiet m"
  by (simp add: calm_def)

lemmas framed_intros = framed_bind framed_match framed_if framed_case_option framed_case_sum framed_case_prod
  framed_event framed_fail quiet_intros [THEN framed_quiet] quiet_dispatchHooks [THEN framed_quiet]
  calm_isCancelled [THEN quiet_calm, THEN framed_quiet] calm_waitForRetryDelay [THEN quiet_calm, THEN framed_quiet]
  calm_emitRuntimeRetry [THEN quiet_calm, THEN framed_quiet] quiet_set_task [THEN framed_quiet]

lemma framed_cycle:
  assumes "D (pn_id node)"
  shows "framed tot D (executeNodeAttemptCycle env node k previous)"
proof -
  note [intro!] = framed_intros and [intro] = assms
  have hook: "framed tot D (failedHookCycle env (pn_id node) j lst ev)" for j lst ev
    unfolding failedHookCycle_def Let_def by blast
  have cancelled: "framed tot D (cancelledNodeResult env (pn_id node) k lst)" for lst
    unfolding cancelledNodeResult_def Let_def by blast
  have "framed tot D (beginNodeAttempt env node k previous)"
    unfolding beginNodeAttempt_def by (blast intro: hook)
  moreover have "framed tot D (runNodeAttemptBody env node k)"
    unfolding runNodeAttemptBody_def executeNodeAttempt_def recordAttemptOutput_def by blast
  moreover have "framed tot D (finishNodeAttemptWithGate env node k lst g)" for lst g
    unfolding finishNodeAttemptWithGate_def successfulAttemptCycle_def passedCycle_def Let_def
    by (blast intro: hook cancelled)
  then have "framed tot D (finishNodeAttemptAfterGates env node k lst)" for lst
    unfolding finishNodeAttemptAfterGates_def evaluateGatesForAttempt_def by (blast intro: cancelled)
  ultimately show ?thesis
    unfolding executeNodeAttemptCycle_def by (blast intro: cancelled)
qed

lemma framed_runNodeAttempts:
  assumes "D (pn_id node)" "\<And>k retry. framed False D (remediate k node retry)"
  shows "framed False D (runNodeAttempts fuel env remediate node policy st k)"
proof -
  note [intro!] = framed_intros and [intro] = assms framed_cycle
  have "framed False D (continueAfterRetryCandidate env remediate node policy retry k)" for retry k
    unfolding continueAfterRetryCandidate_def emitRemediationPass_def scheduleNodeRetry_def Let_def
      recordRemediationRetryingNodeEvent_def recordRetryingNodeEvent_def by blast
  then have "framed False D (continueAfterAttemptCycle env remediate node policy st k cycle)" for k cycle st
    unfolding continueAfterAttemptCycle_def Let_def by blast
  then have single: "framed False D (runSingleNodeAttempt env remediate node policy st k)" for k st
    unfolding runSingleNodeAttempt_def retryFromAttemptError_def by blast
  show ?thesis
  proof (induction fuel arbitrary: st k)
    case 0
    then show ?case by (simp add: framed_no_fuel)
  next
    case (Suc fuel)
    have "framed False D (case step of RetryStep \<Rightarrow> runNodeAttempts fuel env remediate node policy st' (k + 1)
        | FailedStep \<Rightarrow> return_run (st', None) | ResultStep result \<Rightarrow> return_run (st', Some result))" for step st'
      using Suc.IH by (cases step) auto
    then show ?case unfolding runNodeAttempts.simps by (blast intro: single)
  qed
qed

lemma framed_executeNode_with:
  assumes "D (pn_id node)" "\<And>k retry. framed False D (remediate k node retry)"
  shows "framed False D (executeNode_with fuel env remediate node)"
proof -
  note [intro!] = framed_intros and [intro] = assms
  have "framed False D (finishFailedNode env node lst retry)" for lst retry
    unfolding finishFailedNode_def Let_def by blast
  moreover have "framed False D (runNodeAttempts fuel env remediate node policy st k)" for policy st k
    by (rule framed_runNodeAttempts) (rule assms)+
  ultimately show ?thesis
    unfolding executeNode_with_def Let_def by blast
qed

subsection \<open>A remediation is not remediated\<close>

lemma postorder_no_needs: "upstreamImplementationNodes cx store node = []" if "pn_needs node = []"
  using that by (simp add: upstreamImplementationNodes_def needs_postorder_def)

lemma no_ancestors:
  "pn_needs node = [] \<Longrightarrow> remediatePassedImplementationAncestors env cx exec k node retry = return_run False"
  by (rule ext) (simp add: remediatePassedImplementationAncestors_def postorder_no_needs bind_run_def gets_run_def)

lemma bind_return [simp]: "bind_run (return_run x) f = f x"
  by (rule ext) (simp add: bind_run_def return_run_def)

lemma remediation_not_remediated:
  assumes "isRemediationNode node" "pn_needs node = []"
  shows "remediateFailedNode env cx exec k node retry = return_run None"
  using assms
  by (simp add: remediateFailedNode_def remediateWritableNodeFailure_def canSelfRemediateWritableNode_def
      remediateCoverageFailure_def remediateUpstreamImplementationFailure_def no_ancestors retryNodeWhenRemediated_def)

lemma remediation_node_fields [simp]:
  "pn_id (self_remediation_node node sfx k) = remediation_id (pn_id node) sfx k"
  "pn_id (implementation_remediation_node node sfx k) = remediation_id (pn_id node) sfx k"
  "pn_needs (self_remediation_node node sfx k) = []"
  "pn_needs (implementation_remediation_node node sfx k) = []"
  "pn_retries (self_remediation_node node sfx k) = None"
  "pn_retries (implementation_remediation_node node sfx k) = None"
  by (cases node, simp)+

lemma remediation_id_marked: "str_includes (remediation_id n sfx k) remediate_mark"
  unfolding str_includes_iff remediation_id_def by blast

lemma remediation_node_marked:
  "isRemediationNode (self_remediation_node node sfx k)" "isRemediationNode (implementation_remediation_node node sfx k)"
  by (simp_all add: isRemediationNode_def remediation_id_marked)

text \<open>The ids of the remediations a failure of \<open>n\<close> can run: never \<open>n\<close> itself.\<close>

definition remediation_of :: "string \<Rightarrow> string \<Rightarrow> bool" where
  "remediation_of n i \<longleftrightarrow> (\<exists>x k. i = remediation_id n x k \<or> i = remediation_id x n k)"

lemma not_own_remediation: "\<not> remediation_of n n"
proof
  assume "remediation_of n n"
  then obtain x k where "n = remediation_id n x k \<or> n = remediation_id x n k"
    by (auto simp: remediation_of_def)
  then have "length n = length (remediation_id n x k) \<or> length n = length (remediation_id x n k)" by metis
  then show False by (simp add: remediation_id_def remediate_mark_def)
qed

definition lone_remediation :: "('a, 'g) planned_node \<Rightarrow> bool" where
  "lone_remediation node \<longleftrightarrow> isRemediationNode node \<and> pn_needs node = [] \<and> pn_retries node = None"

lemma executeNode_lone:
  fixes env :: "('a, 'g, 'w) node_env" and cx :: "('a, 'g) run_context"
  assumes "lone_remediation node"
  shows "hoare True (\<lambda>i. False) (on_node (pn_id node) (in_status {READY_ST}))
      (executeNode (Suc fuel) env cx node :: ('w, 'o, node_result) run) (\<lambda>r s. True) (\<lambda>s. True)"
    and "framed False (\<lambda>i. i = pn_id node) (executeNode (Suc fuel) env cx node :: ('w, 'o, node_result) run)"
proof -
  let ?exec = "ready_executor env (executeNode fuel env cx) :: ('a, 'g, 'w, 'o) node_starter"
  have none: "remediateFailedNode env cx ?exec k node retry = return_run None" for k retry
    using assms by (simp add: lone_remediation_def remediation_not_remediated)
  have law: "remediating True (\<lambda>i. False) node (remediateFailedNode env cx ?exec) (\<lambda>r. False)"
    by unfold_locales (auto simp: none remediationPassedResult_def remediationRequestsRetry_def intro!: hoare_return)
  have "max 1 (rp_maxAttempts (nodeRetryPolicy node)) \<le> Suc fuel"
    using assms by (simp add: lone_remediation_def nodeRetryPolicy_def Let_def)
  from remediating.executeNode_settles [OF law this]
  show "hoare True (\<lambda>i. False) (on_node (pn_id node) (in_status {READY_ST}))
      (executeNode (Suc fuel) env cx node :: ('w, 'o, node_result) run) (\<lambda>r s. True) (\<lambda>s. True)"
    unfolding executeNode.simps by (rule hoare_conseq) (auto simp: in_status_def)
  show "framed False (\<lambda>i. i = pn_id node) (executeNode (Suc fuel) env cx node :: ('w, 'o, node_result) run)"
    unfolding executeNode.simps
    by (rule framed_executeNode_with) (simp_all add: none framed_intros)
qed

subsection \<open>What a remediation leaves alone\<close>

lemma fst_ensuring [simp]: "fst (ensuring_run m fin s) = fst (m s)"
  by (simp add: ensuring_run_def split: prod.split)

lemma framed_ensuring:
  assumes "framed tot D m" "\<And>s. rs_store (fin s) = rs_store s"
  shows "framed tot D (ensuring_run m fin)"
  unfolding framed_def
proof (rule allI)
  fix s
  obtain r s' where m: "m s = (r, s')" by (cases "m s")
  show "frame_ok tot D s (ensuring_run m fin s)"
    using framedD [OF assms(1), where s = s] m by (simp add: ensuring_run_def frame_ok_def assms(2))
qed

lemma framed_total: "framed False D m \<Longrightarrow> (\<And>s. tot \<Longrightarrow> fst (m s) \<noteq> NoFuel) \<Longrightarrow> framed tot D m"
  by (auto simp: framed_def frame_ok_def split: outcome.splits)

lemma rs_store_set_task [simp]: "rs_store (set_task t s) = rs_store s"
  by (simp add: set_task_def)

lemma framed_started:
  fixes env :: "('a, 'g, 'w) node_env" and cx :: "('a, 'g) run_context"
  assumes "lone_remediation node" "D (pn_id node)" "tot \<Longrightarrow> 0 < fuel"
  shows "framed tot D (withRemediationTask task
    (ready_executor env (executeNode fuel env cx) node :: ('w, 'o, ('w, 'o, node_result) run) run))"
proof -
  let ?run = "executeNode fuel env cx node :: ('w, 'o, node_result) run"
  let ?started = "\<lambda>t. bind_run (markNodeReady env (pn_id node)) (\<lambda>_. ensuring_run ?run (set_task t))"
  have assoc: "bind_run (ready_executor env (executeNode fuel env cx) node)
      (\<lambda>computation. ensuring_run computation (set_task t)) = ?started t" for t
    by (rule ext) (simp add: ready_executor_def bind_run_def return_run_def split: prod.split outcome.split)
  have "framed False D ?run"
  proof (cases fuel)
    case (Suc f)
    show ?thesis unfolding Suc by (rule framed_mono [OF executeNode_lone(2) [OF assms(1)]]) (use assms(2) in auto)
  qed (simp add: framed_no_fuel)
  then have frame: "framed False D (?started t)" for t
    unfolding markNodeReady_def by (intro framed_intros framed_ensuring assms(2)) simp_all
  have "fst (?started t s) \<noteq> NoFuel" if tot for t s
  proof -
    obtain f where fuel: "fuel = Suc f" using assms(3) \<open>tot\<close> by (cases fuel) auto
    have run: "in_status {READY_ST} (cur (pn_id node) s') \<Longrightarrow> fst (?run s') \<noteq> NoFuel" for s'
      using executeNode_lone(1) [OF assms(1), of f env cx] unfolding fuel hoare_def
      by (cases "executeNode (Suc f) env cx node s'") (auto split: outcome.splits)
    show ?thesis
      by (auto simp: bind_run_def markNodeReady_def recordNodeEvent_def world_run_def Let_def cur_def
          new_tracker_def applyNodeExecutionEvent_def in_status_def
          split: prod.splits sum.splits outcome.splits if_splits intro!: run)
  qed
  then have started: "framed tot D (?started t)" for t by (rule framed_total [OF frame])
  show ?thesis
    unfolding withRemediationTask_def assoc
    by (rule framed_bind [OF framed_quiet [OF quiet_gets]] framed_bind [OF framed_quiet [OF quiet_set_task]] started)+
qed

lemma framed_changed_since: "framed tot D (changed_since env before)"
  unfolding changed_since_def by (intro framed_intros)

lemma framed_lastOutput: "framed tot D (lastOutput n)"
  unfolding lastOutput_def by (intro framed_intros)

lemma framed_self_remediation:
  assumes "tot \<Longrightarrow> 0 < fuel"
  shows "framed tot (remediation_of (pn_id node))
    (executeSelfRemediation (ready_executor env (executeNode fuel env cx)) k node retry)"
proof -
  have "remediation_of (pn_id node) (remediation_id (pn_id node) (at_gate retry) k)"
    unfolding remediation_of_def by blast
  then show ?thesis
    unfolding executeSelfRemediation_def
    by (intro framed_started assms) (simp_all add: lone_remediation_def remediation_node_marked)
qed

lemma framed_implementation_remediation:
  assumes "tot \<Longrightarrow> 0 < fuel"
  shows "framed tot (remediation_of (pn_id node))
    (executeImplementationRemediation (ready_executor env (executeNode fuel env cx)) k node impl retry)"
proof -
  have "remediation_of (pn_id node) (remediation_id (pn_id impl) (pn_id node) k)"
    unfolding remediation_of_def by blast
  then show ?thesis
    unfolding executeImplementationRemediation_def
    by (intro framed_started assms) (simp_all add: lone_remediation_def remediation_node_marked)
qed

lemma framed_remediateFailedNode:
  assumes "tot \<Longrightarrow> 0 < fuel"
  shows "framed tot (remediation_of (pn_id node))
    (remediateFailedNode env cx (ready_executor env (executeNode fuel env cx)) k node retry)"
proof -
  let ?D = "remediation_of (pn_id node)" and ?exec = "ready_executor env (executeNode fuel env cx)"
  note steps = framed_intros framed_changed_since framed_lastOutput
    framed_self_remediation [OF assms] framed_implementation_remediation [OF assms]
  have ancestor: "framed tot ?D (remediateImplementationAncestor env ?exec k node retry impl)" for impl
    unfolding remediateImplementationAncestor_def recordImplementationRemediationEffect_def by (intro steps)
  have "framed tot ?D (remediate_ancestors env ?exec k node retry impls b)" for impls b
    by (induction impls arbitrary: b) (auto intro!: framed_intros ancestor)
  then have ancestors: "framed tot ?D (remediatePassedImplementationAncestors env cx ?exec k node retry)"
    unfolding remediatePassedImplementationAncestors_def by (intro framed_intros)
  show ?thesis
    unfolding remediateFailedNode_def remediateWritableNodeFailure_def remediateCoverageFailure_def
      remediateUpstreamImplementationFailure_def
    by (intro steps ancestors)
qed

subsection \<open>What a remediation answers\<close>

definition yields :: "('x \<Rightarrow> bool) \<Rightarrow> ('w, 'o, 'x) run \<Rightarrow> bool" where
  "yields Q m \<longleftrightarrow> (\<forall>s x. fst (m s) = Ok x \<longrightarrow> Q x)"

lemma yields_bind: "(\<And>x. yields Q (f x)) \<Longrightarrow> yields Q (bind_run m f)"
  by (auto simp: yields_def bind_run_def split: prod.splits outcome.splits)

lemma yields_answer:
  assumes "yields Q m" "\<And>x. Q x \<Longrightarrow> yields Q (f x)"
  shows "yields Q (bind_run m f)"
  unfolding yields_def
proof (intro allI impI)
  fix s x assume ok: "fst (bind_run m f s) = Ok x"
  then obtain y s' where m: "m s = (Ok y, s')" by (auto simp: bind_run_def split: prod.splits outcome.splits)
  then have "Q y" using assms(1) unfolding yields_def by (metis fst_conv)
  then show "Q x" using assms(2) ok m by (simp add: yields_def bind_run_def)
qed

lemma yields_return: "Q x \<Longrightarrow> yields Q (return_run x)"
  by (simp add: yields_def return_run_def)

lemma yields_if: "(b \<Longrightarrow> yields Q m1) \<Longrightarrow> (\<not> b \<Longrightarrow> yields Q m2) \<Longrightarrow> yields Q (if b then m1 else m2)"
  by simp

lemma framed_hoare:
  fixes m :: "('w, 'o, 'x) run"
  assumes "framed tot D m" "\<not> D n" "yields Q m"
  shows "hoare tot D (on_node n P) m (\<lambda>x s. on_node n P s \<and> Q x) (on_node n P)"
  unfolding hoare_def
proof (intro allI impI)
  fix s :: "('w, 'o) run_state" assume P: "on_node n P s"
  obtain r s' where m: "m s = (r, s')" by (cases "m s")
  have "cur n s' = cur n s"
    using framedD [OF assms(1), where s = s] assms(2) m by (simp add: frame_ok_def cur_def)
  moreover have "r = Ok x \<Longrightarrow> Q x" for x using assms(3) m unfolding yields_def by (metis fst_conv)
  ultimately show "case m s of (Ok x, s') \<Rightarrow> on_node n P s' \<and> Q x | (Failed e, s') \<Rightarrow> on_node n P s'
      | (Defect i d, s') \<Rightarrow> D i | (NoFuel, s') \<Rightarrow> \<not> tot"
    using framedD [OF assms(1), where s = s] P m by (cases r) (simp_all add: frame_ok_def)
qed

text \<open>
  The results a node is passed with by remediation: only for a node that can write its workspace
  and is not a remediation itself.
\<close>

definition remediated_pass :: "('a, 'g) run_context \<Rightarrow> ('a, 'g) planned_node \<Rightarrow> node_result \<Rightarrow> bool" where
  "remediated_pass cx node r \<longleftrightarrow> nr_nodeId r = pn_id node \<and> nr_status r = ResultPassed \<and>
     nodeCanWrite cx node \<and> \<not> isRemediationNode node"

text \<open>A node whose remediation never asks for another attempt beyond the policy's maximum.\<close>

definition self_contained :: "('a, 'g) run_context \<Rightarrow> ('a, 'g) planned_node \<Rightarrow> bool" where
  "self_contained cx node \<longleftrightarrow>
     nodeCanWrite cx node \<and> \<not> hasSchedulingRole cx node ''coverage'' \<or> pn_needs node = []"

lemma remediation_answers:
  "yields (\<lambda>res. (\<forall>r. remediationPassedResult res = Some r \<longrightarrow> remediated_pass cx node r) \<and>
     (self_contained cx node \<longrightarrow> \<not> remediationRequestsRetry res)) (remediateFailedNode env cx exec k node retry)"
proof -
  let ?Q = "\<lambda>res. (\<forall>r. remediationPassedResult res = Some r \<longrightarrow> remediated_pass cx node r) \<and>
     (self_contained cx node \<longrightarrow> \<not> remediationRequestsRetry res)"
  have none: "?Q None" by (simp add: remediationPassedResult_def remediationRequestsRetry_def)
  have writable: "yields ?Q (remediateWritableNodeFailure env cx exec k node retry)"
    unfolding remediateWritableNodeFailure_def
    by (intro yields_if yields_bind yields_return)
       (auto simp: remediationPassedResult_def remediationRequestsRetry_def remediated_pass_def
         canSelfRemediateWritableNode_def split: if_splits)
  have asked: "yields ?Q (bind_run (remediatePassedImplementationAncestors env cx exec k node retry)
      (\<lambda>b. return_run (retryNodeWhenRemediated b)))"
    if "\<not> self_contained cx node \<or> pn_needs node = []"
  proof (cases "pn_needs node = []")
    case True
    then show ?thesis using none by (simp add: no_ancestors retryNodeWhenRemediated_def yields_return)
  next
    case False
    with that have "\<not> self_contained cx node" by simp
    then show ?thesis
      by (intro yields_bind yields_return)
         (simp add: retryNodeWhenRemediated_def remediationPassedResult_def)
  qed
  have coverage: "yields ?Q (remediateCoverageFailure env cx exec k node retry)"
    unfolding remediateCoverageFailure_def using none
    by (intro yields_if asked) (auto simp: self_contained_def intro: yields_return)
  have upstream: "yields ?Q (remediateUpstreamImplementationFailure env cx exec k node retry)"
    unfolding remediateUpstreamImplementationFailure_def using none
    by (intro yields_if asked) (auto simp: self_contained_def intro: yields_return)
  show ?thesis
    unfolding remediateFailedNode_def
    by (intro yields_answer [OF writable] yields_answer [OF coverage] yields_if yields_return upstream)
qed

subsection \<open>Executing a node\<close>

interpretation remediation: remediating
  "self_contained cx node \<and> 0 < fuel \<and> rp_maxAttempts (nodeRetryPolicy node) \<le> Suc fuel"
  "remediation_of (pn_id node)" node "remediateFailedNode env cx (ready_executor env (executeNode fuel env cx))"
  "remediated_pass cx node"
  for cx node fuel env
proof (unfold_locales, goal_cases)
  case (1 P k retry)
  let ?tot = "self_contained cx node \<and> 0 < fuel \<and> rp_maxAttempts (nodeRetryPolicy node) \<le> Suc fuel"
  have "framed ?tot (remediation_of (pn_id node))
      (remediateFailedNode env cx (ready_executor env (executeNode fuel env cx)) k node retry)"
    by (rule framed_remediateFailedNode) simp
  from framed_hoare [OF this not_own_remediation remediation_answers, of P]
  show ?case by (rule hoare_conseq) auto
qed (simp_all add: remediated_pass_def)

text \<open>The same, read off one run.\<close>

lemma executeNode_result:
  assumes "getNodeState (rs_store s) (pn_id node) = Some st" "ns_status st = READY_ST"
    and run: "executeNode fuel env cx node s = (out, s')"
  shows "case out of
      Ok r \<Rightarrow> \<exists>st'. getNodeState (rs_store s') (pn_id node) = Some st' \<and>
        final_ok (pn_id node) (remediated_pass cx node)
          (attempt_bound (self_contained cx node \<and> max 2 (rp_maxAttempts (nodeRetryPolicy node)) \<le> fuel) node) r st'
    | Failed e \<Rightarrow> (\<exists>st'. getNodeState (rs_store s') (pn_id node) = Some st' \<and> active st')
    | Defect i d \<Rightarrow> remediation_of (pn_id node) i
    | NoFuel \<Rightarrow> \<not> (self_contained cx node \<and> max 2 (rp_maxAttempts (nodeRetryPolicy node)) \<le> fuel)"
proof (cases fuel)
  case 0
  then show ?thesis using run by (auto simp: no_fuel_def)
next
  case (Suc f)
  let ?tot = "self_contained cx node \<and> 0 < f \<and> rp_maxAttempts (nodeRetryPolicy node) \<le> Suc f"
  have enough: "?tot \<longleftrightarrow> self_contained cx node \<and> max 2 (rp_maxAttempts (nodeRetryPolicy node)) \<le> fuel"
    using Suc by auto
  have "hoare ?tot (remediation_of (pn_id node)) (on_node (pn_id node) (in_status {READY_ST, RUNNING_ST}))
      (executeNode (Suc f) env cx node)
      (\<lambda>r. on_node (pn_id node) (final_ok (pn_id node) (remediated_pass cx node) (attempt_bound ?tot node) r))
      (on_node (pn_id node) active)"
    unfolding executeNode.simps by (rule remediation.executeNode_settles) auto
  moreover have "on_node (pn_id node) (in_status {READY_ST, RUNNING_ST}) s"
    using assms(1,2) by (simp add: cur_def new_tracker_def in_status_def)
  ultimately have outcome: "case out of
      Ok r \<Rightarrow> final_ok (pn_id node) (remediated_pass cx node) (attempt_bound ?tot node) r (cur (pn_id node) s')
    | Failed e \<Rightarrow> active (cur (pn_id node) s') | Defect i d \<Rightarrow> remediation_of (pn_id node) i | NoFuel \<Rightarrow> \<not> ?tot"
    using run Suc unfolding hoare_def by (auto split: outcome.splits)
  have known: "getNodeState (rs_store s') (pn_id node) = Some (cur (pn_id node) s')"
    if "ns_status (cur (pn_id node) s') \<noteq> PENDING_ST"
    using that by (auto simp: cur_def new_tracker_def initialNodeExecutionState_def or_else_def split: option.splits)
  have "final_ok n R A r c \<Longrightarrow> ns_status c \<noteq> PENDING_ST" and "active c \<Longrightarrow> ns_status c \<noteq> PENDING_ST" for n R A r c
    by (auto simp: final_ok_def in_status_def)
  with known outcome show ?thesis
    unfolding enough by (cases out) auto
qed



text \<open>
  C11: The execution of a node whose remediation cannot ask for further attempts returns with no
  more fuel than its maximum number of attempts (and 2 for a remediation), and its result counts at
  most that many attempts, unless a remediation has passed it.
\<close>

theorem node_execution_bounded:
  assumes "getNodeState (rs_store s) (pn_id node) = Some st" "ns_status st = READY_ST"
    and "nodeCanWrite cx node \<and> \<not> hasSchedulingRole cx node ''coverage'' \<or> pn_needs node = []"
    and "max 2 (rp_maxAttempts (nodeRetryPolicy node)) \<le> fuel"
    and "executeNode fuel env cx node s = (out, s')"
  shows "out \<noteq> NoFuel \<and> (\<forall>r. out = Ok r \<longrightarrow>
    nr_attempts r \<le> max 1 (rp_maxAttempts (nodeRetryPolicy node)) \<or>
    nr_status r = ResultPassed \<and> nodeCanWrite cx node \<and> \<not> isRemediationNode node)"
  using executeNode_result [OF assms(1,2,5)] assms(3,4)
  by (auto simp: final_ok_def remediated_pass_def attempt_bound_def self_contained_def)

subsection \<open>The executor of a compiled plan\<close>

lemma findPlannedNode_id: "findPlannedNode nodes nodeId = Some node \<Longrightarrow> pn_id node = nodeId"
  by (induction nodes nodeId rule: findPlannedNode.induct) (auto split: if_splits option.splits)

lemma compiled_graph_node:
  assumes "graphlib_spec build" "nonempty_ids config" "compileWorkflowPlan build config requested = Inr plan"
    and "dependencyGraphHasNode (ep_graph plan) nodeId"
  shows "\<exists>node. map_of (dg_nodes (ep_graph plan)) nodeId = Some node \<and> pn_id node = nodeId"
proof -
  obtain w order where ok: "plannable (declared_nodes config (ep_workflowId plan))"
    and plan: "plan = plan_of build config w (ep_workflowId plan) order"
    using compileWorkflowPlan_Inr [OF assms(1-3)] by metis
  let ?nodes = "declared_nodes config (ep_workflowId plan)"
  have graph: "ep_graph plan = createWorkflowGraph build ?nodes" by (subst plan) simp
  have "nodeId \<in> wn_id ` set ?nodes"
    using assms(4) createDependencyGraph_ids [OF assms(1) refl, of wn_id wn_needs toPlannedNode ?nodes]
    unfolding graph dependencyGraphHasNode_def by simp
  then obtain i where i: "i < length ?nodes" "wn_id (?nodes ! i) = nodeId" by (auto simp: in_set_conv_nth)
  then have "dependencyGraphValue (ep_graph plan) nodeId = Some (final_node (raw_graph build ?nodes) ?nodes i)"
    using createWorkflowGraph_node [OF assms(1) plannable_distinct [OF ok] i(1)] unfolding graph by simp
  then show ?thesis using i(2) assms(4) by (auto simp: dependencyGraphValue_def)
qed

lemma plannedNodeById_id:
  assumes "graphlib_spec build" "nonempty_ids config" "compileWorkflowPlan build config requested = Inr plan"
    and "cx_graph cx = ep_graph plan" "plannedNodeById cx nodeId = Some node"
  shows "pn_id node = nodeId"
  using assms(5) compiled_graph_node [OF assms(1-3)] findPlannedNode_id unfolding assms(4) plannedNodeById_def
  by (metis assms(4) option.sel)

lemma executePlannedNode_Ok:
  assumes "executePlannedNode fuel env cx nodeId s = (Ok r, s')"
  obtains node s1 where "plannedNodeById cx nodeId = Some node" "executeNode fuel env cx node s = (Ok r, s1)"
    "st_nodeStates (rs_store s') = st_nodeStates (rs_store s1)"
proof -
  obtain node where node: "plannedNodeById cx nodeId = Some node"
    using assms by (auto simp: executePlannedNode_def fail_run_def split: option.splits)
  obtain out s1 where run: "executeNode fuel env cx node s = (out, s1)" by (cases "executeNode fuel env cx node s")
  obtain r1 where "out = Ok r1" using assms node run
    by (cases out) (simp_all add: executePlannedNode_def bind_run_def)
  moreover have "r1 = r \<and> st_nodeStates (rs_store s') = st_nodeStates (rs_store s1)"
    using assms node run \<open>out = Ok r1\<close>
      quiet_dispatchHooks [unfolded quiet_def, rule_format, of env NodeFinishHook
        "if nr_status r1 = ResultFailed then Some (result_failure r1) else None" node s1]
    by (auto simp: executePlannedNode_def bind_run_def return_run_def split: prod.splits outcome.splits)
  ultimately show ?thesis using that node run by blast
qed

lemma executePlannedNode_id:
  assumes "graphlib_spec build" "nonempty_ids config" "compileWorkflowPlan build config requested = Inr plan"
    and "cx_graph cx = ep_graph plan" "getNodeState (rs_store s) nodeId = Some st" "ns_status st = READY_ST"
    and run: "executePlannedNode fuel env cx nodeId s = (Ok r, s')"
  shows "nr_nodeId r = nodeId"
proof -
  obtain node s1 where node: "plannedNodeById cx nodeId = Some node"
    and run: "executeNode fuel env cx node s = (Ok r, s1)" using run by (rule executePlannedNode_Ok)
  have "pn_id node = nodeId" using plannedNodeById_id [OF assms(1-4) node] .
  then show ?thesis using executeNode_result [OF _ assms(6) run] assms(5) by (auto simp: final_ok_def)
qed

text \<open>
  Executing an id of a compiled plan answers with a result of that id, and an id that is
  neither in the plan's graph nor a child in its order is rejected by name without any effect.
\<close>

theorem planned_node_answers_its_id:
  assumes "graphlib_spec build" "nonempty_ids config" "compileWorkflowPlan build config requested = Inr plan"
    and "cx_graph cx = ep_graph plan" "cx_topologicalOrder cx = ep_topologicalOrder plan"
    and "getNodeState (rs_store s) nodeId = Some st" "ns_status st = READY_ST"
  shows "(\<forall>r s'. executePlannedNode fuel env cx nodeId s = (Ok r, s') \<longrightarrow> nr_nodeId r = nodeId)
    \<and> (\<not> dependencyGraphHasNode (ep_graph plan) nodeId \<and> findPlannedNode (ep_topologicalOrder plan) nodeId = None \<longrightarrow>
       executePlannedNode fuel env cx nodeId s =
         (Failed (JsError (''workflow scheduler referenced unknown node '' @ quoted nodeId)), s))"
proof (intro conjI allI impI)
  fix r s' assume "executePlannedNode fuel env cx nodeId s = (Ok r, s')"
  then show "nr_nodeId r = nodeId" by (rule executePlannedNode_id [OF assms(1-4,6,7)])
next
  assume "\<not> dependencyGraphHasNode (ep_graph plan) nodeId \<and> findPlannedNode (ep_topologicalOrder plan) nodeId = None"
  then show "executePlannedNode fuel env cx nodeId s =
      (Failed (JsError (''workflow scheduler referenced unknown node '' @ quoted nodeId)), s)"
    by (simp add: executePlannedNode_def plannedNodeById_def assms(4,5) fail_run_def)
qed

subsection \<open>Cancellation\<close>

text \<open>
  A run that is aborted after a node's runner has exited with code 0 and before its gates are
  evaluated records the node as cancelled but answers with a passed result, whatever the gates are.
\<close>

theorem cancelled_before_gates_reports_passed:
  assumes "getNodeState (rs_store s) (pn_id node) = Some st" "ns_status st = RUNNING_ST"
    and "en_aborted env (rs_world s) = (True, w)" "ar_exitCode lastR = 0"
  shows "\<exists>r s'. cancelledNodeResult env (pn_id node) k lastR s = (Ok (Some r), s') \<and> nr_status r = ResultPassed \<and>
    nr_exitCode r = 0 \<and> map_option ns_status (getNodeState (rs_store s') (pn_id node)) = Some CANCELLED_ST"
proof -
  obtain t w' where "en_now env w = (t, w')" by (cases "en_now env w")
  then show ?thesis
    using assms by (simp add: cancelledNodeResult_def isCancelled_def bind_run_def world_run_def Let_def
        recordNodeEvent_def applyNodeExecutionEvent_def new_tracker_def return_run_def)
qed

subsection \<open>A concrete run\<close>

definition sample_env :: "(unit, unit, bool) node_env" where
  "sample_env = \<lparr>en_now = Pair ''now'', en_aborted = (\<lambda>w. (w, w)), en_hook = (\<lambda>e f n. Pair (Inr None)),
     en_attempt = (\<lambda>n t a. Pair (Inr \<lparr>ar_evidence = [], ar_exitCode = 0, ar_handoff = None, ar_output = ''ok'',
        ar_timedOut = None\<rparr>)),
     en_gates = (\<lambda>n snapshots r. Pair (Inr [\<lparr>gr_evidence = [], gr_gateId = ''g'', gr_kind = ''builtin'', gr_nodeId = pn_id n,
        gr_passed = True, gr_reason = None, gr_unmet = None\<rparr>])),
     en_snapshot = Pair \<lparr>cs_files = [], cs_fingerprints = []\<rparr>, en_fingerprint = (\<lambda>f w. []),
     en_retryDelay = (\<lambda>d w. w)\<rparr>"

definition sample_node :: "(unit, unit) planned_node" where
  "sample_node = toPlannedNode (command_node ''build'' []) 0"

definition sample_context :: "(unit, unit) run_context" where
  "sample_context = \<lparr>cx_graph = sample_build [], cx_topologicalOrder = [sample_node], cx_profiles = []\<rparr>"

definition sample_state :: "bool \<Rightarrow> node_status \<Rightarrow> (bool, unit) run_state" where
  "sample_state aborted status =
     \<lparr>rs_world = aborted,
      rs_store = set_state ''build'' ((initialNodeExecutionState ''build'')\<lparr>ns_status := status\<rparr>)
        (initialNodeStateStore [sample_node]),
      rs_task = ''task'', rs_events = []\<rparr>"

lemma sample_node_id: "pn_id sample_node = ''build''"
  by (simp add: sample_node_def command_node_def)

lemma sample_state_status:
  "getNodeState (rs_store (sample_state aborted status)) (pn_id sample_node) =
     Some ((initialNodeExecutionState ''build'')\<lparr>ns_status := status\<rparr>)"
  by (simp add: sample_state_def sample_node_id)





lemma node_execution_bounded_witness:
  "fst (executeNode 2 sample_env sample_context sample_node (sample_state False READY_ST)) \<noteq> NoFuel"
proof -
  obtain out s' where run: "executeNode 2 sample_env sample_context sample_node (sample_state False READY_ST) = (out, s')"
    by (cases "executeNode 2 sample_env sample_context sample_node (sample_state False READY_ST)")
  have "pn_needs sample_node = []" "max 2 (rp_maxAttempts (nodeRetryPolicy sample_node)) \<le> 2"
    by (simp_all add: sample_node_def command_node_def nodeRetryPolicy_def wn_needs_list_def)
  then show ?thesis
    using node_execution_bounded [OF sample_state_status _ _ _ run] run by simp
qed

lemma planned_node_answers_its_id_witness:
  "\<exists>plan cx. compileWorkflowPlan sample_build sample_config None = Inr plan \<and> cx_graph cx = ep_graph plan \<and>
     (\<forall>r s'. executePlannedNode 2 sample_env cx ''build'' (sample_state False READY_ST) = (Ok r, s') \<longrightarrow>
        nr_nodeId r = ''build'')"
proof -
  obtain plan where plan: "compileWorkflowPlan sample_build sample_config None = Inr plan"
    using sample_plan by blast
  let ?cx = "\<lparr>cx_graph = ep_graph plan, cx_topologicalOrder = ep_topologicalOrder plan, cx_profiles = []\<rparr>"
  have "\<forall>r s'. executePlannedNode 2 sample_env ?cx ''build'' (sample_state False READY_ST) = (Ok r, s') \<longrightarrow>
        nr_nodeId r = ''build''"
    using planned_node_answers_its_id [OF sample_facts plan, of ?cx "sample_state False READY_ST" "''build''"]
      sample_state_status [of False READY_ST] by (simp add: sample_node_id)
  then show ?thesis using plan by (intro exI [of _ plan] exI [of _ ?cx]) simp
qed

lemma cancelled_before_gates_reports_passed_witness:
  "\<exists>r s'. cancelledNodeResult sample_env (pn_id sample_node) 1
       \<lparr>ar_evidence = [], ar_exitCode = 0, ar_handoff = None, ar_output = ''ok'', ar_timedOut = None\<rparr>
       (sample_state True RUNNING_ST) = (Ok (Some r), s') \<and> nr_status r = ResultPassed"
  using cancelled_before_gates_reports_passed [OF sample_state_status [of True RUNNING_ST], of sample_env True
      "\<lparr>ar_evidence = [], ar_exitCode = 0, ar_handoff = None, ar_output = ''ok'', ar_timedOut = None\<rparr>" 1]
  by (auto simp: sample_env_def sample_state_def)

end
