(* ===== verification/JsData.thy ===== *)
theory JsData
  imports Prelude
begin

text \<open>
  JavaScript data used by several components: values of unknown shape (parsed JSON), the order of an
  object's own properties, and \<^verbatim>\<open>uniqueStrings\<close> of \<^verbatim>\<open>src/strings.ts\<close>. Strings are compared by
  their characters, as \<open>toSorted\<close> does. The numbers of a value are integers; others are not modelled.
\<close>

datatype json =
    JNull
  | JBool bool
  | JNum int
  | JStr string
  | JArr "json list"
  | JObj "(string \<times> json) list"

fun json_field :: "json \<Rightarrow> string \<Rightarrow> json option" where
  "json_field (JObj entries) key = map_of entries key"
| "json_field v key = None"

fun isRecord :: "json \<Rightarrow> bool" where
  "isRecord (JObj entries) \<longleftrightarrow> True"
| "isRecord v \<longleftrightarrow> False"

fun json_array :: "json option \<Rightarrow> json list option" where
  "json_array (Some (JArr items)) = Some items"
| "json_array v = None"

fun json_string :: "json option \<Rightarrow> string option" where
  "json_string (Some (JStr s)) = Some s"
| "json_string v = None"

text \<open>\<open>String(value)\<close>.\<close>

fun json_text :: "json \<Rightarrow> string" and json_item_text :: "json \<Rightarrow> string" where
  "json_text JNull = ''null''"
| "json_text (JBool b) = (if b then ''true'' else ''false'')"
| "json_text (JNum n) = show_int n"
| "json_text (JStr s) = s"
| "json_text (JArr items) = join_with '','' (map json_item_text items)"
| "json_text (JObj entries) = ''[object Object]''"
| "json_item_text v = (if v = JNull then [] else json_text v)"

text \<open>\<open>String.prototype.trim\<close>, on the white space among the characters of \<^typ>\<open>char\<close>.\<close>

definition is_space :: "char \<Rightarrow> bool" where
  "is_space c \<longleftrightarrow> (of_char c :: nat) \<in> {9, 10, 11, 12, 13, 32, 160}"

definition js_trim :: "string \<Rightarrow> string" where
  "js_trim s = rev (dropWhile is_space (rev (dropWhile is_space s)))"

subsection \<open>The order of an object's properties\<close>

text \<open>
  The own properties of an object are enumerated with the array indices first, in ascending
  order, then the other keys in the order they were added.
\<close>

definition is_digit :: "char \<Rightarrow> bool" where
  "is_digit c \<longleftrightarrow> 48 \<le> (of_char c :: nat) \<and> (of_char c :: nat) \<le> 57"

definition numeric_value :: "string \<Rightarrow> nat" where
  "numeric_value s = foldl (\<lambda>n c. 10 * n + (of_char c - 48)) 0 s"

definition is_array_index :: "string \<Rightarrow> bool" where
  "is_array_index s \<longleftrightarrow> s \<noteq> [] \<and> list_all is_digit s \<and> (s = ''0'' \<or> hd s \<noteq> CHR ''0'') \<and>
     numeric_value s < 4294967295"

definition object_entries :: "(string \<times> 'v) list \<Rightarrow> (string \<times> 'v) list" where
  "object_entries entries =
     sort_key (numeric_value \<circ> fst) (filter (is_array_index \<circ> fst) entries) @
     filter (\<lambda>field. \<not> is_array_index (fst field)) entries"

definition object_values :: "(string \<times> 'v) list \<Rightarrow> 'v list" where
  "object_values entries = map snd (object_entries entries)"

lemma set_object_entries [simp]: "set (object_entries entries) = set entries"
  by (auto simp: object_entries_def)

lemma set_object_values: "set (object_values entries) = snd ` set entries"
  by (simp add: object_values_def)

subsection \<open>Classes of characters\<close>

definition is_lower :: "char \<Rightarrow> bool" where
  "is_lower c \<longleftrightarrow> (let n = (of_char c :: nat) in 97 \<le> n \<and> n \<le> 122)"

definition is_upper :: "char \<Rightarrow> bool" where
  "is_upper c \<longleftrightarrow> (let n = (of_char c :: nat) in 65 \<le> n \<and> n \<le> 90)"

subsection \<open>Unique strings\<close>

definition uniqueStrings :: "bool \<Rightarrow> bool \<Rightarrow> string list \<Rightarrow> string list" where
  "uniqueStrings filterEmpty sorting values =
     (let input = (if filterEmpty then filter (\<lambda>v. v \<noteq> []) values else values);
          unique = js_set input
      in if sorting then sort unique else unique)"

lemma set_uniqueStrings:
  "set (uniqueStrings filterEmpty sorting values) = {v \<in> set values. filterEmpty \<longrightarrow> v \<noteq> []}"
  by (auto simp: uniqueStrings_def Let_def)

lemma distinct_uniqueStrings: "distinct (uniqueStrings filterEmpty sorting values)"
  by (simp add: uniqueStrings_def Let_def)

lemma sorted_uniqueStrings: "sorted (uniqueStrings filterEmpty True values)"
  by (simp add: uniqueStrings_def Let_def)

end
