(* ===== verification/GoalState.thy ===== *)
theory GoalState
  imports JsData Contracts
begin

text \<open>
  The goal state of a run (\<^verbatim>\<open>src/runtime/goal-state/goal-state.ts\<close>, \<^verbatim>\<open>goal-requirement.ts\<close>): what the
  runtime events say about nodes, gates, the verifier and the acceptance criteria, and the evidence
  that decides whether the goal is reached. The strict schema that every new state is parsed with
  is the predicate \<open>goal_state_valid\<close>; parsing a state that violates it throws.
\<close>

subsection \<open>The state\<close>

datatype verdict = VerdictFail | VerdictPass

datatype goal_node_status = GoalNodeFailed | GoalNodePassed | GoalNodePending | GoalNodeRunning

datatype goal_outcome = GoalBlocked | GoalCancelled | GoalFail | GoalPass

record acceptance_verdict =
  av_evidence :: "string list"
  av_id :: string
  av_verdict :: verdict
  av_violations :: "string list option"

record goal_gate =
  gg_evidence :: "string list"
  gg_gateId :: string
  gg_kind :: string
  gg_nodeId :: string
  gg_passed :: bool
  gg_reason :: "string option"

record goal_node =
  go_attempts :: nat
  go_changedFiles :: "string list"
  go_exitCode :: "int option"
  go_gates :: "goal_gate list"
  go_nodeId :: string
  go_profile :: "string option"
  go_runnerId :: "string option"
  go_status :: goal_node_status

record continuation_attempt =
  ca_attempt :: nat
  ca_promptPath :: "string option"
  ca_reason :: string
  ca_verifierNodeId :: "string option"

record verifier_state =
  vs_evidence :: "string list"
  vs_nodeId :: "string option"
  vs_reason :: "string option"
  vs_verdict :: "verdict option"
  vs_violations :: "string list option"

record goal_state =
  gs_acceptance :: "acceptance_verdict list"
  gs_blockedReasons :: "string list"
  gs_changedFiles :: "string list"
  gs_continuationAttempts :: "continuation_attempt list"
  gs_gateFailures :: "goal_gate list"
  gs_nodes :: "(string \<times> goal_node) list"
  gs_runId :: "string option"
  gs_schedule :: "(string option \<times> string option) option"
  gs_taskContext :: "json option"
  gs_taskOriginal :: string
  gs_terminalOutcome :: "goal_outcome option"
  gs_verifier :: verifier_state
  gs_workflowId :: string

subsection \<open>The schema\<close>

definition MAX_EVIDENCE_ITEMS :: nat where "MAX_EVIDENCE_ITEMS = 8"

definition MAX_EVIDENCE_LENGTH :: nat where "MAX_EVIDENCE_LENGTH = 500"

definition evidence_ok :: "string list \<Rightarrow> bool" where
  "evidence_ok es \<longleftrightarrow> length es \<le> 32 \<and> (\<forall>e \<in> set es. length e \<le> MAX_EVIDENCE_LENGTH)"

definition optional_ok :: "('v \<Rightarrow> bool) \<Rightarrow> 'v option \<Rightarrow> bool" where
  "optional_ok ok v = (case v of None \<Rightarrow> True | Some x \<Rightarrow> ok x)"

abbreviation required_string :: "string \<Rightarrow> bool" where
  "required_string s \<equiv> s \<noteq> []"

definition acceptance_ok :: "acceptance_verdict \<Rightarrow> bool" where
  "acceptance_ok a \<longleftrightarrow> evidence_ok (av_evidence a) \<and> required_string (av_id a) \<and>
     optional_ok evidence_ok (av_violations a)"

definition gate_ok :: "goal_gate \<Rightarrow> bool" where
  "gate_ok g \<longleftrightarrow> evidence_ok (gg_evidence g) \<and> required_string (gg_gateId g) \<and> required_string (gg_kind g) \<and>
     required_string (gg_nodeId g) \<and> optional_ok required_string (gg_reason g)"

definition goal_node_ok :: "goal_node \<Rightarrow> bool" where
  "goal_node_ok n \<longleftrightarrow> (\<forall>f \<in> set (go_changedFiles n). required_string f) \<and> (\<forall>g \<in> set (go_gates n). gate_ok g) \<and>
     required_string (go_nodeId n) \<and> optional_ok required_string (go_profile n) \<and>
     optional_ok required_string (go_runnerId n)"

definition continuation_ok :: "continuation_attempt \<Rightarrow> bool" where
  "continuation_ok c \<longleftrightarrow> 0 < ca_attempt c \<and> optional_ok required_string (ca_promptPath c) \<and>
     required_string (ca_reason c) \<and> optional_ok required_string (ca_verifierNodeId c)"

definition verifier_ok :: "verifier_state \<Rightarrow> bool" where
  "verifier_ok v \<longleftrightarrow> evidence_ok (vs_evidence v) \<and> optional_ok required_string (vs_nodeId v) \<and>
     optional_ok required_string (vs_reason v) \<and> optional_ok evidence_ok (vs_violations v)"

definition goal_state_valid :: "goal_state \<Rightarrow> bool" where
  "goal_state_valid st \<longleftrightarrow> (\<forall>a \<in> set (gs_acceptance st). acceptance_ok a) \<and> evidence_ok (gs_blockedReasons st) \<and>
     (\<forall>f \<in> set (gs_changedFiles st). required_string f) \<and>
     (\<forall>c \<in> set (gs_continuationAttempts st). continuation_ok c) \<and>
     (\<forall>g \<in> set (gs_gateFailures st). gate_ok g) \<and>
     (\<forall>(key, n) \<in> set (gs_nodes st). required_string key \<and> goal_node_ok n) \<and>
     optional_ok required_string (gs_runId st) \<and>
     optional_ok (\<lambda>(i, p). optional_ok required_string i \<and> optional_ok required_string p) (gs_schedule st) \<and>
     verifier_ok (gs_verifier st) \<and> required_string (gs_workflowId st)"

datatype schema_error = SchemaError

definition parseGoalState :: "goal_state \<Rightarrow> schema_error + goal_state" where
  "parseGoalState st = (if goal_state_valid st then Inr st else Inl SchemaError)"

subsection \<open>Creating a state\<close>

record goal_options =
  co_runId :: "string option"
  co_scheduleId :: "string option"
  co_schedulePath :: "string option"
  co_task :: string
  co_taskContext :: "json option"
  co_workflowId :: string

definition createGoalState :: "goal_options \<Rightarrow> schema_error + goal_state" where
  "createGoalState options = parseGoalState
     \<lparr>gs_acceptance = [], gs_blockedReasons = [], gs_changedFiles = [], gs_continuationAttempts = [],
      gs_gateFailures = [], gs_nodes = [], gs_runId = truthy (co_runId options),
      gs_schedule = (if truthy (co_scheduleId options) \<noteq> None \<or> truthy (co_schedulePath options) \<noteq> None
        then Some (truthy (co_scheduleId options), truthy (co_schedulePath options)) else None),
      gs_taskContext = co_taskContext options, gs_taskOriginal = co_task options, gs_terminalOutcome = None,
      gs_verifier = \<lparr>vs_evidence = [], vs_nodeId = None, vs_reason = None, vs_verdict = None, vs_violations = None\<rparr>,
      gs_workflowId = co_workflowId options\<rparr>"

subsection \<open>Evidence\<close>

definition safeEvidence :: "string list \<Rightarrow> string list" where
  "safeEvidence items = map (take MAX_EVIDENCE_LENGTH) (take MAX_EVIDENCE_ITEMS items)"

text \<open>Of a list of unknown values, the strings.\<close>

definition json_strings :: "json list \<Rightarrow> string list" where
  "json_strings items = List.map_filter (\<lambda>v. json_string (Some v)) items"

definition json_evidence :: "json option \<Rightarrow> string list" where
  "json_evidence v = safeEvidence (json_strings (or_else (json_array v) []))"

definition optionalEvidence :: "json option \<Rightarrow> string list option" where
  "optionalEvidence v = (let evidence = json_evidence v in if evidence \<noteq> [] then Some evidence else None)"

fun isVerdict :: "json option \<Rightarrow> verdict option" where
  "isVerdict (Some (JStr s)) =
     (if s = ''PASS'' then Some VerdictPass else if s = ''FAIL'' then Some VerdictFail else None)"
| "isVerdict v = None"

lemma evidence_ok_safe [simp]: "evidence_ok (safeEvidence items)"
  by (auto simp: evidence_ok_def safeEvidence_def MAX_EVIDENCE_ITEMS_def)

lemma evidence_ok_json [simp]: "evidence_ok (json_evidence v)" and
  optional_evidence_ok [simp]: "optional_ok evidence_ok (optionalEvidence v)"
  by (simp_all add: json_evidence_def optionalEvidence_def Let_def optional_ok_def)

lemma optional_truthy [simp]: "optional_ok required_string (truthy v)"
  by (simp add: optional_ok_def truthy_Some_iff split: option.split)

subsection \<open>Nodes and gates\<close>

text \<open>A patch: a field is absent, or present with a value that may be undefined.\<close>

record node_patch =
  np_attempts :: "nat option"
  np_changedFiles :: "string list option"
  np_exitCode :: "int option option"
  np_profile :: "string option option"
  np_runnerId :: "string option option"
  np_status :: "goal_node_status option"

definition empty_patch :: node_patch where
  "empty_patch = \<lparr>np_attempts = None, np_changedFiles = None, np_exitCode = None, np_profile = None,
     np_runnerId = None, np_status = None\<rparr>"

definition uniqueChangedFiles :: "string list \<Rightarrow> string list" where
  "uniqueChangedFiles files = uniqueStrings True True files"

definition new_goal_node :: "string \<Rightarrow> goal_node" where
  "new_goal_node nodeId = \<lparr>go_attempts = 0, go_changedFiles = [], go_exitCode = None, go_gates = [],
     go_nodeId = nodeId, go_profile = None, go_runnerId = None, go_status = GoalNodePending\<rparr>"

definition patch_node :: "string \<Rightarrow> node_patch \<Rightarrow> goal_node \<Rightarrow> goal_node" where
  "patch_node nodeId patch current =
     \<lparr>go_attempts = max (go_attempts current) (or_else (np_attempts patch) 0),
      go_changedFiles = uniqueChangedFiles (go_changedFiles current @ or_else (np_changedFiles patch) []),
      go_exitCode = or_else (np_exitCode patch) (go_exitCode current),
      go_gates = go_gates current, go_nodeId = nodeId,
      go_profile = or_else (np_profile patch) (go_profile current),
      go_runnerId = or_else (np_runnerId patch) (go_runnerId current),
      go_status = or_else (np_status patch) (go_status current)\<rparr>"

definition upsertNode :: "string \<Rightarrow> node_patch \<Rightarrow> goal_state \<Rightarrow> goal_state" where
  "upsertNode nodeId patch st =
     (let current = or_else (map_of (gs_nodes st) nodeId) (new_goal_node nodeId)
      in st\<lparr>gs_nodes := AList.update nodeId (patch_node nodeId patch current) (gs_nodes st)\<rparr>)"

definition isVerifierGate :: "goal_gate \<Rightarrow> bool" where
  "isVerifierGate gate \<longleftrightarrow> gg_kind gate = ''verdict'' \<or> str_includes (gg_nodeId gate) ''verif''"

definition push_gate :: "goal_gate \<Rightarrow> goal_state \<Rightarrow> goal_state" where
  "push_gate gate st = (case map_of (gs_nodes st) (gg_nodeId gate) of
     None \<Rightarrow> st
   | Some node \<Rightarrow> st\<lparr>gs_nodes := AList.update (gg_nodeId gate) (node\<lparr>go_gates := go_gates node @ [gate]\<rparr>) (gs_nodes st)\<rparr>)"

definition failed_verifier :: "goal_gate \<Rightarrow> verifier_state \<Rightarrow> verifier_state" where
  "failed_verifier gate v =
     \<lparr>vs_evidence = safeEvidence (vs_evidence v @ gg_evidence gate), vs_nodeId = Some (gg_nodeId gate),
      vs_reason = truthy (gg_reason gate), vs_verdict = Some VerdictFail, vs_violations = vs_violations v\<rparr>"

definition recordGateAttempt :: "goal_gate \<Rightarrow> goal_state \<Rightarrow> goal_state" where
  "recordGateAttempt gate st =
     (let st1 = push_gate gate (upsertNode (gg_nodeId gate) empty_patch st) in
      if gg_passed gate then st1
      else let st2 = st1\<lparr>gs_gateFailures := gs_gateFailures st1 @ [gate]\<rparr> in
        if isVerifierGate gate then st2\<lparr>gs_verifier := failed_verifier gate (gs_verifier st2)\<rparr> else st2)"

subsection \<open>Explicit records\<close>

definition recordGoalStateChangedFiles ::
  "goal_state \<Rightarrow> string \<Rightarrow> string list \<Rightarrow> schema_error + goal_state" where
  "recordGoalStateChangedFiles st nodeId files =
     (let uniqueFiles = uniqueChangedFiles files;
          next = upsertNode nodeId (empty_patch\<lparr>np_changedFiles := Some uniqueFiles\<rparr>) st
      in parseGoalState (next\<lparr>gs_changedFiles := uniqueChangedFiles (gs_changedFiles next @ uniqueFiles)\<rparr>))"

definition recordGoalStateContinuationAttempt ::
  "goal_state \<Rightarrow> string option \<Rightarrow> string \<Rightarrow> string option \<Rightarrow> schema_error + goal_state" where
  "recordGoalStateContinuationAttempt st promptPath reason verifierNodeId =
     parseGoalState (st\<lparr>gs_continuationAttempts := gs_continuationAttempts st @
       [\<lparr>ca_attempt = length (gs_continuationAttempts st) + 1, ca_promptPath = truthy promptPath,
         ca_reason = reason, ca_verifierNodeId = truthy verifierNodeId\<rparr>]\<rparr>)"

definition markGoalStateBlocked :: "goal_state \<Rightarrow> string \<Rightarrow> schema_error + goal_state" where
  "markGoalStateBlocked st reason =
     parseGoalState (st\<lparr>gs_blockedReasons := safeEvidence (gs_blockedReasons st @ [reason]),
                        gs_terminalOutcome := Some GoalBlocked\<rparr>)"

subsection \<open>Runtime events\<close>

text \<open>The events the state reacts to; every other event leaves it unchanged.\<close>

datatype goal_event =
    WorkflowPlannedEv "(string \<times> string option \<times> string option) list"
  | NodeStartEv string nat "string option" "string option"
  | AgentStartEv string nat "string option" "string option"
  | NodeFinishEv string nat int "string option" "string option" result_status
  | GateFinishEv string string string "string list option" bool "string option"
  | OutputRecordedEv string "string option" "string option" json
  | WorkflowFinishEv run_outcome
  | OtherEv

definition isVerifierNode :: "string \<Rightarrow> string option \<Rightarrow> string option \<Rightarrow> bool" where
  "isVerifierNode nodeId profile schemaPath \<longleftrightarrow> str_includes nodeId ''verif'' \<or>
     (case profile of None \<Rightarrow> False | Some p \<Rightarrow> str_includes p ''verif'') \<or>
     (case schemaPath of None \<Rightarrow> False | Some p \<Rightarrow> str_includes p ''verify'')"

definition acceptance_item :: "json \<Rightarrow> acceptance_verdict option" where
  "acceptance_item item =
     (if \<not> isRecord item then None
      else case (isVerdict (json_field item ''verdict''), json_string (json_field item ''id'')) of
        (Some verdict, Some i) \<Rightarrow> Some \<lparr>av_evidence = json_evidence (json_field item ''evidence''), av_id = i,
          av_verdict = verdict, av_violations = optionalEvidence (json_field item ''violations'')\<rparr>
      | _ \<Rightarrow> None)"

definition recordStructuredVerdicts ::
  "string \<Rightarrow> string option \<Rightarrow> string option \<Rightarrow> json \<Rightarrow> goal_state \<Rightarrow> goal_state" where
  "recordStructuredVerdicts nodeId profile schemaPath out st =
     (if \<not> isRecord out then st
      else let st1 = (case json_array (json_field out ''acceptance'') of
                        None \<Rightarrow> st
                      | Some items \<Rightarrow> st\<lparr>gs_acceptance := List.map_filter acceptance_item items\<rparr>)
        in case isVerdict (json_field out ''verdict'') of
             None \<Rightarrow> st1
           | Some verdict \<Rightarrow>
               if isVerifierNode nodeId profile schemaPath
               then st1\<lparr>gs_verifier := \<lparr>vs_evidence = json_evidence (json_field out ''evidence''),
                      vs_nodeId = Some nodeId, vs_reason = None, vs_verdict = Some verdict,
                      vs_violations = optionalEvidence (json_field out ''violations'')\<rparr>\<rparr>
               else st1)"

definition recordPendingWorkflowNodes ::
  "(string \<times> string option \<times> string option) list \<Rightarrow> goal_state \<Rightarrow> goal_state" where
  "recordPendingWorkflowNodes nodes st =
     foldl (\<lambda>st (i, profile, runnerId). upsertNode i (empty_patch\<lparr>np_profile := Some profile,
        np_runnerId := Some runnerId, np_status := Some GoalNodePending\<rparr>) st) st nodes"

definition recordStartedNode ::
  "string \<Rightarrow> nat \<Rightarrow> string option \<Rightarrow> string option \<Rightarrow> goal_state \<Rightarrow> goal_state" where
  "recordStartedNode nodeId attempt profile runnerId st =
     upsertNode nodeId (empty_patch\<lparr>np_attempts := Some attempt, np_profile := Some profile,
        np_runnerId := Some runnerId, np_status := Some GoalNodeRunning\<rparr>) st"

definition recordFinishedNode ::
  "string \<Rightarrow> nat \<Rightarrow> int \<Rightarrow> string option \<Rightarrow> string option \<Rightarrow> result_status \<Rightarrow> goal_state \<Rightarrow> goal_state" where
  "recordFinishedNode nodeId attempt exitCode profile runnerId status st =
     upsertNode nodeId (empty_patch\<lparr>np_attempts := Some attempt, np_exitCode := Some (Some exitCode),
        np_profile := Some profile, np_runnerId := Some runnerId,
        np_status := Some (if status = ResultPassed then GoalNodePassed else GoalNodeFailed)\<rparr>) st"

definition finished_gate ::
  "string \<Rightarrow> string \<Rightarrow> string \<Rightarrow> string list option \<Rightarrow> bool \<Rightarrow> string option \<Rightarrow> goal_gate" where
  "finished_gate gateId kind nodeId evidence passed reason =
     \<lparr>gg_evidence = safeEvidence (or_else evidence []), gg_gateId = gateId, gg_kind = kind, gg_nodeId = nodeId,
      gg_passed = passed, gg_reason = truthy reason\<rparr>"

fun goal_outcome_of :: "run_outcome \<Rightarrow> goal_outcome" where
  "goal_outcome_of CANCELLED = GoalCancelled"
| "goal_outcome_of FAIL = GoalFail"
| "goal_outcome_of PASS = GoalPass"

fun handle_event :: "goal_event \<Rightarrow> goal_state \<Rightarrow> goal_state" where
  "handle_event (WorkflowPlannedEv nodes) st = recordPendingWorkflowNodes nodes st"
| "handle_event (NodeStartEv n k p r) st = recordStartedNode n k p r st"
| "handle_event (AgentStartEv n k p r) st = recordStartedNode n k p r st"
| "handle_event (NodeFinishEv n k c p r status) st = recordFinishedNode n k c p r status st"
| "handle_event (GateFinishEv g kind n evidence passed reason) st =
     recordGateAttempt (finished_gate g kind n evidence passed reason) st"
| "handle_event (OutputRecordedEv n p sp out) st = recordStructuredVerdicts n p sp out st"
| "handle_event (WorkflowFinishEv outcome) st = st\<lparr>gs_terminalOutcome := Some (goal_outcome_of outcome)\<rparr>"
| "handle_event OtherEv st = st"

definition applyGoalStateEvent :: "goal_state \<Rightarrow> goal_event \<Rightarrow> schema_error + goal_state" where
  "applyGoalStateEvent st event = parseGoalState (handle_event event st)"

fun apply_events :: "goal_state \<Rightarrow> goal_event list \<Rightarrow> schema_error + goal_state" where
  "apply_events st [] = Inr st"
| "apply_events st (event # events) =
     (case applyGoalStateEvent st event of Inl e \<Rightarrow> Inl e | Inr st' \<Rightarrow> apply_events st' events)"

definition reconstructGoalStateFromEvents ::
  "goal_options \<Rightarrow> goal_event list \<Rightarrow> schema_error + goal_state" where
  "reconstructGoalStateFromEvents options events =
     (case createGoalState options of Inl e \<Rightarrow> Inl e | Inr st \<Rightarrow> apply_events st events)"

subsection \<open>Signature and next requirement\<close>

definition goalStateFailureSignature :: "goal_state \<Rightarrow> string" where
  "goalStateFailureSignature st = join_with [CHR 0x00] (filter (\<lambda>s. s \<noteq> [])
     (map (\<lambda>gate. join_with ''/'' ([gg_nodeId gate, gg_gateId gate, or_else (gg_reason gate) []] @ gg_evidence gate))
        (gs_gateFailures st) @
      [if vs_verdict (gs_verifier st) = Some VerdictFail
       then join_with ''/'' ([or_else (vs_nodeId (gs_verifier st)) ''verify'', or_else (vs_reason (gs_verifier st)) []] @
              vs_evidence (gs_verifier st) @ or_else (vs_violations (gs_verifier st)) [])
       else []] @
      map (\<lambda>item. join_with ''/'' (filter (\<lambda>s. s \<noteq> [])
           ([''acceptance'', av_id item] @ av_evidence item @ or_else (av_violations item) [])))
        (filter (\<lambda>item. av_verdict item = VerdictFail) (gs_acceptance st))))"

definition goalStateNextRequirement :: "goal_state \<Rightarrow> string" where
  "goalStateNextRequirement st =
     (let failedAcceptance = filter (\<lambda>item. av_verdict item = VerdictFail) (gs_acceptance st) in
      if failedAcceptance \<noteq> [] then
        ''Satisfy failed acceptance criteria: '' @ join_with '', '' (map av_id failedAcceptance) @ ''.''
      else if vs_verdict (gs_verifier st) = Some VerdictFail then
        ''Satisfy verifier node '' @ quoted (or_else (vs_nodeId (gs_verifier st)) ''verify'') @
        '' and return passing evidence.''
      else if gs_gateFailures st \<noteq> [] then
        ''Resolve failed gate '' @ quoted (gg_gateId (last (gs_gateFailures st))) @ '' on node '' @
        quoted (gg_nodeId (last (gs_gateFailures st))) @ '' and rerun the required verification.''
      else ''Complete the remaining schedule work and provide passing evidence.'')"

subsection \<open>Completion evidence\<close>

definition expectedAcceptanceIds :: "json option \<Rightarrow> string list" where
  "expectedAcceptanceIds context =
     (case context of
        Some c \<Rightarrow> if isRecord c
          then (case json_array (json_field c ''acceptanceCriteria'') of
                  None \<Rightarrow> []
                | Some items \<Rightarrow> List.map_filter (\<lambda>item. if isRecord item then json_string (json_field item ''id'') else None) items)
          else []
      | None \<Rightarrow> [])"

definition no_criteria_line :: string where
  "no_criteria_line = ''acceptance criteria not required by task context''"

definition missing_line :: "string \<Rightarrow> string" where
  "missing_line i = ''missing acceptance criterion '' @ quoted i @ '' evidence''"

definition criterion_line :: "acceptance_verdict option \<Rightarrow> string \<Rightarrow> string" where
  "criterion_line item i =
     (case item of
        None \<Rightarrow> missing_line i
      | Some a \<Rightarrow>
          if av_verdict a \<noteq> VerdictPass then ''acceptance criterion '' @ quoted i @ '' failed''
          else if av_evidence a = [] then missing_line i
          else if or_else (av_violations a) [] \<noteq> [] then ''acceptance criterion '' @ quoted i @ '' has violations''
          else ''acceptance criterion '' @ quoted i @ '' passed with evidence'')"

text \<open>The map by id keeps the last verdict of an id.\<close>

definition acceptance_by_id :: "goal_state \<Rightarrow> string \<Rightarrow> acceptance_verdict option" where
  "acceptance_by_id st i = map_of (rev (map (\<lambda>item. (av_id item, item)) (gs_acceptance st))) i"

definition acceptanceCompletionEvidence :: "goal_state \<Rightarrow> string list" where
  "acceptanceCompletionEvidence st =
     (let expected = expectedAcceptanceIds (gs_taskContext st) in
      if expected = [] then [no_criteria_line]
      else map (\<lambda>i. criterion_line (acceptance_by_id st i) i) expected)"

definition verifier_passed :: "goal_state \<Rightarrow> bool" where
  "verifier_passed st \<longleftrightarrow> vs_verdict (gs_verifier st) = Some VerdictPass \<and> vs_evidence (gs_verifier st) \<noteq> [] \<and>
     or_else (vs_violations (gs_verifier st)) [] = []"

definition goalStateCompletionEvidence :: "goal_state \<Rightarrow> string list \<times> bool" where
  "goalStateCompletionEvidence st =
     (let evidence = (if verifier_passed st
            then ''verifier '' @ quoted (or_else (vs_nodeId (gs_verifier st)) ''verify'') @ '' passed with evidence''
            else ''missing passing verifier evidence'') # acceptanceCompletionEvidence st
      in (evidence, verifier_passed st \<and> (\<forall>item \<in> set evidence. \<not> starts_with item ''missing '') \<and>
            (\<forall>item \<in> set evidence. \<not> str_includes item '' failed'') \<and>
            (\<forall>item \<in> set evidence. \<not> str_includes item '' violations'')))"

subsection \<open>The state stays valid\<close>

text \<open>An event whose identifiers are not empty.\<close>

fun goal_event_ok :: "goal_event \<Rightarrow> bool" where
  "goal_event_ok (WorkflowPlannedEv nodes) \<longleftrightarrow> (\<forall>(i, p, r) \<in> set nodes. required_string i \<and>
     optional_ok required_string p \<and> optional_ok required_string r)"
| "goal_event_ok (NodeStartEv n k p r) \<longleftrightarrow> required_string n \<and> optional_ok required_string p \<and> optional_ok required_string r"
| "goal_event_ok (AgentStartEv n k p r) \<longleftrightarrow> required_string n \<and> optional_ok required_string p \<and> optional_ok required_string r"
| "goal_event_ok (NodeFinishEv n k c p r status) \<longleftrightarrow>
     required_string n \<and> optional_ok required_string p \<and> optional_ok required_string r"
| "goal_event_ok (GateFinishEv g kind n evidence passed reason) \<longleftrightarrow>
     required_string g \<and> required_string kind \<and> required_string n"
| "goal_event_ok (OutputRecordedEv n p sp out) \<longleftrightarrow> required_string n \<and>
     (\<forall>item \<in> set (or_else (json_array (json_field out ''acceptance'')) []).
        \<forall>a. acceptance_item item = Some a \<longrightarrow> required_string (av_id a))"
| "goal_event_ok (WorkflowFinishEv outcome) \<longleftrightarrow> True"
| "goal_event_ok OtherEv \<longleftrightarrow> True"

lemmas goal_ok_defs = acceptance_ok_def gate_ok_def goal_node_ok_def verifier_ok_def

lemma set_update_subset: "set (AList.update k v m) \<subseteq> insert (k, v) (set m)"
  by (induction m) auto

lemma uniqueChangedFiles_nonempty: "f \<in> set (uniqueChangedFiles files) \<Longrightarrow> f \<noteq> []"
  by (simp add: uniqueChangedFiles_def set_uniqueStrings)

lemma set_uniqueChangedFiles: "set (uniqueChangedFiles files) = set files - {[]}"
  by (auto simp: uniqueChangedFiles_def set_uniqueStrings)

lemma or_else_ok: "optional_ok ok x \<Longrightarrow> optional_ok (optional_ok ok) p \<Longrightarrow> optional_ok ok (or_else p x)"
  by (cases p) (simp_all add: optional_ok_def)

lemma valid_with_nodes:
  assumes "goal_state_valid st" "required_string key" "goal_node_ok node"
  shows "goal_state_valid (st\<lparr>gs_nodes := AList.update key node (gs_nodes st)\<rparr>)"
  using assms set_update_subset [of key node "gs_nodes st"] by (auto simp: goal_state_valid_def)

lemma valid_node:
  assumes "goal_state_valid st" "map_of (gs_nodes st) key = Some node"
  shows "goal_node_ok node"
  using assms(1) map_of_SomeD [OF assms(2)] by (auto simp: goal_state_valid_def)

lemma upsertNode_valid:
  assumes "goal_state_valid st" "required_string nodeId"
    and "optional_ok (optional_ok required_string) (np_profile patch)"
    and "optional_ok (optional_ok required_string) (np_runnerId patch)"
  shows "goal_state_valid (upsertNode nodeId patch st)"
proof -
  have current: "goal_node_ok (or_else (map_of (gs_nodes st) nodeId) (new_goal_node nodeId))"
  proof (cases "map_of (gs_nodes st) nodeId")
    case None
    then show ?thesis using assms(2) by (simp add: goal_node_ok_def new_goal_node_def optional_ok_def)
  qed (simp add: valid_node [OF assms(1)])
  then have "goal_node_ok (patch_node nodeId patch (or_else (map_of (gs_nodes st) nodeId) (new_goal_node nodeId)))"
    using assms(2-4) by (auto simp: goal_node_ok_def patch_node_def uniqueChangedFiles_nonempty intro: or_else_ok)
  then show ?thesis unfolding upsertNode_def Let_def by (rule valid_with_nodes [OF assms(1,2)])
qed

lemma empty_patch_ok [simp]:
  "optional_ok ok (np_profile empty_patch)" "optional_ok ok' (np_runnerId empty_patch)"
  by (simp_all add: empty_patch_def optional_ok_def)

lemma optional_Some [simp]: "optional_ok ok (Some x) = ok x" and optional_None [simp]: "optional_ok ok None"
  by (simp_all add: optional_ok_def)

lemma push_gate_valid: "goal_state_valid st \<Longrightarrow> gate_ok gate \<Longrightarrow> goal_state_valid (push_gate gate st)"
  unfolding push_gate_def
  by (auto split: option.split intro!: valid_with_nodes dest: valid_node simp: goal_node_ok_def gate_ok_def)

lemma recordGateAttempt_valid:
  assumes "goal_state_valid st" "gate_ok gate"
  shows "goal_state_valid (recordGateAttempt gate st)"
proof -
  let ?st1 = "push_gate gate (upsertNode (gg_nodeId gate) empty_patch st)"
  have st1: "goal_state_valid ?st1"
    using assms by (intro push_gate_valid upsertNode_valid) (simp_all add: gate_ok_def)
  have "verifier_ok (failed_verifier gate (gs_verifier ?st1))"
    using st1 assms(2) by (simp add: goal_state_valid_def verifier_ok_def failed_verifier_def gate_ok_def)
  then show ?thesis
    using st1 assms(2) by (auto simp: recordGateAttempt_def Let_def goal_state_valid_def)
qed

lemma recordStructuredVerdicts_valid:
  assumes "goal_state_valid st" "goal_event_ok (OutputRecordedEv nodeId profile schemaPath out)"
  shows "goal_state_valid (recordStructuredVerdicts nodeId profile schemaPath out st)"
proof -
  have item: "acceptance_item item = Some a \<Longrightarrow> evidence_ok (av_evidence a) \<and> optional_ok evidence_ok (av_violations a)"
    for item a
    by (auto simp: acceptance_item_def split: if_splits option.splits)
  have "acceptance_ok a" if "json_array (json_field out ''acceptance'') = Some items"
    "a \<in> set (List.map_filter acceptance_item items)" for items a
    using that assms(2) item by (auto simp: acceptance_ok_def List.map_filter_def)
  then show ?thesis
    using assms
    by (auto simp: recordStructuredVerdicts_def Let_def goal_state_valid_def verifier_ok_def split: option.split)
qed

lemma recordPendingWorkflowNodes_valid:
  "goal_state_valid st \<Longrightarrow> goal_event_ok (WorkflowPlannedEv nodes) \<Longrightarrow> goal_state_valid (recordPendingWorkflowNodes nodes st)"
proof (induction nodes arbitrary: st)
  case (Cons node nodes)
  obtain i p r where node: "node = (i, p, r)" by (cases node)
  have "goal_state_valid (upsertNode i (empty_patch\<lparr>np_profile := Some p, np_runnerId := Some r,
      np_status := Some GoalNodePending\<rparr>) st)"
    using Cons.prems node by (intro upsertNode_valid) auto
  from Cons.IH [OF this] Cons.prems(2) show ?case by (simp add: recordPendingWorkflowNodes_def node)
qed (simp add: recordPendingWorkflowNodes_def)

lemma handle_event_valid:
  assumes "goal_state_valid st" "goal_event_ok event"
  shows "goal_state_valid (handle_event event st)"
proof (cases event)
  case (WorkflowPlannedEv nodes)
  then show ?thesis using assms recordPendingWorkflowNodes_valid by simp
next
  case (GateFinishEv g kind n evidence passed reason)
  then show ?thesis using assms by (simp add: recordGateAttempt_valid gate_ok_def finished_gate_def)
next
  case (OutputRecordedEv n p sp out)
  then show ?thesis using assms recordStructuredVerdicts_valid by simp
next
  case (WorkflowFinishEv outcome)
  then show ?thesis using assms by (simp add: goal_state_valid_def)
qed (use assms in \<open>auto simp: recordStartedNode_def recordFinishedNode_def intro!: upsertNode_valid\<close>)

lemma reconstruct_ok:
  assumes "co_workflowId options \<noteq> []" "\<forall>event \<in> set events. goal_event_ok event"
  shows "\<exists>st. reconstructGoalStateFromEvents options events = Inr st \<and> goal_state_valid st"
proof -
  have apply_ok: "\<exists>st'. apply_events st events = Inr st' \<and> goal_state_valid st'"
    if "goal_state_valid st" "\<forall>event \<in> set events. goal_event_ok event" for st
    using that
    by (induction st events rule: apply_events.induct)
       (simp_all add: applyGoalStateEvent_def parseGoalState_def handle_event_valid)
  have "\<exists>st. createGoalState options = Inr st \<and> goal_state_valid st"
    using assms(1) by (simp add: createGoalState_def parseGoalState_def goal_state_valid_def verifier_ok_def evidence_ok_def)
  then show ?thesis using apply_ok assms(2) by (auto simp: reconstructGoalStateFromEvents_def)
qed

text \<open>
  The state of a run can be reconstructed from any log whose events carry nonempty
  identifiers, whatever outputs, evidence and order the log has: no event makes a later state
  violate its schema, and the reconstructed state is valid.
\<close>

theorem goal_state_reconstructs:
  assumes "co_workflowId options \<noteq> []" "\<forall>event \<in> set events. goal_event_ok event"
  shows "\<exists>st. reconstructGoalStateFromEvents options events = Inr st \<and> goal_state_valid st"
  by (rule reconstruct_ok [OF assms])

lemma goal_state_reconstructs_witness:
  "\<exists>st. reconstructGoalStateFromEvents \<lparr>co_runId = None, co_scheduleId = None, co_schedulePath = None,
      co_task = ''t'', co_taskContext = None, co_workflowId = ''w''\<rparr>
    [NodeStartEv ''verify'' 1 None None, GateFinishEv ''g'' ''verdict'' ''verify'' (Some [''no'']) False None] = Inr st"
  using goal_state_reconstructs [of "\<lparr>co_runId = None, co_scheduleId = None, co_schedulePath = None,
      co_task = ''t'', co_taskContext = None, co_workflowId = ''w''\<rparr>"
    "[NodeStartEv ''verify'' 1 None None, GateFinishEv ''g'' ''verdict'' ''verify'' (Some [''no'']) False None]"]
  by auto

subsection \<open>What a log says\<close>

text \<open>The specification of a reconstructed state: what the log says of its gates, nodes and outcome.\<close>

fun event_gate :: "goal_event \<Rightarrow> goal_gate option" where
  "event_gate (GateFinishEv g kind n evidence passed reason) = Some (finished_gate g kind n evidence passed reason)"
| "event_gate event = None"

fun event_outcome :: "goal_event \<Rightarrow> goal_outcome option" where
  "event_outcome (WorkflowFinishEv outcome) = Some (goal_outcome_of outcome)"
| "event_outcome event = None"

fun event_status :: "string \<Rightarrow> goal_event \<Rightarrow> goal_node_status option" where
  "event_status n (WorkflowPlannedEv nodes) = (if n \<in> fst ` set nodes then Some GoalNodePending else None)"
| "event_status n (NodeStartEv m k p r) = (if m = n then Some GoalNodeRunning else None)"
| "event_status n (AgentStartEv m k p r) = (if m = n then Some GoalNodeRunning else None)"
| "event_status n (NodeFinishEv m k c p r status) =
     (if m = n then Some (if status = ResultPassed then GoalNodePassed else GoalNodeFailed) else None)"
| "event_status n event = None"

fun event_attempt :: "string \<Rightarrow> goal_event \<Rightarrow> nat" where
  "event_attempt n (NodeStartEv m k p r) = (if m = n then k else 0)"
| "event_attempt n (AgentStartEv m k p r) = (if m = n then k else 0)"
| "event_attempt n (NodeFinishEv m k c p r status) = (if m = n then k else 0)"
| "event_attempt n event = 0"

definition log_gates :: "goal_event list \<Rightarrow> goal_gate list" where
  "log_gates events = List.map_filter event_gate events"

definition last_some :: "('e \<Rightarrow> 'v option) \<Rightarrow> 'e list \<Rightarrow> 'v option" where
  "last_some f events = foldl (\<lambda>acc e. case f e of None \<Rightarrow> acc | Some v \<Rightarrow> Some v) None events"

lemma last_some_snoc: "last_some f (events @ [e]) = (case f e of None \<Rightarrow> last_some f events | Some v \<Rightarrow> Some v)"
  by (simp add: last_some_def split: option.split)

definition log_attempts :: "string \<Rightarrow> goal_event list \<Rightarrow> nat" where
  "log_attempts n events = foldl max 0 (map (event_attempt n) events)"

text \<open>The state's side of it; an absent node counts as pending, without attempts or gates.\<close>

definition node_of :: "goal_state \<Rightarrow> string \<Rightarrow> goal_node" where
  "node_of st n = or_else (map_of (gs_nodes st) n) (new_goal_node n)"

definition agrees_with_log :: "goal_state \<Rightarrow> goal_event list \<Rightarrow> bool" where
  "agrees_with_log st events \<longleftrightarrow>
     gs_gateFailures st = filter (\<lambda>g. \<not> gg_passed g) (log_gates events) \<and>
     gs_terminalOutcome st = last_some event_outcome events \<and>
     (\<forall>n. go_gates (node_of st n) = filter (\<lambda>g. gg_nodeId g = n) (log_gates events) \<and>
          go_status (node_of st n) = or_else (last_some (event_status n) events) GoalNodePending \<and>
          go_attempts (node_of st n) = log_attempts n events)"

lemma log_gates_snoc: "log_gates (events @ [e]) = log_gates events @ (case event_gate e of None \<Rightarrow> [] | Some g \<Rightarrow> [g])"
  by (auto simp: log_gates_def List.map_filter_def split: option.split)

lemma log_attempts_snoc: "log_attempts n (events @ [e]) = max (log_attempts n events) (event_attempt n e)"
  by (simp add: log_attempts_def)

lemma upsertNode_view:
  "gs_gateFailures (upsertNode m patch st) = gs_gateFailures st"
  "gs_terminalOutcome (upsertNode m patch st) = gs_terminalOutcome st"
  "go_gates (node_of (upsertNode m patch st) n) = go_gates (node_of st n)"
  "go_status (node_of (upsertNode m patch st) n) =
     (if n = m then or_else (np_status patch) (go_status (node_of st n)) else go_status (node_of st n))"
  "go_attempts (node_of (upsertNode m patch st) n) =
     (if n = m then max (go_attempts (node_of st n)) (or_else (np_attempts patch) 0) else go_attempts (node_of st n))"
  by (simp_all add: upsertNode_def Let_def node_of_def patch_node_def new_goal_node_def)

lemma empty_patch_fields [simp]:
  "np_status empty_patch = None" "np_attempts empty_patch = None"
  by (simp_all add: empty_patch_def)

lemma recordGateAttempt_view:
  "gs_gateFailures (recordGateAttempt g st) = gs_gateFailures st @ (if gg_passed g then [] else [g])"
  "gs_terminalOutcome (recordGateAttempt g st) = gs_terminalOutcome st"
  "go_gates (node_of (recordGateAttempt g st) n) = go_gates (node_of st n) @ (if gg_nodeId g = n then [g] else [])"
  "go_status (node_of (recordGateAttempt g st) n) = go_status (node_of st n)"
  "go_attempts (node_of (recordGateAttempt g st) n) = go_attempts (node_of st n)"
proof -
  let ?st1 = "push_gate g (upsertNode (gg_nodeId g) empty_patch st)"
  obtain node where node: "map_of (gs_nodes (upsertNode (gg_nodeId g) empty_patch st)) (gg_nodeId g) = Some node"
    by (simp add: upsertNode_def Let_def)
  have same: "gs_nodes (recordGateAttempt g st) = gs_nodes ?st1"
    "gs_terminalOutcome (recordGateAttempt g st) = gs_terminalOutcome ?st1"
    "gs_gateFailures (recordGateAttempt g st) = gs_gateFailures ?st1 @ (if gg_passed g then [] else [g])"
    by (simp_all add: recordGateAttempt_def Let_def)
  have pushed: "gs_terminalOutcome ?st1 = gs_terminalOutcome st" "gs_gateFailures ?st1 = gs_gateFailures st"
    using node by (simp_all add: push_gate_def upsertNode_view)
  have push: "node_of ?st1 n = (if n = gg_nodeId g then node\<lparr>go_gates := go_gates node @ [g]\<rparr>
      else node_of (upsertNode (gg_nodeId g) empty_patch st) n)" for n
    using node by (simp add: push_gate_def node_of_def)
  have own: "node = node_of (upsertNode (gg_nodeId g) empty_patch st) (gg_nodeId g)"
    using node by (simp add: node_of_def)
  have nodes: "node_of (recordGateAttempt g st) n = node_of ?st1 n" for n
    by (simp add: node_of_def same)
  show "gs_gateFailures (recordGateAttempt g st) = gs_gateFailures st @ (if gg_passed g then [] else [g])"
    "gs_terminalOutcome (recordGateAttempt g st) = gs_terminalOutcome st"
    "go_gates (node_of (recordGateAttempt g st) n) = go_gates (node_of st n) @ (if gg_nodeId g = n then [g] else [])"
    "go_status (node_of (recordGateAttempt g st) n) = go_status (node_of st n)"
    "go_attempts (node_of (recordGateAttempt g st) n) = go_attempts (node_of st n)"
    unfolding nodes push own by (simp_all add: same pushed upsertNode_view)
qed

lemma recordPendingWorkflowNodes_view:
  "gs_gateFailures (recordPendingWorkflowNodes nodes st) = gs_gateFailures st"
  "gs_terminalOutcome (recordPendingWorkflowNodes nodes st) = gs_terminalOutcome st"
  "go_gates (node_of (recordPendingWorkflowNodes nodes st) n) = go_gates (node_of st n)"
  "go_status (node_of (recordPendingWorkflowNodes nodes st) n) =
     (if n \<in> fst ` set nodes then GoalNodePending else go_status (node_of st n))"
  "go_attempts (node_of (recordPendingWorkflowNodes nodes st) n) = go_attempts (node_of st n)"
  unfolding recordPendingWorkflowNodes_def
  by (induction nodes arbitrary: st) (auto simp: upsertNode_view)

lemma recordStructuredVerdicts_view:
  "gs_gateFailures (recordStructuredVerdicts m p sp out st) = gs_gateFailures st"
  "gs_terminalOutcome (recordStructuredVerdicts m p sp out st) = gs_terminalOutcome st"
  "node_of (recordStructuredVerdicts m p sp out st) n = node_of st n"
  by (auto simp: recordStructuredVerdicts_def Let_def node_of_def split: option.split)

lemma handle_event_agrees:
  assumes "agrees_with_log st events"
  shows "agrees_with_log (handle_event event st) (events @ [event])"
  using assms unfolding agrees_with_log_def
  by (cases event)
     (simp_all add: log_gates_snoc last_some_snoc log_attempts_snoc recordPendingWorkflowNodes_view
       recordStartedNode_def recordFinishedNode_def upsertNode_view recordGateAttempt_view
       recordStructuredVerdicts_view finished_gate_def node_of_def [of "_\<lparr>gs_terminalOutcome := _\<rparr>"]
       node_of_def [of st, symmetric])

lemma apply_events_agrees:
  "agrees_with_log st past \<Longrightarrow> apply_events st events = Inr st' \<Longrightarrow> agrees_with_log st' (past @ events)"
proof (induction st events arbitrary: past rule: apply_events.induct)
  case (2 st event events)
  have ok: "applyGoalStateEvent st event = Inr (handle_event event st)"
    "apply_events (handle_event event st) events = Inr st'"
    using 2(3) by (auto simp: applyGoalStateEvent_def parseGoalState_def split: if_splits)
  from 2(1) [OF ok(1) handle_event_agrees [OF 2(2)] ok(2)] show ?case by simp
qed simp

text \<open>
  A reconstructed state says what its log says: its gate failures are the failed gates of the
  log in order, each node has its gates in order, the status of its last planning, start or finish
  (pending without one) and its highest attempt, and the outcome is that of the last finish.
\<close>

theorem goal_state_replays_log:
  assumes "reconstructGoalStateFromEvents options events = Inr st"
  shows "gs_gateFailures st = filter (\<lambda>g. \<not> gg_passed g) (log_gates events)
    \<and> gs_terminalOutcome st = last_some event_outcome events
    \<and> go_gates (node_of st n) = filter (\<lambda>g. gg_nodeId g = n) (log_gates events)
    \<and> go_status (node_of st n) = or_else (last_some (event_status n) events) GoalNodePending
    \<and> go_attempts (node_of st n) = log_attempts n events"
proof -
  obtain st0 where st0: "createGoalState options = Inr st0" "apply_events st0 events = Inr st"
    using assms by (auto simp: reconstructGoalStateFromEvents_def split: sum.splits)
  then have "agrees_with_log st0 []"
    by (auto simp: createGoalState_def parseGoalState_def agrees_with_log_def log_gates_def last_some_def
        node_of_def new_goal_node_def log_attempts_def List.map_filter_def split: if_splits)
  from apply_events_agrees [OF this st0(2)] show ?thesis by (simp add: agrees_with_log_def)
qed

definition sample_options :: goal_options where
  "sample_options = \<lparr>co_runId = None, co_scheduleId = None, co_schedulePath = None, co_task = ''t'',
     co_taskContext = None, co_workflowId = ''w''\<rparr>"

lemma goal_state_replays_log_witness:
  "\<exists>st. reconstructGoalStateFromEvents sample_options
      [NodeStartEv ''a'' 2 None None, GateFinishEv ''g'' ''k'' ''a'' None False None] = Inr st \<and>
     go_attempts (node_of st ''a'') = 2 \<and> map gg_gateId (gs_gateFailures st) = [''g'']"
proof -
  let ?events = "[NodeStartEv ''a'' 2 None None, GateFinishEv ''g'' ''k'' ''a'' None False None]"
  obtain st where st: "reconstructGoalStateFromEvents sample_options ?events = Inr st"
    using reconstruct_ok [of sample_options ?events] by (auto simp: sample_options_def)
  from goal_state_replays_log [OF st, of "''a''"] show ?thesis
    using st by (intro exI [of _ st]) (simp add: log_attempts_def log_gates_def List.map_filter_def finished_gate_def)
qed

end
