(* ===== verification/GoalEvidence.thy ===== *)
theory GoalEvidence
  imports GoalState
begin

text \<open>
  When the completion evidence of a goal state counts as passed
  (\<^verbatim>\<open>goalStateCompletionEvidence\<close>): the source decides by the text of its evidence lines. Compared
  with the verdicts themselves, the decision is right except for identifiers that contain the words
  the text is searched for.
\<close>

subsection \<open>Searching a line\<close>

text \<open>A text without a separator character is found on one side of it.\<close>

lemma str_includes_split:
  assumes "c \<notin> set sub"
  shows "str_includes (xs @ c # ys) sub \<longleftrightarrow> str_includes xs sub \<or> str_includes ys sub"
proof
  assume "str_includes (xs @ c # ys) sub"
  then obtain before rest where split: "xs @ c # ys = (before @ sub) @ rest"
    by (auto simp: str_includes_iff)
  then consider us where "xs @ c # us = before @ sub" "ys = us @ rest"
    | us where "xs = before @ sub @ us"
    by (auto simp: append_eq_append_conv2 Cons_eq_append_conv append_eq_Cons_conv)
  then show "str_includes xs sub \<or> str_includes ys sub"
  proof cases
    case 1
    then obtain vs where "us = vs @ sub \<or> sub = vs @ c # us"
      using assms by (auto simp: append_eq_append_conv2 Cons_eq_append_conv append_eq_Cons_conv)
    then have "us = vs @ sub" using assms by auto
    then show ?thesis using 1 by (auto simp: str_includes_iff)
  next
    case 2
    then show ?thesis by (auto simp: str_includes_iff)
  qed
next
  assume "str_includes xs sub \<or> str_includes ys sub"
  then show "str_includes (xs @ c # ys) sub"
  proof
    assume "str_includes xs sub"
    then obtain b r where "xs = b @ sub @ r" by (auto simp: str_includes_iff)
    then have "xs @ c # ys = b @ sub @ (r @ c # ys)" by simp
    then show ?thesis unfolding str_includes_iff by blast
  next
    assume "str_includes ys sub"
    then obtain b r where "ys = b @ sub @ r" by (auto simp: str_includes_iff)
    then have "xs @ c # ys = (xs @ c # b) @ sub @ r" by simp
    then show ?thesis unfolding str_includes_iff by blast
  qed
qed

lemma str_includes_quoted:
  assumes "CHR 0x27 \<notin> set sub"
  shows "str_includes (xs @ quoted i @ ys) sub \<longleftrightarrow> str_includes xs sub \<or> str_includes i sub \<or> str_includes ys sub"
  using str_includes_split [OF assms, of xs "i @ CHR 0x27 # ys"] str_includes_split [OF assms, of i ys]
  by (simp add: quoted_def)

text \<open>The words the evidence lines are searched for.\<close>

definition misread :: "string \<Rightarrow> bool" where
  "misread i \<longleftrightarrow> str_includes i '' failed'' \<or> str_includes i '' violations''"

lemma passed_line:
  "str_includes (pre @ quoted i @ '' passed with evidence'') '' failed'' \<longleftrightarrow> str_includes pre '' failed'' \<or> str_includes i '' failed''"
  "str_includes (pre @ quoted i @ '' passed with evidence'') '' violations'' \<longleftrightarrow>
     str_includes pre '' violations'' \<or> str_includes i '' violations''"
  by (simp_all add: str_includes_quoted)

subsection \<open>The decision by verdicts\<close>

definition criterion_met :: "acceptance_verdict option \<Rightarrow> bool" where
  "criterion_met item = (case item of None \<Rightarrow> False
     | Some a \<Rightarrow> av_verdict a = VerdictPass \<and> av_evidence a \<noteq> [] \<and> or_else (av_violations a) [] = [])"

definition line_clean :: "string \<Rightarrow> bool" where
  "line_clean line \<longleftrightarrow> \<not> starts_with line ''missing '' \<and> \<not> str_includes line '' failed'' \<and>
     \<not> str_includes line '' violations''"

lemma criterion_line_clean: "line_clean (criterion_line item i) \<longleftrightarrow> criterion_met item \<and> \<not> misread i"
proof -
  have missing: "\<not> line_clean (missing_line i)"
    by (simp add: line_clean_def missing_line_def starts_with_def)
  have "\<not> line_clean (''acceptance criterion '' @ quoted i @ '' failed'')"
    using str_includes_quoted [of "'' failed''" "''acceptance criterion ''" i "'' failed''"]
    by (simp add: line_clean_def)
  moreover have "\<not> line_clean (''acceptance criterion '' @ quoted i @ '' has violations'')"
    using str_includes_quoted [of "'' violations''" "''acceptance criterion ''" i "'' has violations''"]
    by (simp add: line_clean_def)
  moreover have "line_clean (''acceptance criterion '' @ quoted i @ '' passed with evidence'') \<longleftrightarrow> \<not> misread i"
    using passed_line [of "''acceptance criterion ''" i]
    by (auto simp: line_clean_def misread_def starts_with_def)
  ultimately show ?thesis
    using missing by (cases item) (auto simp: criterion_line_def criterion_met_def)
qed

lemma verifier_line_clean:
  "line_clean (''verifier '' @ quoted i @ '' passed with evidence'') \<longleftrightarrow> \<not> misread i"
  using passed_line [of "''verifier ''" i] by (auto simp: line_clean_def misread_def starts_with_def)

text \<open>
  C13: The completion evidence passes exactly when the verifier passed with evidence and without
  violations, every expected acceptance criterion has a passing verdict with evidence and without
  violations, and no identifier that appears in the evidence contains the words \<open>failed\<close> or
  \<open>violations\<close> after a space.
\<close>

theorem completion_evidence_exact:
  "snd (goalStateCompletionEvidence st) \<longleftrightarrow>
     verifier_passed st \<and>
     (\<forall>i \<in> set (expectedAcceptanceIds (gs_taskContext st)). criterion_met (acceptance_by_id st i)) \<and>
     \<not> misread (or_else (vs_nodeId (gs_verifier st)) ''verify'') \<and>
     (\<forall>i \<in> set (expectedAcceptanceIds (gs_taskContext st)). \<not> misread i)"
proof -
  have "line_clean no_criteria_line" by (simp add: line_clean_def no_criteria_line_def starts_with_def)
  then have criteria: "(\<forall>line \<in> set (acceptanceCompletionEvidence st). line_clean line) \<longleftrightarrow>
      (\<forall>i \<in> set (expectedAcceptanceIds (gs_taskContext st)). criterion_met (acceptance_by_id st i) \<and> \<not> misread i)"
    by (simp add: acceptanceCompletionEvidence_def Let_def criterion_line_clean)
  have "snd (goalStateCompletionEvidence st) \<longleftrightarrow> verifier_passed st \<and>
      (\<forall>line \<in> set (fst (goalStateCompletionEvidence st)). line_clean line)"
    by (auto simp: goalStateCompletionEvidence_def Let_def line_clean_def)
  moreover have "fst (goalStateCompletionEvidence st) = (if verifier_passed st
      then ''verifier '' @ quoted (or_else (vs_nodeId (gs_verifier st)) ''verify'') @ '' passed with evidence''
      else ''missing passing verifier evidence'') # acceptanceCompletionEvidence st"
    by (simp add: goalStateCompletionEvidence_def Let_def)
  ultimately show ?thesis using verifier_line_clean criteria by auto
qed

text \<open>A task whose criterion is called ``login failed message'', with all evidence there.\<close>

definition login_criterion :: string where
  "login_criterion = ''login failed message''"

definition login_state :: goal_state where
  "login_state = \<lparr>gs_acceptance = [\<lparr>av_evidence = [''seen''], av_id = login_criterion, av_verdict = VerdictPass,
       av_violations = None\<rparr>],
     gs_blockedReasons = [], gs_changedFiles = [], gs_continuationAttempts = [], gs_gateFailures = [], gs_nodes = [],
     gs_runId = None, gs_schedule = None,
     gs_taskContext = Some (JObj [(''acceptanceCriteria'', JArr [JObj [(''id'', JStr login_criterion)]])]),
     gs_taskOriginal = ''t'', gs_terminalOutcome = Some GoalPass,
     gs_verifier = \<lparr>vs_evidence = [''ok''], vs_nodeId = Some ''verify'', vs_reason = None,
       vs_verdict = Some VerdictPass, vs_violations = None\<rparr>,
     gs_workflowId = ''w''\<rparr>"

lemma completion_evidence_exact_witness:
  "\<not> snd (goalStateCompletionEvidence login_state)"
  using completion_evidence_exact [of login_state]
  by (simp add: login_state_def login_criterion_def expectedAcceptanceIds_def misread_def List.map_filter_def)

text \<open>
  A goal whose only acceptance criterion has an identifier with the word \<open>failed\<close> in it is not
  complete although the verifier and the criterion passed with evidence, and its evidence lines say so.
\<close>

theorem criterion_id_blocks_completion:
  "verifier_passed login_state \<and> criterion_met (acceptance_by_id login_state login_criterion) \<and>
   expectedAcceptanceIds (gs_taskContext login_state) = [login_criterion] \<and>
   goalStateCompletionEvidence login_state =
     ([''verifier '' @ quoted ''verify'' @ '' passed with evidence'',
       ''acceptance criterion '' @ quoted login_criterion @ '' passed with evidence''], False)"
  by code_simp

end
