(* ===== verification/GoalLoop.thy ===== *)
theory GoalLoop
  imports GoalEvidence
begin

text \<open>
  The bounded goal loop (\<^verbatim>\<open>src/runtime/goal-loop/goal-loop.ts\<close>) with the prompt it renders
  (\<^verbatim>\<open>continuation-prompt.ts\<close>): continue a goal until its state is terminal, the maximum number of
  continuations is reached, or a continuation made no progress. The continuation runner, the
  prompt writer and the cancellation check are the outside world \<open>'w\<close>; the runner returns whatever
  state it likes, so the loop is bounded by fuel.
\<close>

subsection \<open>The continuation prompt\<close>

definition currentScheduleNode :: "goal_state \<Rightarrow> string option \<Rightarrow> goal_node option" where
  "currentScheduleNode st requestedNodeId =
     (case Option.bind (truthy requestedNodeId) (map_of (gs_nodes st)) of
        Some node \<Rightarrow> Some node
      | None \<Rightarrow>
          let nodes = object_values (gs_nodes st) in
          (case List.find (\<lambda>node. go_status node = GoalNodeFailed) (rev nodes) of
             Some node \<Rightarrow> Some node
           | None \<Rightarrow> if nodes = [] then None else Some (last nodes)))"

definition optionalLine :: "string \<Rightarrow> string option \<Rightarrow> string" where
  "optionalLine label v = (case truthy v of None \<Rightarrow> [] | Some text \<Rightarrow> ''- '' @ label @ '': '' @ text)"

definition nonempty_lines :: "string list \<Rightarrow> string list" where
  "nonempty_lines lines = filter (\<lambda>line. line \<noteq> []) lines"

definition scheduleLines :: "goal_state \<Rightarrow> string list" where
  "scheduleLines st = nonempty_lines
     [''- workflow_id: '' @ gs_workflowId st, optionalLine ''run_id'' (gs_runId st),
      optionalLine ''schedule_id'' (Option.bind (gs_schedule st) fst),
      optionalLine ''schedule_path'' (Option.bind (gs_schedule st) snd)]"

fun status_text :: "goal_node_status \<Rightarrow> string" where
  "status_text GoalNodeFailed = ''failed''"
| "status_text GoalNodePassed = ''passed''"
| "status_text GoalNodePending = ''pending''"
| "status_text GoalNodeRunning = ''running''"

fun verdict_text :: "verdict \<Rightarrow> string" where
  "verdict_text VerdictFail = ''FAIL''"
| "verdict_text VerdictPass = ''PASS''"

definition parenthesised :: "string option \<Rightarrow> string" where
  "parenthesised v = (case truthy v of None \<Rightarrow> [] | Some text \<Rightarrow> '' ('' @ text @ '')'')"

definition nodeContextLines :: "goal_node option \<Rightarrow> string list" where
  "nodeContextLines node = (case node of None \<Rightarrow> [''- No schedule node has run yet.'']
     | Some n \<Rightarrow> nonempty_lines
         ([''- node_id: '' @ go_nodeId n, ''- status: '' @ status_text (go_status n),
           ''- attempts: '' @ show_nat (go_attempts n), optionalLine ''profile'' (go_profile n),
           optionalLine ''runner'' (go_runnerId n),
           if go_changedFiles n \<noteq> [] then ''- node_changed_files: '' @ join_with '', '' (go_changedFiles n) else []] @
          map (\<lambda>gate. ''- gate '' @ gg_gateId gate @ '': '' @ (if gg_passed gate then ''PASS'' else ''FAIL'') @
                 parenthesised (gg_reason gate)) (go_gates n)))"

definition failedGateLines :: "goal_gate list \<Rightarrow> string list" where
  "failedGateLines gates = (if gates = [] then [''- No failed gates recorded.'']
     else concat (map (\<lambda>gate. (''- '' @ gg_nodeId gate @ ''/'' @ gg_gateId gate @ '': '' @ or_else (gg_reason gate) ''failed'') #
            map (\<lambda>item. ''  evidence: '' @ item) (gg_evidence gate)) gates))"

definition verifierLines :: "goal_state \<Rightarrow> string list" where
  "verifierLines st = (let v = gs_verifier st in
     if vs_verdict v = None \<and> vs_evidence v = [] then [''- No verifier evidence recorded.'']
     else nonempty_lines ([optionalLine ''node_id'' (vs_nodeId v),
            optionalLine ''verdict'' (map_option verdict_text (vs_verdict v)), optionalLine ''reason'' (vs_reason v)] @
            map (\<lambda>item. ''- evidence: '' @ item) (vs_evidence v)))"

definition acceptanceLines :: "goal_state \<Rightarrow> string list" where
  "acceptanceLines st = (if gs_acceptance st = [] then [''- No acceptance evidence recorded.'']
     else concat (map (\<lambda>item. (''- '' @ av_id item @ '': '' @ verdict_text (av_verdict item)) #
            map (\<lambda>evidence. ''  evidence: '' @ evidence) (av_evidence item)) (gs_acceptance st)))"

definition changedFileLines :: "goal_state \<Rightarrow> string list" where
  "changedFileLines st = (if gs_changedFiles st = [] then [''- No changed files recorded.'']
     else map (\<lambda>file. ''- '' @ file) (gs_changedFiles st))"

definition priorAttemptLines :: "goal_state \<Rightarrow> string list" where
  "priorAttemptLines st = (if gs_continuationAttempts st = [] then [''- No prior continuation attempts.'']
     else map (\<lambda>attempt. ''- #'' @ show_nat (ca_attempt attempt) @ '': '' @ ca_reason attempt @
            parenthesised (ca_promptPath attempt)) (gs_continuationAttempts st))"

definition lineFor :: "string \<Rightarrow> json option \<Rightarrow> string" where
  "lineFor label v = optionalLine label (json_string v)"

fun collapse_newlines :: "nat \<Rightarrow> string \<Rightarrow> string" where
  "collapse_newlines run [] = []"
| "collapse_newlines run (c # cs) =
     (if c = CHR 0x0A then (if run < 2 then c # collapse_newlines (Suc run) cs else collapse_newlines (Suc run) cs)
      else c # collapse_newlines 0 cs)"

definition compactLines :: "string list \<Rightarrow> string" where
  "compactLines lines = js_trim (collapse_newlines 0 (join_with [CHR 0x0A] lines)) @ [CHR 0x0A]"

definition nullish_text :: "json option \<Rightarrow> string \<Rightarrow> string" where
  "nullish_text v missing = (case v of None \<Rightarrow> missing | Some j \<Rightarrow> if j = JNull then missing else json_text j)"

definition acceptanceCriteriaRefLines :: "json option \<Rightarrow> string list" where
  "acceptanceCriteriaRefLines v = (case json_array v of None \<Rightarrow> []
     | Some items \<Rightarrow> if items = [] then []
         else ''- acceptance_criteria:'' # concat (map (\<lambda>item. if \<not> isRecord item then []
                else [''  - '' @ nullish_text (json_field item ''id'') ''?'' @ '': '' @ nullish_text (json_field item ''text'') []])
                items))"

definition taskRefLines :: "json option \<Rightarrow> string list" where
  "taskRefLines context = (case context of None \<Rightarrow> [''- No task context recorded.'']
     | Some c \<Rightarrow> if \<not> isRecord c then [''- No task context recorded.'']
         else nonempty_lines ([lineFor ''id'' (json_field c ''id''), lineFor ''title'' (json_field c ''title''),
                lineFor ''description'' (json_field c ''description'')] @
                acceptanceCriteriaRefLines (json_field c ''acceptanceCriteria'')))"

definition renderContinuationPrompt ::
  "string option \<Rightarrow> string option \<Rightarrow> goal_state \<Rightarrow> string" where
  "renderContinuationPrompt currentNodeId nextRequirement st = compactLines
     ([''# Pipeline Continuation'', [], ''## Original Task'', gs_taskOriginal st, [], ''## Task Refs''] @
      taskRefLines (gs_taskContext st) @ [[], ''## Schedule''] @ scheduleLines st @
      [[], ''## Current Schedule Node Context''] @ nodeContextLines (currentScheduleNode st currentNodeId) @
      [[], ''## Failed Gates''] @ failedGateLines (filter (\<lambda>gate. \<not> gg_passed gate) (gs_gateFailures st)) @
      [[], ''## Verifier Evidence''] @ verifierLines st @ [[], ''## Acceptance Evidence''] @ acceptanceLines st @
      [[], ''## Changed Files Summary''] @ changedFileLines st @ [[], ''## Prior Attempts''] @ priorAttemptLines st @
      [[], ''## Exact Next Requirement'', or_else nextRequirement (goalStateNextRequirement st), [], ''## Discipline'',
       ''- Continue from the persisted goal state; do not restart the task.'',
       ''- Address the failed evidence directly and preserve completed work.'',
       ''- Run the real verification path needed to prove the fix.'',
       ''- Stop and report blocked if the same failure repeats without new files or evidence.''])"

subsection \<open>Results\<close>

datatype goal_terminal = LoopBlocked | LoopCancelled | MaxContinuationsReached | NoProgressDetected | LoopPassed

record goal_loop_result =
  gl_attempts :: nat
  gl_prompts :: "string list"
  gl_reason :: string
  gl_state :: goal_state
  gl_terminal :: goal_terminal

record 'w goal_loop_options =
  lo_initialState :: goal_state
  lo_maxContinuations :: int
  lo_runContinuation :: "nat \<Rightarrow> string \<Rightarrow> string option \<Rightarrow> goal_state \<Rightarrow> 'w \<Rightarrow> (string + goal_state) \<times> 'w"
  lo_shouldCancel :: "('w \<Rightarrow> bool \<times> 'w) option"
  lo_writePrompt :: "(nat \<Rightarrow> string \<Rightarrow> goal_state \<Rightarrow> 'w \<Rightarrow> (string + string) \<times> 'w) option"

text \<open>The loop ends with a result, an error of the runner or writer, a thrown schema error, or no fuel.\<close>

datatype loop_outcome = LoopResult goal_loop_result | LoopError string | LoopThrew schema_error | LoopNoFuel

definition no_progress_reason :: string where
  "no_progress_reason = ''same failure repeated without new changed files or evidence''"

definition missing_evidence_reason :: string where
  "missing_evidence_reason = ''missing deterministic verifier or acceptance evidence''"

definition plain_result :: "goal_terminal \<Rightarrow> string \<Rightarrow> goal_state \<Rightarrow> string list \<Rightarrow> goal_loop_result" where
  "plain_result terminal reason st prompts =
     \<lparr>gl_attempts = length (gs_continuationAttempts st), gl_prompts = prompts, gl_reason = reason, gl_state = st,
      gl_terminal = terminal\<rparr>"

definition blocking_result ::
  "goal_terminal \<Rightarrow> string \<Rightarrow> goal_state \<Rightarrow> string list \<Rightarrow> schema_error + goal_loop_result" where
  "blocking_result terminal reason st prompts =
     (case markGoalStateBlocked st reason of
        Inl e \<Rightarrow> Inl e
      | Inr st' \<Rightarrow> Inr ((plain_result terminal reason st prompts)\<lparr>gl_state := st'\<rparr>))"

definition maxContinuationsResult ::
  "goal_state \<Rightarrow> string list \<Rightarrow> 'w goal_loop_options \<Rightarrow> goal_loop_result option" where
  "maxContinuationsResult st prompts options =
     (if int (length (gs_continuationAttempts st)) \<ge> lo_maxContinuations options
      then Some (plain_result MaxContinuationsReached
             (''maximum continuations reached: '' @ show_int (lo_maxContinuations options)) st prompts)
      else None)"

definition noProgressResult :: "goal_state \<Rightarrow> string list \<Rightarrow> schema_error + goal_loop_result" where
  "noProgressResult st prompts = blocking_result NoProgressDetected no_progress_reason st prompts"

definition missingEvidenceResult :: "goal_state \<Rightarrow> string list \<Rightarrow> schema_error + goal_loop_result" where
  "missingEvidenceResult st prompts = blocking_result LoopBlocked missing_evidence_reason st prompts"

definition passResult :: "goal_state \<Rightarrow> string list \<Rightarrow> schema_error + goal_loop_result" where
  "passResult st prompts =
     (if \<not> snd (goalStateCompletionEvidence st) then missingEvidenceResult st prompts
      else Inr (plain_result LoopPassed ''goal passed'' st prompts))"

definition blockedResult :: "goal_state \<Rightarrow> string list \<Rightarrow> goal_loop_result" where
  "blockedResult st prompts = plain_result LoopBlocked
     (if gs_blockedReasons st = [] then ''goal blocked'' else last (gs_blockedReasons st)) st prompts"

definition goalCancelledResult :: "goal_state \<Rightarrow> string list \<Rightarrow> string \<Rightarrow> goal_loop_result" where
  "goalCancelledResult st prompts reason = plain_result LoopCancelled reason st prompts"

definition cancellationTerminalResult ::
  "goal_state \<Rightarrow> string list \<Rightarrow> ('w \<Rightarrow> bool \<times> 'w) option \<Rightarrow> 'w \<Rightarrow> goal_loop_result option \<times> 'w" where
  "cancellationTerminalResult st prompts shouldCancel w =
     (case shouldCancel of
        None \<Rightarrow> (None, w)
      | Some f \<Rightarrow> (case f w of (cancel, w') \<Rightarrow>
          ((if cancel then Some (goalCancelledResult st prompts ''goal loop cancelled'') else None), w')))"

definition outcomeTerminalResult ::
  "goal_state \<Rightarrow> string list \<Rightarrow> schema_error + goal_loop_result option" where
  "outcomeTerminalResult st prompts =
     (case or_else (gs_terminalOutcome st) GoalFail of
        GoalBlocked \<Rightarrow> Inr (Some (blockedResult st prompts))
      | GoalCancelled \<Rightarrow> Inr (Some (goalCancelledResult st prompts ''goal cancelled''))
      | GoalPass \<Rightarrow> (case passResult st prompts of Inl e \<Rightarrow> Inl e | Inr r \<Rightarrow> Inr (Some r))
      | GoalFail \<Rightarrow> Inr None)"

definition goalTerminalResult ::
  "goal_state \<Rightarrow> string list \<Rightarrow> ('w \<Rightarrow> bool \<times> 'w) option \<Rightarrow> 'w \<Rightarrow>
   (schema_error + goal_loop_result option) \<times> 'w" where
  "goalTerminalResult st prompts shouldCancel w =
     (case cancellationTerminalResult st prompts shouldCancel w of
        (Some cancelled, w') \<Rightarrow> (Inr (Some cancelled), w')
      | (None, w') \<Rightarrow> (outcomeTerminalResult st prompts, w'))"

subsection \<open>One continuation\<close>

definition latestGateReason :: "goal_gate option \<Rightarrow> string option" where
  "latestGateReason latestGate =
     map_option (\<lambda>gate. or_else (gg_reason gate) (''failed gate '' @ gg_gateId gate)) latestGate"

definition verifierReason :: "goal_state \<Rightarrow> string option" where
  "verifierReason st =
     (if vs_verdict (gs_verifier st) \<noteq> Some VerdictFail then None
      else Some (or_else (vs_reason (gs_verifier st)) ''verifier requested remediation''))"

definition continuationReason :: "goal_state \<Rightarrow> string" where
  "continuationReason st =
     (case latestGateReason (if gs_gateFailures st = [] then None else Some (last (gs_gateFailures st))) of
        Some reason \<Rightarrow> reason
      | None \<Rightarrow> (case verifierReason st of Some reason \<Rightarrow> reason | None \<Rightarrow> ''goal incomplete''))"

definition stateWithContinuationAttempt :: "goal_state \<Rightarrow> string option \<Rightarrow> schema_error + goal_state" where
  "stateWithContinuationAttempt st promptPath =
     recordGoalStateContinuationAttempt st (truthy promptPath) (continuationReason st)
       (truthy (vs_nodeId (gs_verifier st)))"

definition renderGoalContinuationPrompt :: "goal_state \<Rightarrow> string" where
  "renderGoalContinuationPrompt st = renderContinuationPrompt None (Some (goalStateNextRequirement st)) st"

datatype continuation = Continued goal_state | ContinuationError string | ContinuationThrew schema_error

definition runGoalContinuation ::
  "'w goal_loop_options \<Rightarrow> goal_state \<Rightarrow> 'w \<Rightarrow> continuation \<times> 'w" where
  "runGoalContinuation options st w =
     (let attempt = length (gs_continuationAttempts st) + 1; prompt = renderGoalContinuationPrompt st in
      case (case lo_writePrompt options of
              None \<Rightarrow> (Inr None, w)
            | Some writer \<Rightarrow> (case writer attempt prompt st w of
                (Inl e, w') \<Rightarrow> (Inl e, w') | (Inr path, w') \<Rightarrow> (Inr (Some path), w'))) of
        (Inl e, w') \<Rightarrow> (ContinuationError e, w')
      | (Inr promptPath, w') \<Rightarrow>
          (case stateWithContinuationAttempt st promptPath of
             Inl e \<Rightarrow> (ContinuationThrew e, w')
           | Inr st' \<Rightarrow> (case lo_runContinuation options attempt prompt (truthy promptPath) st' w' of
               (Inl e, w'') \<Rightarrow> (ContinuationError e, w'')
             | (Inr st'', w'') \<Rightarrow> (Continued st'', w''))))"

subsection \<open>Progress\<close>

record progress_signature =
  ps_changedFiles :: string
  ps_evidence :: string
  ps_failure :: string

definition progressSignature :: "goal_state \<Rightarrow> progress_signature" where
  "progressSignature st =
     \<lparr>ps_changedFiles = join_with [CHR 0x00] (gs_changedFiles st),
      ps_evidence = join_with [CHR 0x00] (concat (map gg_evidence (gs_gateFailures st)) @
        vs_evidence (gs_verifier st) @
        concat (map av_evidence (filter (\<lambda>item. av_verdict item = VerdictFail) (gs_acceptance st)))),
      ps_failure = goalStateFailureSignature st\<rparr>"

definition isNoProgress :: "progress_signature \<Rightarrow> progress_signature \<Rightarrow> bool" where
  "isNoProgress before after \<longleftrightarrow> ps_failure before \<noteq> [] \<and> ps_failure before = ps_failure after \<and>
     ps_changedFiles before = ps_changedFiles after \<and> ps_evidence before = ps_evidence after"

definition postContinuationResult ::
  "goal_state \<Rightarrow> progress_signature \<Rightarrow> string list \<Rightarrow> ('w \<Rightarrow> bool \<times> 'w) option \<Rightarrow> 'w \<Rightarrow>
   (schema_error + goal_loop_result option) \<times> 'w" where
  "postContinuationResult nextState beforeProgress prompts shouldCancel w =
     (case goalTerminalResult nextState prompts shouldCancel w of
        (Inl e, w') \<Rightarrow> (Inl e, w')
      | (Inr (Some terminal), w') \<Rightarrow> (Inr (Some terminal), w')
      | (Inr None, w') \<Rightarrow>
          if isNoProgress beforeProgress (progressSignature nextState)
          then (case noProgressResult nextState prompts of Inl e \<Rightarrow> (Inl e, w') | Inr r \<Rightarrow> (Inr (Some r), w'))
          else (Inr None, w'))"

subsection \<open>The loop\<close>

primrec continueGoalLoop ::
  "nat \<Rightarrow> 'w goal_loop_options \<Rightarrow> goal_state \<Rightarrow> string list \<Rightarrow> 'w \<Rightarrow> loop_outcome \<times> 'w" where
  "continueGoalLoop 0 options st prompts w = (LoopNoFuel, w)"
| "continueGoalLoop (Suc fuel) options st prompts w =
     (case goalTerminalResult st prompts (lo_shouldCancel options) w of
        (Inl e, w1) \<Rightarrow> (LoopThrew e, w1)
      | (Inr (Some terminal), w1) \<Rightarrow> (LoopResult terminal, w1)
      | (Inr None, w1) \<Rightarrow>
          (case maxContinuationsResult st prompts options of
             Some r \<Rightarrow> (LoopResult r, w1)
           | None \<Rightarrow>
               (case runGoalContinuation options st w1 of
                  (ContinuationError e, w2) \<Rightarrow> (LoopError e, w2)
                | (ContinuationThrew e, w2) \<Rightarrow> (LoopThrew e, w2)
                | (Continued nextState, w2) \<Rightarrow>
                    (let prompts' = prompts @ [renderGoalContinuationPrompt st] in
                     case postContinuationResult nextState (progressSignature st) prompts' (lo_shouldCancel options) w2 of
                       (Inl e, w3) \<Rightarrow> (LoopThrew e, w3)
                     | (Inr (Some r), w3) \<Rightarrow> (LoopResult r, w3)
                     | (Inr None, w3) \<Rightarrow> continueGoalLoop fuel options nextState prompts' w3))))"

definition assertValidMaxContinuations :: "'w goal_loop_options \<Rightarrow> bool" where
  "assertValidMaxContinuations options \<longleftrightarrow> 0 \<le> lo_maxContinuations options"

definition runBoundedGoalLoop :: "nat \<Rightarrow> 'w goal_loop_options \<Rightarrow> 'w \<Rightarrow> loop_outcome \<times> 'w" where
  "runBoundedGoalLoop fuel options w =
     (if \<not> assertValidMaxContinuations options
      then (LoopError ''maxContinuations must be a non-negative integer'', w)
      else continueGoalLoop fuel options (lo_initialState options) [] w)"

subsection \<open>What a loop returns\<close>

lemma plain_result_simps [simp]:
  "gl_attempts (plain_result t reason st prompts) = length (gs_continuationAttempts st)"
  "gl_state (plain_result t reason st prompts) = st" "gl_terminal (plain_result t reason st prompts) = t"
  "gl_prompts (plain_result t reason st prompts) = prompts"
  by (simp_all add: plain_result_def)

text \<open>The verdict a result carries and the state it is given with.\<close>

definition result_ok :: "int \<Rightarrow> goal_loop_result \<Rightarrow> bool" where
  "result_ok maxContinuations r \<longleftrightarrow> (case gl_terminal r of
     LoopPassed \<Rightarrow> gs_terminalOutcome (gl_state r) = Some GoalPass \<and> snd (goalStateCompletionEvidence (gl_state r))
   | LoopBlocked \<Rightarrow> gs_terminalOutcome (gl_state r) = Some GoalBlocked
   | NoProgressDetected \<Rightarrow> gs_terminalOutcome (gl_state r) = Some GoalBlocked
   | MaxContinuationsReached \<Rightarrow> maxContinuations \<le> int (gl_attempts r)
   | LoopCancelled \<Rightarrow> True) \<and> gl_attempts r = length (gs_continuationAttempts (gl_state r))"

lemma blocking_result_ok:
  "blocking_result terminal reason st prompts = Inr r \<Longrightarrow> terminal = LoopBlocked \<or> terminal = NoProgressDetected \<Longrightarrow>
   result_ok m r"
  by (auto simp: blocking_result_def markGoalStateBlocked_def parseGoalState_def result_ok_def
      split: sum.splits if_splits)

lemma goalTerminalResult_ok:
  assumes "goalTerminalResult st prompts shouldCancel w = (Inr (Some r), w')"
  shows "result_ok m r"
proof (cases "cancellationTerminalResult st prompts shouldCancel w")
  case (Pair c w1)
  show ?thesis
  proof (cases c)
    case (Some cancelled)
    then show ?thesis
      using assms Pair by (auto simp: goalTerminalResult_def cancellationTerminalResult_def goalCancelledResult_def
          result_ok_def split: option.splits prod.splits if_splits)
  next
    case None
    then have "outcomeTerminalResult st prompts = Inr (Some r)" using assms Pair by (simp add: goalTerminalResult_def)
    moreover have "missingEvidenceResult st prompts = Inr r \<Longrightarrow> result_ok m r"
      unfolding missingEvidenceResult_def by (erule blocking_result_ok) simp
    ultimately show ?thesis
      by (cases "gs_terminalOutcome st")
         (auto simp: outcomeTerminalResult_def blockedResult_def goalCancelledResult_def passResult_def result_ok_def
           split: goal_outcome.splits sum.splits if_splits)
  qed
qed

lemma postContinuationResult_ok:
  assumes "postContinuationResult st before prompts shouldCancel w = (Inr (Some r), w')"
  shows "result_ok m r"
proof (cases "goalTerminalResult st prompts shouldCancel w")
  case (Pair t w1)
  show ?thesis
  proof (cases t)
    case (Inr r')
    show ?thesis
    proof (cases r')
      case (Some r'')
      then show ?thesis
        using assms Pair Inr goalTerminalResult_ok by (auto simp: postContinuationResult_def)
    next
      case None
      then have "noProgressResult st prompts = Inr r"
        using assms Pair Inr by (auto simp: postContinuationResult_def split: if_splits sum.splits)
      then show ?thesis unfolding noProgressResult_def by (rule blocking_result_ok) simp
    qed
  qed (use assms Pair in \<open>simp add: postContinuationResult_def\<close>)
qed

text \<open>One round either ends the loop or continues with the runner's state.\<close>

lemma round_cases:
  obtains (ends) out w' where "continueGoalLoop (Suc fuel) options st prompts w = (out, w')" "out \<noteq> LoopNoFuel"
      "\<And>r. out = LoopResult r \<Longrightarrow> result_ok (lo_maxContinuations options) r"
  | (again) nextState w1 w2 w3 where "continueGoalLoop (Suc fuel) options st prompts w =
        continueGoalLoop fuel options nextState (prompts @ [renderGoalContinuationPrompt st]) w3"
      "runGoalContinuation options st w1 = (Continued nextState, w2)"
      "int (length (gs_continuationAttempts st)) < lo_maxContinuations options"
proof (cases "goalTerminalResult st prompts (lo_shouldCancel options) w")
  case (Pair t w1)
  show thesis
  proof (cases t)
    case (Inl e)
    show thesis by (rule ends [of "LoopThrew e" w1]) (simp_all add: Pair Inl)
  next
    case t: (Inr terminal)
    show thesis
    proof (cases terminal)
      case (Some r)
      show thesis
        by (rule ends [of "LoopResult r" w1]) (use Pair t Some goalTerminalResult_ok in auto)
    next
      case None
      note start = Pair t None
      show thesis
      proof (cases "maxContinuationsResult st prompts options")
        case (Some r)
        have "result_ok (lo_maxContinuations options) r"
          using Some by (auto simp: maxContinuationsResult_def result_ok_def split: if_splits)
        then show thesis by (intro ends [of "LoopResult r" w1]) (simp_all add: start Some)
      next
        case below: None
        obtain c w2 where cont: "runGoalContinuation options st w1 = (c, w2)"
          by (cases "runGoalContinuation options st w1")
        show thesis
        proof (cases c)
          case (Continued nextState)
          let ?prompts = "prompts @ [renderGoalContinuationPrompt st]"
          obtain p w3 where post: "postContinuationResult nextState (progressSignature st) ?prompts
              (lo_shouldCancel options) w2 = (p, w3)"
            by (cases "postContinuationResult nextState (progressSignature st) ?prompts (lo_shouldCancel options) w2")
          show thesis
          proof (cases p)
            case (Inl e)
            show thesis by (rule ends [of "LoopThrew e" w3]) (simp_all add: start below cont Continued post Inl Let_def)
          next
            case (Inr r)
            show thesis
            proof (cases r)
              case None
              show thesis
                by (rule again [of nextState w3 w1 w2])
                   (use below in \<open>simp_all add: start below cont Continued post Inr None Let_def
                     maxContinuationsResult_def split: if_splits\<close>)
            next
              case (Some result)
              have "result_ok (lo_maxContinuations options) result"
                by (rule postContinuationResult_ok) (use post Inr Some in simp)
              then show thesis
                by (intro ends [of "LoopResult result" w3])
                   (simp_all add: start below cont Continued post Inr Some Let_def)
            qed
          qed
        next
          case (ContinuationError e)
          show thesis by (rule ends [of "LoopError e" w2]) (simp_all add: start below cont ContinuationError)
        next
          case (ContinuationThrew e)
          show thesis by (rule ends [of "LoopThrew e" w2]) (simp_all add: start below cont ContinuationThrew)
        qed
      qed
    qed
  qed
qed

declare continueGoalLoop.simps(2) [simp del]

text \<open>A runner that keeps the attempts it is given.\<close>

definition keeps_attempts :: "'w goal_loop_options \<Rightarrow> bool" where
  "keeps_attempts options \<longleftrightarrow> (\<forall>attempt prompt path st w st' w'.
     lo_runContinuation options attempt prompt path st w = (Inr st', w') \<longrightarrow>
     length (gs_continuationAttempts st) \<le> length (gs_continuationAttempts st'))"

lemma runGoalContinuation_counts:
  assumes "keeps_attempts options" "runGoalContinuation options st w = (Continued st', w')"
  shows "length (gs_continuationAttempts st) < length (gs_continuationAttempts st')"
proof -
  obtain path st1 attempt prompt w1 where step: "stateWithContinuationAttempt st path = Inr st1"
    "lo_runContinuation options attempt prompt (truthy path) st1 w1 = (Inr st', w')"
    using assms(2) by (auto simp: runGoalContinuation_def Let_def split: option.splits prod.splits sum.splits)
  have "length (gs_continuationAttempts st1) = Suc (length (gs_continuationAttempts st))"
    using step(1) by (auto simp: stateWithContinuationAttempt_def recordGoalStateContinuationAttempt_def
        parseGoalState_def split: if_splits)
  then show ?thesis using step(2) assms(1) unfolding keeps_attempts_def by (metis Suc_le_eq)
qed

lemma continueGoalLoop_returns:
  assumes "keeps_attempts options"
    and "nat (lo_maxContinuations options) - length (gs_continuationAttempts st) < fuel"
  shows "fst (continueGoalLoop fuel options st prompts w) \<noteq> LoopNoFuel"
  using assms(2)
proof (induction fuel arbitrary: st prompts w)
  case (Suc fuel)
  show ?case
  proof (cases rule: round_cases [of fuel options st prompts w])
    case (again nextState w1 w2 w3)
    have "nat (lo_maxContinuations options) - length (gs_continuationAttempts nextState) < fuel"
      using runGoalContinuation_counts [OF assms(1) again(2)] again(3) Suc.prems by linarith
    from Suc.IH [OF this] show ?thesis by (simp add: again(1))
  qed simp
qed simp

lemma continueGoalLoop_result:
  "continueGoalLoop fuel options st prompts w = (LoopResult r, w') \<Longrightarrow> result_ok (lo_maxContinuations options) r"
proof (induction fuel arbitrary: st prompts w)
  case (Suc fuel)
  show ?case
    by (cases rule: round_cases [of fuel options st prompts w]) (use Suc in auto)
qed simp

text \<open>
  C14: With a runner that keeps the recorded attempts, the loop returns after no more rounds than
  continuations are left, one more to notice the end; it needs no other promise of the runner,
  which may fail or return any state.
\<close>

theorem goal_loop_terminates:
  assumes "keeps_attempts options"
    and "nat (lo_maxContinuations options) - length (gs_continuationAttempts (lo_initialState options)) < fuel"
  shows "fst (runBoundedGoalLoop fuel options w) \<noteq> LoopNoFuel"
  using continueGoalLoop_returns [OF assms] by (simp add: runBoundedGoalLoop_def)

text \<open>
  A goal loop reports a pass only for a state whose workflow finished with PASS and whose
  completion evidence passes; a blocked or no-progress result carries a state marked as blocked,
  and the maximum is only reported when that many attempts are recorded.
\<close>

theorem goal_loop_verdicts:
  assumes "runBoundedGoalLoop fuel options w = (LoopResult r, w')"
  shows "(gl_terminal r = LoopPassed \<longrightarrow> gs_terminalOutcome (gl_state r) = Some GoalPass \<and>
        snd (goalStateCompletionEvidence (gl_state r)))
    \<and> (gl_terminal r \<in> {LoopBlocked, NoProgressDetected} \<longrightarrow> gs_terminalOutcome (gl_state r) = Some GoalBlocked)
    \<and> (gl_terminal r = MaxContinuationsReached \<longrightarrow> lo_maxContinuations options \<le> int (gl_attempts r))
    \<and> gl_attempts r = length (gs_continuationAttempts (gl_state r)) \<and> 0 \<le> lo_maxContinuations options"
proof -
  have run: "0 \<le> lo_maxContinuations options"
    "continueGoalLoop fuel options (lo_initialState options) [] w = (LoopResult r, w')"
    using assms by (auto simp: runBoundedGoalLoop_def assertValidMaxContinuations_def split: if_splits)
  then show ?thesis
    using continueGoalLoop_result [OF run(2)] by (auto simp: result_ok_def split: goal_terminal.splits)
qed

definition sample_goal :: goal_state where
  "sample_goal = \<lparr>gs_acceptance = [], gs_blockedReasons = [], gs_changedFiles = [], gs_continuationAttempts = [],
     gs_gateFailures = [], gs_nodes = [], gs_runId = None, gs_schedule = None, gs_taskContext = None,
     gs_taskOriginal = ''t'', gs_terminalOutcome = Some GoalPass,
     gs_verifier = \<lparr>vs_evidence = [''ok''], vs_nodeId = Some ''verify'', vs_reason = None,
       vs_verdict = Some VerdictPass, vs_violations = None\<rparr>,
     gs_workflowId = ''w''\<rparr>"

definition sample_loop :: "unit goal_loop_options" where
  "sample_loop = \<lparr>lo_initialState = sample_goal, lo_maxContinuations = 1,
     lo_runContinuation = (\<lambda>attempt prompt path st. Pair (Inr (st\<lparr>gs_terminalOutcome := Some GoalPass\<rparr>))),
     lo_shouldCancel = None, lo_writePrompt = None\<rparr>"

lemma goal_loop_terminates_witness: "fst (runBoundedGoalLoop 2 sample_loop ()) \<noteq> LoopNoFuel"
  by (rule goal_loop_terminates) (auto simp: keeps_attempts_def sample_loop_def sample_goal_def)

lemma sample_loop_passes:
  "case runBoundedGoalLoop 2 sample_loop () of (LoopResult r, w) \<Rightarrow> gl_terminal r = LoopPassed | _ \<Rightarrow> False"
  by code_simp

lemma goal_loop_verdicts_witness:
  "\<exists>r w. runBoundedGoalLoop 2 sample_loop () = (LoopResult r, w) \<and> gl_terminal r = LoopPassed \<and>
     snd (goalStateCompletionEvidence (gl_state r))"
proof -
  obtain out w where run: "runBoundedGoalLoop 2 sample_loop () = (out, w)"
    by (cases "runBoundedGoalLoop 2 sample_loop ()")
  then obtain r where r: "out = LoopResult r" "gl_terminal r = LoopPassed"
    using sample_loop_passes by (cases out) auto
  then show ?thesis using goal_loop_verdicts [of 2 sample_loop "()" r w] run by auto
qed

end
