(* ===== verification/WorkflowRun.thy ===== *)
theory WorkflowRun
  imports Remediation SchedulerRuns JsData
begin

text \<open>
  A whole run: the lifecycle with its hooks (\<^verbatim>\<open>src/runtime/workflow-lifecycle.ts\<close>), its result
  (\<^verbatim>\<open>runtime-results.ts\<close>), the input the local scheduler builds from a plan (\<^verbatim>\<open>local-scheduler.ts\<close>),
  the decision whether a run goes on after a failed node and the execution of one scheduled task
  (\<^verbatim>\<open>workflow-execution.ts\<close>). The trace of a lifecycle lists what it called, in order.
\<close>

subsection \<open>Results\<close>

record pipeline_result =
  pr_failureDetails :: "runtime_failure list"
  pr_nodes :: "node_result list"
  pr_nodeStates :: "(string \<times> node_execution_state) list"
  pr_outcome :: run_outcome

definition workflowRuntimeFailure :: runtime_failure where
  "workflowRuntimeFailure = \<lparr>rf_evidence = [''workflow failed without a specific failure''], rf_gate = ''workflow'',
     rf_nodeId = None, rf_reason = ''workflow failed''\<rparr>"

definition passedRuntimeResult :: "'o node_store \<Rightarrow> node_result list \<Rightarrow> pipeline_result" where
  "passedRuntimeResult store nodes = \<lparr>pr_failureDetails = [], pr_nodes = nodes,
     pr_nodeStates = st_nodeStates store, pr_outcome = PASS\<rparr>"

definition failedRuntimeResult :: "'o node_store \<Rightarrow> node_result list \<Rightarrow> runtime_failure \<Rightarrow> pipeline_result" where
  "failedRuntimeResult store nodes failure = \<lparr>pr_failureDetails = [failure], pr_nodes = nodes,
     pr_nodeStates = st_nodeStates store, pr_outcome = FAIL\<rparr>"

definition cancelledRuntimeResult :: "'o node_store \<Rightarrow> node_result list \<Rightarrow> pipeline_result" where
  "cancelledRuntimeResult store nodes = \<lparr>pr_failureDetails = [cancelledFailure], pr_nodes = nodes,
     pr_nodeStates = st_nodeStates store, pr_outcome = CANCELLED\<rparr>"

definition workflowRuntimeResult ::
  "'o node_store \<Rightarrow> run_outcome \<Rightarrow> node_result list \<Rightarrow> runtime_failure option \<Rightarrow> pipeline_result" where
  "workflowRuntimeResult store outcome nodes failure =
     (if outcome = CANCELLED then cancelledRuntimeResult store nodes
      else if outcome = FAIL then failedRuntimeResult store nodes (or_else failure workflowRuntimeFailure)
      else passedRuntimeResult store nodes)"

subsection \<open>The lifecycle\<close>

datatype workflow_hook = WorkflowComplete | WorkflowFailureHook | WorkflowStartHook | WorkflowSuccess

datatype lifecycle_status = RunCancelled | RunFailed | RunPassed

record 'r lifecycle_result =
  lr_failure :: "runtime_failure option"
  lr_result :: 'r
  lr_status :: lifecycle_status
  lr_successHookFailure :: "runtime_failure option"

text \<open>
  The input of a lifecycle; \<open>li_message\<close> is the message of an error that the effect library wraps
  around a rejected promise.
\<close>

record ('w, 'r) lifecycle_input =
  li_buildResult :: "run_outcome \<Rightarrow> node_result list \<Rightarrow> runtime_failure option \<Rightarrow> 'r"
  li_emitPlanned :: "'w \<Rightarrow> (js_error + unit) \<times> 'w"
  li_emitStarted :: "'w \<Rightarrow> (js_error + unit) \<times> 'w"
  li_execute :: "'w \<Rightarrow> (js_error + run_result) \<times> 'w"
  li_isCancelled :: "('w \<Rightarrow> bool \<times> 'w) option"
  li_message :: "js_error \<Rightarrow> string"
  li_runHook :: "workflow_hook \<Rightarrow> runtime_failure option \<Rightarrow> 'w \<Rightarrow> (js_error + runtime_failure option) \<times> 'w"

datatype lifecycle_call = PlannedEmitted | StartedEmitted | HookCalled workflow_hook "runtime_failure option" | Executed

record 'w lifecycle_state =
  lc_world :: 'w
  lc_trace :: "lifecycle_call list"

definition traced :: "lifecycle_call \<Rightarrow> ('w \<Rightarrow> 'x \<times> 'w) \<Rightarrow> 'w lifecycle_state \<Rightarrow> 'x \<times> 'w lifecycle_state" where
  "traced call f s = (case f (lc_world s) of (x, w) \<Rightarrow> (x, \<lparr>lc_world = w, lc_trace = lc_trace s @ [call]\<rparr>))"

definition runHookEffect ::
  "('w, 'r) lifecycle_input \<Rightarrow> workflow_hook \<Rightarrow> runtime_failure option \<Rightarrow> 'w lifecycle_state \<Rightarrow>
   (js_error + runtime_failure option) \<times> 'w lifecycle_state" where
  "runHookEffect input event failure = traced (HookCalled event failure) (li_runHook input event failure)"

definition workflowLifecycleStatus :: "run_outcome \<Rightarrow> lifecycle_status" where
  "workflowLifecycleStatus outcome =
     (if outcome = CANCELLED then RunCancelled else if outcome = FAIL then RunFailed else RunPassed)"

definition finalize_run ::
  "('w, 'r) lifecycle_input \<Rightarrow> run_outcome \<Rightarrow> node_result list \<Rightarrow> runtime_failure option \<Rightarrow> 'r lifecycle_result" where
  "finalize_run input outcome nodes failure =
     \<lparr>lr_failure = failure, lr_result = li_buildResult input outcome nodes failure,
      lr_status = workflowLifecycleStatus outcome, lr_successHookFailure = None\<rparr>"

definition hookFailureResult ::
  "('w, 'r) lifecycle_input \<Rightarrow> node_result list \<Rightarrow> runtime_failure \<Rightarrow> runtime_failure option \<Rightarrow> 'r lifecycle_result" where
  "hookFailureResult input nodes hookFailure successHookFailure =
     \<lparr>lr_failure = Some hookFailure, lr_result = li_buildResult input FAIL nodes (Some hookFailure),
      lr_status = RunFailed, lr_successHookFailure = successHookFailure\<rparr>"

definition isWorkflowCancelled ::
  "('w, 'r) lifecycle_input \<Rightarrow> 'w lifecycle_state \<Rightarrow> bool \<times> 'w lifecycle_state" where
  "isWorkflowCancelled input s = (case li_isCancelled input of None \<Rightarrow> (False, s)
     | Some f \<Rightarrow> (case f (lc_world s) of (c, w) \<Rightarrow> (c, s\<lparr>lc_world := w\<rparr>)))"

fun error_reason :: "(js_error \<Rightarrow> string) \<Rightarrow> js_error \<Rightarrow> string" where
  "error_reason message (JsError m) = m"
| "error_reason message (JsOther text) = text"
| "error_reason message (WrappedError e) = message (WrappedError e)"

definition hookRuntimeFailure :: "('w, 'r) lifecycle_input \<Rightarrow> js_error \<Rightarrow> runtime_failure" where
  "hookRuntimeFailure input err = (let reason = error_reason (li_message input) err in
     \<lparr>rf_evidence = [reason], rf_gate = ''workflow.hook'', rf_nodeId = None, rf_reason = reason\<rparr>)"

definition runHook ::
  "('w, 'r) lifecycle_input \<Rightarrow> workflow_hook \<Rightarrow> runtime_failure option \<Rightarrow> 'w lifecycle_state \<Rightarrow>
   runtime_failure option \<times> 'w lifecycle_state" where
  "runHook input event failure s = (case runHookEffect input event failure s of
     (Inl err, s') \<Rightarrow> (Some (hookRuntimeFailure input err), s')
   | (Inr result, s') \<Rightarrow> (result, s'))"

text \<open>A hook whose answer is ignored: only an error of it counts.\<close>

definition runHookError ::
  "('w, 'r) lifecycle_input \<Rightarrow> workflow_hook \<Rightarrow> runtime_failure option \<Rightarrow> 'w lifecycle_state \<Rightarrow>
   runtime_failure option \<times> 'w lifecycle_state" where
  "runHookError input event failure s = (case runHookEffect input event failure s of
     (Inl err, s') \<Rightarrow> (Some (hookRuntimeFailure input err), s')
   | (Inr result, s') \<Rightarrow> (None, s'))"

definition runWorkflowStartLifecycle ::
  "('w, 'r) lifecycle_input \<Rightarrow> 'w lifecycle_state \<Rightarrow> (js_error + runtime_failure option) \<times> 'w lifecycle_state" where
  "runWorkflowStartLifecycle input s =
     (case traced PlannedEmitted (li_emitPlanned input) s of
        (Inl e, s1) \<Rightarrow> (Inl e, s1)
      | (Inr _, s1) \<Rightarrow>
          (case traced StartedEmitted (li_emitStarted input) s1 of
             (Inl e, s2) \<Rightarrow> (Inl e, s2)
           | (Inr _, s2) \<Rightarrow> (case runHook input WorkflowStartHook None s2 of (r, s3) \<Rightarrow> (Inr r, s3))))"

definition finalizePassedWorkflow ::
  "('w, 'r) lifecycle_input \<Rightarrow> run_result \<Rightarrow> 'w lifecycle_state \<Rightarrow> 'r lifecycle_result \<times> 'w lifecycle_state" where
  "finalizePassedWorkflow input execution s =
     (case runHook input WorkflowSuccess None s of
        (successHookFailure, s1) \<Rightarrow>
          (case runHook input WorkflowComplete successHookFailure s1 of
             (completeFailure, s2) \<Rightarrow>
               (case (if completeFailure \<noteq> None then completeFailure else successHookFailure) of
                  Some hookFailure \<Rightarrow>
                    (hookFailureResult input (rr_completed execution) hookFailure successHookFailure, s2)
                | None \<Rightarrow>
                    (case isWorkflowCancelled input s2 of
                       (cancelled, s3) \<Rightarrow>
                         (finalize_run input (if cancelled then CANCELLED else PASS) (rr_completed execution) None, s3)))))"

definition finalizeFailedWorkflow ::
  "('w, 'r) lifecycle_input \<Rightarrow> run_result \<Rightarrow> 'w lifecycle_state \<Rightarrow> 'r lifecycle_result \<times> 'w lifecycle_state" where
  "finalizeFailedWorkflow input execution s =
     (let failure = or_else (rr_failure execution) workflowRuntimeFailure in
      case runHookError input WorkflowFailureHook (Some failure) s of
        (Some failureHookError, s1) \<Rightarrow> (finalize_run input FAIL (rr_completed execution) (Some failureHookError), s1)
      | (None, s1) \<Rightarrow>
          (case runHookError input WorkflowComplete (Some failure) s1 of
             (completeHookError, s2) \<Rightarrow>
               (finalize_run input FAIL (rr_completed execution) (Some (or_else completeHookError failure)), s2)))"

definition finalizeWorkflowLifecycle ::
  "('w, 'r) lifecycle_input \<Rightarrow> run_result \<Rightarrow> 'w lifecycle_state \<Rightarrow> 'r lifecycle_result \<times> 'w lifecycle_state" where
  "finalizeWorkflowLifecycle input execution s =
     (if rr_outcome execution = CANCELLED
      then (finalize_run input CANCELLED (rr_completed execution) (rr_failure execution), s)
      else if rr_outcome execution = FAIL then finalizeFailedWorkflow input execution s
      else finalizePassedWorkflow input execution s)"

definition runWorkflowLifecycle ::
  "('w, 'r) lifecycle_input \<Rightarrow> 'w lifecycle_state \<Rightarrow> (js_error + 'r lifecycle_result) \<times> 'w lifecycle_state" where
  "runWorkflowLifecycle input s =
     (case runWorkflowStartLifecycle input s of
        (Inl e, s1) \<Rightarrow> (Inl e, s1)
      | (Inr (Some failure), s1) \<Rightarrow> (Inr (finalize_run input FAIL [] (Some failure)), s1)
      | (Inr None, s1) \<Rightarrow>
          (case isWorkflowCancelled input s1 of
             (True, s2) \<Rightarrow> (Inr (finalize_run input CANCELLED [] None), s2)
           | (False, s2) \<Rightarrow>
               (case traced Executed (li_execute input) s2 of
                  (Inl e, s3) \<Rightarrow> (Inl e, s3)
                | (Inr execution, s3) \<Rightarrow>
                    (case finalizeWorkflowLifecycle input execution s3 of (r, s4) \<Rightarrow> (Inr r, s4)))))"

subsection \<open>Going on after a failed node\<close>








subsection \<open>The scheduler's input\<close>

definition scheduleNode :: "('a, 'g) planned_node \<Rightarrow> schedule_node" where
  "scheduleNode node = \<lparr>wsn_category = pn_category node, wsn_dependents = pn_dependents node, wsn_id = pn_id node,
     wsn_index = pn_index node, wsn_needs = pn_needs node\<rparr>"


subsection \<open>One scheduled task\<close>



subsection \<open>How a run ends\<close>

fun outcome_of_status :: "lifecycle_status \<Rightarrow> run_outcome" where
  "outcome_of_status RunCancelled = CANCELLED"
| "outcome_of_status RunFailed = FAIL"
| "outcome_of_status RunPassed = PASS"

definition start_calls :: "lifecycle_call list" where
  "start_calls = [PlannedEmitted, StartedEmitted, HookCalled WorkflowStartHook None]"

lemma outcome_of_workflowLifecycleStatus [simp]: "outcome_of_status (workflowLifecycleStatus outcome) = outcome"
  by (cases outcome) (simp_all add: workflowLifecycleStatus_def)

lemma lifecycle_traced:
  "lc_trace (snd (traced call f s)) = lc_trace s @ [call]"
  "lc_trace (snd (runHook input event failure s)) = lc_trace s @ [HookCalled event failure]"
  "lc_trace (snd (runHookError input event failure s)) = lc_trace s @ [HookCalled event failure]"
  "lc_trace (snd (isWorkflowCancelled input s)) = lc_trace s"
  by (auto simp: traced_def runHook_def runHookError_def runHookEffect_def isWorkflowCancelled_def
      split: prod.splits sum.splits option.splits)

text \<open>How a lifecycle ends once the plan has been executed.\<close>

definition finished_after ::
  "('w, 'r) lifecycle_input \<Rightarrow> run_result \<Rightarrow> lifecycle_call list \<Rightarrow> 'r lifecycle_result \<Rightarrow> lifecycle_call list \<Rightarrow> bool" where
  "finished_after input execution before r after \<longleftrightarrow>
     lr_result r = li_buildResult input (outcome_of_status (lr_status r)) (rr_completed execution) (lr_failure r) \<and>
     (case rr_outcome execution of
        CANCELLED \<Rightarrow> lr_status r = RunCancelled \<and> after = before
      | FAIL \<Rightarrow> lr_status r = RunFailed \<and> lr_failure r \<noteq> None \<and>
          (let failure = or_else (rr_failure execution) workflowRuntimeFailure in
           after = before @ [HookCalled WorkflowFailureHook (Some failure)] \<or>
           after = before @ [HookCalled WorkflowFailureHook (Some failure), HookCalled WorkflowComplete (Some failure)])
      | PASS \<Rightarrow> after = before @ [HookCalled WorkflowSuccess None, HookCalled WorkflowComplete (lr_successHookFailure r)] \<and>
          (lr_failure r = None \<longleftrightarrow> lr_status r \<noteq> RunFailed) \<and> (lr_successHookFailure r \<noteq> None \<longrightarrow> lr_status r = RunFailed))"

lemma finalizeWorkflowLifecycle_finishes:
  assumes "finalizeWorkflowLifecycle input execution s = (r, s')"
  shows "finished_after input execution (lc_trace s) r (lc_trace s')"
proof (cases "rr_outcome execution")
  case PASS
  obtain f1 s1 where h1: "runHook input WorkflowSuccess None s = (f1, s1)" by fastforce
  obtain f2 s2 where h2: "runHook input WorkflowComplete f1 s1 = (f2, s2)" by fastforce
  obtain c s3 where c: "isWorkflowCancelled input s2 = (c, s3)" by fastforce
  have "lc_trace s2 = lc_trace s @ [HookCalled WorkflowSuccess None, HookCalled WorkflowComplete f1]"
    "lc_trace s3 = lc_trace s2"
    using lifecycle_traced(2) [of input WorkflowSuccess None s] lifecycle_traced(2) [of input WorkflowComplete f1 s1]
      lifecycle_traced(4) [of input s2] by (simp_all add: h1 h2 c)
  moreover have "(case (if f2 \<noteq> None then f2 else f1) of
       Some hookFailure \<Rightarrow> (hookFailureResult input (rr_completed execution) hookFailure f1, s2)
     | None \<Rightarrow> (finalize_run input (if c then CANCELLED else PASS) (rr_completed execution) None, s3)) = (r, s')"
    using assms by (simp add: finalizeWorkflowLifecycle_def finalizePassedWorkflow_def PASS h1 h2 c
        cong: option.case_cong)
  ultimately show ?thesis
    by (cases f1; cases f2) (auto simp: PASS finished_after_def hookFailureResult_def finalize_run_def
        workflowLifecycleStatus_def split: if_splits)
next
  case FAIL
  let ?f = "or_else (rr_failure execution) workflowRuntimeFailure"
  obtain e1 s1 where h1: "runHookError input WorkflowFailureHook (Some ?f) s = (e1, s1)" by fastforce
  obtain e2 s2 where h2: "runHookError input WorkflowComplete (Some ?f) s1 = (e2, s2)" by fastforce
  have "lc_trace s1 = lc_trace s @ [HookCalled WorkflowFailureHook (Some ?f)]"
    "lc_trace s2 = lc_trace s1 @ [HookCalled WorkflowComplete (Some ?f)]"
    using lifecycle_traced(3) [of input WorkflowFailureHook "Some ?f" s]
      lifecycle_traced(3) [of input WorkflowComplete "Some ?f" s1] by (simp_all add: h1 h2)
  then show ?thesis
    using assms by (cases e1) (auto simp: finalizeWorkflowLifecycle_def finalizeFailedWorkflow_def FAIL h1 h2 Let_def
        finished_after_def finalize_run_def workflowLifecycleStatus_def)
next
  case CANCELLED
  then show ?thesis
    using assms by (auto simp: finalizeWorkflowLifecycle_def finished_after_def finalize_run_def workflowLifecycleStatus_def)
qed

lemma start_lifecycle_traced:
  assumes "runWorkflowStartLifecycle input s = (Inr x, s')"
  shows "lc_trace s' = lc_trace s @ start_calls"
proof -
  obtain r1 s1 where p: "traced PlannedEmitted (li_emitPlanned input) s = (r1, s1)" by fastforce
  obtain r2 s2 where q: "traced StartedEmitted (li_emitStarted input) s1 = (r2, s2)" by fastforce
  show ?thesis
    using assms lifecycle_traced(1) [of PlannedEmitted "li_emitPlanned input" s]
      lifecycle_traced(1) [of StartedEmitted "li_emitStarted input" s1]
      lifecycle_traced(2) [of input WorkflowStartHook None s2]
    by (auto simp: runWorkflowStartLifecycle_def p q start_calls_def split: sum.splits prod.splits)
qed

text \<open>
  A workflow that is neither rejected while it starts nor while its plan runs ends in one of
  these ways: a failing start hook fails it and a cancellation after the start hook cancels it,
  both before anything is executed; otherwise the plan is executed exactly once. A cancelled
  execution calls no further hook; a failed one calls the failure hook and, unless that hook is
  rejected, the completion hook, both with its failure; a passed one calls the success hook and the
  completion hook, and has failed exactly when one of these has. The result is built from
  the outcome that the status stands for.
\<close>

theorem workflow_lifecycle_outcome:
  assumes "runWorkflowLifecycle input s = (Inr r, s')"
  shows "lc_trace s' = lc_trace s @ start_calls \<and> lr_status r \<noteq> RunPassed \<and>
           lr_result r = li_buildResult input (outcome_of_status (lr_status r)) [] (lr_failure r)
    \<or> (\<exists>execution w1 w2. li_execute input w1 = (Inr execution, w2) \<and>
         finished_after input execution (lc_trace s @ start_calls @ [Executed]) r (lc_trace s'))"
proof -
  obtain started s1 where start: "runWorkflowStartLifecycle input s = (started, s1)" by fastforce
  obtain c s2 where c: "isWorkflowCancelled input s1 = (c, s2)" by fastforce
  obtain executed s3 where e: "traced Executed (li_execute input) s2 = (executed, s3)" by fastforce
  have traces: "lc_trace s2 = lc_trace s1" "lc_trace s3 = lc_trace s2 @ [Executed]"
    using lifecycle_traced(4) [of input s1] lifecycle_traced(1) [of Executed "li_execute input" s2]
    by (simp_all add: c e)
  note run = assms [unfolded runWorkflowLifecycle_def start prod.case c e]
  obtain x where x: "started = Inr x" using run by (cases started) simp_all
  have s1: "lc_trace s1 = lc_trace s @ start_calls" using start x by (simp add: start_lifecycle_traced)
  show ?thesis
  proof (cases "x = None \<and> \<not> c")
    case False
    then show ?thesis using run s1 traces(1)
      by (cases x) (auto simp: x finalize_run_def workflowLifecycleStatus_def)
  next
    case True
    obtain execution where execution: "executed = Inr execution"
      using run True by (cases executed) (simp_all add: x)
    then have "finalizeWorkflowLifecycle input execution s3 = (r, s')"
      using run True by (simp add: x split: prod.splits)
    then have "finished_after input execution (lc_trace s3) r (lc_trace s')"
      by (rule finalizeWorkflowLifecycle_finishes)
    moreover obtain w2 where "li_execute input (lc_world s2) = (Inr execution, w2)"
      using e execution by (auto simp: traced_def split: prod.splits)
    ultimately show ?thesis using traces s1 by auto
  qed
qed

definition sample_lifecycle :: "run_outcome \<Rightarrow> (unit, run_outcome) lifecycle_input" where
  "sample_lifecycle outcome = \<lparr>li_buildResult = (\<lambda>outcome nodes failure. outcome), li_emitPlanned = Pair (Inr ()),
     li_emitStarted = Pair (Inr ()),
     li_execute = Pair (Inr \<lparr>rr_completed = [], rr_failure = None, rr_outcome = outcome\<rparr>),
     li_isCancelled = None, li_message = (\<lambda>e. []), li_runHook = (\<lambda>event failure. Pair (Inr None))\<rparr>"

lemma workflow_lifecycle_outcome_witness:
  "case runWorkflowLifecycle (sample_lifecycle FAIL) \<lparr>lc_world = (), lc_trace = []\<rparr> of
     (Inr r, s') \<Rightarrow> lr_status r = RunFailed \<and> HookCalled WorkflowComplete (Some workflowRuntimeFailure) \<in> set (lc_trace s')
   | _ \<Rightarrow> False"
proof -
  have "case runWorkflowLifecycle (sample_lifecycle FAIL) \<lparr>lc_world = (), lc_trace = []\<rparr> of
     (Inr r, s') \<Rightarrow> length (lc_trace s') = 6 | _ \<Rightarrow> False" by code_simp
  then obtain r s' where run: "runWorkflowLifecycle (sample_lifecycle FAIL) \<lparr>lc_world = (), lc_trace = []\<rparr> = (Inr r, s')"
    and six: "length (lc_trace s') = 6" by (auto split: prod.splits sum.splits)
  show ?thesis
    unfolding run using workflow_lifecycle_outcome [OF run] six
    by (auto simp: start_calls_def finished_after_def sample_lifecycle_def Let_def or_else_def)
qed


subsection \<open>A compiled plan on the scheduler\<close>


lemma wsn_scheduleNode [simp]: "wsn_id (scheduleNode n) = pn_id n" "wsn_needs (scheduleNode n) = pn_needs n"
  by (simp_all add: scheduleNode_def)













end
