(* ===== verification/Tickets.thy ===== *)
theory Tickets
  imports Graphlib "HOL-Library.Product_Lexorder"
begin

text \<open>
  The ticket backlog: the index of children (\<^verbatim>\<open>src/tickets/ticket-task-index.ts\<close>), the ticket
  graph with its scope and batches (\<^verbatim>\<open>ticket-graph.ts\<close>), its wire form (\<^verbatim>\<open>ticket-graph-dto.ts\<close>) and the
  selection of the next ticket (\<^verbatim>\<open>ticket-selection.ts\<close>).

  \<open>localeCompare\<close> with numeric collation compares collation keys; the parameter \<open>collate\<close> gives the
  key of an id in a linear order. The walks down the children recurse or loop without a check for
  visited tickets; \<open>depth\<close> bounds them, and \<open>None\<close> is a walk that has not returned within it.
\<close>

subsection \<open>Tickets\<close>

datatype ticket_priority = HighPriority | MediumPriority | LowPriority

datatype ticket_status = TicketToDo | TicketInProgress | TicketDone

record ticket =
  tk_acceptanceCriteria :: "string list"
  tk_dependencies :: "string list"
  tk_description :: "string option"
  tk_filePath :: string
  tk_id :: string
  tk_modifiedFiles :: "string list"
  tk_ordinal :: "rat option"
  tk_parentTaskId :: "string option"
  tk_priority :: "ticket_priority option"
  tk_references :: "string list"
  tk_status :: ticket_status
  tk_title :: string

text \<open>A comparison function stands for the key it compares; \<open>toSorted\<close> is stable.\<close>

definition compareTicketIds :: "(string \<Rightarrow> 'k::linorder) \<Rightarrow> string \<Rightarrow> 'k" where
  "compareTicketIds collate ticketId = collate ticketId"

definition compareBacklogTasks :: "(string \<Rightarrow> 'k::linorder) \<Rightarrow> ticket \<Rightarrow> 'k" where
  "compareBacklogTasks collate task = compareTicketIds collate (tk_id task)"

type_synonym child_index = "(string \<times> ticket list) list"

definition addTaskToParentIndex :: "child_index \<Rightarrow> ticket \<Rightarrow> child_index" where
  "addTaskToParentIndex childrenByParentId task =
     (case truthy (tk_parentTaskId task) of
        None \<Rightarrow> childrenByParentId
      | Some parent \<Rightarrow>
          AList.update parent (or_else (map_of childrenByParentId parent) [] @ [task]) childrenByParentId)"

definition sortParentIndex :: "(string \<Rightarrow> 'k::linorder) \<Rightarrow> child_index \<Rightarrow> child_index" where
  "sortParentIndex collate childrenByParentId =
     map (\<lambda>(parent, siblings). (parent, sort_key (compareBacklogTasks collate) siblings)) childrenByParentId"

definition indexChildrenByParentId :: "(string \<Rightarrow> 'k::linorder) \<Rightarrow> ticket list \<Rightarrow> child_index" where
  "indexChildrenByParentId collate tasks = sortParentIndex collate (foldl addTaskToParentIndex [] tasks)"


subsection \<open>The ticket graph\<close>

record ticket_graph =
  tg_childrenByParentId :: child_index
  tg_danglingDependencies :: "string list"
  tg_dependencyGraph :: "ticket dep_graph"
  tg_tasksById :: "(string \<times> ticket) list"

definition indexTasksById :: "ticket list \<Rightarrow> (string \<times> ticket) list" where
  "indexTasksById tasks = foldl (\<lambda>index task. AList.update (tk_id task) task index) [] tasks"

definition buildDependencyGraph ::
  "(ticket graph_op list \<Rightarrow> ticket dep_graph) \<Rightarrow> ticket list \<Rightarrow> ticket dep_graph" where
  "buildDependencyGraph build tasks =
     createDependencyGraph build tk_id (\<lambda>task. Some (tk_dependencies task)) (\<lambda>task index. task) tasks"

definition missingDependencyMessages :: "ticket list \<Rightarrow> (string \<times> ticket) list \<Rightarrow> string list" where
  "missingDependencyMessages tasks tasksById =
     concat (map (\<lambda>task. map (\<lambda>dependency. tk_id task @ '' depends on missing '' @ dependency)
                          (filter (\<lambda>dependency. map_of tasksById dependency = None) (tk_dependencies task))) tasks)"

definition buildUncheckedTicketGraph ::
  "(ticket graph_op list \<Rightarrow> ticket dep_graph) \<Rightarrow> (string \<Rightarrow> 'k::linorder) \<Rightarrow> ticket list \<Rightarrow> ticket_graph" where
  "buildUncheckedTicketGraph build collate tasks =
     (let sortedTasks = sort_key (compareBacklogTasks collate) tasks; tasksById = indexTasksById sortedTasks in
      \<lparr>tg_childrenByParentId = indexChildrenByParentId collate sortedTasks,
       tg_danglingDependencies = missingDependencyMessages sortedTasks tasksById,
       tg_dependencyGraph = buildDependencyGraph build sortedTasks,
       tg_tasksById = tasksById\<rparr>)"

text \<open>
  \<open>findCycles\<close> is the cycle search of the graph library's algorithms.
\<close>

definition buildTicketGraph ::
  "(ticket graph_op list \<Rightarrow> ticket dep_graph) \<Rightarrow> (ticket dep_graph \<Rightarrow> string list list) \<Rightarrow> (string \<Rightarrow> 'k::linorder) \<Rightarrow>
   ticket list \<Rightarrow> string + ticket_graph" where
  "buildTicketGraph build findCycles collate tasks =
     (let graph = buildUncheckedTicketGraph build collate tasks;
          cycles = findCycles (tg_dependencyGraph graph)
      in if cycles \<noteq> []
         then Inl (''Backlog dependency graph contains cycle: '' @
                   join_with ''; '' (map (\<lambda>cycle. join_with '' -> '' (sort_key (compareTicketIds collate) cycle)) cycles))
         else Inr graph)"

definition predecessorIds :: "(string \<Rightarrow> 'k::linorder) \<Rightarrow> ticket_graph \<Rightarrow> string \<Rightarrow> string list" where
  "predecessorIds collate graph ticketId =
     sort_key (compareTicketIds collate) (dependencyPredecessorIds (tg_dependencyGraph graph) ticketId)"

definition sequenceTicketBatches ::
  "(string \<Rightarrow> 'k::linorder) \<Rightarrow> ticket_graph \<Rightarrow> string list \<Rightarrow> string + string list list" where
  "sequenceTicketBatches collate graph ticketIds =
     (let batches = dependencyBatches (tg_dependencyGraph graph) ticketIds (compareTicketIds collate) in
      if batches = [] \<and> ticketIds \<noteq> []
      then Inl (''Backlog dependency graph cannot be sequenced: '' @ join_with '', '' (sort_key (compareTicketIds collate) ticketIds))
      else Inr batches)"

definition children_of :: "ticket_graph \<Rightarrow> string \<Rightarrow> ticket list" where
  "children_of graph ticketId = or_else (map_of (tg_childrenByParentId graph) ticketId) []"

text \<open>The recursive \<open>visit\<close>: adds the descendants of a list of children to the ids.\<close>

fun visit_scope :: "nat \<Rightarrow> ticket_graph \<Rightarrow> string list \<Rightarrow> ticket list \<Rightarrow> string list option" where
  "visit_scope depth graph ids [] = Some ids"
| "visit_scope 0 graph ids (child # siblings) = None"
| "visit_scope (Suc depth) graph ids (child # siblings) =
     (case visit_scope depth graph (set_add ids (tk_id child)) (children_of graph (tk_id child)) of
        None \<Rightarrow> None
      | Some ids' \<Rightarrow> visit_scope (Suc depth) graph ids' siblings)"

definition scopedTicketIds ::
  "nat \<Rightarrow> (string \<Rightarrow> 'k::linorder) \<Rightarrow> ticket_graph \<Rightarrow> string option \<Rightarrow> string list option" where
  "scopedTicketIds depth collate graph rootId =
     (case truthy rootId of
        None \<Rightarrow> Some (sort_key (compareTicketIds collate) (dependencyGraphNodeIds (tg_dependencyGraph graph)))
      | Some rootTicket \<Rightarrow>
          if \<not> dependencyGraphHasNode (tg_dependencyGraph graph) rootTicket then Some []
          else map_option (sort_key (compareTicketIds collate)) (visit_scope depth graph [rootTicket] (children_of graph rootTicket)))"

subsection \<open>The wire form\<close>

datatype ticket_loop_state = Queued | Running | Merging | TicketPassed | TicketBlocked

record dto_node =
  dn_id :: string
  dn_loopState :: ticket_loop_state
  dn_priority :: "ticket_priority option"
  dn_status :: ticket_status
  dn_title :: string

record ticket_graph_dto =
  td_batches :: "string list list"
  td_dangling :: "string list"
  td_edges :: "(string \<times> string) list"
  td_nodes :: "dto_node list"

text \<open>\<open>edges\<close> lists the edges of a graph, as the graph library does.\<close>

definition serializeTicketGraph ::
  "(ticket dep_graph \<Rightarrow> (string \<times> string) list) \<Rightarrow> (string \<Rightarrow> 'k::linorder) \<Rightarrow> ticket_graph \<Rightarrow> string + ticket_graph_dto" where
  "serializeTicketGraph edges collate graph =
     (case sequenceTicketBatches collate graph (dependencyGraphNodeIds (tg_dependencyGraph graph)) of
        Inl e \<Rightarrow> Inl e
      | Inr batches \<Rightarrow> Inr
          \<lparr>td_batches = batches, td_dangling = tg_danglingDependencies graph,
           td_edges = edges (tg_dependencyGraph graph),
           td_nodes = map (\<lambda>(ticketId, task). \<lparr>dn_id = tk_id task, dn_loopState = Queued, dn_priority = tk_priority task,
                                          dn_status = tk_status task, dn_title = tk_title task\<rparr>) (tg_tasksById graph)\<rparr>)"

subsection \<open>Selection\<close>

datatype selection_strategy = Bfs | Dfs | Priority

record selection_options =
  so_includeParents :: bool
  so_rootId :: "string option"
  so_strategy :: "selection_strategy option"

definition hasIncompleteChildren :: "ticket_graph \<Rightarrow> string \<Rightarrow> bool" where
  "hasIncompleteChildren graph taskId \<longleftrightarrow> (\<exists>child \<in> set (children_of graph taskId). tk_status child \<noteq> TicketDone)"

definition isReadyTicket ::
  "(string \<Rightarrow> 'k::linorder) \<Rightarrow> ticket_graph \<Rightarrow> ticket \<Rightarrow> selection_options \<Rightarrow> bool" where
  "isReadyTicket collate graph task options \<longleftrightarrow>
     tk_status task = TicketToDo \<and>
     (so_includeParents options \<or> \<not> hasIncompleteChildren graph (tk_id task)) \<and>
     (\<forall>dependencyId \<in> set (predecessorIds collate graph (tk_id task)).
        map_option tk_status (map_of (tg_tasksById graph) dependencyId) = Some TicketDone)"

definition rootIds :: "(string \<Rightarrow> 'k::linorder) \<Rightarrow> ticket_graph \<Rightarrow> string list" where
  "rootIds collate graph =
     sort_key (compareTicketIds collate)
       (filter (\<lambda>ticketId. Option.bind (map_of (tg_tasksById graph) ticketId) tk_parentTaskId = None)
          (sort_key (compareTicketIds collate) (dependencyGraphNodeIds (tg_dependencyGraph graph))))"

definition childIds :: "(string \<Rightarrow> 'k::linorder) \<Rightarrow> ticket_graph \<Rightarrow> string \<Rightarrow> string list" where
  "childIds collate graph ticketId = sort_key (compareTicketIds collate) (map tk_id (children_of graph ticketId))"

fun bfs_loop :: "nat \<Rightarrow> (string \<Rightarrow> 'k::linorder) \<Rightarrow> ticket_graph \<Rightarrow> string list \<Rightarrow> string list \<Rightarrow> string list option" where
  "bfs_loop depth collate graph result [] = Some result"
| "bfs_loop 0 collate graph result (ticketId # queue) = None"
| "bfs_loop (Suc depth) collate graph result (ticketId # queue) =
     bfs_loop depth collate graph (result @ [ticketId]) (queue @ childIds collate graph ticketId)"

definition bfsIds :: "nat \<Rightarrow> (string \<Rightarrow> 'k::linorder) \<Rightarrow> ticket_graph \<Rightarrow> string list \<Rightarrow> string list option" where
  "bfsIds depth collate graph roots = bfs_loop depth collate graph [] roots"

fun dfs_visit :: "nat \<Rightarrow> (string \<Rightarrow> 'k::linorder) \<Rightarrow> ticket_graph \<Rightarrow> string list \<Rightarrow> string list \<Rightarrow> string list option" where
  "dfs_visit depth collate graph result [] = Some result"
| "dfs_visit 0 collate graph result (ticketId # ids) = None"
| "dfs_visit (Suc depth) collate graph result (ticketId # ids) =
     (case dfs_visit depth collate graph (result @ [ticketId]) (childIds collate graph ticketId) of
        None \<Rightarrow> None
      | Some result' \<Rightarrow> dfs_visit (Suc depth) collate graph result' ids)"

definition dfsIds :: "nat \<Rightarrow> (string \<Rightarrow> 'k::linorder) \<Rightarrow> ticket_graph \<Rightarrow> string list \<Rightarrow> string list option" where
  "dfsIds depth collate graph roots = dfs_visit depth collate graph [] roots"

definition traversalIds ::
  "nat \<Rightarrow> (string \<Rightarrow> 'k::linorder) \<Rightarrow> ticket_graph \<Rightarrow> string option \<Rightarrow> selection_strategy option \<Rightarrow> string list option" where
  "traversalIds depth collate graph rootId strategy =
     (let roots = (case rootId of Some rootTicket \<Rightarrow> [rootTicket] | None \<Rightarrow> rootIds collate graph) in
      if strategy = Some Dfs then dfsIds depth collate graph roots else bfsIds depth collate graph roots)"

definition priorityRank :: "ticket \<Rightarrow> nat" where
  "priorityRank task = (case or_else (tk_priority task) MediumPriority of
     HighPriority \<Rightarrow> 0 | MediumPriority \<Rightarrow> 1 | LowPriority \<Rightarrow> 2)"

definition MAX_SAFE_INTEGER :: rat where
  "MAX_SAFE_INTEGER = 9007199254740991"

definition ordinal :: "ticket \<Rightarrow> rat" where
  "ordinal task = or_else (tk_ordinal task) MAX_SAFE_INTEGER"

definition compareReadyTickets :: "(string \<Rightarrow> 'k::linorder) \<Rightarrow> ticket \<Rightarrow> nat \<times> rat \<times> 'k" where
  "compareReadyTickets collate task = (priorityRank task, ordinal task, compareTicketIds collate (tk_id task))"

text \<open>The map \<open>remaining\<close> of \<open>orderByTraversal\<close>: entries are taken out as the traversal meets them.\<close>

fun take_in_order ::
  "(string \<times> ticket) list \<Rightarrow> ticket list \<Rightarrow> string list \<Rightarrow> ticket list \<times> (string \<times> ticket) list" where
  "take_in_order remaining ordered [] = (ordered, remaining)"
| "take_in_order remaining ordered (ticketId # ids) =
     (case map_of remaining ticketId of
        None \<Rightarrow> take_in_order remaining ordered ids
      | Some task \<Rightarrow> take_in_order (AList.delete ticketId remaining) (ordered @ [task]) ids)"

definition orderByTraversal ::
  "nat \<Rightarrow> (string \<Rightarrow> 'k::linorder) \<Rightarrow> ticket_graph \<Rightarrow> ticket list \<Rightarrow> selection_options \<Rightarrow> ticket list option" where
  "orderByTraversal depth collate graph ready options =
     map_option (\<lambda>ids. case take_in_order (indexTasksById ready) [] ids of
         (ordered, remaining) \<Rightarrow> ordered @ sort_key (compareReadyTickets collate) (map snd remaining))
       (traversalIds depth collate graph (so_rootId options) (so_strategy options))"

definition ready_in_scope ::
  "(string \<Rightarrow> 'k::linorder) \<Rightarrow> ticket_graph \<Rightarrow> selection_options \<Rightarrow> string list \<Rightarrow> ticket list" where
  "ready_in_scope collate graph options ids =
     filter (\<lambda>task. isReadyTicket collate graph task options)
       (List.map_filter (map_of (tg_tasksById graph)) ids)"

definition selectReadyTickets ::
  "nat \<Rightarrow> (string \<Rightarrow> 'k::linorder) \<Rightarrow> ticket_graph \<Rightarrow> selection_options \<Rightarrow> ticket list option" where
  "selectReadyTickets depth collate graph options =
     (case scopedTicketIds depth collate graph (so_rootId options) of
        None \<Rightarrow> None
      | Some ids \<Rightarrow>
          let ready = ready_in_scope collate graph options ids in
          if so_strategy options = Some Bfs \<or> so_strategy options = Some Dfs
          then orderByTraversal depth collate graph ready options
          else Some (sort_key (compareReadyTickets collate) ready))"

definition selectNextTicket ::
  "nat \<Rightarrow> (string \<Rightarrow> 'k::linorder) \<Rightarrow> ticket_graph \<Rightarrow> selection_options \<Rightarrow> ticket option option" where
  "selectNextTicket depth collate graph options =
     map_option (\<lambda>ready. js_nth ready 0) (selectReadyTickets depth collate graph options)"


subsection \<open>What the walks visit\<close>

definition child_rel :: "ticket_graph \<Rightarrow> (string \<times> string) set" where
  "child_rel graph = {(p, tk_id c) | p c. c \<in> set (children_of graph p)}"

definition below :: "ticket_graph \<Rightarrow> string \<Rightarrow> string set" where
  "below graph p = {x. (p, x) \<in> (child_rel graph)\<^sup>*}"

lemma below_unfold: "below graph p = insert p (\<Union>c \<in> set (children_of graph p). below graph (tk_id c))"
  unfolding below_def by (subst rtrancl_step_iff) (auto simp: child_rel_def)

lemma visit_scope_visits:
  "visit_scope depth graph ids children = Some r \<Longrightarrow>
     set r = set ids \<union> (\<Union>c \<in> set children. below graph (tk_id c)) \<and> (distinct ids \<longrightarrow> distinct r)"
proof (induction depth graph ids children arbitrary: r rule: visit_scope.induct)
  case (3 depth graph ids child siblings)
  from "3.prems" obtain ids' where
    ids': "visit_scope depth graph (set_add ids (tk_id child)) (children_of graph (tk_id child)) = Some ids'"
    and r: "visit_scope (Suc depth) graph ids' siblings = Some r" by (auto split: option.splits)
  show ?case
    using "3.IH"(1) [OF ids'] "3.IH"(2) [OF ids' r] by (auto simp: below_unfold [of graph "tk_id child"])
qed auto

definition scope :: "ticket_graph \<Rightarrow> string option \<Rightarrow> string set" where
  "scope graph rootId = (case truthy rootId of
     None \<Rightarrow> set (dependencyGraphNodeIds (tg_dependencyGraph graph))
   | Some r \<Rightarrow> if dependencyGraphHasNode (tg_dependencyGraph graph) r then below graph r else {})"

definition view_ok :: "ticket_graph \<Rightarrow> bool" where
  "view_ok graph \<longleftrightarrow> distinct (map fst (tg_tasksById graph)) \<and>
     (\<forall>(k, t) \<in> set (tg_tasksById graph). tk_id t = k) \<and>
     distinct (dependencyGraphNodeIds (tg_dependencyGraph graph))"

lemma scopedTicketIds_scope:
  assumes "scopedTicketIds depth collate graph rootId = Some ids" "view_ok graph"
  shows "set ids = scope graph rootId \<and> distinct ids"
proof (cases "truthy rootId")
  case None
  then show ?thesis using assms by (auto simp: scopedTicketIds_def scope_def view_ok_def)
next
  case (Some r)
  show ?thesis
  proof (cases "dependencyGraphHasNode (tg_dependencyGraph graph) r")
    case True
    then obtain v where v: "visit_scope depth graph [r] (children_of graph r) = Some v"
      and ids: "ids = sort_key (compareTicketIds collate) v"
      using assms(1) Some by (auto simp: scopedTicketIds_def)
    from visit_scope_visits [OF v] show ?thesis
      using True Some ids below_unfold [of graph r] by (auto simp: scope_def)
  qed (use assms(1) Some in \<open>simp add: scopedTicketIds_def scope_def\<close>)
qed

subsection \<open>What a selection contains\<close>

lemma map_of_view:
  "view_ok graph \<Longrightarrow> map_of (tg_tasksById graph) k = Some t \<longleftrightarrow> t \<in> snd ` set (tg_tasksById graph) \<and> tk_id t = k"
  unfolding view_ok_def by (force dest: map_of_SomeD)

lemma set_map_filter_Some: "set (List.map_filter f xs) = {y. \<exists>x \<in> set xs. f x = Some y}"
  by (induction xs) (auto simp: List.map_filter_simps split: option.splits)

lemma map_filter_ids:
  assumes "view_ok graph" "distinct ids"
  shows "set (List.map_filter (map_of (tg_tasksById graph)) ids) = {t \<in> snd ` set (tg_tasksById graph). tk_id t \<in> set ids}"
    and "distinct (map tk_id (List.map_filter (map_of (tg_tasksById graph)) ids))"
proof -
  show "set (List.map_filter (map_of (tg_tasksById graph)) ids) = {t \<in> snd ` set (tg_tasksById graph). tk_id t \<in> set ids}"
    unfolding set_map_filter_Some map_of_view [OF assms(1)] by blast
  show "distinct (map tk_id (List.map_filter (map_of (tg_tasksById graph)) ids))"
    using assms(2)
  proof (induction ids)
    case (Cons a ids)
    have "tk_id ` set (List.map_filter (map_of (tg_tasksById graph)) ids) \<subseteq> set ids" for ids
      using map_of_view [OF assms(1)] by (induction ids) (auto simp: List.map_filter_simps split: option.splits)
    then show ?case
      using Cons map_of_view [OF assms(1), of a] by (auto simp: List.map_filter_simps split: option.splits)
  qed (simp add: List.map_filter_simps)
qed

lemma foldl_update_distinct:
  "distinct (map fst index @ map tk_id tasks) \<Longrightarrow>
   foldl (\<lambda>index task. AList.update (tk_id task) task index) index tasks = index @ map (\<lambda>t. (tk_id t, t)) tasks"
proof (induction tasks arbitrary: index)
  case (Cons t tasks)
  then show ?case by (simp add: update_new_key)
qed simp

lemma indexTasksById_distinct: "distinct (map tk_id tasks) \<Longrightarrow> indexTasksById tasks = map (\<lambda>t. (tk_id t, t)) tasks"
  by (simp add: indexTasksById_def foldl_update_distinct)

lemma take_in_order_keeps:
  assumes "take_in_order remaining ordered ids = (ordered', remaining')" "distinct (map fst remaining)"
  shows "mset (ordered' @ map snd remaining') = mset (ordered @ map snd remaining)"
  using assms
proof (induction remaining ordered ids rule: take_in_order.induct)
  case (2 remaining ordered ticketId ids)
  show ?case
  proof (cases "map_of remaining ticketId")
    case (Some task)
    have "mset (map snd m) = add_mset task (mset (map snd (AList.delete ticketId m)))"
      if "map_of m ticketId = Some task" "distinct (map fst m)" for m
      using that
    proof (induction m)
      case (Cons p m)
      then show ?case by (cases "fst p = ticketId") (auto simp: delete_id map_of_eq_None_iff)
    qed simp
    then show ?thesis using "2.IH"(2) [OF Some] "2.prems" Some by (simp add: distinct_delete)
  qed (use "2.IH"(1) "2.prems" in simp)
qed simp

lemma selectReadyTickets_exact:
  assumes sel: "selectReadyTickets depth collate graph options = Some ready" and ok: "view_ok graph"
  shows "distinct (map tk_id ready)"
    and "set ready = {t \<in> snd ` set (tg_tasksById graph).
           tk_id t \<in> scope graph (so_rootId options) \<and> isReadyTicket collate graph t options}"
    and "so_strategy options \<noteq> Some Bfs \<Longrightarrow> so_strategy options \<noteq> Some Dfs \<Longrightarrow>
         sorted (map (compareReadyTickets collate) ready)"
proof -
  obtain ids where ids: "scopedTicketIds depth collate graph (so_rootId options) = Some ids"
    using sel by (auto simp: selectReadyTickets_def split: option.splits)
  let ?ready = "ready_in_scope collate graph options ids"
  have in_scope: "set ids = scope graph (so_rootId options)" "distinct ids"
    using scopedTicketIds_scope [OF ids ok] by auto
  have found: "distinct (map tk_id ?ready)"
    "set ?ready = {t \<in> snd ` set (tg_tasksById graph).
       tk_id t \<in> scope graph (so_rootId options) \<and> isReadyTicket collate graph t options}"
    using map_filter_ids [OF ok in_scope(2)] in_scope(1)
    by (auto simp: ready_in_scope_def distinct_map inj_on_def intro: distinct_filter)
  have same: "mset ready = mset ?ready"
  proof (cases "so_strategy options = Some Bfs \<or> so_strategy options = Some Dfs")
    case True
    then obtain walk where
      walk: "ready = (case take_in_order (indexTasksById ?ready) [] walk of
         (ordered, remaining) \<Rightarrow> ordered @ sort_key (compareReadyTickets collate) (map snd remaining))"
      using sel ids by (auto simp: selectReadyTickets_def orderByTraversal_def Let_def)
    obtain ordered remaining where split: "take_in_order (indexTasksById ?ready) [] walk = (ordered, remaining)"
      by fastforce
    have "mset (ordered @ map snd remaining) = mset (map snd (indexTasksById ?ready))"
      using take_in_order_keeps [OF split] found(1) by (simp add: indexTasksById_distinct comp_def)
    then show ?thesis using walk split found(1) by (simp add: indexTasksById_distinct comp_def)
  next
    case False
    then show ?thesis using sel ids by (auto simp: selectReadyTickets_def)
  qed
  show "distinct (map tk_id ready)" using found(1) same by (metis distinct_map mset_eq_imp_distinct_iff mset_eq_setD)
  show "set ready = {t \<in> snd ` set (tg_tasksById graph).
      tk_id t \<in> scope graph (so_rootId options) \<and> isReadyTicket collate graph t options}"
    using found(2) same by (metis mset_eq_setD)
  show "sorted (map (compareReadyTickets collate) ready)"
    if "so_strategy options \<noteq> Some Bfs" "so_strategy options \<noteq> Some Dfs"
    using sel ids that by (auto simp: selectReadyTickets_def)
qed


subsection \<open>The graph of a backlog\<close>

lemma children_fold:
  "or_else (map_of (foldl addTaskToParentIndex m tasks) p) [] =
     or_else (map_of m p) [] @ filter (\<lambda>t. truthy (tk_parentTaskId t) = Some p) tasks"
  by (induction tasks arbitrary: m) (auto simp: addTaskToParentIndex_def split: option.splits)

lemma set_indexChildrenByParentId:
  "set (or_else (map_of (indexChildrenByParentId collate tasks) p) []) =
     {t \<in> set tasks. truthy (tk_parentTaskId t) = Some p}"
proof -
  let ?index = "foldl addTaskToParentIndex [] tasks"
  have "set (or_else (map_of (sortParentIndex collate ?index) p) []) = set (or_else (map_of ?index p) [])"
    by (cases "map_of ?index p") (simp_all add: sortParentIndex_def map_of_map)
  also have "\<dots> = {t \<in> set tasks. truthy (tk_parentTaskId t) = Some p}"
    by (subst children_fold) auto
  finally show ?thesis by (simp add: indexChildrenByParentId_def)
qed

lemma distinct_sort_key_map: "distinct (map f (sort_key g xs)) = distinct (map f xs)"
  by (metis distinct_map distinct_sort mset_eq_setD mset_sort set_sort)

lemma graph_built:
  assumes spec: "graphlib_spec build" and ids: "distinct (map tk_id tasks)"
    and graph: "graph = buildUncheckedTicketGraph build collate tasks"
  shows "view_ok graph" and "snd ` set (tg_tasksById graph) = set tasks"
    and "set (children_of graph p) = {t \<in> set tasks. truthy (tk_parentTaskId t) = Some p}"
    and "set (dependencyGraphNodeIds (tg_dependencyGraph graph)) = tk_id ` set tasks"
    and "set (dependencyPredecessorIds (tg_dependencyGraph graph) n) =
          {d. (d, n) \<in> list_edges tk_id (\<lambda>t. Some (tk_dependencies t)) tasks}"
proof -
  let ?sorted = "sort_key (compareBacklogTasks collate) tasks"
  have dist: "distinct (map tk_id ?sorted)" using ids by (simp add: distinct_sort_key_map)
  have tasks: "tg_tasksById graph = map (\<lambda>t. (tk_id t, t)) ?sorted"
    by (simp add: graph buildUncheckedTicketGraph_def Let_def indexTasksById_distinct [OF dist])
  have dep: "tg_dependencyGraph graph = createDependencyGraph build tk_id (\<lambda>t. Some (tk_dependencies t)) (\<lambda>t i. t) ?sorted"
    by (simp add: graph buildUncheckedTicketGraph_def Let_def buildDependencyGraph_def)
  show node_ids: "set (dependencyGraphNodeIds (tg_dependencyGraph graph)) = tk_id ` set tasks"
    using createDependencyGraph_ids [OF spec dep] by simp
  have "distinct (dependencyGraphNodeIds (tg_dependencyGraph graph))"
    using spec by (simp add: dep createDependencyGraph_def graphlib_spec_def Let_def)
  then show "view_ok graph" using dist by (auto simp: view_ok_def tasks comp_def)
  show "snd ` set (tg_tasksById graph) = set tasks" by (simp add: tasks image_image)
  show "set (children_of graph p) = {t \<in> set tasks. truthy (tk_parentTaskId t) = Some p}"
    by (simp add: children_of_def graph buildUncheckedTicketGraph_def Let_def set_indexChildrenByParentId
        del: set_or_else_Nil)
  have "set (dependencyPredecessorIds (tg_dependencyGraph graph) n) =
      {d. (d, n) \<in> graph_edges (tg_dependencyGraph graph)}"
    by (simp add: graph_edges_def)
  then show "set (dependencyPredecessorIds (tg_dependencyGraph graph) n) =
      {d. (d, n) \<in> list_edges tk_id (\<lambda>t. Some (tk_dependencies t)) tasks}"
    unfolding createDependencyGraph_edges [OF spec dep] by (simp add: list_edges_def)
qed

text \<open>What makes a ticket ready, read off the backlog alone.\<close>

definition backlog_ready :: "ticket list \<Rightarrow> bool \<Rightarrow> ticket \<Rightarrow> bool" where
  "backlog_ready tasks includeParents t \<longleftrightarrow>
     tk_status t = TicketToDo \<and>
     (includeParents \<or> (\<forall>c \<in> set tasks. truthy (tk_parentTaskId c) = Some (tk_id t) \<longrightarrow> tk_status c = TicketDone)) \<and>
     (\<forall>u \<in> set tasks. tk_id u \<in> set (tk_dependencies t) \<longrightarrow> tk_status u = TicketDone)"

definition parent_rel :: "ticket list \<Rightarrow> (string \<times> string) set" where
  "parent_rel tasks = {(p, tk_id c) | p c. c \<in> set tasks \<and> truthy (tk_parentTaskId c) = Some p}"

definition backlog_scope :: "ticket list \<Rightarrow> string option \<Rightarrow> string set" where
  "backlog_scope tasks rootId = (case truthy rootId of
     None \<Rightarrow> tk_id ` set tasks
   | Some r \<Rightarrow> if r \<in> tk_id ` set tasks then {x. (r, x) \<in> (parent_rel tasks)\<^sup>*} else {})"

lemma isReadyTicket_built:
  assumes spec: "graphlib_spec build" and ids: "distinct (map tk_id tasks)"
    and graph: "graph = buildUncheckedTicketGraph build collate tasks" and t: "t \<in> set tasks"
  shows "isReadyTicket collate graph t options \<longleftrightarrow> backlog_ready tasks (so_includeParents options) t"
proof -
  note built = graph_built [OF spec ids graph]
  have unique: "u = t" if "u \<in> set tasks" "tk_id u = tk_id t" for u
    using ids that t by (auto simp: distinct_map dest: inj_onD)
  have status: "map_of (tg_tasksById graph) (tk_id u) = Some u" if "u \<in> set tasks" for u
    using map_of_view [OF built(1), of "tk_id u" u] that built(2) by simp
  have preds: "set (dependencyPredecessorIds (tg_dependencyGraph graph) (tk_id t)) =
      tk_id ` {u \<in> set tasks. tk_id u \<in> set (tk_dependencies t)}"
    unfolding built(5) list_edges_def using unique t by auto
  have "(\<forall>d \<in> set (predecessorIds collate graph (tk_id t)).
        map_option tk_status (map_of (tg_tasksById graph) d) = Some TicketDone) \<longleftrightarrow>
      (\<forall>u \<in> set tasks. tk_id u \<in> set (tk_dependencies t) \<longrightarrow> tk_status u = TicketDone)"
    by (auto simp: predecessorIds_def preds status)
  then show ?thesis
    by (auto simp: isReadyTicket_def backlog_ready_def hasIncompleteChildren_def built(3))
qed

text \<open>
  C15: The tickets selected from a backlog are, each once, exactly the tickets in scope that are to
  do, whose dependencies within the backlog are done and (unless parents are asked for) whose
  children are done; dependencies on tickets that the backlog does not have do not count. The default
  strategy orders them by priority, ordinal and id.
\<close>

theorem ticket_selection_exact:
  assumes "graphlib_spec build" "distinct (map tk_id tasks)"
    and "buildTicketGraph build findCycles collate tasks = Inr graph"
    and "selectReadyTickets depth collate graph options = Some ready"
  shows "distinct (map tk_id ready)
    \<and> set ready = {t \<in> set tasks. tk_id t \<in> backlog_scope tasks (so_rootId options) \<and>
         backlog_ready tasks (so_includeParents options) t}
    \<and> (so_strategy options \<in> {None, Some Priority} \<longrightarrow> sorted (map (compareReadyTickets collate) ready))"
proof -
  have graph: "graph = buildUncheckedTicketGraph build collate tasks"
    using assms(3) by (simp add: buildTicketGraph_def Let_def split: if_splits)
  note built = graph_built [OF assms(1,2) graph]
  have "child_rel graph = parent_rel tasks" by (auto simp: child_rel_def parent_rel_def built(3))
  then have scope: "scope graph (so_rootId options) = backlog_scope tasks (so_rootId options)"
    by (auto simp: scope_def backlog_scope_def below_def built(4) dependencyGraphHasNode_def split: option.splits)
  note exact = selectReadyTickets_exact [OF assms(4) built(1), unfolded built(2) scope]
  have "set ready = {t \<in> set tasks. tk_id t \<in> backlog_scope tasks (so_rootId options) \<and>
      backlog_ready tasks (so_includeParents options) t}"
    unfolding exact(2) using isReadyTicket_built [OF assms(1,2) graph] by blast
  moreover have "sorted (map (compareReadyTickets collate) ready)" if "so_strategy options \<in> {None, Some Priority}"
    using exact(3) that by auto
  ultimately show ?thesis using exact(1) by blast
qed

subsection \<open>A backlog to apply the properties to\<close>

definition plain_ticket :: "string \<Rightarrow> string list \<Rightarrow> string option \<Rightarrow> ticket_status \<Rightarrow> ticket" where
  "plain_ticket ticketId dependencies parent status =
     \<lparr>tk_acceptanceCriteria = [], tk_dependencies = dependencies, tk_description = None, tk_filePath = [],
      tk_id = ticketId, tk_modifiedFiles = [], tk_ordinal = None, tk_parentTaskId = parent, tk_priority = None,
      tk_references = [], tk_status = status, tk_title = ticketId\<rparr>"

definition ticket_build :: "ticket graph_op list \<Rightarrow> ticket dep_graph" where
  "ticket_build = reference_graph (plain_ticket [] [] None TicketDone)"

definition sample_backlog :: "ticket list" where
  "sample_backlog = [plain_ticket ''c'' [''b''] (Some ''a'') TicketToDo, plain_ticket ''b'' [''x''] (Some ''a'') TicketToDo,
     plain_ticket ''a'' [] None TicketToDo]"

lemma ticket_build_spec: "graphlib_spec ticket_build"
  by (simp add: ticket_build_def reference_graph_spec)

lemma ticket_selection_exact_witness:
  "\<exists>graph ready. buildTicketGraph ticket_build (\<lambda>g. []) id sample_backlog = Inr graph \<and>
     selectReadyTickets 3 id graph \<lparr>so_includeParents = False, so_rootId = Some ''a'', so_strategy = Some Dfs\<rparr> = Some ready \<and>
     set ready = {plain_ticket ''b'' [''x''] (Some ''a'') TicketToDo}"
proof -
  let ?options = "\<lparr>so_includeParents = False, so_rootId = Some ''a'', so_strategy = Some Dfs\<rparr>"
  let ?graph = "buildUncheckedTicketGraph ticket_build id sample_backlog"
  have "map_option (map tk_id) (selectReadyTickets 3 id ?graph ?options) = Some [''b'']" by code_simp
  then obtain ready where ready: "selectReadyTickets 3 id ?graph ?options = Some ready" "map tk_id ready = [''b'']" by auto
  have graph: "buildTicketGraph ticket_build (\<lambda>g. []) id sample_backlog = Inr ?graph"
    by (simp add: buildTicketGraph_def Let_def)
  have "distinct (map tk_id sample_backlog)" by (simp add: sample_backlog_def plain_ticket_def)
  from ticket_selection_exact [OF ticket_build_spec this graph ready(1)]
  have "set ready \<subseteq> set sample_backlog" by auto
  then have "set ready = {plain_ticket ''b'' [''x''] (Some ''a'') TicketToDo}"
    using ready(2) by (cases ready) (auto simp: sample_backlog_def plain_ticket_def)
  with graph ready(1) show ?thesis by blast
qed


subsection \<open>The walks return\<close>

lemma visit_scope_list:
  assumes "\<forall>c \<in> set children. \<forall>ids. visit_scope depth graph ids (children_of graph (tk_id c)) \<noteq> None"
  shows "visit_scope (Suc depth) graph ids children \<noteq> None"
  using assms
proof (induction children arbitrary: ids)
  case (Cons c children)
  then obtain ids' where "visit_scope depth graph (set_add ids (tk_id c)) (children_of graph (tk_id c)) = Some ids'"
    by fastforce
  with Cons show ?case by simp
qed simp

lemma dfs_visit_list:
  assumes "\<forall>c \<in> set ids. \<forall>result. dfs_visit depth collate graph result (childIds collate graph c) \<noteq> None"
  shows "dfs_visit (Suc depth) collate graph result ids \<noteq> None"
  using assms
proof (induction ids arbitrary: result)
  case (Cons c ids)
  then obtain r where "dfs_visit depth collate graph (result @ [c]) (childIds collate graph c) = Some r" by fastforce
  with Cons show ?case by simp
qed simp

lemma deep_enough:
  assumes "wf ((child_rel graph)\<inverse>)"
    and step: "\<And>d p. \<forall>c. (p, c) \<in> child_rel graph \<longrightarrow> R d c \<Longrightarrow> R (Suc d) p"
    and finite: "\<And>p. finite (child_rel graph `` {p})"
  shows "\<exists>n. \<forall>d \<ge> n. R d p"
  using assms(1)
proof (induction p rule: wf_induct_rule)
  case (less p)
  obtain cs where cs: "set cs = child_rel graph `` {p}" using finite finite_list by metis
  then obtain n where n: "\<forall>d \<ge> n. \<forall>c \<in> set cs. R d c"
    using enough_for_all [of cs R] less by fastforce
  have "R d p" if d: "Suc n \<le> d" for d
  proof -
    obtain e where e: "d = Suc e" using Suc_le_D [OF d] by blast
    with d have "\<forall>c. (p, c) \<in> child_rel graph \<longrightarrow> R e c" using n cs by auto
    then show "R d p" unfolding e(1) by (rule step)
  qed
  then show ?case by blast
qed

lemma finite_children: "finite (child_rel graph `` {p})"
proof -
  have "child_rel graph `` {p} = tk_id ` set (children_of graph p)" by (auto simp: child_rel_def)
  then show ?thesis by simp
qed

lemma visit_scope_returns:
  assumes "wf ((child_rel graph)\<inverse>)"
  shows "\<exists>n. \<forall>depth \<ge> n. \<forall>ids. visit_scope depth graph ids (children_of graph p) \<noteq> None"
  using assms
proof (rule deep_enough)
  show "\<forall>ids. visit_scope (Suc d) graph ids (children_of graph p) \<noteq> None"
    if "\<forall>c. (p, c) \<in> child_rel graph \<longrightarrow> (\<forall>ids. visit_scope d graph ids (children_of graph c) \<noteq> None)" for d p
    using that by (intro allI visit_scope_list) (auto simp: child_rel_def)
qed (rule finite_children)

lemma dfs_returns:
  assumes "wf ((child_rel graph)\<inverse>)"
  shows "\<exists>n. \<forall>depth \<ge> n. dfsIds depth collate graph roots \<noteq> None"
proof -
  have "\<exists>n. \<forall>depth \<ge> n. \<forall>result. dfs_visit depth collate graph result (childIds collate graph p) \<noteq> None" for p
    using assms
  proof (rule deep_enough)
    show "\<forall>result. dfs_visit (Suc d) collate graph result (childIds collate graph p) \<noteq> None"
      if "\<forall>c. (p, c) \<in> child_rel graph \<longrightarrow> (\<forall>result. dfs_visit d collate graph result (childIds collate graph c) \<noteq> None)" for d p
      using that by (intro allI dfs_visit_list) (auto simp: child_rel_def childIds_def)
  qed (rule finite_children)
  then obtain n where n: "\<forall>depth \<ge> n. \<forall>p \<in> set roots. \<forall>result. dfs_visit depth collate graph result (childIds collate graph p) \<noteq> None"
    using enough_for_all [of roots "\<lambda>d p. \<forall>result. dfs_visit d collate graph result (childIds collate graph p) \<noteq> None"] by blast
  have "dfsIds depth collate graph roots \<noteq> None" if deep: "Suc n \<le> depth" for depth
  proof -
    obtain e where e: "depth = Suc e" using Suc_le_D [OF deep] by blast
    then have "n \<le> e" using deep by simp
    then show ?thesis using n e unfolding dfsIds_def e by (intro dfs_visit_list) blast
  qed
  then show ?thesis by blast
qed

lemma bfs_returns:
  assumes "wf ((child_rel graph)\<inverse>)"
  shows "\<exists>n. \<forall>depth \<ge> n. bfsIds depth collate graph roots \<noteq> None"
proof -
  have "\<exists>n. \<forall>depth \<ge> n. \<forall>result. bfs_loop depth collate graph result queue \<noteq> None" if "mset queue = M" for queue M
    using wf_mult1 [OF assms] that
  proof (induction M arbitrary: queue rule: wf_induct_rule)
    case (less M)
    show ?case
    proof (cases queue)
      case Nil
      then show ?thesis by simp
    next
      case (Cons p rest)
      let ?next = "rest @ childIds collate graph p"
      have "(mset ?next, M) \<in> mult1 ((child_rel graph)\<inverse>)"
      proof -
        have "b \<in># mset (childIds collate graph p) \<Longrightarrow> (b, p) \<in> (child_rel graph)\<inverse>" for b
          by (auto simp: childIds_def child_rel_def)
        moreover have "M = add_mset p (mset rest)" "mset ?next = mset rest + mset (childIds collate graph p)"
          using less.prems Cons by simp_all
        ultimately show ?thesis unfolding mult1_def by blast
      qed
      then obtain n where n: "\<forall>depth \<ge> n. \<forall>result. bfs_loop depth collate graph result ?next \<noteq> None"
        using less.IH by blast
      have "bfs_loop depth collate graph result queue \<noteq> None" if deep: "Suc n \<le> depth" for depth result
      proof -
        obtain e where e: "depth = Suc e" using Suc_le_D [OF deep] by blast
        with deep have "n \<le> e" by simp
        then show ?thesis using n unfolding Cons e by simp
      qed
      then show ?thesis by blast
    qed
  qed
  from this [OF refl] obtain n where "\<forall>depth \<ge> n. \<forall>result. bfs_loop depth collate graph result roots \<noteq> None" ..
  then have "\<forall>depth \<ge> n. bfsIds depth collate graph roots \<noteq> None" by (simp add: bfsIds_def)
  then show ?thesis ..
qed

lemma selectReadyTickets_returns:
  assumes "wf ((child_rel graph)\<inverse>)"
  shows "\<exists>n. \<forall>depth \<ge> n. selectReadyTickets depth collate graph options \<noteq> None"
proof -
  have "\<exists>n. \<forall>depth \<ge> n. scopedTicketIds depth collate graph (so_rootId options) \<noteq> None"
  proof (cases "truthy (so_rootId options)")
    case (Some r)
    obtain n where "\<forall>depth \<ge> n. \<forall>ids. visit_scope depth graph ids (children_of graph r) \<noteq> None"
      using visit_scope_returns [OF assms] by blast
    then have "\<forall>depth \<ge> n. scopedTicketIds depth collate graph (so_rootId options) \<noteq> None"
      by (simp add: scopedTicketIds_def Some)
    then show ?thesis by blast
  qed (simp add: scopedTicketIds_def)
  then obtain n1 where n1: "\<forall>depth \<ge> n1. scopedTicketIds depth collate graph (so_rootId options) \<noteq> None"
    by blast
  have "\<exists>n. \<forall>depth \<ge> n. traversalIds depth collate graph (so_rootId options) (so_strategy options) \<noteq> None"
    unfolding traversalIds_def Let_def
    by (cases "so_strategy options = Some Dfs") (simp_all add: dfs_returns [OF assms] bfs_returns [OF assms] del: not_None_eq)
  then obtain n2 where n2: "\<forall>depth \<ge> n2. traversalIds depth collate graph (so_rootId options) (so_strategy options) \<noteq> None"
    by blast
  have "selectReadyTickets depth collate graph options \<noteq> None" if "max n1 n2 \<le> depth" for depth
    using n1 n2 that by (auto simp: selectReadyTickets_def orderByTraversal_def Let_def split: option.splits)
  then show ?thesis by blast
qed

text \<open>
  On a backlog whose tickets are not their own ancestors the selection returns, whatever the
  strategy; nothing else of the backlog matters for that.
\<close>

theorem ticket_selection_returns:
  assumes "graphlib_spec build" "distinct (map tk_id tasks)" "acyclic (parent_rel tasks)"
    and "buildTicketGraph build findCycles collate tasks = Inr graph"
  shows "\<exists>n. \<forall>depth \<ge> n. \<exists>ready. selectReadyTickets depth collate graph options = Some ready"
proof -
  have graph: "graph = buildUncheckedTicketGraph build collate tasks"
    using assms(4) by (simp add: buildTicketGraph_def Let_def split: if_splits)
  have rel: "child_rel graph = parent_rel tasks"
    by (auto simp: child_rel_def parent_rel_def graph_built(3) [OF assms(1,2) graph])
  have "finite (parent_rel tasks)"
    by (rule finite_subset [of _ "(the \<circ> truthy \<circ> tk_parentTaskId) ` set tasks \<times> tk_id ` set tasks"])
       (force simp: parent_rel_def)+
  then have "wf ((child_rel graph)\<inverse>)" unfolding rel using assms(3) by (rule finite_acyclic_wf_converse)
  from selectReadyTickets_returns [OF this] show ?thesis by fastforce
qed

lemma ticket_selection_returns_witness:
  "\<exists>graph. buildTicketGraph ticket_build (\<lambda>g. []) id sample_backlog = Inr graph \<and>
     (\<exists>n. \<forall>depth \<ge> n. \<exists>ready. selectReadyTickets depth id graph
        \<lparr>so_includeParents = False, so_rootId = None, so_strategy = Some Bfs\<rparr> = Some ready)"
proof -
  let ?graph = "buildUncheckedTicketGraph ticket_build id sample_backlog"
  have graph: "buildTicketGraph ticket_build (\<lambda>g. []) id sample_backlog = Inr ?graph"
    by (simp add: buildTicketGraph_def Let_def)
  have "parent_rel sample_backlog \<subseteq> {''a''} \<times> {''b'', ''c''}"
    by (auto simp: parent_rel_def sample_backlog_def plain_ticket_def truthy_def)
  moreover have "acyclic ({''a''} \<times> {''b'', ''c''})"
    by (auto simp: acyclic_def dest: tranclD tranclD2)
  ultimately have "acyclic (parent_rel sample_backlog)" by (rule acyclic_subset [rotated])
  moreover have "distinct (map tk_id sample_backlog)" by (simp add: sample_backlog_def plain_ticket_def)
  ultimately show ?thesis using ticket_selection_returns [OF ticket_build_spec _ _ graph] graph by blast
qed

end
