(* ===== verification/Effects.thy ===== *)
theory Effects
  imports Prelude
begin

text \<open>
  Effects with an error channel, over a state: a value, a failure with its message, or not finished
  within the given fuel. Used by the components whose calls go through injected services.
\<close>

datatype 'x eff_result = Succeeds 'x | Fails string | Unfinished

type_synonym ('s, 'x) eff = "'s \<Rightarrow> 'x eff_result \<times> 's"

definition succeed :: "'x \<Rightarrow> ('s, 'x) eff" where
  "succeed x s = (Succeeds x, s)"

definition fail_eff :: "string \<Rightarrow> ('s, 'x) eff" where
  "fail_eff e s = (Fails e, s)"

definition unfinished :: "('s, 'x) eff" where
  "unfinished s = (Unfinished, s)"

definition and_then :: "('s, 'x) eff \<Rightarrow> ('x \<Rightarrow> ('s, 'y) eff) \<Rightarrow> ('s, 'y) eff" where
  "and_then m f s = (case m s of
     (Succeeds x, s') \<Rightarrow> f x s'
   | (Fails e, s') \<Rightarrow> (Fails e, s')
   | (Unfinished, s') \<Rightarrow> (Unfinished, s'))"

definition from_sum :: "string + 'x \<Rightarrow> ('s, 'x) eff" where
  "from_sum r = (case r of Inl e \<Rightarrow> fail_eff e | Inr x \<Rightarrow> succeed x)"

definition from_option :: "'x option \<Rightarrow> ('s, 'x) eff" where
  "from_option r = (case r of None \<Rightarrow> unfinished | Some x \<Rightarrow> succeed x)"

subsection \<open>Rules\<close>

text \<open>
  \<open>eff_spec tot P m Q E\<close>: started where \<open>P\<close> holds, \<open>m\<close> ends where \<open>Q\<close> holds of its value, or
  fails where \<open>E\<close> holds; unless \<open>tot\<close>, it may also not finish, where \<open>E\<close> holds.
\<close>

definition eff_spec ::
  "bool \<Rightarrow> ('s \<Rightarrow> bool) \<Rightarrow> ('s, 'x) eff \<Rightarrow> ('x \<Rightarrow> 's \<Rightarrow> bool) \<Rightarrow> ('s \<Rightarrow> bool) \<Rightarrow> bool" where
  "eff_spec tot P m Q E \<longleftrightarrow> (\<forall>s. P s \<longrightarrow> (case m s of
     (Succeeds x, s') \<Rightarrow> Q x s' | (Fails e, s') \<Rightarrow> E s' | (Unfinished, s') \<Rightarrow> \<not> tot \<and> E s'))"

named_theorems eff_rules \<open>rules for effects\<close>

lemma eff_specD:
  assumes "eff_spec tot P m Q E" "P s"
  shows "case m s of (Succeeds x, s') \<Rightarrow> Q x s' | (Fails e, s') \<Rightarrow> E s' | (Unfinished, s') \<Rightarrow> \<not> tot \<and> E s'"
  using assms by (simp add: eff_spec_def)

lemma eff_spec_and_then [eff_rules]:
  assumes "eff_spec tot P m R E" "\<And>x. eff_spec tot (R x) (f x) Q E"
  shows "eff_spec tot P (and_then m f) Q E"
  unfolding eff_spec_def
proof (intro allI impI)
  fix s assume "P s"
  obtain r s' where m: "m s = (r, s')" by fastforce
  show "case and_then m f s of (Succeeds x, s') \<Rightarrow> Q x s' | (Fails e, s') \<Rightarrow> E s' | (Unfinished, s') \<Rightarrow> \<not> tot \<and> E s'"
    using eff_specD [OF assms(1) \<open>P s\<close>] eff_specD [OF assms(2)] unfolding and_then_def m
    by (cases r) auto
qed

lemma eff_spec_succeed [eff_rules]: "(\<And>s. P s \<Longrightarrow> Q x s) \<Longrightarrow> eff_spec tot P (succeed x) Q E"
  by (simp add: eff_spec_def succeed_def)

lemma eff_spec_if [eff_rules]:
  assumes "b \<Longrightarrow> eff_spec tot P m1 Q E" "\<not> b \<Longrightarrow> eff_spec tot P m2 Q E"
  shows "eff_spec tot P (if b then m1 else m2) Q E"
  using assms by simp

lemma eff_spec_conseq:
  assumes "eff_spec tot P m Q E" "\<And>s. P' s \<Longrightarrow> P s" "\<And>x s. Q x s \<Longrightarrow> Q' x s" "\<And>s. E s \<Longrightarrow> E' s"
  shows "eff_spec tot P' m Q' E'"
  using assms unfolding eff_spec_def by (fastforce split: prod.splits eff_result.splits)

lemma and_then_Succeeds:
  assumes "and_then m f s = (Succeeds y, s2)"
  obtains x s1 where "m s = (Succeeds x, s1)" "f x s1 = (Succeeds y, s2)"
  using assms by (auto simp: and_then_def split: prod.splits eff_result.splits)

end
