(* ===== verification/LoopController.thy ===== *)
theory LoopController
  imports Tickets Effects
begin

text \<open>
  The loop controller (\<^verbatim>\<open>src/loop/controller.ts\<close>): it takes the next ready ticket of the backlog,
  runs it, sees its pull request through to a merge and goes on until no ticket is left. Every effect
  is a function of \<open>controller_deps\<close> on the outside world; the state of a run also lists the calls it
  made, in order.
\<close>

subsection \<open>The injected effects\<close>

datatype check_classification = Fixable | Indeterminate | InfraDown

record open_pr =
  op_headRefName :: string
  op_number :: nat
  op_url :: string

datatype blocked_reason = MergeConflict | MissingToken | NotMergeable

datatype merge_outcome =
    MergePending nat
  | Merged nat
  | MergeBlocked (mo_detail: string) (mo_pr: nat) (mo_reason: blocked_reason)

datatype merge_poll_signal = MergedSignal | ChecksSignal check_classification

datatype delivery_mode = CreateNewPr | UpdateExistingPr

record submit_run_input =
  sr_deliveryMode :: delivery_mode
  sr_headBranch :: "string option"
  sr_repositorySha :: "string option"
  sr_ticketId :: string

record submit_run_result =
  sm_runId :: string
  sm_workflowName :: string

datatype terminal_phase = Succeeded | PhaseFailed | PhaseError

datatype controller_event =
    LoopStart string selection_strategy
  | LoopGraphSnapshot ticket_graph_dto
  | LoopNodeTransition string ticket_loop_state
  | LoopFinish (lf_passed: nat) (lf_blocked: nat)

record 'w controller_deps =
  cd_classifyChecks :: "open_pr \<Rightarrow> 'w \<Rightarrow> (string + merge_poll_signal) \<times> 'w"
  cd_emit :: "controller_event \<Rightarrow> 'w \<Rightarrow> 'w"
  cd_loadGraph :: "'w \<Rightarrow> (string + ticket list) \<times> 'w"
  cd_maxMergePolls :: nat
  cd_maxRemediationAttempts :: nat
  cd_merge :: "check_classification \<Rightarrow> open_pr \<Rightarrow> 'w \<Rightarrow> (string + merge_outcome option) \<times> 'w"
  cd_pollPhase :: "string \<Rightarrow> string \<Rightarrow> 'w \<Rightarrow> (string + terminal_phase) \<times> 'w"
  cd_projectId :: string
  cd_refreshBacklog :: "'w \<Rightarrow> (string + ticket list) \<times> 'w"
  cd_resolvePr :: "string \<Rightarrow> 'w \<Rightarrow> (string + open_pr option) \<times> 'w"
  cd_rootId :: "string option"
  cd_sleep :: "nat \<Rightarrow> 'w \<Rightarrow> 'w"
  cd_strategy :: selection_strategy
  cd_submitRun :: "submit_run_input \<Rightarrow> 'w \<Rightarrow> (string + submit_run_result) \<times> 'w"

datatype loop_call =
    TasksLoaded "ticket list"
  | Emitted controller_event
  | RunSubmitted submit_run_input
  | PhasePolled string
  | PrResolved string
  | ChecksClassified merge_poll_signal
  | MergeAsked check_classification "merge_outcome option"
  | Slept nat

record 'w loop_world =
  lw_world :: 'w
  lw_calls :: "loop_call list"

type_synonym ('w, 'x) loop_run = "('w loop_world, 'x) eff"

definition perform :: "('w \<Rightarrow> (string + 'x) \<times> 'w) \<Rightarrow> ('x \<Rightarrow> loop_call) \<Rightarrow> ('w, 'x) loop_run" where
  "perform f call s = (case f (lw_world s) of
     (Inl e, w) \<Rightarrow> (Fails e, s\<lparr>lw_world := w\<rparr>)
   | (Inr x, w) \<Rightarrow> (Succeeds x, \<lparr>lw_world = w, lw_calls = lw_calls s @ [call x]\<rparr>))"

definition perform_unit :: "('w \<Rightarrow> 'w) \<Rightarrow> loop_call \<Rightarrow> ('w, unit) loop_run" where
  "perform_unit f call s = (Succeeds (), \<lparr>lw_world = f (lw_world s), lw_calls = lw_calls s @ [call]\<rparr>)"

definition emit :: "'w controller_deps \<Rightarrow> controller_event \<Rightarrow> ('w, unit) loop_run" where
  "emit deps event = perform_unit (cd_emit deps event) (Emitted event)"

record loop_summary =
  ls_blocked :: nat
  ls_passed :: nat

subsection \<open>Selecting the next ticket\<close>

datatype poll_action = PassAction | RemediateAction | AdminMergeAction | WaitAction

fun POLL_ACTION :: "merge_poll_signal \<Rightarrow> poll_action" where
  "POLL_ACTION (ChecksSignal Fixable) = RemediateAction"
| "POLL_ACTION (ChecksSignal Indeterminate) = WaitAction"
| "POLL_ACTION (ChecksSignal InfraDown) = AdminMergeAction"
| "POLL_ACTION MergedSignal = PassAction"

datatype node_resolution = PASSED | BLOCKED

record drain_state =
  dr_blocked :: "string list"
  dr_passed :: "string list"
  dr_rootId :: "string option"
  dr_strategy :: selection_strategy
  dr_tasks :: "ticket list"

definition addOverlaidChild :: "child_index \<Rightarrow> ticket \<Rightarrow> child_index" where
  "addOverlaidChild childrenByParentId task =
     (case tk_parentTaskId task of
        None \<Rightarrow> childrenByParentId
      | Some parent \<Rightarrow>
          AList.update parent (or_else (map_of childrenByParentId parent) [] @ [task]) childrenByParentId)"

definition overlaidGraphFromTasks :: "ticket_graph \<Rightarrow> ticket list \<Rightarrow> ticket_graph" where
  "overlaidGraphFromTasks graph overlaidTasks =
     \<lparr>tg_childrenByParentId = foldl addOverlaidChild [] overlaidTasks,
      tg_danglingDependencies = tg_danglingDependencies graph,
      tg_dependencyGraph = tg_dependencyGraph graph,
      tg_tasksById = indexTasksById overlaidTasks\<rparr>"

definition overlayGraph :: "ticket_graph \<Rightarrow> string list \<Rightarrow> ticket_graph" where
  "overlayGraph graph passed =
     (if passed = [] then graph
      else overlaidGraphFromTasks graph
             (map (\<lambda>task. if tk_id task \<in> set passed then task\<lparr>tk_status := TicketDone\<rparr> else task)
                (map snd (tg_tasksById graph))))"

lemma length_update_le: "length (AList.update k v m) \<le> Suc (length m)"
  by (induction m) auto

lemma length_index_fold:
  "length (foldl (\<lambda>index task. AList.update (tk_id task) task index) index tasks) \<le> length index + length tasks"
proof (induction tasks arbitrary: index)
  case (Cons t tasks)
  then show ?case using length_update_le [of "tk_id t" t index] by (simp add: le_trans [OF Cons])
qed simp

lemma length_indexTasksById: "length (indexTasksById tasks) \<le> length tasks"
  using length_index_fold [of "[]"] by (simp add: indexTasksById_def)

function selectReadyChain ::
  "nat \<Rightarrow> (string \<Rightarrow> 'k::linorder) \<Rightarrow> ticket_graph \<Rightarrow> drain_state \<Rightarrow> ticket option option" where
  "selectReadyChain depth collate graph st =
     (case selectNextTicket depth collate graph
             \<lparr>so_includeParents = False, so_rootId = dr_rootId st, so_strategy = Some (dr_strategy st)\<rparr> of
        None \<Rightarrow> None
      | Some None \<Rightarrow> Some None
      | Some (Some candidate) \<Rightarrow>
          if tk_id candidate \<in> set (dr_passed st) \<or> tk_id candidate \<in> set (dr_blocked st)
          then (let remaining = filter (\<lambda>task. tk_id task \<noteq> tk_id candidate) (map snd (tg_tasksById graph)) in
                if length remaining = length (tg_tasksById graph) then Some None
                else selectReadyChain depth collate (overlaidGraphFromTasks graph remaining) st)
          else Some (Some candidate))"
  by pat_completeness auto

termination selectReadyChain
proof (relation "measure (\<lambda>(depth, collate, graph, st). length (tg_tasksById graph))", goal_cases)
  case (2 depth collate graph st x2 candidate remaining)
  have "length (indexTasksById remaining) \<le> length remaining" by (rule length_indexTasksById)
  moreover have "length remaining \<le> length (tg_tasksById graph)"
    unfolding 2(4) by (metis length_filter_le length_map)
  ultimately show ?case using 2(5) by (simp add: overlaidGraphFromTasks_def)
qed simp

declare selectReadyChain.simps [simp del]


text \<open>The parameters of the graph: the graph library, its cycle search, its edges, and the collation.\<close>

record 'k graph_library =
  gl_build :: "ticket graph_op list \<Rightarrow> ticket dep_graph"
  gl_findCycles :: "ticket dep_graph \<Rightarrow> string list list"
  gl_edges :: "ticket dep_graph \<Rightarrow> (string \<times> string) list"
  gl_collate :: "string \<Rightarrow> 'k"
  gl_depth :: nat

definition buildGraph :: "'k::linorder graph_library \<Rightarrow> ticket list \<Rightarrow> string + ticket_graph" where
  "buildGraph lib tasks = buildTicketGraph (gl_build lib) (gl_findCycles lib) (gl_collate lib) tasks"

definition selectReadyExcluding :: "'k::linorder graph_library \<Rightarrow> drain_state \<Rightarrow> ('w, ticket option) loop_run" where
  "selectReadyExcluding lib st =
     and_then (from_sum (buildGraph lib (dr_tasks st))) (\<lambda>graph.
     from_option (selectReadyChain (gl_depth lib) (gl_collate lib) (overlayGraph graph (dr_passed st)) st))"

subsection \<open>Merging\<close>

record merge_loop_state =
  ml_mergePolls :: nat
  ml_pr :: open_pr
  ml_remediationAttempts :: nat
  ml_runId :: string
  ml_ticketId :: string

datatype merge_poll_decision = ContinueDecision merge_loop_state | DoneDecision node_resolution

definition MERGE_POLL_INTERVAL_MS :: nat where
  "MERGE_POLL_INTERVAL_MS = 5000"

definition transition :: "'w controller_deps \<Rightarrow> string \<Rightarrow> ticket_loop_state \<Rightarrow> ('w, unit) loop_run" where
  "transition deps ticketId loopState = emit deps (LoopNodeTransition ticketId loopState)"

definition passNode :: "'w controller_deps \<Rightarrow> string \<Rightarrow> ('w, node_resolution) loop_run" where
  "passNode deps ticketId = and_then (transition deps ticketId TicketPassed) (\<lambda>_. succeed PASSED)"

definition blockNode :: "'w controller_deps \<Rightarrow> string \<Rightarrow> ('w, node_resolution) loop_run" where
  "blockNode deps ticketId = and_then (transition deps ticketId TicketBlocked) (\<lambda>_. succeed BLOCKED)"

definition mergeWith ::
  "'w controller_deps \<Rightarrow> check_classification \<Rightarrow> open_pr \<Rightarrow> ('w, merge_outcome option) loop_run" where
  "mergeWith deps classification pr = perform (cd_merge deps classification pr) (MergeAsked classification)"

definition submit :: "'w controller_deps \<Rightarrow> submit_run_input \<Rightarrow> ('w, submit_run_result) loop_run" where
  "submit deps input = perform (cd_submitRun deps input) (\<lambda>r. RunSubmitted input)"

definition adminMergeNode :: "'w controller_deps \<Rightarrow> merge_loop_state \<Rightarrow> ('w, merge_poll_decision) loop_run" where
  "adminMergeNode deps st =
     and_then (mergeWith deps InfraDown (ml_pr st)) (\<lambda>outcome.
     case outcome of
       Some (Merged n) \<Rightarrow> and_then (passNode deps (ml_ticketId st)) (\<lambda>r. succeed (DoneDecision r))
     | _ \<Rightarrow> and_then (blockNode deps (ml_ticketId st)) (\<lambda>r. succeed (DoneDecision r)))"

definition remediation_input :: "merge_loop_state \<Rightarrow> submit_run_input" where
  "remediation_input st =
     \<lparr>sr_deliveryMode = UpdateExistingPr, sr_headBranch = Some (''moka/run/'' @ ml_runId st),
      sr_repositorySha = Some (op_headRefName (ml_pr st)), sr_ticketId = ml_ticketId st\<rparr>"

definition remediateNode :: "'w controller_deps \<Rightarrow> merge_loop_state \<Rightarrow> ('w, merge_poll_decision) loop_run" where
  "remediateNode deps st =
     (if ml_remediationAttempts st \<ge> cd_maxRemediationAttempts deps
      then and_then (blockNode deps (ml_ticketId st)) (\<lambda>r. succeed (DoneDecision r))
      else and_then (submit deps (remediation_input st)) (\<lambda>_.
           succeed (ContinueDecision (st\<lparr>ml_remediationAttempts := ml_remediationAttempts st + 1\<rparr>))))"

definition waitNode :: "'w controller_deps \<Rightarrow> merge_loop_state \<Rightarrow> ('w, merge_poll_decision) loop_run" where
  "waitNode deps st =
     (if ml_mergePolls st \<ge> cd_maxMergePolls deps
      then and_then (blockNode deps (ml_ticketId st)) (\<lambda>r. succeed (DoneDecision r))
      else and_then (perform_unit (cd_sleep deps MERGE_POLL_INTERVAL_MS) (Slept MERGE_POLL_INTERVAL_MS)) (\<lambda>_.
           succeed (ContinueDecision (st\<lparr>ml_mergePolls := ml_mergePolls st + 1\<rparr>))))"

fun dispatchPollAction ::
  "'w controller_deps \<Rightarrow> merge_loop_state \<Rightarrow> poll_action \<Rightarrow> ('w, merge_poll_decision) loop_run" where
  "dispatchPollAction deps st AdminMergeAction = adminMergeNode deps st"
| "dispatchPollAction deps st PassAction = and_then (passNode deps (ml_ticketId st)) (\<lambda>r. succeed (DoneDecision r))"
| "dispatchPollAction deps st RemediateAction = remediateNode deps st"
| "dispatchPollAction deps st WaitAction = waitNode deps st"

text \<open>What is left of the two bounds: the loop gets nearer to both.\<close>

definition merge_budget :: "'w controller_deps \<Rightarrow> merge_loop_state \<Rightarrow> nat" where
  "merge_budget deps st =
     (cd_maxMergePolls deps - ml_mergePolls st) + (cd_maxRemediationAttempts deps - ml_remediationAttempts st)"

lemmas loop_effects = and_then_def succeed_def emit_def transition_def perform_def perform_unit_def
  passNode_def blockNode_def mergeWith_def submit_def adminMergeNode_def remediateNode_def waitNode_def

lemma dispatch_continues:
  assumes "dispatchPollAction deps st action s = (Succeeds (ContinueDecision st'), s')"
  shows "action = RemediateAction \<and> ml_remediationAttempts st < cd_maxRemediationAttempts deps \<and>
           st' = st\<lparr>ml_remediationAttempts := ml_remediationAttempts st + 1\<rparr>
       \<or> action = WaitAction \<and> ml_mergePolls st < cd_maxMergePolls deps \<and>
           st' = st\<lparr>ml_mergePolls := ml_mergePolls st + 1\<rparr>"
  using assms by (cases action) (auto simp: loop_effects split: if_splits sum.splits prod.splits option.splits
      merge_outcome.splits)

lemma dispatch_budget:
  assumes "dispatchPollAction deps st action s = (Succeeds (ContinueDecision st'), s')"
  shows "merge_budget deps st' < merge_budget deps st"
  using dispatch_continues [OF assms] by (auto simp: merge_budget_def)

function resolveMerge :: "'w controller_deps \<Rightarrow> merge_loop_state \<Rightarrow> ('w, node_resolution) loop_run" where
  "resolveMerge deps st s =
     (case perform (cd_classifyChecks deps (ml_pr st)) ChecksClassified s of
        (Succeeds signal, s1) \<Rightarrow>
          (case dispatchPollAction deps st (POLL_ACTION signal) s1 of
             (Succeeds (DoneDecision resolution), s2) \<Rightarrow> (Succeeds resolution, s2)
           | (Succeeds (ContinueDecision st'), s2) \<Rightarrow> resolveMerge deps st' s2
           | (Fails e, s2) \<Rightarrow> (Fails e, s2)
           | (Unfinished, s2) \<Rightarrow> (Unfinished, s2))
      | (Fails e, s1) \<Rightarrow> (Fails e, s1)
      | (Unfinished, s1) \<Rightarrow> (Unfinished, s1))"
  by pat_completeness auto

termination resolveMerge
  by (relation "measure (\<lambda>(deps, st, s). merge_budget deps st)") (auto dest: dispatch_budget [OF sym])

declare resolveMerge.simps [simp del]

subsection \<open>One ticket\<close>

definition resolveTicket :: "'w controller_deps \<Rightarrow> string \<Rightarrow> ('w, node_resolution) loop_run" where
  "resolveTicket deps ticketId =
     and_then (transition deps ticketId Running) (\<lambda>_.
     and_then (submit deps \<lparr>sr_deliveryMode = CreateNewPr, sr_headBranch = None, sr_repositorySha = None,
                            sr_ticketId = ticketId\<rparr>) (\<lambda>run.
     and_then (perform (cd_pollPhase deps (sm_workflowName run) (sm_runId run)) (\<lambda>phase. PhasePolled (sm_runId run))) (\<lambda>phase.
     if phase \<noteq> Succeeded then blockNode deps ticketId
     else and_then (perform (cd_resolvePr deps (sm_runId run)) (\<lambda>r. PrResolved (sm_runId run))) (\<lambda>resolution.
       case resolution of
         None \<Rightarrow> blockNode deps ticketId
       | Some pr \<Rightarrow>
           and_then (transition deps ticketId Merging) (\<lambda>_.
           and_then (mergeWith deps Fixable pr) (\<lambda>_.
           resolveMerge deps \<lparr>ml_mergePolls = 0, ml_pr = pr, ml_remediationAttempts = 0,
                              ml_runId = sm_runId run, ml_ticketId = ticketId\<rparr>))))))"

subsection \<open>The loop\<close>

primrec drainStep ::
  "nat \<Rightarrow> 'k::linorder graph_library \<Rightarrow> 'w controller_deps \<Rightarrow> drain_state \<Rightarrow> ('w, loop_summary) loop_run" where
  "drainStep 0 lib deps st = unfinished"
| "drainStep (Suc fuel) lib deps st =
     and_then (selectReadyExcluding lib st) (\<lambda>next_ticket.
     case next_ticket of
       None \<Rightarrow> succeed \<lparr>ls_blocked = length (dr_blocked st), ls_passed = length (dr_passed st)\<rparr>
     | Some task \<Rightarrow>
         and_then (resolveTicket deps (tk_id task)) (\<lambda>resolution.
         if resolution = PASSED
         then and_then (perform (cd_refreshBacklog deps) TasksLoaded) (\<lambda>refreshed.
              drainStep fuel lib deps (st\<lparr>dr_passed := set_add (dr_passed st) (tk_id task), dr_tasks := refreshed\<rparr>))
         else drainStep fuel lib deps (st\<lparr>dr_blocked := set_add (dr_blocked st) (tk_id task)\<rparr>)))"

definition drain ::
  "nat \<Rightarrow> 'k::linorder graph_library \<Rightarrow> 'w controller_deps \<Rightarrow> ticket list \<Rightarrow> ('w, loop_summary) loop_run" where
  "drain fuel lib deps tasks =
     drainStep fuel lib deps \<lparr>dr_blocked = [], dr_passed = [], dr_rootId = cd_rootId deps,
       dr_strategy = cd_strategy deps, dr_tasks = tasks\<rparr>"

definition runLoopController ::
  "nat \<Rightarrow> 'k::linorder graph_library \<Rightarrow> 'w controller_deps \<Rightarrow> ('w, loop_summary) loop_run" where
  "runLoopController fuel lib deps =
     and_then (perform (cd_loadGraph deps) TasksLoaded) (\<lambda>initialTasks.
     and_then (from_sum (buildGraph lib initialTasks)) (\<lambda>graph.
     and_then (emit deps (LoopStart (cd_projectId deps) (cd_strategy deps))) (\<lambda>_.
     and_then (from_sum (serializeTicketGraph (gl_edges lib) (gl_collate lib) graph)) (\<lambda>snapshot.
     and_then (emit deps (LoopGraphSnapshot snapshot)) (\<lambda>_.
     and_then (drain fuel lib deps initialTasks) (\<lambda>summary.
     and_then (emit deps (LoopFinish (ls_passed summary) (ls_blocked summary))) (\<lambda>_.
     succeed summary)))))))"

end
