(* ===== verification/LoopServices.thy ===== *)
theory LoopServices
  imports LoopController
begin

text \<open>
  The interface of the loop controller: what its injected effects keep, every run of the loop keeps.
  Effects that fail count too.
\<close>

definition keeps :: "('s \<Rightarrow> bool) \<Rightarrow> ('s, 'x) eff \<Rightarrow> bool" where
  "keeps I m \<longleftrightarrow> (\<forall>s. I s \<longrightarrow> I (snd (m s)))"

named_theorems keep_rules \<open>effects that keep a property of the state\<close>

lemma keepsD: "keeps I m \<Longrightarrow> I s \<Longrightarrow> I (snd (m s))"
  by (simp add: keeps_def)

lemma keeps_and_then [keep_rules]: "keeps I m \<Longrightarrow> (\<And>x. keeps I (f x)) \<Longrightarrow> keeps I (and_then m f)"
  unfolding keeps_def and_then_def by (auto split: prod.splits eff_result.splits)

lemma keeps_succeed [keep_rules]: "keeps I (succeed x)"
  by (simp add: keeps_def succeed_def)

lemma keeps_unfinished [keep_rules]: "keeps I unfinished"
  by (simp add: keeps_def unfinished_def)

lemma keeps_from_sum [keep_rules]: "keeps I (from_sum r)"
  by (simp add: keeps_def from_sum_def succeed_def fail_eff_def split: sum.splits)

lemma keeps_from_option [keep_rules]: "keeps I (from_option r)"
  by (simp add: keeps_def from_option_def succeed_def unfinished_def split: option.splits)

lemma keeps_if [keep_rules]: "keeps I m1 \<Longrightarrow> keeps I m2 \<Longrightarrow> keeps I (if b then m1 else m2)"
  by simp

lemma keeps_option [keep_rules]: "keeps I m \<Longrightarrow> (\<And>x. keeps I (f x)) \<Longrightarrow> keeps I (case r of None \<Rightarrow> m | Some x \<Rightarrow> f x)"
  by (cases r) simp_all

text \<open>
  The contract: every effect keeps \<open>I\<close>, and a look at the checks that finds an outage also
  establishes \<open>J\<close>, which is what the admin merge may rely on.
\<close>

locale controller_services =
  fixes deps :: "'w controller_deps" and I :: "'w loop_world \<Rightarrow> bool" and J :: "open_pr \<Rightarrow> 'w loop_world \<Rightarrow> bool"
  assumes looks: "I s \<Longrightarrow> perform (cd_classifyChecks deps pr) ChecksClassified s = (r, s') \<Longrightarrow>
      I s' \<and> (r = Succeeds (ChecksSignal InfraDown) \<longrightarrow> J pr s')"
    and admin_merges: "J pr s \<Longrightarrow> I (snd (mergeWith deps InfraDown pr s))"
    and arms: "keeps I (mergeWith deps Fixable pr)"
    and submits: "keeps I (submit deps input)"
    and polls: "keeps I (perform (cd_pollPhase deps workflow run) (\<lambda>phase. PhasePolled run))"
    and resolves: "keeps I (perform (cd_resolvePr deps run) (\<lambda>r. PrResolved run))"
    and loads: "keeps I (perform (cd_loadGraph deps) TasksLoaded)" "keeps I (perform (cd_refreshBacklog deps) TasksLoaded)"
    and emits: "keeps I (emit deps event)"
    and sleeps: "keeps I (perform_unit (cd_sleep deps ms) (Slept ms))"
begin

lemma settles: "keeps I (passNode deps t)" "keeps I (blockNode deps t)"
  unfolding passNode_def blockNode_def transition_def by (intro keep_rules emits)+

lemma dispatch_keeps:
  assumes "I s" "signal = ChecksSignal InfraDown \<longrightarrow> J (ml_pr st) s"
  shows "I (snd (dispatchPollAction deps st (POLL_ACTION signal) s))"
proof (cases "signal = ChecksSignal InfraDown")
  case True
  have "I (snd (and_then (mergeWith deps InfraDown (ml_pr st)) f s))" if "\<And>x. keeps I (f x)"
    for f :: "merge_outcome option \<Rightarrow> ('w, merge_poll_decision) loop_run"
    using admin_merges [of "ml_pr st" s] assms True that unfolding keeps_def and_then_def
    by (auto split: prod.splits eff_result.splits)
  moreover have "keeps I (case outcome of Some (Merged n) \<Rightarrow> m | _ \<Rightarrow> m')"
    if "keeps I m" "keeps I m'" for outcome and m m' :: "('w, merge_poll_decision) loop_run"
    using that by (auto split: option.splits merge_outcome.splits)
  ultimately show ?thesis using True by (simp add: adminMergeNode_def settles keep_rules)
next
  case False
  have "keeps I (dispatchPollAction deps st (POLL_ACTION signal))"
    using False by (cases signal rule: POLL_ACTION.cases)
      (simp_all add: remediateNode_def waitNode_def settles submits sleeps keep_rules)
  then show ?thesis using assms(1) by (rule keepsD)
qed

lemma resolveMerge_keeps: "keeps I (resolveMerge deps st)"
proof -
  have "I s \<Longrightarrow> d = deps \<Longrightarrow> I (snd (resolveMerge d st s))" for d and st s
  proof (induction d st s rule: resolveMerge.induct)
    case (1 d st s)
    obtain look s1 where look: "perform (cd_classifyChecks deps (ml_pr st)) ChecksClassified s = (look, s1)" by fastforce
    note looked = looks [OF "1.prems"(1) look]
    show ?case
    proof (cases look)
      case (Succeeds signal)
      obtain out s2 where step: "dispatchPollAction deps st (POLL_ACTION signal) s1 = (out, s2)" by fastforce
      have s2: "I s2" using dispatch_keeps [of s1 signal st] looked Succeeds step by simp
      show ?thesis
      proof (cases "\<exists>st'. out = Succeeds (ContinueDecision st')")
        case True
        then obtain st' where out: "out = Succeeds (ContinueDecision st')" by blast
        note IH = "1.IH" [unfolded "1.prems"(2), OF look [unfolded Succeeds, symmetric] refl step [unfolded out, symmetric] refl refl s2 refl]
        show ?thesis using IH by (simp add: "1.prems"(2) resolveMerge.simps [of deps st s] look step out Succeeds)
      next
        case False
        then show ?thesis using s2
          by (auto simp: "1.prems"(2) resolveMerge.simps [of deps st s] look step Succeeds split: eff_result.splits merge_poll_decision.splits)
      qed
    qed (use looked in \<open>simp_all add: "1.prems"(2) resolveMerge.simps [of deps st s] look\<close>)
  qed
  then show ?thesis by (simp add: keeps_def)
qed

lemma resolveTicket_keeps: "keeps I (resolveTicket deps t)"
  unfolding resolveTicket_def transition_def
  by (intro keep_rules emits submits polls resolves arms resolveMerge_keeps settles)

lemma selection_keeps: "keeps I (selectReadyExcluding lib st)"
  unfolding selectReadyExcluding_def by (intro keep_rules)

lemma drainStep_keeps: "keeps I (drainStep fuel lib deps st)"
proof (induction fuel arbitrary: st)
  case (Suc fuel)
  show ?case unfolding drainStep.simps
    by (intro keep_rules selection_keeps resolveTicket_keeps loads Suc)
qed (simp add: keep_rules)

lemma controller_keeps: "keeps I (runLoopController fuel lib deps)"
  unfolding runLoopController_def drain_def by (intro keep_rules loads emits drainStep_keeps)

end

end
