(* ===== verification/LoopProps.thy ===== *)
theory LoopProps
  imports LoopController
begin

text \<open>
  What the loop controller guarantees: how a pull request is resolved, which tickets are run and
  how often, that the loop ends, and the epics it runs too early.
\<close>

subsection \<open>The merge protocol\<close>

definition moved :: "string \<Rightarrow> ticket_loop_state \<Rightarrow> loop_call" where
  "moved ticketId st = Emitted (LoopNodeTransition ticketId st)"

definition landed :: "merge_outcome option \<Rightarrow> bool" where
  "landed outcome \<longleftrightarrow> (case outcome of Some (Merged n) \<Rightarrow> True | _ \<Rightarrow> False)"

text \<open>
  The abstract protocol of one pull request: the calls from the first look at the checks to the
  resolution, with the polls and remediations that are still allowed.
\<close>

inductive merge_protocol ::
  "string \<Rightarrow> submit_run_input \<Rightarrow> nat \<Rightarrow> nat \<Rightarrow> loop_call list \<Rightarrow> node_resolution \<Rightarrow> bool"
  for ticket remediation where
  merged: "merge_protocol ticket remediation p r [ChecksClassified MergedSignal, moved ticket TicketPassed] PASSED"
| admin_merged: "landed outcome \<Longrightarrow> merge_protocol ticket remediation p r
    [ChecksClassified (ChecksSignal InfraDown), MergeAsked InfraDown outcome, moved ticket TicketPassed] PASSED"
| admin_blocked: "\<not> landed outcome \<Longrightarrow> merge_protocol ticket remediation p r
    [ChecksClassified (ChecksSignal InfraDown), MergeAsked InfraDown outcome, moved ticket TicketBlocked] BLOCKED"
| remediate: "merge_protocol ticket remediation p r calls resolution \<Longrightarrow> merge_protocol ticket remediation p (Suc r)
    (ChecksClassified (ChecksSignal Fixable) # RunSubmitted remediation # calls) resolution"
| remediations_used: "merge_protocol ticket remediation p 0
    [ChecksClassified (ChecksSignal Fixable), moved ticket TicketBlocked] BLOCKED"
| wait: "merge_protocol ticket remediation p r calls resolution \<Longrightarrow> merge_protocol ticket remediation (Suc p) r
    (ChecksClassified (ChecksSignal Indeterminate) # Slept MERGE_POLL_INTERVAL_MS # calls) resolution"
| polls_used: "merge_protocol ticket remediation 0 r
    [ChecksClassified (ChecksSignal Indeterminate), moved ticket TicketBlocked] BLOCKED"

lemmas merge_protocol_ends = merged admin_merged admin_blocked remediations_used polls_used

lemma perform_Succeeds:
  "perform f call s = (Succeeds x, s') \<Longrightarrow> lw_calls s' = lw_calls s @ [call x]"
  by (auto simp: perform_def split: prod.splits sum.splits)

lemma passNode_calls: "passNode deps ticket s = (Succeeds PASSED, s') \<Longrightarrow> lw_calls s' = lw_calls s @ [moved ticket TicketPassed]"
  by (auto simp: loop_effects moved_def)

lemma dispatch_done:
  assumes "dispatchPollAction deps st (POLL_ACTION signal) s = (Succeeds (DoneDecision resolution), s')"
    and "remediation = remediation_input st"
  shows "\<exists>calls. lw_calls s' = lw_calls s @ calls \<and>
    merge_protocol (ml_ticketId st) remediation (cd_maxMergePolls deps - ml_mergePolls st)
      (cd_maxRemediationAttempts deps - ml_remediationAttempts st) (ChecksClassified signal # calls) resolution"
  using assms
  by (cases signal rule: POLL_ACTION.cases)
     (auto simp: loop_effects landed_def simp flip: moved_def intro!: merge_protocol_ends
       split: if_splits sum.splits prod.splits option.splits merge_outcome.splits)

lemma dispatch_goes_on:
  assumes "dispatchPollAction deps st (POLL_ACTION signal) s = (Succeeds (ContinueDecision st'), s')"
    and "merge_protocol (ml_ticketId st') (remediation_input st) (cd_maxMergePolls deps - ml_mergePolls st')
      (cd_maxRemediationAttempts deps - ml_remediationAttempts st') calls resolution"
  shows "\<exists>before. lw_calls s' = lw_calls s @ before \<and> ml_ticketId st' = ml_ticketId st \<and>
    remediation_input st' = remediation_input st \<and>
    merge_protocol (ml_ticketId st) (remediation_input st) (cd_maxMergePolls deps - ml_mergePolls st)
      (cd_maxRemediationAttempts deps - ml_remediationAttempts st) (ChecksClassified signal # before @ calls) resolution"
proof -
  consider (remediation) "signal = ChecksSignal Fixable" "ml_remediationAttempts st < cd_maxRemediationAttempts deps"
      "st' = st\<lparr>ml_remediationAttempts := ml_remediationAttempts st + 1\<rparr>"
    | (waiting) "signal = ChecksSignal Indeterminate" "ml_mergePolls st < cd_maxMergePolls deps"
      "st' = st\<lparr>ml_mergePolls := ml_mergePolls st + 1\<rparr>"
    using dispatch_continues [OF assms(1)] by (cases signal rule: POLL_ACTION.cases) auto
  then show ?thesis
  proof cases
    case remediation
    then have left: "cd_maxRemediationAttempts deps - ml_remediationAttempts st =
        Suc (cd_maxRemediationAttempts deps - ml_remediationAttempts st')" by simp
    have calls: "lw_calls s' = lw_calls s @ [RunSubmitted (remediation_input st)]"
      using assms(1) remediation by (auto simp: loop_effects split: if_splits sum.splits prod.splits)
    show ?thesis
      using assms(2) calls remediation unfolding left
      by (intro exI [of _ "[RunSubmitted (remediation_input st)]"])
         (auto simp: remediation_input_def intro: merge_protocol.remediate)
  next
    case waiting
    then have left: "cd_maxMergePolls deps - ml_mergePolls st = Suc (cd_maxMergePolls deps - ml_mergePolls st')" by simp
    have calls: "lw_calls s' = lw_calls s @ [Slept MERGE_POLL_INTERVAL_MS]"
      using assms(1) waiting by (auto simp: loop_effects split: if_splits)
    show ?thesis
      using assms(2) calls waiting unfolding left
      by (intro exI [of _ "[Slept MERGE_POLL_INTERVAL_MS]"])
         (auto simp: remediation_input_def intro: merge_protocol.wait)
  qed
qed

lemma resolveMerge_follows:
  "resolveMerge deps st s = (Succeeds resolution, s') \<Longrightarrow>
   \<exists>calls. lw_calls s' = lw_calls s @ calls \<and>
     merge_protocol (ml_ticketId st) (remediation_input st) (cd_maxMergePolls deps - ml_mergePolls st)
       (cd_maxRemediationAttempts deps - ml_remediationAttempts st) calls resolution"
proof (induction deps st s rule: resolveMerge.induct)
  case (1 deps st s)
  note run = "1.prems" [unfolded resolveMerge.simps [of deps st s]]
  obtain signal s1 where look: "perform (cd_classifyChecks deps (ml_pr st)) ChecksClassified s = (Succeeds signal, s1)"
    using run by (auto split: prod.splits eff_result.splits)
  have s1: "lw_calls s1 = lw_calls s @ [ChecksClassified signal]" by (rule perform_Succeeds [OF look])
  obtain decision s2 where step: "dispatchPollAction deps st (POLL_ACTION signal) s1 = (Succeeds decision, s2)"
    using run look by (auto split: prod.splits eff_result.splits)
  show ?case
  proof (cases decision)
    case (DoneDecision res)
    then have "res = resolution" "s2 = s'" using run look step by simp_all
    with dispatch_done [OF step [unfolded DoneDecision] refl] s1 show ?thesis by force
  next
    case (ContinueDecision st')
    then have rest: "resolveMerge deps st' s2 = (Succeeds resolution, s')" using run look step by simp
    from step [unfolded ContinueDecision] have next_state: "ml_ticketId st' = ml_ticketId st" "remediation_input st' = remediation_input st"
      using dispatch_continues by (fastforce simp: remediation_input_def)+
    obtain calls where calls: "lw_calls s' = lw_calls s2 @ calls"
      "merge_protocol (ml_ticketId st') (remediation_input st) (cd_maxMergePolls deps - ml_mergePolls st')
         (cd_maxRemediationAttempts deps - ml_remediationAttempts st') calls resolution"
      using "1.IH" [OF look [symmetric] refl step [symmetric] refl, of st'] rest ContinueDecision next_state by auto
    from dispatch_goes_on [OF step [unfolded ContinueDecision] calls(2)] s1 calls(1) show ?thesis by force
  qed
qed


lemma resolveMerge_returns: "fst (resolveMerge deps st s) \<noteq> Unfinished"
proof (induction deps st s rule: resolveMerge.induct)
  case (1 deps st s)
  have perform: "fst (perform f call s) \<noteq> Unfinished" for f call and s :: "'a loop_world"
    by (simp add: perform_def split: prod.splits sum.splits)
  have dispatch: "fst (dispatchPollAction deps st action s) \<noteq> Unfinished" for action and s :: "'a loop_world"
    by (cases action) (auto simp: loop_effects split: prod.splits sum.splits option.splits merge_outcome.splits)
  show ?case
    unfolding resolveMerge.simps [of deps st s]
    using perform [of "cd_classifyChecks deps (ml_pr st)" ChecksClassified s] dispatch "1.IH"
    by (auto split: prod.splits eff_result.splits merge_poll_decision.splits) (metis fst_conv)+
qed

fun submitted :: "loop_call \<Rightarrow> bool" where
  "submitted (RunSubmitted input) = True" | "submitted c = False"

fun slept :: "loop_call \<Rightarrow> bool" where
  "slept (Slept ms) = True" | "slept c = False"

lemma protocol_bounds:
  "merge_protocol ticket remediation p r calls resolution \<Longrightarrow>
     length (filter submitted calls) \<le> r \<and> length (filter slept calls) \<le> p \<and>
     (\<forall>input. RunSubmitted input \<in> set calls \<longrightarrow> input = remediation)"
  by (induction rule: merge_protocol.induct) (auto simp: moved_def)

lemma protocol_merges:
  "merge_protocol ticket remediation p r calls resolution \<Longrightarrow>
     (MergeAsked c outcome \<in> set calls \<longrightarrow> c = InfraDown \<and> ChecksClassified (ChecksSignal InfraDown) \<in> set calls) \<and>
     (resolution = PASSED \<longleftrightarrow> ChecksClassified MergedSignal \<in> set calls \<or>
        (\<exists>outcome. landed outcome \<and> MergeAsked InfraDown outcome \<in> set calls))"
  by (induction rule: merge_protocol.induct) (auto simp: moved_def)

text \<open>
  C16: Resolving a pull request always returns and makes the calls of the merge protocol: it looks
  at the checks, and then waits, submits a remediation of the run's branch, asks for an admin merge
  or ends. It submits and waits no more often than configured, asks for a merge only when
  the checks were classified as an outage, and passes the ticket exactly when the pull request was
  seen merged or the admin merge landed.
\<close>

theorem merge_protocol_followed:
  assumes "resolveMerge deps st s = (out, s')"
    and "polls = cd_maxMergePolls deps - ml_mergePolls st"
    and "remediations = cd_maxRemediationAttempts deps - ml_remediationAttempts st"
  shows "out \<noteq> Unfinished \<and> (\<forall>resolution. out = Succeeds resolution \<longrightarrow>
    (\<exists>calls. lw_calls s' = lw_calls s @ calls
      \<and> merge_protocol (ml_ticketId st) (remediation_input st) polls remediations calls resolution
      \<and> length (filter submitted calls) \<le> remediations \<and> length (filter slept calls) \<le> polls
      \<and> (\<forall>c outcome. MergeAsked c outcome \<in> set calls \<longrightarrow>
            c = InfraDown \<and> ChecksClassified (ChecksSignal InfraDown) \<in> set calls)
      \<and> (resolution = PASSED \<longleftrightarrow> ChecksClassified MergedSignal \<in> set calls \<or>
            (\<exists>outcome. landed outcome \<and> MergeAsked InfraDown outcome \<in> set calls))))"
proof (intro conjI allI impI)
  show "out \<noteq> Unfinished" using resolveMerge_returns [of deps st s] assms(1) by simp
  fix resolution assume "out = Succeeds resolution"
  then obtain calls where calls: "lw_calls s' = lw_calls s @ calls"
    "merge_protocol (ml_ticketId st) (remediation_input st) polls remediations calls resolution"
    using resolveMerge_follows assms by blast
  with protocol_bounds [OF calls(2)] protocol_merges [OF calls(2)]
  show "\<exists>calls. lw_calls s' = lw_calls s @ calls
      \<and> merge_protocol (ml_ticketId st) (remediation_input st) polls remediations calls resolution
      \<and> length (filter submitted calls) \<le> remediations \<and> length (filter slept calls) \<le> polls
      \<and> (\<forall>c outcome. MergeAsked c outcome \<in> set calls \<longrightarrow>
            c = InfraDown \<and> ChecksClassified (ChecksSignal InfraDown) \<in> set calls)
      \<and> (resolution = PASSED \<longleftrightarrow> ChecksClassified MergedSignal \<in> set calls \<or>
            (\<exists>outcome. landed outcome \<and> MergeAsked InfraDown outcome \<in> set calls))"
    by (intro exI [of _ calls]) blast
qed

text \<open>Injected effects to run the loop with: the world is what the checks say, in order.\<close>

definition sample_pr :: open_pr where
  "sample_pr = \<lparr>op_headRefName = ''moka/run/1'', op_number = 1, op_url = []\<rparr>"

definition sample_deps :: "ticket list \<Rightarrow> terminal_phase \<Rightarrow> merge_poll_signal list controller_deps" where
  "sample_deps tasks phase = \<lparr>cd_classifyChecks = (\<lambda>pr w. case w of [] \<Rightarrow> (Inr MergedSignal, []) | x # xs \<Rightarrow> (Inr x, xs)),
     cd_emit = (\<lambda>event w. w), cd_loadGraph = Pair (Inr tasks), cd_maxMergePolls = 2, cd_maxRemediationAttempts = 1,
     cd_merge = (\<lambda>c pr. Pair (Inr (if c = InfraDown then Some (Merged 1) else None))),
     cd_pollPhase = (\<lambda>name run. Pair (Inr phase)), cd_projectId = ''p'', cd_refreshBacklog = Pair (Inr tasks),
     cd_resolvePr = (\<lambda>run. Pair (Inr (Some sample_pr))), cd_rootId = None, cd_sleep = (\<lambda>ms w. w), cd_strategy = Dfs,
     cd_submitRun = (\<lambda>input. Pair (Inr \<lparr>sm_runId = ''1'', sm_workflowName = ''w''\<rparr>))\<rparr>"

definition sample_merge :: merge_loop_state where
  "sample_merge = \<lparr>ml_mergePolls = 0, ml_pr = sample_pr, ml_remediationAttempts = 0, ml_runId = ''1'', ml_ticketId = ''t''\<rparr>"

lemma merge_protocol_followed_witness:
  "\<exists>s'. resolveMerge (sample_deps [] Succeeded) sample_merge
       \<lparr>lw_world = [ChecksSignal Fixable, ChecksSignal Indeterminate, ChecksSignal Fixable], lw_calls = []\<rparr> =
       (Succeeds BLOCKED, s') \<and>
     ChecksClassified MergedSignal \<notin> set (lw_calls s') \<and> length (filter submitted (lw_calls s')) \<le> 1"
proof -
  let ?s = "\<lparr>lw_world = [ChecksSignal Fixable, ChecksSignal Indeterminate, ChecksSignal Fixable], lw_calls = []\<rparr>"
  have "fst (resolveMerge (sample_deps [] Succeeded) sample_merge ?s) = Succeeds BLOCKED" by code_simp
  then obtain s' where run: "resolveMerge (sample_deps [] Succeeded) sample_merge ?s = (Succeeds BLOCKED, s')"
    by (cases "resolveMerge (sample_deps [] Succeeded) sample_merge ?s") simp
  show ?thesis
    using merge_protocol_followed [OF run refl refl] run by (auto simp: sample_deps_def sample_merge_def)
qed


subsection \<open>The calls of one ticket\<close>

fun state_of :: "node_resolution \<Rightarrow> ticket_loop_state" where
  "state_of PASSED = TicketPassed" | "state_of BLOCKED = TicketBlocked"

text \<open>Calls that neither start nor settle a ticket nor load the backlog.\<close>

fun quiet_call :: "loop_call \<Rightarrow> bool" where
  "quiet_call (Emitted (LoopNodeTransition t st)) \<longleftrightarrow> st = Merging \<or> st = Queued"
| "quiet_call (TasksLoaded tasks) \<longleftrightarrow> False"
| "quiet_call c \<longleftrightarrow> True"

lemma quiet_moved [simp]: "quiet_call (moved t st) \<longleftrightarrow> st = Merging \<or> st = Queued"
  by (simp add: moved_def)

definition grown :: "loop_call list \<Rightarrow> 'w loop_world \<Rightarrow> bool" where
  "grown cs s \<longleftrightarrow> (\<exists>qs. lw_calls s = cs @ qs \<and> (\<forall>q \<in> set qs. quiet_call q))"

definition resolved :: "loop_call list \<Rightarrow> string \<Rightarrow> node_resolution \<Rightarrow> 'w loop_world \<Rightarrow> bool" where
  "resolved cs ticket resolution s \<longleftrightarrow>
     (\<exists>qs. lw_calls s = cs @ qs @ [moved ticket (state_of resolution)] \<and> (\<forall>q \<in> set qs. quiet_call q))"

lemma eff_perform [eff_rules]:
  "(\<And>x. quiet_call (call x)) \<Longrightarrow> eff_spec tot (grown cs) (perform f call) (\<lambda>x. grown cs) (grown cs)"
  by (auto simp: eff_spec_def perform_def grown_def split: prod.splits sum.splits)

lemma eff_perform_unit [eff_rules]:
  "quiet_call call \<Longrightarrow> eff_spec tot (grown cs) (perform_unit f call) (\<lambda>x. grown cs) (grown cs)"
  by (auto simp: eff_spec_def perform_unit_def grown_def)

lemma eff_blockNode: "eff_spec tot (grown cs) (blockNode deps t) (resolved cs t) (grown cs)"
  by (auto simp: eff_spec_def loop_effects grown_def resolved_def moved_def)

lemma eff_passNode: "eff_spec tot (grown cs) (passNode deps t) (resolved cs t) (grown cs)"
  by (auto simp: eff_spec_def loop_effects grown_def resolved_def moved_def)

definition decided :: "loop_call list \<Rightarrow> string \<Rightarrow> merge_poll_decision \<Rightarrow> 'w loop_world \<Rightarrow> bool" where
  "decided cs t decision s \<longleftrightarrow> (case decision of
     DoneDecision resolution \<Rightarrow> resolved cs t resolution s
   | ContinueDecision st \<Rightarrow> grown cs s \<and> ml_ticketId st = t)"

lemma eff_dispatch: "eff_spec tot (grown cs) (dispatchPollAction deps st action) (decided cs (ml_ticketId st)) (grown cs)"
proof -
  have settle: "eff_spec tot (grown cs) (and_then (blockNode deps (ml_ticketId st)) (\<lambda>r. succeed (DoneDecision r)))
      (decided cs (ml_ticketId st)) (grown cs)"
    "eff_spec tot (grown cs) (and_then (passNode deps (ml_ticketId st)) (\<lambda>r. succeed (DoneDecision r)))
      (decided cs (ml_ticketId st)) (grown cs)"
    by (rule eff_spec_and_then [OF eff_blockNode] eff_spec_and_then [OF eff_passNode],
        rule eff_spec_succeed, simp add: decided_def)+
  have goes_on: "eff_spec tot (grown cs) (succeed (ContinueDecision st')) (decided cs (ml_ticketId st)) (grown cs)"
    if "ml_ticketId st' = ml_ticketId st" for st'
    using that by (intro eff_spec_succeed) (simp add: decided_def)
  show ?thesis
  proof (cases action)
    case RemediateAction
    show ?thesis unfolding RemediateAction dispatchPollAction.simps remediateNode_def submit_def
      by (intro eff_spec_if settle(1) eff_spec_and_then [OF eff_perform goes_on]) simp_all
  next
    case WaitAction
    show ?thesis unfolding WaitAction dispatchPollAction.simps waitNode_def
      by (intro eff_spec_if settle(1) eff_spec_and_then [OF eff_perform_unit goes_on]) simp_all
  next
    case AdminMergeAction
    show ?thesis unfolding AdminMergeAction dispatchPollAction.simps adminMergeNode_def mergeWith_def
      by (intro eff_spec_and_then [OF eff_perform]) (auto intro: settle split: option.splits merge_outcome.splits)
  qed (simp add: settle(2))
qed

lemma eff_resolveMerge:
  "grown cs s \<Longrightarrow> (case resolveMerge deps st s of
     (Succeeds r, s') \<Rightarrow> resolved cs (ml_ticketId st) r s' | (Fails e, s') \<Rightarrow> grown cs s' | (Unfinished, s') \<Rightarrow> False)"
proof (induction deps st s rule: resolveMerge.induct)
  case (1 deps st s)
  obtain look s1 where look: "perform (cd_classifyChecks deps (ml_pr st)) ChecksClassified s = (look, s1)" by fastforce
  have s1: "grown cs s1" and looked: "look \<noteq> Unfinished"
    using eff_specD [OF eff_perform [of ChecksClassified True cs "cd_classifyChecks deps (ml_pr st)"] "1.prems"] look
    by (auto split: eff_result.splits)
  show ?case
  proof (cases look)
    case (Succeeds signal)
    obtain out s2 where step: "dispatchPollAction deps st (POLL_ACTION signal) s1 = (out, s2)" by fastforce
    note stepped = eff_specD [OF eff_dispatch [of True cs deps st "POLL_ACTION signal"] s1, unfolded step]
    show ?thesis
    proof (cases "\<exists>st'. out = Succeeds (ContinueDecision st')")
      case True
      then obtain st' where out: "out = Succeeds (ContinueDecision st')" by blast
      have s2: "grown cs s2" and ticket: "ml_ticketId st' = ml_ticketId st" using stepped out by (auto simp: decided_def)
      show ?thesis
        using "1.IH" [OF look [unfolded Succeeds, symmetric] refl step [unfolded out, symmetric] refl refl s2, unfolded ticket]
        by (simp add: resolveMerge.simps [of deps st s] look step out Succeeds)
    next
      case False
      then show ?thesis
        using stepped by (auto simp: resolveMerge.simps [of deps st s] look step Succeeds decided_def
            split: eff_result.splits merge_poll_decision.splits)
    qed
  qed (use s1 looked in \<open>simp_all add: resolveMerge.simps [of deps st s] look\<close>)
qed

lemma resolveTicket_calls:
  "case resolveTicket deps ticket s of
     (Succeeds r, s') \<Rightarrow> resolved (lw_calls s @ [moved ticket Running]) ticket r s'
   | (Fails e, s') \<Rightarrow> grown (lw_calls s @ [moved ticket Running]) s' | (Unfinished, s') \<Rightarrow> False"
proof -
  let ?cs = "lw_calls s @ [moved ticket Running]"
  have merging: "eff_spec True (grown ?cs) (resolveMerge deps st) (resolved ?cs (ml_ticketId st)) (grown ?cs)" for st
    using eff_resolveMerge [where cs = ?cs and deps = deps and st = st] unfolding eff_spec_def simp_thms by blast
  have "eff_spec True (\<lambda>s'. s' = s) (transition deps ticket Running) (\<lambda>x. grown ?cs) (grown ?cs)"
    by (simp add: eff_spec_def loop_effects grown_def moved_def)
  then have "eff_spec True (\<lambda>s'. s' = s) (resolveTicket deps ticket) (resolved ?cs ticket) (grown ?cs)"
    unfolding resolveTicket_def submit_def mergeWith_def
  proof (rule eff_spec_and_then)
    let ?st = "\<lambda>pr run. \<lparr>ml_mergePolls = 0, ml_pr = pr, ml_remediationAttempts = 0, ml_runId = sm_runId run, ml_ticketId = ticket\<rparr>"
    have merge: "eff_spec True (grown ?cs) (and_then (transition deps ticket Merging) (\<lambda>_.
        and_then (perform (cd_merge deps Fixable pr) (MergeAsked Fixable)) (\<lambda>_. resolveMerge deps (?st pr run))))
        (resolved ?cs ticket) (grown ?cs)" for pr run
      unfolding transition_def emit_def
      by (rule eff_spec_and_then [OF eff_perform_unit eff_spec_and_then [OF eff_perform]])
         (use merging [of "?st pr run"] in simp_all)
    show "eff_spec True (grown ?cs) (and_then
        (perform (cd_submitRun deps \<lparr>sr_deliveryMode = CreateNewPr, sr_headBranch = None, sr_repositorySha = None,
            sr_ticketId = ticket\<rparr>) (\<lambda>r. RunSubmitted \<lparr>sr_deliveryMode = CreateNewPr, sr_headBranch = None,
            sr_repositorySha = None, sr_ticketId = ticket\<rparr>)) (\<lambda>run.
       and_then (perform (cd_pollPhase deps (sm_workflowName run) (sm_runId run)) (\<lambda>phase. PhasePolled (sm_runId run))) (\<lambda>phase.
       if phase \<noteq> Succeeded then blockNode deps ticket
       else and_then (perform (cd_resolvePr deps (sm_runId run)) (\<lambda>r. PrResolved (sm_runId run))) (\<lambda>resolution.
         case resolution of None \<Rightarrow> blockNode deps ticket
         | Some pr \<Rightarrow> and_then (transition deps ticket Merging) (\<lambda>_.
             and_then (perform (cd_merge deps Fixable pr) (MergeAsked Fixable)) (\<lambda>_. resolveMerge deps (?st pr run)))))))
       (resolved ?cs ticket) (grown ?cs)" for x
      by (intro eff_spec_and_then [OF eff_perform] eff_spec_if eff_blockNode)
         (auto intro: eff_blockNode merge split: option.splits)
  qed
  from eff_specD [OF this refl] show ?thesis by (auto split: prod.splits eff_result.splits)
qed


subsection \<open>Which ticket is taken\<close>

definition sub_view :: "ticket_graph \<Rightarrow> ticket_graph \<Rightarrow> bool" where
  "sub_view sub graph \<longleftrightarrow> view_ok sub \<and> tg_dependencyGraph sub = tg_dependencyGraph graph \<and>
     snd ` set (tg_tasksById sub) \<subseteq> snd ` set (tg_tasksById graph)"

lemma overlaid_view:
  assumes "view_ok graph" "distinct (map tk_id tasks)"
  shows "view_ok (overlaidGraphFromTasks graph tasks)"
    and "snd ` set (tg_tasksById (overlaidGraphFromTasks graph tasks)) = set tasks"
  using assms by (auto simp: view_ok_def overlaidGraphFromTasks_def indexTasksById_distinct comp_def image_image)

lemma distinct_view_ids: "view_ok graph \<Longrightarrow> distinct (map tk_id (map snd (tg_tasksById graph)))"
proof -
  assume ok: "view_ok graph"
  then have eq: "map tk_id (map snd (tg_tasksById graph)) = map fst (tg_tasksById graph)"
    by (auto simp: view_ok_def)
  show ?thesis unfolding eq using ok by (simp add: view_ok_def)
qed

lemma selectReadyChain_ready:
  assumes "selectReadyChain depth collate graph st = Some (Some t)" "sub_view graph full" "view_ok full"
  shows "t \<in> snd ` set (tg_tasksById full) \<and> tk_id t \<notin> set (dr_passed st) \<union> set (dr_blocked st) \<and>
    tk_status t = TicketToDo \<and>
    (\<forall>d \<in> set (dependencyPredecessorIds (tg_dependencyGraph full) (tk_id t)).
       \<exists>u \<in> snd ` set (tg_tasksById full). tk_id u = d \<and> tk_status u = TicketDone)"
  using assms
proof (induction depth collate graph st rule: selectReadyChain.induct)
  case (1 depth collate graph st)
  let ?options = "\<lparr>so_includeParents = False, so_rootId = dr_rootId st, so_strategy = Some (dr_strategy st)\<rparr>"
  have ok: "view_ok graph" using "1.prems"(2) by (simp add: sub_view_def)
  obtain candidate where candidate: "selectNextTicket depth collate graph ?options = Some (Some candidate)"
    using "1.prems"(1) by (auto simp: selectReadyChain.simps [of depth collate graph st] split: option.splits)
  then obtain ready where ready: "selectReadyTickets depth collate graph ?options = Some ready" "candidate \<in> set ready"
    by (auto simp: selectNextTicket_def dest: js_nth_in_set)
  show ?case
  proof (cases "tk_id candidate \<in> set (dr_passed st) \<or> tk_id candidate \<in> set (dr_blocked st)")
    case True
    let ?remaining = "filter (\<lambda>task. tk_id task \<noteq> tk_id candidate) (map snd (tg_tasksById graph))"
    have less: "length ?remaining \<noteq> length (tg_tasksById graph)" and
      rest: "selectReadyChain depth collate (overlaidGraphFromTasks graph ?remaining) st = Some (Some t)"
      using "1.prems"(1) candidate True
      by (auto simp: selectReadyChain.simps [of depth collate graph st] Let_def split: if_splits)
    have "distinct (map tk_id ?remaining)" using distinct_view_ids [OF ok] by (rule distinct_map_filter)
    from overlaid_view [OF ok this] have "sub_view (overlaidGraphFromTasks graph ?remaining) full"
      using "1.prems"(2) by (auto simp: sub_view_def overlaidGraphFromTasks_def)
    from "1.IH" [OF candidate refl True refl less rest this "1.prems"(3)] show ?thesis .
  next
    case False
    then have t: "t = candidate"
      using "1.prems"(1) candidate by (simp add: selectReadyChain.simps [of depth collate graph st])
    have chosen: "t \<in> snd ` set (tg_tasksById graph)" "isReadyTicket collate graph t ?options"
      using selectReadyTickets_exact(2) [OF ready(1) ok] ready(2) t by auto
    have done_deps: "\<exists>u \<in> snd ` set (tg_tasksById full). tk_id u = d \<and> tk_status u = TicketDone"
      if "d \<in> set (dependencyPredecessorIds (tg_dependencyGraph full) (tk_id t))" for d
    proof -
      have "d \<in> set (predecessorIds collate graph (tk_id t))"
        using that "1.prems"(2) by (simp add: predecessorIds_def sub_view_def)
      then obtain u where "map_of (tg_tasksById graph) d = Some u" "tk_status u = TicketDone"
        using chosen(2) by (auto simp: isReadyTicket_def)
      then show ?thesis using map_of_view [OF ok] "1.prems"(2) by (fastforce simp: sub_view_def)
    qed
    show ?thesis using chosen False t done_deps "1.prems"(2) by (auto simp: isReadyTicket_def sub_view_def)
  qed
qed

definition library_ok :: "'k::linorder graph_library \<Rightarrow> bool" where
  "library_ok lib \<longleftrightarrow> graphlib_spec (gl_build lib)"

text \<open>A ticket that may be started: to do, with every dependency in the backlog done or passed.\<close>

definition startable :: "ticket list \<Rightarrow> string set \<Rightarrow> ticket \<Rightarrow> bool" where
  "startable tasks passed t \<longleftrightarrow> t \<in> set tasks \<and> tk_status t = TicketToDo \<and>
     (\<forall>u \<in> set tasks. tk_id u \<in> set (tk_dependencies t) \<longrightarrow> tk_status u = TicketDone \<or> tk_id u \<in> passed)"

lemma overlayGraph_view:
  assumes "view_ok graph"
  shows "view_ok (overlayGraph graph passed)" "tg_dependencyGraph (overlayGraph graph passed) = tg_dependencyGraph graph"
    and "snd ` set (tg_tasksById (overlayGraph graph passed)) =
      (\<lambda>task. if tk_id task \<in> set passed then task\<lparr>tk_status := TicketDone\<rparr> else task) ` snd ` set (tg_tasksById graph)"
proof -
  let ?mark = "\<lambda>task. if tk_id task \<in> set passed then task\<lparr>tk_status := TicketDone\<rparr> else task"
  have "map tk_id (map ?mark (map snd (tg_tasksById graph))) = map tk_id (map snd (tg_tasksById graph))" by simp
  then have "distinct (map tk_id (map ?mark (map snd (tg_tasksById graph))))"
    using distinct_view_ids [OF assms] by metis
  from overlaid_view [OF assms this]
  show "view_ok (overlayGraph graph passed)"
    "snd ` set (tg_tasksById (overlayGraph graph passed)) = ?mark ` snd ` set (tg_tasksById graph)"
    using assms by (auto simp: overlayGraph_def image_image)
  show "tg_dependencyGraph (overlayGraph graph passed) = tg_dependencyGraph graph"
    by (simp add: overlayGraph_def overlaidGraphFromTasks_def)
qed

lemma selectReadyExcluding_startable:
  assumes "library_ok lib" "distinct (map tk_id (dr_tasks st))"
    and "selectReadyExcluding lib st s = (Succeeds (Some t), s')"
  shows "tk_id t \<notin> set (dr_passed st) \<union> set (dr_blocked st) \<and> startable (dr_tasks st) (set (dr_passed st)) t"
proof -
  obtain graph where built: "buildGraph lib (dr_tasks st) = Inr graph"
    and chain: "selectReadyChain (gl_depth lib) (gl_collate lib) (overlayGraph graph (dr_passed st)) st = Some (Some t)"
    using assms(3) by (auto simp: selectReadyExcluding_def and_then_def from_sum_def fail_eff_def succeed_def
        from_option_def unfinished_def split: sum.splits option.splits)
  have graph: "graph = buildUncheckedTicketGraph (gl_build lib) (gl_collate lib) (dr_tasks st)"
    using built by (simp add: buildGraph_def buildTicketGraph_def Let_def split: if_splits)
  note facts = graph_built [OF assms(1) [unfolded library_ok_def] assms(2) graph]
  let ?over = "overlayGraph graph (dr_passed st)"
  note over = overlayGraph_view [OF facts(1), of "dr_passed st", unfolded facts(2)]
  have "sub_view ?over ?over" using over(1) by (simp add: sub_view_def)
  note ready = selectReadyChain_ready [OF chain this over(1), unfolded over(2,3)]
  have t: "t \<in> set (dr_tasks st)" using ready by auto
  have deps: "tk_status u = TicketDone \<or> tk_id u \<in> set (dr_passed st)"
    if u: "u \<in> set (dr_tasks st)" "tk_id u \<in> set (tk_dependencies t)" for u
  proof -
    have "tk_id u \<in> set (dependencyPredecessorIds (tg_dependencyGraph graph) (tk_id t))"
      unfolding facts(5) list_edges_def using t u by auto
    then obtain v where v: "v \<in> (\<lambda>task. if tk_id task \<in> set (dr_passed st) then task\<lparr>tk_status := TicketDone\<rparr> else task) `
        set (dr_tasks st)" "tk_id v = tk_id u" "tk_status v = TicketDone"
      using ready by blast
    then obtain w where w: "w \<in> set (dr_tasks st)" "v = (if tk_id w \<in> set (dr_passed st) then w\<lparr>tk_status := TicketDone\<rparr> else w)"
      by blast
    then have "tk_id w = tk_id u" using v(2) by (auto split: if_splits)
    then have "w = u" using assms(2) w(1) u(1) by (auto simp: distinct_map dest: inj_onD)
    then show ?thesis using v(3) w(2) by (auto split: if_splits)
  qed
  show ?thesis using ready t deps unfolding startable_def by blast
qed

subsection \<open>The history of a run\<close>

definition last_loaded :: "loop_call list \<Rightarrow> ticket list" where
  "last_loaded calls = foldl (\<lambda>tasks c. case c of TasksLoaded loaded \<Rightarrow> loaded | _ \<Rightarrow> tasks) [] calls"

definition moved_ids :: "ticket_loop_state \<Rightarrow> loop_call list \<Rightarrow> string set" where
  "moved_ids st calls = {t. moved t st \<in> set calls}"

text \<open>Every start in a history is of a ticket not started before that may be started then.\<close>

definition starts_ok :: "loop_call list \<Rightarrow> bool" where
  "starts_ok calls \<longleftrightarrow> (\<forall>before t after. calls = before @ moved t Running # after \<longrightarrow>
     t \<notin> moved_ids Running before \<and>
     (\<exists>task. tk_id task = t \<and> startable (last_loaded before) (moved_ids TicketPassed before) task))"

lemma last_loaded_append:
  "last_loaded (cs @ [c]) = (case c of TasksLoaded loaded \<Rightarrow> loaded | _ \<Rightarrow> last_loaded cs)"
  by (cases c) (simp_all add: last_loaded_def)

lemma moved_eq [simp]: "moved t a = moved u b \<longleftrightarrow> t = u \<and> a = b"
  by (simp add: moved_def)

lemma moved_ids_append [simp]: "moved_ids st (cs @ ds) = moved_ids st cs \<union> moved_ids st ds"
  by (auto simp: moved_ids_def)

lemma moved_ids_single: "moved_ids st [moved t st'] = (if st = st' then {t} else {})"
  by (auto simp: moved_ids_def)

lemma snoc_split:
  "cs @ [c] = before @ x # after \<longleftrightarrow> after = [] \<and> before = cs \<and> x = c \<or> (\<exists>rest. after = rest @ [c] \<and> cs = before @ x # rest)"
  by (cases after rule: rev_cases) auto

lemma starts_ok_append:
  "starts_ok (cs @ [c]) \<longleftrightarrow> starts_ok cs \<and> (\<forall>t. c = moved t Running \<longrightarrow> t \<notin> moved_ids Running cs \<and>
     (\<exists>task. tk_id task = t \<and> startable (last_loaded cs) (moved_ids TicketPassed cs) task))"
  unfolding starts_ok_def snoc_split by blast

lemma quiet_history:
  assumes "\<forall>q \<in> set qs. quiet_call q"
  shows "last_loaded (cs @ qs) = last_loaded cs \<and> (st \<in> {Running, TicketPassed, TicketBlocked} \<longrightarrow> moved_ids st qs = {})
    \<and> (starts_ok (cs @ qs) \<longleftrightarrow> starts_ok cs)"
  using assms
proof (induction qs rule: rev_induct)
  case (snoc q qs)
  have "starts_ok (cs @ qs @ [q]) \<longleftrightarrow> starts_ok (cs @ qs)"
    using snoc.prems starts_ok_append [of "cs @ qs" q] by auto
  moreover have "last_loaded (cs @ qs @ [q]) = last_loaded (cs @ qs)"
    using snoc.prems last_loaded_append [of "cs @ qs" q] by (cases q) auto
  moreover have "st \<in> {Running, TicketPassed, TicketBlocked} \<Longrightarrow> moved_ids st [q] = {}"
    using snoc.prems by (auto simp: moved_ids_def)
  ultimately show ?case using snoc by auto
qed (simp add: moved_ids_def)


definition history_ok :: "drain_state \<Rightarrow> loop_call list \<Rightarrow> bool" where
  "history_ok st calls \<longleftrightarrow> starts_ok calls \<and> last_loaded calls = dr_tasks st \<and> distinct (map tk_id (dr_tasks st)) \<and>
     set (dr_passed st) = moved_ids TicketPassed calls \<and> set (dr_blocked st) = moved_ids TicketBlocked calls \<and>
     moved_ids Running calls = set (dr_passed st) \<union> set (dr_blocked st) \<and>
     distinct (dr_passed st) \<and> distinct (dr_blocked st) \<and> set (dr_passed st) \<inter> set (dr_blocked st) = {}"

text \<open>What the injected loads return: backlogs with distinct ids, as the task store makes sure.\<close>

definition loads_ok :: "'w controller_deps \<Rightarrow> (ticket list \<Rightarrow> bool) \<Rightarrow> bool" where
  "loads_ok deps P \<longleftrightarrow> (\<forall>w tasks w'.
     (cd_loadGraph deps w = (Inr tasks, w') \<or> cd_refreshBacklog deps w = (Inr tasks, w')) \<longrightarrow> distinct (map tk_id tasks) \<and> P tasks)"

definition selection_returns ::
  "'k::linorder graph_library \<Rightarrow> 'w controller_deps \<Rightarrow> ticket list \<Rightarrow> bool" where
  "selection_returns lib deps tasks \<longleftrightarrow> (\<forall>graph st. buildGraph lib tasks = Inr graph \<and> dr_rootId st = cd_rootId deps \<and>
     dr_strategy st = cd_strategy deps \<longrightarrow>
     selectReadyChain (gl_depth lib) (gl_collate lib) (overlayGraph graph (dr_passed st)) st \<noteq> None)"

definition backlog_within :: "'k::linorder graph_library \<Rightarrow> 'w controller_deps \<Rightarrow> string set \<Rightarrow> ticket list \<Rightarrow> bool" where
  "backlog_within lib deps U tasks \<longleftrightarrow> tk_id ` set tasks \<subseteq> U \<and> selection_returns lib deps tasks"

definition tallied :: "loop_summary \<Rightarrow> loop_call list \<Rightarrow> bool" where
  "tallied summary calls \<longleftrightarrow> starts_ok calls \<and> ls_passed summary = card (moved_ids TicketPassed calls) \<and>
     ls_blocked summary = card (moved_ids TicketBlocked calls) \<and>
     moved_ids Running calls = moved_ids TicketPassed calls \<union> moved_ids TicketBlocked calls \<and>
     moved_ids TicketPassed calls \<inter> moved_ids TicketBlocked calls = {}"

lemma selectReadyExcluding_state: "snd (selectReadyExcluding lib st s) = s"
  by (auto simp: selectReadyExcluding_def and_then_def from_sum_def from_option_def succeed_def fail_eff_def
      unfinished_def split: sum.splits option.splits)

lemma selectReadyExcluding_returns:
  assumes "backlog_within lib deps U (dr_tasks st)" "dr_rootId st = cd_rootId deps" "dr_strategy st = cd_strategy deps"
  shows "fst (selectReadyExcluding lib st s) \<noteq> Unfinished"
proof (cases "buildGraph lib (dr_tasks st)")
  case (Inr graph)
  then obtain y where "selectReadyChain (gl_depth lib) (gl_collate lib) (overlayGraph graph (dr_passed st)) st = Some y"
    using assms unfolding backlog_within_def selection_returns_def by blast
  then show ?thesis using Inr
    by (simp add: selectReadyExcluding_def and_then_def from_sum_def from_option_def succeed_def)
qed (simp add: selectReadyExcluding_def and_then_def from_sum_def fail_eff_def)

lemma resolved_history:
  assumes "history_ok st calls" "resolved (calls @ [moved t Running]) t resolution s"
    and "t \<notin> set (dr_passed st) \<union> set (dr_blocked st)" "startable (dr_tasks st) (set (dr_passed st)) task" "tk_id task = t"
  shows "history_ok (if resolution = PASSED then st\<lparr>dr_passed := set_add (dr_passed st) t\<rparr>
           else st\<lparr>dr_blocked := set_add (dr_blocked st) t\<rparr>) (lw_calls s)"
proof -
  define cs where "cs = calls @ [moved t Running]"
  obtain qs where calls: "lw_calls s = (cs @ qs) @ [moved t (state_of resolution)]"
    and quiet: "\<forall>q \<in> set qs. quiet_call q" using assms(2) by (auto simp: resolved_def cs_def)
  note rest = quiet_history [OF quiet, of cs]
  have started: "starts_ok cs"
    using assms unfolding cs_def starts_ok_append by (auto simp: history_ok_def)
  have starts: "starts_ok (lw_calls s)"
    unfolding calls starts_ok_append using rest started by (cases resolution) auto
  have loaded: "last_loaded (lw_calls s) = dr_tasks st"
    unfolding calls last_loaded_append using rest assms(1)
    by (auto simp: moved_def cs_def last_loaded_append history_ok_def)
  have ids: "moved_ids a (lw_calls s) = moved_ids a calls \<union> (if a = Running \<or> a = state_of resolution then {t} else {})"
    if "a \<in> {Running, TicketPassed, TicketBlocked}" for a
  proof -
    have "moved_ids a qs = {}" using quiet_history [OF quiet] that by blast
    moreover have "moved_ids a cs = moved_ids a calls \<union> (if a = Running then {t} else {})"
      by (simp add: cs_def moved_ids_single)
    ultimately show ?thesis unfolding calls by (auto simp: moved_ids_single)
  qed
  show ?thesis
    using assms(1,3) starts loaded ids [of Running] ids [of TicketPassed] ids [of TicketBlocked]
    by (cases resolution) (auto simp: history_ok_def)
qed

lemma moved_load [simp]: "TasksLoaded tasks \<noteq> moved t a" "moved_ids a [TasksLoaded tasks] = {}"
  by (simp_all add: moved_def moved_ids_def)

lemma history_load:
  "history_ok st calls \<Longrightarrow> distinct (map tk_id tasks) \<Longrightarrow> history_ok (st\<lparr>dr_tasks := tasks\<rparr>) (calls @ [TasksLoaded tasks])"
  by (auto simp: history_ok_def starts_ok_append last_loaded_append)

lemma drainStep_history:
  assumes lib: "library_ok lib" and loads: "loads_ok deps (\<lambda>tasks. tot \<longrightarrow> backlog_within lib deps U tasks)" and U: "finite U"
    and "history_ok st (lw_calls s)" "dr_rootId st = cd_rootId deps" "dr_strategy st = cd_strategy deps"
    and "tot \<Longrightarrow> backlog_within lib deps U (dr_tasks st) \<and> card (U - (set (dr_passed st) \<union> set (dr_blocked st))) < fuel"
  shows "case drainStep fuel lib deps st s of (Succeeds summary, s') \<Rightarrow> tallied summary (lw_calls s')
    | (Fails e, s') \<Rightarrow> starts_ok (lw_calls s') | (Unfinished, s') \<Rightarrow> \<not> tot \<and> starts_ok (lw_calls s')"
  using assms(4-7)
proof (induction fuel arbitrary: st s)
  case 0
  then show ?case by (auto simp: unfinished_def history_ok_def)
next
  case (Suc fuel)
  note history = Suc.prems(1)
  have starts: "starts_ok (lw_calls s)" using history by (simp add: history_ok_def)
  obtain choice where choice: "selectReadyExcluding lib st s = (choice, s)"
    using selectReadyExcluding_state [of lib st s] by (cases "selectReadyExcluding lib st s") simp
  have chosen: "choice \<noteq> Unfinished" if tot
    using selectReadyExcluding_returns [of lib deps U st s] Suc.prems that choice by simp
  consider (failed) e where "choice = Fails e" | (stuck) "choice = Unfinished" "\<not> tot" | (none) "choice = Succeeds None"
    | (some) task where "choice = Succeeds (Some task)"
    using chosen by (metis eff_result.exhaust option.exhaust)
  then show ?case
  proof cases
    case none
    then show ?thesis
      using history by (auto simp: and_then_def choice succeed_def tallied_def history_ok_def dest: distinct_card)
  next
    case some
    let ?t = "tk_id task"
    have ready: "?t \<notin> set (dr_passed st) \<union> set (dr_blocked st)" "startable (dr_tasks st) (set (dr_passed st)) task"
      using selectReadyExcluding_startable [OF lib _ choice [unfolded some]] history by (auto simp: history_ok_def)
    have started: "starts_ok (lw_calls s @ [moved ?t Running])"
      using history ready unfolding starts_ok_append by (auto simp: history_ok_def)
    obtain out s1 where run: "resolveTicket deps ?t s = (out, s1)" by fastforce
    note ran = resolveTicket_calls [where deps = deps and ticket = ?t and s = s, unfolded run]
    show ?thesis
    proof (cases out)
      case (Succeeds resolution)
      let ?st = "if resolution = PASSED then st\<lparr>dr_passed := set_add (dr_passed st) ?t\<rparr>
           else st\<lparr>dr_blocked := set_add (dr_blocked st) ?t\<rparr>"
      have history': "history_ok ?st (lw_calls s1)"
        by (rule resolved_history [OF history _ ready refl]) (use ran Succeeds in simp)
      have settled: "set (dr_passed ?st) \<union> set (dr_blocked ?st) = insert ?t (set (dr_passed st) \<union> set (dr_blocked st))"
        by auto
      have member: "?t \<in> U" if tot using Suc.prems(4) ready(2) that by (auto simp: backlog_within_def startable_def)
      have smaller: "card (U - (set (dr_passed ?st) \<union> set (dr_blocked ?st))) < fuel" if tot
      proof -
        have "card (U - insert ?t (set (dr_passed st) \<union> set (dr_blocked st))) <
            card (U - (set (dr_passed st) \<union> set (dr_blocked st)))"
          using member [OF that] ready(1) U by (intro psubset_card_mono) auto
        then show ?thesis using Suc.prems(4) that unfolding settled by simp
      qed
      show ?thesis
      proof (cases resolution)
        case BLOCKED
        have "case drainStep fuel lib deps ?st s1 of (Succeeds summary, s') \<Rightarrow> tallied summary (lw_calls s')
            | (Fails e, s') \<Rightarrow> starts_ok (lw_calls s') | (Unfinished, s') \<Rightarrow> \<not> tot \<and> starts_ok (lw_calls s')"
          using Suc.prems smaller BLOCKED by (intro Suc.IH history') auto
        then show ?thesis using BLOCKED by (simp add: and_then_def choice some run Succeeds)
      next
        case PASSED
        obtain loaded w where load: "cd_refreshBacklog deps (lw_world s1) = (loaded, w)" by fastforce
        show ?thesis
        proof (cases loaded)
          case (Inl e)
          then show ?thesis
            using history' PASSED by (simp add: and_then_def choice some run Succeeds perform_def load history_ok_def)
        next
          case (Inr tasks)
          let ?s = "\<lparr>lw_world = w, lw_calls = lw_calls s1 @ [TasksLoaded tasks]\<rparr>"
          have fresh: "distinct (map tk_id tasks)" "tot \<Longrightarrow> backlog_within lib deps U tasks"
            using loads load Inr unfolding loads_ok_def by blast+
          have "history_ok (?st\<lparr>dr_tasks := tasks\<rparr>) (lw_calls ?s)"
            using history_load [OF history' fresh(1)] by simp
          then have "case drainStep fuel lib deps (?st\<lparr>dr_tasks := tasks\<rparr>) ?s of
              (Succeeds summary, s') \<Rightarrow> tallied summary (lw_calls s')
            | (Fails e, s') \<Rightarrow> starts_ok (lw_calls s') | (Unfinished, s') \<Rightarrow> \<not> tot \<and> starts_ok (lw_calls s')"
            using Suc.prems smaller PASSED fresh(2) by (intro Suc.IH) auto
          then show ?thesis using PASSED by (simp add: and_then_def choice some run Succeeds perform_def load Inr)
        qed
      qed
    next
      case (Fails e)
      then obtain qs where qs: "lw_calls s1 = (lw_calls s @ [moved ?t Running]) @ qs" "\<forall>q \<in> set qs. quiet_call q"
        using ran unfolding grown_def by auto
      then have "starts_ok (lw_calls s1)"
        using started quiet_history [OF qs(2), of "lw_calls s @ [moved ?t Running]"] by metis
      then show ?thesis by (simp add: and_then_def choice some run Fails)
    next
      case Unfinished
      then show ?thesis using ran by simp
    qed
  qed (use starts in \<open>simp_all add: and_then_def choice\<close>)
qed

lemma and_then_eq: "m s = (Succeeds x, s') \<Longrightarrow> and_then m f s = f x s'"
  by (simp add: and_then_def)

lemma and_then_sum: "and_then (from_sum (Inr x)) f s = f x s"
  by (simp add: and_then_def from_sum_def succeed_def)

lemma and_then_unit:
  "and_then (perform_unit g call) f s = f () \<lparr>lw_world = g (lw_world s), lw_calls = lw_calls s @ [call]\<rparr>"
  by (simp add: and_then_def perform_unit_def)

lemma controller_history:
  assumes lib: "library_ok lib" and loads: "loads_ok deps (\<lambda>tasks. tot \<longrightarrow> backlog_within lib deps U tasks)"
    and U: "finite U" "tot \<Longrightarrow> card U < fuel" and fresh: "lw_calls s = []"
  shows "case runLoopController fuel lib deps s of (Succeeds summary, s') \<Rightarrow> tallied summary (lw_calls s')
    | (Fails e, s') \<Rightarrow> starts_ok (lw_calls s') | (Unfinished, s') \<Rightarrow> \<not> tot \<and> starts_ok (lw_calls s')"
proof -
  obtain loaded w where load: "cd_loadGraph deps (lw_world s) = (loaded, w)" by fastforce
  show ?thesis
  proof (cases loaded)
    case (Inl e)
    then show ?thesis
      by (simp add: runLoopController_def and_then_def perform_def load fresh starts_ok_def)
  next
    case (Inr tasks)
    let ?st = "\<lparr>dr_blocked = [], dr_passed = [], dr_rootId = cd_rootId deps, dr_strategy = cd_strategy deps, dr_tasks = tasks\<rparr>"
    let ?s1 = "\<lparr>lw_world = w, lw_calls = [TasksLoaded tasks]\<rparr>"
    have tasks: "distinct (map tk_id tasks)" "tot \<Longrightarrow> backlog_within lib deps U tasks"
      using loads load Inr unfolding loads_ok_def by blast+
    have s1: "perform (cd_loadGraph deps) TasksLoaded s = (Succeeds tasks, ?s1)"
      by (simp add: perform_def load Inr fresh)
    have start: "history_ok ?st [TasksLoaded tasks]"
      using tasks(1) starts_ok_append [of "[]" "TasksLoaded tasks"] last_loaded_append [of "[]" "TasksLoaded tasks"]
      by (simp add: history_ok_def starts_ok_def moved_ids_def moved_def)
    have quiet: "history_ok ?st (calls @ qs)" if "history_ok ?st calls" "\<forall>q \<in> set qs. quiet_call q" for calls qs
      using that quiet_history [OF that(2), of calls] by (auto simp: history_ok_def)
    have init: "starts_ok [TasksLoaded tasks]" using start by (simp add: history_ok_def)
    show ?thesis
    proof (cases "buildGraph lib tasks")
      case (Inl e)
      then show ?thesis
        using init by (simp add: runLoopController_def and_then_def s1 from_sum_def fail_eff_def)
    next
      case (Inr graph)
      let ?opening = "LoopStart (cd_projectId deps) (cd_strategy deps)"
      show ?thesis
      proof (cases "serializeTicketGraph (gl_edges lib) (gl_collate lib) graph")
        case (Inl e)
        have "starts_ok ([TasksLoaded tasks] @ [Emitted ?opening])"
          using quiet [OF start, of "[Emitted ?opening]"] by (simp add: history_ok_def)
        then show ?thesis
          by (simp add: runLoopController_def and_then_def s1 Inr Inl from_sum_def fail_eff_def succeed_def emit_def perform_unit_def)
      next
        case (Inr snapshot)
        let ?s2 = "\<lparr>lw_world = cd_emit deps (LoopGraphSnapshot snapshot) (cd_emit deps ?opening w),
            lw_calls = [TasksLoaded tasks] @ [Emitted ?opening, Emitted (LoopGraphSnapshot snapshot)]\<rparr>"
        have run: "runLoopController fuel lib deps s =
            and_then (drain fuel lib deps tasks) (\<lambda>summary.
            and_then (emit deps (LoopFinish (ls_passed summary) (ls_blocked summary))) (\<lambda>_. succeed summary)) ?s2"
          using Inr \<open>buildGraph lib tasks = Inr graph\<close>
          by (simp add: runLoopController_def and_then_eq [where m = "perform (cd_loadGraph deps) TasksLoaded", OF s1] and_then_sum and_then_unit emit_def)
        have "history_ok ?st (lw_calls ?s2)" using quiet [OF start] by simp
        then have "case drain fuel lib deps tasks ?s2 of (Succeeds summary, s') \<Rightarrow> tallied summary (lw_calls s')
            | (Fails e, s') \<Rightarrow> starts_ok (lw_calls s') | (Unfinished, s') \<Rightarrow> \<not> tot \<and> starts_ok (lw_calls s')"
          unfolding drain_def using U tasks by (intro drainStep_history [OF lib loads]) simp_all
        moreover have "tallied summary (calls @ [Emitted (LoopFinish a b)])" if "tallied summary calls" for summary calls a b
          using that quiet_history [of "[Emitted (LoopFinish a b)]" calls] by (auto simp: tallied_def)
        ultimately show ?thesis
          unfolding run by (auto simp: and_then_def succeed_def emit_def perform_unit_def split: prod.splits eff_result.splits)
      qed
    qed
  qed
qed


subsection \<open>The loop\<close>

text \<open>
  C17: However the controller ends, it never starts a ticket twice, and every ticket it starts is to
  do in the backlog last loaded, where each of its dependencies is done or has passed before in this
  run. When it returns, every started ticket has been passed or blocked, none both, and the summary
  counts them.
\<close>

theorem loop_runs_ready_tickets:
  assumes "library_ok lib" "loads_ok deps (\<lambda>tasks. True)" "lw_calls s = []"
    and "runLoopController fuel lib deps s = (out, s')"
  shows "(\<forall>before t after. lw_calls s' = before @ moved t Running # after \<longrightarrow>
      t \<notin> moved_ids Running before \<and>
      (\<exists>task. tk_id task = t \<and> startable (last_loaded before) (moved_ids TicketPassed before) task))
    \<and> (\<forall>summary. out = Succeeds summary \<longrightarrow>
      moved_ids Running (lw_calls s') = moved_ids TicketPassed (lw_calls s') \<union> moved_ids TicketBlocked (lw_calls s')
      \<and> moved_ids TicketPassed (lw_calls s') \<inter> moved_ids TicketBlocked (lw_calls s') = {}
      \<and> ls_passed summary = card (moved_ids TicketPassed (lw_calls s'))
      \<and> ls_blocked summary = card (moved_ids TicketBlocked (lw_calls s')))"
proof -
  have "case (out, s') of (Succeeds summary, s') \<Rightarrow> tallied summary (lw_calls s')
    | (Fails e, s') \<Rightarrow> starts_ok (lw_calls s') | (Unfinished, s') \<Rightarrow> \<not> False \<and> starts_ok (lw_calls s')"
    unfolding assms(4) [symmetric] using assms(2) by (intro controller_history [OF assms(1), where U = "{}"] assms(3)) simp_all
  then show ?thesis by (auto simp: tallied_def starts_ok_def split: eff_result.splits)
qed

text \<open>
  The controller returns (with a summary or an error) once its fuel exceeds the number of
  ticket ids that the loads can ever return, whatever the runs, checks and merges answer, provided
  the selection returns on the loaded backlogs.
\<close>

theorem loop_terminates:
  assumes "library_ok lib" "finite U" "loads_ok deps (backlog_within lib deps U)" "lw_calls s = []" "card U < fuel"
  shows "fst (runLoopController fuel lib deps s) \<noteq> Unfinished"
  using controller_history [OF assms(1) _ assms(2) _ assms(4), of deps True fuel] assms(3,5)
  by (auto split: prod.splits eff_result.splits)

text \<open>A backlog with a chain of two tickets, and an epic with one child.\<close>

definition sample_library :: "nat graph_library" where
  "sample_library = \<lparr>gl_build = ticket_build, gl_findCycles = (\<lambda>g. []), gl_edges = (\<lambda>g. []), gl_collate = length, gl_depth = 5\<rparr>"

definition chain_backlog :: "ticket list" where
  "chain_backlog = [plain_ticket ''a'' [''b''] None TicketToDo, plain_ticket ''b'' [] None TicketToDo]"

definition epic_backlog :: "ticket list" where
  "epic_backlog = [plain_ticket ''c'' [] (Some ''e'') TicketToDo, plain_ticket ''e'' [] None TicketToDo]"

lemma sample_library_ok: "library_ok sample_library"
  by (simp add: library_ok_def sample_library_def ticket_build_spec)

lemma sample_loads: "distinct (map tk_id tasks) \<Longrightarrow> P tasks \<Longrightarrow> loads_ok (sample_deps tasks phase) P"
  by (auto simp: loads_ok_def sample_deps_def)

lemma chain_distinct: "distinct (map tk_id chain_backlog)"
  by (simp add: chain_backlog_def plain_ticket_def)

lemma loop_runs_ready_tickets_witness:
  "case runLoopController 3 sample_library (sample_deps chain_backlog Succeeded) \<lparr>lw_world = [], lw_calls = []\<rparr> of
     (Succeeds summary, s') \<Rightarrow> ls_passed summary = 2 \<and> card (moved_ids TicketPassed (lw_calls s')) = 2
   | _ \<Rightarrow> False"
proof -
  have "fst (runLoopController 3 sample_library (sample_deps chain_backlog Succeeded) \<lparr>lw_world = [], lw_calls = []\<rparr>) =
      Succeeds \<lparr>ls_blocked = 0, ls_passed = 2\<rparr>" by code_simp
  then obtain s' where run: "runLoopController 3 sample_library (sample_deps chain_backlog Succeeded)
      \<lparr>lw_world = [], lw_calls = []\<rparr> = (Succeeds \<lparr>ls_blocked = 0, ls_passed = 2\<rparr>, s')"
    by (metis prod.collapse)
  show ?thesis
    using loop_runs_ready_tickets [OF sample_library_ok sample_loads [OF chain_distinct TrueI] _ run] unfolding run by simp
qed

lemma chain_selection: "selection_returns sample_library (sample_deps tasks phase \<lparr>cd_strategy := Priority\<rparr>) loaded"
proof -
  have "selectReadyChain depth collate graph st \<noteq> None"
    if "dr_rootId st = None" "dr_strategy st = Priority" for depth and collate :: "string \<Rightarrow> nat" and graph st
    using that
  proof (induction depth collate graph st rule: selectReadyChain.induct)
    case (1 depth collate graph st)
    have "selectNextTicket depth collate graph \<lparr>so_includeParents = False, so_rootId = None, so_strategy = Some Priority\<rparr> \<noteq> None"
      by (simp add: selectNextTicket_def selectReadyTickets_def scopedTicketIds_def truthy_def Let_def)
    then obtain candidate where candidate: "selectNextTicket depth collate graph
        \<lparr>so_includeParents = False, so_rootId = dr_rootId st, so_strategy = Some (dr_strategy st)\<rparr> = Some candidate"
      using "1.prems" by auto
    show ?case
    proof (cases candidate)
      case (Some c)
      then show ?thesis
        unfolding selectReadyChain.simps [of depth collate graph st] candidate
        using "1.IH" [OF candidate Some _ refl] "1.prems" by (simp add: Let_def)
    qed (simp add: selectReadyChain.simps [of depth collate graph st] candidate)
  qed
  then show ?thesis by (simp add: selection_returns_def sample_deps_def del: not_None_eq)
qed

lemma loop_terminates_witness:
  "fst (runLoopController 3 sample_library (sample_deps chain_backlog Succeeded \<lparr>cd_strategy := Priority\<rparr>)
     \<lparr>lw_world = [], lw_calls = []\<rparr>) \<noteq> Unfinished"
proof -
  let ?deps = "sample_deps chain_backlog Succeeded \<lparr>cd_strategy := Priority\<rparr>"
  have "backlog_within sample_library ?deps {''a'', ''b''} chain_backlog"
    using chain_selection by (simp add: backlog_within_def chain_backlog_def plain_ticket_def)
  then have "loads_ok ?deps (backlog_within sample_library ?deps {''a'', ''b''})"
    using chain_distinct by (auto simp: loads_ok_def sample_deps_def)
  then show ?thesis by (intro loop_terminates [OF sample_library_ok, of "{''a'', ''b''}"]) simp_all
qed

text \<open>
  After the run of the only child of an epic has failed, the controller runs the epic itself,
  although the child is still to do: skipping the blocked child takes it out of the children of the
  epic too.
\<close>

theorem epic_runs_after_blocked_child:
  "\<not> backlog_ready epic_backlog False (plain_ticket ''e'' [] None TicketToDo) \<and>
   (case runLoopController 3 sample_library (sample_deps epic_backlog PhaseFailed) \<lparr>lw_world = [], lw_calls = []\<rparr> of
      (Succeeds summary, s') \<Rightarrow> moved ''c'' TicketBlocked \<in> set (lw_calls s') \<and> moved ''e'' Running \<in> set (lw_calls s')
    | _ \<Rightarrow> False)"
proof (intro conjI)
  show "\<not> backlog_ready epic_backlog False (plain_ticket ''e'' [] None TicketToDo)"
    by (auto simp: backlog_ready_def epic_backlog_def plain_ticket_def truthy_def)
  show "case runLoopController 3 sample_library (sample_deps epic_backlog PhaseFailed) \<lparr>lw_world = [], lw_calls = []\<rparr> of
      (Succeeds summary, s') \<Rightarrow> moved ''c'' TicketBlocked \<in> set (lw_calls s') \<and> moved ''e'' Running \<in> set (lw_calls s')
    | _ \<Rightarrow> False" by code_simp
qed

end
