(* ===== verification/PullRequests.thy ===== *)
theory PullRequests
  imports LoopController JsData
begin

text \<open>
  The pull requests of the loop: what GitHub says of them and of their required checks
  (\<^verbatim>\<open>src/loop/gh-checks.ts\<close>) and the merge that follows from it (\<^verbatim>\<open>src/loop/merge.ts\<close>). The
  \<open>gh\<close> command and the mounted secret are the outside world; the state lists, in order, the commands
  and the reads of the secret with their results. \<open>gh_describe\<close> is the schema library's message
  for a response that does not parse. A conclusion is looked up among the table's own keys: that of
  a check named like a member of \<open>Object.prototype\<close> is not modelled.
\<close>

subsection \<open>The gh runner\<close>

datatype gh_call =
    GhJson "string list" "string + json"
  | GhText "string list" "string option" "string + string"
  | TokenRead "string option"

record 'w gh_world =
  gw_world :: 'w
  gw_calls :: "gh_call list"

record 'w gh_env =
  gh_json :: "string list \<Rightarrow> 'w \<Rightarrow> (string + json) \<times> 'w"
  gh_text :: "string list \<Rightarrow> string option \<Rightarrow> 'w \<Rightarrow> (string + string) \<times> 'w"
  gh_token :: "'w \<Rightarrow> string option \<times> 'w"
  gh_describe :: "json \<Rightarrow> string"

definition runGhJson :: "'w gh_env \<Rightarrow> string list \<Rightarrow> (('w, 'm) gh_world_scheme, json) eff" where
  "runGhJson gh args s = (case gh_json gh args (gw_world s) of
     (r, w) \<Rightarrow> (case r of Inl e \<Rightarrow> Fails e | Inr x \<Rightarrow> Succeeds x,
               s\<lparr>gw_world := w, gw_calls := gw_calls s @ [GhJson args r]\<rparr>))"

text \<open>\<open>gh.text\<close> under \<open>Effect.match\<close>: a failure is a value.\<close>

definition matchGhText ::
  "'w gh_env \<Rightarrow> string list \<Rightarrow> string option \<Rightarrow> (('w, 'm) gh_world_scheme, string + string) eff" where
  "matchGhText gh args secret s = (case gh_text gh args secret (gw_world s) of
     (r, w) \<Rightarrow> (Succeeds r, s\<lparr>gw_world := w, gw_calls := gw_calls s @ [GhText args secret r]\<rparr>))"

definition readBypassToken :: "'w gh_env \<Rightarrow> (('w, 'm) gh_world_scheme, string option) eff" where
  "readBypassToken gh s = (case gh_token gh (gw_world s) of
     (r, w) \<Rightarrow> (Succeeds r, s\<lparr>gw_world := w, gw_calls := gw_calls s @ [TokenRead r]\<rparr>))"

subsection \<open>Checks\<close>

record check_run =
  cr_conclusion :: "string option"
  cr_name :: string
  cr_required :: bool
  cr_status :: string

record commit_status =
  cs_required :: bool
  cs_state :: string

record checks_response =
  ck_checkRuns :: "check_run list"
  ck_statuses :: "commit_status list option"

definition CONCLUSION_CLASS_TABLE :: "(string \<times> check_classification) list" where
  "CONCLUSION_CLASS_TABLE = [(''action_required'', Fixable), (''cancelled'', InfraDown), (''failure'', Fixable),
     (''timed_out'', InfraDown)]"

definition COMMIT_STATUS_CLASS_TABLE :: "(string \<times> check_classification) list" where
  "COMMIT_STATUS_CLASS_TABLE = [(''error'', InfraDown)]"

fun CLASS_PRIORITY :: "check_classification \<Rightarrow> nat" where
  "CLASS_PRIORITY Fixable = 2" | "CLASS_PRIORITY Indeterminate = 0" | "CLASS_PRIORITY InfraDown = 1"

definition higherPriority :: "check_classification \<Rightarrow> check_classification \<Rightarrow> check_classification" where
  "higherPriority a b = (if CLASS_PRIORITY a \<ge> CLASS_PRIORITY b then a else b)"

definition checkRunSignal :: "check_run \<Rightarrow> check_classification option" where
  "checkRunSignal run = (if \<not> cr_required run then None
     else case cr_conclusion run of None \<Rightarrow> None | Some conclusion \<Rightarrow> map_of CONCLUSION_CLASS_TABLE conclusion)"

definition commitStatusSignal :: "commit_status \<Rightarrow> check_classification option" where
  "commitStatusSignal status =
     (if \<not> cs_required status then None else map_of COMMIT_STATUS_CLASS_TABLE (cs_state status))"

definition classifyChecks :: "checks_response \<Rightarrow> check_classification" where
  "classifyChecks checks =
     (let signals = map checkRunSignal (ck_checkRuns checks) @ map commitStatusSignal (or_else (ck_statuses checks) []) in
      foldl higherPriority Indeterminate (concat (map (\<lambda>s. case s of None \<Rightarrow> [] | Some c \<Rightarrow> [c]) signals)))"

subsection \<open>Responses\<close>

text \<open>The decoders of the schemas; a member the schema does not name is ignored.\<close>

fun json_all :: "(json \<Rightarrow> 'x option) \<Rightarrow> json option \<Rightarrow> 'x list option" where
  "json_all f (Some (JArr items)) = those (map f items)"
| "json_all f v = None"

definition prListItem :: "json \<Rightarrow> open_pr option" where
  "prListItem item = (case (json_field item ''headRefName'', json_field item ''number'', json_field item ''url'') of
     (Some (JStr head), Some (JNum n), Some (JStr url)) \<Rightarrow>
       if 0 < n then Some \<lparr>op_headRefName = head, op_number = nat n, op_url = url\<rparr> else None
   | _ \<Rightarrow> None)"

definition checkRun :: "json \<Rightarrow> check_run option" where
  "checkRun item = (case (json_field item ''name'', json_field item ''required'', json_field item ''status'') of
     (Some (JStr name), Some (JBool required), Some (JStr status)) \<Rightarrow>
       (case json_field item ''conclusion'' of
          Some JNull \<Rightarrow> Some \<lparr>cr_conclusion = None, cr_name = name, cr_required = required, cr_status = status\<rparr>
        | Some (JStr c) \<Rightarrow> Some \<lparr>cr_conclusion = Some c, cr_name = name, cr_required = required, cr_status = status\<rparr>
        | _ \<Rightarrow> None)
   | _ \<Rightarrow> None)"

definition commitStatus :: "json \<Rightarrow> commit_status option" where
  "commitStatus item = (case (json_field item ''required'', json_field item ''state'') of
     (Some (JBool required), Some (JStr state)) \<Rightarrow> Some \<lparr>cs_required = required, cs_state = state\<rparr>
   | _ \<Rightarrow> None)"

definition checksResponse :: "json \<Rightarrow> checks_response option" where
  "checksResponse raw = (case json_all checkRun (json_field raw ''checkRuns'') of
     None \<Rightarrow> None
   | Some runs \<Rightarrow>
       (case json_field raw ''statuses'' of
          None \<Rightarrow> Some \<lparr>ck_checkRuns = runs, ck_statuses = None\<rparr>
        | Some v \<Rightarrow> (case json_all commitStatus (Some v) of
            None \<Rightarrow> None | Some statuses \<Rightarrow> Some \<lparr>ck_checkRuns = runs, ck_statuses = Some statuses\<rparr>)))"

definition parsePrList :: "'w gh_env \<Rightarrow> json \<Rightarrow> (('w, 'm) gh_world_scheme, open_pr list) eff" where
  "parsePrList gh raw = (case json_all prListItem (Some raw) of
     None \<Rightarrow> fail_eff (''gh pr list response parse failed: '' @ gh_describe gh raw)
   | Some items \<Rightarrow> succeed items)"

definition toPrResolution :: "open_pr list \<Rightarrow> open_pr option" where
  "toPrResolution items = js_nth items 0"

definition resolvePrForRun :: "'w gh_env \<Rightarrow> string \<Rightarrow> (('w, 'm) gh_world_scheme, open_pr option) eff" where
  "resolvePrForRun gh runId =
     and_then (runGhJson gh [''pr'', ''list'', ''--head'', ''moka/run/'' @ runId, ''--json'', ''number,headRefName,url'']) (\<lambda>raw.
     and_then (parsePrList gh raw) (\<lambda>items. succeed (toPrResolution items)))"

definition parseChecksResponse :: "'w gh_env \<Rightarrow> json \<Rightarrow> (('w, 'm) gh_world_scheme, checks_response) eff" where
  "parseChecksResponse gh raw = (case checksResponse raw of
     None \<Rightarrow> fail_eff (''gh pr checks response parse failed: '' @ gh_describe gh raw)
   | Some checks \<Rightarrow> succeed checks)"

definition classifyRequiredChecks :: "'w gh_env \<Rightarrow> open_pr \<Rightarrow> (('w, 'm) gh_world_scheme, check_classification) eff" where
  "classifyRequiredChecks gh pr =
     and_then (runGhJson gh [''pr'', ''checks'', show_nat (op_number pr), ''--json'', ''name,conclusion,status,required,startedAt'']) (\<lambda>raw.
     and_then (parseChecksResponse gh raw) (\<lambda>checks. succeed (classifyChecks checks)))"

subsection \<open>Merging\<close>

definition CONFLICT_MARKERS :: "string list" where
  "CONFLICT_MARKERS = [''not mergeable'', ''merge conflict'', ''conflicts with the base branch'']"

definition blockedReasonForGhError :: "string \<Rightarrow> blocked_reason" where
  "blockedReasonForGhError message =
     (if \<exists>marker \<in> set CONFLICT_MARKERS. str_includes (to_lower message) marker then MergeConflict else NotMergeable)"

definition toBlocked :: "open_pr \<Rightarrow> string \<Rightarrow> merge_outcome" where
  "toBlocked pr message = MergeBlocked message (op_number pr) (blockedReasonForGhError message)"

definition enableAutoMerge :: "open_pr \<Rightarrow> 'w gh_env \<Rightarrow> (('w, 'm) gh_world_scheme, merge_outcome) eff" where
  "enableAutoMerge pr gh =
     and_then (matchGhText gh [''pr'', ''merge'', show_nat (op_number pr), ''--auto'', ''--squash''] None) (\<lambda>r.
     succeed (case r of Inl e \<Rightarrow> toBlocked pr e | Inr out \<Rightarrow> MergePending (op_number pr)))"

definition adminMerge :: "open_pr \<Rightarrow> string \<Rightarrow> 'w gh_env \<Rightarrow> (('w, 'm) gh_world_scheme, merge_outcome) eff" where
  "adminMerge pr token gh =
     and_then (matchGhText gh [''pr'', ''merge'', show_nat (op_number pr), ''--admin'', ''--squash''] (Some token)) (\<lambda>r.
     succeed (case r of Inl e \<Rightarrow> toBlocked pr e | Inr out \<Rightarrow> Merged (op_number pr)))"

datatype merge_action_kind = AutoMerge | AdminMerge | NoMerge

fun ACTION_FOR_CLASSIFICATION :: "check_classification \<Rightarrow> merge_action_kind" where
  "ACTION_FOR_CLASSIFICATION Fixable = NoMerge"
| "ACTION_FOR_CLASSIFICATION Indeterminate = NoMerge"
| "ACTION_FOR_CLASSIFICATION InfraDown = AdminMerge"

definition selectMergeAction :: "check_classification \<Rightarrow> merge_action_kind" where
  "selectMergeAction classification = ACTION_FOR_CLASSIFICATION classification"

definition mergeForClassification ::
  "check_classification \<Rightarrow> 'w gh_env \<Rightarrow> open_pr \<Rightarrow> (('w, 'm) gh_world_scheme, merge_outcome option) eff" where
  "mergeForClassification classification gh pr =
     (let action = selectMergeAction classification in
      if action = NoMerge then succeed None
      else if action = AutoMerge then and_then (enableAutoMerge pr gh) (\<lambda>r. succeed (Some r))
      else and_then (readBypassToken gh) (\<lambda>token.
        case token of
          None \<Rightarrow> succeed (Some (MergeBlocked ''admin-merge requires a bypass token but none was mounted''
                                   (op_number pr) MissingToken))
        | Some bypass \<Rightarrow> and_then (adminMerge pr bypass gh) (\<lambda>r. succeed (Some r))))"

subsection \<open>What is decided\<close>

definition run_concluded :: "checks_response \<Rightarrow> string set \<Rightarrow> bool" where
  "run_concluded checks conclusions \<longleftrightarrow>
     (\<exists>run \<in> set (ck_checkRuns checks). cr_required run \<and> (\<exists>c \<in> conclusions. cr_conclusion run = Some c))"

lemma foldl_higherPriority:
  "foldl higherPriority c signals =
     (if Fixable \<in> insert c (set signals) then Fixable
      else if InfraDown \<in> insert c (set signals) then InfraDown else Indeterminate)"
proof (induction signals arbitrary: c)
  case Nil
  then show ?case by (cases c) auto
next
  case (Cons x signals)
  then show ?case by (cases c; cases x) (simp_all add: higherPriority_def)
qed

lemma in_some_values: "c \<in> set (concat (map (\<lambda>s. case s of None \<Rightarrow> [] | Some c \<Rightarrow> [c]) signals)) \<longleftrightarrow> Some c \<in> set signals"
  by (induction signals) (auto split: option.splits)

lemma checkRunSignal_is:
  "checkRunSignal run = Some Fixable \<longleftrightarrow> cr_required run \<and> (\<exists>c \<in> {''failure'', ''action_required''}. cr_conclusion run = Some c)"
  "checkRunSignal run = Some InfraDown \<longleftrightarrow> cr_required run \<and> (\<exists>c \<in> {''cancelled'', ''timed_out''}. cr_conclusion run = Some c)"
  by (cases "cr_conclusion run"; auto simp: checkRunSignal_def CONCLUSION_CLASS_TABLE_def)+

lemma commitStatusSignal_is:
  "commitStatusSignal status = Some c \<longleftrightarrow> c = InfraDown \<and> cs_required status \<and> cs_state status = ''error''"
  by (auto simp: commitStatusSignal_def COMMIT_STATUS_CLASS_TABLE_def)

text \<open>
  The checks of a pull request are fixable exactly when a required check run failed or asks for
  an action; else they are an outage exactly when a required run was cancelled or timed out or a
  required commit status is an error; else there is no verdict.
\<close>

theorem checks_classified:
  "classifyChecks checks =
     (if run_concluded checks {''failure'', ''action_required''} then Fixable
      else if run_concluded checks {''cancelled'', ''timed_out''} \<or>
              (\<exists>status \<in> set (or_else (ck_statuses checks) []). cs_required status \<and> cs_state status = ''error'')
      then InfraDown else Indeterminate)"
proof -
  have in_signals: "Some c \<in> set (map f xs @ map g ys) \<longleftrightarrow> (\<exists>x \<in> set xs. f x = Some c) \<or> (\<exists>y \<in> set ys. g y = Some c)"
    for c :: check_classification and f :: "check_run \<Rightarrow> _" and xs and g :: "commit_status \<Rightarrow> _" and ys by force
  show ?thesis
    unfolding classifyChecks_def Let_def foldl_higherPriority insert_iff in_some_values in_signals
      checkRunSignal_is commitStatusSignal_is run_concluded_def by simp
qed

end
