(* ===== verification/ControllerDeps.thy ===== *)
theory ControllerDeps
  imports LoopServices LoopProps PullRequests
begin

text \<open>
  The loop controller in production (\<^verbatim>\<open>src/loop/controller-deps.ts\<close>): how its effects are wired to
  GitHub, to the submission of runs, to the backlog and to the event sink, and what a whole run of
  the loop then guarantees. The lower seams (Argo, git, the sink, the clock, the ids) are the
  parameters \<open>controller_seams\<close>. A post to the sink that fails is a defect that ends the program and
  is not modelled.
\<close>

subsection \<open>Contexts and seams\<close>

record ('c, 'b) loop_controller_context =
  lc_baseBranch :: string
  lc_brokerAuth :: 'b
  lc_config :: 'c
  lc_eventUrl :: string
  lc_gitCredentialsSecretName :: string
  lc_githubAuthSecretName :: "string option"
  lc_maxMergePolls :: nat
  lc_maxRemediationAttempts :: nat
  lc_namespace :: string
  lc_project :: string
  lc_rootId :: "string option"
  lc_runId :: string
  lc_serviceAccountName :: "string option"
  lc_strategy :: selection_strategy
  lc_url :: string
  lc_worktreePath :: string

record loop_submit_request =
  rq_deliveryMode :: delivery_mode
  rq_headBranch :: "string option"
  rq_repositorySha :: "string option"
  rq_runId :: string
  rq_task :: string

record runner_event_record =
  er_at :: string
  er_runId :: string
  er_sequence :: nat
  er_event :: controller_event

record 'w controller_seams =
  se_generateRunId :: "'w \<Rightarrow> string \<times> 'w"
  se_gh :: "'w gh_env"
  se_gitRefresh :: "string \<Rightarrow> 'w \<Rightarrow> (string + unit) \<times> 'w"
  se_loadTasks :: "string \<Rightarrow> 'w \<Rightarrow> (string + ticket list) \<times> 'w"
  se_now :: "'w \<Rightarrow> string \<times> 'w"
  se_pollPhase :: "string \<Rightarrow> string \<Rightarrow> string \<Rightarrow> 'w \<Rightarrow> (string + terminal_phase) \<times> 'w"
  se_postEvent :: "runner_event_record \<Rightarrow> 'w \<Rightarrow> 'w"
  se_sleep :: "nat \<Rightarrow> 'w \<Rightarrow> 'w"
  se_submitRun :: "loop_submit_request \<Rightarrow> 'w \<Rightarrow> (string + string) \<times> 'w"

text \<open>The state of the wired loop: the calls to GitHub, the closure's sequence number and the posts.\<close>

record 'w wired_world = "'w gh_world" +
  ww_sequence :: nat
  ww_posts :: "runner_event_record list"

definition on_world :: "('w \<Rightarrow> 'x \<times> 'w) \<Rightarrow> ('w, 'm) gh_world_scheme \<Rightarrow> 'x \<times> ('w, 'm) gh_world_scheme" where
  "on_world f s = (case f (gw_world s) of (x, w) \<Rightarrow> (x, s\<lparr>gw_world := w\<rparr>))"

subsection \<open>Submitting a child run\<close>

definition adaptSubmit ::
  "(loop_submit_request \<Rightarrow> 'w \<Rightarrow> (string + string) \<times> 'w) \<Rightarrow> ('w \<Rightarrow> string \<times> 'w) \<Rightarrow> submit_run_input \<Rightarrow>
   'w \<Rightarrow> (string + submit_run_result) \<times> 'w" where
  "adaptSubmit submit_run generateRunId input w = (case generateRunId w of
     (runId, w1) \<Rightarrow>
       (case submit_run \<lparr>rq_deliveryMode = sr_deliveryMode input, rq_headBranch = sr_headBranch input,
               rq_repositorySha = sr_repositorySha input, rq_runId = runId, rq_task = sr_ticketId input\<rparr> w1 of
          (Inl e, w2) \<Rightarrow> (Inl e, w2)
        | (Inr workflowName, w2) \<Rightarrow> (Inr \<lparr>sm_runId = runId, sm_workflowName = workflowName\<rparr>, w2)))"

record submit_repository =
  sb_baseBranch :: string
  sb_headBranch :: "string option"
  sb_sha :: "string option"
  sb_url :: string

definition given :: "string option \<Rightarrow> string option" where
  "given v = (case v of Some [] \<Rightarrow> None | _ \<Rightarrow> v)"

definition submitRepository :: "('c, 'b) loop_controller_context \<Rightarrow> loop_submit_request \<Rightarrow> submit_repository" where
  "submitRepository context_of request =
     \<lparr>sb_baseBranch = lc_baseBranch context_of, sb_headBranch = given (rq_headBranch request),
      sb_sha = given (rq_repositorySha request), sb_url = lc_url context_of\<rparr>"

record ('c, 'b) moka_submit_input =
  mk_brokerAuth :: 'b
  mk_config :: 'c
  mk_delivery_mode :: delivery_mode
  mk_pullRequest :: bool
  mk_eventUrl :: string
  mk_gitCredentialsSecretName :: string
  mk_githubAuthSecretName :: "string option"
  mk_mode :: string
  mk_namespace :: string
  mk_repository :: submit_repository
  mk_run_id :: string
  mk_run_project :: string
  mk_serviceAccountName :: "string option"
  mk_task :: string
  mk_type :: string

text \<open>The submission \<open>submitMoka\<close> is a parameter; it answers with the workflow's name.\<close>

definition defaultSubmitRun ::
  "('c, 'b) loop_controller_context \<Rightarrow> (('c, 'b) moka_submit_input \<Rightarrow> 'w \<Rightarrow> (string + string) \<times> 'w) \<Rightarrow>
   loop_submit_request \<Rightarrow> 'w \<Rightarrow> (string + string) \<times> 'w" where
  "defaultSubmitRun ctx submitMoka request w =
     (case submitMoka
         \<lparr>mk_brokerAuth = lc_brokerAuth ctx, mk_config = lc_config ctx, mk_delivery_mode = rq_deliveryMode request,
          mk_pullRequest = True, mk_eventUrl = lc_eventUrl ctx,
          mk_gitCredentialsSecretName = lc_gitCredentialsSecretName ctx,
          mk_githubAuthSecretName = lc_githubAuthSecretName ctx, mk_mode = ''full'', mk_namespace = lc_namespace ctx,
          mk_repository = submitRepository ctx request, mk_run_id = rq_runId request, mk_run_project = lc_project ctx,
          mk_serviceAccountName = lc_serviceAccountName ctx, mk_task = rq_task request, mk_type = ''graph''\<rparr> w of
       (Inl message, w1) \<Rightarrow> (Inl (''child run submit failed: '' @ message), w1)
     | (Inr workflowName, w1) \<Rightarrow> (Inr workflowName, w1))"

subsection \<open>Events\<close>

definition RECORD_BUILDER :: "controller_event \<Rightarrow> string \<Rightarrow> string \<Rightarrow> nat \<Rightarrow> runner_event_record" where
  "RECORD_BUILDER event at_time runId n = \<lparr>er_at = at_time, er_runId = runId, er_sequence = n, er_event = event\<rparr>"

definition buildEmit ::
  "('c, 'b) loop_controller_context \<Rightarrow> 'w controller_seams \<Rightarrow> controller_event \<Rightarrow> 'w wired_world \<Rightarrow> 'w wired_world" where
  "buildEmit ctx seams event s =
     (case se_now seams (gw_world s) of (now, w) \<Rightarrow>
       let n = ww_sequence s + 1; event_record = RECORD_BUILDER event now (lc_runId ctx) n in
       s\<lparr>gw_world := se_postEvent seams event_record w, ww_sequence := n, ww_posts := ww_posts s @ [event_record]\<rparr>)"

subsection \<open>Merge signals\<close>

definition parsePrState :: "json \<Rightarrow> ('s, string) eff" where
  "parsePrState raw = (case json_field raw ''state'' of
     Some (JStr state) \<Rightarrow> succeed state
   | _ \<Rightarrow> fail_eff ''gh pr view response missing string `state`'')"

definition classifyMergeSignal :: "open_pr \<Rightarrow> 'w gh_env \<Rightarrow> (('w, 'm) gh_world_scheme, merge_poll_signal) eff" where
  "classifyMergeSignal pr gh =
     and_then (runGhJson gh [''pr'', ''view'', show_nat (op_number pr), ''--json'', ''state'']) (\<lambda>raw.
     and_then (parsePrState raw) (\<lambda>state.
     if state = ''MERGED'' then succeed MergedSignal
     else and_then (classifyRequiredChecks gh pr) (\<lambda>c. succeed (ChecksSignal c))))"

subsection \<open>The wiring\<close>

definition answered :: "'x eff_result \<times> 's \<Rightarrow> (string + 'x) \<times> 's" where
  "answered r = (case r of (Succeeds x, s) \<Rightarrow> (Inr x, s) | (Fails e, s) \<Rightarrow> (Inl e, s) | (Unfinished, s) \<Rightarrow> (Inl [], s))"

definition refreshBacklog ::
  "('c, 'b) loop_controller_context \<Rightarrow> 'w controller_seams \<Rightarrow> 'w \<Rightarrow> (string + ticket list) \<times> 'w" where
  "refreshBacklog ctx seams w = (case se_gitRefresh seams (lc_worktreePath ctx) w of
     (Inl message, w1) \<Rightarrow> (Inl (''backlog refresh failed: '' @ message), w1)
   | (Inr u, w1) \<Rightarrow> se_loadTasks seams (lc_worktreePath ctx) w1)"

definition buildControllerDeps ::
  "('c, 'b) loop_controller_context \<Rightarrow> 'w controller_seams \<Rightarrow> 'w wired_world controller_deps" where
  "buildControllerDeps ctx seams =
     \<lparr>cd_classifyChecks = (\<lambda>pr s. answered (classifyMergeSignal pr (se_gh seams) s)),
      cd_emit = buildEmit ctx seams,
      cd_loadGraph = on_world (se_loadTasks seams (lc_worktreePath ctx)),
      cd_maxMergePolls = lc_maxMergePolls ctx,
      cd_maxRemediationAttempts = lc_maxRemediationAttempts ctx,
      cd_merge = (\<lambda>classification pr s. answered (mergeForClassification classification (se_gh seams) pr s)),
      cd_pollPhase = (\<lambda>workflowName runId. on_world (se_pollPhase seams (lc_namespace ctx) runId workflowName)),
      cd_projectId = lc_project ctx,
      cd_refreshBacklog = on_world (refreshBacklog ctx seams),
      cd_resolvePr = (\<lambda>runId s. answered (resolvePrForRun (se_gh seams) runId s)),
      cd_rootId = lc_rootId ctx,
      cd_sleep = (\<lambda>ms s. s\<lparr>gw_world := se_sleep seams ms (gw_world s)\<rparr>),
      cd_strategy = lc_strategy ctx,
      cd_submitRun = (\<lambda>input. on_world (adaptSubmit (se_submitRun seams) (se_generateRunId seams) input))\<rparr>"

text \<open>The world a controller starts in.\<close>

definition wired_start :: "'w \<Rightarrow> 'w wired_world loop_world" where
  "wired_start w = \<lparr>lw_world = \<lparr>gw_world = w, gw_calls = [], ww_sequence = 0, ww_posts = []\<rparr>, lw_calls = []\<rparr>"
subsection \<open>The bypass token\<close>

definition view_args :: "nat \<Rightarrow> string list" where
  "view_args n = [''pr'', ''view'', show_nat n, ''--json'', ''state'']"

definition checks_args :: "nat \<Rightarrow> string list" where
  "checks_args n = [''pr'', ''checks'', show_nat n, ''--json'', ''name,conclusion,status,required,startedAt'']"

definition admin_args :: "nat \<Rightarrow> string list" where
  "admin_args n = [''pr'', ''merge'', show_nat n, ''--admin'', ''--squash'']"

text \<open>The last two commands read the state and then the checks of the pull request, and found an outage.\<close>

definition outage_seen :: "nat \<Rightarrow> gh_call list \<Rightarrow> bool" where
  "outage_seen n before \<longleftrightarrow> (\<exists>earlier view raw checks.
     before = earlier @ [GhJson (view_args n) view, GhJson (checks_args n) (Inr raw)] \<and>
     checksResponse raw = Some checks \<and> classifyChecks checks = InfraDown)"

text \<open>What may follow: queries always; the token only after an outage; a merge only with the token.\<close>

fun permitted :: "gh_call list \<Rightarrow> gh_call \<Rightarrow> bool" where
  "permitted before (GhJson args r) \<longleftrightarrow> True"
| "permitted before (TokenRead r) \<longleftrightarrow> (\<exists>n. outage_seen n before)"
| "permitted before (GhText args secret r) \<longleftrightarrow> (\<exists>n token earlier. before = earlier @ [TokenRead (Some token)] \<and>
     outage_seen n earlier \<and> args = admin_args n \<and> secret = Some token)"

definition all_permitted :: "gh_call list \<Rightarrow> bool" where
  "all_permitted calls \<longleftrightarrow> (\<forall>before call after. calls = before @ call # after \<longrightarrow> permitted before call)"

lemma gated_snoc: "all_permitted (calls @ [call]) \<longleftrightarrow> all_permitted calls \<and> permitted calls call"
  unfolding all_permitted_def snoc_split by blast

lemma gated_snoc2: "all_permitted (calls @ [a, b]) \<longleftrightarrow> all_permitted calls \<and> permitted calls a \<and> permitted (calls @ [a]) b"
  using gated_snoc [of "calls @ [a]" b] by (simp add: gated_snoc)

lemma gated_Nil: "all_permitted []"
  by (simp add: all_permitted_def)

lemma runGhJson_calls:
  assumes "runGhJson gh args s = (r, s')"
  shows "(\<exists>answer. gw_calls s' = gw_calls s @ [GhJson args answer] \<and>
      r = (case answer of Inl e \<Rightarrow> Fails e | Inr x \<Rightarrow> Succeeds x))"
  using assms by (auto simp: runGhJson_def split: prod.splits)

lemma classifyMergeSignal_gated:
  assumes "all_permitted (gw_calls s)" "classifyMergeSignal pr gh s = (r, s')"
  shows "all_permitted (gw_calls s') \<and> r \<noteq> Unfinished \<and>
    (r = Succeeds (ChecksSignal InfraDown) \<longrightarrow> outage_seen (op_number pr) (gw_calls s'))"
proof -
  obtain a1 s1 where view: "runGhJson gh (view_args (op_number pr)) s = (a1, s1)" by fastforce
  obtain answer where s1: "gw_calls s1 = gw_calls s @ [GhJson (view_args (op_number pr)) answer]"
    "a1 = (case answer of Inl e \<Rightarrow> Fails e | Inr x \<Rightarrow> Succeeds x)" using runGhJson_calls [OF view] by blast
  obtain a2 s2 where look: "runGhJson gh (checks_args (op_number pr)) s1 = (a2, s2)" by fastforce
  obtain answer2 where s2: "gw_calls s2 = gw_calls s1 @ [GhJson (checks_args (op_number pr)) answer2]"
    "a2 = (case answer2 of Inl e \<Rightarrow> Fails e | Inr x \<Rightarrow> Succeeds x)" using runGhJson_calls [OF look] by blast
  have calm: "all_permitted (gw_calls s1)" "all_permitted (gw_calls s2)" using assms(1) s1(1) s2(1) by (simp_all add: gated_snoc gated_snoc2)
  have outage: "outage_seen (op_number pr) (gw_calls s2)" if "answer2 = Inr raw" "checksResponse raw = Some checks"
    "classifyChecks checks = InfraDown" for raw checks
    using that s1(1) s2(1) by (auto simp: outage_seen_def)
  show ?thesis
    using assms(2) calm outage view [unfolded view_args_def] look [unfolded checks_args_def] s1(2) s2(2)
    by (auto simp: classifyMergeSignal_def classifyRequiredChecks_def parsePrState_def parseChecksResponse_def
        and_then_def succeed_def fail_eff_def split: sum.splits option.splits json.splits if_splits)
qed

lemma merge_gated:
  assumes "all_permitted (gw_calls s)" "classification = InfraDown \<Longrightarrow> outage_seen (op_number pr) (gw_calls s)"
  shows "all_permitted (gw_calls (snd (mergeForClassification classification gh pr s)))"
  using assms
  by (cases classification)
     (auto simp: mergeForClassification_def selectMergeAction_def succeed_def and_then_def readBypassToken_def adminMerge_def
       matchGhText_def gated_snoc gated_snoc2 admin_args_def split: prod.splits option.splits)

lemma resolvePr_gated: "all_permitted (gw_calls s) \<Longrightarrow> all_permitted (gw_calls (snd (resolvePrForRun gh runId s)))"
  by (auto simp: resolvePrForRun_def and_then_def runGhJson_def parsePrList_def succeed_def fail_eff_def gated_snoc
      split: prod.splits sum.splits option.splits)
subsection \<open>The events of a run\<close>

definition emitted_events :: "loop_call list \<Rightarrow> controller_event list" where
  "emitted_events calls = concat (map (\<lambda>c. case c of Emitted e \<Rightarrow> [e] | _ \<Rightarrow> []) calls)"

definition numbered :: "string \<Rightarrow> 'w wired_world loop_world \<Rightarrow> bool" where
  "numbered runId s \<longleftrightarrow> (let posts = ww_posts (lw_world s) in
     ww_sequence (lw_world s) = length posts \<and> map er_event posts = emitted_events (lw_calls s) \<and>
     map er_sequence posts = [1..<Suc (length posts)] \<and> (\<forall>post \<in> set posts. er_runId post = runId))"

text \<open>An effect that leaves the posts alone, and one that leaves the calls to GitHub alone.\<close>

definition posts_nothing :: "('w wired_world \<Rightarrow> 'x \<times> 'w wired_world) \<Rightarrow> bool" where
  "posts_nothing f \<longleftrightarrow> (\<forall>s. ww_sequence (snd (f s)) = ww_sequence s \<and> ww_posts (snd (f s)) = ww_posts s)"

lemma perform_numbered:
  assumes "posts_nothing f" "\<And>x e. call x \<noteq> Emitted e"
  shows "keeps (numbered runId) (perform f call)"
proof -
  have "emitted_events [call x] = []" for x using assms(2) [of x] by (auto simp: emitted_events_def split: loop_call.splits)
  then have "emitted_events (cs @ [call x]) = emitted_events cs" for cs x by (simp add: emitted_events_def)
  moreover have "f w = (r, w') \<Longrightarrow> ww_sequence w' = ww_sequence w \<and> ww_posts w' = ww_posts w" for w r w'
    using assms(1) unfolding posts_nothing_def by (metis snd_conv)
  ultimately show ?thesis
    by (auto simp: keeps_def perform_def numbered_def Let_def split: prod.splits sum.splits)
qed

lemma emit_numbered: "keeps (numbered (lc_runId ctx)) (emit (buildControllerDeps ctx seams) event)"
  by (auto simp: keeps_def emit_def perform_unit_def buildControllerDeps_def buildEmit_def RECORD_BUILDER_def numbered_def
      emitted_events_def Let_def split: prod.splits)

lemma posts_nothing_on_world: "posts_nothing (on_world f)"
  by (simp add: posts_nothing_def on_world_def split: prod.splits)

definition same_posts :: "nat \<Rightarrow> runner_event_record list \<Rightarrow> 'w wired_world \<Rightarrow> bool" where
  "same_posts n posts s \<longleftrightarrow> ww_sequence s = n \<and> ww_posts s = posts"

lemma snd_answered: "snd (answered r) = snd r"
  by (simp add: answered_def split: prod.splits eff_result.splits)

lemma posts_nothing_answered: "(\<And>n posts. keeps (same_posts n posts) m) \<Longrightarrow> posts_nothing (\<lambda>s. answered (m s))"
  unfolding posts_nothing_def snd_answered keeps_def same_posts_def by blast

lemma gh_same_posts [keep_rules]:
  "keeps (same_posts n posts) (runGhJson gh args)" "keeps (same_posts n posts) (matchGhText gh args secret)"
  "keeps (same_posts n posts) (readBypassToken gh)" "keeps (same_posts n posts) (fail_eff e)"
  by (auto simp: keeps_def same_posts_def runGhJson_def matchGhText_def readBypassToken_def fail_eff_def split: prod.splits)

lemma classifyMergeSignal_posts: "keeps (same_posts n posts) (classifyMergeSignal pr gh)"
  unfolding classifyMergeSignal_def parsePrState_def classifyRequiredChecks_def parseChecksResponse_def
  by (intro keep_rules) (auto split: json.splits intro: keep_rules)

lemma merge_posts: "keeps (same_posts n posts) (mergeForClassification classification gh pr)"
  unfolding mergeForClassification_def Let_def adminMerge_def enableAutoMerge_def by (intro keep_rules)

lemma resolvePr_posts: "keeps (same_posts n posts) (resolvePrForRun gh runId)"
  unfolding resolvePrForRun_def parsePrList_def by (intro keep_rules)
subsection \<open>The contract of the wired effects\<close>

definition token_state :: "'w wired_world loop_world \<Rightarrow> bool" where
  "token_state s \<longleftrightarrow> all_permitted (gw_calls (lw_world s))"

definition outage_state :: "open_pr \<Rightarrow> 'w wired_world loop_world \<Rightarrow> bool" where
  "outage_state pr s \<longleftrightarrow> token_state s \<and> outage_seen (op_number pr) (gw_calls (lw_world s))"

lemma perform_gated:
  "(\<And>s. all_permitted (gw_calls s) \<Longrightarrow> all_permitted (gw_calls (snd (f s)))) \<Longrightarrow> keeps token_state (perform f call)"
  unfolding keeps_def perform_def token_state_def by (auto split: prod.splits sum.splits) (metis snd_conv)+

lemma perform_world_gated: "keeps token_state (perform (on_world f) call)"
  by (rule perform_gated) (simp add: on_world_def split: prod.splits)

lemma perform_unit_gated:
  "(\<And>s. gw_calls (f s) = gw_calls s) \<Longrightarrow> keeps token_state (perform_unit f call)"
  by (simp add: keeps_def perform_unit_def token_state_def)

lemma looks_gated:
  assumes "token_state s"
    and "perform (cd_classifyChecks (buildControllerDeps ctx seams) pr) ChecksClassified s = (r, s')"
  shows "token_state s' \<and> (r = Succeeds (ChecksSignal InfraDown) \<longrightarrow> outage_state pr s')"
proof -
  obtain a w where look: "classifyMergeSignal pr (se_gh seams) (lw_world s) = (a, w)" by fastforce
  from classifyMergeSignal_gated [OF assms(1) [unfolded token_state_def] look] assms(2)
  show ?thesis by (cases a) (auto simp: perform_def buildControllerDeps_def look answered_def token_state_def outage_state_def)
qed

lemma mergeWith_gated:
  assumes "token_state s" "classification = InfraDown \<Longrightarrow> outage_state pr s"
  shows "token_state (snd (mergeWith (buildControllerDeps ctx seams) classification pr s))"
proof -
  have "all_permitted (gw_calls (snd (mergeForClassification classification (se_gh seams) pr (lw_world s))))"
    using assms by (intro merge_gated) (simp_all add: token_state_def outage_state_def)
  then show ?thesis
    by (auto simp: mergeWith_def perform_def buildControllerDeps_def token_state_def answered_def
        split: prod.splits sum.splits eff_result.splits)
qed

lemma wired_seams:
  "cd_submitRun (buildControllerDeps ctx seams) input = on_world (adaptSubmit (se_submitRun seams) (se_generateRunId seams) input)"
  "cd_pollPhase (buildControllerDeps ctx seams) workflow run = on_world (se_pollPhase seams (lc_namespace ctx) run workflow)"
  "cd_loadGraph (buildControllerDeps ctx seams) = on_world (se_loadTasks seams (lc_worktreePath ctx))"
  "cd_refreshBacklog (buildControllerDeps ctx seams) = on_world (refreshBacklog ctx seams)"
  by (simp_all add: buildControllerDeps_def)

interpretation gate: controller_services "buildControllerDeps ctx seams" token_state outage_state
  for ctx :: "('c, 'b) loop_controller_context" and seams :: "'w controller_seams"
proof unfold_locales
  show "keeps token_state (mergeWith (buildControllerDeps ctx seams) Fixable pr)" for pr
    unfolding keeps_def using mergeWith_gated [where classification = Fixable] by blast
  show "token_state (snd (mergeWith (buildControllerDeps ctx seams) InfraDown pr s))" if "outage_state pr s" for pr s
    using that by (intro mergeWith_gated) (simp_all add: outage_state_def)
  show "keeps token_state (perform (cd_resolvePr (buildControllerDeps ctx seams) run) (\<lambda>r. PrResolved run))" for run
    by (rule perform_gated) (simp add: buildControllerDeps_def snd_answered resolvePr_gated)
  show "keeps token_state (emit (buildControllerDeps ctx seams) event)" for event
    unfolding emit_def by (rule perform_unit_gated) (simp add: buildControllerDeps_def buildEmit_def Let_def split: prod.splits)
  show "keeps token_state (perform_unit (cd_sleep (buildControllerDeps ctx seams) ms) (Slept ms))" for ms
    by (rule perform_unit_gated) (simp add: buildControllerDeps_def)
qed (use looks_gated in \<open>blast | simp add: submit_def wired_seams perform_world_gated\<close>)+

lemma perform_world_numbered: "(\<And>x e. call x \<noteq> Emitted e) \<Longrightarrow> keeps (numbered runId) (perform (on_world f) call)"
  by (rule perform_numbered [OF posts_nothing_on_world])

interpretation sink: controller_services "buildControllerDeps ctx seams" "numbered (lc_runId ctx)" "\<lambda>pr. numbered (lc_runId ctx)"
  for ctx :: "('c, 'b) loop_controller_context" and seams :: "'w controller_seams"
proof unfold_locales
  have looks: "keeps (numbered (lc_runId ctx)) (perform (cd_classifyChecks (buildControllerDeps ctx seams) pr) ChecksClassified)" for pr
    unfolding buildControllerDeps_def loop_controller_context.simps controller_deps.simps
    by (rule perform_numbered [OF posts_nothing_answered [OF classifyMergeSignal_posts]]) simp
  show "numbered (lc_runId ctx) s' \<and> (r = Succeeds (ChecksSignal InfraDown) \<longrightarrow> numbered (lc_runId ctx) s')"
    if "numbered (lc_runId ctx) s" "perform (cd_classifyChecks (buildControllerDeps ctx seams) pr) ChecksClassified s = (r, s')" for pr s r s'
    using keepsD [OF looks that(1), of pr] that(2) by simp
  have merges: "keeps (numbered (lc_runId ctx)) (mergeWith (buildControllerDeps ctx seams) classification pr)" for classification pr
    unfolding mergeWith_def buildControllerDeps_def controller_deps.simps
    by (rule perform_numbered [OF posts_nothing_answered [OF merge_posts]]) simp
  show "keeps (numbered (lc_runId ctx)) (mergeWith (buildControllerDeps ctx seams) Fixable pr)" for pr by (rule merges)
  show "numbered (lc_runId ctx) (snd (mergeWith (buildControllerDeps ctx seams) InfraDown pr s))" if "numbered (lc_runId ctx) s" for pr s
    by (rule keepsD [OF merges that])
  show "keeps (numbered (lc_runId ctx)) (perform (cd_resolvePr (buildControllerDeps ctx seams) run) (\<lambda>r. PrResolved run))" for run
    unfolding buildControllerDeps_def controller_deps.simps
    by (rule perform_numbered [OF posts_nothing_answered [OF resolvePr_posts]]) simp
  show "keeps (numbered (lc_runId ctx)) (perform_unit (cd_sleep (buildControllerDeps ctx seams) ms) (Slept ms))" for ms
    by (simp add: keeps_def perform_unit_def buildControllerDeps_def numbered_def emitted_events_def Let_def)
qed (simp_all add: emit_numbered submit_def wired_seams perform_world_numbered)
text \<open>
  C18: In a whole run of the loop the bypass token is only read, and a merge command is only sent to
  GitHub, right after the state and the required checks of a pull request were read and showed an
  outage; the merge is the admin merge of that pull request, and carries the token just read.
\<close>

theorem bypass_token_guarded:
  "all_permitted (gw_calls (lw_world (snd (runLoopController fuel lib (buildControllerDeps ctx seams) (wired_start w)))))"
  using keepsD [OF gate.controller_keeps, of "wired_start w" fuel lib ctx seams]
  by (simp add: token_state_def wired_start_def gated_Nil)

text \<open>
  The records posted to the event sink in a run of the loop are exactly the events it emitted, in
  their order, under the run's id and numbered from 1 without a gap.
\<close>

theorem loop_events_numbered:
  "numbered (lc_runId ctx) (snd (runLoopController fuel lib (buildControllerDeps ctx seams) (wired_start w)))"
  using keepsD [OF sink.controller_keeps, of ctx "wired_start w" fuel lib seams]
  by (simp add: numbered_def wired_start_def emitted_events_def)

subsection \<open>Pull requests that are open and green\<close>

fun is_text :: "gh_call \<Rightarrow> bool" where
  "is_text (GhText args secret r) = True" | "is_text c = False"

text \<open>GitHub answers that the pull request is open and that no required check gives a verdict against it.\<close>

definition stays_green :: "'w gh_env \<Rightarrow> open_pr \<Rightarrow> bool" where
  "stays_green gh pr \<longleftrightarrow>
     (\<forall>w. \<exists>w' v. gh_json gh (view_args (op_number pr)) w = (Inr v, w') \<and> json_field v ''state'' = Some (JStr ''OPEN'')) \<and>
     (\<forall>w. \<exists>w' v checks. gh_json gh (checks_args (op_number pr)) w = (Inr v, w') \<and> checksResponse v = Some checks \<and>
        classifyChecks checks = Indeterminate)"

lemma green_look:
  assumes "stays_green (se_gh seams) pr"
  shows "\<exists>s'. perform (cd_classifyChecks (buildControllerDeps ctx seams) pr) ChecksClassified s =
      (Succeeds (ChecksSignal Indeterminate), s') \<and>
    filter is_text (gw_calls (lw_world s')) = filter is_text (gw_calls (lw_world s))"
proof -
  obtain w1 v where view: "gh_json (se_gh seams) (view_args (op_number pr)) (gw_world (lw_world s)) = (Inr v, w1)"
    "json_field v ''state'' = Some (JStr ''OPEN'')" using assms unfolding stays_green_def by blast
  obtain w2 c checks where look: "gh_json (se_gh seams) (checks_args (op_number pr)) w1 = (Inr c, w2)"
    "checksResponse c = Some checks" "classifyChecks checks = Indeterminate" using assms unfolding stays_green_def by blast
  show ?thesis
    using view look unfolding view_args_def checks_args_def
    by (simp add: perform_def buildControllerDeps_def classifyMergeSignal_def classifyRequiredChecks_def parsePrState_def
        parseChecksResponse_def runGhJson_def and_then_def succeed_def answered_def)
qed

lemma green_merge:
  assumes "stays_green (se_gh seams) (ml_pr st)"
  shows "\<exists>s'. resolveMerge (buildControllerDeps ctx seams) st s = (Succeeds BLOCKED, s') \<and>
    filter is_text (gw_calls (lw_world s')) = filter is_text (gw_calls (lw_world s))"
  using assms
proof (induction "lc_maxMergePolls ctx - ml_mergePolls st" arbitrary: st s)
  case 0
  obtain s1 where "perform (cd_classifyChecks (buildControllerDeps ctx seams) (ml_pr st)) ChecksClassified s =
      (Succeeds (ChecksSignal Indeterminate), s1)" "filter is_text (gw_calls (lw_world s1)) = filter is_text (gw_calls (lw_world s))"
    using green_look 0 by blast
  with 0 show ?case unfolding resolveMerge.simps [of "buildControllerDeps ctx seams" st s]
    by (simp add: loop_effects) (simp add: buildControllerDeps_def buildEmit_def Let_def split: prod.splits)
next
  case (Suc n)
  obtain s1 where look: "perform (cd_classifyChecks (buildControllerDeps ctx seams) (ml_pr st)) ChecksClassified s =
      (Succeeds (ChecksSignal Indeterminate), s1)" "filter is_text (gw_calls (lw_world s1)) = filter is_text (gw_calls (lw_world s))"
    using green_look Suc by blast
  let ?st = "st\<lparr>ml_mergePolls := ml_mergePolls st + 1\<rparr>"
  have less: "\<not> cd_maxMergePolls (buildControllerDeps ctx seams) \<le> ml_mergePolls st"
    using Suc(2) by (simp add: buildControllerDeps_def)
  obtain s2 where step: "dispatchPollAction (buildControllerDeps ctx seams) st WaitAction s1 = (Succeeds (ContinueDecision ?st), s2)"
    "gw_calls (lw_world s2) = gw_calls (lw_world s1)"
    by (simp add: waitNode_def less and_then_def perform_unit_def succeed_def) (simp add: buildControllerDeps_def)
  have "n = lc_maxMergePolls ctx - ml_mergePolls ?st" "stays_green (se_gh seams) (ml_pr ?st)" using Suc by simp_all
  from Suc(1) [OF this, of s2] look step show ?case
    unfolding resolveMerge.simps [of "buildControllerDeps ctx seams" st s] by simp
qed
text \<open>
  A ticket whose run succeeded and whose pull request stays open, with no required check against
  it, is blocked after the configured number of polls, and no merge command was ever sent: the
  controller asks for a merge when it starts to follow the pull request, but with the
  classification that maps to no action, so that GitHub's auto-merge is never armed.
\<close>

theorem green_pull_request_blocked:
  assumes "adaptSubmit (se_submitRun seams) (se_generateRunId seams)
      \<lparr>sr_deliveryMode = CreateNewPr, sr_headBranch = None, sr_repositorySha = None, sr_ticketId = ticket\<rparr> w1 = (Inr run, w2)"
    and "w1 = gw_world (lw_world (snd (transition (buildControllerDeps ctx seams) ticket Running s)))"
    and "se_pollPhase seams (lc_namespace ctx) (sm_runId run) (sm_workflowName run) w2 = (Inr Succeeded, w3)"
    and "gh_json (se_gh seams)
      [''pr'', ''list'', ''--head'', ''moka/run/'' @ sm_runId run, ''--json'', ''number,headRefName,url''] w3 = (Inr found, w4)"
    and "json_all prListItem (Some found) = Some (pr # others)"
    and "stays_green (se_gh seams) pr"
  shows "\<exists>s'. resolveTicket (buildControllerDeps ctx seams) ticket s = (Succeeds BLOCKED, s') \<and>
    filter is_text (gw_calls (lw_world s')) = filter is_text (gw_calls (lw_world s))"
proof -
  let ?deps = "buildControllerDeps ctx seams"
  obtain s1 where s1: "transition ?deps ticket Running s = (Succeeds (), s1)" "gw_calls (lw_world s1) = gw_calls (lw_world s)"
    by (simp add: transition_def emit_def perform_unit_def) (simp add: buildControllerDeps_def buildEmit_def Let_def split: prod.splits)
  obtain s2 where s2: "submit ?deps \<lparr>sr_deliveryMode = CreateNewPr, sr_headBranch = None, sr_repositorySha = None,
      sr_ticketId = ticket\<rparr> s1 = (Succeeds run, s2)" "gw_calls (lw_world s2) = gw_calls (lw_world s1)" "gw_world (lw_world s2) = w2"
    using assms(1,2) s1(1) by (simp add: submit_def perform_def wired_seams on_world_def)
  obtain s3 where s3: "perform (cd_pollPhase ?deps (sm_workflowName run) (sm_runId run)) (\<lambda>phase. PhasePolled (sm_runId run)) s2 =
      (Succeeds Succeeded, s3)" "gw_calls (lw_world s3) = gw_calls (lw_world s2)" "gw_world (lw_world s3) = w3"
    using assms(3) s2(3) by (simp add: perform_def wired_seams on_world_def)
  obtain s4 where s4: "perform (cd_resolvePr ?deps (sm_runId run)) (\<lambda>r. PrResolved (sm_runId run)) s3 = (Succeeds (Some pr), s4)"
    "filter is_text (gw_calls (lw_world s4)) = filter is_text (gw_calls (lw_world s3))"
    using assms(4,5) s3(3) by (simp add: perform_def buildControllerDeps_def resolvePrForRun_def runGhJson_def parsePrList_def
        toPrResolution_def js_nth_def and_then_def succeed_def answered_def)
  obtain s5 where s5: "transition ?deps ticket Merging s4 = (Succeeds (), s5)" "gw_calls (lw_world s5) = gw_calls (lw_world s4)"
    by (simp add: transition_def emit_def perform_unit_def) (simp add: buildControllerDeps_def buildEmit_def Let_def split: prod.splits)
  obtain s6 where s6: "mergeWith ?deps Fixable pr s5 = (Succeeds None, s6)" "gw_calls (lw_world s6) = gw_calls (lw_world s5)"
    by (simp add: mergeWith_def perform_def buildControllerDeps_def mergeForClassification_def selectMergeAction_def
        succeed_def answered_def)
  let ?st = "\<lparr>ml_mergePolls = 0, ml_pr = pr, ml_remediationAttempts = 0, ml_runId = sm_runId run, ml_ticketId = ticket\<rparr>"
  have "stays_green (se_gh seams) (ml_pr ?st)" using assms(6) by simp
  from green_merge [OF this, of ctx s6] show ?thesis
    unfolding resolveTicket_def and_then_def s1(1) s2(1) s3(1) s4(1)
    by (simp add: s1 s2(1,2) s3(1,2) s4 s5 s6)
qed
text \<open>A GitHub where the run's pull request is open and its only required check succeeded.\<close>

definition sample_gh :: "unit gh_env" where
  "sample_gh = \<lparr>
     gh_json = (\<lambda>args w. (Inr (
       if args ! 1 = ''list'' then JArr [JObj [(''headRefName'', JStr ''h''), (''number'', JNum 7), (''url'', JStr ''u'')]]
       else if args ! 1 = ''view'' then JObj [(''state'', JStr ''OPEN'')]
       else JObj [(''checkRuns'', JArr [JObj [(''conclusion'', JStr ''success''), (''name'', JStr ''ci''), (''required'', JBool True),
         (''status'', JStr ''completed'')]])]), w)),
     gh_text = (\<lambda>args secret w. (Inl ''unused'', w)), gh_token = (\<lambda>w. (None, w)), gh_describe = (\<lambda>v. [])\<rparr>"

definition sample_seams :: "unit controller_seams" where
  "sample_seams = \<lparr>se_generateRunId = Pair ''r'', se_gh = sample_gh, se_gitRefresh = (\<lambda>path. Pair (Inr ())),
     se_loadTasks = (\<lambda>path. Pair (Inr [])), se_now = Pair [], se_pollPhase = (\<lambda>ns run name. Pair (Inr Succeeded)),
     se_postEvent = (\<lambda>r w. w), se_sleep = (\<lambda>ms w. w), se_submitRun = (\<lambda>request. Pair (Inr ''w''))\<rparr>"

definition sample_loop_context :: "(unit, unit) loop_controller_context" where
  "sample_loop_context = \<lparr>lc_baseBranch = ''main'', lc_brokerAuth = (), lc_config = (), lc_eventUrl = [], lc_gitCredentialsSecretName = [],
     lc_githubAuthSecretName = None, lc_maxMergePolls = 3, lc_maxRemediationAttempts = 1, lc_namespace = ''n'', lc_project = ''p'',
     lc_rootId = None, lc_runId = ''loop'', lc_serviceAccountName = None, lc_strategy = Dfs, lc_url = [], lc_worktreePath = []\<rparr>"

lemma sample_green: "stays_green sample_gh \<lparr>op_headRefName = ''h'', op_number = 7, op_url = ''u''\<rparr>"
  by (simp add: stays_green_def view_args_def checks_args_def sample_gh_def checksResponse_def checkRun_def classifyChecks_def
      checkRunSignal_def CONCLUSION_CLASS_TABLE_def)

lemma green_pull_request_blocked_witness:
  "\<exists>s'. resolveTicket (buildControllerDeps sample_loop_context sample_seams) ''t'' (wired_start ()) = (Succeeds BLOCKED, s') \<and>
     filter is_text (gw_calls (lw_world s')) = []"
proof -
  have run: "adaptSubmit (se_submitRun sample_seams) (se_generateRunId sample_seams) input w =
      (Inr \<lparr>sm_runId = ''r'', sm_workflowName = ''w''\<rparr>, w)" for input w
    by (simp add: adaptSubmit_def sample_seams_def)
  show ?thesis
    using green_pull_request_blocked [OF run refl, where ctx = sample_loop_context and s = "wired_start ()" and others = "[]"
        and pr = "\<lparr>op_headRefName = ''h'', op_number = 7, op_url = ''u''\<rparr>" and ?w3.0 = "()" and ?w4.0 = "()"
        and found = "JArr [JObj [(''headRefName'', JStr ''h''), (''number'', JNum 7), (''url'', JStr ''u'')]]"]
    using sample_green by (simp add: sample_seams_def sample_gh_def sample_loop_context_def wired_start_def prListItem_def)
qed

end
