(* ===== verification/ArgoPoll.thy ===== *)
theory ArgoPoll
  imports LoopController JsData
begin

text \<open>
  Waiting for a run's workflow (\<^verbatim>\<open>src/loop/argo-poll.ts\<close>): the phase of an Argo workflow is read until
  it is terminal, and errors of the Kubernetes API are retried. The API's answers, in the order they
  are asked for, are the parameter \<open>answers\<close>: an error or the resource. The state counts the
  reads and lists the reports and sleeps. Fuel bounds the nesting of the recursion.
\<close>

datatype workflow_phase = PhaseRunning | PhasePending | PhaseUnscheduled | PhaseEnded terminal_phase

definition TERMINAL_PHASES :: "string list" where
  "TERMINAL_PHASES = [''Succeeded'', ''Failed'', ''Error'']"

definition KNOWN_RUNNING_PHASES :: "string list" where
  "KNOWN_RUNNING_PHASES = [''Running'', ''Pending'', '''']"

definition classifyPhase :: "string \<Rightarrow> workflow_phase" where
  "classifyPhase raw =
     (if raw \<in> set TERMINAL_PHASES
      then if raw = ''Succeeded'' then PhaseEnded Succeeded
           else if raw = ''Failed'' then PhaseEnded PhaseFailed else PhaseEnded PhaseError
      else if raw \<in> set KNOWN_RUNNING_PHASES
      then if raw = ''Running'' then PhaseRunning else if raw = ''Pending'' then PhasePending else PhaseUnscheduled
      else PhaseRunning)"

definition extractRawPhase :: "json \<Rightarrow> string" where
  "extractRawPhase resource =
     (if \<not> isRecord resource then []
      else case json_field resource ''status'' of
        None \<Rightarrow> []
      | Some status \<Rightarrow> if \<not> isRecord status then [] else or_else (json_string (json_field status ''phase'')) [])"

datatype poll_call = ErrorReported string nat | PollSlept nat

record poll_world =
  pw_reads :: nat
  pw_calls :: "poll_call list"

definition getWorkflowPhase :: "(nat \<Rightarrow> string + json) \<Rightarrow> (poll_world, workflow_phase) eff" where
  "getWorkflowPhase answers s =
     (case answers (pw_reads s) of Inl e \<Rightarrow> Fails e | Inr resource \<Rightarrow> Succeeds (classifyPhase (extractRawPhase resource)),
      s\<lparr>pw_reads := pw_reads s + 1\<rparr>)"

definition poll_call_made :: "poll_call \<Rightarrow> (poll_world, unit) eff" where
  "poll_call_made call s = (Succeeds (), s\<lparr>pw_calls := pw_calls s @ [call]\<rparr>)"

definition RETRY_BASE_DELAY_MS :: nat where
  "RETRY_BASE_DELAY_MS = 250"

definition DEFAULT_POLL_INTERVAL_MS :: nat where
  "DEFAULT_POLL_INTERVAL_MS = 5000"

definition DEFAULT_MAX_RETRIES :: nat where
  "DEFAULT_MAX_RETRIES = 10"

text \<open>\<open>Effect.catchCause\<close>: only an error reaches the handler; nothing here dies or is interrupted.\<close>

definition catch_error :: "('s, 'x) eff \<Rightarrow> (string \<Rightarrow> ('s, 'x) eff) \<Rightarrow> ('s, 'x) eff" where
  "catch_error m h s = (case m s of (Fails e, s') \<Rightarrow> h e s' | r \<Rightarrow> r)"

record poll_options =
  po_maxRetries :: nat
  po_pollIntervalMs :: nat

primrec pollLoop :: "nat \<Rightarrow> (nat \<Rightarrow> string + json) \<Rightarrow> poll_options \<Rightarrow> nat \<Rightarrow> (poll_world, terminal_phase) eff" where
  "pollLoop 0 answers options errorCount = unfinished"
| "pollLoop (Suc fuel) answers options errorCount =
     catch_error
       (and_then (getWorkflowPhase answers) (\<lambda>phase.
        case phase of
          PhaseEnded t \<Rightarrow> succeed t
        | _ \<Rightarrow> and_then (poll_call_made (PollSlept (po_pollIntervalMs options))) (\<lambda>_. pollLoop fuel answers options 0)))
       (\<lambda>error.
        let nextErrorCount = errorCount + 1 in
        and_then (poll_call_made (ErrorReported error nextErrorCount)) (\<lambda>_.
        if nextErrorCount > po_maxRetries options then fail_eff error
        else and_then (poll_call_made (PollSlept (RETRY_BASE_DELAY_MS * 2 ^ (nextErrorCount - 1)))) (\<lambda>_.
             pollLoop fuel answers options nextErrorCount)))"

definition pollWorkflowPhaseUntilTerminal ::
  "nat \<Rightarrow> (nat \<Rightarrow> string + json) \<Rightarrow> nat option \<Rightarrow> nat option \<Rightarrow> (poll_world, terminal_phase) eff" where
  "pollWorkflowPhaseUntilTerminal fuel answers maxRetries pollIntervalMs =
     pollLoop fuel answers
       \<lparr>po_maxRetries = or_else maxRetries DEFAULT_MAX_RETRIES,
        po_pollIntervalMs = or_else pollIntervalMs DEFAULT_POLL_INTERVAL_MS\<rparr> 0"

definition poll_start :: poll_world where
  "poll_start = \<lparr>pw_reads = 0, pw_calls = []\<rparr>"

declare pollLoop.simps(2) [simp del]

subsection \<open>The phase returned\<close>

definition phase_at :: "(nat \<Rightarrow> string + json) \<Rightarrow> nat \<Rightarrow> workflow_phase option" where
  "phase_at answers i = (case answers i of Inl e \<Rightarrow> None | Inr resource \<Rightarrow> Some (classifyPhase (extractRawPhase resource)))"

lemma classifyPhase_ended: "classifyPhase raw = PhaseEnded t \<longleftrightarrow>
    (raw, t) \<in> {(''Succeeded'', Succeeded), (''Failed'', PhaseFailed), (''Error'', PhaseError)}"
  by (auto simp: classifyPhase_def TERMINAL_PHASES_def KNOWN_RUNNING_PHASES_def)

fun running :: "workflow_phase option \<Rightarrow> bool" where
  "running (Some (PhaseEnded t)) \<longleftrightarrow> False" | "running None \<longleftrightarrow> False" | "running (Some p) \<longleftrightarrow> True"

lemma pollLoop_ended:
  assumes "phase_at answers (pw_reads s) = Some (PhaseEnded t)"
  shows "pollLoop (Suc fuel) answers options e s = (Succeeds t, s\<lparr>pw_reads := pw_reads s + 1\<rparr>)"
  using assms by (auto simp: pollLoop.simps catch_error_def and_then_def getWorkflowPhase_def phase_at_def succeed_def split: sum.splits)

text \<open>What a level of the recursion does with the outcome of the level below, and with an error.\<close>

definition handled :: "nat \<Rightarrow> (nat \<Rightarrow> string + json) \<Rightarrow> poll_options \<Rightarrow> nat \<Rightarrow> terminal_phase eff_result \<times> poll_world \<Rightarrow>
  terminal_phase eff_result \<times> poll_world" where
  "handled fuel answers options e r = (case r of
     (Fails error, s) \<Rightarrow>
       let s1 = s\<lparr>pw_calls := pw_calls s @ [ErrorReported error (e + 1)]\<rparr> in
       if e + 1 > po_maxRetries options then (Fails error, s1)
       else pollLoop fuel answers options (e + 1) (s1\<lparr>pw_calls := pw_calls s1 @ [PollSlept (RETRY_BASE_DELAY_MS * 2 ^ e)]\<rparr>)
   | r \<Rightarrow> r)"

lemma pollLoop_running:
  assumes "running (phase_at answers (pw_reads s))"
  shows "pollLoop (Suc fuel) answers options e s = handled fuel answers options e
    (pollLoop fuel answers options 0 (s\<lparr>pw_reads := pw_reads s + 1, pw_calls := pw_calls s @ [PollSlept (po_pollIntervalMs options)]\<rparr>))"
  using assms
  by (auto simp: pollLoop.simps catch_error_def and_then_def getWorkflowPhase_def phase_at_def handled_def poll_call_made_def
      fail_eff_def Let_def split: sum.splits workflow_phase.splits prod.splits eff_result.splits)

lemma pollLoop_error:
  assumes "answers (pw_reads s) = Inl error"
  shows "pollLoop (Suc fuel) answers options e s = handled fuel answers options e (Fails error, s\<lparr>pw_reads := pw_reads s + 1\<rparr>)"
  using assms
  by (simp add: pollLoop.simps catch_error_def and_then_def getWorkflowPhase_def handled_def poll_call_made_def fail_eff_def Let_def)

lemma answer_cases:
  obtains (ended) t where "phase_at answers i = Some (PhaseEnded t)" | (goes_on) "running (phase_at answers i)"
  | (error) e where "answers i = Inl e" "phase_at answers i = None"
  by (cases "answers i"; cases "classifyPhase (extractRawPhase (projr (answers i)))") (auto simp: phase_at_def)
fun ended :: "workflow_phase option \<Rightarrow> bool" where
  "ended (Some (PhaseEnded t)) \<longleftrightarrow> True" | "ended p \<longleftrightarrow> False"

lemma running_not_ended: "running p \<Longrightarrow> \<not> ended p"
  by (cases p rule: running.cases) auto

text \<open>What was read from position \<open>p\<close> on: nothing terminal before the phase returned.\<close>

definition honest :: "(nat \<Rightarrow> string + json) \<Rightarrow> nat \<Rightarrow> terminal_phase eff_result \<times> poll_world \<Rightarrow> bool" where
  "honest answers p r \<longleftrightarrow> p \<le> pw_reads (snd r) \<and> (case fst r of
     Succeeds t \<Rightarrow> p < pw_reads (snd r) \<and> phase_at answers (pw_reads (snd r) - 1) = Some (PhaseEnded t) \<and>
       (\<forall>i. p \<le> i \<and> i < pw_reads (snd r) - 1 \<longrightarrow> \<not> ended (phase_at answers i))
   | _ \<Rightarrow> (\<forall>i. p \<le> i \<and> i < pw_reads (snd r) \<longrightarrow> \<not> ended (phase_at answers i)))"

lemma honest_later:
  assumes "honest answers q r" "p \<le> q" "\<And>i. p \<le> i \<Longrightarrow> i < q \<Longrightarrow> \<not> ended (phase_at answers i)"
  shows "honest answers p r"
proof -
  have "\<not> ended (phase_at answers i)" if "p \<le> i" "i < n" "\<forall>i. q \<le> i \<and> i < n \<longrightarrow> \<not> ended (phase_at answers i)" for i n
    using that assms(3) by (cases "i < q") auto
  then show ?thesis using assms(1,2) unfolding honest_def by (auto split: eff_result.splits)
qed

lemma handled_honest:
  assumes "\<And>e s. honest answers (pw_reads s) (pollLoop fuel answers options e s)" "honest answers p r"
  shows "honest answers p (handled fuel answers options e r)"
proof (cases "fst r")
  case (Fails error)
  then obtain s where r: "r = (Fails error, s)" by (cases r) simp
  have s: "p \<le> pw_reads s" "\<And>i. p \<le> i \<Longrightarrow> i < pw_reads s \<Longrightarrow> \<not> ended (phase_at answers i)"
    using assms(2) by (auto simp: honest_def r)
  have retried: "honest answers p (pollLoop fuel answers options e' s')" if "pw_reads s' = pw_reads s" for e' s'
    using honest_later [OF assms(1) [of s' e'], of p] s that by simp
  show ?thesis using s by (auto simp: handled_def r Let_def retried) (simp add: honest_def)
qed (use assms(2) in \<open>cases r; simp add: handled_def\<close>)+

lemma pollLoop_honest: "honest answers (pw_reads s) (pollLoop fuel answers options e s)"
proof (induction fuel arbitrary: e s)
  case 0
  then show ?case by (auto simp: honest_def unfinished_def)
next
  case (Suc fuel)
  show ?case
  proof (cases rule: answer_cases [where answers = answers and i = "pw_reads s"])
    case (ended t)
    then show ?thesis by (auto simp: pollLoop_ended honest_def)
  next
    case goes_on
    let ?s = "s\<lparr>pw_reads := pw_reads s + 1, pw_calls := pw_calls s @ [PollSlept (po_pollIntervalMs options)]\<rparr>"
    have "honest answers (pw_reads s) (pollLoop fuel answers options 0 ?s)"
      using running_not_ended [OF goes_on] le_less_Suc_eq by (intro honest_later [OF Suc.IH [of ?s 0]]) auto
    then show ?thesis unfolding pollLoop_running [OF goes_on] by (rule handled_honest [OF Suc.IH])
  next
    case (error err)
    have "honest answers (pw_reads s) (Fails err, s\<lparr>pw_reads := pw_reads s + 1\<rparr>)"
      using error(2) le_less_Suc_eq by (auto simp: honest_def)
    then show ?thesis unfolding pollLoop_error [where s = s and answers = answers, OF error(1)] by (rule handled_honest [OF Suc.IH])
  qed
qed

subsection \<open>Errors in a row\<close>

text \<open>No more than \<open>po_maxRetries\<close> reads in a row fail before the answer \<open>n\<close>.\<close>

definition bursts_short :: "(nat \<Rightarrow> string + json) \<Rightarrow> poll_options \<Rightarrow> nat \<Rightarrow> bool" where
  "bursts_short answers options n \<longleftrightarrow> (\<forall>i < n. \<exists>j \<le> po_maxRetries options. phase_at answers (i + j) \<noteq> None)"

lemma pollLoop_returns:
  assumes "phase_at answers n = Some (PhaseEnded t)" "\<And>i. i < n \<Longrightarrow> \<not> ended (phase_at answers i)"
    and "bursts_short answers options n"
    and "pw_reads s \<le> n" "n - pw_reads s < fuel"
    and "\<exists>j. j + e \<le> po_maxRetries options \<and> phase_at answers (pw_reads s + j) \<noteq> None"
  shows "\<exists>s'. pollLoop fuel answers options e s = (Succeeds t, s') \<and> pw_reads s' = n + 1"
  using assms(4-6)
proof (induction fuel arbitrary: e s)
  case (Suc fuel)
  show ?case
  proof (cases "pw_reads s = n")
    case True
    then show ?thesis using pollLoop_ended [of answers s t] assms(1) by simp
  next
    case False
    then have less: "pw_reads s < n" using Suc.prems(1) by simp
    then have left: "n - Suc (pw_reads s) < fuel" using Suc.prems(2) by arith
    show ?thesis
    proof (cases rule: answer_cases [where answers = answers and i = "pw_reads s"])
      case (ended u)
      then show ?thesis using assms(2) [OF less] by simp
    next
      case goes_on
      let ?s = "s\<lparr>pw_reads := pw_reads s + 1, pw_calls := pw_calls s @ [PollSlept (po_pollIntervalMs options)]\<rparr>"
      have "\<exists>j. j + 0 \<le> po_maxRetries options \<and> phase_at answers (pw_reads ?s + j) \<noteq> None"
      proof (cases "pw_reads s + 1 = n")
        case True
        then show ?thesis using assms(1) by (intro exI [of _ 0]) simp
      next
        case False
        then obtain j where "j \<le> po_maxRetries options" "phase_at answers (pw_reads s + 1 + j) \<noteq> None"
          using assms(3) less unfolding bursts_short_def by (metis Suc_eq_plus1 Suc_lessI)
        then show ?thesis by (intro exI [of _ j]) simp
      qed
      from Suc.IH [OF _ _ this] obtain s' where "pollLoop fuel answers options 0 ?s = (Succeeds t, s')" "pw_reads s' = n + 1"
        using less left by auto
      then show ?thesis unfolding pollLoop_running [OF goes_on] by (simp add: handled_def)
    next
      case (error err)
      obtain j where j: "j + e \<le> po_maxRetries options" "phase_at answers (pw_reads s + j) \<noteq> None" using Suc.prems(3) by blast
      then obtain j' where j': "j = Suc j'" using error(2) by (cases j) auto
      let ?s = "s\<lparr>pw_reads := pw_reads s + 1, pw_calls := pw_calls s @ [ErrorReported err (e + 1), PollSlept (RETRY_BASE_DELAY_MS * 2 ^ e)]\<rparr>"
      have "\<exists>j. j + (e + 1) \<le> po_maxRetries options \<and> phase_at answers (pw_reads ?s + j) \<noteq> None"
        using j j' by (intro exI [of _ j']) auto
      from Suc.IH [OF _ _ this] obtain s' where "pollLoop fuel answers options (e + 1) ?s = (Succeeds t, s')" "pw_reads s' = n + 1"
        using less left by auto
      then show ?thesis unfolding pollLoop_error [where s = s and answers = answers, OF error(1)] using j(1) j' by (auto simp: handled_def)
    qed
  qed
qed simp

lemma pollLoop_gives_up:
  assumes "\<And>i. pw_reads s \<le> i \<Longrightarrow> phase_at answers i = None" "e \<le> po_maxRetries options" "po_maxRetries options - e < fuel"
  shows "\<exists>error s'. pollLoop fuel answers options e s = (Fails error, s') \<and> pw_reads s' = pw_reads s + (po_maxRetries options - e) + 1"
  using assms
proof (induction fuel arbitrary: e s)
  case (Suc fuel)
  obtain err where err: "answers (pw_reads s) = Inl err" using Suc.prems(1) [of "pw_reads s"] by (auto simp: phase_at_def split: sum.splits)
  show ?case
  proof (cases "e = po_maxRetries options")
    case True
    then show ?thesis unfolding pollLoop_error [where s = s and answers = answers, OF err] by (simp add: handled_def)
  next
    case False
    let ?s = "s\<lparr>pw_reads := pw_reads s + 1, pw_calls := pw_calls s @ [ErrorReported err (e + 1), PollSlept (RETRY_BASE_DELAY_MS * 2 ^ e)]\<rparr>"
    obtain error s' where "pollLoop fuel answers options (e + 1) ?s = (Fails error, s')"
        "pw_reads s' = pw_reads ?s + (po_maxRetries options - (e + 1)) + 1"
      using Suc.IH [of ?s "e + 1"] Suc.prems False by fastforce
    then show ?thesis unfolding pollLoop_error [where s = s and answers = answers, OF err] using False Suc.prems(2) by (auto simp: handled_def)
  qed
qed simp

lemma pollLoop_budget:
  assumes "\<And>i. pw_reads s \<le> i \<Longrightarrow> i < pw_reads s + k \<Longrightarrow> running (phase_at answers i)"
    and "\<And>i. pw_reads s + k \<le> i \<Longrightarrow> phase_at answers i = None" "k + po_maxRetries options < fuel"
  shows "\<exists>error s'. pollLoop fuel answers options 0 s = (Fails error, s') \<and> pw_reads s' = pw_reads s + (k + 1) * (po_maxRetries options + 1)"
  using assms
proof (induction k arbitrary: fuel s)
  case 0
  then show ?case using pollLoop_gives_up [of s answers 0 options fuel] by auto
next
  case (Suc k)
  obtain fuel' where fuel: "fuel = Suc fuel'" using Suc.prems(3) by (cases fuel) auto
  let ?max = "po_maxRetries options"
  let ?s = "s\<lparr>pw_reads := pw_reads s + 1, pw_calls := pw_calls s @ [PollSlept (po_pollIntervalMs options)]\<rparr>"
  obtain error s' where below: "pollLoop fuel' answers options 0 ?s = (Fails error, s')" "pw_reads s' = pw_reads ?s + (k + 1) * (?max + 1)"
    using Suc.IH [of ?s fuel'] Suc.prems fuel by fastforce
  have now: "running (phase_at answers (pw_reads s))" using Suc.prems(1) by simp
  have far: "pw_reads s + Suc k \<le> pw_reads s'" using below(2) by simp
  show ?case
  proof (cases "?max = 0")
    case True
    then show ?thesis unfolding fuel pollLoop_running [OF now] below(1) using below(2) by (simp add: handled_def)
  next
    case False
    let ?r = "s'\<lparr>pw_calls := pw_calls s' @ [ErrorReported error 1, PollSlept RETRY_BASE_DELAY_MS]\<rparr>"
    have retried: "\<exists>error s''. pollLoop fuel' answers options 1 ?r = (Fails error, s'') \<and> pw_reads s'' = pw_reads ?r + (?max - 1) + 1"
      using Suc.prems(2,3) far False fuel by (intro pollLoop_gives_up) auto
    have "handled fuel' answers options 0 (Fails error, s') = pollLoop fuel' answers options 1 ?r"
      using False by (simp add: handled_def)
    with retried below(2) False show ?thesis
      unfolding fuel pollLoop_running [OF now] below(1) by auto
  qed
qed
definition options_of :: "nat option \<Rightarrow> nat option \<Rightarrow> poll_options" where
  "options_of maxRetries pollIntervalMs =
     \<lparr>po_maxRetries = or_else maxRetries DEFAULT_MAX_RETRIES, po_pollIntervalMs = or_else pollIntervalMs DEFAULT_POLL_INTERVAL_MS\<rparr>"

lemma poll_with_options:
  "pollWorkflowPhaseUntilTerminal fuel answers maxRetries pollIntervalMs = pollLoop fuel answers (options_of maxRetries pollIntervalMs) 0"
  by (simp add: pollWorkflowPhaseUntilTerminal_def options_of_def)

text \<open>
  The poller returns the first terminal phase the workflow reports, right after reading it,
  provided that before it no more than \<open>maxRetries\<close> reads in a row fail.
\<close>

theorem poll_returns_first_phase:
  assumes "phase_at answers n = Some (PhaseEnded t)" "\<forall>i < n. \<not> ended (phase_at answers i)"
    and "bursts_short answers (options_of maxRetries pollIntervalMs) n" "n < fuel"
  shows "\<exists>s'. pollWorkflowPhaseUntilTerminal fuel answers maxRetries pollIntervalMs poll_start = (Succeeds t, s') \<and>
    pw_reads s' = n + 1"
proof -
  let ?options = "options_of maxRetries pollIntervalMs"
  have start: "\<exists>j. j + 0 \<le> po_maxRetries ?options \<and> phase_at answers (pw_reads poll_start + j) \<noteq> None"
  proof (cases n)
    case 0
    then show ?thesis using assms(1) by (intro exI [of _ 0]) (simp add: poll_start_def)
  next
    case (Suc m)
    then obtain j where "j \<le> po_maxRetries ?options" "phase_at answers (0 + j) \<noteq> None"
      using assms(3) unfolding bursts_short_def by blast
    then show ?thesis by (intro exI [of _ j]) (simp add: poll_start_def)
  qed
  show ?thesis
    unfolding poll_with_options
    using pollLoop_returns [OF assms(1) _ assms(3) _ _ start, of fuel] assms(2,4) by (simp add: poll_start_def)
qed

text \<open>
  The poller never makes up a terminal phase: the phase it returns is the one it read last, and
  none before it was terminal; when it fails or is still polling, it has read no terminal phase.
\<close>

theorem poll_phase_was_read:
  "honest answers 0 (pollWorkflowPhaseUntilTerminal fuel answers maxRetries pollIntervalMs poll_start)"
  unfolding poll_with_options using pollLoop_honest [of answers poll_start] by (simp add: poll_start_def)

text \<open>
  When a workflow was seen running \<open>k\<close> times and then the API fails for good, the poller
  gives up only after \<open>(k + 1) * (maxRetries + 1)\<close> reads: each running read leaves a handler
  around the rest of the poll, which starts the budget of consecutive errors again when the rest fails.
\<close>

theorem poll_error_budget:
  assumes "\<forall>i < k. running (phase_at answers i)" "\<forall>i \<ge> k. phase_at answers i = None"
    and "k + or_else maxRetries DEFAULT_MAX_RETRIES < fuel"
  shows "\<exists>error s'. pollWorkflowPhaseUntilTerminal fuel answers maxRetries pollIntervalMs poll_start = (Fails error, s') \<and>
    pw_reads s' = (k + 1) * (or_else maxRetries DEFAULT_MAX_RETRIES + 1)"
  using pollLoop_budget [of poll_start k answers "options_of maxRetries pollIntervalMs" fuel] assms
  unfolding poll_with_options by (simp add: poll_start_def options_of_def)

text \<open>A workflow that is pending, then unreachable, then running, then has succeeded; and one that is lost.\<close>

definition phase_resource :: "string \<Rightarrow> json" where
  "phase_resource phase = JObj [(''status'', JObj [(''phase'', JStr phase)])]"

definition sample_workflow :: "nat \<Rightarrow> string + json" where
  "sample_workflow i = (if i = 0 then Inr (JObj []) else if i = 1 then Inl ''timeout''
     else if i = 2 then Inr (phase_resource ''Running'') else Inr (phase_resource ''Succeeded''))"

definition lost_workflow :: "nat \<Rightarrow> string + json" where
  "lost_workflow i = (if i < 2 then Inr (phase_resource ''Running'') else Inl ''gone'')"

lemmas sample_phases = phase_at_def sample_workflow_def lost_workflow_def extractRawPhase_def phase_resource_def classifyPhase_def
  TERMINAL_PHASES_def KNOWN_RUNNING_PHASES_def

lemma sample_phase:
  "phase_at sample_workflow 0 = Some PhaseUnscheduled" "phase_at sample_workflow (Suc 0) = None"
  "phase_at sample_workflow 2 = Some PhaseRunning" "phase_at sample_workflow 3 = Some (PhaseEnded Succeeded)"
  by (simp_all add: sample_phases)

lemma poll_returns_first_phase_witness:
  "\<exists>s'. pollWorkflowPhaseUntilTerminal 4 sample_workflow (Some 1) None poll_start = (Succeeds Succeeded, s') \<and> pw_reads s' = 4"
proof -
  have below: "i < 3 \<Longrightarrow> i = 0 \<or> i = Suc 0 \<or> i = 2" for i :: nat by auto
  have "\<exists>j \<le> 1. phase_at sample_workflow (i + j) \<noteq> None" if "i < 3" for i
    using below [OF that] sample_phase by (intro exI [of _ "if i = 1 then 1 else 0"]) (auto simp: numeral_2_eq_2)
  then have "bursts_short sample_workflow (options_of (Some 1) None) 3" by (simp add: bursts_short_def options_of_def)
  moreover have "\<not> ended (phase_at sample_workflow i)" if "i < 3" for i
    using below [OF that] sample_phase by auto
  ultimately show ?thesis using poll_returns_first_phase [OF sample_phase(4)] by simp
qed

lemma poll_error_budget_witness:
  "\<exists>error s'. pollWorkflowPhaseUntilTerminal 4 lost_workflow (Some 1) None poll_start = (Fails error, s') \<and> pw_reads s' = 6"
  using poll_error_budget [of 2 lost_workflow "Some 1" 4 None] by (simp add: sample_phases)

end
