(* ===== verification/ArgoGraph.thy ===== *)
theory ArgoGraph
  imports Plan JsData
begin

text \<open>
  The execution graph given to Argo (\<^verbatim>\<open>src/argo-graph.ts\<close>): one task per executable node of a plan,
  with the containers made transparent by \<open>resolveExecutableDependencyIds\<close>
  (\<^verbatim>\<open>src/planning/dependency-refs.ts\<close>). That function follows groups and parallel nodes without a check
  for nodes it has seen; \<open>depth\<close> bounds it, and \<open>None\<close> is a resolution that has not returned within it.
\<close>

subsection \<open>The tree of planned nodes\<close>

abbreviation planned_children :: "('a, 'g) planned_node \<Rightarrow> ('a, 'g) planned_node list" where
  "planned_children node \<equiv> or_else (pn_children node) []"

lemma size_node_children: "size_list size (planned_children node) < size node"
  by (cases node; cases "pn_children node") auto

lemma node_children_smaller [termination_simp]:
  "size_list size (planned_children node) < Suc (size node + m)"
  using size_node_children [of node] by simp

function indexPlannedNodesById ::
  "('a, 'g) planned_node list \<Rightarrow> (string \<times> ('a, 'g) planned_node) list \<Rightarrow> (string \<times> ('a, 'g) planned_node) list" where
  "indexPlannedNodesById [] into = into"
| "indexPlannedNodesById (node # nodes) into =
     indexPlannedNodesById nodes (indexPlannedNodesById (planned_children node) (AList.update (pn_id node) node into))"
  by pat_completeness auto

termination indexPlannedNodesById
  by (relation "measure (\<lambda>(nodes, into). size_list size nodes)") (auto simp: node_children_smaller)

fun plannedNodeTree :: "('a, 'g) planned_node list \<Rightarrow> ('a, 'g) planned_node list" where
  "plannedNodeTree [] = []"
| "plannedNodeTree (node # nodes) = node # plannedNodeTree (planned_children node) @ plannedNodeTree nodes"

subsection \<open>Dependencies of executable nodes\<close>

fun executable_kind :: "node_kind \<Rightarrow> bool" where
  "executable_kind GroupKind \<longleftrightarrow> False" | "executable_kind ParallelKind \<longleftrightarrow> False" | "executable_kind k \<longleftrightarrow> True"

text \<open>What a container stands for.\<close>

definition container_members :: "('a, 'g) planned_node \<Rightarrow> string list" where
  "container_members node = (case pn_kind node of
     GroupKind \<Rightarrow> or_else (pn_nodes node) [] @ pn_needs node
   | ParallelKind \<Rightarrow> map pn_id (planned_children node)
   | _ \<Rightarrow> [])"

fun resolveOne :: "nat \<Rightarrow> (string \<times> ('a, 'g) planned_node) list \<Rightarrow> string \<Rightarrow> string list option" where
  "resolveOne 0 nodeById nodeId = None"
| "resolveOne (Suc depth) nodeById nodeId = (case map_of nodeById nodeId of
     None \<Rightarrow> Some []
   | Some node \<Rightarrow>
       if executable_kind (pn_kind node) then Some [pn_id node]
       else map_option (\<lambda>xss. uniqueStrings False False (concat xss))
              (those (map (resolveOne depth nodeById) (container_members node))))"

definition resolveExecutableDependencyIds ::
  "nat \<Rightarrow> (string \<times> ('a, 'g) planned_node) list \<Rightarrow> string list \<Rightarrow> string list option" where
  "resolveExecutableDependencyIds depth nodeById needs =
     map_option (\<lambda>xss. uniqueStrings False False (concat xss)) (those (map (resolveOne depth nodeById) needs))"

subsection \<open>Tasks\<close>

record argo_task =
  at_dependencies :: "string list"
  at_nodeId :: string
  at_taskName :: string
  at_templateName :: string

record argo_graph =
  ag_tasks :: "argo_task list"
  ag_terminalNodeIds :: "string list"
  ag_terminalTaskNames :: "string list"
  ag_workflowId :: string

datatype argo_error = ArgoGraphCompilerError string string string | ArgoSchemaError

type_synonym 'x argo_result = "(argo_error + 'x) option"

definition argo_bind :: "'x argo_result \<Rightarrow> ('x \<Rightarrow> 'y argo_result) \<Rightarrow> 'y argo_result" where
  "argo_bind r f = (case r of None \<Rightarrow> None | Some (Inl e) \<Rightarrow> Some (Inl e) | Some (Inr x) \<Rightarrow> f x)"

definition duplicateNodeError :: "string \<Rightarrow> argo_error" where
  "duplicateNodeError nodeId = ArgoGraphCompilerError ''duplicate-node-id'' nodeId
     (''Argo schedule contains duplicate node id '' @ quoted nodeId)"

definition argoTaskName :: "string \<Rightarrow> string" where
  "argoTaskName nodeId = ''node-'' @ nodeId"

definition argoTemplateName :: "string \<Rightarrow> string" where
  "argoTemplateName nodeId = ''task-'' @ nodeId"

record duplicate_search =
  ds_duplicate :: "string option"
  ds_seen :: "string set"

definition trackDuplicateNodeId :: "duplicate_search \<Rightarrow> ('a, 'g) planned_node \<Rightarrow> duplicate_search" where
  "trackDuplicateNodeId st node =
     (if ds_duplicate st \<noteq> None then st
      else if pn_id node \<in> ds_seen st then st\<lparr>ds_duplicate := Some (pn_id node)\<rparr>
      else \<lparr>ds_duplicate = None, ds_seen = insert (pn_id node) (ds_seen st)\<rparr>)"

definition duplicateNodeId :: "('a, 'g) planned_node list \<Rightarrow> string option" where
  "duplicateNodeId nodes =
     ds_duplicate (foldl trackDuplicateNodeId \<lparr>ds_duplicate = None, ds_seen = {}\<rparr> (plannedNodeTree nodes))"

definition resolveDependencyTaskNames ::
  "nat \<Rightarrow> (string \<times> ('a, 'g) planned_node) list \<Rightarrow> string list \<Rightarrow> string list option" where
  "resolveDependencyTaskNames depth nodeById nodeIds =
     map_option (\<lambda>ids. uniqueStrings False False (map argoTaskName ids)) (resolveExecutableDependencyIds depth nodeById nodeIds)"

text \<open>The strict schema of a task asks for nonempty strings.\<close>

definition argo_task_ok :: "argo_task \<Rightarrow> bool" where
  "argo_task_ok task \<longleftrightarrow> at_nodeId task \<noteq> [] \<and> at_taskName task \<noteq> [] \<and> at_templateName task \<noteq> [] \<and>
     [] \<notin> set (at_dependencies task)"

definition argo_graph_ok :: "argo_graph \<Rightarrow> bool" where
  "argo_graph_ok graph \<longleftrightarrow> ag_tasks graph \<noteq> [] \<and> (\<forall>task \<in> set (ag_tasks graph). argo_task_ok task) \<and>
     [] \<notin> set (ag_terminalNodeIds graph) \<and> [] \<notin> set (ag_terminalTaskNames graph) \<and> ag_workflowId graph \<noteq> []"

definition compileExecutableNode ::
  "nat \<Rightarrow> (string \<times> ('a, 'g) planned_node) list \<Rightarrow> ('a, 'g) planned_node \<Rightarrow> string list \<Rightarrow> argo_task argo_result" where
  "compileExecutableNode depth nodeById node inheritedNeeds =
     (case resolveDependencyTaskNames depth nodeById (inheritedNeeds @ pn_needs node) of
        None \<Rightarrow> None
      | Some dependencies \<Rightarrow>
          (let task = \<lparr>at_dependencies = dependencies, at_nodeId = pn_id node, at_taskName = argoTaskName (pn_id node),
                       at_templateName = argoTemplateName (pn_id node)\<rparr> in
           if argo_task_ok task then Some (Inr task) else Some (Inl ArgoSchemaError)))"

function compileArgoNodes ::
  "nat \<Rightarrow> (string \<times> ('a, 'g) planned_node) list \<Rightarrow> ('a, 'g) planned_node list \<Rightarrow> string list \<Rightarrow> argo_task list \<Rightarrow>
   argo_task list argo_result" where
  "compileArgoNodes depth nodeById [] inheritedNeeds tasks = Some (Inr tasks)"
| "compileArgoNodes depth nodeById (node # nodes) inheritedNeeds tasks =
     argo_bind
       (if executable_kind (pn_kind node)
        then argo_bind (compileExecutableNode depth nodeById node inheritedNeeds) (\<lambda>task. Some (Inr (tasks @ [task])))
        else if pn_kind node = GroupKind then Some (Inr tasks)
        else compileArgoNodes depth nodeById (planned_children node) (inheritedNeeds @ pn_needs node) tasks)
       (\<lambda>tasks. compileArgoNodes depth nodeById nodes inheritedNeeds tasks)"
  by pat_completeness auto

termination compileArgoNodes
  by (relation "measure (\<lambda>(depth, nodeById, nodes, inheritedNeeds, tasks). size_list size nodes)")
     (auto simp: node_children_smaller)

definition compileArgoExecutionGraphUnchecked :: "nat \<Rightarrow> ('a, 'g) execution_plan \<Rightarrow> argo_graph argo_result" where
  "compileArgoExecutionGraphUnchecked depth plan =
     argo_bind (compileArgoNodes depth (indexPlannedNodesById (ep_topologicalOrder plan) []) (ep_topologicalOrder plan) [] [])
       (\<lambda>tasks. let terminalTasks = terminalDependencyItems tasks at_taskName (\<lambda>task. Some (at_dependencies task)) in
          Some (Inr \<lparr>ag_tasks = tasks, ag_terminalNodeIds = map at_nodeId terminalTasks,
                     ag_terminalTaskNames = map at_taskName terminalTasks, ag_workflowId = ep_workflowId plan\<rparr>))"

definition compileArgoExecutionGraph :: "nat \<Rightarrow> ('a, 'g) execution_plan \<Rightarrow> argo_graph argo_result" where
  "compileArgoExecutionGraph depth plan =
     (case duplicateNodeId (ep_topologicalOrder plan) of
        Some nodeId \<Rightarrow> Some (Inl (duplicateNodeError nodeId))
      | None \<Rightarrow> argo_bind (compileArgoExecutionGraphUnchecked depth plan) (\<lambda>graph.
          if argo_graph_ok graph then Some (Inr graph) else Some (Inl ArgoSchemaError)))"

declare indexPlannedNodesById.simps(2) [simp del] compileArgoNodes.simps(2) [simp del]

subsection \<open>The index\<close>

lemma plannedNodeTree_append: "plannedNodeTree (xs @ ys) = plannedNodeTree xs @ plannedNodeTree ys"
  by (induction xs) simp_all

lemma indexPlannedNodesById_distinct:
  "distinct (map fst into @ map pn_id (plannedNodeTree nodes)) \<Longrightarrow>
   indexPlannedNodesById nodes into = into @ map (\<lambda>n. (pn_id n, n)) (plannedNodeTree nodes)"
proof (induction nodes into rule: indexPlannedNodesById.induct)
  case (2 node nodes into)
  have update: "AList.update (pn_id node) node into = into @ [(pn_id node, node)]"
    using "2.prems" by (intro update_new_key) auto
  have below: "indexPlannedNodesById (planned_children node) (into @ [(pn_id node, node)]) =
      (into @ [(pn_id node, node)]) @ map (\<lambda>n. (pn_id n, n)) (plannedNodeTree (planned_children node))"
    using "2.prems" by (intro "2.IH"(1) [unfolded update]) (auto simp: comp_def)
  show ?case unfolding indexPlannedNodesById.simps(2) update below
    using "2.prems" by (subst "2.IH"(2) [unfolded update below]) (auto simp: comp_def)
qed simp

lemma duplicate_found: "ds_duplicate st \<noteq> None \<Longrightarrow> foldl trackDuplicateNodeId st nodes = st"
  by (induction nodes) (auto simp: trackDuplicateNodeId_def)

lemma trackDuplicate_step: "trackDuplicateNodeId \<lparr>ds_duplicate = None, ds_seen = seen\<rparr> node =
    (if pn_id node \<in> seen then \<lparr>ds_duplicate = Some (pn_id node), ds_seen = seen\<rparr>
     else \<lparr>ds_duplicate = None, ds_seen = insert (pn_id node) seen\<rparr>)"
  by (simp add: trackDuplicateNodeId_def)

lemma trackDuplicate_fold:
  "ds_duplicate (foldl trackDuplicateNodeId \<lparr>ds_duplicate = None, ds_seen = seen\<rparr> nodes) = None \<longleftrightarrow>
     distinct (map pn_id nodes) \<and> pn_id ` set nodes \<inter> seen = {}"
proof (induction nodes arbitrary: seen)
  case (Cons node nodes)
  then show ?case
    using duplicate_found [of "\<lparr>ds_duplicate = Some (pn_id node), ds_seen = seen\<rparr>" nodes]
    by (auto simp: trackDuplicate_step)
qed simp

lemma duplicateNodeId_None: "duplicateNodeId nodes = None \<longleftrightarrow> distinct (map pn_id (plannedNodeTree nodes))"
  by (simp add: duplicateNodeId_def trackDuplicate_fold)

subsection \<open>What a dependency stands for\<close>

inductive leaf_of :: "(string \<times> ('a, 'g) planned_node) list \<Rightarrow> string \<Rightarrow> string \<Rightarrow> bool" for nodeById where
  leaf: "map_of nodeById nodeId = Some node \<Longrightarrow> executable_kind (pn_kind node) \<Longrightarrow> leaf_of nodeById nodeId (pn_id node)"
| member: "map_of nodeById nodeId = Some node \<Longrightarrow> \<not> executable_kind (pn_kind node) \<Longrightarrow>
    memberId \<in> set (container_members node) \<Longrightarrow> leaf_of nodeById memberId x \<Longrightarrow> leaf_of nodeById nodeId x"

inductive_simps leaf_of_unfold: "leaf_of nodeById nodeId x"

lemma leaf_of_cases:
  "map_of nodeById nodeId = None \<Longrightarrow> \<not> leaf_of nodeById nodeId x"
  "map_of nodeById nodeId = Some node \<Longrightarrow> executable_kind (pn_kind node) \<Longrightarrow> leaf_of nodeById nodeId x \<longleftrightarrow> x = pn_id node"
  "map_of nodeById nodeId = Some node \<Longrightarrow> \<not> executable_kind (pn_kind node) \<Longrightarrow>
     leaf_of nodeById nodeId x \<longleftrightarrow> (\<exists>m \<in> set (container_members node). leaf_of nodeById m x)"
  by (auto elim: leaf_of.cases intro: leaf_of.intros) (erule leaf_of.cases; auto)

lemma those_leaves:
  assumes "those (map f ms) = Some xss" "\<And>m ys. m \<in> set ms \<Longrightarrow> f m = Some ys \<Longrightarrow> set ys = L m"
  shows "\<Union> (set ` set xss) = (\<Union>m \<in> set ms. L m)"
  using assms
proof (induction ms arbitrary: xss)
  case (Cons m ms)
  then obtain ys yss where "f m = Some ys" "those (map f ms) = Some yss" "xss = ys # yss" by (auto split: option.splits)
  moreover from this have "\<Union> (set ` set yss) = (\<Union>m \<in> set ms. L m)" "set ys = L m"
    using Cons by (metis list.set_intros)+
  ultimately show ?case by simp
qed simp

lemma those_None_iff: "those (map f xs) = None \<longleftrightarrow> (\<exists>x \<in> set xs. f x = None)"
  by (induction xs) (auto split: option.splits)

lemma unique_set [simp]: "set (uniqueStrings False False xs) = set xs"
  by (simp add: uniqueStrings_def)

lemma resolveOne_leaves: "resolveOne depth nodeById nodeId = Some xs \<Longrightarrow> set xs = {x. leaf_of nodeById nodeId x}"
proof (induction depth arbitrary: nodeId xs)
  case (Suc depth)
  show ?case
  proof (cases "map_of nodeById nodeId")
    case None
    then show ?thesis using Suc.prems leaf_of_cases(1) [OF None] by simp
  next
    case (Some node)
    show ?thesis
    proof (cases "executable_kind (pn_kind node)")
      case True
      then show ?thesis using Suc.prems Some True unfolding leaf_of_cases(2) [OF Some True] by auto
    next
      case False
      then obtain xss where xss: "those (map (resolveOne depth nodeById) (container_members node)) = Some xss"
        and xs: "set xs = \<Union> (set ` set xss)" using Suc.prems Some by auto
      show ?thesis
        using those_leaves [OF xss, of "\<lambda>m. {x. leaf_of nodeById m x}"] Suc.IH
        unfolding xs leaf_of_cases(3) [OF Some False] by blast
    qed
  qed
qed simp

lemma resolve_leaves:
  assumes "resolveExecutableDependencyIds depth nodeById needs = Some xs"
  shows "set xs = {x. \<exists>need \<in> set needs. leaf_of nodeById need x}"
proof -
  obtain xss where xss: "those (map (resolveOne depth nodeById) needs) = Some xss" and xs: "set xs = \<Union> (set ` set xss)"
    using assms by (auto simp: resolveExecutableDependencyIds_def)
  from those_leaves [OF xss, of "\<lambda>m. {x. leaf_of nodeById m x}"] resolveOne_leaves show ?thesis unfolding xs by blast
qed

subsection \<open>The tasks of a plan\<close>

text \<open>The executable nodes of a tree, with what they need themselves and through the containers around them.\<close>

function exec_nodes :: "string list \<Rightarrow> ('a, 'g) planned_node list \<Rightarrow> (('a, 'g) planned_node \<times> string list) list" where
  "exec_nodes inherited [] = []"
| "exec_nodes inherited (node # nodes) =
     (if executable_kind (pn_kind node) then [(node, inherited @ pn_needs node)]
      else if pn_kind node = GroupKind then [] else exec_nodes (inherited @ pn_needs node) (planned_children node))
     @ exec_nodes inherited nodes"
  by pat_completeness auto

termination exec_nodes
  by (relation "measure (\<lambda>(inherited, nodes). size_list size nodes)") (auto simp: node_children_smaller)

definition task_of :: "(string \<times> ('a, 'g) planned_node) list \<Rightarrow> ('a, 'g) planned_node \<times> string list \<Rightarrow> argo_task \<Rightarrow> bool" where
  "task_of nodeById entry task \<longleftrightarrow> at_nodeId task = pn_id (fst entry) \<and> at_taskName task = argoTaskName (pn_id (fst entry)) \<and>
     set (at_dependencies task) = argoTaskName ` {x. \<exists>need \<in> set (snd entry). leaf_of nodeById need x}"

lemma compileExecutableNode_task:
  assumes "compileExecutableNode depth nodeById node inherited = Some (Inr task)"
  shows "task_of nodeById (node, inherited @ pn_needs node) task"
proof -
  obtain ids where "resolveExecutableDependencyIds depth nodeById (inherited @ pn_needs node) = Some ids"
    "task = \<lparr>at_dependencies = uniqueStrings False False (map argoTaskName ids), at_nodeId = pn_id node,
       at_taskName = argoTaskName (pn_id node), at_templateName = argoTemplateName (pn_id node)\<rparr>"
    using assms by (auto simp: compileExecutableNode_def resolveDependencyTaskNames_def Let_def split: option.splits if_splits)
  with resolve_leaves show ?thesis by (fastforce simp: task_of_def)
qed

lemma argo_bind_Some: "argo_bind r f = Some (Inr y) \<longleftrightarrow> (\<exists>x. r = Some (Inr x) \<and> f x = Some (Inr y))"
  by (auto simp: argo_bind_def split: option.splits sum.splits)

lemma compileArgoNodes_tasks:
  "compileArgoNodes depth nodeById nodes inherited tasks = Some (Inr tasks') \<Longrightarrow>
     \<exists>new. tasks' = tasks @ new \<and> list_all2 (task_of nodeById) (exec_nodes inherited nodes) new"
proof (induction depth nodeById nodes inherited tasks arbitrary: tasks' rule: compileArgoNodes.induct)
  case (2 depth nodeById node nodes inherited tasks)
  let ?first = "if executable_kind (pn_kind node) then [(node, inherited @ pn_needs node)]
      else if pn_kind node = GroupKind then [] else exec_nodes (inherited @ pn_needs node) (planned_children node)"
  obtain mid where mid: "(if executable_kind (pn_kind node)
        then argo_bind (compileExecutableNode depth nodeById node inherited) (\<lambda>task. Some (Inr (tasks @ [task])))
        else if pn_kind node = GroupKind then Some (Inr tasks)
        else compileArgoNodes depth nodeById (planned_children node) (inherited @ pn_needs node) tasks) = Some (Inr mid)"
    and rest: "compileArgoNodes depth nodeById nodes inherited mid = Some (Inr tasks')"
    using "2.prems" unfolding compileArgoNodes.simps(2) argo_bind_Some by blast
  have first: "\<exists>new. mid = tasks @ new \<and> list_all2 (task_of nodeById) ?first new"
  proof (cases "executable_kind (pn_kind node)")
    case True
    then show ?thesis using mid compileExecutableNode_task by (auto simp: argo_bind_Some)
  next
    case False
    then show ?thesis using mid "2.IH"(1) [OF False] by (cases "pn_kind node = GroupKind") auto
  qed
  from "2.IH"(2) [OF rest] first show ?case unfolding exec_nodes.simps(2) by (metis append.assoc list_all2_appendI)
qed simp

subsection \<open>Nodes and their own tasks\<close>

definition own :: "('a, 'g) planned_node list \<Rightarrow> string set" where
  "own nodes = pn_id ` {node \<in> set (plannedNodeTree nodes). executable_kind (pn_kind node)}"

definition childless :: "('a, 'g) planned_node \<Rightarrow> bool" where
  "childless node \<longleftrightarrow> (pn_kind node \<noteq> ParallelKind \<longrightarrow> planned_children node = [])"

lemma own_simps [simp]:
  "own [] = {}" "own (node # nodes) = (if executable_kind (pn_kind node) then {pn_id node} else {}) \<union> own (planned_children node) \<union> own nodes"
  by (auto simp: own_def)

lemma exec_nodes_ids:
  assumes "\<forall>node \<in> set (plannedNodeTree nodes). childless node"
  shows "map (\<lambda>e. pn_id (fst e)) (exec_nodes inherited nodes) =
    map pn_id (filter (\<lambda>node. executable_kind (pn_kind node)) (plannedNodeTree nodes))"
  using assms
proof (induction inherited nodes rule: exec_nodes.induct)
  case (2 inherited node nodes)
  have IH: "map (\<lambda>e. pn_id (fst e)) (exec_nodes inherited nodes) =
      map pn_id (filter (\<lambda>node. executable_kind (pn_kind node)) (plannedNodeTree nodes))"
    using "2.prems" by (intro "2.IH"(2)) simp
  show ?case
  proof (cases "pn_kind node = ParallelKind")
    case True
    then show ?thesis using "2.IH"(1) "2.prems" IH by (simp add: comp_def)
  next
    case False
    then have "planned_children node = []" using "2.prems" by (simp add: childless_def)
    then show ?thesis using IH False by (cases "pn_kind node") simp_all
  qed
qed simp

lemma exec_nodes_needs: "(node, needs) \<in> set (exec_nodes inherited nodes) \<Longrightarrow> set inherited \<subseteq> set needs"
  by (induction inherited nodes rule: exec_nodes.induct) (auto split: if_splits)

lemma exec_nodes_own:
  assumes "n \<in> set nodes" "x \<in> own [n]" "\<forall>node \<in> set (plannedNodeTree nodes). childless node"
  shows "\<exists>node needs. (node, needs) \<in> set (exec_nodes inherited nodes) \<and> pn_id node = x \<and> set (pn_needs n) \<subseteq> set needs"
proof -
  have entry: "\<exists>node needs. (node, needs) \<in> set (exec_nodes inherited [n]) \<and> pn_id node = x \<and> set (pn_needs n) \<subseteq> set needs"
  proof (cases "pn_kind n = ParallelKind")
    case True
    have "\<forall>node \<in> set (plannedNodeTree (planned_children n)). childless node"
      using assms(1,3) by (induction nodes) auto
    from exec_nodes_ids [OF this, of "inherited @ pn_needs n"] have "x \<in> (\<lambda>e. pn_id (fst e)) ` set (exec_nodes (inherited @ pn_needs n) (planned_children n))"
      using assms(2) True unfolding set_map [symmetric] by (auto simp: own_def image_iff)
    then show ?thesis using exec_nodes_needs [of _ _ "inherited @ pn_needs n" "planned_children n"] True by fastforce
  next
    case False
    then have "planned_children n = []" using assms(1,3) by (induction nodes) (auto simp: childless_def)
    then show ?thesis using assms(2) by (auto split: if_splits)
  qed
  have "set (exec_nodes inherited [n]) \<subseteq> set (exec_nodes inherited nodes)"
    using assms(1) by (induction nodes) auto
  with entry show ?thesis by blast
qed

lemma own_leaves:
  assumes "\<forall>node \<in> set (plannedNodeTree nodes). map_of nodeById (pn_id node) = Some node \<and> childless node" "x \<in> own nodes"
  shows "\<exists>n \<in> set nodes. leaf_of nodeById (pn_id n) x"
  using assms
proof (induction nodes rule: plannedNodeTree.induct)
  case (2 node nodes)
  have at_node: "map_of nodeById (pn_id node) = Some node" "childless node" using "2.prems"(1) by simp_all
  consider "executable_kind (pn_kind node)" "x = pn_id node" | "x \<in> own (planned_children node)" | "x \<in> own nodes"
    using "2.prems"(2) by (auto split: if_splits)
  then show ?case
  proof cases
    case 1
    then show ?thesis using leaf_of_cases(2) [OF at_node(1)] by simp
  next
    case 2
    then obtain c where c: "c \<in> set (planned_children node)" "leaf_of nodeById (pn_id c) x"
      using "2.IH"(1) "2.prems"(1) by auto
    have "pn_kind node = ParallelKind"
    proof (rule ccontr)
      assume "pn_kind node \<noteq> ParallelKind"
      then have "planned_children node = []" using at_node(2) by (simp add: childless_def)
      then show False using c(1) by (simp del: set_or_else_Nil)
    qed
    then have "leaf_of nodeById (pn_id node) x"
      using c leaf_of_cases(3) [OF at_node(1), of x] by (auto simp: container_members_def)
    then show ?thesis by simp
  next
    case 3
    then show ?thesis using "2.IH"(2) "2.prems"(1) by auto
  qed
qed simp

lemma leaf_is_own:
  assumes "leaf_of nodeById k x" "\<And>i node. map_of nodeById i = Some node \<Longrightarrow> node \<in> set (plannedNodeTree nodes)"
  shows "x \<in> own nodes"
  using assms by (induction rule: leaf_of.induct) (auto simp: own_def)

subsection \<open>The plan's shape\<close>

lemma tree_Union: "set (plannedNodeTree nodes) = (\<Union>n \<in> set nodes. set (plannedNodeTree [n]))"
  by (induction nodes) simp_all

lemma toPlannedNode_childless:
  fixes node :: "('a, 'g) workflow_node" and nodes :: "('a, 'g) workflow_node list"
  shows "\<forall>n \<in> set (plannedNodeTree [toPlannedNode node index]). childless n"
  "\<forall>n \<in> set (plannedNodeTree (toPlannedChildren nodes index)). childless n"
proof (induction node index and nodes index rule: toPlannedNode_toPlannedChildren.induct)
  case (1 i body ns ar g m re rt tc t index)
  then show ?case by (cases body) (simp_all add: childless_def)
next
  case (3 child children childIndex)
  then show ?case by auto
qed simp

lemma tree_set_dependents:
  "\<forall>m \<in> set (plannedNodeTree [node]). childless m \<Longrightarrow> \<forall>m \<in> set (plannedNodeTree [set_dependents ds node]). childless m"
  by (simp add: childless_def)

lemma plan_tree_childless:
  assumes "graphlib_spec build" "nonempty_ids config" "compileWorkflowPlan build config requested = Inr plan"
  shows "\<forall>n \<in> set (plannedNodeTree (ep_topologicalOrder plan)). childless n"
proof -
  have tops: "\<exists>node index ds. n = set_dependents ds (toPlannedNode node index)" if "n \<in> set (ep_topologicalOrder plan)" for n
    using assms
  proof (rule compileWorkflowPlan_Inr)
    fix w order
    let ?nodes = "declared_nodes config (ep_workflowId plan)"
    assume ok: "plannable ?nodes" and plan: "plan = plan_of build config w (ep_workflowId plan) order"
      and order: "set order = wn_id ` set ?nodes"
    have "n \<in> set (plannedNodesForIds (createWorkflowGraph build ?nodes) order)"
      using that plan by (metis plan_of_fields(4))
    then obtain i where "n = final_node (raw_graph build ?nodes) ?nodes i"
      using plannedNodesForIds_nodes [OF assms(1) plannable_distinct [OF ok]] order by blast
    then show ?thesis by (auto simp: final_node_def)
  qed
  have one: "\<forall>m \<in> set (plannedNodeTree [n]). childless m" if "n \<in> set (ep_topologicalOrder plan)" for n
  proof -
    from tops [OF that] obtain node index ds where n: "n = set_dependents ds (toPlannedNode node index)" by blast
    show ?thesis unfolding n by (rule tree_set_dependents [OF toPlannedNode_childless(1)])
  qed
  show ?thesis unfolding tree_Union [of "ep_topologicalOrder plan"] using one by blast
qed

subsection \<open>The execution graph keeps the order of the plan\<close>

definition argo_edges :: "argo_graph \<Rightarrow> (string \<times> string) set" where
  "argo_edges graph = {(d, at_taskName task) | d task. task \<in> set (ag_tasks graph) \<and> d \<in> set (at_dependencies task)}"

definition plan_needs :: "('a, 'g) planned_node list \<Rightarrow> (string \<times> string) set" where
  "plan_needs nodes = {(need, pn_id node) | need node. node \<in> set nodes \<and> need \<in> set (pn_needs node)}"

text \<open>What is known of the tree of a plan that compiles to an execution graph.\<close>

definition tree_indexed :: "('a, 'g) planned_node list \<Rightarrow> (string \<times> ('a, 'g) planned_node) list \<Rightarrow> bool" where
  "tree_indexed nodes nodeById \<longleftrightarrow> distinct (map pn_id (plannedNodeTree nodes)) \<and>
     nodeById = map (\<lambda>n. (pn_id n, n)) (plannedNodeTree nodes) \<and> (\<forall>n \<in> set (plannedNodeTree nodes). childless n)"

lemma tree_indexed_get:
  assumes "tree_indexed nodes nodeById"
  shows "map_of nodeById i = Some node \<longleftrightarrow> node \<in> set (plannedNodeTree nodes) \<and> pn_id node = i"
  using assms by (auto simp: tree_indexed_def comp_def distinct_map inj_on_def intro!: map_of_is_SomeI dest: map_of_SomeD)

lemma nodes_self: "set nodes \<subseteq> set (plannedNodeTree nodes)"
  by (induction nodes) auto

lemma nodes_in_tree: "node \<in> set nodes \<Longrightarrow> set (plannedNodeTree [node]) \<subseteq> set (plannedNodeTree nodes)"
  by (induction nodes) auto

lemma own_sub_leaves:
  assumes "tree_indexed nodes nodeById" "node \<in> set nodes" "x \<in> own [node]"
  shows "leaf_of nodeById (pn_id node) x"
proof -
  have "\<forall>n \<in> set (plannedNodeTree [node]). map_of nodeById (pn_id n) = Some n \<and> childless n"
    using nodes_in_tree [OF assms(2)] assms(1) unfolding tree_indexed_get [OF assms(1)] tree_indexed_def by blast
  from own_leaves [OF this assms(3)] show ?thesis by simp
qed

lemma compile_tasks:
  assumes "compileArgoExecutionGraph depth plan = Some (Inr graph)"
    and "\<forall>n \<in> set (plannedNodeTree (ep_topologicalOrder plan)). childless n"
  obtains nodeById where "tree_indexed (ep_topologicalOrder plan) nodeById"
    "list_all2 (task_of nodeById) (exec_nodes [] (ep_topologicalOrder plan)) (ag_tasks graph)"
proof -
  let ?nodes = "ep_topologicalOrder plan" and ?index = "indexPlannedNodesById (ep_topologicalOrder plan) []"
  have unique: "distinct (map pn_id (plannedNodeTree ?nodes))"
    using assms(1) by (auto simp: compileArgoExecutionGraph_def duplicateNodeId_None [symmetric] split: option.splits)
  have "compileArgoNodes depth ?index ?nodes [] [] = Some (Inr (ag_tasks graph))"
    using assms(1) by (auto simp: compileArgoExecutionGraph_def compileArgoExecutionGraphUnchecked_def argo_bind_Some Let_def
        split: option.splits if_splits)
  from compileArgoNodes_tasks [OF this] have "list_all2 (task_of ?index) (exec_nodes [] ?nodes) (ag_tasks graph)" by auto
  moreover have "tree_indexed ?nodes ?index"
    using unique assms(2) indexPlannedNodesById_distinct [of "[]" ?nodes] by (simp add: tree_indexed_def)
  ultimately show ?thesis using that by blast
qed

lemma direct_dependency:
  assumes indexed: "tree_indexed nodes nodeById"
    and tasks: "list_all2 (task_of nodeById) (exec_nodes [] nodes) (ag_tasks graph)"
    and at_node: "node \<in> set nodes" "need \<in> set (pn_needs node)" "x \<in> own [node]" "leaf_of nodeById need y"
  shows "(argoTaskName y, argoTaskName x) \<in> argo_edges graph"
proof -
  obtain n needs where n: "(n, needs) \<in> set (exec_nodes [] nodes)" "pn_id n = x" "set (pn_needs node) \<subseteq> set needs"
    using exec_nodes_own [OF at_node(1,3), of "[]"] indexed unfolding tree_indexed_def by blast
  then obtain task where task: "task \<in> set (ag_tasks graph)" "task_of nodeById (n, needs) task"
    using tasks by (metis in_set_conv_nth list_all2_conv_all_nth)
  have "argoTaskName y \<in> set (at_dependencies task)" "at_taskName task = argoTaskName x"
    using task(2) n(2,3) at_node(2,4) unfolding task_of_def by auto
  then show ?thesis using task(1) unfolding argo_edges_def by force
qed

lemma leaves_before:
  assumes indexed: "tree_indexed nodes nodeById"
    and tasks: "list_all2 (task_of nodeById) (exec_nodes [] nodes) (ag_tasks graph)"
    and busy: "\<forall>n \<in> set nodes. pn_kind n = ParallelKind \<longrightarrow> own [n] \<noteq> {}"
    and m: "m \<in> set nodes" "y \<in> own [m]"
  shows "(pn_id m, k) \<in> (plan_needs nodes)\<^sup>* \<Longrightarrow>
    (\<And>x. leaf_of nodeById k x \<Longrightarrow> (argoTaskName x, X) \<in> (argo_edges graph)\<^sup>+) \<Longrightarrow> (argoTaskName y, X) \<in> (argo_edges graph)\<^sup>+"
proof (induction arbitrary: X rule: rtrancl_induct)
  case base
  then show ?case using own_sub_leaves [OF indexed m] by blast
next
  case (step j k)
  then obtain node where node: "node \<in> set nodes" "pn_id node = k" "j \<in> set (pn_needs node)" by (auto simp: plan_needs_def)
  have at_node: "map_of nodeById k = Some node"
    using node nodes_in_tree [OF node(1)] unfolding tree_indexed_get [OF indexed] by auto
  have "(argoTaskName l, X) \<in> (argo_edges graph)\<^sup>+" if l: "leaf_of nodeById j l" for l
  proof (cases "pn_kind node = GroupKind")
    case True
    then have "leaf_of nodeById k l"
      using leaf_of_cases(3) [OF at_node] node(3) l by (auto simp: container_members_def)
    then show ?thesis by (rule step.prems)
  next
    case False
    then have "own [node] \<noteq> {}" using busy node(1) by (cases "pn_kind node") auto
    then obtain z where z: "z \<in> own [node]" by blast
    have "(argoTaskName l, argoTaskName z) \<in> argo_edges graph" by (rule direct_dependency [OF indexed tasks node(1,3) z l])
    moreover have "(argoTaskName z, X) \<in> (argo_edges graph)\<^sup>+"
      using step.prems own_sub_leaves [OF indexed node(1) z] node(2) by blast
    ultimately show ?thesis by (rule trancl_into_trancl2)
  qed
  then show ?case by (rule step.IH)
qed

lemma task_names:
  assumes "list_all2 (task_of nodeById) entries tasks"
  shows "map at_nodeId tasks = map (\<lambda>e. pn_id (fst e)) entries"
    and "map at_taskName tasks = map argoTaskName (map at_nodeId tasks)"
  using assms by (induction rule: list_all2_induct) (simp_all add: task_of_def)

lemma argoTaskName_inj [simp]: "argoTaskName a = argoTaskName b \<longleftrightarrow> a = b"
  by (simp add: argoTaskName_def)

text \<open>
  C19: The execution graph of a compiled plan runs what the plan runs, in an order of the plan: its
  tasks are the executable nodes of the plan, each once, in the order of the plan; a task
  depends on tasks of the graph only; and where the plan has a node need another, directly or through
  others, every task of the one comes after every task of the other. Parallel nodes must hold something
  to execute, for an order through one that holds only groups is lost.
\<close>

theorem argo_graph_refines_plan:
  assumes "graphlib_spec build" "nonempty_ids config" "compileWorkflowPlan build config requested = Inr plan"
    and compiled: "compileArgoExecutionGraph depth plan = Some (Inr graph)"
    and nodes: "nodes = ep_topologicalOrder plan"
    and busy: "\<forall>n \<in> set nodes. pn_kind n = ParallelKind \<longrightarrow> own [n] \<noteq> {}"
  shows "map at_nodeId (ag_tasks graph) = map pn_id (filter (\<lambda>n. executable_kind (pn_kind n)) (plannedNodeTree nodes))
    \<and> distinct (map at_taskName (ag_tasks graph))
    \<and> (\<forall>task \<in> set (ag_tasks graph). set (at_dependencies task) \<subseteq> at_taskName ` set (ag_tasks graph))
    \<and> (\<forall>m \<in> set nodes. \<forall>n \<in> set nodes. (pn_id m, pn_id n) \<in> (plan_needs nodes)\<^sup>+ \<longrightarrow>
         (\<forall>y \<in> own [m]. \<forall>x \<in> own [n]. (argoTaskName y, argoTaskName x) \<in> (argo_edges graph)\<^sup>+))"
proof -
  obtain nodeById where indexed: "tree_indexed nodes nodeById"
    and tasks: "list_all2 (task_of nodeById) (exec_nodes [] nodes) (ag_tasks graph)"
    using compile_tasks [OF compiled] plan_tree_childless [OF assms(1-3)] unfolding nodes by blast
  have ids: "map at_nodeId (ag_tasks graph) = map pn_id (filter (\<lambda>n. executable_kind (pn_kind n)) (plannedNodeTree nodes))"
    using task_names(1) [OF tasks] exec_nodes_ids [of nodes "[]"] indexed by (simp add: tree_indexed_def)
  then have own_ids: "at_nodeId ` set (ag_tasks graph) = own nodes"
    unfolding set_map [symmetric] by (auto simp: own_def)
  have names: "map at_taskName (ag_tasks graph) = map argoTaskName (map at_nodeId (ag_tasks graph))"
    by (rule task_names(2) [OF tasks])
  have "distinct (map at_nodeId (ag_tasks graph))" unfolding ids using indexed by (simp add: tree_indexed_def distinct_map_filter)
  then have dist: "distinct (map at_taskName (ag_tasks graph))" unfolding names by (simp add: distinct_map inj_on_def)
  have closed: "set (at_dependencies task) \<subseteq> at_taskName ` set (ag_tasks graph)" if task: "task \<in> set (ag_tasks graph)" for task
  proof -
    obtain entry where "task_of nodeById entry task"
      using tasks task by (metis in_set_conv_nth list_all2_conv_all_nth)
    then have "set (at_dependencies task) \<subseteq> argoTaskName ` own nodes"
      using leaf_is_own [where nodes = nodes and nodeById = nodeById] tree_indexed_get [OF indexed] by (auto simp: task_of_def)
    also have "\<dots> = at_taskName ` set (ag_tasks graph)"
      unfolding own_ids [symmetric] using names by (metis image_image list.set_map)
    finally show ?thesis .
  qed
  have order: "(argoTaskName y, argoTaskName x) \<in> (argo_edges graph)\<^sup>+"
    if m: "m \<in> set nodes" "y \<in> own [m]" and n: "n \<in> set nodes" "x \<in> own [n]" and rel: "(pn_id m, pn_id n) \<in> (plan_needs nodes)\<^sup>+"
    for m n x y
  proof -
    obtain j where j: "(pn_id m, j) \<in> (plan_needs nodes)\<^sup>*" "(j, pn_id n) \<in> plan_needs nodes" using rel by (meson tranclD2)
    then obtain node where "node \<in> set nodes" "pn_id node = pn_id n" "j \<in> set (pn_needs node)" by (auto simp: plan_needs_def)
    moreover have "node = n" if "node \<in> set nodes" "pn_id node = pn_id n" for node
      using that n(1) tree_indexed_get [OF indexed] nodes_in_tree [of _ nodes]
      by (metis list.set_intros(1) option.inject plannedNodeTree.simps(2) subsetD)
    ultimately have "j \<in> set (pn_needs n)" by blast
    then show ?thesis
      using leaves_before [OF indexed tasks busy m j(1), of "argoTaskName x"] direct_dependency [OF indexed tasks n(1) _ n(2)] by blast
  qed
  show ?thesis using ids dist closed order by blast
qed

subsection \<open>The compilation returns\<close>

definition resolves :: "(string \<times> ('a, 'g) planned_node) list \<Rightarrow> string \<Rightarrow> bool" where
  "resolves nodeById k \<longleftrightarrow> (\<exists>n. \<forall>depth \<ge> n. resolveOne depth nodeById k \<noteq> None)"

lemma resolves_node:
  assumes "map_of nodeById k = Some node" "\<And>m. m \<in> set (container_members node) \<Longrightarrow> resolves nodeById m"
  shows "resolves nodeById k"
proof -
  obtain n where n: "\<forall>depth \<ge> n. \<forall>m \<in> set (container_members node). resolveOne depth nodeById m \<noteq> None"
    using enough_for_all [of "container_members node" "\<lambda>depth m. resolveOne depth nodeById m \<noteq> None"] assms(2)
    unfolding resolves_def by blast
  have "resolveOne depth nodeById k \<noteq> None" if deep: "Suc n \<le> depth" for depth
  proof -
    obtain d where d: "depth = Suc d" using Suc_le_D [OF deep] by blast
    then have "those (map (resolveOne d nodeById) (container_members node)) \<noteq> None"
      using n deep those_None_iff [of "resolveOne d nodeById"] by (metis Suc_le_mono)
    then show ?thesis using assms(1) d by auto
  qed
  then show ?thesis unfolding resolves_def by blast
qed

lemma resolves_unknown: "map_of nodeById k = None \<Longrightarrow> resolves nodeById k"
  unfolding resolves_def by (rule exI [of _ 1]) (auto simp: Suc_le_eq gr0_conv_Suc)

lemma resolves_nested:
  assumes "\<forall>n \<in> set (plannedNodeTree nodes). map_of nodeById (pn_id n) = Some n \<and> pn_kind n \<noteq> GroupKind" "n \<in> set (plannedNodeTree nodes)"
  shows "resolves nodeById (pn_id n)"
  using assms
proof (induction nodes arbitrary: n rule: plannedNodeTree.induct)
  case (2 node nodes)
  have tops: "set (planned_children node) \<subseteq> set (plannedNodeTree (planned_children node))"
    by (rule nodes_self)
  have below: "resolves nodeById (pn_id c)" if "c \<in> set (plannedNodeTree (planned_children node))" for c
    using "2.IH"(1) [OF _ that] "2.prems"(1) by simp
  have "resolves nodeById (pn_id node)"
  proof (rule resolves_node)
    show "map_of nodeById (pn_id node) = Some node" using "2.prems"(1) by simp
    show "resolves nodeById m" if "m \<in> set (container_members node)" for m
      using that below tops "2.prems"(1) by (auto simp: container_members_def split: node_kind.splits simp del: set_or_else_Nil)
  qed
  then show ?case using below "2.IH"(2) "2.prems" by auto
qed simp

definition groups_on_top :: "('a, 'g) planned_node list \<Rightarrow> bool" where
  "groups_on_top nodes \<longleftrightarrow> (\<forall>n \<in> set nodes. \<forall>c \<in> set (plannedNodeTree (planned_children n)). pn_kind c \<noteq> GroupKind)"

lemma resolves_all:
  assumes indexed: "tree_indexed nodes nodeById" and top_groups: "groups_on_top nodes"
    and ordered: "\<forall>i < length nodes. \<forall>need \<in> set (pn_needs (nodes ! i)). \<exists>j < i. pn_id (nodes ! j) = need"
    and members: "\<forall>n \<in> set nodes. pn_kind n = GroupKind \<longrightarrow> set (or_else (pn_nodes n) []) \<subseteq> set (pn_needs n)"
  shows "resolves nodeById k"
proof -
  have got: "map_of nodeById (pn_id n) = Some n" if "n \<in> set (plannedNodeTree nodes)" for n
    using that unfolding tree_indexed_get [OF indexed] by simp
  have child: "set (plannedNodeTree (planned_children n)) \<subseteq> set (plannedNodeTree nodes)" if "n \<in> set nodes" for n
    using nodes_in_tree [OF that] by simp
  have nested: "resolves nodeById (pn_id c)" if "n \<in> set nodes" "c \<in> set (plannedNodeTree (planned_children n))" for n c
    using resolves_nested [OF _ that(2)] got child [OF that(1)] top_groups that(1) unfolding groups_on_top_def by blast
  have top_level: "resolves nodeById (pn_id (nodes ! i))" if "i < length nodes" for i
    using that
  proof (induction i rule: less_induct)
    case (less i)
    have node: "nodes ! i \<in> set nodes" using less.prems by simp
    show ?case
    proof (rule resolves_node)
      show "map_of nodeById (pn_id (nodes ! i)) = Some (nodes ! i)" using got nodes_in_tree [OF node] by simp
      fix m assume m: "m \<in> set (container_members (nodes ! i))"
      consider "pn_kind (nodes ! i) = GroupKind" "m \<in> set (pn_needs (nodes ! i))"
        | c where "c \<in> set (planned_children (nodes ! i))" "m = pn_id c"
        using m members node by (auto simp: container_members_def split: node_kind.splits simp del: set_or_else_Nil)
      then show "resolves nodeById m"
      proof cases
        case 1
        then obtain j where "j < i" "pn_id (nodes ! j) = m" using ordered less.prems by blast
        then show ?thesis using less.IH [of j] less.prems by simp
      next
        case 2
        then show ?thesis using nested [OF node] nodes_in_tree [OF 2(1)] by simp
      qed
    qed
  qed
  have in_tree: "resolves nodeById (pn_id n)" if below: "n \<in> set (plannedNodeTree nodes)" for n
  proof -
    obtain t where t: "t \<in> set nodes" "n \<in> set (plannedNodeTree [t])" using below tree_Union [of nodes] by blast
    then consider "n = t" | "n \<in> set (plannedNodeTree (planned_children t))" by auto
    then show ?thesis
      using nested [OF t(1)] top_level t(1) by cases (auto simp: in_set_conv_nth simp del: set_or_else_Nil)
  qed
  show ?thesis
  proof (cases "map_of nodeById k")
    case (Some node)
    then show ?thesis using in_tree tree_indexed_get [OF indexed, of k node] by blast
  qed (rule resolves_unknown)
qed

lemma compileArgoNodes_returns:
  assumes "\<forall>need \<in> set inherited. resolveOne depth nodeById need \<noteq> None"
    and "\<forall>n \<in> set (plannedNodeTree nodes). \<forall>need \<in> set (pn_needs n). resolveOne depth nodeById need \<noteq> None"
  shows "compileArgoNodes depth nodeById nodes inherited tasks \<noteq> None"
  using assms
proof (induction depth nodeById nodes inherited tasks rule: compileArgoNodes.induct)
  case (2 depth nodeById node nodes inherited tasks)
  have all: "\<forall>need \<in> set (inherited @ pn_needs node). resolveOne depth nodeById need \<noteq> None" using "2.prems" by auto
  then have "compileExecutableNode depth nodeById node inherited \<noteq> None"
    using those_None_iff [of "resolveOne depth nodeById" "inherited @ pn_needs node"]
    by (auto simp: compileExecutableNode_def resolveDependencyTaskNames_def resolveExecutableDependencyIds_def Let_def
        split: option.splits)
  moreover have "compileArgoNodes depth nodeById (planned_children node) (inherited @ pn_needs node) tasks \<noteq> None"
    if "\<not> executable_kind (pn_kind node)" "pn_kind node \<noteq> GroupKind"
  proof -
    have "\<forall>n \<in> set (plannedNodeTree (planned_children node)). \<forall>need \<in> set (pn_needs n). resolveOne depth nodeById need \<noteq> None"
      using "2.prems"(2) unfolding plannedNodeTree.simps list.set set_append by blast
    from "2.IH"(1) [OF that all this] show ?thesis .
  qed
  moreover have "\<forall>n \<in> set (plannedNodeTree nodes). \<forall>need \<in> set (pn_needs n). resolveOne depth nodeById need \<noteq> None"
    using "2.prems"(2) unfolding plannedNodeTree.simps list.set set_append by blast
  from "2.IH"(2) [OF "2.prems"(1) this] have "compileArgoNodes depth nodeById nodes inherited t \<noteq> None" for t .
  ultimately show ?case unfolding compileArgoNodes.simps(2)
    by (cases "executable_kind (pn_kind node)"; cases "pn_kind node = GroupKind")
       (auto simp: argo_bind_def split: option.splits sum.splits)
qed simp

lemma normalized_members:
  "pn_kind (toPlannedNode (normalizeGroupNode node) i) = GroupKind \<Longrightarrow>
     set (or_else (pn_nodes (toPlannedNode (normalizeGroupNode node) i)) []) \<subseteq> set (wn_needs_list (normalizeGroupNode node))"
  by (cases node rule: normalizeGroupNode.cases) (auto simp: wn_needs_list_def)

lemma plan_group_members:
  assumes "graphlib_spec build" "nonempty_ids config" "compileWorkflowPlan build config requested = Inr plan"
    and "n \<in> set (ep_topologicalOrder plan)" "pn_kind n = GroupKind"
  shows "set (or_else (pn_nodes n) []) \<subseteq> set (pn_needs n)"
  using assms(1-3)
proof (rule compileWorkflowPlan_Inr)
  fix w order
  let ?nodes = "declared_nodes config (ep_workflowId plan)"
  assume ok: "plannable ?nodes" and plan: "plan = plan_of build config w (ep_workflowId plan) order"
    and order: "set order = wn_id ` set ?nodes" and w: "map_of (pc_workflows config) (ep_workflowId plan) = Some w"
  have "n \<in> set (plannedNodesForIds (createWorkflowGraph build ?nodes) order)"
    using assms(4) plan by (metis plan_of_fields(4))
  then obtain i where i: "i < length ?nodes" "n = final_node (raw_graph build ?nodes) ?nodes i"
    using plannedNodesForIds_nodes [OF assms(1) plannable_distinct [OF ok]] order by blast
  have "?nodes ! i \<in> normalizeGroupNode ` set (wf_nodes w)"
    using nth_mem [OF i(1)] w by (simp add: declared_nodes_def normalizeGroupDependencies_def)
  then obtain node where node: "?nodes ! i = normalizeGroupNode node" by blast
  have same: "pn_nodes (set_dependents ds m) = pn_nodes m" for ds and m :: "('a, 'b) planned_node" by (cases m) simp
  show ?thesis
    using normalized_members [of node i] assms(5) unfolding i(2) final_node_def node same
    by (simp del: set_or_else_Nil)
qed

text \<open>
  Compiling a plan to an execution graph returns, whatever the order and the depth of its nodes,
  when groups stand at the top level of the workflow, where they are validated.
\<close>

theorem argo_graph_returns:
  assumes "graphlib_spec build" "nonempty_ids config" "compileWorkflowPlan build config requested = Inr plan"
    and top_groups: "groups_on_top (ep_topologicalOrder plan)"
  shows "\<exists>enough. \<forall>depth \<ge> enough. compileArgoExecutionGraph depth plan \<noteq> None"
proof (cases "duplicateNodeId (ep_topologicalOrder plan)")
  case None
  let ?nodes = "ep_topologicalOrder plan" and ?index = "indexPlannedNodesById (ep_topologicalOrder plan) []"
  have unique: "distinct (map pn_id (plannedNodeTree ?nodes))" using None by (simp add: duplicateNodeId_None)
  then have indexed: "tree_indexed ?nodes ?index"
    using plan_tree_childless [OF assms(1-3)] indexPlannedNodesById_distinct [of "[]" ?nodes] by (simp add: tree_indexed_def)
  have members: "\<forall>n \<in> set ?nodes. pn_kind n = GroupKind \<longrightarrow> set (or_else (pn_nodes n) []) \<subseteq> set (pn_needs n)"
    using plan_group_members [OF assms(1-3)] by blast
  have "resolves ?index k" for k
    using resolves_all [OF indexed top_groups conjunct2 [OF conjunct2 [OF plan_order_facts [OF assms(1-3)]]] members] .
  then obtain enough where "\<forall>depth \<ge> enough. \<forall>need \<in> set (concat (map pn_needs (plannedNodeTree ?nodes))). resolveOne depth ?index need \<noteq> None"
    using enough_for_all [of "concat (map pn_needs (plannedNodeTree ?nodes))" "\<lambda>depth need. resolveOne depth ?index need \<noteq> None"]
    unfolding resolves_def by blast
  then have returns: "compileArgoNodes depth ?index ?nodes [] [] \<noteq> None" if "enough \<le> depth" for depth
    using that by (intro compileArgoNodes_returns) auto
  have "compileArgoExecutionGraph depth plan \<noteq> None" if deep: "enough \<le> depth" for depth
    using returns [OF deep] None
    by (auto simp: compileArgoExecutionGraph_def compileArgoExecutionGraphUnchecked_def argo_bind_def Let_def split: option.splits sum.splits)
  then show ?thesis by blast
qed (auto simp: compileArgoExecutionGraph_def)

definition argo_config :: "(unit, unit) pipeline_config" where
  "argo_config = config_of [command_node ''b'' [],
     WorkflowNode ''p'' (ParallelBody [command_node ''x'' [], command_node ''y'' []]) (Some [''b'']) None None None None None None None,
     group_node ''g'' [''p''], command_node ''e'' [''g'']]"

lemma argo_config_facts: "nonempty_ids argo_config"
  by (simp add: nonempty_ids_def argo_config_def config_of_def command_node_def group_node_def)

lemma Inr_case: "(case r of Inl e \<Rightarrow> False | Inr x \<Rightarrow> P x) \<Longrightarrow> \<exists>x. r = Inr x \<and> P x"
  by (cases r) simp_all

lemma Some_Inr_case: "(case r of Some (Inr x) \<Rightarrow> P x | _ \<Rightarrow> False) \<Longrightarrow> \<exists>x. r = Some (Inr x) \<and> P x"
  by (cases r) (simp_all add: Inr_case split: sum.splits)

lemma argo_plan:
  obtains plan graph where "compileWorkflowPlan sample_build argo_config None = Inr plan"
    "compileArgoExecutionGraph 3 plan = Some (Inr graph)" "groups_on_top (ep_topologicalOrder plan)"
    "\<forall>n \<in> set (ep_topologicalOrder plan). pn_kind n = ParallelKind \<longrightarrow> own [n] \<noteq> {}"
    "map at_dependencies (ag_tasks graph) = [[], [''node-b''], [''node-b''], [''node-x'', ''node-y'']]"
    "map pn_id (ep_topologicalOrder plan) = [''b'', ''p'', ''g'', ''e'']"
proof -
  have "case compileWorkflowPlan sample_build argo_config None of Inl e \<Rightarrow> False | Inr plan \<Rightarrow>
      (case compileArgoExecutionGraph 3 plan of Some (Inr graph) \<Rightarrow>
         map at_dependencies (ag_tasks graph) = [[], [''node-b''], [''node-b''], [''node-x'', ''node-y'']] | _ \<Rightarrow> False) \<and>
      list_all (\<lambda>n. list_all (\<lambda>c. pn_kind c = CommandKind) (plannedNodeTree (planned_children n)) \<and>
        (pn_kind n = ParallelKind \<longrightarrow> planned_children n \<noteq> [])) (ep_topologicalOrder plan) \<and>
      map pn_id (ep_topologicalOrder plan) = [''b'', ''p'', ''g'', ''e'']"
    by code_simp
  from Inr_case [OF this] obtain plan where both: "compileWorkflowPlan sample_build argo_config None = Inr plan \<and>
      (case compileArgoExecutionGraph 3 plan of Some (Inr graph) \<Rightarrow>
         map at_dependencies (ag_tasks graph) = [[], [''node-b''], [''node-b''], [''node-x'', ''node-y'']] | _ \<Rightarrow> False) \<and>
      list_all (\<lambda>n. list_all (\<lambda>c. pn_kind c = CommandKind) (plannedNodeTree (planned_children n)) \<and>
        (pn_kind n = ParallelKind \<longrightarrow> planned_children n \<noteq> [])) (ep_topologicalOrder plan) \<and>
      map pn_id (ep_topologicalOrder plan) = [''b'', ''p'', ''g'', ''e'']" ..
  note plan = both [THEN conjunct1]
  note compiled = both [THEN conjunct2, THEN conjunct1]
  note kinds = both [THEN conjunct2, THEN conjunct2, THEN conjunct1]
  note ids = both [THEN conjunct2, THEN conjunct2, THEN conjunct2]
  from Some_Inr_case [OF compiled] obtain graph where graph: "compileArgoExecutionGraph 3 plan = Some (Inr graph) \<and>
      map at_dependencies (ag_tasks graph) = [[], [''node-b''], [''node-b''], [''node-x'', ''node-y'']]" ..
  from kinds have shape: "\<forall>n \<in> set (ep_topologicalOrder plan). (\<forall>c \<in> set (plannedNodeTree (planned_children n)). pn_kind c = CommandKind) \<and>
        (pn_kind n = ParallelKind \<longrightarrow> planned_children n \<noteq> [])" unfolding list_all_iff .
  have "own [n] \<noteq> {}" if "n \<in> set (ep_topologicalOrder plan)" "pn_kind n = ParallelKind" for n
  proof -
    have kids: "planned_children n \<noteq> []" and commands: "\<forall>c \<in> set (plannedNodeTree (planned_children n)). pn_kind c = CommandKind"
      using shape that by blast+
    then show ?thesis by (cases "planned_children n") auto
  qed
  moreover have "groups_on_top (ep_topologicalOrder plan)" using shape by (simp add: groups_on_top_def)
  ultimately show ?thesis using that [OF plan graph [THEN conjunct1] _ _ graph [THEN conjunct2] ids] by simp
qed

lemma argo_graph_refines_plan_witness:
  "\<exists>plan graph. compileWorkflowPlan sample_build argo_config None = Inr plan \<and> compileArgoExecutionGraph 3 plan = Some (Inr graph) \<and>
     distinct (map at_taskName (ag_tasks graph)) \<and>
     map at_dependencies (ag_tasks graph) = [[], [''node-b''], [''node-b''], [''node-x'', ''node-y'']]"
proof -
  obtain plan graph where plan: "compileWorkflowPlan sample_build argo_config None = Inr plan"
    and graph: "compileArgoExecutionGraph 3 plan = Some (Inr graph)"
    and busy: "\<forall>n \<in> set (ep_topologicalOrder plan). pn_kind n = ParallelKind \<longrightarrow> own [n] \<noteq> {}"
    and deps: "map at_dependencies (ag_tasks graph) = [[], [''node-b''], [''node-b''], [''node-x'', ''node-y'']]"
    using argo_plan by metis
  note facts = argo_graph_refines_plan [OF sample_facts(1) argo_config_facts plan graph refl busy]
  show ?thesis using plan graph deps facts by (intro exI [of _ plan] exI [of _ graph]) simp
qed

lemma argo_graph_returns_witness:
  "\<exists>plan enough. compileWorkflowPlan sample_build argo_config None = Inr plan \<and>
     (\<forall>depth \<ge> enough. compileArgoExecutionGraph depth plan \<noteq> None)"
proof -
  obtain plan where plan: "compileWorkflowPlan sample_build argo_config None = Inr plan"
    and groups: "groups_on_top (ep_topologicalOrder plan)" using argo_plan by metis
  from argo_graph_returns [OF sample_facts(1) argo_config_facts plan groups] plan show ?thesis by blast
qed

end
