(* ===== verification/ChangedFiles.thy ===== *)
theory ChangedFiles
  imports NodeRun
begin

text \<open>
  The changed files of a work tree, from the text of \<^verbatim>\<open>git status --porcelain=v1 -z\<close>
  (\<^verbatim>\<open>src/runtime/changed-files/changed-files.ts\<close>). Running git and hashing a file are the caller's
  functions. The format of the text is \<open>porcelain\<close>: for every entry its two status letters, a
  space, the path and a NUL, and for a rename or a copy the path it comes from and another NUL.
\<close>

subsection \<open>Reading the status\<close>

definition nul :: char where
  "nul = CHR 0x00"

fun split_nul :: "string \<Rightarrow> string \<Rightarrow> string list" where
  "split_nul entry [] = [entry]"
| "split_nul entry (c # cs) = (if c = nul then entry # split_nul [] cs else split_nul (entry @ [c]) cs)"

definition isRenameOrCopyStatus :: "string \<Rightarrow> bool" where
  "isRenameOrCopyStatus status \<longleftrightarrow> starts_with status ''R'' \<or> starts_with status ''C''"

definition isRenameSourceEntry :: "string list \<Rightarrow> nat \<Rightarrow> bool" where
  "isRenameSourceEntry entries index =
     (case (if index = 0 then None else js_nth entries (index - 1)) of
        None \<Rightarrow> False
      | Some previous \<Rightarrow> take 2 previous \<noteq> [] \<and> isRenameOrCopyStatus (take 2 previous))"

definition pathFromPorcelainEntry :: "string \<Rightarrow> string list" where
  "pathFromPorcelainEntry entry = (let path = drop 3 entry in if path \<noteq> [] then [path] else [])"

definition parsePorcelainStatus :: "string \<Rightarrow> string list" where
  "parsePorcelainStatus stdout =
     (let entries = filter (\<lambda>entry. entry \<noteq> []) (split_nul [] stdout) in
      concat (map (\<lambda>(index, entry). if isRenameSourceEntry entries index then [] else pathFromPorcelainEntry entry)
        (enumerate 0 entries)))"

definition changedFilesSnapshot :: "(string \<Rightarrow> string) \<Rightarrow> string list \<Rightarrow> changed_snapshot" where
  "changedFilesSnapshot fileFingerprint files =
     \<lparr>cs_files = files, cs_fingerprints = map (\<lambda>file. (file, fileFingerprint file)) files\<rparr>"

text \<open>A failed \<open>git status\<close> counts as no output.\<close>

definition snapshotChangedFiles :: "(string \<Rightarrow> string) \<Rightarrow> string option \<Rightarrow> changed_snapshot" where
  "snapshotChangedFiles fileFingerprint statusPorcelain =
     changedFilesSnapshot fileFingerprint (js_set (parsePorcelainStatus (or_else statusPorcelain [])))"

subsection \<open>The format of the status\<close>

record porcelain_entry =
  pe_status :: string
  pe_path :: string
  pe_source :: "string option"

definition renames :: "porcelain_entry \<Rightarrow> bool" where
  "renames e \<longleftrightarrow> isRenameOrCopyStatus (pe_status e)"

definition entry_ok :: "porcelain_entry \<Rightarrow> bool" where
  "entry_ok e \<longleftrightarrow> length (pe_status e) = 2 \<and> nul \<notin> set (pe_status e) \<and> pe_path e \<noteq> [] \<and> nul \<notin> set (pe_path e) \<and>
     (case pe_source e of None \<Rightarrow> \<not> renames e | Some source \<Rightarrow> renames e \<and> source \<noteq> [] \<and> nul \<notin> set source)"

definition entry_lines :: "porcelain_entry \<Rightarrow> string list" where
  "entry_lines e = (pe_status e @ '' '' @ pe_path e) # (case pe_source e of None \<Rightarrow> [] | Some source \<Rightarrow> [source])"

definition porcelain :: "porcelain_entry list \<Rightarrow> string" where
  "porcelain es = concat (map (\<lambda>line. line @ [nul]) (concat (map entry_lines es)))"

text \<open>The paths that are read: an entry is lost after a source whose name starts like a rename.\<close>

definition hides :: "string option \<Rightarrow> bool" where
  "hides source = (case source of None \<Rightarrow> False | Some s \<Rightarrow> isRenameOrCopyStatus s)"

fun visible :: "string option \<Rightarrow> porcelain_entry list \<Rightarrow> string list" where
  "visible source [] = []"
| "visible source (e # es) = (if hides source then [] else [pe_path e]) @ visible (pe_source e) es"

subsection \<open>What is read of it\<close>

lemma split_nul_line: "nul \<notin> set line \<Longrightarrow> split_nul entry (line @ nul # rest) = (entry @ line) # split_nul [] rest"
  by (induction line arbitrary: entry) auto

lemma split_nul_lines:
  "\<forall>line \<in> set lines. nul \<notin> set line \<Longrightarrow> split_nul [] (concat (map (\<lambda>line. line @ [nul]) lines)) = lines @ [[]]"
  by (induction lines) (simp_all add: split_nul_line)

lemma entry_lines_ok: "entry_ok e \<Longrightarrow> line \<in> set (entry_lines e) \<Longrightarrow> line \<noteq> [] \<and> nul \<notin> set line"
  by (auto simp: entry_lines_def entry_ok_def nul_def split: option.splits)

lemma porcelain_entries:
  assumes "\<forall>e \<in> set es. entry_ok e"
  shows "filter (\<lambda>entry. entry \<noteq> []) (split_nul [] (porcelain es)) = concat (map entry_lines es)"
proof -
  have ok: "\<forall>line \<in> set (concat (map entry_lines es)). line \<noteq> [] \<and> nul \<notin> set line"
    using assms entry_lines_ok by auto
  then have "split_nul [] (porcelain es) = concat (map entry_lines es) @ [[]]"
    unfolding porcelain_def by (intro split_nul_lines) blast
  with ok show ?thesis by (simp add: filter_id_conv)
qed

definition reads :: "string list \<Rightarrow> nat \<Rightarrow> string list \<Rightarrow> string list" where
  "reads entries n rest =
     concat (map (\<lambda>(index, entry). if isRenameSourceEntry entries index then [] else pathFromPorcelainEntry entry)
       (enumerate n rest))"

lemma reads_simps [simp]:
  "reads entries n [] = []"
  "reads entries n (entry # rest) =
     (if isRenameSourceEntry entries n then [] else pathFromPorcelainEntry entry) @ reads entries (Suc n) rest"
  by (simp_all add: reads_def)

lemma rename_take: "isRenameOrCopyStatus (take 2 s) = isRenameOrCopyStatus s"
  by (cases s) (auto simp: isRenameOrCopyStatus_def starts_with_def)

lemma rename_nonempty: "isRenameOrCopyStatus s \<Longrightarrow> s \<noteq> []"
  by (auto simp: isRenameOrCopyStatus_def starts_with_def)

lemma isRenameSourceEntry_after:
  "isRenameSourceEntry (before @ rest) (length before) =
     (before \<noteq> [] \<and> isRenameOrCopyStatus (last before))"
proof (cases before rule: rev_cases)
  case (snoc xs x)
  then have "js_nth (before @ rest) (length before - 1) = Some x" by (simp add: js_nth_def nth_append)
  then show ?thesis using snoc rename_nonempty [of x] by (cases xs) (auto simp: isRenameSourceEntry_def rename_take)
qed (simp add: isRenameSourceEntry_def)

lemma status_rename: "entry_ok e \<Longrightarrow> isRenameOrCopyStatus (pe_status e @ rest) = renames e"
  unfolding renames_def entry_ok_def
  by (cases "pe_status e") (auto simp: isRenameOrCopyStatus_def starts_with_def)

lemma path_of_entry: "entry_ok e \<Longrightarrow> pathFromPorcelainEntry (pe_status e @ '' '' @ pe_path e) = [pe_path e]"
  by (simp add: pathFromPorcelainEntry_def entry_ok_def)

lemma reads_visible:
  assumes "\<forall>e \<in> set es. entry_ok e"
    and "(before \<noteq> [] \<and> isRenameOrCopyStatus (last before)) = hides source"
  shows "reads (before @ concat (map entry_lines es)) (length before) (concat (map entry_lines es)) = visible source es"
  using assms
proof (induction es arbitrary: before source)
  case (Cons e es)
  let ?line = "pe_status e @ '' '' @ pe_path e" and ?rest = "concat (map entry_lines es)"
  have ok: "entry_ok e" using Cons.prems by simp
  have first: "isRenameSourceEntry (before @ ?line # more) (length before) = hides source" for more
    using Cons.prems(2) by (simp add: isRenameSourceEntry_after)
  show ?case
  proof (cases "pe_source e")
    case None
    then have plain: "\<not> renames e" using ok by (simp add: entry_ok_def)
    have lines: "concat (map entry_lines (e # es)) = ?line # ?rest" using None by (simp add: entry_lines_def)
    have "reads ((before @ [?line]) @ ?rest) (length (before @ [?line])) ?rest = visible None es"
    proof (rule Cons.IH)
      show "\<forall>e\<in>set es. entry_ok e" using Cons.prems(1) by simp
      show "(before @ [?line] \<noteq> [] \<and> isRenameOrCopyStatus (last (before @ [?line]))) = hides None"
        using status_rename [OF ok] plain by (simp add: hides_def)
    qed
    then show ?thesis unfolding lines using first None path_of_entry [OF ok] by simp
  next
    case (Some from_path)
    then have renamed: "renames e" using ok by (simp add: entry_ok_def)
    have second: "isRenameSourceEntry ((before @ [?line]) @ from_path # ?rest) (length (before @ [?line]))"
      using status_rename [OF ok] renamed unfolding isRenameSourceEntry_after by simp
    have lines: "concat (map entry_lines (e # es)) = ?line # from_path # ?rest" using Some by (simp add: entry_lines_def)
    have "reads ((before @ [?line, from_path]) @ ?rest) (length (before @ [?line, from_path])) ?rest = visible (Some from_path) es"
    proof (rule Cons.IH)
      show "\<forall>e\<in>set es. entry_ok e" using Cons.prems(1) by simp
      show "(before @ [?line, from_path] \<noteq> [] \<and> isRenameOrCopyStatus (last (before @ [?line, from_path]))) =
          hides (Some from_path)" by (simp add: hides_def)
    qed
    then show ?thesis unfolding lines using first second Some path_of_entry [OF ok] by simp
  qed
qed simp

lemma parse_porcelain:
  assumes "\<forall>e \<in> set es. entry_ok e"
  shows "parsePorcelainStatus (porcelain es) = visible None es"
  using reads_visible [OF assms, of "[]" None]
  by (simp add: parsePorcelainStatus_def porcelain_entries [OF assms] reads_def hides_def)




text \<open>
  The entry after a rename is not read when the old name starts with R or C: its change is not in
  the snapshot that the gates of changed files and the repair of failures look at.
\<close>

theorem change_after_rename_lost:
  assumes "entry_ok renamed" "entry_ok changed" "pe_source renamed = Some old" "isRenameOrCopyStatus old"
  shows "cs_files (snapshotChangedFiles fp (Some (porcelain [renamed, changed]))) = [pe_path renamed]"
  using assms by (simp add: snapshotChangedFiles_def changedFilesSnapshot_def parse_porcelain hides_def js_set_def set_add_def)

lemma change_after_rename_lost_witness:
  "cs_files (snapshotChangedFiles (\<lambda>file. []) (Some (porcelain
     [\<lparr>pe_status = ''R '', pe_path = ''docs/README.md'', pe_source = Some ''README.md''\<rparr>,
      \<lparr>pe_status = ''??'', pe_path = ''src/secret.ts'', pe_source = None\<rparr>]))) = [''docs/README.md'']"
  using change_after_rename_lost [of "\<lparr>pe_status = ''R '', pe_path = ''docs/README.md'', pe_source = Some ''README.md''\<rparr>"
      "\<lparr>pe_status = ''??'', pe_path = ''src/secret.ts'', pe_source = None\<rparr>" "''README.md''"]
  by (simp add: entry_ok_def renames_def isRenameOrCopyStatus_def starts_with_def nul_def)

end
