(* ===== verification/JsonValidation.thy ===== *)
theory JsonValidation
  imports JsData
begin

text \<open>
  JSON text and JSON schemas: \<^verbatim>\<open>src/safe-json.ts\<close> and \<^verbatim>\<open>src/runtime/json-validation/json-validation.ts\<close>. The
  JSON parser, the schema compiler and the schemas that ship with the package are the parameters of
  \<open>json_library\<close>, the file system is \<open>file_system\<close>; a path is given with the work tree it is joined to.
\<close>

subsection \<open>Computations that may throw\<close>

text \<open>What is thrown is an \<open>Error\<close> with its message or another value with its string.\<close>

datatype thrown = ThrownError string | ThrownValue string

fun thrown_text :: "thrown \<Rightarrow> string" where
  "thrown_text (ThrownError message) = message"
| "thrown_text (ThrownValue text) = text"

type_synonym ('s, 'x) may = "'s \<Rightarrow> (thrown + 'x) \<times> 's"

definition may_return :: "'x \<Rightarrow> ('s, 'x) may" where
  "may_return x s = (Inr x, s)"

definition may_throw :: "thrown \<Rightarrow> ('s, 'x) may" where
  "may_throw e s = (Inl e, s)"

definition may_bind :: "('s, 'x) may \<Rightarrow> ('x \<Rightarrow> ('s, 'y) may) \<Rightarrow> ('s, 'y) may" where
  "may_bind m f s = (case m s of (Inl e, s') \<Rightarrow> (Inl e, s') | (Inr x, s') \<Rightarrow> f x s')"

definition may_catch :: "('s, 'x) may \<Rightarrow> (thrown \<Rightarrow> ('s, 'x) may) \<Rightarrow> ('s, 'x) may" where
  "may_catch m f s = (case m s of (Inl e, s') \<Rightarrow> f e s' | (Inr x, s') \<Rightarrow> (Inr x, s'))"

definition may_sum :: "thrown + 'x \<Rightarrow> ('s, 'x) may" where
  "may_sum r s = (r, s)"

definition may_modify :: "('s \<Rightarrow> 's) \<Rightarrow> ('s, unit) may" where
  "may_modify f s = (Inr (), f s)"

lemma may_bind_Inr:
  "may_bind m f s = (Inr y, s2) \<longleftrightarrow> (\<exists>x s1. m s = (Inr x, s1) \<and> f x s1 = (Inr y, s2))"
  by (auto simp: may_bind_def split: prod.splits sum.splits)

lemma may_simps [simp]:
  "may_bind (may_return x) f = f x" "may_bind (may_throw e) g = may_throw e"
  "may_catch (may_return x) h = may_return x" "may_catch (may_throw e) h = h e"
  by (simp_all add: may_bind_def may_return_def may_throw_def may_catch_def fun_eq_iff)

text \<open>The state: the validators compiled so far and the outside world.\<close>

record ajv_error =
  se_instancePath :: string
  se_message :: "string option"

type_synonym validator = "json \<Rightarrow> bool \<times> ajv_error list option"

record 'w validation_state =
  vs_cache :: "(string \<times> string \<times> validator) list"
  vs_world :: 'w

definition may_world :: "('w \<Rightarrow> (thrown + 'x) \<times> 'w) \<Rightarrow> (('w, 'z) validation_state_scheme, 'x) may" where
  "may_world f s = (case f (vs_world s) of (r, w) \<Rightarrow> (r, s\<lparr>vs_world := w\<rparr>))"

record 'w file_system =
  fs_exists :: "string \<Rightarrow> string \<Rightarrow> 'w \<Rightarrow> (thrown + bool) \<times> 'w"
  fs_readText :: "string \<Rightarrow> string \<Rightarrow> 'w \<Rightarrow> (thrown + string) \<times> 'w"

record json_library =
  jl_parse :: "string \<Rightarrow> string + json"
  jl_compile :: "json \<Rightarrow> thrown + validator"
  jl_standardSchema :: "string \<Rightarrow> string option"

subsection \<open>Parsing\<close>

definition parseJson :: "json_library \<Rightarrow> string \<Rightarrow> string \<Rightarrow> thrown + json" where
  "parseJson lib text label = (case jl_parse lib text of
     Inr parsed \<Rightarrow> Inr parsed
   | Inl message \<Rightarrow> Inl (ThrownError (''Failed to parse '' @ label @ '': '' @ message)))"

definition parseJsonResult :: "json_library \<Rightarrow> string \<Rightarrow> string \<Rightarrow> string + json" where
  "parseJsonResult lib text label = (case parseJson lib text label of
     Inr parsed \<Rightarrow> Inr parsed | Inl e \<Rightarrow> Inl (thrown_text e))"

text \<open>
  \<open>normalizeJsonSource\<close> trims the text and takes the body of a Markdown fence around all of it. The
  regular expression wants a line break among the white space after the opening fence, and another one
  right before the closing fence; between them it leaves the body, which is trimmed.
\<close>

definition fence :: string where
  "fence = [CHR 0x60, CHR 0x60, CHR 0x60]"

definition newline :: char where
  "newline = CHR 0x0A"

definition MARKDOWN_JSON_FENCE_RE :: "string \<Rightarrow> string option" where
  "MARKDOWN_JSON_FENCE_RE text =
     (if take 3 text \<noteq> fence then None
      else let tagged = drop 3 text;
               rest = (if to_lower (take 4 tagged) = ''json'' then drop 4 tagged else tagged);
               middle = take (length rest - 3) rest
           in if 3 \<le> length rest \<and> drop (length rest - 3) rest = fence \<and> middle \<noteq> [] \<and> last middle = newline \<and>
                 newline \<in> set (takeWhile is_space (butlast middle))
              then Some middle else None)"

definition normalizeJsonSource :: "string \<Rightarrow> string" where
  "normalizeJsonSource source =
     (let trimmed = js_trim source in
      case MARKDOWN_JSON_FENCE_RE trimmed of None \<Rightarrow> trimmed | Some body \<Rightarrow> js_trim body)"

text \<open>\<open>split(/\r?\n/u)\<close>: a line break ends a line, with the carriage return before it.\<close>

definition drop_return :: "string \<Rightarrow> string" where
  "drop_return line = (if line \<noteq> [] \<and> last line = CHR 0x0D then butlast line else line)"

fun split_lines :: "string \<Rightarrow> string \<Rightarrow> string list" where
  "split_lines line [] = [line]"
| "split_lines line (c # cs) =
     (if c = newline then drop_return line # split_lines [] cs else split_lines (line @ [c]) cs)"

text \<open>\<open>parseRuntimeOutput\<close>: the parsed output, or the text with the error that parsing it threw.\<close>

record runtime_output =
  ro_error :: "string option"
  ro_output :: json

fun map_sum :: "('x \<Rightarrow> thrown + 'y) \<Rightarrow> 'x list \<Rightarrow> thrown + 'y list" where
  "map_sum f [] = Inr []"
| "map_sum f (x # xs) = (case f x of Inl e \<Rightarrow> Inl e | Inr y \<Rightarrow>
     (case map_sum f xs of Inl e \<Rightarrow> Inl e | Inr ys \<Rightarrow> Inr (y # ys)))"

definition parseRuntimeOutput :: "json_library \<Rightarrow> string \<Rightarrow> string \<Rightarrow> runtime_output" where
  "parseRuntimeOutput lib format output =
     (if format \<notin> {''json'', ''json_schema'', ''jsonl''} then \<lparr>ro_error = None, ro_output = JStr output\<rparr>
      else case (if format = ''jsonl''
                 then (case map_sum (\<lambda>line. parseJson lib line ''runtime JSONL line'')
                               (filter (\<lambda>line. js_trim line \<noteq> []) (split_lines [] output)) of
                         Inl e \<Rightarrow> Inl e | Inr vs \<Rightarrow> Inr (JArr vs))
                 else parseJson lib (normalizeJsonSource output) ''runtime JSON output'') of
             Inr v \<Rightarrow> \<lparr>ro_error = None, ro_output = v\<rparr>
           | Inl (ThrownError message) \<Rightarrow> \<lparr>ro_error = Some message, ro_output = JStr output\<rparr>
           | Inl (ThrownValue text) \<Rightarrow> \<lparr>ro_error = Some ''failed to parse output'', ro_output = JStr output\<rparr>)"

subsection \<open>Schemas\<close>

definition readJsonSchemaSource ::
  "json_library \<Rightarrow> 'w file_system \<Rightarrow> string \<Rightarrow> string \<Rightarrow> (('w, 'z) validation_state_scheme, string) may" where
  "readJsonSchemaSource lib fs schemaPath worktreePath = (case jl_standardSchema lib schemaPath of
     Some source \<Rightarrow> may_return source
   | None \<Rightarrow> may_world (fs_readText fs worktreePath schemaPath))"

fun isJsonSchema :: "json \<Rightarrow> bool" where
  "isJsonSchema (JBool b) \<longleftrightarrow> True"
| "isJsonSchema v \<longleftrightarrow> isRecord v"

text \<open>What compiling a source gives when nothing is cached.\<close>

definition compile_schema :: "json_library \<Rightarrow> string \<Rightarrow> string \<Rightarrow> thrown + validator" where
  "compile_schema lib schemaPath schemaSource =
     (case parseJson lib schemaSource (''JSON schema '' @ schemaPath) of
        Inl e \<Rightarrow> Inl e
      | Inr schema \<Rightarrow>
          (if \<not> isJsonSchema schema
           then Inl (ThrownError (''JSON schema '' @ schemaPath @ '' must be an object or boolean''))
           else jl_compile lib schema))"

definition compiledJsonSchemaValidator ::
  "json_library \<Rightarrow> string \<Rightarrow> string \<Rightarrow> (('w, 'z) validation_state_scheme, validator) may" where
  "compiledJsonSchemaValidator lib schemaPath schemaSource s =
     (case map_of (vs_cache s) schemaPath of
        Some (source, validate) \<Rightarrow>
          if source = schemaSource then (Inr validate, s)
          else (case compile_schema lib schemaPath schemaSource of
                  Inl e \<Rightarrow> (Inl e, s)
                | Inr validate \<Rightarrow> (Inr validate, s\<lparr>vs_cache := AList.update schemaPath (schemaSource, validate) (vs_cache s)\<rparr>))
      | None \<Rightarrow>
          (case compile_schema lib schemaPath schemaSource of
             Inl e \<Rightarrow> (Inl e, s)
           | Inr validate \<Rightarrow> (Inr validate, s\<lparr>vs_cache := AList.update schemaPath (schemaSource, validate) (vs_cache s)\<rparr>)))"

definition readOptionalFile ::
  "'w file_system \<Rightarrow> string \<Rightarrow> string \<Rightarrow> (('w, 'z) validation_state_scheme, string option) may" where
  "readOptionalFile fs worktreePath path =
     may_bind (may_world (fs_exists fs worktreePath path)) (\<lambda>exists.
       if exists then may_bind (may_world (fs_readText fs worktreePath path)) (\<lambda>text. may_return (Some text))
       else may_return None)"

record schema_result =
  sr_evidence :: "string list"
  sr_passed :: bool
  sr_reason :: "string option"

definition jsonSchemaValidationEvidence :: "string \<Rightarrow> string list \<Rightarrow> string list" where
  "jsonSchemaValidationEvidence schemaPath errors =
     (if errors = [] then [''JSON schema passed: '' @ schemaPath] else map (\<lambda>e. ''schema: '' @ e) errors)"

definition jsonSchemaValidationSuccess :: "string \<Rightarrow> string list \<Rightarrow> schema_result" where
  "jsonSchemaValidationSuccess schemaPath errors =
     \<lparr>sr_evidence = jsonSchemaValidationEvidence schemaPath errors, sr_passed = (errors = []),
      sr_reason = (if errors = [] then None else Some ''JSON schema validation failed'')\<rparr>"

definition jsonSchemaValidationFailure :: "thrown \<Rightarrow> schema_result" where
  "jsonSchemaValidationFailure e =
     \<lparr>sr_evidence = [thrown_text e], sr_passed = False, sr_reason = Some ''JSON schema validation failed''\<rparr>"

definition formatJsonSchemaErrors :: "ajv_error list \<Rightarrow> string list" where
  "formatJsonSchemaErrors errors = map (\<lambda>e.
     js_trim ((if se_instancePath e = [] then ''$'' else se_instancePath e) @ '' '' @
              or_else (se_message e) ''failed validation'')) errors"

definition validateJsonSchemaValue ::
  "json_library \<Rightarrow> string \<Rightarrow> string \<Rightarrow> string \<Rightarrow> (('w, 'z) validation_state_scheme, schema_result) may" where
  "validateJsonSchemaValue lib source schemaPath schemaSource =
     may_bind (may_sum (parseJson lib (normalizeJsonSource source) ''JSON schema gate value'')) (\<lambda>v.
     may_bind (compiledJsonSchemaValidator lib schemaPath schemaSource) (\<lambda>validate.
       let (valid, errors) = validate v in
       may_return (jsonSchemaValidationSuccess schemaPath
         (if valid then [] else formatJsonSchemaErrors (or_else errors [])))))"

definition validateJsonSchemaSource ::
  "json_library \<Rightarrow> 'w file_system \<Rightarrow> string \<Rightarrow> string \<Rightarrow> string \<Rightarrow>
   (('w, 'z) validation_state_scheme, schema_result) may" where
  "validateJsonSchemaSource lib fs source schemaPath worktreePath =
     may_catch
       (may_bind (readJsonSchemaSource lib fs schemaPath worktreePath) (\<lambda>schemaSource.
          validateJsonSchemaValue lib source schemaPath schemaSource))
       (\<lambda>e. may_return (jsonSchemaValidationFailure e))"

subsection \<open>The cache of validators\<close>

text \<open>Every cached validator is what compiling its source gives.\<close>

definition cache_ok :: "json_library \<Rightarrow> (string \<times> string \<times> validator) list \<Rightarrow> bool" where
  "cache_ok lib cache \<longleftrightarrow> (\<forall>path source validate.
     map_of cache path = Some (source, validate) \<longrightarrow> compile_schema lib path source = Inr validate)"

lemma cache_ok_Nil [simp]: "cache_ok lib []"
  by (simp add: cache_ok_def)

lemma compiled_fresh:
  assumes "cache_ok lib (vs_cache s)" "compiledJsonSchemaValidator lib path source s = (r, s')"
  shows "r = compile_schema lib path source \<and> cache_ok lib (vs_cache s') \<and> vs_world s' = vs_world s"
  using assms
  by (auto simp: compiledJsonSchemaValidator_def cache_ok_def split: option.splits if_splits prod.splits sum.splits)

text \<open>What validation gives without a cache, as a function of the contents of the schema.\<close>

definition validation_spec :: "json_library \<Rightarrow> string \<Rightarrow> string \<Rightarrow> thrown + string \<Rightarrow> schema_result" where
  "validation_spec lib source schemaPath schema = (case schema of
     Inl e \<Rightarrow> jsonSchemaValidationFailure e
   | Inr schemaSource \<Rightarrow> (case parseJson lib (normalizeJsonSource source) ''JSON schema gate value'' of
       Inl e \<Rightarrow> jsonSchemaValidationFailure e
     | Inr v \<Rightarrow> (case compile_schema lib schemaPath schemaSource of
         Inl e \<Rightarrow> jsonSchemaValidationFailure e
       | Inr validate \<Rightarrow> jsonSchemaValidationSuccess schemaPath
           (if fst (validate v) then [] else formatJsonSchemaErrors (or_else (snd (validate v)) [])))))"

text \<open>
  Validating against a schema never throws, and the cache of compiled validators cannot be seen: the
  result is what the text of the schema, read now, says of the source, and the cache stays faithful.
\<close>

theorem schema_cache_transparent:
  assumes "cache_ok lib (vs_cache s)"
    and "readJsonSchemaSource lib fs schemaPath worktreePath s = (schema, s1)"
    and "validateJsonSchemaSource lib fs source schemaPath worktreePath s = (r, s')"
  shows "r = Inr (validation_spec lib source schemaPath schema) \<and> cache_ok lib (vs_cache s') \<and> vs_world s' = vs_world s1"
proof -
  have kept: "vs_cache s1 = vs_cache s"
    using assms(2) by (auto simp: readJsonSchemaSource_def may_return_def may_world_def split: option.splits prod.splits)
  show ?thesis
  proof (cases schema)
    case (Inl e)
    then show ?thesis using assms kept
      by (auto simp: validateJsonSchemaSource_def may_catch_def may_bind_def may_return_def validation_spec_def)
  next
    case (Inr schemaSource)
    obtain r2 s2 where valid: "compiledJsonSchemaValidator lib schemaPath schemaSource s1 = (r2, s2)" by fastforce
    note fresh = compiled_fresh [of lib s1, unfolded kept, OF assms(1) valid]
    show ?thesis
    proof (cases "parseJson lib (normalizeJsonSource source) ''JSON schema gate value''")
      case (Inl e)
      then show ?thesis using assms kept Inr
        by (auto simp: validateJsonSchemaSource_def validateJsonSchemaValue_def may_catch_def may_bind_def may_return_def may_sum_def
            validation_spec_def)
    next
      case parsed: (Inr v)
      have ran: "validateJsonSchemaSource lib fs source schemaPath worktreePath s =
          (Inr (validation_spec lib source schemaPath schema), s2)"
        using Inr parsed valid fresh [THEN conjunct1, symmetric] assms(2)
        by (cases r2; cases "snd (sum.projr r2 v)")
           (auto simp: validateJsonSchemaSource_def validateJsonSchemaValue_def may_catch_def may_bind_def may_return_def
             may_sum_def validation_spec_def split: prod.splits)
      with assms(3) fresh kept show ?thesis by simp
    qed
  qed
qed

end
