(* ===== verification/Gates.thy ===== *)
theory Gates
  imports ChangedFiles JsonValidation NodeExecution
begin

text \<open>
  The gates of a node: the gate specifications of \<^verbatim>\<open>src/config/schemas.ts\<close>, the kinds of gates
  (\<^verbatim>\<open>src/runtime/gates/kinds\<close>, \<^verbatim>\<open>src/runtime/gates/gates.ts\<close>), the dispatch
  (\<^verbatim>\<open>src/runtime/gates/registry.ts\<close>) and the evaluation of a node's gates in order
  (\<^verbatim>\<open>src/runtime/gates/orchestrator.ts\<close>). Commands, builtins, files, the abort signal, the matching
  of globs and the hook for failures are the services; events carry no actor and no time stamp.
\<close>

subsection \<open>Specifications\<close>

datatype json_target = ArtifactTarget | StdoutTarget

record json_source =
  js_path :: "string option"
  js_target :: "json_target option"

record changed_files_policy =
  cp_allow :: "string list option"
  cp_deny :: "string list option"
  cp_include_untracked :: "bool option"
  cp_require_any :: "string list option"

datatype gate_body =
    AcceptanceGate json_source "string option"
  | ArtifactGate string
  | BuiltinGate string
  | ChangedFilesGate changed_files_policy
  | CommandGate "string list" "int option" "nat option"
  | JsonSchemaGate json_source string
  | VerdictGate json_source "string option" "string option"

record gate_spec =
  gsp_id :: "string option"
  gsp_required :: "bool option"
  gsp_body :: gate_body

fun body_gate_kind :: "gate_body \<Rightarrow> string" where
  "body_gate_kind (AcceptanceGate src key) = ''acceptance''"
| "body_gate_kind (ArtifactGate path) = ''artifact''"
| "body_gate_kind (BuiltinGate b) = ''builtin''"
| "body_gate_kind (ChangedFilesGate p) = ''changed_files''"
| "body_gate_kind (CommandGate c e t) = ''command''"
| "body_gate_kind (JsonSchemaGate src schema) = ''json_schema''"
| "body_gate_kind (VerdictGate src e f) = ''verdict''"

abbreviation gsp_kind :: "gate_spec \<Rightarrow> string" where
  "gsp_kind gate \<equiv> body_gate_kind (gsp_body gate)"

record artifact_spec =
  as_path :: string
  as_required :: "bool option"

type_synonym gated_node = "(artifact_spec list, gate_spec list) planned_node"

subsection \<open>Services, context and state\<close>

record 'w gate_services =
  gv_library :: json_library
  gv_files :: "'w file_system"
  gv_artifactExists :: "string \<Rightarrow> string \<Rightarrow> 'w \<Rightarrow> bool \<times> 'w"
  gv_execute :: "string list \<Rightarrow> nat option \<Rightarrow> 'w \<Rightarrow> (thrown + attempt_result) \<times> 'w"
  gv_builtin :: "string \<Rightarrow> 'w \<Rightarrow> (thrown + attempt_result) \<times> 'w"
  gv_globMatch :: "string \<Rightarrow> string \<Rightarrow> bool"
  gv_aborted :: "'w \<Rightarrow> bool \<times> 'w"

record output_spec =
  os_format :: string
  os_schema_path :: "string option"

record gate_context =
  gc_graph :: "gated_node dep_graph"
  gc_outputs :: "(string \<times> output_spec option) list"
  gc_snapshots :: "(string \<times> changed_snapshot) list"
  gc_taskContext :: "task_context option"
  gc_worktreePath :: string

datatype gate_event =
    GateStart string string string
  | ArtifactCheckStart string string bool
  | ArtifactCheckFinish string bool string bool "string option"
  | GateFinish "string list" string string string bool "string option"
  | GateObserved string string string
  | GateObservedFinish string string string bool "string option"
  | GateObservedFailed string string string string
  | GateObservedCancelled string string string string

record 'w gate_state = "'w validation_state" +
  gt_gates :: "gate_result list"
  gt_events :: "gate_event list"

type_synonym ('w, 'x) gate_run = "('w gate_state, 'x) may"

definition emit_gate :: "gate_event \<Rightarrow> ('w, unit) gate_run" where
  "emit_gate event = may_modify (\<lambda>s. s\<lparr>gt_events := gt_events s @ [event]\<rparr>)"

definition total_world :: "('w \<Rightarrow> 'x \<times> 'w) \<Rightarrow> ('w, 'x) gate_run" where
  "total_world f = may_world (\<lambda>w. case f w of (x, w') \<Rightarrow> (Inr x, w'))"

subsection \<open>The JSON a gate looks at\<close>

definition gateJsonSource ::
  "'w gate_services \<Rightarrow> json_source \<Rightarrow> gate_context \<Rightarrow> attempt_result \<Rightarrow> ('w, string + string) gate_run" where
  "gateJsonSource sv gate context attempt =
     (if js_target gate = Some ArtifactTarget
      then (case truthy (js_path gate) of
              None \<Rightarrow> may_return (Inl ''missing JSON artifact path'')
            | Some path \<Rightarrow> may_bind (readOptionalFile (gv_files sv) (gc_worktreePath context) path) (\<lambda>source.
                may_return (case source of None \<Rightarrow> Inl (''missing JSON artifact: '' @ path) | Some text \<Rightarrow> Inr text)))
      else may_return (Inr (ar_output attempt)))"

definition parseGateJson ::
  "'w gate_services \<Rightarrow> json_source \<Rightarrow> gate_context \<Rightarrow> attempt_result \<Rightarrow> ('w, string + json) gate_run" where
  "parseGateJson sv gate context attempt =
     may_bind (gateJsonSource sv gate context attempt) (\<lambda>src.
       may_return (case src of
         Inl evidence \<Rightarrow> Inl evidence
       | Inr source \<Rightarrow> parseJsonResult (gv_library sv) source ''gate JSON''))"

text \<open>A result of a gate that knows no criteria.\<close>

definition basic_result :: "gate_spec \<Rightarrow> string \<Rightarrow> string \<Rightarrow> string list \<Rightarrow> bool \<Rightarrow> string option \<Rightarrow> gate_result" where
  "basic_result gate gateId nodeId evidence passed reason =
     \<lparr>gr_evidence = evidence, gr_gateId = gateId, gr_kind = gsp_kind gate, gr_nodeId = nodeId, gr_passed = passed,
      gr_reason = reason, gr_unmet = None\<rparr>"

text \<open>\<open>String(value)\<close> of a property that may be missing.\<close>

definition field_text :: "json option \<Rightarrow> string" where
  "field_text v = (case v of None \<Rightarrow> ''undefined'' | Some x \<Rightarrow> json_text x)"

subsection \<open>Verdict, artifact, command, builtin and schema gates\<close>

definition evaluateVerdictGate ::
  "'w gate_services \<Rightarrow> gate_spec \<Rightarrow> json_source \<Rightarrow> string option \<Rightarrow> string option \<Rightarrow> string \<Rightarrow> string \<Rightarrow> gate_context \<Rightarrow>
   attempt_result \<Rightarrow> ('w, gate_result) gate_run" where
  "evaluateVerdictGate sv gate src equals field gateId nodeId context attempt =
     may_bind (parseGateJson sv src context attempt) (\<lambda>parsed.
       may_return (case parsed of
         Inl evidence \<Rightarrow> basic_result gate gateId nodeId [evidence] False (Some ''verdict gate JSON parse failed'')
       | Inr v \<Rightarrow>
           (let name = or_else field ''verdict''; expected = or_else equals ''PASS'';
                found = (if isRecord v then json_field v name else None);
                passed = (found = Some (JStr expected))
            in basic_result gate gateId nodeId
                 [if passed then ''verdict '' @ quoted name @ '' matched '' @ quoted expected
                  else ''verdict '' @ quoted name @ '' expected '' @ quoted expected @ '', got '' @ quoted (field_text found)]
                 passed (if passed then None else Some ''verdict requirement failed''))))"

definition evaluateArtifactGate ::
  "'w gate_services \<Rightarrow> gate_spec \<Rightarrow> string \<Rightarrow> string \<Rightarrow> string \<Rightarrow> gate_context \<Rightarrow> ('w, gate_result) gate_run" where
  "evaluateArtifactGate sv gate path gateId nodeId context =
     may_bind (if path \<noteq> [] then total_world (gv_artifactExists sv (gc_worktreePath context) path) else may_return False)
       (\<lambda>passed. may_return (basic_result gate gateId nodeId
          [(if passed then ''artifact exists: '' else ''missing artifact: '') @ path] passed
          (if passed then None else Some (''missing artifact '' @ quoted path))))"

definition evaluateCommandGate ::
  "'w gate_services \<Rightarrow> gate_spec \<Rightarrow> string list \<Rightarrow> int option \<Rightarrow> nat option \<Rightarrow> string \<Rightarrow> string \<Rightarrow> ('w, gate_result) gate_run" where
  "evaluateCommandGate sv gate command expect_exit_code timeout_ms gateId nodeId =
     may_bind (may_world (gv_execute sv command timeout_ms)) (\<lambda>result.
       let expected = or_else expect_exit_code 0; passed = (ar_exitCode result = expected) in
       may_return (basic_result gate gateId nodeId (ar_evidence result) passed
         (if passed then None
          else Some (''expected exit '' @ show_int expected @ '', got '' @ show_int (ar_exitCode result)))))"

definition evaluateBuiltinGate ::
  "'w gate_services \<Rightarrow> gate_spec \<Rightarrow> string \<Rightarrow> string \<Rightarrow> string \<Rightarrow> ('w, gate_result) gate_run" where
  "evaluateBuiltinGate sv gate builtin gateId nodeId =
     may_bind (may_world (gv_builtin sv builtin)) (\<lambda>result.
       may_return (basic_result gate gateId nodeId (ar_evidence result) (ar_exitCode result = 0)
         (if ar_exitCode result = 0 then None else Some (''builtin '' @ quoted builtin @ '' failed''))))"

definition evaluateJsonSchemaGate ::
  "'w gate_services \<Rightarrow> gate_spec \<Rightarrow> json_source \<Rightarrow> string \<Rightarrow> string \<Rightarrow> string \<Rightarrow> gate_context \<Rightarrow> attempt_result \<Rightarrow>
   ('w, gate_result) gate_run" where
  "evaluateJsonSchemaGate sv gate src schemaPath gateId nodeId context attempt =
     may_bind (case (js_target src, truthy (js_path src)) of
         (Some ArtifactTarget, Some path) \<Rightarrow> readOptionalFile (gv_files sv) (gc_worktreePath context) path
       | _ \<Rightarrow> may_return (Some (ar_output attempt)))
     (\<lambda>source. case source of
         None \<Rightarrow> may_return (basic_result gate gateId nodeId [''missing JSON artifact: '' @ or_else (js_path src) []] False
                   (Some (''missing JSON artifact '' @ quoted (or_else (js_path src) []))))
       | Some text \<Rightarrow>
           may_bind (validateJsonSchemaSource (gv_library sv) (gv_files sv) text schemaPath (gc_worktreePath context)) (\<lambda>result.
             may_return (basic_result gate gateId nodeId (sr_evidence result) (sr_passed result) (sr_reason result))))"

subsection \<open>Acceptance gates\<close>

definition effectiveTaskContext :: "gated_node \<Rightarrow> gate_context \<Rightarrow> task_context option" where
  "effectiveTaskContext node context = (case pn_taskContext node of None \<Rightarrow> gc_taskContext context | t \<Rightarrow> t)"

text \<open>\<open>value[key] ?? value.criteria ?? value.acceptanceCriteria\<close>: a null counts as missing.\<close>

definition non_null :: "json option \<Rightarrow> json option" where
  "non_null v = (if v = Some JNull then None else v)"

definition first_field :: "json \<Rightarrow> string list \<Rightarrow> json option" where
  "first_field v keys = (case List.map_filter (\<lambda>key. non_null (json_field v key)) keys of [] \<Rightarrow> None | x # xs \<Rightarrow> Some x)"

definition acceptanceEntries :: "json \<Rightarrow> string option \<Rightarrow> json list" where
  "acceptanceEntries v key =
     (if \<not> isRecord v then []
      else case json_array (first_field v [or_else key ''acceptance'', ''criteria'', ''acceptanceCriteria'']) of
             None \<Rightarrow> [] | Some items \<Rightarrow> filter isRecord items)"

definition coverageCountUnmetCriteria :: "string \<Rightarrow> nat \<Rightarrow> unmet_criterion list" where
  "coverageCountUnmetCriteria i occurrences =
     (if occurrences = 0 then
        [\<lparr>uc_criterion = i, uc_evidence = [''criterion '' @ quoted i @ '' absent from acceptance report''],
          uc_reason = ''missing acceptance criterion '' @ quoted i\<rparr>] else []) @
     (if occurrences > 1 then
        [\<lparr>uc_criterion = i, uc_evidence = [''criterion '' @ quoted i @ '' reported '' @ show_nat occurrences @ '' times''],
          uc_reason = ''duplicate acceptance criterion '' @ quoted i\<rparr>] else [])"

definition hasNonEmptyEvidence :: "json option \<Rightarrow> bool" where
  "hasNonEmptyEvidence v = (case json_array v of None \<Rightarrow> False
     | Some items \<Rightarrow> list_ex (\<lambda>item. case item of JStr t \<Rightarrow> js_trim t \<noteq> [] | _ \<Rightarrow> False) items)"

definition entry_id :: "json \<Rightarrow> string" where
  "entry_id entry = or_else (json_string (json_field entry ''id'')) []"

definition entryUnmetCriteria ::
  "json \<Rightarrow> string list \<Rightarrow> (string \<times> nat) list \<Rightarrow> unmet_criterion list \<times> (string \<times> nat) list" where
  "entryUnmetCriteria entry expectedIds seen =
     (let i = entry_id entry; verdict = json_field entry ''verdict'' in
      if i = [] then
        ([\<lparr>uc_criterion = [], uc_evidence = [''acceptance entry has no id field''],
           uc_reason = ''acceptance entry missing id''\<rparr>], seen)
      else
        ((if i \<notin> set expectedIds then
            [\<lparr>uc_criterion = i, uc_evidence = [''id '' @ quoted i @ '' not in task acceptance context''],
              uc_reason = ''extra acceptance criterion '' @ quoted i\<rparr>] else []) @
         (if verdict \<noteq> Some (JStr ''PASS'') then
            [\<lparr>uc_criterion = i, uc_evidence = [''reported verdict '' @ quoted (field_text verdict)],
              uc_reason = ''acceptance criterion '' @ quoted i @ '' verdict '' @ quoted (field_text verdict)\<rparr>] else []) @
         (if verdict = Some (JStr ''PASS'') \<and> \<not> hasNonEmptyEvidence (json_field entry ''evidence'') then
            [\<lparr>uc_criterion = i, uc_evidence = [''verdict '' @ quoted ''PASS'' @ '' reported without supporting evidence''],
              uc_reason = ''acceptance criterion '' @ quoted i @ '' has no evidence''\<rparr>] else []),
         AList.update i (or_else (map_of seen i) 0 + 1) seen))"

fun entries_unmet ::
  "json list \<Rightarrow> string list \<Rightarrow> (string \<times> nat) list \<Rightarrow> unmet_criterion list \<times> (string \<times> nat) list" where
  "entries_unmet [] expectedIds seen = ([], seen)"
| "entries_unmet (entry # entries) expectedIds seen =
     (let (unmet, seen') = entryUnmetCriteria entry expectedIds seen;
          (rest, seen'') = entries_unmet entries expectedIds seen'
      in (unmet @ rest, seen''))"

definition acceptanceUnmetCriteria :: "(string \<times> string) list \<Rightarrow> json list \<Rightarrow> unmet_criterion list" where
  "acceptanceUnmetCriteria expected entries =
     (let expectedIds = js_set (map fst expected);
          (unmet, seen) = entries_unmet entries expectedIds []
      in unmet @ concat (map (\<lambda>i. coverageCountUnmetCriteria i (or_else (map_of seen i) 0)) expectedIds))"

definition evaluateAcceptanceGate ::
  "'w gate_services \<Rightarrow> gate_spec \<Rightarrow> json_source \<Rightarrow> string option \<Rightarrow> string \<Rightarrow> string \<Rightarrow> gate_context \<Rightarrow> attempt_result \<Rightarrow>
   gated_node option \<Rightarrow> ('w, gate_result) gate_run" where
  "evaluateAcceptanceGate sv gate src acceptance_key gateId nodeId context attempt node =
     (let taskContext = (case node of Some n \<Rightarrow> effectiveTaskContext n context | None \<Rightarrow> gc_taskContext context);
          expected = (case taskContext of None \<Rightarrow> [] | Some t \<Rightarrow> or_else (tc_acceptanceCriteria t) [])
      in if expected = [] then
           may_return (basic_result gate gateId nodeId [''no acceptance criteria in task context'']
             (gsp_required gate = Some False)
             (if gsp_required gate = Some False then None else Some ''missing task acceptance context''))
         else may_bind (parseGateJson sv src context attempt) (\<lambda>parsed. case parsed of
             Inl evidence \<Rightarrow>
               may_return (basic_result gate gateId nodeId [evidence] False (Some ''acceptance gate JSON parse failed''))
           | Inr v \<Rightarrow>
               (let unmet = acceptanceUnmetCriteria expected (acceptanceEntries v acceptance_key); passed = (unmet = []) in
                may_return (basic_result gate gateId nodeId
                  (if passed then [''acceptance coverage passed''] else map uc_reason unmet) passed
                  (if passed then None else Some ''acceptance coverage failed'')\<lparr>gr_unmet := Some unmet\<rparr>))))"

subsection \<open>Gates of changed files\<close>

definition SUPERVISOR_RUN_STATE_GLOBS :: "string list" where
  "SUPERVISOR_RUN_STATE_GLOBS =
     [''**/.pipeline/runs/**'', ''**/.pipeline/journal/**'', ''**/.pipeline/runtime-events.jsonl'', ''**/.pipeline/**/status.json'']"

text \<open>The prefix \<open>/^.{2} /u\<close>: two characters that are not line breaks, and a space.\<close>

fun stripPorcelainStatusPrefix :: "string \<Rightarrow> string" where
  "stripPorcelainStatusPrefix (a # b # c # rest) =
     (if a \<notin> {CHR 0x0A, CHR 0x0D} \<and> b \<notin> {CHR 0x0A, CHR 0x0D} \<and> c = CHR '' '' then rest else a # b # c # rest)"
| "stripPorcelainStatusPrefix file = file"

definition isSupervisorRunStatePath :: "(string \<Rightarrow> string \<Rightarrow> bool) \<Rightarrow> string \<Rightarrow> bool" where
  "isSupervisorRunStatePath globMatch file =
     (let path = stripPorcelainStatusPrefix file in
      list_ex (\<lambda>pattern. globMatch pattern path) SUPERVISOR_RUN_STATE_GLOBS)"

definition included_files :: "(string \<Rightarrow> string \<Rightarrow> bool) \<Rightarrow> changed_files_policy \<Rightarrow> string list \<Rightarrow> string list" where
  "included_files globMatch policy changed =
     (let untrackedFiltered = (if cp_include_untracked policy = Some False
                               then filter (\<lambda>file. \<not> starts_with file ''?? '') changed else changed)
      in filter (\<lambda>file. \<not> isSupervisorRunStatePath globMatch file) untrackedFiltered)"

definition policy_evidence :: "(string \<Rightarrow> string \<Rightarrow> bool) \<Rightarrow> changed_files_policy \<Rightarrow> string list \<Rightarrow> string list" where
  "policy_evidence globMatch policy included =
     (let allow = or_else (cp_allow policy) []; require_any = or_else (cp_require_any policy) [];
          denied = filter (\<lambda>file. list_ex (\<lambda>pattern. globMatch pattern file) (or_else (cp_deny policy) [])) included;
          disallowed = filter (\<lambda>file. allow \<noteq> [] \<and> \<not> list_ex (\<lambda>pattern. globMatch pattern file) allow) included
      in (if denied \<noteq> [] then [''denied changes: '' @ join_with '', '' denied] else []) @
         (if disallowed \<noteq> [] then [''changes outside allow list: '' @ join_with '', '' disallowed] else []) @
         (if require_any \<noteq> [] \<and> \<not> list_ex (\<lambda>file. list_ex (\<lambda>pattern. globMatch pattern file) require_any) included
          then [''missing required changes matching: '' @ join_with '', '' require_any] else []))"

definition evaluateChangedFilesGate ::
  "'w gate_services \<Rightarrow> gate_spec \<Rightarrow> changed_files_policy \<Rightarrow> string \<Rightarrow> string \<Rightarrow> gate_context \<Rightarrow> gate_result" where
  "evaluateChangedFilesGate sv gate policy gateId nodeId context =
     (let changed = (case map_of (gc_snapshots context) nodeId of None \<Rightarrow> [] | Some snapshot \<Rightarrow> cs_files snapshot);
          included = included_files (gv_globMatch sv) policy changed;
          evidence = policy_evidence (gv_globMatch sv) policy included;
          files = join_with '', '' included
      in basic_result gate gateId nodeId
           (if evidence = [] then [''changed files: '' @ (if files = [] then ''none'' else files)] else evidence)
           (evidence = []) (if evidence = [] then None else Some ''changed-file policy failed''))"

subsection \<open>The dispatch\<close>

definition evaluateGate ::
  "'w gate_services \<Rightarrow> gate_spec \<Rightarrow> string \<Rightarrow> string \<Rightarrow> gate_context \<Rightarrow> attempt_result \<Rightarrow> gated_node option \<Rightarrow>
   ('w, gate_result) gate_run" where
  "evaluateGate sv gate gateId nodeId context attempt node = (case gsp_body gate of
     AcceptanceGate src key \<Rightarrow> evaluateAcceptanceGate sv gate src key gateId nodeId context attempt node
   | ArtifactGate path \<Rightarrow> evaluateArtifactGate sv gate path gateId nodeId context
   | BuiltinGate builtin \<Rightarrow> evaluateBuiltinGate sv gate builtin gateId nodeId
   | ChangedFilesGate policy \<Rightarrow> may_return (evaluateChangedFilesGate sv gate policy gateId nodeId context)
   | CommandGate command expect timeout \<Rightarrow> evaluateCommandGate sv gate command expect timeout gateId nodeId
   | JsonSchemaGate src schemaPath \<Rightarrow> evaluateJsonSchemaGate sv gate src schemaPath gateId nodeId context attempt
   | VerdictGate src equals field \<Rightarrow> evaluateVerdictGate sv gate src equals field gateId nodeId context attempt)"

subsection \<open>The gates of a node\<close>

datatype gate_action = ContinueGates | StopGates

definition gateResultReasonFields :: "gate_result \<Rightarrow> string option" where
  "gateResultReasonFields result = truthy (gr_reason result)"

definition emitGateStart :: "string \<Rightarrow> gate_spec \<Rightarrow> string \<Rightarrow> ('w, unit) gate_run" where
  "emitGateStart nodeId gate gateId =
     may_bind (emit_gate (GateStart gateId (gsp_kind gate) nodeId)) (\<lambda>_.
       case gsp_body gate of
         ArtifactGate path \<Rightarrow> emit_gate (ArtifactCheckStart nodeId path (gsp_required gate \<noteq> Some False))
       | _ \<Rightarrow> may_return ())"

definition emitArtifactGateFinish :: "gate_spec \<Rightarrow> gate_result \<Rightarrow> ('w, unit) gate_run" where
  "emitArtifactGateFinish gate result = (case gsp_body gate of
     ArtifactGate path \<Rightarrow> emit_gate (ArtifactCheckFinish (gr_nodeId result) (gr_passed result) path
       (gsp_required gate \<noteq> Some False) (gateResultReasonFields result))
   | _ \<Rightarrow> may_return ())"

definition emitGateFinish :: "gate_spec \<Rightarrow> gate_result \<Rightarrow> ('w, unit) gate_run" where
  "emitGateFinish gate result =
     may_bind (emitArtifactGateFinish gate result) (\<lambda>_.
       emit_gate (GateFinish (gr_evidence result) (gr_gateId result) (gr_kind result) (gr_nodeId result) (gr_passed result)
         (gateResultReasonFields result)))"

definition recordGateResult ::
  "gate_spec \<Rightarrow> gate_result \<Rightarrow> gate_result list \<Rightarrow> ('w, gate_result list) gate_run" where
  "recordGateResult gate result results =
     may_bind (may_modify (\<lambda>s. s\<lparr>gt_gates := gt_gates s @ [result]\<rparr>)) (\<lambda>_.
     may_bind (emitGateFinish gate result) (\<lambda>_. may_return (results @ [result])))"

type_synonym 'w gate_failure_hook = "gated_node \<Rightarrow> gate_result \<Rightarrow> 'w \<Rightarrow> (thrown + unit) \<times> 'w"

definition handleGateFailure ::
  "gate_spec \<Rightarrow> gated_node \<Rightarrow> gate_result \<Rightarrow> 'w gate_failure_hook option \<Rightarrow> ('w, gate_action) gate_run" where
  "handleGateFailure gate node result onGateFailure =
     (if gr_passed result then may_return ContinueGates
      else may_bind (case onGateFailure of Some hook \<Rightarrow> may_world (hook node result) | None \<Rightarrow> may_return ()) (\<lambda>_.
        may_return (if gsp_required gate = Some False then ContinueGates else StopGates)))"

definition gate_error_result :: "gate_spec \<Rightarrow> string \<Rightarrow> string \<Rightarrow> thrown \<Rightarrow> gate_result" where
  "gate_error_result gate gateId nodeId e =
     basic_result gate gateId nodeId [thrown_text e] False
       (Some (case e of ThrownError message \<Rightarrow> message | ThrownValue text \<Rightarrow> ''gate evaluation failed''))"

definition resolveGateResult ::
  "'w gate_services \<Rightarrow> gate_spec \<Rightarrow> string \<Rightarrow> string \<Rightarrow> gate_context \<Rightarrow> attempt_result \<Rightarrow> ('w, gate_result) gate_run" where
  "resolveGateResult sv gate gateId nodeId context attempt =
     may_catch (evaluateGate sv gate gateId nodeId context attempt (dependencyGraphValue (gc_graph context) nodeId))
       (\<lambda>e. may_return (gate_error_result gate gateId nodeId e))"

definition emitRuntimeGateResult :: "gate_result \<Rightarrow> ('w, unit) gate_run" where
  "emitRuntimeGateResult result =
     may_bind (emit_gate (GateObservedFinish (gr_gateId result) (gr_kind result) (gr_nodeId result) (gr_passed result)
                 (gr_reason result))) (\<lambda>_.
       if gr_passed result then may_return ()
       else emit_gate (GateObservedFailed (gr_gateId result) (gr_kind result) (gr_nodeId result)
                        (or_else (gr_reason result) ''gate failed'')))"

definition runGateEvaluation ::
  "'w gate_services \<Rightarrow> gate_spec \<Rightarrow> string \<Rightarrow> string \<Rightarrow> gate_context \<Rightarrow> attempt_result \<Rightarrow> ('w, gate_result) gate_run" where
  "runGateEvaluation sv gate gateId nodeId context attempt =
     may_bind (emit_gate (GateObserved gateId (gsp_kind gate) nodeId)) (\<lambda>_.
     may_bind (resolveGateResult sv gate gateId nodeId context attempt) (\<lambda>result.
     may_bind (emitRuntimeGateResult result) (\<lambda>_. may_return result)))"

definition runObservedGate ::
  "'w gate_services \<Rightarrow> gate_spec \<Rightarrow> string \<Rightarrow> string \<Rightarrow> gate_context \<Rightarrow> attempt_result \<Rightarrow> ('w, gate_result) gate_run" where
  "runObservedGate sv gate gateId nodeId context attempt =
     may_bind (emitGateStart nodeId gate gateId) (\<lambda>_. runGateEvaluation sv gate gateId nodeId context attempt)"

definition artifactGateSpecs :: "gated_node \<Rightarrow> gate_spec list" where
  "artifactGateSpecs node = map (\<lambda>artifact.
     \<lparr>gsp_id = Some (''artifact:'' @ as_path artifact), gsp_required = as_required artifact,
      gsp_body = ArtifactGate (as_path artifact)\<rparr>) (or_else (pn_artifacts node) [])"

definition schemaGateSpecs :: "gated_node \<Rightarrow> gate_context \<Rightarrow> gate_spec list" where
  "schemaGateSpecs node context =
     (case truthy (pn_profile node) of
        None \<Rightarrow> []
      | Some profileId \<Rightarrow> (case map_of (gc_outputs context) profileId of
          Some (Some output) \<Rightarrow>
            (if os_format output \<noteq> ''json_schema'' then []
             else case truthy (os_schema_path output) of
                    None \<Rightarrow> []
                  | Some path \<Rightarrow> [\<lparr>gsp_id = Some (''output:'' @ pn_id node), gsp_required = None,
                      gsp_body = JsonSchemaGate \<lparr>js_path = None, js_target = Some StdoutTarget\<rparr> path\<rparr>])
        | _ \<Rightarrow> []))"

definition nodeGateSpecs :: "gated_node \<Rightarrow> gate_context \<Rightarrow> gate_spec list" where
  "nodeGateSpecs node context = or_else (pn_gates node) [] @ artifactGateSpecs node @ schemaGateSpecs node context"

definition gate_id :: "gate_spec \<Rightarrow> gated_node \<Rightarrow> string" where
  "gate_id gate node = or_else (gsp_id gate) (gsp_kind gate @ '':'' @ pn_id node)"

definition evaluateNodeGateIteration ::
  "'w gate_services \<Rightarrow> gate_spec \<Rightarrow> gated_node \<Rightarrow> gate_context \<Rightarrow> attempt_result \<Rightarrow> gate_result list \<Rightarrow>
   'w gate_failure_hook option \<Rightarrow> ('w, gate_action \<times> gate_result list) gate_run" where
  "evaluateNodeGateIteration sv gate node context attempt results onGateFailure =
     (let gateId = gate_id gate node in
      may_bind (total_world (gv_aborted sv)) (\<lambda>cancelled.
        if cancelled then
          may_bind (emit_gate (GateObservedCancelled gateId (gsp_kind gate) (pn_id node) ''gate cancelled'')) (\<lambda>_.
            may_return (StopGates, results))
        else
          may_bind (runObservedGate sv gate gateId (pn_id node) context attempt) (\<lambda>result.
          may_bind (recordGateResult gate result results) (\<lambda>results'.
          may_bind (handleGateFailure gate node result onGateFailure) (\<lambda>action.
            may_return (action, results'))))))"

fun gates_loop ::
  "'w gate_services \<Rightarrow> gate_spec list \<Rightarrow> gated_node \<Rightarrow> gate_context \<Rightarrow> attempt_result \<Rightarrow> gate_result list \<Rightarrow>
   'w gate_failure_hook option \<Rightarrow> ('w, gate_result list) gate_run" where
  "gates_loop sv [] node context attempt results onGateFailure = may_return results"
| "gates_loop sv (gate # gates) node context attempt results onGateFailure =
     may_bind (evaluateNodeGateIteration sv gate node context attempt results onGateFailure) (\<lambda>(action, results').
       if action = StopGates then may_return results'
       else gates_loop sv gates node context attempt results' onGateFailure)"

definition evaluateNodeGatesWithExecutor ::
  "'w gate_services \<Rightarrow> gated_node \<Rightarrow> gate_context \<Rightarrow> attempt_result \<Rightarrow> 'w gate_failure_hook option \<Rightarrow>
   ('w, gate_result list) gate_run" where
  "evaluateNodeGatesWithExecutor sv node context attempt onGateFailure =
     gates_loop sv (nodeGateSpecs node context) node context attempt [] onGateFailure"

subsection \<open>What an acceptance gate accepts\<close>

text \<open>A report covers the expected criteria exactly: each of them once, passed with evidence, and no other.\<close>

definition entry_passes :: "json \<Rightarrow> bool" where
  "entry_passes entry \<longleftrightarrow> json_field entry ''verdict'' = Some (JStr ''PASS'') \<and> hasNonEmptyEvidence (json_field entry ''evidence'')"

definition covers_exactly :: "string set \<Rightarrow> json list \<Rightarrow> bool" where
  "covers_exactly ids entries \<longleftrightarrow>
     distinct (map entry_id entries) \<and> set (map entry_id entries) = ids \<and> (\<forall>e \<in> set entries. entry_id e \<noteq> [] \<and> entry_passes e)"

lemma entryUnmetCriteria_Nil:
  "fst (entryUnmetCriteria entry ids seen) = [] \<longleftrightarrow> entry_id entry \<noteq> [] \<and> entry_id entry \<in> set ids \<and> entry_passes entry"
  by (auto simp: entryUnmetCriteria_def Let_def entry_passes_def)

lemma entryUnmetCriteria_seen:
  "or_else (map_of (snd (entryUnmetCriteria entry ids seen)) i) 0 =
     or_else (map_of seen i) 0 + (if entry_id entry = i \<and> i \<noteq> [] then 1 else 0)"
  by (auto simp: entryUnmetCriteria_def Let_def)

lemma entries_unmet_Nil:
  "fst (entries_unmet entries ids seen) = [] \<longleftrightarrow>
     (\<forall>e \<in> set entries. entry_id e \<noteq> [] \<and> entry_id e \<in> set ids \<and> entry_passes e)"
proof (induction entries arbitrary: seen)
  case (Cons e entries)
  show ?case using Cons [of "snd (entryUnmetCriteria e ids seen)"] entryUnmetCriteria_Nil [of e ids seen]
    by (auto simp: case_prod_beta Let_def)
qed simp

lemma entries_unmet_seen:
  "or_else (map_of (snd (entries_unmet entries ids seen)) i) 0 =
     or_else (map_of seen i) 0 + length (filter (\<lambda>e. entry_id e = i \<and> i \<noteq> []) entries)"
proof (induction entries arbitrary: seen)
  case (Cons e entries)
  show ?case using Cons [of "snd (entryUnmetCriteria e ids seen)"] entryUnmetCriteria_seen [of e ids seen i]
    by (simp add: case_prod_beta Let_def)
qed simp

lemma coverageCount_Nil: "coverageCountUnmetCriteria i n = [] \<longleftrightarrow> n = 1"
  by (auto simp: coverageCountUnmetCriteria_def)

lemma distinct_count: "distinct xs \<longleftrightarrow> (\<forall>x \<in> set xs. length (filter (\<lambda>y. y = x) xs) = 1)"
proof (induction xs)
  case (Cons x xs)
  have head: "length (filter (\<lambda>y. y = x) (x # xs)) = 1 \<longleftrightarrow> x \<notin> set xs" by (auto simp: filter_empty_conv)
  have rest: "(\<forall>y \<in> set xs. length (filter (\<lambda>z. z = y) (x # xs)) = 1) \<longleftrightarrow> (\<forall>y \<in> set xs. length (filter (\<lambda>z. z = y) xs) = 1)"
    if "x \<notin> set xs" using that by (intro ball_cong refl) auto
  show ?case using head rest Cons by (metis (no_types, lifting) distinct.simps(2) list.set_intros(1,2) set_ConsD)
qed simp

lemma filter_map_length: "length (filter (\<lambda>y. y = i) (map f xs)) = length (filter (\<lambda>x. f x = i) xs)"
  by (induction xs) auto

lemma acceptanceUnmetCriteria_Nil:
  "acceptanceUnmetCriteria expected entries = [] \<longleftrightarrow> covers_exactly (fst ` set expected) entries"
proof -
  let ?ids = "js_set (map fst expected)" and ?names = "map entry_id entries"
  let ?reported = "\<lambda>i. length (filter (\<lambda>e. entry_id e = i \<and> i \<noteq> []) entries)"
  have left: "acceptanceUnmetCriteria expected entries = [] \<longleftrightarrow>
      (\<forall>e \<in> set entries. entry_id e \<noteq> [] \<and> entry_id e \<in> set ?ids \<and> entry_passes e) \<and> (\<forall>i \<in> set ?ids. ?reported i = 1)"
    using entries_unmet_Nil [of entries ?ids "[]"] entries_unmet_seen [of entries ?ids "[]"]
    by (auto simp: acceptanceUnmetCriteria_def case_prod_beta Let_def coverageCount_Nil)
  have times: "?reported i = length (filter (\<lambda>y. y = i) ?names)" if "\<forall>e \<in> set entries. entry_id e \<noteq> []" for i
    unfolding filter_map_length using that by (intro arg_cong [where f = length] filter_cong) auto
  have member: "i \<in> set ?names" if "length (filter (\<lambda>y. y = i) ?names) = 1" for i
  proof -
    have "filter (\<lambda>y. y = i) ?names \<noteq> []" using that by (metis list.size(3) zero_neq_one)
    then show ?thesis unfolding filter_empty_conv by blast
  qed
  show ?thesis
  proof
    assume "acceptanceUnmetCriteria expected entries = []"
    then have ok: "\<forall>e \<in> set entries. entry_id e \<noteq> [] \<and> entry_id e \<in> set ?ids \<and> entry_passes e"
      and once: "\<forall>i \<in> set ?ids. length (filter (\<lambda>y. y = i) ?names) = 1"
      using left times by auto
    have "set ?names = set ?ids" using ok member once by fastforce
    then show "covers_exactly (fst ` set expected) entries"
      unfolding covers_exactly_def distinct_count using ok once by auto
  next
    assume covers: "covers_exactly (fst ` set expected) entries"
    then have names: "set ?names = set ?ids" and dist: "distinct ?names" by (simp_all add: covers_exactly_def)
    have ok: "\<forall>e \<in> set entries. entry_id e \<noteq> [] \<and> entry_id e \<in> set ?ids \<and> entry_passes e"
      using covers unfolding covers_exactly_def by auto
    have "\<forall>i \<in> set ?ids. length (filter (\<lambda>y. y = i) ?names) = 1" using dist unfolding distinct_count names .
    moreover have "\<forall>e \<in> set entries. entry_id e \<noteq> []" using ok by blast
    note times [OF this]
    ultimately have "\<forall>i \<in> set ?ids. ?reported i = 1" by presburger
    with ok show "acceptanceUnmetCriteria expected entries = []" using left by blast
  qed
qed

text \<open>
  An acceptance gate that has criteria to check and a report that parses passes exactly when the report
  lists every expected criterion once, each with the verdict PASS and some evidence that is not blank,
  and nothing else.
\<close>

theorem acceptance_gate_exact:
  assumes "effectiveTaskContext node context = Some t" "tc_acceptanceCriteria t = Some expected" "expected \<noteq> []"
    and "parseGateJson sv src context attempt s = (Inr (Inr report), s1)"
    and "evaluateAcceptanceGate sv gate src key gateId nodeId context attempt (Some node) s = (r, s')"
  shows "s' = s1 \<and> (\<exists>result. r = Inr result \<and> gr_gateId result = gateId \<and>
     (gr_passed result \<longleftrightarrow> covers_exactly (fst ` set expected) (acceptanceEntries report key)) \<and>
     (gr_passed result \<longleftrightarrow> gr_unmet result = Some []))"
  using assms
  by (auto simp: evaluateAcceptanceGate_def Let_def may_bind_def may_return_def basic_result_def acceptanceUnmetCriteria_Nil
      split: if_splits)

end
