(* ===== verification/GateRuns.thy ===== *)
theory GateRuns
  imports Gates Remediation
begin

text \<open>
  What the gates of a node show of it: the protocol of \<open>evaluateNodeGates\<close>, the gates as the evaluator that
  node execution calls, and two places where an option of a gate has no effect.
\<close>

subsection \<open>The evaluator of node execution\<close>

fun js_error_of :: "thrown \<Rightarrow> js_error" where
  "js_error_of (ThrownError message) = JsError message"
| "js_error_of (ThrownValue text) = JsOther text"

text \<open>A rejection passes two \<open>Effect.tryPromise\<close>, which wrap it.\<close>

definition evaluateNodeGates ::
  "'w gate_services \<Rightarrow> gate_context \<Rightarrow> 'w gate_failure_hook \<Rightarrow> gated_node \<Rightarrow> (string \<times> changed_snapshot) list \<Rightarrow>
   attempt_result \<Rightarrow> 'w gate_state \<Rightarrow> (js_error + gate_result list) \<times> 'w gate_state" where
  "evaluateNodeGates sv context hook node snapshots attempt s =
     (case evaluateNodeGatesWithExecutor sv node (context\<lparr>gc_snapshots := snapshots\<rparr>) attempt (Some hook) s of
        (Inl e, s') \<Rightarrow> (Inl (WrappedError (WrappedError (js_error_of e))), s')
      | (Inr results, s') \<Rightarrow> (Inr results, s'))"

subsection \<open>The protocol\<close>

text \<open>\<open>gate_spec_of m Q\<close>: \<open>m\<close> records no gate, and its value satisfies \<open>Q\<close>.\<close>

definition unrecorded :: "('w, 'x) gate_run \<Rightarrow> ('x \<Rightarrow> bool) \<Rightarrow> bool" where
  "unrecorded m Q \<longleftrightarrow> (\<forall>s r s'. m s = (r, s') \<longrightarrow> gt_gates s' = gt_gates s \<and> (\<forall>x. r = Inr x \<longrightarrow> Q x))"

named_theorems unrecorded_rules \<open>rules for computations that record no gate\<close>

lemma unrecorded_bind:
  assumes "unrecorded m R" "\<And>x. R x \<Longrightarrow> unrecorded (f x) Q"
  shows "unrecorded (may_bind m f) Q"
  using assms unfolding unrecorded_def may_bind_def by (fastforce split: prod.splits sum.splits)

lemma unrecorded_then [unrecorded_rules]:
  "unrecorded m (\<lambda>x. True) \<Longrightarrow> (\<And>x. unrecorded (f x) Q) \<Longrightarrow> unrecorded (may_bind m f) Q"
  by (rule unrecorded_bind) simp

lemma unrecorded_return [unrecorded_rules]: "Q x \<Longrightarrow> unrecorded (may_return x) Q"
  by (simp add: unrecorded_def may_return_def)

lemma unrecorded_catch [unrecorded_rules]:
  assumes "unrecorded m Q" "\<And>e. unrecorded (h e) Q"
  shows "unrecorded (may_catch m h) Q"
  using assms unfolding unrecorded_def may_catch_def by (fastforce split: prod.splits sum.splits)

lemma unrecorded_sum [unrecorded_rules]: "unrecorded (may_sum r) (\<lambda>x. True)"
  by (simp add: unrecorded_def may_sum_def)

lemma unrecorded_world [unrecorded_rules]: "unrecorded (may_world f) (\<lambda>x. True)"
  by (auto simp: unrecorded_def may_world_def split: prod.splits)

lemma unrecorded_total [unrecorded_rules]: "unrecorded (total_world f) (\<lambda>x. True)"
  unfolding total_world_def by (rule unrecorded_world)

lemma unrecorded_emit [unrecorded_rules]: "unrecorded (emit_gate e) (\<lambda>x. True)"
  by (auto simp: unrecorded_def emit_gate_def may_modify_def)

lemma unrecorded_if [unrecorded_rules]:
  "(b \<Longrightarrow> unrecorded m Q) \<Longrightarrow> (\<not> b \<Longrightarrow> unrecorded n Q) \<Longrightarrow> unrecorded (if b then m else n) Q"
  by simp

lemma unrecorded_option [unrecorded_rules]:
  "unrecorded m Q \<Longrightarrow> (\<And>x. unrecorded (f x) Q) \<Longrightarrow> unrecorded (case v of None \<Rightarrow> m | Some x \<Rightarrow> f x) Q"
  by (cases v) simp_all

lemma unrecorded_sum_case [unrecorded_rules]:
  "(\<And>e. unrecorded (g e) Q) \<Longrightarrow> (\<And>x. unrecorded (f x) Q) \<Longrightarrow> unrecorded (case v of Inl e \<Rightarrow> g e | Inr x \<Rightarrow> f x) Q"
  by (cases v) simp_all

lemma unrecorded_read [unrecorded_rules]: "unrecorded (readOptionalFile fs worktree path) (\<lambda>x. True)"
  unfolding readOptionalFile_def by (intro unrecorded_rules TrueI)

lemma unrecorded_compiled [unrecorded_rules]: "unrecorded (compiledJsonSchemaValidator lib path source) (\<lambda>x. True)"
  by (auto simp: unrecorded_def compiledJsonSchemaValidator_def split: option.splits sum.splits prod.splits if_splits)

lemma unrecorded_validate [unrecorded_rules]:
  "unrecorded (validateJsonSchemaSource lib fs source path worktree) (\<lambda>x. True)"
  unfolding validateJsonSchemaSource_def validateJsonSchemaValue_def readJsonSchemaSource_def Let_def case_prod_beta
  by (intro unrecorded_rules TrueI)

lemma unrecorded_parse [unrecorded_rules]: "unrecorded (parseGateJson sv src context attempt) (\<lambda>x. True)"
  unfolding parseGateJson_def gateJsonSource_def by (intro unrecorded_rules TrueI)

text \<open>A result is of a gate of a node when it carries its id, its kind and the node.\<close>

definition result_of_gate :: "gate_spec \<Rightarrow> gated_node \<Rightarrow> gate_result \<Rightarrow> bool" where
  "result_of_gate gate node r \<longleftrightarrow> gr_gateId r = gate_id gate node \<and> gr_kind r = gsp_kind gate \<and> gr_nodeId r = pn_id node"

definition blocking :: "gate_spec \<Rightarrow> gate_result \<Rightarrow> bool" where
  "blocking gate r \<longleftrightarrow> \<not> gr_passed r \<and> gsp_required gate \<noteq> Some False"

lemma basic_result_simps [simp]:
  "gr_gateId (basic_result gate gateId nodeId evidence passed reason) = gateId"
  "gr_kind (basic_result gate gateId nodeId evidence passed reason) = gsp_kind gate"
  "gr_nodeId (basic_result gate gateId nodeId evidence passed reason) = nodeId"
  "gr_passed (basic_result gate gateId nodeId evidence passed reason) = passed"
  by (simp_all add: basic_result_def)

lemma unrecorded_evaluate:
  "unrecorded (evaluateGate sv gate gateId nodeId context attempt node)
     (\<lambda>r. gr_gateId r = gateId \<and> gr_kind r = gsp_kind gate \<and> gr_nodeId r = nodeId)"
proof (cases "gsp_body gate")
  case (AcceptanceGate src key)
  then show ?thesis unfolding evaluateGate_def evaluateAcceptanceGate_def Let_def
    by (auto intro!: unrecorded_rules)
next
  case (JsonSchemaGate src path)
  then show ?thesis unfolding evaluateGate_def evaluateJsonSchemaGate_def Let_def
    by (auto intro!: unrecorded_rules split: json_target.split)
qed (auto simp: evaluateGate_def evaluateArtifactGate_def evaluateBuiltinGate_def evaluateCommandGate_def
      evaluateVerdictGate_def evaluateChangedFilesGate_def Let_def intro!: unrecorded_rules split: sum.split)

lemma unrecorded_observed:
  "unrecorded (runObservedGate sv gate (gate_id gate node) (pn_id node) context attempt) (result_of_gate gate node)"
proof -
  let ?resolve = "resolveGateResult sv gate (gate_id gate node) (pn_id node) context attempt"
  have resolved: "unrecorded ?resolve (result_of_gate gate node)"
    unfolding resolveGateResult_def result_of_gate_def
    by (rule unrecorded_catch [OF unrecorded_evaluate]) (auto simp: gate_error_result_def intro!: unrecorded_rules)
  have "unrecorded (may_bind ?resolve (\<lambda>result. may_bind (emitRuntimeGateResult result) (\<lambda>_. may_return result)))
      (result_of_gate gate node)"
    by (rule unrecorded_bind [OF resolved])
       (auto simp: emitRuntimeGateResult_def intro!: unrecorded_rules)
  then show ?thesis unfolding runObservedGate_def runGateEvaluation_def emitGateStart_def
    by (auto intro!: unrecorded_rules split: gate_body.split)
qed

lemma handleGateFailure_action:
  assumes "handleGateFailure gate node result hook s = (Inr action, s')"
  shows "gt_gates s' = gt_gates s \<and> (action = StopGates \<longleftrightarrow> blocking gate result)"
proof -
  have "unrecorded (handleGateFailure gate node result hook) (\<lambda>action. action = StopGates \<longleftrightarrow> blocking gate result)"
    unfolding handleGateFailure_def by (auto simp: blocking_def intro!: unrecorded_rules)
  with assms show ?thesis unfolding unrecorded_def by blast
qed

lemma recordGateResult_records:
  assumes "recordGateResult gate result results s = (r, s')"
  shows "r = Inr (results @ [result]) \<and> gt_gates s' = gt_gates s @ [result]"
  using assms
  by (auto simp: recordGateResult_def may_bind_def may_modify_def emitGateFinish_def emitArtifactGateFinish_def emit_gate_def
      may_return_def split: gate_body.splits)

definition cancelled_before :: "gate_spec \<Rightarrow> gated_node \<Rightarrow> 'w gate_state \<Rightarrow> bool" where
  "cancelled_before gate node s \<longleftrightarrow> gt_events s \<noteq> [] \<and>
     last (gt_events s) = GateObservedCancelled (gate_id gate node) (gsp_kind gate) (pn_id node) ''gate cancelled''"

lemma iteration_cases:
  assumes "evaluateNodeGateIteration sv gate node context attempt results hook s = (Inr (action, results'), s')"
  obtains (Cancelled) "action = StopGates" "results' = results" "gt_gates s' = gt_gates s" "cancelled_before gate node s'"
      "\<exists>w. fst (gv_aborted sv w)"
  | (Evaluated) r where "results' = results @ [r]" "gt_gates s' = gt_gates s @ [r]" "result_of_gate gate node r"
      "action = StopGates \<longleftrightarrow> blocking gate r"
proof -
  from assms obtain cancelled s1 where first: "total_world (gv_aborted sv) s = (Inr cancelled, s1)"
    and rest: "(if cancelled then
          may_bind (emit_gate (GateObservedCancelled (gate_id gate node) (gsp_kind gate) (pn_id node) ''gate cancelled''))
            (\<lambda>_. may_return (StopGates, results))
        else may_bind (runObservedGate sv gate (gate_id gate node) (pn_id node) context attempt) (\<lambda>result.
          may_bind (recordGateResult gate result results) (\<lambda>results'.
          may_bind (handleGateFailure gate node result hook) (\<lambda>action. may_return (action, results'))))) s1
        = (Inr (action, results'), s')"
    unfolding evaluateNodeGateIteration_def Let_def may_bind_Inr by blast
  have kept: "gt_gates s1 = gt_gates s" using unrecorded_total first unfolding unrecorded_def by blast
  show ?thesis
  proof (cases cancelled)
    case True
    have "\<exists>w. fst (gv_aborted sv w)" using first True
      by (auto simp: total_world_def may_world_def split: prod.splits intro!: exI [of _ "vs_world s"])
    then show ?thesis using Cancelled rest kept True
      by (auto simp: may_bind_def emit_gate_def may_modify_def may_return_def cancelled_before_def)
  next
    case False
    with rest obtain r s2 s3 where observed: "runObservedGate sv gate (gate_id gate node) (pn_id node) context attempt s1 = (Inr r, s2)"
      and recorded: "recordGateResult gate r results s2 = (Inr results', s3)"
      and handled: "handleGateFailure gate node r hook s3 = (Inr action, s')"
      unfolding may_bind_Inr by (auto simp: may_bind_Inr may_return_def)
    have "gt_gates s2 = gt_gates s1" "result_of_gate gate node r"
      using unrecorded_observed observed unfolding unrecorded_def by blast+
    with kept recordGateResult_records [OF recorded] handleGateFailure_action [OF handled] show ?thesis
      by (intro Evaluated) auto
  qed
qed

text \<open>What the results of the first gates say of the rest.\<close>

definition gates_outcome ::
  "gate_spec list \<Rightarrow> gated_node \<Rightarrow> gate_result list \<Rightarrow> 'w gate_services \<Rightarrow> 'w gate_state \<Rightarrow> bool" where
  "gates_outcome gates node results sv s \<longleftrightarrow>
     (\<exists>evaluated rest. gates = evaluated @ rest \<and> list_all2 (\<lambda>gate r. result_of_gate gate node r) evaluated results \<and>
        (\<forall>i < length results. blocking (evaluated ! i) (results ! i) \<longrightarrow> Suc i = length results) \<and>
        (rest \<noteq> [] \<longrightarrow> results \<noteq> [] \<and> blocking (last evaluated) (last results) \<or>
           cancelled_before (hd rest) node s \<and> (\<exists>w. fst (gv_aborted sv w))))"

lemma gates_loop_outcome:
  assumes "gates_loop sv gates node context attempt results hook s = (Inr out, s')"
  shows "\<exists>new. out = results @ new \<and> gt_gates s' = gt_gates s @ new \<and> gates_outcome gates node new sv s'"
  using assms
proof (induction gates arbitrary: results s)
  case Nil
  then show ?case by (auto simp: may_return_def gates_outcome_def)
next
  case (Cons gate gates)
  from Cons.prems obtain action results' s1
    where step: "evaluateNodeGateIteration sv gate node context attempt results hook s = (Inr (action, results'), s1)"
      and rest: "(if action = StopGates then may_return results'
         else gates_loop sv gates node context attempt results' hook) s1 = (Inr out, s')"
    by (auto simp: may_bind_Inr)
  from step show ?case
  proof (cases rule: iteration_cases)
    case Cancelled
    then show ?thesis using rest
      by (auto simp: may_return_def gates_outcome_def intro!: exI [of _ "[]"])
  next
    case (Evaluated r)
    show ?thesis
    proof (cases "action = StopGates")
      case True
      have "gates_outcome (gate # gates) node [r] sv s1"
        unfolding gates_outcome_def using Evaluated True
        by (intro exI [of _ "[gate]"] exI [of _ gates]) simp
      then show ?thesis using rest Evaluated True by (auto simp: may_return_def)
    next
      case False
      then have "gates_loop sv gates node context attempt results' hook s1 = (Inr out, s')" using rest by simp
      from Cons.IH [OF this] obtain new where new: "out = results' @ new" "gt_gates s' = gt_gates s1 @ new"
        and outcome: "gates_outcome gates node new sv s'" by blast
      from outcome obtain evaluated more where parts: "gates = evaluated @ more"
        "list_all2 (\<lambda>gate r. result_of_gate gate node r) evaluated new"
        "\<forall>i < length new. blocking (evaluated ! i) (new ! i) \<longrightarrow> Suc i = length new"
        "more \<noteq> [] \<longrightarrow> new \<noteq> [] \<and> blocking (last evaluated) (last new) \<or>
           cancelled_before (hd more) node s' \<and> (\<exists>w. fst (gv_aborted sv w))"
        unfolding gates_outcome_def by blast
      have "\<not> blocking gate r" using Evaluated False by simp
      with parts have "gates_outcome (gate # gates) node (r # new) sv s'"
        unfolding gates_outcome_def using Evaluated(3) list_all2_lengthD [OF parts(2)]
        by (intro exI [of _ "gate # evaluated"] exI [of _ more]) (auto simp: nth_Cons split: nat.split)
      then show ?thesis using new Evaluated by auto
    qed
  qed
qed

lemma node_gates_outcome:
  assumes "evaluateNodeGatesWithExecutor sv node context attempt hook s = (Inr results, s')"
  shows "gt_gates s' = gt_gates s @ results \<and> gates_outcome (nodeGateSpecs node context) node results sv s'"
  using gates_loop_outcome [OF assms [unfolded evaluateNodeGatesWithExecutor_def]] by simp


lemma outcome_all_passed:
  assumes "gates_outcome gates node results sv s" "\<forall>r \<in> set results. gr_passed r" "\<forall>w. \<not> fst (gv_aborted sv w)"
  shows "list_all2 (\<lambda>gate r. result_of_gate gate node r) gates results"
proof -
  from assms(1) obtain evaluated rest where "gates = evaluated @ rest"
    "list_all2 (\<lambda>gate r. result_of_gate gate node r) evaluated results"
    "rest \<noteq> [] \<longrightarrow> results \<noteq> [] \<and> blocking (last evaluated) (last results)"
    unfolding gates_outcome_def using assms(3) by blast
  moreover have "\<not> blocking (last evaluated) (last results)" if "results \<noteq> []"
    using assms(2) that by (simp add: blocking_def)
  ultimately show ?thesis by (cases rest) auto
qed

lemma bind_run_Ok:
  "bind_run m f s = (Ok y, s2) \<longleftrightarrow> (\<exists>x s1. m s = (Ok x, s1) \<and> f x s1 = (Ok y, s2))"
  by (auto simp: bind_run_def split: prod.splits outcome.splits)

lemma try_run_Ok:
  "try_run f s = (Ok x, s') \<longleftrightarrow> (\<exists>w. f (rs_world s) = (Inr x, w) \<and> s' = s\<lparr>rs_world := w\<rparr>)"
  by (auto simp: try_run_def bind_run_Ok world_run_def fail_run_def return_run_def split: prod.splits sum.splits)

text \<open>
  An attempt whose gates are evaluated by the gates of the node is passed only when every gate of the
  node was evaluated on the output of the attempt and passed, the artifacts the node declares and the
  schema of its profile included, in a run that is not aborted.
\<close>

theorem attempt_passes_only_gated:
  assumes "en_gates env = evaluateNodeGates sv context hook" "\<forall>w. \<not> fst (gv_aborted sv w)"
    and "finishNodeAttemptAfterGates env node k lastR s = (Ok cycle, s')" "cy_result cycle = Some r"
    and "\<forall>w. \<not> fst (en_aborted env w)"
  shows "\<exists>snapshots results s1 s2.
     evaluateNodeGates sv context hook node snapshots lastR s1 = (Inr results, s2) \<and>
     list_all2 (\<lambda>gate result. result_of_gate gate node result \<and> gr_passed result)
       (nodeGateSpecs node (context\<lparr>gc_snapshots := snapshots\<rparr>)) results"
proof -
  have no_cancel: "cancelled = None" if "cancelledNodeResult env (pn_id node) k lastR t = (Ok cancelled, t')" for cancelled t t'
  proof -
    obtain w where "en_aborted env (rs_world t) = (False, w)" using assms(5) by (metis prod.collapse)
    with that show ?thesis by (auto simp: cancelledNodeResult_def isCancelled_def bind_run_Ok world_run_def return_run_def)
  qed
  have not_infra: "ar_exitCode lastR \<noteq> EXIT_INFRA"
    using assms(3,4) by (auto simp: finishNodeAttemptAfterGates_def finishNodeAttemptWithGate_def EXIT_INFRA_def return_run_def retryCycle_def)
  from assms(3) not_infra obtain results t1 t2 where gates: "evaluateGatesForAttempt env node lastR s = (Ok results, t1)"
    and finish: "finishNodeAttemptWithGate env node k lastR (List.find (\<lambda>gate. \<not> gr_passed gate) results) t2 = (Ok cycle, s')"
    by (auto simp: finishNodeAttemptAfterGates_def bind_run_Ok dest: no_cancel)
  have none: "List.find (\<lambda>gate. \<not> gr_passed gate) results = None"
    using finish assms(4) by (auto simp: finishNodeAttemptWithGate_def return_run_def retryCycle_def split: if_splits)
  then have passed: "\<forall>r \<in> set results. gr_passed r" by (rule no_failed_gate)
  from gates obtain snapshots s1 s2 where ran: "evaluateNodeGates sv context hook node snapshots lastR s1 = (Inr results, s2)"
    unfolding evaluateGatesForAttempt_def assms(1)
    by (auto simp: bind_run_Ok try_run_Ok gets_run_def return_run_def)
  then have "gates_outcome (nodeGateSpecs node (context\<lparr>gc_snapshots := snapshots\<rparr>)) node results sv s2"
    by (auto simp: evaluateNodeGates_def split: prod.splits sum.splits dest: node_gates_outcome)
  from outcome_all_passed [OF this passed assms(2)] passed ran show ?thesis
    by (auto simp: list_all2_conv_all_nth intro!: exI)
qed

subsection \<open>Options without effect\<close>

lemma policy_without_untracked:
  assumes "\<forall>file \<in> set changed. \<not> starts_with file ''?? ''"
  shows "included_files globMatch (policy\<lparr>cp_include_untracked := Some False\<rparr>) changed =
    included_files globMatch (policy\<lparr>cp_include_untracked := None\<rparr>) changed"
  using assms by (simp add: included_files_def filter_id_conv)

text \<open>
  Asking a gate of changed files to leave out untracked files changes nothing: the paths of the snapshot
  no longer carry the status they are recognised by, so untracked files are checked as all others are.
\<close>

theorem untracked_files_still_gated:
  assumes "\<forall>e \<in> set es. entry_ok e" "\<forall>e \<in> set es. \<not> starts_with (pe_path e) ''?? ''"
    and "map_of (gc_snapshots context) nodeId = Some (snapshotChangedFiles fp (Some (porcelain es)))"
  shows "evaluateChangedFilesGate sv gate (policy\<lparr>cp_include_untracked := Some False\<rparr>) gateId nodeId context =
    evaluateChangedFilesGate sv gate (policy\<lparr>cp_include_untracked := None\<rparr>) gateId nodeId context"
proof -
  have "set (visible source es) \<subseteq> pe_path ` set es" for source by (induction es arbitrary: source) auto
  then have "\<forall>file \<in> set (cs_files (snapshotChangedFiles fp (Some (porcelain es)))). \<not> starts_with file ''?? ''"
    using assms(2) by (auto simp: snapshotChangedFiles_def changedFilesSnapshot_def parse_porcelain [OF assms(1)])
  from policy_without_untracked [OF this] assms(3) show ?thesis
    by (simp add: evaluateChangedFilesGate_def policy_evidence_def)
qed

subsection \<open>Examples\<close>

text \<open>A node with an optional gate that runs a builtin.\<close>

definition acceptance_report :: json where
  "acceptance_report = JObj [(''acceptance'', JArr [JObj [(''id'', JStr ''a''), (''verdict'', JStr ''PASS''),
     (''evidence'', JArr [JStr ''seen''])]])]"

definition gate_attempt :: "int \<Rightarrow> attempt_result" where
  "gate_attempt code = \<lparr>ar_evidence = [], ar_exitCode = code, ar_handoff = None, ar_output = ''{}'', ar_timedOut = None\<rparr>"

definition sample_services :: "int \<Rightarrow> unit gate_services" where
  "sample_services lint =
     \<lparr>gv_library = \<lparr>jl_parse = (\<lambda>text. Inr acceptance_report), jl_compile = (\<lambda>schema. Inr (\<lambda>v. (True, None))),
        jl_standardSchema = (\<lambda>path. None)\<rparr>,
      gv_files = \<lparr>fs_exists = (\<lambda>root path w. (Inr False, w)), fs_readText = (\<lambda>root path w. (Inr [], w))\<rparr>,
      gv_artifactExists = (\<lambda>root path w. (False, w)), gv_execute = (\<lambda>c t w. (Inr (gate_attempt 0), w)),
      gv_builtin = (\<lambda>b w. (Inr (gate_attempt lint), w)), gv_globMatch = (=), gv_aborted = (\<lambda>w. (False, w))\<rparr>"

definition acceptance_gate :: gate_spec where
  "acceptance_gate = \<lparr>gsp_id = None, gsp_required = Some False, gsp_body = AcceptanceGate \<lparr>js_path = None, js_target = None\<rparr> None\<rparr>"

definition lint_gate :: gate_spec where
  "lint_gate = \<lparr>gsp_id = Some ''l'', gsp_required = Some False, gsp_body = BuiltinGate ''lint''\<rparr>"

definition gated :: gated_node where
  "gated = toPlannedNode (WorkflowNode ''n'' (CommandBody [''x'']) (Some []) None (Some [lint_gate]) None None None None None) 0"

definition gated_graph :: "gated_node dep_graph" where
  "gated_graph = \<lparr>dg_nodes = [(''n'', gated)], dg_predecessors = [], dg_successors = [], dg_sinks = [''n'']\<rparr>"

definition gated_task :: task_context where
  "gated_task = \<lparr>tc_acceptanceCriteria = Some [(''a'', ''works'')], tc_description = None, tc_id = None, tc_title = None\<rparr>"

definition gated_context :: gate_context where
  "gated_context = \<lparr>gc_graph = gated_graph, gc_outputs = [], gc_snapshots = [], gc_taskContext = Some gated_task,
     gc_worktreePath = ''w''\<rparr>"

definition gated_env :: "int \<Rightarrow> (artifact_spec list, gate_spec list, unit gate_state) node_env" where
  "gated_env lint = \<lparr>en_now = Pair ''t'', en_aborted = Pair False, en_hook = (\<lambda>e f n. Pair (Inr None)),
     en_attempt = (\<lambda>n t a. Pair (Inr (gate_attempt 0))),
     en_gates = evaluateNodeGates (sample_services lint) gated_context (\<lambda>n r w. (Inr (), w)),
     en_snapshot = Pair \<lparr>cs_files = [], cs_fingerprints = []\<rparr>, en_fingerprint = (\<lambda>f w. []),
     en_retryDelay = (\<lambda>d w. w)\<rparr>"

definition gated_run :: "(artifact_spec list, gate_spec list) run_context" where
  "gated_run = \<lparr>cx_graph = gated_graph, cx_topologicalOrder = [gated], cx_profiles = []\<rparr>"

definition gated_state :: "(unit gate_state, unit) run_state" where
  "gated_state = \<lparr>rs_world = \<lparr>vs_cache = [], vs_world = (), gt_gates = [], gt_events = []\<rparr>,
     rs_store = set_state ''n'' ((initialNodeExecutionState ''n'')\<lparr>ns_status := RUNNING_ST\<rparr>) (initialNodeStateStore [gated]),
     rs_task = [], rs_events = []\<rparr>"

definition gated_outcome :: "int \<Rightarrow> (string option \<times> result_status option \<times> bool list) option" where
  "gated_outcome lint =
     (case finishNodeAttemptAfterGates (gated_env lint) gated 1 (gate_attempt 0) gated_state of
        (Ok cycle, s') \<Rightarrow> Some (map_option at_gate (cy_retry cycle), map_option nr_status (cy_result cycle),
                            map gr_passed (gt_gates (rs_world s')))
      | _ \<Rightarrow> None)"

text \<open>
  A failed gate that is declared as not required fails the attempt: an attempt with exit code 0, of a
  node whose only gate is optional, asks for a retry because of that gate when it does not pass, and the
  same attempt passes when it passes.
\<close>

theorem optional_gate_fails_attempt:
  "map gsp_required (nodeGateSpecs gated gated_context) = [Some False] \<and>
   gated_outcome 1 = Some (Some ''l'', None, [False]) \<and>
   gated_outcome 0 = Some (None, Some ResultPassed, [True])"
proof (intro conjI)
  show "map gsp_required (nodeGateSpecs gated gated_context) = [Some False]"
    by (simp add: nodeGateSpecs_def gated_def artifactGateSpecs_def schemaGateSpecs_def truthy_def lint_gate_def)
  show "gated_outcome 1 = Some (Some ''l'', None, [False])" by code_simp
  show "gated_outcome 0 = Some (None, Some ResultPassed, [True])" by code_simp
qed

text \<open>The other properties at that node.\<close>

lemma acceptance_gate_exact_witness:
  "\<exists>r s'. evaluateAcceptanceGate (sample_services 0) acceptance_gate \<lparr>js_path = None, js_target = None\<rparr> None ''g'' ''n'' gated_context
       (gate_attempt 0) (Some gated) (rs_world gated_state) = (Inr r, s') \<and> gr_passed r"
proof -
  let ?s = "rs_world gated_state :: unit gate_state"
  have parsed: "parseGateJson (sample_services 0) \<lparr>js_path = None, js_target = None\<rparr> gated_context (gate_attempt 0) ?s =
      (Inr (Inr acceptance_report), ?s)"
    by (simp add: parseGateJson_def gateJsonSource_def sample_services_def may_bind_def may_return_def parseJsonResult_def parseJson_def)
  have task: "effectiveTaskContext gated gated_context = Some gated_task"
    by (simp add: effectiveTaskContext_def gated_def gated_context_def plannedTaskContext_def)
  obtain r s' where run: "evaluateAcceptanceGate (sample_services 0) acceptance_gate \<lparr>js_path = None, js_target = None\<rparr> None ''g'' ''n''
      gated_context (gate_attempt 0) (Some gated) ?s = (r, s')" by fastforce
  have covers: "covers_exactly (fst ` set [(''a'', ''works'')]) (acceptanceEntries acceptance_report None)" by code_simp
  from acceptance_gate_exact [OF task _ _ parsed run] covers run show ?thesis by (auto simp: gated_task_def)
qed


lemma attempt_passes_only_gated_witness:
  "\<exists>snapshots results s1 s2. evaluateNodeGates (sample_services 0) gated_context (\<lambda>n r w. (Inr (), w)) gated snapshots
     (gate_attempt 0) s1 = (Inr results, s2) \<and> list_all2 (\<lambda>gate result. result_of_gate gate gated result \<and> gr_passed result)
       (nodeGateSpecs gated (gated_context\<lparr>gc_snapshots := snapshots\<rparr>)) results"
proof -
  have "gated_outcome 0 = Some (None, Some ResultPassed, [True])" by code_simp
  then obtain cycle s' r where "finishNodeAttemptAfterGates (gated_env 0) gated 1 (gate_attempt 0) gated_state = (Ok cycle, s')"
    "cy_result cycle = Some r"
    unfolding gated_outcome_def by (auto split: prod.splits outcome.splits)
  then show ?thesis
    by (rule attempt_passes_only_gated [rotated 2]) (simp_all add: gated_env_def sample_services_def)
qed

lemma untracked_files_still_gated_witness:
  "\<not> gr_passed (evaluateChangedFilesGate (sample_services 0) lint_gate
     (\<lparr>cp_allow = Some [''src''], cp_deny = None, cp_include_untracked = None, cp_require_any = None\<rparr>\<lparr>cp_include_untracked := Some False\<rparr>)
     ''g'' ''n'' (gated_context\<lparr>gc_snapshots := [(''n'', snapshotChangedFiles (\<lambda>f. []) (Some (porcelain
        [\<lparr>pe_status = ''??'', pe_path = ''a'', pe_source = None\<rparr>])))]\<rparr>))"
proof -
  let ?es = "[\<lparr>pe_status = ''??'', pe_path = ''a'', pe_source = None\<rparr>]"
  let ?gx = "gated_context\<lparr>gc_snapshots := [(''n'', snapshotChangedFiles (\<lambda>f. []) (Some (porcelain ?es)))]\<rparr>"
  have ok: "\<forall>e \<in> set ?es. entry_ok e" "\<forall>e \<in> set ?es. \<not> starts_with (pe_path e) ''?? ''"
    by (simp_all add: entry_ok_def renames_def isRenameOrCopyStatus_def starts_with_def nul_def)
  show ?thesis
    unfolding untracked_files_still_gated [OF ok, of ?gx "''n''" "\<lambda>f. []", simplified]
    by code_simp
qed

end
