(* ===== verification/TicketStore.thy ===== *)
theory TicketStore
  imports Tickets JsonValidation
begin

text \<open>
  The tickets read from the backlog files (\<^verbatim>\<open>src/tickets/backlog-task-store.ts\<close>): the marked blocks of a file,
  the acceptance criteria of its check list, the record of a task and the store with its index. The YAML
  parser and the schema of the front matter are the parameter \<open>decode\<close>; the file system is the caller's.
\<close>

subsection \<open>Marked blocks\<close>

text \<open>\<open>indexOf\<close>: what is before the first occurrence, and what is after it.\<close>

fun split_at_first :: "string \<Rightarrow> string \<Rightarrow> string \<Rightarrow> (string \<times> string) option" where
  "split_at_first marker before [] = (if marker = [] then Some (before, []) else None)"
| "split_at_first marker before (c # cs) =
     (if take (length marker) (c # cs) = marker then Some (before, drop (length marker) (c # cs))
      else split_at_first marker (before @ [c]) cs)"

record block_markers =
  bm_end :: string
  bm_start :: string

definition DESCRIPTION_MARKERS :: block_markers where
  "DESCRIPTION_MARKERS = \<lparr>bm_end = ''<!-- SECTION:DESCRIPTION:END -->'', bm_start = ''<!-- SECTION:DESCRIPTION:BEGIN -->''\<rparr>"

definition ACCEPTANCE_MARKERS :: block_markers where
  "ACCEPTANCE_MARKERS = \<lparr>bm_end = ''<!-- AC:END -->'', bm_start = ''<!-- AC:BEGIN -->''\<rparr>"

definition extractMarkedBlock :: "string \<Rightarrow> block_markers \<Rightarrow> string" where
  "extractMarkedBlock content markers =
     (case split_at_first (bm_start markers) [] content of
        None \<Rightarrow> []
      | Some (_, rest) \<Rightarrow> (case split_at_first (bm_end markers) [] rest of
          None \<Rightarrow> [] | Some (body, _) \<Rightarrow> js_trim body))"

definition extractDescription :: "string \<Rightarrow> string" where
  "extractDescription content = extractMarkedBlock content DESCRIPTION_MARKERS"

subsection \<open>Acceptance criteria\<close>

text \<open>
  The regular expression \<open>^\s*-\s*\[[ xX]\]\s*(?:#?[\w.-]+\s+)?(.+)$\<close> and its group: the optional label is
  taken whenever a word and white space are there and a character is left for the group, the last space if
  nothing else is. The group holds no line break.
\<close>

definition is_word :: "char \<Rightarrow> bool" where
  "is_word c \<longleftrightarrow> (let n = (of_char c :: nat) in (48 \<le> n \<and> n \<le> 57) \<or> (65 \<le> n \<and> n \<le> 90) \<or> (97 \<le> n \<and> n \<le> 122) \<or> n = 95)"

definition is_label :: "char \<Rightarrow> bool" where
  "is_label c \<longleftrightarrow> is_word c \<or> c = CHR ''.'' \<or> c = CHR ''-''"

definition line_group :: "string \<Rightarrow> string option" where
  "line_group text = (if text \<noteq> [] \<and> CHR 0x0D \<notin> set text \<and> newline \<notin> set text then Some text else None)"

definition labelled_text :: "string \<Rightarrow> string option" where
  "labelled_text text =
     (let body = (case text of [] \<Rightarrow> [] | c # cs \<Rightarrow> if c = CHR ''#'' then cs else text);
          rest = dropWhile is_label body; spaces = takeWhile is_space rest; words = dropWhile is_space rest
      in if takeWhile is_label body = [] \<or> spaces = [] then line_group text
         else if words \<noteq> [] then line_group words
         else if 2 \<le> length spaces then line_group [last spaces]
         else line_group text)"

definition ACCEPTANCE_ITEM_RE :: "string \<Rightarrow> string option" where
  "ACCEPTANCE_ITEM_RE line =
     (case dropWhile is_space line of
        [] \<Rightarrow> None
      | dash # rest \<Rightarrow>
          (if dash \<noteq> CHR ''-'' then None
           else case dropWhile is_space rest of
             a # b # c # after \<Rightarrow>
               (if a = CHR ''['' \<and> b \<in> {CHR '' '', CHR ''x'', CHR ''X''} \<and> c = CHR '']''
                then labelled_text (dropWhile is_space after) else None)
           | _ \<Rightarrow> None))"

definition extractAcceptanceCriteria :: "string \<Rightarrow> string list" where
  "extractAcceptanceCriteria content =
     filter (\<lambda>criterion. criterion \<noteq> [])
       (map js_trim (List.map_filter ACCEPTANCE_ITEM_RE (split_lines [] (extractMarkedBlock content ACCEPTANCE_MARKERS))))"

subsection \<open>Records and the store\<close>

record task_frontmatter =
  tf_dependencies :: "string list"
  tf_id :: string
  tf_modified_files :: "string list"
  tf_ordinal :: "rat option"
  tf_parent_task_id :: "string option"
  tf_priority :: "ticket_priority option"
  tf_references :: "string list"
  tf_status :: ticket_status
  tf_title :: string

definition taskRecordFromDocument :: "task_frontmatter \<Rightarrow> string \<Rightarrow> string \<Rightarrow> ticket" where
  "taskRecordFromDocument frontmatter content filePath =
     \<lparr>tk_acceptanceCriteria = extractAcceptanceCriteria content, tk_dependencies = tf_dependencies frontmatter,
      tk_description = Some (extractDescription content), tk_filePath = filePath, tk_id = tf_id frontmatter,
      tk_modifiedFiles = tf_modified_files frontmatter, tk_ordinal = tf_ordinal frontmatter,
      tk_parentTaskId = tf_parent_task_id frontmatter, tk_priority = tf_priority frontmatter,
      tk_references = tf_references frontmatter, tk_status = tf_status frontmatter, tk_title = tf_title frontmatter\<rparr>"

record store_error =
  se_storeMessage :: string
  se_storePath :: string

definition storeError :: "string \<Rightarrow> string \<Rightarrow> store_error" where
  "storeError path message = \<lparr>se_storeMessage = message, se_storePath = path\<rparr>"

text \<open>\<open>matter\<close> gives the front matter and the content; \<open>decode\<close> checks the front matter.\<close>

record ('f) task_format =
  tm_matter :: "string \<Rightarrow> string + 'f \<times> string"
  tm_decode :: "'f \<Rightarrow> string + task_frontmatter"

definition decodeFrontmatter :: "'f task_format \<Rightarrow> 'f \<Rightarrow> string \<Rightarrow> store_error + task_frontmatter" where
  "decodeFrontmatter format frontmatter filePath = (case tm_decode format frontmatter of
     Inr decoded \<Rightarrow> Inr decoded
   | Inl issues \<Rightarrow> Inl (storeError filePath (''Invalid Backlog task frontmatter in '' @ filePath @ '': '' @ issues)))"

definition parseBacklogTaskMarkdown :: "'f task_format \<Rightarrow> string \<Rightarrow> string \<Rightarrow> store_error + ticket" where
  "parseBacklogTaskMarkdown format source filePath = (case tm_matter format source of
     Inl message \<Rightarrow> Inl (storeError filePath (''Could not parse Backlog task frontmatter: '' @ message))
   | Inr (frontmatter, content) \<Rightarrow> (case decodeFrontmatter format frontmatter filePath of
       Inl e \<Rightarrow> Inl e | Inr decoded \<Rightarrow> Inr (taskRecordFromDocument decoded content filePath)))"

fun index_tasks :: "ticket list \<Rightarrow> (string \<times> ticket) list \<Rightarrow> store_error + (string \<times> ticket) list" where
  "index_tasks [] tasksById = Inr tasksById"
| "index_tasks (task # tasks) tasksById = (case map_of tasksById (tk_id task) of
     Some existing \<Rightarrow> Inl (storeError (tk_filePath task)
       (''Duplicate Backlog task id '' @ tk_id task @ '': '' @ tk_filePath existing @ '' and '' @ tk_filePath task))
   | None \<Rightarrow> index_tasks tasks (AList.update (tk_id task) task tasksById))"

record backlog_task_store =
  bs_childrenByParentId :: child_index
  bs_tasks :: "ticket list"
  bs_tasksById :: "(string \<times> ticket) list"

definition buildBacklogTaskStore :: "(string \<Rightarrow> 'k::linorder) \<Rightarrow> ticket list \<Rightarrow> store_error + backlog_task_store" where
  "buildBacklogTaskStore collate tasks = (case index_tasks tasks [] of
     Inl e \<Rightarrow> Inl e
   | Inr tasksById \<Rightarrow> Inr \<lparr>bs_childrenByParentId = indexChildrenByParentId collate tasks, bs_tasks = tasks,
       bs_tasksById = tasksById\<rparr>)"

fun collect_sums :: "('e + 'x) list \<Rightarrow> 'e + 'x list" where
  "collect_sums [] = Inr []"
| "collect_sums (r # rs) = (case r of Inl e \<Rightarrow> Inl e | Inr x \<Rightarrow> (case collect_sums rs of Inl e \<Rightarrow> Inl e | Inr xs \<Rightarrow> Inr (x # xs)))"

text \<open>The Markdown files of the task directory, by path, each read or failed.\<close>

definition readBacklogTasks :: "'f task_format \<Rightarrow> (string \<times> (string + string)) list \<Rightarrow> store_error + ticket list" where
  "readBacklogTasks format entries =
     collect_sums (map (\<lambda>(filePath, text). case text of
         Inl message \<Rightarrow> Inl (storeError filePath (''Could not read Backlog task data: '' @ message))
       | Inr source \<Rightarrow> parseBacklogTaskMarkdown format source filePath) entries)"

definition loadBacklogTaskStore ::
  "(string \<Rightarrow> 'k::linorder) \<Rightarrow> 'f task_format \<Rightarrow> (string \<times> (string + string)) list \<Rightarrow> store_error + backlog_task_store" where
  "loadBacklogTaskStore collate format entries = (case readBacklogTasks format entries of
     Inl e \<Rightarrow> Inl e | Inr tasks \<Rightarrow> buildBacklogTaskStore collate tasks)"

subsection \<open>The store has each id once\<close>

lemma index_tasks_Inr:
  "index_tasks tasks index = Inr tasksById \<longleftrightarrow>
     distinct (map tk_id tasks) \<and> fst ` set index \<inter> tk_id ` set tasks = {} \<and>
     tasksById = index @ map (\<lambda>task. (tk_id task, task)) tasks"
proof (induction tasks arbitrary: index)
  case (Cons task tasks)
  show ?case
  proof (cases "map_of index (tk_id task)")
    case None
    then have new: "tk_id task \<notin> fst ` set index" by (simp add: map_of_eq_None_iff)
    show ?thesis using Cons [of "AList.update (tk_id task) task index"] None new
      by (auto simp: update_new_key)
  next
    case (Some existing)
    then have "tk_id task \<in> fst ` set index" by (force dest: map_of_SomeD)
    with Some show ?thesis by auto
  qed
qed auto

text \<open>
  Loading the backlog gives a store exactly when every file is read and parsed and no id is used twice;
  the store then has the tasks in the order of the files, and finds by an id the task that has it.
\<close>

theorem backlog_store_faithful:
  "((\<exists>store. loadBacklogTaskStore collate format entries = Inr store) \<longleftrightarrow>
      (\<exists>tasks. readBacklogTasks format entries = Inr tasks \<and> distinct (map tk_id tasks)))
   \<and> (\<forall>store. loadBacklogTaskStore collate format entries = Inr store \<longrightarrow>
        readBacklogTasks format entries = Inr (bs_tasks store) \<and>
        (\<forall>i task. map_of (bs_tasksById store) i = Some task \<longleftrightarrow> task \<in> set (bs_tasks store) \<and> tk_id task = i))"
proof -
  have built: "(\<exists>store. buildBacklogTaskStore collate tasks = Inr store) \<longleftrightarrow> distinct (map tk_id tasks)" for tasks
  proof (cases "index_tasks tasks []")
    case (Inl e)
    then have "\<not> distinct (map tk_id tasks)" using index_tasks_Inr [of tasks "[]"] by fastforce
    with Inl show ?thesis by (simp add: buildBacklogTaskStore_def)
  next
    case (Inr index)
    moreover have "distinct (map tk_id tasks)" using Inr index_tasks_Inr [of tasks "[]" index] by simp
    ultimately show ?thesis by (simp add: buildBacklogTaskStore_def)
  qed
  have first: "(\<exists>store. loadBacklogTaskStore collate format entries = Inr store) \<longleftrightarrow>
      (\<exists>tasks. readBacklogTasks format entries = Inr tasks \<and> distinct (map tk_id tasks))"
    using built by (auto simp: loadBacklogTaskStore_def split: sum.splits)
  have found: "map_of (map (\<lambda>task. (tk_id task, task)) tasks) i = Some task \<longleftrightarrow> task \<in> set tasks \<and> tk_id task = i"
    if "distinct (map tk_id tasks)" for tasks i task
    using that by (subst map_of_eq_Some_iff) (auto simp: comp_def)
  have "readBacklogTasks format entries = Inr (bs_tasks store) \<and>
      (\<forall>i task. map_of (bs_tasksById store) i = Some task \<longleftrightarrow> task \<in> set (bs_tasks store) \<and> tk_id task = i)"
    if "loadBacklogTaskStore collate format entries = Inr store" for store
  proof -
    from that obtain tasks where tasks: "readBacklogTasks format entries = Inr tasks" "distinct (map tk_id tasks)"
      "bs_tasks store = tasks" "bs_tasksById store = map (\<lambda>task. (tk_id task, task)) tasks"
      by (auto simp: loadBacklogTaskStore_def buildBacklogTaskStore_def index_tasks_Inr split: sum.splits)
    then show ?thesis using found [OF tasks(2)] by simp
  qed
  with first show ?thesis by blast
qed

definition sample_format :: "string task_format" where
  "sample_format = \<lparr>tm_matter = (\<lambda>source. Inr (source, [])), tm_decode = (\<lambda>i. Inr \<lparr>tf_dependencies = [], tf_id = i,
     tf_modified_files = [], tf_ordinal = None, tf_parent_task_id = None, tf_priority = None, tf_references = [],
     tf_status = TicketToDo, tf_title = i\<rparr>)\<rparr>"

lemma backlog_store_faithful_witness:
  "\<exists>store. loadBacklogTaskStore length sample_format [(''p'', Inr ''A''), (''q'', Inr ''B'')] = Inr store \<and>
     map_of (bs_tasksById store) ''B'' \<noteq> None"
proof -
  have read: "\<exists>tasks. readBacklogTasks sample_format [(''p'', Inr ''A''), (''q'', Inr ''B'')] = Inr tasks \<and>
      map tk_id tasks = [''A'', ''B'']"
    by (simp add: readBacklogTasks_def parseBacklogTaskMarkdown_def decodeFrontmatter_def taskRecordFromDocument_def sample_format_def)
  note faithful = backlog_store_faithful [of length sample_format "[(''p'', Inr ''A''), (''q'', Inr ''B'')]"]
  from read faithful [THEN conjunct1] obtain store
    where store: "loadBacklogTaskStore length sample_format [(''p'', Inr ''A''), (''q'', Inr ''B'')] = Inr store" by fastforce
  with faithful [THEN conjunct2] have tasks: "readBacklogTasks sample_format [(''p'', Inr ''A''), (''q'', Inr ''B'')] = Inr (bs_tasks store)"
    and found: "\<forall>i task. map_of (bs_tasksById store) i = Some task \<longleftrightarrow> task \<in> set (bs_tasks store) \<and> tk_id task = i" by blast+
  from tasks read have "map tk_id (bs_tasks store) = [''A'', ''B'']" by auto
  then have "''B'' \<in> set (map tk_id (bs_tasks store))" by simp
  then obtain task where "task \<in> set (bs_tasks store)" "tk_id task = ''B''" by auto
  with found store show ?thesis by blast
qed

subsection \<open>The label of a criterion\<close>

lemma takeWhile_all: "\<forall>c \<in> set w. P c \<Longrightarrow> \<not> P s \<Longrightarrow> takeWhile P (w @ s # t) = w \<and> dropWhile P (w @ s # t) = s # t"
  by (induction w) auto

lemma labels_not_spaces: "is_label c \<Longrightarrow> \<not> is_space c"
  by (auto simp: is_label_def is_word_def is_space_def Let_def)

lemma space_not_label: "is_space s \<Longrightarrow> \<not> is_label s"
  using labels_not_spaces by blast

lemma labelled_text_word:
  assumes "w \<noteq> []" "\<forall>c \<in> set w. is_label c" "t \<noteq> []" "\<not> is_space (hd t)" "CHR 0x0D \<notin> set t" "newline \<notin> set t"
    and mark: "mark = [] \<or> mark = ''#''"
  shows "labelled_text (mark @ w @ '' '' @ t) = Some t"
proof -
  have space: "is_space CHR '' ''" by (simp add: is_space_def)
  have hash: "\<not> is_label CHR ''#''" by (simp add: is_label_def is_word_def Let_def)
  have body: "(case mark @ w @ '' '' @ t of [] \<Rightarrow> [] | c # cs \<Rightarrow> if c = CHR ''#'' then cs else mark @ w @ '' '' @ t) = w @ '' '' @ t"
    using mark assms(1,2) hash by (cases w) auto
  have word: "takeWhile is_label (w @ '' '' @ t) = w" "dropWhile is_label (w @ '' '' @ t) = '' '' @ t"
    using takeWhile_all [OF assms(2) space_not_label [OF space], of t] by simp_all
  have rest: "takeWhile is_space ('' '' @ t) = '' ''" "dropWhile is_space ('' '' @ t) = t"
    using assms(3,4) space by (cases t; simp)+
  show ?thesis unfolding labelled_text_def body word Let_def rest using assms by (simp add: line_group_def)
qed

text \<open>
  The first word of an acceptance criterion is taken for its label: an item without a label is read
  without its first word, as if that word had been the number of the criterion, so that criteria which
  differ in the first word are the same to the completion of the ticket.
\<close>

theorem first_word_of_criterion_lost:
  assumes "word \<noteq> []" "\<forall>c \<in> set word. is_label c"
    and "text \<noteq> []" "\<not> is_space (hd text)" "CHR 0x0D \<notin> set text" "newline \<notin> set text"
  shows "ACCEPTANCE_ITEM_RE (''- [ ] '' @ word @ '' '' @ text) = Some text
     \<and> ACCEPTANCE_ITEM_RE (''- [ ] #1 '' @ text) = Some text"
proof -
  have start: "is_space CHR '' ''" "\<not> is_space CHR ''-''" "\<not> is_space CHR ''[''" by (simp_all add: is_space_def)
  have item: "ACCEPTANCE_ITEM_RE (''- [ ] '' @ rest) = labelled_text (dropWhile is_space rest)" for rest
    using start by (simp add: ACCEPTANCE_ITEM_RE_def)
  have word: "dropWhile is_space (word @ '' '' @ text) = word @ '' '' @ text"
    using assms(1,2) labels_not_spaces by (cases word) auto
  have label: "dropWhile is_space (''#1 '' @ text) = ''#'' @ ''1'' @ '' '' @ text" by (simp add: is_space_def)
  have one: "\<forall>c \<in> set ''1''. is_label c" by (simp add: is_label_def is_word_def)
  have "ACCEPTANCE_ITEM_RE (''- [ ] '' @ word @ '' '' @ text) = Some text"
    unfolding item word using labelled_text_word [OF assms, of "[]"] by simp
  moreover have "ACCEPTANCE_ITEM_RE (''- [ ] #1 '' @ text) = Some text"
    using item [of "''#1 '' @ text"] labelled_text_word [OF _ one assms(3-6), of "''#''"] label by simp
  ultimately show ?thesis ..
qed

lemma first_word_of_criterion_lost_witness:
  "ACCEPTANCE_ITEM_RE ''- [ ] No data is lost'' = Some ''data is lost''"
  using first_word_of_criterion_lost [of "''No''" "''data is lost''"]
  by (simp add: is_label_def is_word_def is_space_def newline_def)

lemma criteria_read_example:
  "extractAcceptanceCriteria (''<!-- AC:BEGIN -->'' @ newline # ''- [ ] #1 It works'' @ newline # ''- [x] No data is lost'' @ newline #
     ''<!-- AC:END -->'') = [''It works'', ''data is lost'']"
  by code_simp

end
