(* ===== verification/Adjudication.thy ===== *)
theory Adjudication
  imports GateRuns TicketStore
begin

text \<open>
  The completion of a ticket: the check of the structured claim and of the judge
  (\<^verbatim>\<open>src/runtime/gates/adjudication\<close>), their composition with the deterministic gates
  (\<^verbatim>\<open>src/runtime/gates/adjudicator\<close>) and the use case that marks a ticket as done
  (\<^verbatim>\<open>src/tickets/completion/complete-ticket.ts\<close>). A criterion is the pair of its id and its text; the judge
  and the status write are arguments.
\<close>

subsection \<open>The structured claim\<close>

record criterion_evidence =
  ce_criterion :: string
  ce_evidence :: "string list"

type_synonym completion_claim = "criterion_evidence list"

text \<open>The rules in order, each with its reason; the first that applies gives the refusal.\<close>

definition COMPLETENESS_RULES :: "((string \<Rightarrow> string) \<times> (criterion_evidence option \<Rightarrow> bool)) list" where
  "COMPLETENESS_RULES =
     [(\<lambda>i. ''no claim entry for criterion '' @ quoted i, \<lambda>entry. entry = None),
      (\<lambda>i. ''empty evidence for criterion '' @ quoted i,
       \<lambda>entry. case entry of None \<Rightarrow> False | Some e \<Rightarrow> ce_evidence e = []),
      (\<lambda>i. ''blank evidence for criterion '' @ quoted i,
       \<lambda>entry. case entry of None \<Rightarrow> False
               | Some e \<Rightarrow> ce_evidence e \<noteq> [] \<and> list_all (\<lambda>s. js_trim s = []) (ce_evidence e))]"

definition claim_entry :: "string \<Rightarrow> completion_claim \<Rightarrow> criterion_evidence option" where
  "claim_entry i claim = List.find (\<lambda>e. ce_criterion e = i) claim"

definition criterionUnmet :: "string \<times> string \<Rightarrow> completion_claim \<Rightarrow> unmet_criterion option" where
  "criterionUnmet criterion claim =
     (let entry = claim_entry (fst criterion) claim in
      case List.find (\<lambda>(reason, test). test entry) COMPLETENESS_RULES of
        None \<Rightarrow> None
      | Some (reason, _) \<Rightarrow> Some \<lparr>uc_criterion = fst criterion,
          uc_evidence = (case entry of None \<Rightarrow> [] | Some e \<Rightarrow> ce_evidence e), uc_reason = reason (fst criterion)\<rparr>)"

definition structuredClaimUnmet :: "(string \<times> string) list \<Rightarrow> completion_claim \<Rightarrow> unmet_criterion list" where
  "structuredClaimUnmet criteria claim = List.map_filter (\<lambda>criterion. criterionUnmet criterion claim) criteria"

subsection \<open>The judge\<close>

record judge_verdict =
  jv_citedEvidence :: "string list"
  jv_rationale :: string
  jv_satisfied :: bool

text \<open>A judge is asked with the claimed evidence, the criterion and the deterministic evidence.\<close>

type_synonym llm_judge = "string list \<Rightarrow> string \<times> string \<Rightarrow> string list \<Rightarrow> judge_verdict"

definition HONOR_POLICIES :: "((judge_verdict \<Rightarrow> string list \<Rightarrow> bool) \<times> string) list" where
  "HONOR_POLICIES =
     [(\<lambda>verdict anchored. \<not> jv_satisfied verdict, ''llm-judge marked the residual criterion unsatisfied''),
      (\<lambda>verdict anchored. jv_citedEvidence verdict = [], ''llm-judge pass rejected: verdict cited no deterministic evidence''),
      (\<lambda>verdict anchored. length anchored < length (jv_citedEvidence verdict),
       ''llm-judge pass rejected: cited evidence is not present in the deterministic evidence set'')]"

definition TRIVIAL_REFUSAL :: string where
  "TRIVIAL_REFUSAL = ''trivial completion claim refused without consulting llm-judge: no non-blank claimed evidence''"

definition adjudicateCriterion ::
  "string \<times> string \<Rightarrow> string list \<Rightarrow> string list \<Rightarrow> llm_judge \<Rightarrow> unmet_criterion option" where
  "adjudicateCriterion criterion claimedEvidence deterministicEvidence judge =
     (let meaningful = filter (\<lambda>item. js_trim item \<noteq> []) claimedEvidence in
      if meaningful = [] then
        Some \<lparr>uc_criterion = fst criterion, uc_evidence = claimedEvidence, uc_reason = TRIVIAL_REFUSAL\<rparr>
      else
        (let verdict = judge meaningful criterion deterministicEvidence;
             anchored = filter (\<lambda>item. item \<in> set deterministicEvidence) (jv_citedEvidence verdict)
         in case List.find (\<lambda>(failed, reason). failed verdict anchored) HONOR_POLICIES of
              None \<Rightarrow> None
            | Some (_, reason) \<Rightarrow> Some \<lparr>uc_criterion = fst criterion,
                uc_evidence = (if jv_citedEvidence verdict \<noteq> [] then jv_citedEvidence verdict else meaningful),
                uc_reason = reason\<rparr>))"

definition claimedEvidenceFor :: "string \<times> string \<Rightarrow> completion_claim \<Rightarrow> string list" where
  "claimedEvidenceFor criterion claim =
     (case claim_entry (fst criterion) claim of None \<Rightarrow> [] | Some e \<Rightarrow> ce_evidence e)"

definition llmJudgeUnmet ::
  "(string \<times> string) list \<Rightarrow> completion_claim \<Rightarrow> string list \<Rightarrow> llm_judge \<Rightarrow> unmet_criterion list" where
  "llmJudgeUnmet residue claim deterministicEvidence judge =
     List.map_filter (\<lambda>criterion.
       adjudicateCriterion criterion (claimedEvidenceFor criterion claim) deterministicEvidence judge) residue"

subsection \<open>The deterministic gates\<close>

record deterministic_gate =
  dg_covers :: "string list"
  dg_attempt :: attempt_result
  dg_context :: gate_context
  dg_gate :: gate_spec
  dg_gateId :: string
  dg_node :: "gated_node option"
  dg_nodeId :: string

record deterministic_outcome =
  do_covered :: "string list"
  do_evidence :: "string list"
  do_unmet :: "unmet_criterion list"

definition gateUnmet :: "deterministic_gate \<Rightarrow> gate_result \<Rightarrow> unmet_criterion list" where
  "gateUnmet gate result =
     (if or_else (gr_unmet result) [] \<noteq> [] then or_else (gr_unmet result) []
      else let reason = or_else (gr_reason result) (''deterministic gate '' @ quoted (gr_gateId result) @ '' failed'') in
        if dg_covers gate = [] then
          [\<lparr>uc_criterion = gr_gateId result, uc_evidence = gr_evidence result, uc_reason = reason\<rparr>]
        else map (\<lambda>i. \<lparr>uc_criterion = i, uc_evidence = gr_evidence result, uc_reason = reason\<rparr>) (dg_covers gate))"

definition evaluate_deterministic :: "'w gate_services \<Rightarrow> deterministic_gate \<Rightarrow> ('w, gate_result) gate_run" where
  "evaluate_deterministic sv gate =
     evaluateGate sv (dg_gate gate) (dg_gateId gate) (dg_nodeId gate) (dg_context gate) (dg_attempt gate) (dg_node gate)"

fun deterministic_loop ::
  "'w gate_services \<Rightarrow> deterministic_gate list \<Rightarrow> deterministic_outcome \<Rightarrow> ('w, deterministic_outcome) gate_run" where
  "deterministic_loop sv [] acc = may_return acc"
| "deterministic_loop sv (gate # gates) acc =
     (let acc = acc\<lparr>do_covered := foldl set_add (do_covered acc) (dg_covers gate)\<rparr> in
      may_bind (evaluate_deterministic sv gate) (\<lambda>result.
        deterministic_loop sv gates
          (if gr_passed result then acc\<lparr>do_evidence := do_evidence acc @ gr_evidence result\<rparr>
           else acc\<lparr>do_unmet := do_unmet acc @ gateUnmet gate result\<rparr>)))"

definition runDeterministicLayer ::
  "'w gate_services \<Rightarrow> deterministic_gate list \<Rightarrow> ('w, deterministic_outcome) gate_run" where
  "runDeterministicLayer sv gates = deterministic_loop sv gates \<lparr>do_covered = [], do_evidence = [], do_unmet = []\<rparr>"

definition residueCriteria ::
  "(string \<times> string) list \<Rightarrow> string list \<Rightarrow> unmet_criterion list \<Rightarrow> (string \<times> string) list" where
  "residueCriteria criteria covered structured =
     (let structuredIds = js_set (map uc_criterion structured) in
      filter (\<lambda>criterion. \<not> (fst criterion \<in> set covered \<or> fst criterion \<in> set structuredIds)) criteria)"

fun dedupe_from :: "string list \<Rightarrow> unmet_criterion list \<Rightarrow> unmet_criterion list" where
  "dedupe_from seen [] = []"
| "dedupe_from seen (entry # entries) =
     (if uc_criterion entry \<in> set seen then dedupe_from seen entries
      else entry # dedupe_from (set_add seen (uc_criterion entry)) entries)"

definition dedupeByCriterion :: "unmet_criterion list \<Rightarrow> unmet_criterion list" where
  "dedupeByCriterion entries = dedupe_from [] entries"

record gate_verdict =
  gd_passed :: bool
  gd_unmet :: "unmet_criterion list"

definition adjudicate ::
  "'w gate_services \<Rightarrow> completion_claim \<Rightarrow> (string \<times> string) list \<Rightarrow> deterministic_gate list option \<Rightarrow> llm_judge \<Rightarrow>
   ('w, gate_verdict) gate_run" where
  "adjudicate sv claim criteria deterministicGates judge =
     may_bind (runDeterministicLayer sv (or_else deterministicGates [])) (\<lambda>deterministic.
       let structured = structuredClaimUnmet criteria claim;
           residue = residueCriteria criteria (do_covered deterministic) structured;
           judged = llmJudgeUnmet residue claim (do_evidence deterministic) judge;
           unmet = dedupeByCriterion (do_unmet deterministic @ structured @ judged)
       in may_return \<lparr>gd_passed = (unmet = []), gd_unmet = unmet\<rparr>)"

subsection \<open>Completing a ticket\<close>

datatype completion_outcome = TicketCompleted string | TicketRefused string "unmet_criterion list"

record completion_target =
  ct_criteria :: "(string \<times> string) list"
  ct_id :: string

record ('w) completion_store =
  co_loadTarget :: "string \<Rightarrow> 'w \<Rightarrow> (string + completion_target) \<times> 'w"
  co_markDone :: "string \<Rightarrow> 'w \<Rightarrow> (string + unit) \<times> 'w"

definition conservativeLayerAJudge :: llm_judge where
  "conservativeLayerAJudge claimed criterion deterministic =
     \<lparr>jv_citedEvidence = [], jv_rationale = ''Layer A judge does not honor residue criterion '' @ quoted (fst criterion) @
        '' without anchored deterministic evidence'', jv_satisfied = False\<rparr>"

definition resolveTarget :: "backlog_task_store \<Rightarrow> string \<Rightarrow> string + completion_target" where
  "resolveTarget store ticketId = (case map_of (bs_tasksById store) ticketId of
     None \<Rightarrow> Inl (''Unknown Backlog ticket '' @ quoted ticketId)
   | Some task \<Rightarrow> Inr \<lparr>ct_criteria = map (\<lambda>(index, text). (show_nat (index + 1), text)) (enumerate 0 (tk_acceptanceCriteria task)),
       ct_id = tk_id task\<rparr>)"

text \<open>The store of the backlog: what loading it gives, and the command that edits a task.\<close>

definition backlogTicketCompletionStore ::
  "('w \<Rightarrow> (store_error + backlog_task_store) \<times> 'w) \<Rightarrow> (string list \<Rightarrow> 'w \<Rightarrow> (string + string) \<times> 'w) \<Rightarrow> 'w completion_store" where
  "backlogTicketCompletionStore load run =
     \<lparr>co_loadTarget = (\<lambda>ticketId w. case load w of
        (Inl e, w') \<Rightarrow> (Inl (se_storeMessage e), w')
      | (Inr store, w') \<Rightarrow> (resolveTarget store ticketId, w')),
      co_markDone = (\<lambda>ticketId w. case run [''task'', ''edit'', ticketId, ''--status'', ''Done'', ''--plain''] w of
        (Inl message, w') \<Rightarrow> (Inl (''Could not set ticket '' @ quoted ticketId @ '' to Done: '' @ message), w')
      | (Inr stdout, w') \<Rightarrow> (Inr (), w'))\<rparr>"

definition completion_world :: "('w \<Rightarrow> (string + 'x) \<times> 'w) \<Rightarrow> ('w, 'x) gate_run" where
  "completion_world f = may_world (\<lambda>w. case f w of (Inl message, w') \<Rightarrow> (Inl (ThrownError message), w') | (Inr x, w') \<Rightarrow> (Inr x, w'))"

definition completeTicket ::
  "'w gate_services \<Rightarrow> 'w completion_store \<Rightarrow> completion_claim \<Rightarrow> deterministic_gate list option \<Rightarrow> llm_judge \<Rightarrow> string \<Rightarrow>
   ('w, completion_outcome) gate_run" where
  "completeTicket sv store claim deterministicGates judge ticketId =
     may_bind (completion_world (co_loadTarget store ticketId)) (\<lambda>target.
     may_bind (may_catch (adjudicate sv claim (ct_criteria target) deterministicGates judge)
                (\<lambda>e. may_throw (ThrownError (''Adjudication failed for ticket '' @ quoted ticketId @ '': '' @ thrown_text e))))
     (\<lambda>verdict.
       if \<not> gd_passed verdict then may_return (TicketRefused ticketId (gd_unmet verdict))
       else may_bind (completion_world (co_markDone store ticketId)) (\<lambda>_. may_return (TicketCompleted ticketId))))"

subsection \<open>What a passing verdict means\<close>

definition claimed :: "completion_claim \<Rightarrow> string \<times> string \<Rightarrow> bool" where
  "claimed claim criterion \<longleftrightarrow> (\<exists>item \<in> set (claimedEvidenceFor criterion claim). js_trim item \<noteq> [])"

definition honored :: "llm_judge \<Rightarrow> completion_claim \<Rightarrow> string list \<Rightarrow> string \<times> string \<Rightarrow> bool" where
  "honored judge claim evidence criterion \<longleftrightarrow>
     (let verdict = judge (filter (\<lambda>item. js_trim item \<noteq> []) (claimedEvidenceFor criterion claim)) criterion evidence in
      jv_satisfied verdict \<and> jv_citedEvidence verdict \<noteq> [] \<and> set (jv_citedEvidence verdict) \<subseteq> set evidence)"

fun evaluate_all :: "'w gate_services \<Rightarrow> deterministic_gate list \<Rightarrow> ('w, gate_result list) gate_run" where
  "evaluate_all sv [] = may_return []"
| "evaluate_all sv (gate # gates) =
     may_bind (evaluate_deterministic sv gate) (\<lambda>result.
     may_bind (evaluate_all sv gates) (\<lambda>results. may_return (result # results)))"

definition covered_ids :: "deterministic_gate list \<Rightarrow> string set" where
  "covered_ids gates = (\<Union>gate \<in> set gates. set (dg_covers gate))"

definition passing_evidence :: "gate_result list \<Rightarrow> string list" where
  "passing_evidence results = concat (map gr_evidence (filter gr_passed results))"

lemma map_filter_Nil: "List.map_filter f xs = [] \<longleftrightarrow> (\<forall>x \<in> set xs. f x = None)"
  by (induction xs) (auto simp: List.map_filter_simps split: option.splits)

lemma criterionUnmet_None: "criterionUnmet criterion claim = None \<longleftrightarrow> claimed claim criterion"
  by (cases "claim_entry (fst criterion) claim")
     (auto simp: criterionUnmet_def Let_def COMPLETENESS_RULES_def claimed_def claimedEvidenceFor_def list_all_iff)

lemma structuredClaimUnmet_Nil: "structuredClaimUnmet criteria claim = [] \<longleftrightarrow> (\<forall>c \<in> set criteria. claimed claim c)"
  by (simp add: structuredClaimUnmet_def map_filter_Nil criterionUnmet_None)

lemma filter_length_less: "length (filter P xs) < length xs \<longleftrightarrow> (\<exists>x \<in> set xs. \<not> P x)"
  by (induction xs) (auto simp: less_Suc_eq_le)

lemma adjudicateCriterion_None:
  assumes "claimed claim criterion"
  shows "adjudicateCriterion criterion (claimedEvidenceFor criterion claim) evidence judge = None \<longleftrightarrow>
     honored judge claim evidence criterion"
proof -
  have "filter (\<lambda>item. js_trim item \<noteq> []) (claimedEvidenceFor criterion claim) \<noteq> []"
    using assms by (auto simp: claimed_def filter_empty_conv)
  then show ?thesis
    by (auto simp: adjudicateCriterion_def honored_def Let_def HONOR_POLICIES_def filter_length_less split: if_splits)
qed

lemma dedupe_from_Nil: "dedupe_from seen entries = [] \<longleftrightarrow> uc_criterion ` set entries \<subseteq> set seen"
  by (induction entries arbitrary: seen) auto


lemma gateUnmet_nonempty: "gateUnmet gate result \<noteq> []"
  by (auto simp: gateUnmet_def Let_def)

lemma deterministic_loop_results:
  "deterministic_loop sv gates acc s = (Inr out, s') \<longleftrightarrow>
     (\<exists>results. evaluate_all sv gates s = (Inr results, s') \<and>
        out = \<lparr>do_covered = foldl (\<lambda>covered gate. foldl set_add covered (dg_covers gate)) (do_covered acc) gates,
               do_evidence = do_evidence acc @ passing_evidence results,
               do_unmet = do_unmet acc @ concat (map (\<lambda>(gate, r). if gr_passed r then [] else gateUnmet gate r) (zip gates results))\<rparr>)"
proof (induction gates arbitrary: acc s)
  case Nil
  then show ?case by (auto simp: may_return_def passing_evidence_def)
next
  case (Cons gate gates)
  show ?case
    by (auto simp: Let_def may_bind_Inr Cons.IH may_return_def passing_evidence_def split: if_splits) 
qed

lemma covered_fold: "set (foldl (\<lambda>covered gate. foldl set_add covered (dg_covers gate)) covered gates) = set covered \<union> covered_ids gates"
  by (induction gates arbitrary: covered) (auto simp: covered_ids_def set_foldl_set_add)

lemma evaluate_all_length: "evaluate_all sv gates s = (Inr results, s') \<Longrightarrow> length results = length gates"
  by (induction gates arbitrary: s results s') (auto simp: may_return_def may_bind_Inr)

lemma failing_unmet_Nil:
  "length results = length gates \<Longrightarrow>
   concat (map (\<lambda>(gate, r). if gr_passed r then [] else gateUnmet gate r) (zip gates results)) = [] \<longleftrightarrow> (\<forall>r \<in> set results. gr_passed r)"
  by (induction gates results rule: list_induct2') (auto simp: gateUnmet_nonempty)

text \<open>The refusals of an adjudication, before duplicates are left out.\<close>

lemma adjudicate_Inr:
  assumes "adjudicate sv claim criteria gates judge s = (Inr verdict, s')"
  obtains results unmet where "evaluate_all sv (or_else gates []) s = (Inr results, s')"
    "verdict = \<lparr>gd_passed = (dedupeByCriterion unmet = []), gd_unmet = dedupeByCriterion unmet\<rparr>"
    "unmet = [] \<longleftrightarrow> (\<forall>r \<in> set results. gr_passed r) \<and> (\<forall>c \<in> set criteria. claimed claim c) \<and>
       (\<forall>c \<in> set criteria. fst c \<notin> covered_ids (or_else gates []) \<longrightarrow> honored judge claim (passing_evidence results) c)"
proof -
  let ?gates = "or_else gates []"
  from assms obtain deterministic where layer: "runDeterministicLayer sv ?gates s = (Inr deterministic, s')"
    and verdict: "verdict = (let structured = structuredClaimUnmet criteria claim;
           residue = residueCriteria criteria (do_covered deterministic) structured;
           judged = llmJudgeUnmet residue claim (do_evidence deterministic) judge;
           unmet = dedupeByCriterion (do_unmet deterministic @ structured @ judged)
       in \<lparr>gd_passed = (unmet = []), gd_unmet = unmet\<rparr>)"
    by (auto simp: adjudicate_def may_bind_Inr may_return_def Let_def)
  from layer obtain results where results: "evaluate_all sv ?gates s = (Inr results, s')"
    and outcome: "deterministic = \<lparr>do_covered = foldl (\<lambda>covered gate. foldl set_add covered (dg_covers gate)) [] ?gates,
      do_evidence = passing_evidence results,
      do_unmet = concat (map (\<lambda>(gate, r). if gr_passed r then [] else gateUnmet gate r) (zip ?gates results))\<rparr>"
    unfolding runDeterministicLayer_def deterministic_loop_results by auto
  have parts: "set (do_covered deterministic) = covered_ids ?gates" "do_evidence deterministic = passing_evidence results"
    unfolding outcome by (simp_all add: covered_fold)
  have failing: "do_unmet deterministic = [] \<longleftrightarrow> (\<forall>r \<in> set results. gr_passed r)"
    using failing_unmet_Nil [OF evaluate_all_length [OF results]] unfolding outcome by (simp only: deterministic_outcome.select_convs)
  define structured where "structured = structuredClaimUnmet criteria claim"
  define judged where "judged = llmJudgeUnmet (residueCriteria criteria (do_covered deterministic) structured) claim
    (do_evidence deterministic) judge"
  have structured: "structured = [] \<longleftrightarrow> (\<forall>c \<in> set criteria. claimed claim c)"
    unfolding structured_def by (rule structuredClaimUnmet_Nil)
  have judged: "judged = [] \<longleftrightarrow>
      (\<forall>c \<in> set criteria. fst c \<notin> covered_ids ?gates \<longrightarrow> honored judge claim (passing_evidence results) c)" if "structured = []"
  proof -
    have all: "\<forall>c \<in> set criteria. claimed claim c" using that structured by blast
    have "set (residueCriteria criteria (do_covered deterministic) structured) =
        {c \<in> set criteria. fst c \<notin> covered_ids ?gates}"
      unfolding that by (auto simp: residueCriteria_def Let_def parts)
    then show ?thesis unfolding judged_def llmJudgeUnmet_def map_filter_Nil parts(2)
      using all adjudicateCriterion_None by auto
  qed
  show thesis
    by (rule that [OF results, of "do_unmet deterministic @ structured @ judged"])
       (use verdict failing structured judged in \<open>auto simp: structured_def judged_def Let_def\<close>)
qed

lemma dedupe_Nil [simp]: "dedupeByCriterion unmet = [] \<longleftrightarrow> unmet = []"
  by (simp add: dedupeByCriterion_def dedupe_from_Nil)


lemma completion_cases:
  assumes "completeTicket sv store claim gates judge ticketId s = (Inr outcome, s')"
  obtains target verdict s1 s2 where "completion_world (co_loadTarget store ticketId) s = (Inr target, s1)"
    "adjudicate sv claim (ct_criteria target) gates judge s1 = (Inr verdict, s2)"
    "if gd_passed verdict then outcome = TicketCompleted ticketId \<and> completion_world (co_markDone store ticketId) s2 = (Inr (), s')
     else outcome = TicketRefused ticketId (gd_unmet verdict) \<and> s' = s2"
  using assms unfolding completeTicket_def
  by (auto simp: may_bind_Inr may_return_def may_catch_def may_throw_def split: if_splits prod.splits sum.splits)

text \<open>
  A ticket is marked as done only by a passing adjudication of its own criteria, and a refusal writes
  nothing and carries the criteria that are not met. With the judge of layer A, a completed ticket has every
  criterion covered by a gate that passed and claimed by the agent; without gates only a ticket without
  criteria is completed.
\<close>

theorem ticket_completed_only_when_covered:
  assumes "completeTicket sv store claim gates judge ticketId s = (Inr outcome, s')"
  shows "\<exists>target s1 s2. completion_world (co_loadTarget store ticketId) s = (Inr target, s1) \<and>
     (outcome = TicketCompleted ticketId \<and> completion_world (co_markDone store ticketId) s2 = (Inr (), s') \<and>
        (\<forall>c \<in> set (ct_criteria target). claimed claim c) \<and>
        (judge = conservativeLayerAJudge \<longrightarrow> fst ` set (ct_criteria target) \<subseteq> covered_ids (or_else gates []))
      \<or> (\<exists>unmet. outcome = TicketRefused ticketId unmet \<and> unmet \<noteq> [] \<and> s' = s2))"
  using assms
proof (cases rule: completion_cases)
  case (1 target verdict s1 s2)
  from 1(2) obtain results unmet where verdict: "verdict = \<lparr>gd_passed = (dedupeByCriterion unmet = []), gd_unmet = dedupeByCriterion unmet\<rparr>"
    and exact: "unmet = [] \<longleftrightarrow> (\<forall>r \<in> set results. gr_passed r) \<and> (\<forall>c \<in> set (ct_criteria target). claimed claim c) \<and>
       (\<forall>c \<in> set (ct_criteria target). fst c \<notin> covered_ids (or_else gates []) \<longrightarrow> honored judge claim (passing_evidence results) c)"
    by (rule adjudicate_Inr)
  have never: "\<not> honored conservativeLayerAJudge claim evidence c" for evidence c
    by (simp add: honored_def conservativeLayerAJudge_def Let_def)
  show ?thesis
  proof (cases "gd_passed verdict")
    case True
    with verdict exact have "\<forall>c \<in> set (ct_criteria target). claimed claim c"
      "judge = conservativeLayerAJudge \<longrightarrow> fst ` set (ct_criteria target) \<subseteq> covered_ids (or_else gates [])"
      using never by auto
    with 1 True show ?thesis by auto
  next
    case False
    with 1 verdict show ?thesis by auto
  qed
qed

subsection \<open>An example\<close>

definition lint_covers :: deterministic_gate where
  "lint_covers = \<lparr>dg_covers = [''1''], dg_attempt = gate_attempt 0, dg_context = gated_context, dg_gate = lint_gate,
     dg_gateId = ''l'', dg_node = None, dg_nodeId = ''n''\<rparr>"

definition lint_claim :: completion_claim where
  "lint_claim = [\<lparr>ce_criterion = ''1'', ce_evidence = [''ran'']\<rparr>]"

definition lint_store :: "unit completion_store" where
  "lint_store = \<lparr>co_loadTarget = (\<lambda>i w. (Inr \<lparr>ct_criteria = [(''1'', ''lint'')], ct_id = i\<rparr>, w)), co_markDone = (\<lambda>i w. (Inr (), w))\<rparr>"


lemma ticket_completed_only_when_covered_witness:
  "\<exists>s'. completeTicket (sample_services 0) lint_store lint_claim (Some [lint_covers]) conservativeLayerAJudge ''T''
     (rs_world gated_state) = (Inr (TicketCompleted ''T''), s') \<and> ''1'' \<in> covered_ids [lint_covers]"
proof -
  have "case completeTicket (sample_services 0) lint_store lint_claim (Some [lint_covers]) conservativeLayerAJudge ''T''
      (rs_world gated_state) of (Inr outcome, s') \<Rightarrow> outcome = TicketCompleted ''T'' | _ \<Rightarrow> False"
    by code_simp
  then obtain s' where run: "completeTicket (sample_services 0) lint_store lint_claim (Some [lint_covers]) conservativeLayerAJudge ''T''
      (rs_world gated_state) = (Inr (TicketCompleted ''T''), s')"
    by (auto split: prod.splits sum.splits)
  from ticket_completed_only_when_covered [OF run] run show ?thesis
    by (auto simp: completion_world_def may_world_def lint_store_def)
qed

end
