(* ===== verification/ParallelNode.thy ===== *)
theory ParallelNode
  imports GateRuns WorkflowRun
begin

text \<open>
  The execution of a parallel node (\<^verbatim>\<open>src/runtime/parallel-node/parallel-node.ts\<close>): the context of its
  children, a child in its own work tree, the fan-out of the children under the concurrency limit, the caps of
  their categories and the fail-fast gate, and the result that aggregates theirs. The fan-out is a step
  relation: which fiber goes on next, and what a child answers, is the choice of a step. Work trees, the
  leases of agent runtimes and the executor of a child are services.
\<close>

subsection \<open>The context of the children\<close>

record ('a, 'g, 'o) parallel_context =
  px_byCategory :: "(string \<times> nat) list"
  px_executor :: "string option"
  px_failFast :: bool
  px_maxParallelNodes :: "nat option"
  px_parallelBatches :: "('a, 'g) planned_node list list"
  px_parentParallelNodeId :: "string option"
  px_run :: "('a, 'g) run_context"
  px_runId :: "string option"
  px_store :: "'o node_store"
  px_usesOpencode :: bool
  px_worktreePath :: string
  px_worktreesEnabled :: bool

text \<open>\<open>hookResults\<close>, the reporter and the signal are not part of the model's context.\<close>

definition createParallelChildContext ::
  "('a, 'g, 'o) parallel_context \<Rightarrow> string \<Rightarrow> ('a, 'g) planned_node list \<Rightarrow> ('a, 'g, 'o) parallel_context" where
  "createParallelChildContext cx parentNodeId children =
     cx\<lparr>px_store := forkForParallelChildren (px_store cx) children,
             px_parentParallelNodeId := Some parentNodeId,
             px_parallelBatches := [children],
             px_run := (px_run cx)\<lparr>cx_topologicalOrder := children\<rparr>\<rparr>"

subsection \<open>A child in its work tree\<close>

record create_worktree_options =
  cw_childNodeId :: string
  cw_parentNodeId :: string
  cw_repoRoot :: string
  cw_runId :: "string option"

record ('a, 'g, 'o, 's) parallel_services =
  pw_gc :: "string \<Rightarrow> 's \<Rightarrow> 's"
  pw_createChild :: "create_worktree_options \<Rightarrow> 's \<Rightarrow> (thrown + string) \<times> 's"
  pw_releaseChild :: "string \<Rightarrow> 's \<Rightarrow> (thrown + unit) \<times> 's"
  pw_leaseRuntime :: "string \<Rightarrow> 's \<Rightarrow> (thrown + string) \<times> 's"
  pw_releaseRuntime :: "string \<Rightarrow> 's \<Rightarrow> (thrown + unit) \<times> 's"
  pw_executeNode :: "('a, 'g) planned_node \<Rightarrow> ('a, 'g, 'o) parallel_context \<Rightarrow> 's \<Rightarrow> (thrown + node_result) \<times> 's"

text \<open>\<open>Effect.acquireUseRelease\<close>: what was acquired is released however its use ends.\<close>

definition acquireUseRelease ::
  "('s, 'l) may \<Rightarrow> ('l \<Rightarrow> ('s, 'x) may) \<Rightarrow> ('l \<Rightarrow> ('s, unit) may) \<Rightarrow> ('s, 'x) may" where
  "acquireUseRelease acquire uses release s = (case acquire s of
     (Inl e, s1) \<Rightarrow> (Inl e, s1)
   | (Inr l, s1) \<Rightarrow> (case uses l s1 of
       (Inl e, s2) \<Rightarrow> (Inl e, snd (release l s2))
     | (Inr x, s2) \<Rightarrow> (case release l s2 of (Inl e, s3) \<Rightarrow> (Inl e, s3) | (Inr _, s3) \<Rightarrow> (Inr x, s3))))"

definition gcStaleWorktrees :: "('a, 'g, 'o, 's) parallel_services \<Rightarrow> ('a, 'g, 'o) parallel_context \<Rightarrow> 's \<Rightarrow> 's" where
  "gcStaleWorktrees sv cx s = (if px_worktreesEnabled cx then pw_gc sv (px_worktreePath cx) s else s)"

definition executeChild ::
  "('a, 'g, 'o, 's) parallel_services \<Rightarrow> ('a, 'g) planned_node \<Rightarrow> ('a, 'g, 'o) parallel_context \<Rightarrow> ('s, node_result) may" where
  "executeChild sv child cx = pw_executeNode sv child cx"

definition runChildWithWorktreeLease ::
  "('a, 'g, 'o, 's) parallel_services \<Rightarrow> ('a, 'g) planned_node \<Rightarrow> ('a, 'g, 'o) parallel_context \<Rightarrow> string \<Rightarrow>
   ('s, node_result) may" where
  "runChildWithWorktreeLease sv child cx worktreePath =
     (let childContext = cx\<lparr>px_worktreePath := worktreePath\<rparr> in
      if \<not> px_usesOpencode cx then executeChild sv child childContext
      else acquireUseRelease (pw_leaseRuntime sv worktreePath)
             (\<lambda>lease. executeChild sv child (childContext\<lparr>px_executor := Some lease\<rparr>))
             (pw_releaseRuntime sv))"

definition childLeaseOptions ::
  "('a, 'g) planned_node \<Rightarrow> ('a, 'g, 'o) parallel_context \<Rightarrow> create_worktree_options" where
  "childLeaseOptions child cx =
     \<lparr>cw_childNodeId = pn_id child, cw_parentNodeId = or_else (px_parentParallelNodeId cx) ''parallel'',
      cw_repoRoot = px_worktreePath cx, cw_runId = truthy (px_runId cx)\<rparr>"

definition runChildInWorktree ::
  "('a, 'g, 'o, 's) parallel_services \<Rightarrow> ('a, 'g) planned_node \<Rightarrow> ('a, 'g, 'o) parallel_context \<Rightarrow> ('s, node_result) may" where
  "runChildInWorktree sv child cx =
     (if \<not> px_worktreesEnabled cx then executeChild sv child cx
      else acquireUseRelease (pw_createChild sv (childLeaseOptions child cx))
             (\<lambda>lease. runChildWithWorktreeLease sv child cx lease)
             (pw_releaseChild sv))"

subsection \<open>The fan-out\<close>

definition childCategory :: "string \<Rightarrow> (string \<times> nat) list \<Rightarrow> string option" where
  "childCategory childId byCategory =
     List.find (\<lambda>category. str_includes childId category) (map fst (object_entries byCategory))"

text \<open>The semaphore a child runs under, if any: its category and the number of permits.\<close>

definition category_permits :: "('a, 'g, 'o) parallel_context \<Rightarrow> ('a, 'g) planned_node \<Rightarrow> (string \<times> nat) option" where
  "category_permits cx child =
     (case childCategory (pn_id child) (px_byCategory cx) of
        None \<Rightarrow> None
      | Some category \<Rightarrow> map_option (Pair category) (map_of (px_byCategory cx) category))"

datatype child_phase = NotStarted | AwaitsPermit | RunsChild | Settled "node_result option"

record fan_state =
  fn_phases :: "child_phase list"
  fn_aborted :: bool
  fn_cancelled :: bool

definition initial_fan :: "('a, 'g) planned_node list \<Rightarrow> bool \<Rightarrow> fan_state" where
  "initial_fan children cancelled =
     \<lparr>fn_phases = replicate (length children) NotStarted, fn_aborted = cancelled, fn_cancelled = cancelled\<rparr>"

definition in_flight :: "fan_state \<Rightarrow> nat" where
  "in_flight st = length (filter (\<lambda>p. p = AwaitsPermit \<or> p = RunsChild) (fn_phases st))"

definition limit_free :: "('a, 'g, 'o) parallel_context \<Rightarrow> fan_state \<Rightarrow> bool" where
  "limit_free cx st = (case px_maxParallelNodes cx of None \<Rightarrow> True | Some n \<Rightarrow> in_flight st < n)"

definition holders :: "('a, 'g, 'o) parallel_context \<Rightarrow> ('a, 'g) planned_node list \<Rightarrow> string \<Rightarrow> fan_state \<Rightarrow> nat" where
  "holders cx children category st =
     length (filter (\<lambda>(child, p). p = RunsChild \<and> map_option fst (category_permits cx child) = Some category)
       (zip children (fn_phases st)))"

definition permit_free :: "('a, 'g, 'o) parallel_context \<Rightarrow> ('a, 'g) planned_node list \<Rightarrow> ('a, 'g) planned_node \<Rightarrow> fan_state \<Rightarrow> bool" where
  "permit_free cx children child st =
     (case category_permits cx child of
        None \<Rightarrow> True | Some (category, permits) \<Rightarrow> holders cx children category st < permits)"

definition gate_aborted :: "('a, 'g, 'o) parallel_context \<Rightarrow> fan_state \<Rightarrow> bool" where
  "gate_aborted cx st \<longleftrightarrow> px_failFast cx \<and> fn_aborted st"

definition set_phase :: "nat \<Rightarrow> child_phase \<Rightarrow> fan_state \<Rightarrow> fan_state" where
  "set_phase i p st = st\<lparr>fn_phases := (fn_phases st)[i := p]\<rparr>"

text \<open>
  \<open>runChildCapped\<close>, in the pieces a fiber runs between two suspensions: it looks at the gate when
  \<open>forEach\<close> starts it, waits for a permit of its category, and its result may trip the gate.
\<close>

definition start_child :: "('a, 'g, 'o) parallel_context \<Rightarrow> nat \<Rightarrow> fan_state \<Rightarrow> fan_state" where
  "start_child cx i st = set_phase i (if gate_aborted cx st then Settled None else AwaitsPermit) st"

definition finish_child :: "('a, 'g, 'o) parallel_context \<Rightarrow> nat \<Rightarrow> node_result \<Rightarrow> fan_state \<Rightarrow> fan_state" where
  "finish_child cx i result st =
     (set_phase i (Settled (Some result)) st)
       \<lparr>fn_aborted := (fn_aborted st \<or> px_failFast cx \<and> nr_status result = ResultFailed)\<rparr>"

inductive fan_step ::
  "('a, 'g, 'o) parallel_context \<Rightarrow> ('a, 'g) planned_node list \<Rightarrow> fan_state \<Rightarrow> fan_state \<Rightarrow> bool"
  for cx :: "('a, 'g, 'o) parallel_context" and children :: "('a, 'g) planned_node list" where
  Start: "i < length children \<Longrightarrow> fn_phases st ! i = NotStarted \<Longrightarrow> \<forall>j < i. fn_phases st ! j \<noteq> NotStarted \<Longrightarrow>
      limit_free cx st \<Longrightarrow> fan_step cx children st (start_child cx i st)"
| Acquire: "i < length children \<Longrightarrow> fn_phases st ! i = AwaitsPermit \<Longrightarrow> permit_free cx children (children ! i) st \<Longrightarrow>
      fan_step cx children st (set_phase i RunsChild st)"
| Finish: "i < length children \<Longrightarrow> fn_phases st ! i = RunsChild \<Longrightarrow> nr_nodeId result = pn_id (children ! i) \<Longrightarrow>
      fan_step cx children st (finish_child cx i result st)"
| Cancel: "\<not> fn_cancelled st \<Longrightarrow> fan_step cx children st (st\<lparr>fn_aborted := True, fn_cancelled := True\<rparr>)"

abbreviation fan_run ::
  "('a, 'g, 'o) parallel_context \<Rightarrow> ('a, 'g) planned_node list \<Rightarrow> bool \<Rightarrow> fan_state \<Rightarrow> bool" where
  "fan_run cx children cancelled \<equiv> (fan_step cx children)\<^sup>*\<^sup>* (initial_fan children cancelled)"

definition all_settled :: "fan_state \<Rightarrow> bool" where
  "all_settled st \<longleftrightarrow> (\<forall>p \<in> set (fn_phases st). \<exists>r. p = Settled r)"

fun settled_result :: "child_phase \<Rightarrow> node_result option" where
  "settled_result (Settled r) = r"
| "settled_result p = None"

definition outcomes_of :: "fan_state \<Rightarrow> node_result option list" where
  "outcomes_of st = map settled_result (fn_phases st)"

subsection \<open>The result\<close>

definition parallelEvidence :: "string \<Rightarrow> node_result list \<Rightarrow> node_result list \<Rightarrow> string list" where
  "parallelEvidence nodeId results failed =
     (if failed = [] then
        [''parallel node '' @ quoted nodeId @ '' completed '' @ show_nat (length results) @ '' child nodes'']
      else (''parallel node '' @ quoted nodeId @ '' failed with '' @ show_nat (length failed) @ '' failed child nodes'')
             # concat (map nr_evidence failed))"

definition parallelOutput :: "('a, 'g) planned_node list \<Rightarrow> node_result list \<Rightarrow> json" where
  "parallelOutput children results =
     (let outputsByNode = new_map (map (\<lambda>result. (nr_nodeId result, nr_output result)) results) in
      JObj [(''children'', JObj (new_map (List.map_filter (\<lambda>child.
        map_option (\<lambda>out. (pn_id child, JStr out)) (map_of outputsByNode (pn_id child))) children)))])"

definition aggregateParallelResult ::
  "(json \<Rightarrow> string) \<Rightarrow> string \<Rightarrow> ('a, 'g) planned_node list \<Rightarrow> node_result option list \<Rightarrow> attempt_result" where
  "aggregateParallelResult stringify nodeId children outcomes =
     (let results = List.map_filter (\<lambda>r. r) outcomes; failed = filter (\<lambda>r. nr_status r = ResultFailed) results in
      \<lparr>ar_evidence = parallelEvidence nodeId results failed, ar_exitCode = (if failed \<noteq> [] then 1 else 0),
       ar_handoff = None, ar_output = stringify (parallelOutput children results), ar_timedOut = None\<rparr>)"

text \<open>
  \<open>parallelNodeProgram\<close> around the fan-out: the results of a node whose fan-out ends in the state \<open>st\<close>.
\<close>

definition parallel_answer ::
  "(json \<Rightarrow> string) \<Rightarrow> ('a, 'g) planned_node \<Rightarrow> ('a, 'g, 'o) parallel_context \<Rightarrow> bool \<Rightarrow> attempt_result \<Rightarrow> bool" where
  "parallel_answer stringify node cx cancelled answer \<longleftrightarrow>
     (let children = or_else (pn_children node) [] in
      if children = [] then
        answer = \<lparr>ar_evidence = [''parallel node '' @ quoted (pn_id node) @ '' has no children''], ar_exitCode = 1,
                  ar_handoff = None, ar_output = [], ar_timedOut = None\<rparr>
      else \<exists>st. fan_run (createParallelChildContext cx (pn_id node) children) children cancelled st \<and> all_settled st \<and>
             answer = aggregateParallelResult stringify (pn_id node) children (outcomes_of st))"

subsection \<open>The invariant of the fan-out\<close>

lemma filter_length_update:
  "i < length xs \<Longrightarrow> length (filter P (xs[i := y])) + (if P (xs ! i) then 1 else 0) = length (filter P xs) + (if P y then 1 else 0)"
proof (induction xs arbitrary: i)
  case (Cons x xs)
  then show ?case by (cases i) auto
qed simp

definition has_failed :: "fan_state \<Rightarrow> bool" where
  "has_failed st \<longleftrightarrow> (\<exists>r. Settled (Some r) \<in> set (fn_phases st) \<and> nr_status r = ResultFailed)"

definition fan_inv :: "('a, 'g, 'o) parallel_context \<Rightarrow> ('a, 'g) planned_node list \<Rightarrow> fan_state \<Rightarrow> bool" where
  "fan_inv cx children st \<longleftrightarrow>
     length (fn_phases st) = length children \<and>
     (\<forall>n. px_maxParallelNodes cx = Some n \<longrightarrow> in_flight st \<le> n) \<and>
     (\<forall>category permits. map_of (px_byCategory cx) category = Some permits \<longrightarrow> holders cx children category st \<le> permits) \<and>
     (\<forall>i r. i < length children \<longrightarrow> fn_phases st ! i = Settled (Some r) \<longrightarrow> nr_nodeId r = pn_id (children ! i)) \<and>
     (Settled None \<in> set (fn_phases st) \<longrightarrow> gate_aborted cx st) \<and>
     (fn_aborted st \<longrightarrow> fn_cancelled st \<or> px_failFast cx \<and> has_failed st) \<and>
     (px_failFast cx \<and> has_failed st \<longrightarrow> fn_aborted st)"

lemma in_flight_update:
  assumes "i < length (fn_phases st)"
  shows "in_flight (set_phase i p st) + (if fn_phases st ! i \<in> {AwaitsPermit, RunsChild} then 1 else 0) =
    in_flight st + (if p \<in> {AwaitsPermit, RunsChild} then 1 else 0)"
  using filter_length_update [OF assms, of "\<lambda>p. p = AwaitsPermit \<or> p = RunsChild" p]
  by (simp add: in_flight_def set_phase_def)

lemma holders_update:
  assumes "i < length children" "length (fn_phases st) = length children"
  shows "holders cx children category (set_phase i p st) +
      (if fn_phases st ! i = RunsChild \<and> map_option fst (category_permits cx (children ! i)) = Some category then 1 else 0) =
    holders cx children category st +
      (if p = RunsChild \<and> map_option fst (category_permits cx (children ! i)) = Some category then 1 else 0)"
proof -
  have "zip children ((fn_phases st)[i := p]) = (zip children (fn_phases st))[i := (children ! i, p)]"
    by (metis list_update_id zip_update)
  then show ?thesis
    using filter_length_update [of i "zip children (fn_phases st)"
        "\<lambda>(child, p). p = RunsChild \<and> map_option fst (category_permits cx child) = Some category" "(children ! i, p)"] assms
    by (simp add: holders_def set_phase_def)
qed

lemma set_update_cases: "x \<in> set (xs[i := y]) \<Longrightarrow> x = y \<or> x \<in> set xs"
  using set_update_subset_insert [of xs i y] by blast

lemma in_set_update:
  assumes "i < length xs" "xs ! i \<noteq> x"
  shows "x \<in> set (xs[i := y]) \<longleftrightarrow> x = y \<or> x \<in> set xs"
proof
  assume "x = y \<or> x \<in> set xs"
  then show "x \<in> set (xs[i := y])"
  proof
    assume "x \<in> set xs"
    then obtain j where "j < length xs" "xs ! j = x" by (auto simp: in_set_conv_nth)
    moreover have "i \<noteq> j" using assms(2) \<open>xs ! j = x\<close> by auto
    ultimately show ?thesis by (auto simp: in_set_conv_nth intro!: exI [of _ j])
  qed (use assms in \<open>simp add: set_update_memI\<close>)
qed (rule set_update_cases)

lemma has_failed_update:
  assumes "i < length (fn_phases st)" "\<forall>r. fn_phases st ! i \<noteq> Settled (Some r)"
  shows "has_failed (set_phase i p st) \<longleftrightarrow> has_failed st \<or> (\<exists>r. p = Settled (Some r) \<and> nr_status r = ResultFailed)"
  using assms(2) by (auto simp: has_failed_def set_phase_def in_set_update [OF assms(1)])

lemma permits_of_category:
  "category_permits cx child = Some (category, permits) \<Longrightarrow> map_of (px_byCategory cx) category = Some permits"
  by (auto simp: category_permits_def split: option.splits)

lemma category_permits_fst:
  "map_option fst (category_permits cx child) = Some category \<Longrightarrow> map_of (px_byCategory cx) category = Some permits \<Longrightarrow>
   category_permits cx child = Some (category, permits)"
  using permits_of_category by fastforce

lemma fan_inv_update:
  assumes inv: "fan_inv cx children st" and i: "i < length children" and phase: "\<forall>r. fn_phases st ! i \<noteq> Settled r"
    and phases: "fn_phases st' = (fn_phases st)[i := p]" and cancelled: "fn_cancelled st' = fn_cancelled st"
    and limit: "\<forall>n. px_maxParallelNodes cx = Some n \<longrightarrow> in_flight (set_phase i p st) \<le> n"
    and caps: "\<forall>category permits. map_of (px_byCategory cx) category = Some permits \<longrightarrow>
      holders cx children category (set_phase i p st) \<le> permits"
    and result: "\<forall>r. p = Settled (Some r) \<longrightarrow> nr_nodeId r = pn_id (children ! i)"
    and skipped: "p = Settled None \<longrightarrow> gate_aborted cx st"
    and aborted: "fn_aborted st' = (fn_aborted st \<or> px_failFast cx \<and> (\<exists>r. p = Settled (Some r) \<and> nr_status r = ResultFailed))"
  shows "fan_inv cx children st'"
proof -
  have len: "length (fn_phases st) = length children" using inv by (simp add: fan_inv_def)
  have same: "in_flight st' = in_flight (set_phase i p st)" "holders cx children category st' = holders cx children category (set_phase i p st)"
    "has_failed st' = has_failed (set_phase i p st)" for category
    by (simp_all add: in_flight_def holders_def has_failed_def set_phase_def phases)
  have failed: "has_failed (set_phase i p st) \<longleftrightarrow> has_failed st \<or> (\<exists>r. p = Settled (Some r) \<and> nr_status r = ResultFailed)"
    using i len phase by (intro has_failed_update) auto
  have none: "Settled None \<in> set (fn_phases st') \<longrightarrow> gate_aborted cx st'"
    using inv skipped aborted set_update_cases [of "Settled None" "fn_phases st" i p]
    unfolding phases fan_inv_def gate_aborted_def by auto
  have ids: "nr_nodeId r = pn_id (children ! j)" if "j < length children" "fn_phases st' ! j = Settled (Some r)" for j r
    using that inv result i len unfolding phases fan_inv_def by (cases "i = j") auto
  have shape: "fn_aborted st' \<longrightarrow> fn_cancelled st' \<or> px_failFast cx \<and> has_failed st'"
    "px_failFast cx \<and> has_failed st' \<longrightarrow> fn_aborted st'"
    using inv unfolding same failed aborted cancelled fan_inv_def by blast+
  show ?thesis
    unfolding fan_inv_def using limit caps ids none shape len by (simp only: same phases) simp
qed

lemma flight_le:
  assumes "i < length (fn_phases st)" "p \<in> {AwaitsPermit, RunsChild} \<longrightarrow> fn_phases st ! i \<in> {AwaitsPermit, RunsChild}"
  shows "in_flight (set_phase i p st) \<le> in_flight st"
  using in_flight_update [OF assms(1), of p] assms(2) by (auto split: if_splits)

lemma holders_le:
  assumes "i < length children" "length (fn_phases st) = length children" "p \<noteq> RunsChild"
  shows "holders cx children category (set_phase i p st) \<le> holders cx children category st"
  using holders_update [OF assms(1,2), of cx category p] assms(3) by auto

lemma fan_inv_len: "fan_inv cx children st \<Longrightarrow> length (fn_phases st) = length children"
  by (simp add: fan_inv_def)

lemma fan_inv_limit: "fan_inv cx children st \<Longrightarrow> px_maxParallelNodes cx = Some n \<Longrightarrow> in_flight st \<le> n"
  by (simp add: fan_inv_def)

lemma fan_inv_caps:
  "fan_inv cx children st \<Longrightarrow> map_of (px_byCategory cx) category = Some permits \<Longrightarrow> holders cx children category st \<le> permits"
  by (simp add: fan_inv_def)

lemma fan_inv_start:
  assumes inv: "fan_inv cx children st" and i: "i < length children" and phase: "fn_phases st ! i = NotStarted"
    and limit: "limit_free cx st"
  shows "fan_inv cx children (start_child cx i st)"
  unfolding start_child_def
proof (rule fan_inv_update [OF inv i])
  let ?p = "if gate_aborted cx st then Settled None else AwaitsPermit"
  note len = fan_inv_len [OF inv]
  show "\<forall>n. px_maxParallelNodes cx = Some n \<longrightarrow> in_flight (set_phase i ?p st) \<le> n"
    using in_flight_update [of i st ?p] i len phase limit fan_inv_limit [OF inv] by (auto simp: limit_free_def split: if_splits)
  show "\<forall>category permits. map_of (px_byCategory cx) category = Some permits \<longrightarrow>
      holders cx children category (set_phase i ?p st) \<le> permits"
    using holders_le [OF i len, of ?p cx] fan_inv_caps [OF inv] by (metis child_phase.distinct(7,11) order_trans)
qed (use phase in \<open>auto simp: set_phase_def\<close>)

lemma fan_inv_acquire:
  assumes inv: "fan_inv cx children st" and i: "i < length children" and phase: "fn_phases st ! i = AwaitsPermit"
    and free: "permit_free cx children (children ! i) st"
  shows "fan_inv cx children (set_phase i RunsChild st)"
proof (rule fan_inv_update [OF inv i])
  note len = fan_inv_len [OF inv]
  show "\<forall>n. px_maxParallelNodes cx = Some n \<longrightarrow> in_flight (set_phase i RunsChild st) \<le> n"
    using flight_le [of i st RunsChild] i len phase fan_inv_limit [OF inv] by fastforce
  show "\<forall>category permits. map_of (px_byCategory cx) category = Some permits \<longrightarrow>
      holders cx children category (set_phase i RunsChild st) \<le> permits"
  proof (intro allI impI)
    fix category permits assume permits: "map_of (px_byCategory cx) category = Some permits"
    show "holders cx children category (set_phase i RunsChild st) \<le> permits"
    proof (cases "map_option fst (category_permits cx (children ! i)) = Some category")
      case True
      with category_permits_fst [OF this permits] free have "holders cx children category st < permits"
        by (simp add: permit_free_def)
      then show ?thesis using holders_update [OF i len, of cx category RunsChild] phase True by simp
    next
      case False
      then show ?thesis using holders_update [OF i len, of cx category RunsChild] fan_inv_caps [OF inv permits] by simp
    qed
  qed
qed (use phase in \<open>auto simp: set_phase_def\<close>)

lemma fan_inv_finish:
  assumes inv: "fan_inv cx children st" and i: "i < length children" and phase: "fn_phases st ! i = RunsChild"
    and result: "nr_nodeId result = pn_id (children ! i)"
  shows "fan_inv cx children (finish_child cx i result st)"
proof (rule fan_inv_update [OF inv i])
  note len = fan_inv_len [OF inv]
  show "\<forall>n. px_maxParallelNodes cx = Some n \<longrightarrow> in_flight (set_phase i (Settled (Some result)) st) \<le> n"
    using flight_le [of i st "Settled (Some result)"] i len fan_inv_limit [OF inv] by fastforce
  show "\<forall>category permits. map_of (px_byCategory cx) category = Some permits \<longrightarrow>
      holders cx children category (set_phase i (Settled (Some result)) st) \<le> permits"
    using holders_le [OF i len, of "Settled (Some result)" cx] fan_inv_caps [OF inv] by (metis child_phase.distinct(11) order_trans)
qed (use phase result in \<open>auto simp: set_phase_def finish_child_def\<close>)

lemma fan_inv_cancel:
  assumes "fan_inv cx children st"
  shows "fan_inv cx children (st\<lparr>fn_aborted := True, fn_cancelled := True\<rparr>)"
  using assms by (auto simp: fan_inv_def in_flight_def holders_def has_failed_def gate_aborted_def)

lemma fan_inv_initial: "fan_inv cx children (initial_fan children cancelled)"
proof -
  have none: "filter P (replicate n NotStarted) = []" if "\<not> P NotStarted" for P :: "child_phase \<Rightarrow> bool" and n
    using that by simp
  have "filter (\<lambda>(child, p). p = RunsChild \<and> Q child) (zip children (replicate (length children) NotStarted)) = []" for Q
    by (auto simp: filter_empty_conv dest: set_zip_rightD)
  then show ?thesis
    by (auto simp: fan_inv_def initial_fan_def in_flight_def holders_def has_failed_def gate_aborted_def)
qed

lemma fan_inv_step:
  assumes "fan_step cx children st st'" "fan_inv cx children st"
  shows "fan_inv cx children st'"
  using assms by (induction rule: fan_step.induct) (auto intro: fan_inv_start fan_inv_acquire fan_inv_finish fan_inv_cancel)

lemma fan_inv_run:
  assumes "fan_run cx children cancelled st"
  shows "fan_inv cx children st"
  using assms by (induction rule: rtranclp_induct) (auto intro: fan_inv_initial fan_inv_step)


subsection \<open>The aggregated result\<close>

definition answers :: "('a, 'g) planned_node \<Rightarrow> child_phase \<Rightarrow> bool" where
  "answers child p \<longleftrightarrow> (\<forall>r. p = Settled (Some r) \<longrightarrow> nr_nodeId r = pn_id child)"

definition results_of :: "child_phase list \<Rightarrow> node_result list" where
  "results_of phases = List.map_filter settled_result phases"

lemma results_of_simps [simp]:
  "results_of [] = []"
  "results_of (p # ps) = (case settled_result p of None \<Rightarrow> results_of ps | Some r \<Rightarrow> r # results_of ps)"
  by (simp_all add: results_of_def List.map_filter_simps split: option.split)

lemma settled_Some: "settled_result p = Some r \<longleftrightarrow> p = Settled (Some r)"
  by (cases p) auto

lemma in_results: "r \<in> set (results_of phases) \<longleftrightarrow> Settled (Some r) \<in> set phases"
proof (induction phases)
  case (Cons p phases)
  then show ?case by (cases "settled_result p") (auto simp: settled_Some)
qed simp

lemma results_ids:
  assumes "list_all2 answers children phases"
  shows "nr_nodeId ` set (results_of phases) \<subseteq> pn_id ` set children"
  using assms by (induction rule: list_all2_induct) (auto simp: answers_def settled_Some split: option.splits)

lemma results_all:
  assumes "list_all2 answers children phases" "\<forall>p \<in> set phases. settled_result p \<noteq> None"
  shows "map nr_nodeId (results_of phases) = map pn_id children"
  using assms by (induction rule: list_all2_induct) (auto simp: answers_def settled_Some)

lemma results_distinct:
  assumes "list_all2 answers children phases" "distinct (map pn_id children)"
  shows "distinct (map nr_nodeId (results_of phases)) \<and>
    map nr_nodeId (results_of phases) = filter (\<lambda>i. i \<in> nr_nodeId ` set (results_of phases)) (map pn_id children)"
  using assms
proof (induction rule: list_all2_induct)
  case (Cons child children p phases)
  have fresh: "pn_id child \<notin> nr_nodeId ` set (results_of phases)" using Cons.prems results_ids [OF Cons.hyps(2)] by auto
  have same: "filter (\<lambda>i. i = pn_id child \<or> i \<in> nr_nodeId ` set (results_of phases)) (map pn_id children) =
      filter (\<lambda>i. i \<in> nr_nodeId ` set (results_of phases)) (map pn_id children)"
  proof (rule filter_cong [OF refl])
    fix i assume "i \<in> set (map pn_id children)"
    moreover have "pn_id child \<notin> set (map pn_id children)" using Cons.prems unfolding list.map distinct.simps by (rule conjunct1)
    ultimately have "i \<noteq> pn_id child" by metis
    then show "(i = pn_id child \<or> i \<in> nr_nodeId ` set (results_of phases)) = (i \<in> nr_nodeId ` set (results_of phases))" by simp
  qed
  have i: "nr_nodeId r = pn_id child" if "settled_result p = Some r" for r
    using that Cons.hyps(1) by (simp add: answers_def settled_Some)
  show ?case
  proof (cases "settled_result p")
    case None
    then show ?thesis using Cons fresh by simp
  next
    case (Some r)
    have "map nr_nodeId (results_of (p # phases)) = pn_id child # map nr_nodeId (results_of phases)"
      using Some i [OF Some] by simp
    moreover have "nr_nodeId ` set (results_of (p # phases)) = insert (pn_id child) (nr_nodeId ` set (results_of phases))"
      using Some i [OF Some] by simp
    ultimately show ?thesis using Cons.IH Cons.prems fresh same by simp
  qed
qed simp

lemma map_filter_cong: "(\<And>x. x \<in> set xs \<Longrightarrow> f x = g x) \<Longrightarrow> List.map_filter f xs = List.map_filter g xs"
  by (induction xs) (auto simp: List.map_filter_simps split: option.split)

lemma results_lookup:
  assumes "list_all2 answers children phases" "distinct (map pn_id children)"
  shows "List.map_filter (\<lambda>child. map_option (\<lambda>out. (pn_id child, JStr out))
      (map_of (map (\<lambda>r. (nr_nodeId r, nr_output r)) (results_of phases)) (pn_id child))) children =
    map (\<lambda>r. (nr_nodeId r, JStr (nr_output r))) (results_of phases)"
  using assms
proof (induction rule: list_all2_induct)
  case (Cons child children p phases)
  let ?entries = "\<lambda>rs. map (\<lambda>r. (nr_nodeId r, nr_output r)) rs"
  have fresh: "pn_id child \<notin> nr_nodeId ` set (results_of phases)" using Cons.prems results_ids [OF Cons.hyps(2)] by auto
  show ?case
  proof (cases "settled_result p")
    case None
    have "map_of (?entries (results_of phases)) (pn_id child) = None"
      using fresh by (simp add: map_of_eq_None_iff image_image)
    then show ?thesis using Cons None by (simp add: List.map_filter_simps)
  next
    case (Some r)
    have i: "nr_nodeId r = pn_id child" using Cons.hyps(1) Some by (simp add: answers_def settled_Some)
    have "List.map_filter (\<lambda>child. map_option (\<lambda>out. (pn_id child, JStr out))
          (map_of (?entries (r # results_of phases)) (pn_id child))) children =
        List.map_filter (\<lambda>child. map_option (\<lambda>out. (pn_id child, JStr out))
          (map_of (?entries (results_of phases)) (pn_id child))) children"
    proof (rule map_filter_cong)
      fix other assume "other \<in> set children"
      then have "pn_id other \<noteq> pn_id child" using Cons.prems by (metis distinct.simps(2) image_eqI list.simps(9) set_map)
      then show "map_option (\<lambda>out. (pn_id other, JStr out)) (map_of (?entries (r # results_of phases)) (pn_id other)) =
          map_option (\<lambda>out. (pn_id other, JStr out)) (map_of (?entries (results_of phases)) (pn_id other))"
        using i by simp
    qed
    then show ?thesis using Cons Some i by (simp add: List.map_filter_simps)
  qed
qed (simp add: List.map_filter_simps)

lemma map_filter_settled: "List.map_filter (\<lambda>r. r) (outcomes_of st) = results_of (fn_phases st)"
  by (simp add: outcomes_of_def results_of_def List.map_filter_def filter_map comp_def)

lemma fan_answers:
  assumes "fan_inv cx children st"
  shows "list_all2 answers children (fn_phases st)"
  using assms by (auto simp: list_all2_conv_all_nth fan_inv_def answers_def)

text \<open>
  The result of a fan-out whose children have all settled is the union of theirs: its output has exactly the
  children that ran, in order and with their outputs; its exit code is 0 exactly when none of them failed;
  without fail-fast every child ran; and in a run that is not cancelled an exit code 0 means that every child
  ran and passed.
\<close>

theorem parallel_result_exact:
  assumes "fan_run cx children cancelled st" "all_settled st" "distinct (map pn_id children)"
    and "answer = aggregateParallelResult stringify nodeId children (outcomes_of st)"
    and "results = results_of (fn_phases st)"
  shows "ar_output answer =
       stringify (JObj [(''children'', JObj (map (\<lambda>r. (nr_nodeId r, JStr (nr_output r))) results))])
     \<and> map nr_nodeId results = filter (\<lambda>i. i \<in> nr_nodeId ` set results) (map pn_id children)
     \<and> (ar_exitCode answer = 0 \<longleftrightarrow> (\<forall>r \<in> set results. nr_status r = ResultPassed))
     \<and> (\<not> px_failFast cx \<longrightarrow> map nr_nodeId results = map pn_id children)
     \<and> (\<not> fn_cancelled st \<and> ar_exitCode answer = 0 \<longrightarrow> map nr_nodeId results = map pn_id children)"
proof -
  note inv = fan_inv_run [OF assms(1)]
  note answers = fan_answers [OF inv]
  note dist = results_distinct [OF answers assms(3)]
  have exit_code: "ar_exitCode answer = 0 \<longleftrightarrow> (\<forall>r \<in> set results. nr_status r = ResultPassed)"
    unfolding assms(4,5) aggregateParallelResult_def Let_def map_filter_settled by (auto simp: filter_empty_conv)
  have keys: "distinct (map fst (map (\<lambda>r. (nr_nodeId r, nr_output r)) (results_of (fn_phases st))))"
    using dist [THEN conjunct1] by (simp add: comp_def)
  have named: "distinct (map fst (map (\<lambda>r. (nr_nodeId r, JStr (nr_output r))) (results_of (fn_phases st))))"
    using dist [THEN conjunct1] unfolding map_map comp_def fst_conv .
  have lookup: "List.map_filter (\<lambda>child. map_option (\<lambda>out. (pn_id child, JStr out))
      (map_of (new_map (map (\<lambda>r. (nr_nodeId r, nr_output r)) results)) (pn_id child))) children =
    map (\<lambda>r. (nr_nodeId r, JStr (nr_output r))) results"
    unfolding assms(5) new_map_distinct [OF keys] by (rule results_lookup [OF answers assms(3)])
  have out: "ar_output answer = stringify (JObj [(''children'', JObj (map (\<lambda>r. (nr_nodeId r, JStr (nr_output r))) results))])"
    unfolding assms(4) aggregateParallelResult_def Let_def map_filter_settled parallelOutput_def
    using lookup named unfolding assms(5) by (simp add: new_map_distinct)
  have ran: "map nr_nodeId results = map pn_id children" if "Settled None \<notin> set (fn_phases st)"
  proof -
    have "settled_result p \<noteq> None" if p: "p \<in> set (fn_phases st)" for p
    proof -
      obtain r where "p = Settled r" using assms(2) p by (auto simp: all_settled_def)
      then show ?thesis using \<open>Settled None \<notin> set (fn_phases st)\<close> p by (cases r) auto
    qed
    then show ?thesis unfolding assms(5) by (intro results_all [OF answers]) blast
  qed
  have skipped: "px_failFast cx \<and> (fn_cancelled st \<or> has_failed st)" if "Settled None \<in> set (fn_phases st)"
    using inv that unfolding fan_inv_def gate_aborted_def by blast
  have failed: "\<not> (\<forall>r \<in> set results. nr_status r = ResultPassed)" if "has_failed st"
  proof -
    from that obtain r where "r \<in> set results" "nr_status r = ResultFailed"
      unfolding has_failed_def assms(5) in_results [symmetric] by blast
    then show ?thesis by force
  qed
  show ?thesis using out dist exit_code ran skipped failed unfolding assms(5) by blast
qed

subsection \<open>The fan-out ends\<close>

fun phase_work :: "child_phase \<Rightarrow> nat" where
  "phase_work NotStarted = 3"
| "phase_work AwaitsPermit = 2"
| "phase_work RunsChild = 1"
| "phase_work (Settled r) = 0"

definition fan_work :: "fan_state \<Rightarrow> nat" where
  "fan_work st = sum_list (map phase_work (fn_phases st)) + (if fn_cancelled st then 0 else 1)"

lemma phase_work_update:
  "i < length phases \<Longrightarrow> phase_work p < phase_work (phases ! i) \<Longrightarrow>
   sum_list (map phase_work (phases[i := p])) < sum_list (map phase_work phases)"
proof (induction phases arbitrary: i)
  case (Cons q phases)
  then show ?case by (cases i) auto
qed simp

lemma fan_step_works:
  assumes "fan_step cx children st st'" "length (fn_phases st) = length children"
  shows "fan_work st' < fan_work st \<and> length (fn_phases st') = length children"
  using assms
proof (induction rule: fan_step.induct)
  case (Start i st)
  then show ?case by (simp add: fan_work_def start_child_def set_phase_def phase_work_update)
next
  case (Acquire i st)
  then show ?case by (simp add: fan_work_def set_phase_def phase_work_update)
next
  case (Finish i st result)
  then show ?case by (simp add: fan_work_def finish_child_def set_phase_def phase_work_update)
qed (simp add: fan_work_def)

lemma fan_steps_bound:
  assumes "(fan_step cx children ^^ k) (initial_fan children cancelled) st"
  shows "k + fan_work st \<le> fan_work (initial_fan children cancelled) \<and> length (fn_phases st) = length children"
  using assms
proof (induction k arbitrary: st)
  case 0
  then show ?case by (auto simp: initial_fan_def)
next
  case (Suc k)
  then obtain st1 where "(fan_step cx children ^^ k) (initial_fan children cancelled) st1" "fan_step cx children st1 st"
    by auto
  with Suc.IH fan_step_works show ?case by fastforce
qed

lemma no_runner_no_holders: "RunsChild \<notin> set (fn_phases st) \<Longrightarrow> holders cx children category st = 0"
  by (auto simp: holders_def filter_empty_conv dest: set_zip_rightD)

text \<open>
  A fan-out cannot get stuck and ends: no run of it takes more than three steps for each child and one for
  the cancellation, and as long as a child has not settled, with a positive limit and positive caps, some child
  can start, get its permit or finish.
\<close>

theorem fan_out_completes:
  assumes "(fan_step cx children ^^ k) (initial_fan children cancelled) st"
    and "px_maxParallelNodes cx \<noteq> Some 0" "\<forall>(category, permits) \<in> set (px_byCategory cx). 0 < permits"
  shows "k \<le> 3 * length children + 1 \<and>
     (all_settled st \<or> (\<exists>st'. fan_step cx children st st' \<and> fn_phases st' \<noteq> fn_phases st))"
proof
  have work: "fan_work (initial_fan children cancelled) \<le> 3 * length children + 1"
    by (simp add: fan_work_def initial_fan_def sum_list_replicate map_replicate_const)
  show "k \<le> 3 * length children + 1" using fan_steps_bound [OF assms(1)] work by linarith
  have len: "length (fn_phases st) = length children" using fan_steps_bound [OF assms(1)] by blast
  show "all_settled st \<or> (\<exists>st'. fan_step cx children st st' \<and> fn_phases st' \<noteq> fn_phases st)"
  proof (rule disjCI)
    assume stuck: "\<nexists>st'. fan_step cx children st st' \<and> fn_phases st' \<noteq> fn_phases st"
    have changes: "fn_phases (set_phase i p st) \<noteq> fn_phases st" if "i < length children" "fn_phases st ! i \<noteq> p" for i p
      using that len by (auto simp: set_phase_def list_update_same_conv)
    have no_run: "RunsChild \<notin> set (fn_phases st)"
    proof
      assume "RunsChild \<in> set (fn_phases st)"
      then obtain i where i: "i < length children" "fn_phases st ! i = RunsChild" using len by (auto simp: in_set_conv_nth)
      obtain result :: node_result where result: "nr_nodeId result = pn_id (children ! i)" by (meson node_result.select_convs(4))
      have "fn_phases (finish_child cx i result st) \<noteq> fn_phases st"
        using changes [of i "Settled (Some result)"] i by (simp add: finish_child_def)
      with stuck Finish [OF i result] show False by blast
    qed
    have no_wait: "AwaitsPermit \<notin> set (fn_phases st)"
    proof
      assume "AwaitsPermit \<in> set (fn_phases st)"
      then obtain i where i: "i < length children" "fn_phases st ! i = AwaitsPermit" using len by (auto simp: in_set_conv_nth)
      have "permit_free cx children (children ! i) st"
      proof (cases "category_permits cx (children ! i)")
        case None
        then show ?thesis by (simp add: permit_free_def)
      next
        case (Some bound)
        obtain category permits where b: "bound = (category, permits)" by (cases bound)
        have "(category, permits) \<in> set (px_byCategory cx)"
          using Some unfolding b by (intro map_of_SomeD [OF permits_of_category])
        then have "0 < permits" using assms(3) by blast
        then show ?thesis using Some no_runner_no_holders [OF no_run, of cx children category] by (simp add: permit_free_def b)
      qed
      with stuck Acquire [OF i] changes [of i RunsChild] i show False by auto
    qed
    have no_start: "NotStarted \<notin> set (fn_phases st)"
    proof
      assume "NotStarted \<in> set (fn_phases st)"
      then have ex: "\<exists>i. i < length children \<and> fn_phases st ! i = NotStarted" using len by (auto simp: in_set_conv_nth)
      define i where "i = (LEAST i. i < length children \<and> fn_phases st ! i = NotStarted)"
      have i: "i < length children" "fn_phases st ! i = NotStarted" unfolding i_def using LeastI_ex [OF ex] by blast+
      have first: "\<forall>j < i. fn_phases st ! j \<noteq> NotStarted"
        unfolding i_def using not_less_Least LeastI_ex [OF ex] by (metis (mono_tags, lifting) order.strict_trans)
      have "in_flight st = 0" using no_run no_wait by (auto simp: in_flight_def filter_empty_conv)
      then have "limit_free cx st" using assms(2) by (auto simp: limit_free_def split: option.split)
      then have "fan_step cx children st (start_child cx i st)" using Start [OF i first] by blast
      moreover have "fn_phases (start_child cx i st) \<noteq> fn_phases st"
        unfolding start_child_def by (rule changes) (use i in simp_all)
      ultimately show False using stuck by blast
    qed
    show "all_settled st" unfolding all_settled_def
    proof
      fix p assume "p \<in> set (fn_phases st)"
      with no_run no_wait no_start show "\<exists>r. p = Settled r" by (cases p) auto
    qed
  qed
qed

text \<open>
  Once the gate of a fail-fast node is closed, no child passes it any more: a child that has not started
  by then is left out of the results.
\<close>

theorem fail_fast_closes_gate:
  assumes "(fan_step cx children)\<^sup>*\<^sup>* st st'" "gate_aborted cx st" "length (fn_phases st) = length children"
    and "i < length children" "fn_phases st ! i = NotStarted"
  shows "gate_aborted cx st' \<and> fn_phases st' ! i \<in> {NotStarted, Settled None}"
proof -
  have "gate_aborted cx st' \<and> length (fn_phases st') = length children \<and> fn_phases st' ! i \<in> {NotStarted, Settled None}"
    using assms(1)
  proof (induction rule: rtranclp_induct)
    case base
    then show ?case using assms by simp
  next
    case (step st1 st2)
    from step.hyps(2) step.IH assms(4) show ?case
      by (cases rule: fan_step.cases) (auto simp: start_child_def finish_child_def set_phase_def gate_aborted_def nth_list_update split: if_splits)
  qed
  then show ?thesis by simp
qed

subsection \<open>Leases\<close>

lemma bracket_held:
  fixes held :: "'s \<Rightarrow> 'l list"
  assumes "\<And>r s s1. acquire s = (r, s1) \<Longrightarrow> held s1 = (case r of Inr l \<Rightarrow> l # held s | Inl e \<Rightarrow> held s)"
    and "\<And>l s. held (snd (uses l s)) = held s"
    and "\<And>l s r s1. held s = l # tl (held s) \<Longrightarrow> release l s = (r, s1) \<Longrightarrow> held s1 = tl (held s)"
  shows "held (snd (acquireUseRelease acquire uses release s)) = held s"
proof -
  obtain r s1 where acquired: "acquire s = (r, s1)" by fastforce
  show ?thesis
  proof (cases r)
    case (Inl e)
    then show ?thesis using assms(1) [OF acquired] acquired by (simp add: acquireUseRelease_def)
  next
    case (Inr l)
    have s1: "held s1 = l # held s" using assms(1) [OF acquired] Inr by simp
    obtain q s2 where used: "uses l s1 = (q, s2)" by fastforce
    have s2: "held s2 = l # held s" using assms(2) [of l s1] used s1 by simp
    obtain t s3 where released: "release l s2 = (t, s3)" by fastforce
    have "held s3 = held s" using assms(3) [OF _ released] s2 by simp
    then show ?thesis using acquired used released Inr
      by (cases q; cases t) (simp_all add: acquireUseRelease_def)
  qed
qed

text \<open>
  A child leaves no lease behind: whatever its execution answers, also when it or a release fails, the work
  tree and the agent runtime that were leased for it are released, in the order opposite to their acquisition.
\<close>

theorem child_leases_released:
  fixes held :: "'s \<Rightarrow> string list"
  assumes "\<And>opts s r s1. pw_createChild sv opts s = (r, s1) \<Longrightarrow> held s1 = (case r of Inr path \<Rightarrow> path # held s | Inl e \<Rightarrow> held s)"
    and "\<And>path s r s1. pw_leaseRuntime sv path s = (r, s1) \<Longrightarrow> held s1 = (case r of Inr lease \<Rightarrow> lease # held s | Inl e \<Rightarrow> held s)"
    and "\<And>path s r s1. held s = path # rest s \<Longrightarrow> pw_releaseChild sv path s = (r, s1) \<Longrightarrow> held s1 = rest s"
    and "\<And>lease s r s1. held s = lease # rest s \<Longrightarrow> pw_releaseRuntime sv lease s = (r, s1) \<Longrightarrow> held s1 = rest s"
    and "\<And>child cx s r s1. pw_executeNode sv child cx s = (r, s1) \<Longrightarrow> held s1 = held s"
    and "rest = (\<lambda>s. tl (held s))"
  shows "held (snd (runChildInWorktree sv child cx s)) = held s"
proof -
  have execute: "held (snd (executeChild sv c x t)) = held t" for c x t
    unfolding executeChild_def by (cases "pw_executeNode sv c x t") (simp add: assms(5))
  have lease: "held (snd (runChildWithWorktreeLease sv child cx path t)) = held t" for path t
    unfolding runChildWithWorktreeLease_def Let_def
    using execute bracket_held [of "pw_leaseRuntime sv path" held, OF assms(2) execute assms(4) [unfolded assms(6)]] by auto
  show ?thesis
    unfolding runChildInWorktree_def using execute bracket_held [of "pw_createChild sv (childLeaseOptions child cx)" held, OF assms(1) lease assms(3) [unfolded assms(6)]] by auto
qed

subsection \<open>The gates of a child\<close>

text \<open>
  A required acceptance gate of a child of a parallel node never looks at the task of the child: the graph
  of the plan has the nodes of the top level only, so that in a run without a task the gate fails for want of
  criteria, whatever criteria the child declares and whatever it reports.
\<close>

theorem child_acceptance_ignores_its_task:
  fixes config :: "(artifact_spec list, gate_spec list) pipeline_config" and child :: gated_node
  assumes "graphlib_spec build" "nonempty_ids config" "compileWorkflowPlan build config requested = Inr plan"
    and "gc_graph gx = ep_graph plan" "pn_id child \<notin> pn_id ` set (ep_topologicalOrder plan)"
    and "gsp_body gate = AcceptanceGate src key" "gsp_required gate \<noteq> Some False" "gc_taskContext gx = None"
  shows "\<exists>r. resolveGateResult sv gate gateId (pn_id child) gx attempt s = (Inr r, s) \<and> \<not> gr_passed r \<and>
     gr_reason r = Some ''missing task acceptance context''"
  using assms(1-3)
proof (rule compileWorkflowPlan_Inr)
  fix w order
  let ?nodes = "declared_nodes config (ep_workflowId plan)"
  assume plan: "plan = plan_of build config w (ep_workflowId plan) order"
  have graph: "ep_graph plan = createWorkflowGraph build ?nodes"
    by (subst plan) (simp add: plan_of_def Let_def)
  have ids: "set (dependencyGraphNodeIds (createDependencyGraph build wn_id wn_needs toPlannedNode ?nodes)) = wn_id ` set ?nodes"
    by (rule createDependencyGraph_ids [OF assms(1) refl])
  have "pn_id child \<notin> wn_id ` set ?nodes"
    using assms(5) plan_order_facts [OF assms(1-3)] by simp
  then have "dependencyGraphValue (gc_graph gx) (pn_id child) = None"
    unfolding assms(4) graph createWorkflowGraph_value using ids by (simp add: dependencyGraphValue_def dependencyGraphHasNode_def)
  then show ?thesis
    using assms(6-8)
    by (simp add: resolveGateResult_def evaluateGate_def evaluateAcceptanceGate_def may_return_def may_catch_def basic_result_def)
qed

subsection \<open>Witnesses\<close>

definition green_context :: "(unit, unit, unit) parallel_context" where
  "green_context =
     \<lparr>px_byCategory = [(''green'', 1)], px_executor = None, px_failFast = True, px_maxParallelNodes = Some 2,
      px_parallelBatches = [], px_parentParallelNodeId = None, px_run = sample_context, px_runId = None,
      px_store = initialNodeStateStore ([] :: (unit, unit) planned_node list), px_usesOpencode = True, px_worktreePath = ''/w'', px_worktreesEnabled = True\<rparr>"

definition green_children :: "(unit, unit) planned_node list" where
  "green_children = [toPlannedNode (command_node ''green-a'' []) 0, toPlannedNode (command_node ''green-b'' []) 1]"

definition green_failure :: node_result where
  "green_failure = \<lparr>nr_attempts = 1, nr_evidence = [''exit 2''], nr_exitCode = 2, nr_nodeId = ''green-a'', nr_output = ''no'',
     nr_status = ResultFailed\<rparr>"

definition green_state :: "child_phase list \<Rightarrow> bool \<Rightarrow> fan_state" where
  "green_state phases aborted = \<lparr>fn_phases = phases, fn_aborted = aborted, fn_cancelled = False\<rparr>"

lemma green_children_simps [simp]:
  "length green_children = 2" "pn_id (green_children ! 0) = ''green-a''" "map pn_id green_children = [''green-a'', ''green-b'']"
  by (simp_all add: green_children_def command_node_def)

lemma green_fields [simp]:
  "px_maxParallelNodes green_context = Some 2" "px_byCategory green_context = [(''green'', 1)]" "px_failFast green_context"
  by (simp_all add: green_context_def)

lemma green_initial: "initial_fan green_children False = green_state [NotStarted, NotStarted] False"
  by (simp add: initial_fan_def green_state_def numeral_2_eq_2)

lemma green_start:
  "fan_step green_context green_children (green_state [NotStarted, NotStarted] False) (green_state [AwaitsPermit, NotStarted] False)"
  using Start [of 0 green_children "green_state [NotStarted, NotStarted] False" green_context]
  by (simp add: green_state_def limit_free_def in_flight_def start_child_def set_phase_def gate_aborted_def)

lemma green_acquire:
  "fan_step green_context green_children (green_state [AwaitsPermit, NotStarted] False) (green_state [RunsChild, NotStarted] False)"
proof -
  have "permit_free green_context green_children (green_children ! 0) (green_state [AwaitsPermit, NotStarted] False)" by code_simp
  from Acquire [OF _ _ this] show ?thesis by (simp add: green_state_def set_phase_def)
qed

lemma green_finish:
  "fan_step green_context green_children (green_state [RunsChild, NotStarted] False)
     (green_state [Settled (Some green_failure), NotStarted] True)"
  using Finish [of 0 green_children "green_state [RunsChild, NotStarted] False" green_failure green_context]
  by (simp add: green_state_def finish_child_def set_phase_def green_failure_def)

lemma green_skip:
  "fan_step green_context green_children (green_state [Settled (Some green_failure), NotStarted] True)
     (green_state [Settled (Some green_failure), Settled None] True)"
  using Start [of 1 green_children "green_state [Settled (Some green_failure), NotStarted] True" green_context]
  by (simp add: green_state_def limit_free_def in_flight_def start_child_def set_phase_def gate_aborted_def less_Suc_eq)

lemma green_steps:
  "(fan_step green_context green_children ^^ 2) (initial_fan green_children False) (green_state [RunsChild, NotStarted] False)"
  unfolding green_initial numeral_2_eq_2 using green_start green_acquire by auto

lemma green_run:
  "fan_run green_context green_children False (green_state [Settled (Some green_failure), Settled None] True)"
  unfolding green_initial
  by (meson converse_rtranclp_into_rtranclp rtranclp.rtrancl_refl green_start green_acquire green_finish green_skip)


lemma parallel_result_exact_witness:
  "ar_exitCode (aggregateParallelResult (\<lambda>j. ''json'') ''p'' green_children [Some green_failure, None]) \<noteq> 0"
proof -
  let ?st = "green_state [Settled (Some green_failure), Settled None] True"
  have "all_settled ?st" by (auto simp: all_settled_def green_state_def)
  moreover have "outcomes_of ?st = [Some green_failure, None]" by (simp add: outcomes_of_def green_state_def)
  moreover have "results_of (fn_phases ?st) = [green_failure]"
    by (simp add: results_of_def green_state_def map_filter_def)
  ultimately show ?thesis
    using parallel_result_exact [OF green_run _ _ refl refl, of "\<lambda>j. ''json''" "''p''"] by (simp add: green_failure_def)
qed

lemma fan_out_completes_witness:
  "\<exists>st'. fan_step green_context green_children (green_state [RunsChild, NotStarted] False) st' \<and>
     fn_phases st' \<noteq> [RunsChild, NotStarted]"
  using fan_out_completes [OF green_steps] by (auto simp: green_state_def all_settled_def)

definition stack_services :: "(unit, unit, unit, string list) parallel_services" where
  "stack_services =
     \<lparr>pw_gc = (\<lambda>p s. s), pw_createChild = (\<lambda>opts s. (Inr ''wt'', ''wt'' # s)), pw_releaseChild = (\<lambda>path s. (Inr (), tl s)),
      pw_leaseRuntime = (\<lambda>path s. (Inr ''rt'', ''rt'' # s)), pw_releaseRuntime = (\<lambda>lease s. (Inl (ThrownError ''gone''), tl s)),
      pw_executeNode = (\<lambda>child cx s. (Inr green_failure, s))\<rparr>"

lemma child_leases_released_witness:
  "snd (runChildInWorktree stack_services (green_children ! 0) green_context []) = []"
  by (rule child_leases_released [of stack_services "\<lambda>s. s" tl]) (auto simp: stack_services_def)

definition required_acceptance :: gate_spec where
  "required_acceptance = acceptance_gate\<lparr>gsp_required := None\<rparr>"

definition tasked_child :: "(artifact_spec list, gate_spec list) workflow_node" where
  "tasked_child = WorkflowNode ''c'' (CommandBody [''x'']) None None (Some [required_acceptance]) None None None (Some gated_task) None"

definition tasked_config :: "(artifact_spec list, gate_spec list) pipeline_config" where
  "tasked_config = \<lparr>pc_default_workflow = ''ci'', pc_workflows = [(''ci'', \<lparr>wf_nodes =
     [WorkflowNode ''p'' (ParallelBody [tasked_child]) None None None None None None None None], wf_execution = None\<rparr>)]\<rparr>"

definition gated_build :: "gated_node graph_op list \<Rightarrow> gated_node dep_graph" where
  "gated_build = reference_graph gated"

lemma tasked_plan:
  obtains plan where "compileWorkflowPlan gated_build tasked_config None = Inr plan" "map pn_id (ep_topologicalOrder plan) = [''p'']"
proof -
  have "case compileWorkflowPlan gated_build tasked_config None of Inl e \<Rightarrow> False | Inr plan \<Rightarrow>
      map pn_id (ep_topologicalOrder plan) = [''p'']"
    by code_simp
  then show ?thesis using that by (cases "compileWorkflowPlan gated_build tasked_config None") simp_all
qed

lemma child_acceptance_ignores_its_task_witness:
  "\<exists>plan r s'. compileWorkflowPlan gated_build tasked_config None = Inr plan \<and>
     resolveGateResult (sample_services 0) required_acceptance ''g'' (pn_id (toPlannedNode tasked_child 0))
       (gated_context\<lparr>gc_graph := ep_graph plan, gc_taskContext := None\<rparr>) (gate_attempt 0) (rs_world gated_state) = (Inr r, s') \<and>
     \<not> gr_passed r"
proof -
  obtain plan where plan: "compileWorkflowPlan gated_build tasked_config None = Inr plan"
    and ids: "map pn_id (ep_topologicalOrder plan) = [''p'']" by (rule tasked_plan)
  have "set (map pn_id (ep_topologicalOrder plan)) = {''p''}" unfolding ids by simp
  then have new: "pn_id (toPlannedNode tasked_child 0) \<notin> pn_id ` set (ep_topologicalOrder plan)" by (simp add: tasked_child_def)
  have build: "graphlib_spec gated_build" by (simp add: gated_build_def reference_graph_spec)
  have named: "nonempty_ids tasked_config" by (simp add: nonempty_ids_def tasked_config_def tasked_child_def)
  have gate: "gsp_body required_acceptance = AcceptanceGate \<lparr>js_path = None, js_target = None\<rparr> None"
    "gsp_required required_acceptance \<noteq> Some False"
    by (simp_all add: required_acceptance_def acceptance_gate_def)
  from child_acceptance_ignores_its_task [OF build named plan _ new gate,
      of "gated_context\<lparr>gc_graph := ep_graph plan, gc_taskContext := None\<rparr>" "sample_services 0" "''g''" "gate_attempt 0" "rs_world gated_state"]
  show ?thesis using plan by auto
qed

end
