(* ===== verification/TicketPlans.thy ===== *)
theory TicketPlans
  imports Tickets TicketStore NodeStore
begin

text \<open>
  Ticket plans (\<^verbatim>\<open>src/tickets/ticket-plan.ts\<close>, \<^verbatim>\<open>ticket-plan-command-args.ts\<close>, \<^verbatim>\<open>ticket-plan-render.ts\<close>,
  \<^verbatim>\<open>apply-ticket-plan.ts\<close> and \<^verbatim>\<open>src/backlog.ts\<close>): the integrity of a plan, the commands that create its
  tickets, the text of a dry run, and the creation of the tickets in waves. The schema library, which parses
  the JSON and checks the fields, and the backlog command are parameters; the state lists the commands run.
\<close>

subsection \<open>Plans\<close>

record plan_criterion =
  pl_evidence :: string
  pl_text :: string

record plan_item =
  it_acceptance_criteria :: "plan_criterion list"
  it_description :: string
  it_key :: string
  it_likely_files :: "string list"
  it_plan :: string
  it_priority :: "ticket_priority option"
  it_references :: "string list"
  it_title :: string

record plan_task = plan_item +
  it_depends_on :: "string list"

record ticket_plan =
  tp_epic :: "plan_item option"
  tp_tickets :: "plan_task list"

datatype path_key = PathName string | PathIndex nat

record plan_issue =
  pi_issue :: string
  pi_path :: "path_key list"

definition LOCAL_KEY_RE :: "string \<Rightarrow> bool" where
  "LOCAL_KEY_RE key \<longleftrightarrow>
     (case key of [] \<Rightarrow> False | c # cs \<Rightarrow> is_lower c \<and> list_all (\<lambda>c. is_lower c \<or> is_digit c \<or> c = CHR ''-'') cs)"

text \<open>The index kept for a key is that of its last use so far: \<open>HashMap.set\<close> overwrites it.\<close>

fun unique_keys_from :: "nat \<Rightarrow> plan_task list \<Rightarrow> plan_issue list \<times> (string \<times> nat) list \<Rightarrow> plan_issue list \<times> (string \<times> nat) list" where
  "unique_keys_from index [] state = state"
| "unique_keys_from index (ticket # tickets) (issues, seenKeys) =
     unique_keys_from (Suc index) tickets
       (issues @ (case map_of seenKeys (it_key ticket) of
          None \<Rightarrow> []
        | Some firstIndex \<Rightarrow> [\<lparr>pi_issue = ''duplicate local ticket key '' @ quoted (it_key ticket) @ '' first used at tickets.'' @
                                show_nat firstIndex @ ''.key'',
                              pi_path = [PathName ''tickets'', PathIndex index, PathName ''key'']\<rparr>]),
        AList.update (it_key ticket) index seenKeys)"

definition validateUniqueTicketKeys :: "plan_task list \<Rightarrow> plan_issue list \<times> (string \<times> nat) list" where
  "validateUniqueTicketKeys tickets = unique_keys_from 0 tickets ([], [])"

definition validateEpicKey :: "plan_item option \<Rightarrow> (string \<times> nat) list \<Rightarrow> plan_issue list" where
  "validateEpicKey epic seenKeys = (case epic of
     None \<Rightarrow> []
   | Some v \<Rightarrow> if map_of seenKeys (it_key v) \<noteq> None
       then [\<lparr>pi_issue = ''epic key '' @ quoted (it_key v) @ '' conflicts with a ticket key'',
              pi_path = [PathName ''epic'', PathName ''key'']\<rparr>] else [])"

definition validateTicketDependencies :: "plan_task \<Rightarrow> nat \<Rightarrow> (string \<times> nat) list \<Rightarrow> plan_issue list" where
  "validateTicketDependencies ticket ticketIndex seenKeys =
     concat (map (\<lambda>(dependencyIndex, dependencyKey).
       if map_of seenKeys dependencyKey \<noteq> None then []
       else [\<lparr>pi_issue = ''unknown dependency key '' @ quoted dependencyKey,
              pi_path = [PathName ''tickets'', PathIndex ticketIndex, PathName ''depends_on'', PathIndex dependencyIndex]\<rparr>])
       (enumerate 0 (it_depends_on ticket)))"

definition validateLocalDependencies :: "plan_task list \<Rightarrow> (string \<times> nat) list \<Rightarrow> plan_issue list" where
  "validateLocalDependencies tickets seenKeys =
     concat (map (\<lambda>(ticketIndex, ticket). validateTicketDependencies ticket ticketIndex seenKeys) (enumerate 0 tickets))"

definition ticket_plan_issues :: "ticket_plan \<Rightarrow> plan_issue list" where
  "ticket_plan_issues plan =
     (case validateUniqueTicketKeys (tp_tickets plan) of (keyIssues, seenKeys) \<Rightarrow>
        keyIssues @ validateEpicKey (tp_epic plan) seenKeys @ validateLocalDependencies (tp_tickets plan) seenKeys)"

record 'j plan_library =
  ll_json :: "string \<Rightarrow> string + 'j"
  ll_fields :: "'j \<Rightarrow> plan_issue list + ticket_plan"
  ll_formatIssues :: "plan_issue list \<Rightarrow> string"

definition parseTicketPlan :: "'j plan_library \<Rightarrow> string \<Rightarrow> string + ticket_plan" where
  "parseTicketPlan lib source = (case ll_json lib source of
     Inl e \<Rightarrow> Inl (''Could not parse ticket plan JSON: '' @ e)
   | Inr json \<Rightarrow> (case ll_fields lib json of
       Inl issues \<Rightarrow> Inl (''Invalid ticket plan: '' @ ll_formatIssues lib issues)
     | Inr plan \<Rightarrow> if ticket_plan_issues plan = [] then Inr plan
         else Inl (''Invalid ticket plan: '' @ ll_formatIssues lib (ticket_plan_issues plan))))"

subsection \<open>Commands\<close>

datatype ticket_source = EpicSource plan_item | TaskSource plan_task

fun source_item :: "ticket_source \<Rightarrow> plan_item" where
  "source_item (EpicSource epic) = epic"
| "source_item (TaskSource task) = plan_item.truncate task"

fun localDependencyKeys :: "ticket_source \<Rightarrow> string list" where
  "localDependencyKeys (EpicSource epic) = []"
| "localDependencyKeys (TaskSource task) = it_depends_on task"

definition formatBacklogCommand :: "string list \<Rightarrow> string" where
  "formatBacklogCommand args = join_with '' '' (''backlog'' # args)"

fun priority_name :: "ticket_priority \<Rightarrow> string" where
  "priority_name HighPriority = ''high''"
| "priority_name MediumPriority = ''medium''"
| "priority_name LowPriority = ''low''"

definition with_flag :: "string \<Rightarrow> string list \<Rightarrow> string list" where
  "with_flag flag values = concat (map (\<lambda>v. [flag, v]) values)"

definition ticketCreateArgs :: "ticket_source \<Rightarrow> string list option \<Rightarrow> string option \<Rightarrow> string list" where
  "ticketCreateArgs source dependencyIds parentId =
     (let task = source_item source in
      [''task'', ''create'', it_title task] @
      (case truthy parentId of None \<Rightarrow> [] | Some parent \<Rightarrow> [''--parent'', parent]) @
      [''--description'', it_description task] @
      (case it_priority task of None \<Rightarrow> [] | Some p \<Rightarrow> [''--priority'', priority_name p]) @
      with_flag ''--dep'' (or_else dependencyIds (localDependencyKeys source)) @
      with_flag ''--ac'' (map (\<lambda>c. pl_text c @ ''; evidence: '' @ pl_evidence c) (it_acceptance_criteria task)) @
      [''--plan'', it_plan task] @
      with_flag ''--ref'' (it_references task) @
      with_flag ''--modified-file'' (it_likely_files task) @
      [''--plain''])"

subsection \<open>The dry run\<close>

definition is_safe :: "char \<Rightarrow> bool" where
  "is_safe c \<longleftrightarrow> is_upper c \<or> is_lower c \<or> is_digit c \<or> c \<in> set ''_./:=@+-''"

definition SAFE_SHELL_ARG_RE :: "string \<Rightarrow> bool" where
  "SAFE_SHELL_ARG_RE text \<longleftrightarrow> text \<noteq> [] \<and> list_all is_safe text"

definition quote :: char where
  "quote = CHR 0x27"

definition double_quote :: char where
  "double_quote = CHR 0x22"

text \<open>Each quote of the text becomes quote, double quote, quote, double quote, quote.\<close>

definition shellArg :: "string \<Rightarrow> string" where
  "shellArg text =
     (if SAFE_SHELL_ARG_RE text then text
      else quote # concat (map (\<lambda>c. if c = quote then [quote, double_quote, quote, double_quote, quote] else [c]) text) @ [quote])"

definition renderCommand :: "string list \<Rightarrow> string" where
  "renderCommand args = join_with '' '' (map shellArg args)"

definition renderCreateCommand :: "ticket_source \<Rightarrow> string option \<Rightarrow> string" where
  "renderCreateCommand task parentKey = renderCommand (''backlog'' # ticketCreateArgs task None parentKey)"

definition dry_run_banner :: string where
  "dry_run_banner = ''# Dry run: no Backlog files were written.''"

definition renderTicketPlanDryRun :: "ticket_plan \<Rightarrow> string" where
  "renderTicketPlanDryRun plan =
     join_with [newline]
       ([dry_run_banner] @
        (case tp_epic plan of None \<Rightarrow> [] | Some epic \<Rightarrow> [renderCreateCommand (EpicSource epic) None]) @
        map (\<lambda>ticket. renderCreateCommand (TaskSource ticket) (map_option it_key (tp_epic plan))) (tp_tickets plan))"

subsection \<open>Creating the tickets\<close>

text \<open>
  The id after \<open>Task\<close> at the start of a line: the longest run of word characters and dots that ends before a
  word boundary, that is without the dots at its end.
\<close>

definition task_id_at :: "string \<Rightarrow> string option" where
  "task_id_at text =
     (if \<not> starts_with text ''Task'' then None
      else let rest = drop 4 text; spaces = takeWhile is_space rest; body = dropWhile is_space rest;
               prefix = takeWhile is_upper body; after = dropWhile is_upper body in
        if spaces = [] \<or> prefix = [] \<or> \<not> starts_with after ''-'' then None
        else let number = rev (dropWhile (\<lambda>c. c = CHR ''.'') (rev (takeWhile (\<lambda>c. is_word c \<or> c = CHR ''.'') (tl after)))) in
          if number = [] then None else Some (prefix @ ''-'' @ number))"

fun first_task_id :: "bool \<Rightarrow> string \<Rightarrow> string option" where
  "first_task_id at_start [] = None"
| "first_task_id at_start (c # cs) =
     (case (if at_start then task_id_at (c # cs) else None) of
        Some found \<Rightarrow> Some found
      | None \<Rightarrow> first_task_id (c = newline \<or> c = CHR 0x0D) cs)"

definition parseBacklogTaskId :: "string \<Rightarrow> string option" where
  "parseBacklogTaskId stdout = first_task_id True stdout"

record backlog_error =
  be_message :: string
  be_stdout :: string

type_synonym 'w backlog_run = "string list \<Rightarrow> string \<Rightarrow> 'w \<Rightarrow> (backlog_error + string) \<times> 'w"

record apply_error =
  ae_command :: "string option"
  ae_createdIds :: "string list"
  ae_message :: string
  ae_stdout :: "string option"

record 'w apply_state =
  as_world :: 'w
  as_commands :: "(string list \<times> (backlog_error + string)) list"
  as_createdIds :: "string list"

definition formatCreatedIds :: "string list \<Rightarrow> string" where
  "formatCreatedIds createdIds = (if createdIds \<noteq> [] then join_with '', '' createdIds else ''none'')"

definition commandFailure :: "string list \<Rightarrow> string list \<Rightarrow> backlog_error \<Rightarrow> apply_error" where
  "commandFailure args createdIds e =
     \<lparr>ae_command = Some (formatBacklogCommand args), ae_createdIds = createdIds,
      ae_message = ''backlog command failed after created ids: '' @ formatCreatedIds createdIds @ ''; failed command: '' @
        formatBacklogCommand args @ ''; '' @ be_message e,
      ae_stdout = Some (be_stdout e)\<rparr>"

definition unparsed_id :: "string list \<Rightarrow> string list \<Rightarrow> string \<Rightarrow> apply_error" where
  "unparsed_id args createdIds stdout =
     \<lparr>ae_command = Some (formatBacklogCommand args), ae_createdIds = createdIds,
      ae_message = ''could not parse created task id from Backlog output; created ids: '' @ formatCreatedIds createdIds @
        ''; failed command: '' @ formatBacklogCommand args,
      ae_stdout = Some stdout\<rparr>"

definition runCreateAndParseId ::
  "'w backlog_run \<Rightarrow> string list \<Rightarrow> string \<Rightarrow> 'w apply_state \<Rightarrow> (apply_error + string) \<times> 'w apply_state" where
  "runCreateAndParseId run args worktreePath s = (case run args worktreePath (as_world s) of (r, w) \<Rightarrow>
     let s1 = s\<lparr>as_world := w, as_commands := as_commands s @ [(args, r)]\<rparr> in
     case r of
       Inl e \<Rightarrow> (Inl (commandFailure args (as_createdIds s) e), s1)
     | Inr stdout \<Rightarrow> (case parseBacklogTaskId stdout of
         None \<Rightarrow> (Inl (unparsed_id args (as_createdIds s) stdout), s1)
       | Some taskId \<Rightarrow> (Inr taskId, s1\<lparr>as_createdIds := as_createdIds s @ [taskId]\<rparr>)))"

definition plain_failure :: "string list \<Rightarrow> string \<Rightarrow> apply_error" where
  "plain_failure createdIds message =
     \<lparr>ae_command = None, ae_createdIds = createdIds, ae_message = message, ae_stdout = None\<rparr>"

definition resolveParentId ::
  "'w backlog_run \<Rightarrow> ticket_plan \<Rightarrow> string option \<Rightarrow> string \<Rightarrow> 'w apply_state \<Rightarrow> (apply_error + string) \<times> 'w apply_state" where
  "resolveParentId run plan parentOption worktreePath s =
     (case truthy parentOption of
        Some parentId \<Rightarrow> (Inr parentId, s)
      | None \<Rightarrow> (case tp_epic plan of
          None \<Rightarrow> (Inl (plain_failure (as_createdIds s)
            ''Cannot apply ticket plan without --parent because the plan does not include an epic.''), s)
        | Some epic \<Rightarrow> runCreateAndParseId run (ticketCreateArgs (EpicSource epic) None None) worktreePath s))"

text \<open>
  \<open>taskIdsByKey\<close> is a plain object: besides the keys set, it answers for \<open>constructor\<close>, the one key that
  the schema accepts and every object inherits. As an argument of a command the function becomes its text.
\<close>

definition inherited :: "string \<Rightarrow> string option" where
  "inherited key = (if key = ''constructor'' then Some ''function Object() { [native code] }'' else None)"

definition object_value :: "(string \<times> string) list \<Rightarrow> string \<Rightarrow> string option" where
  "object_value entries key = (case map_of entries key of Some v \<Rightarrow> Some v | None \<Rightarrow> inherited key)"

definition ready_ticket :: "(string \<times> string) list \<Rightarrow> plan_task \<Rightarrow> bool" where
  "ready_ticket taskIdsByKey ticket \<longleftrightarrow> list_all (\<lambda>key. truthy (object_value taskIdsByKey key) \<noteq> None) (it_depends_on ticket)"

text \<open>
  \<open>remaining\<close> maps each key to its ticket; the model lists the tickets, whose keys are their own.
\<close>

fun create_wave ::
  "'w backlog_run \<Rightarrow> string \<Rightarrow> string \<Rightarrow> plan_task list \<Rightarrow> plan_task list \<Rightarrow> (string \<times> string) list \<Rightarrow> 'w apply_state \<Rightarrow>
   (apply_error + plan_task list \<times> (string \<times> string) list) \<times> 'w apply_state" where
  "create_wave run parentId worktreePath [] remaining taskIdsByKey s = (Inr (remaining, taskIdsByKey), s)"
| "create_wave run parentId worktreePath (ticket # ready) remaining taskIdsByKey s =
     (let dependencyIds = map (\<lambda>key. or_else (object_value taskIdsByKey key) ''undefined'') (it_depends_on ticket) in
      case runCreateAndParseId run (ticketCreateArgs (TaskSource ticket) (Some dependencyIds) (Some parentId)) worktreePath s of
        (Inl e, s1) \<Rightarrow> (Inl e, s1)
      | (Inr taskId, s1) \<Rightarrow>
          create_wave run parentId worktreePath ready (filter (\<lambda>t. it_key t \<noteq> it_key ticket) remaining)
            (AList.update (it_key ticket) taskId taskIdsByKey) s1)"

lemma create_wave_remaining:
  "create_wave run parentId worktreePath ready remaining ids s = (Inr (remaining', ids'), s') \<Longrightarrow>
   remaining' = filter (\<lambda>t. it_key t \<notin> it_key ` set ready) remaining"
proof (induction run parentId worktreePath ready remaining ids s rule: create_wave.induct)
  case (2 run parentId worktreePath ticket ready remaining ids s)
  then show ?case
    by (auto simp: Let_def split: prod.splits sum.splits intro: filter_cong)
qed simp

lemma wave_shrinks:
  assumes "create_wave run parentId worktreePath ready remaining ids s = (Inr (remaining', ids'), s')"
    and "ready = filter P remaining" "ready \<noteq> []"
  shows "length remaining' < length remaining"
proof -
  obtain t where "t \<in> set remaining" "P t" using assms(2,3) by (auto simp: filter_empty_conv)
  then have "it_key t \<in> it_key ` set ready" unfolding assms(2) by auto
  then show ?thesis unfolding create_wave_remaining [OF assms(1)]
    using \<open>t \<in> set remaining\<close> by (intro length_filter_less [of t]) auto
qed

function waves_loop ::
  "'w backlog_run \<Rightarrow> string \<Rightarrow> string \<Rightarrow> plan_task list \<Rightarrow> (string \<times> string) list \<Rightarrow> 'w apply_state \<Rightarrow>
   (apply_error + (string \<times> string) list) \<times> 'w apply_state" where
  "waves_loop run parentId worktreePath remaining taskIdsByKey s =
     (if remaining = [] then (Inr taskIdsByKey, s)
      else let ready = filter (ready_ticket taskIdsByKey) remaining in
        if ready = [] then (Inl (plain_failure (as_createdIds s)
            ''Cannot apply ticket plan because local dependency keys contain a cycle or unresolved prerequisite.''), s)
        else case create_wave run parentId worktreePath ready remaining taskIdsByKey s of
          (Inl e, s1) \<Rightarrow> (Inl e, s1)
        | (Inr (remaining1, taskIdsByKey1), s1) \<Rightarrow> waves_loop run parentId worktreePath remaining1 taskIdsByKey1 s1)"
  by pat_completeness auto

termination
proof (relation "measure (\<lambda>(run, parentId, worktreePath, remaining, ids, s). length remaining)")
qed (auto dest: wave_shrinks [OF sym])

declare waves_loop.simps [simp del]

definition createChildTickets ::
  "'w backlog_run \<Rightarrow> ticket_plan \<Rightarrow> string \<Rightarrow> string \<Rightarrow> 'w apply_state \<Rightarrow> (apply_error + (string \<times> string) list) \<times> 'w apply_state" where
  "createChildTickets run plan parentId worktreePath s =
     waves_loop run parentId worktreePath (map snd (new_map (map (\<lambda>ticket. (it_key ticket, ticket)) (tp_tickets plan)))) [] s"

record applied_plan =
  ap_createdIds :: "string list"
  ap_parentId :: string
  ap_taskIdsByKey :: "(string \<times> string) list"

definition applyTicketPlan ::
  "'w backlog_run \<Rightarrow> ticket_plan \<Rightarrow> string \<Rightarrow> string option \<Rightarrow> 'w \<Rightarrow> (apply_error + applied_plan) \<times> 'w apply_state" where
  "applyTicketPlan run plan worktreePath parentOption w =
     (case resolveParentId run plan parentOption worktreePath \<lparr>as_world = w, as_commands = [], as_createdIds = []\<rparr> of
        (Inl e, s1) \<Rightarrow> (Inl e, s1)
      | (Inr parentId, s1) \<Rightarrow> (case createChildTickets run plan parentId worktreePath s1 of
          (Inl e, s2) \<Rightarrow> (Inl e, s2)
        | (Inr taskIdsByKey, s2) \<Rightarrow>
            (Inr \<lparr>ap_createdIds = as_createdIds s2, ap_parentId = parentId, ap_taskIdsByKey = taskIdsByKey\<rparr>, s2)))"

subsection \<open>Integrity\<close>

definition plan_integral :: "ticket_plan \<Rightarrow> bool" where
  "plan_integral plan \<longleftrightarrow>
     distinct (map it_key (tp_tickets plan)) \<and>
     it_key ` set_option (tp_epic plan) \<inter> it_key ` set (tp_tickets plan) = {} \<and>
     \<Union> (set ` it_depends_on ` set (tp_tickets plan)) \<subseteq> it_key ` set (tp_tickets plan)"

lemma unique_keys_seen:
  "unique_keys_from index tickets (issues, seen) = (issues', seen') \<Longrightarrow>
   dom (map_of seen') = dom (map_of seen) \<union> it_key ` set tickets \<and>
   (issues' = [] \<longleftrightarrow> issues = [] \<and> distinct (map it_key tickets) \<and> it_key ` set tickets \<inter> dom (map_of seen) = {})"
proof (induction tickets arbitrary: index issues seen)
  case (Cons t ts)
  note step = Cons.IH [OF Cons.prems [unfolded unique_keys_from.simps], unfolded map_of_update]
  show ?case
  proof (cases "it_key t \<in> dom (map_of seen)")
    case True
    then show ?thesis using step by (simp only: dom_fun_upd domIff) auto
  next
    case False
    then have "map_of seen (it_key t) = None" by (simp add: domIff)
    then show ?thesis using step False by (simp only: dom_fun_upd) auto
  qed
qed simp

lemma concat_enumerate_Nil:
  assumes "\<And>i x. f (i, x) = [] \<longleftrightarrow> P x"
  shows "concat (map f (enumerate i xs)) = [] \<longleftrightarrow> (\<forall>x \<in> set xs. P x)"
  using assms by (induction xs arbitrary: i) auto

lemma unknown_dependencies:
  assumes "dom (map_of seen) = keys"
  shows "validateTicketDependencies ticket i seen = [] \<longleftrightarrow> set (it_depends_on ticket) \<subseteq> keys"
  unfolding validateTicketDependencies_def
  by (subst concat_enumerate_Nil [where P = "\<lambda>d. d \<in> keys"]) (use assms in \<open>auto simp: domIff\<close>)

lemma plan_issues_Nil: "ticket_plan_issues plan = [] \<longleftrightarrow> plan_integral plan"
proof -
  obtain issues seen where unique: "validateUniqueTicketKeys (tp_tickets plan) = (issues, seen)" by fastforce
  note keys = unique_keys_seen [OF unique [unfolded validateUniqueTicketKeys_def]]
  have seen: "dom (map_of seen) = it_key ` set (tp_tickets plan)" using keys by simp
  have local_deps: "validateLocalDependencies (tp_tickets plan) seen = [] \<longleftrightarrow>
      (\<forall>t \<in> set (tp_tickets plan). set (it_depends_on t) \<subseteq> it_key ` set (tp_tickets plan))"
    unfolding validateLocalDependencies_def by (rule concat_enumerate_Nil) (simp add: unknown_dependencies [OF seen])
  have epic: "validateEpicKey (tp_epic plan) seen = [] \<longleftrightarrow> it_key ` set_option (tp_epic plan) \<inter> it_key ` set (tp_tickets plan) = {}"
    using seen by (auto simp: validateEpicKey_def domIff split: option.splits)
  show ?thesis
    using keys by (simp add: ticket_plan_issues_def unique plan_integral_def epic local_deps UN_subset_iff)
qed

text \<open>
  Parsing a plan succeeds exactly for text that is JSON of the right fields with distinct ticket keys,
  an epic key that is not among them and dependencies on keys of the plan, and answers with that plan.
\<close>

theorem ticket_plan_parsed_exactly:
  "parseTicketPlan lib source = Inr plan \<longleftrightarrow>
   (\<exists>json. ll_json lib source = Inr json \<and> ll_fields lib json = Inr plan \<and> plan_integral plan)"
  by (auto simp: parseTicketPlan_def plan_issues_Nil split: sum.splits)

subsection \<open>The dry run is what a shell reads back\<close>




lemma quotes_differ [simp]: "quote \<noteq> double_quote" "double_quote \<noteq> quote"
  by (simp_all add: quote_def double_quote_def)






subsection \<open>Waves respect dependencies\<close>

definition depends_of :: "plan_task list \<Rightarrow> string \<Rightarrow> string set" where
  "depends_of tickets key = {d. \<exists>t \<in> set tickets. it_key t = key \<and> d \<in> set (it_depends_on t)}"

text \<open>The ids answered for the tickets created, and the command that creates a ticket once they are known.\<close>

definition known_ids :: "(string \<rightharpoonup> string) \<Rightarrow> plan_task list \<Rightarrow> string list \<Rightarrow> (string \<rightharpoonup> string)" where
  "known_ids ids order new = ids ++ map_of (zip (map it_key order) new)"

definition creation :: "string \<Rightarrow> (string \<rightharpoonup> string) \<Rightarrow> plan_task \<Rightarrow> string list" where
  "creation parentId ids ticket =
     ticketCreateArgs (TaskSource ticket) (Some (map (\<lambda>key. the (ids key)) (it_depends_on ticket))) (Some parentId)"

definition commands_of :: "'w apply_state \<Rightarrow> string list list" where
  "commands_of s = map fst (as_commands s)"

definition failed_answer :: "backlog_error + string \<Rightarrow> bool" where
  "failed_answer r \<longleftrightarrow> (case r of Inl e \<Rightarrow> True | Inr stdout \<Rightarrow> parseBacklogTaskId stdout = None)"

lemma first_task_id_nonempty: "first_task_id at_start text0 = Some i \<Longrightarrow> i \<noteq> []"
  by (induction at_start text0 rule: first_task_id.induct)
    (auto simp: task_id_at_def Let_def split: if_splits option.splits)

lemma parsed_id_nonempty: "parseBacklogTaskId stdout = Some i \<Longrightarrow> i \<noteq> []"
  unfolding parseBacklogTaskId_def by (rule first_task_id_nonempty)

lemma create_cases:
  assumes "runCreateAndParseId run args worktreePath s = (r, s')"
  obtains (Fails) e where "r = Inl e" "as_createdIds s' = as_createdIds s" "ae_createdIds e = as_createdIds s"
      "commands_of s' = commands_of s @ [args]" "failed_answer (snd (List.last (as_commands s')))" "as_commands s' \<noteq> []"
  | (Creates) i where "r = Inr i" "i \<noteq> []" "as_createdIds s' = as_createdIds s @ [i]" "commands_of s' = commands_of s @ [args]"
  using assms
  by (auto simp: runCreateAndParseId_def Let_def commands_of_def failed_answer_def commandFailure_def unparsed_id_def
      dest: parsed_id_nonempty split: prod.splits sum.splits option.splits)

lemma known_ids_Nil [simp]: "known_ids ids [] new = ids"
  by (simp add: known_ids_def)

lemma known_ids_Cons: "it_key t \<notin> it_key ` set order \<Longrightarrow>
   known_ids ids (t # order) (i # new) = known_ids (ids(it_key t \<mapsto> i)) order new"
  unfolding known_ids_def by (rule ext) (auto simp: map_add_def split: option.splits dest!: map_of_SomeD set_zip_leftD)

lemma known_ids_keeps: "k \<notin> it_key ` set order \<Longrightarrow> known_ids ids order new k = ids k"
  unfolding known_ids_def by (auto simp: map_add_def split: option.splits dest!: map_of_SomeD set_zip_leftD)

lemma known_ids_append:
  assumes "length new = length order" "it_key ` set order \<inter> it_key ` set order' = {}"
  shows "known_ids (known_ids ids order new) order' new' = known_ids ids (order @ order') (new @ new')"
proof -
  let ?first = "map_of (zip (map it_key order) new)" and ?then = "map_of (zip (map it_key order') new')"
  have "dom ?first \<inter> dom ?then = {}" using assms(2) by (auto dest!: map_of_SomeD set_zip_leftD)
  then have swap: "?first ++ ?then = ?then ++ ?first" by (rule map_add_comm)
  have "known_ids ids (order @ order') (new @ new') = ids ++ (?then ++ ?first)"
    using assms(1) by (simp add: known_ids_def)
  then show ?thesis unfolding swap [symmetric] by (simp add: known_ids_def)
qed

lemma known_ids_dom: "length new = length order \<Longrightarrow> dom (known_ids ids order new) = dom ids \<union> it_key ` set order"
  by (auto simp: known_ids_def)

lemma creation_cong:
  "(\<And>d. d \<in> set (it_depends_on t) \<Longrightarrow> ids d = ids' d) \<Longrightarrow> creation parentId ids t = creation parentId ids' t"
  by (simp add: creation_def cong: map_cong)

text \<open>The outcome of the creations of a list of tickets, in order: all of them, or those up to a failure.\<close>

definition created_so_far ::
  "string \<Rightarrow> (string \<rightharpoonup> string) \<Rightarrow> plan_task list \<Rightarrow> plan_task list \<Rightarrow> string list \<Rightarrow> 'w apply_state \<Rightarrow> 'w apply_state \<Rightarrow> bool" where
  "created_so_far parentId ids order tried new s s' \<longleftrightarrow>
     length new = length order \<and> [] \<notin> set new \<and> as_createdIds s' = as_createdIds s @ new \<and>
     commands_of s' = commands_of s @ map (creation parentId (known_ids ids order new)) (order @ tried)"

definition wave_failed :: "apply_error \<Rightarrow> 'w apply_state \<Rightarrow> bool" where
  "wave_failed e s \<longleftrightarrow> ae_createdIds e = as_createdIds s \<and> as_commands s \<noteq> [] \<and> failed_answer (snd (List.last (as_commands s)))"

lemma dependency_values:
  assumes "set (it_depends_on t) \<subseteq> dom ids0" "\<And>k. ids0 k = map_of ids k"
  shows "map (\<lambda>key. or_else (object_value ids key) ''undefined'') (it_depends_on t) = map (\<lambda>key. the (ids0 key)) (it_depends_on t)"
  using assms by (auto simp: object_value_def)

lemma create_wave_outcome:
  assumes "create_wave run parentId worktreePath ready remaining ids s = (r, s')"
    and "distinct (map it_key ready)" "\<forall>t \<in> set ready. set (it_depends_on t) \<subseteq> dom (map_of ids)"
    and "it_key ` set ready \<inter> dom (map_of ids) = {}"
  shows "\<exists>order rest new. ready = order @ rest \<and>
     (case r of
        Inr (remaining', ids') \<Rightarrow> rest = [] \<and> map_of ids' = known_ids (map_of ids) order new \<and>
          created_so_far parentId (map_of ids) order [] new s s'
      | Inl e \<Rightarrow> rest \<noteq> [] \<and> wave_failed e s' \<and> created_so_far parentId (map_of ids) order [hd rest] new s s')"
  using assms
proof (induction run parentId worktreePath ready remaining ids s rule: create_wave.induct)
  case (1 run parentId worktreePath remaining ids s)
  then show ?case by (auto simp: created_so_far_def commands_of_def)
next
  case (2 run parentId worktreePath t ready remaining ids s)
  let ?args = "ticketCreateArgs (TaskSource t) (Some (map (\<lambda>key. or_else (object_value ids key) ''undefined'') (it_depends_on t))) (Some parentId)"
  have deps: "set (it_depends_on t) \<subseteq> dom (map_of ids)" using "2.prems"(3) by simp
  have args: "?args = creation parentId (map_of ids) t"
    unfolding creation_def by (subst dependency_values [OF deps refl]) (rule refl)
  obtain q s1 where created: "runCreateAndParseId run ?args worktreePath s = (q, s1)" by fastforce
  from created show ?case
  proof (cases rule: create_cases)
    case (Fails e)
    then have "r = Inl e" "s' = s1" using "2.prems"(1) created by simp_all
    then show ?thesis using Fails args
      by (intro exI [of _ "[]"] exI [of _ "t # ready"] exI [of _ "[]"]) (simp add: created_so_far_def wave_failed_def)
  next
    case (Creates i)
    let ?ids = "AList.update (it_key t) i ids"
    have run1: "create_wave run parentId worktreePath ready (filter (\<lambda>t'. it_key t' \<noteq> it_key t) remaining) ?ids s1 = (r, s')"
      using "2.prems"(1) created Creates(1) by simp
    have rest: "distinct (map it_key ready)" "\<forall>t \<in> set ready. set (it_depends_on t) \<subseteq> dom (map_of ?ids)"
      "it_key ` set ready \<inter> dom (map_of ?ids) = {}"
      using "2.prems"(2-4) by auto
    from "2.IH" [OF refl created [symmetric] Creates(1) run1 rest] obtain order rest' new where
      ready: "ready = order @ rest'" and ih: "(case r of
        Inr (remaining', ids') \<Rightarrow> rest' = [] \<and> map_of ids' = known_ids (map_of ?ids) order new \<and>
          created_so_far parentId (map_of ?ids) order [] new s1 s'
      | Inl e \<Rightarrow> rest' \<noteq> [] \<and> wave_failed e s' \<and> created_so_far parentId (map_of ?ids) order [hd rest'] new s1 s')"
      by (elim exE conjE)
    have new_key: "it_key t \<notin> it_key ` set order" using "2.prems"(2) unfolding ready by auto
    have known: "known_ids (map_of ids) (t # order) (i # new) = known_ids (map_of ?ids) order new"
      unfolding known_ids_Cons [OF new_key] by simp
    have first: "creation parentId (known_ids (map_of ids) (t # order) (i # new)) t = creation parentId (map_of ids) t"
    proof (rule creation_cong)
      fix d assume "d \<in> set (it_depends_on t)"
      then have "d \<notin> it_key ` set (t # order)" using deps "2.prems"(4) unfolding ready by auto
      then show "known_ids (map_of ids) (t # order) (i # new) d = map_of ids d" by (rule known_ids_keeps)
    qed
    have so_far: "created_so_far parentId (map_of ids) (t # order) tried (i # new) s s'"
      if "created_so_far parentId (map_of ?ids) order tried new s1 s'" for tried
      using that Creates first unfolding created_so_far_def known args by simp
    show ?thesis
      using ih so_far ready unfolding known [symmetric]
      by (intro exI [of _ "t # order"] exI [of _ rest'] exI [of _ "i # new"]) (auto split: sum.splits)
  qed
qed

lemma created_so_far_append:
  assumes "created_so_far parentId ids order [] new s s1" "created_so_far parentId (known_ids ids order new) order' tried new' s1 s'"
    and "it_key ` set order \<inter> it_key ` set order' = {}" "\<forall>t \<in> set order. set (it_depends_on t) \<subseteq> dom ids"
    and "dom ids \<inter> it_key ` set order' = {}"
  shows "created_so_far parentId ids (order @ order') tried (new @ new') s s'"
proof -
  have known: "known_ids (known_ids ids order new) order' new' = known_ids ids (order @ order') (new @ new')"
    using assms(1,3) by (intro known_ids_append) (simp_all add: created_so_far_def)
  have "creation parentId (known_ids ids order new) t = creation parentId (known_ids (known_ids ids order new) order' new') t"
    if "t \<in> set order" for t
  proof (rule creation_cong)
    fix d assume "d \<in> set (it_depends_on t)"
    then have "d \<notin> it_key ` set order'" using that assms(4,5) by blast
    then show "known_ids ids order new d = known_ids (known_ids ids order new) order' new' d" by (simp add: known_ids_keeps)
  qed
  then show ?thesis using assms(1,2) unfolding created_so_far_def known [symmetric] by (simp cong: map_cong)
qed

lemma deps_before_wave:
  assumes "\<And>t. t \<in> set order \<Longrightarrow> D (it_key t) \<subseteq> S"
  shows "deps_before D S (map it_key order)"
  using assms by (induction order) (auto intro: deps_before_mono)

lemma ready_ticket_iff:
  assumes "[] \<notin> ran (map_of ids)" "''constructor'' \<notin> set (it_depends_on t)"
  shows "ready_ticket ids t \<longleftrightarrow> set (it_depends_on t) \<subseteq> dom (map_of ids)"
  using assms by (force simp: ready_ticket_def list_all_iff object_value_def inherited_def truthy_None_iff ran_def split: option.splits)

text \<open>How the waves end: with every ticket created, with tickets that wait for each other, or with a failed command.\<close>

definition waves_end ::
  "string \<Rightarrow> (string \<rightharpoonup> string) \<Rightarrow> plan_task list \<Rightarrow> plan_task list \<Rightarrow> string list \<Rightarrow> 'w apply_state \<Rightarrow>
   apply_error + (string \<times> string) list \<Rightarrow> 'w apply_state \<Rightarrow> bool" where
  "waves_end parentId ids order rest new s r s' \<longleftrightarrow>
     (case r of
        Inr ids' \<Rightarrow> rest = [] \<and> map_of ids' = known_ids ids order new \<and> created_so_far parentId ids order [] new s s'
      | Inl e \<Rightarrow> rest \<noteq> [] \<and>
          (wave_failed e s' \<and> (\<exists>t. created_so_far parentId ids order [t] new s s') \<or>
           created_so_far parentId ids order [] new s s' \<and> ae_createdIds e = as_createdIds s' \<and>
             (\<forall>t \<in> set rest. \<not> set (it_depends_on t) \<subseteq> dom ids \<union> it_key ` set order)))"

lemma deps_by_key:
  "distinct (map it_key tickets) \<Longrightarrow> t \<in> set tickets \<Longrightarrow> depends_of tickets (it_key t) = set (it_depends_on t)"
  by (auto simp: depends_of_def distinct_map dest: inj_onD)

lemma waves_loop_outcome:
  assumes "waves_loop run parentId worktreePath remaining ids s = (r, s')"
    and "distinct (map it_key remaining)" "it_key ` set remaining \<inter> dom (map_of ids) = {}"
    and "[] \<notin> ran (map_of ids)" "\<forall>t \<in> set remaining. ''constructor'' \<notin> set (it_depends_on t)"
    and "distinct (map it_key tickets)" "set remaining \<subseteq> set tickets"
  shows "\<exists>order rest new. mset (order @ rest) = mset remaining \<and>
     deps_before (depends_of tickets) (dom (map_of ids)) (map it_key order) \<and>
     waves_end parentId (map_of ids) order rest new s r s'"
  using assms
proof (induction run parentId worktreePath remaining ids s rule: waves_loop.induct)
  case (1 run parentId worktreePath remaining ids s)
  let ?ready = "filter (ready_ticket ids) remaining"
  have ready: "ready_ticket ids t \<longleftrightarrow> set (it_depends_on t) \<subseteq> dom (map_of ids)" if "t \<in> set remaining" for t
    using "1.prems"(4,5) that by (intro ready_ticket_iff) auto
  consider (all) "remaining = []" | (stuck) "remaining \<noteq> []" "?ready = []" | (wave) "remaining \<noteq> []" "?ready \<noteq> []" by blast
  then show ?case
  proof cases
    case all
    then have "r = Inr ids" "s' = s" using "1.prems"(1) by (simp_all add: waves_loop.simps)
    then show ?thesis using all
      by (intro exI [of _ "[]"]) (simp add: waves_end_def created_so_far_def commands_of_def)
  next
    case stuck
    then have "waves_loop run parentId worktreePath remaining ids s = (Inl (plain_failure (as_createdIds s)
        ''Cannot apply ticket plan because local dependency keys contain a cycle or unresolved prerequisite.''), s)"
      by (subst waves_loop.simps) (simp only: Let_def if_False if_True refl)
    then obtain e where e: "r = Inl e" "ae_createdIds e = as_createdIds s" "s' = s"
      using "1.prems"(1) by (simp add: plain_failure_def)
    have "\<forall>t \<in> set remaining. \<not> set (it_depends_on t) \<subseteq> dom (map_of ids)"
      using stuck(2) ready by (auto simp: filter_empty_conv)
    then show ?thesis using e stuck(1)
      by (intro exI [of _ "[]"] exI [of _ remaining] exI [of _ "[]"]) (simp add: waves_end_def created_so_far_def commands_of_def)
  next
    case wave
    obtain q s1 where created: "create_wave run parentId worktreePath ?ready remaining ids s = (q, s1)" by fastforce
    have keys: "distinct (map it_key ?ready)" "\<forall>t \<in> set ?ready. set (it_depends_on t) \<subseteq> dom (map_of ids)"
      "it_key ` set ?ready \<inter> dom (map_of ids) = {}"
      using "1.prems"(2,3) ready by (auto simp: distinct_map_filter)
    from create_wave_outcome [OF created keys] obtain order rest new where split: "?ready = order @ rest"
      and outcome: "(case q of
        Inr (remaining', ids') \<Rightarrow> rest = [] \<and> map_of ids' = known_ids (map_of ids) order new \<and>
          created_so_far parentId (map_of ids) order [] new s s1
      | Inl e \<Rightarrow> rest \<noteq> [] \<and> wave_failed e s1 \<and> created_so_far parentId (map_of ids) order [hd rest] new s s1)"
      by (elim exE conjE)
    have sub: "set order \<subseteq> set ?ready" using split by simp
    have before: "deps_before (depends_of tickets) (dom (map_of ids)) (map it_key order)"
    proof (rule deps_before_wave)
      fix t assume "t \<in> set order"
      with sub have "t \<in> set ?ready" by blast
      then show "depends_of tickets (it_key t) \<subseteq> dom (map_of ids)"
        using keys(2) "1.prems"(7) deps_by_key [OF "1.prems"(6), of t] by auto
    qed
    show ?thesis
    proof (cases q)
      case (Inl e)
      then have "r = Inl e" "s' = s1" using "1.prems"(1) created wave by (simp_all add: waves_loop.simps Let_def)
      have "mset ?ready \<subseteq># mset remaining" by simp
      then have "mset (order @ (rest @ filter (\<lambda>t. \<not> ready_ticket ids t) remaining)) = mset remaining"
        using split by (metis append.assoc mset_append multiset_partition mset_filter)
      then show ?thesis using outcome before Inl \<open>r = Inl e\<close> \<open>s' = s1\<close>
        by (intro exI [of _ order] exI [of _ "rest @ filter (\<lambda>t. \<not> ready_ticket ids t) remaining"] exI [of _ new])
          (auto simp: waves_end_def)
    next
      case (Inr answer)
      obtain remaining1 ids1 where answer: "answer = (remaining1, ids1)" by fastforce
      have so_far: "map_of ids1 = known_ids (map_of ids) order new" "created_so_far parentId (map_of ids) order [] new s s1"
        and order: "order = ?ready" using outcome split unfolding Inr answer by simp_all
      have rem1: "remaining1 = filter (\<lambda>t. it_key t \<notin> it_key ` set ?ready) remaining"
        using created unfolding Inr answer by (rule create_wave_remaining)
      have rem_ready: "remaining1 = filter (\<lambda>t. \<not> ready_ticket ids t) remaining"
        unfolding rem1 using "1.prems"(2) by (intro filter_cong) (auto simp: distinct_map dest: inj_onD)
      have len: "length new = length order" and filled: "[] \<notin> set new" using so_far(2) by (simp_all add: created_so_far_def)
      have dom1: "dom (map_of ids1) = dom (map_of ids) \<union> it_key ` set order" unfolding so_far(1) by (rule known_ids_dom [OF len])
      have again: "waves_loop run parentId worktreePath remaining1 ids1 s1 = (r, s')"
        using "1.prems"(1) created wave unfolding Inr answer by (simp add: waves_loop.simps Let_def)
      have next_ok: "distinct (map it_key remaining1)" "it_key ` set remaining1 \<inter> dom (map_of ids1) = {}"
        "\<forall>t \<in> set remaining1. ''constructor'' \<notin> set (it_depends_on t)" "set remaining1 \<subseteq> set tickets"
        using "1.prems"(2,3,5,7) unfolding dom1 rem1 order by (auto simp: distinct_map_filter)
      have nonempty: "[] \<notin> ran (map_of ids1)"
      proof -
        have "ran (map_of ids1) \<subseteq> set new \<union> ran (map_of ids)"
        proof
          fix v assume "v \<in> ran (map_of ids1)"
          then obtain k where "map_of (zip (map it_key order) new) k = Some v \<or> map_of ids k = Some v"
            unfolding so_far(1) known_ids_def by (auto simp: ran_def map_add_Some_iff)
          then show "v \<in> set new \<union> ran (map_of ids)" by (metis UnCI map_of_SomeD ranI set_zip_rightD)
        qed
        then show ?thesis using filled "1.prems"(4) by blast
      qed
      from "1.IH" [OF wave(1) refl wave(2) created [symmetric] Inr [unfolded answer] refl again next_ok(1,2) nonempty next_ok(3) "1.prems"(6) next_ok(4)]
      obtain order2 rest2 new2 where ih: "mset (order2 @ rest2) = mset remaining1"
        "deps_before (depends_of tickets) (dom (map_of ids1)) (map it_key order2)"
        "waves_end parentId (map_of ids1) order2 rest2 new2 s1 r s'"
        by blast
      have "set order2 \<subseteq> set remaining1" using ih(1) by (metis mset_append set_mset_mset sup_ge1 set_append)
      then have apart: "it_key ` set order \<inter> it_key ` set order2 = {}" "dom (map_of ids) \<inter> it_key ` set order2 = {}"
        using next_ok(2) unfolding dom1 by blast+
      have all: "mset ((order @ order2) @ rest2) = mset remaining"
        using ih(1) unfolding rem_ready order by simp
      have joined: "created_so_far parentId (map_of ids) (order @ order2) tried (new @ new2) s s'"
        if "created_so_far parentId (map_of ids1) order2 tried new2 s1 s'" for tried
        using created_so_far_append [OF so_far(2) that [unfolded so_far(1)] apart(1) _ apart(2)] keys(2) order by simp
      have "deps_before (depends_of tickets) (dom (map_of ids)) (map it_key (order @ order2))"
        using before ih(2) dom1 by (simp add: deps_before_append)
      moreover have "waves_end parentId (map_of ids) (order @ order2) rest2 (new @ new2) s r s'"
      proof -
        have ids2: "known_ids (map_of ids1) order2 new2 = known_ids (map_of ids) (order @ order2) (new @ new2)"
          unfolding so_far(1) by (rule known_ids_append [OF len apart(1)])
        have waits: "dom (map_of ids1) \<union> it_key ` set order2 = dom (map_of ids) \<union> it_key ` set (order @ order2)"
          unfolding dom1 by auto
        show ?thesis
          using ih(3) joined unfolding waves_end_def ids2 waits by (cases r) (simp_all, blast)
      qed
      ultimately show ?thesis using all by blast
    qed
  qed
qed

subsection \<open>Applying a plan\<close>

definition first_commands :: "ticket_plan \<Rightarrow> string option \<Rightarrow> string list list" where
  "first_commands plan parentOption =
     (case (truthy parentOption, tp_epic plan) of
        (None, Some epic) \<Rightarrow> [ticketCreateArgs (EpicSource epic) None None]
      | _ \<Rightarrow> [])"

lemma apply_cases:
  assumes "applyTicketPlan run plan worktreePath parentOption w = (r, s')"
    and "plan_integral plan" "''constructor'' \<notin> it_key ` set (tp_tickets plan)"
  obtains (NoParent) e where "r = Inl e" "as_createdIds s' = []" "ae_createdIds e = []"
      "truthy parentOption = None" "commands_of s' = first_commands plan parentOption"
      "tp_epic plan = None \<or> wave_failed e s'"
  | (Waves) parentId s1 q order rest new where "truthy parentOption = Some parentId \<or> tp_epic plan \<noteq> None \<and> as_createdIds s1 = [parentId]"
      "commands_of s1 = first_commands plan parentOption" "truthy parentOption \<noteq> None \<longrightarrow> as_createdIds s1 = []"
      "mset (order @ rest) = mset (tp_tickets plan)" "deps_before (depends_of (tp_tickets plan)) {} (map it_key order)"
      "waves_end parentId Map.empty order rest new s1 q s'"
      "r = (case q of Inl e \<Rightarrow> Inl e
        | Inr ids \<Rightarrow> Inr \<lparr>ap_createdIds = as_createdIds s', ap_parentId = parentId, ap_taskIdsByKey = ids\<rparr>)"
proof -
  let ?s0 = "\<lparr>as_world = w, as_commands = [], as_createdIds = []\<rparr>"
  obtain p s1 where parent: "resolveParentId run plan parentOption worktreePath ?s0 = (p, s1)" by fastforce
  show thesis
  proof (cases p)
    case (Inl e)
    then have r: "r = Inl e" "s' = s1" using assms(1) parent by (simp_all add: applyTicketPlan_def)
    have none: "truthy parentOption = None" using parent Inl by (auto simp: resolveParentId_def split: option.splits)
    show thesis
    proof (cases "tp_epic plan")
      case None
      then have "e = plain_failure [] ''Cannot apply ticket plan without --parent because the plan does not include an epic.''" "s1 = ?s0"
        using parent none Inl by (simp_all add: resolveParentId_def)
      then show thesis using NoParent [of e] r none None by (simp add: plain_failure_def commands_of_def first_commands_def)
    next
      case (Some epic)
      then have "runCreateAndParseId run (ticketCreateArgs (EpicSource epic) None None) worktreePath ?s0 = (Inl e, s1)"
        using parent none Inl by (simp add: resolveParentId_def)
      then show thesis
        by (cases rule: create_cases)
          (use NoParent [of e] r none Some in \<open>auto simp: commands_of_def first_commands_def wave_failed_def\<close>)
    qed
  next
    case (Inr parentId)
    have resolved: "(truthy parentOption = Some parentId \<or> tp_epic plan \<noteq> None \<and> as_createdIds s1 = [parentId]) \<and>
        commands_of s1 = first_commands plan parentOption \<and> (truthy parentOption \<noteq> None \<longrightarrow> as_createdIds s1 = [])"
    proof (cases "truthy parentOption")
      case (Some given)
      then show ?thesis using parent Inr by (auto simp: resolveParentId_def commands_of_def first_commands_def)
    next
      case None
      then obtain epic where epic: "tp_epic plan = Some epic"
        "runCreateAndParseId run (ticketCreateArgs (EpicSource epic) None None) worktreePath ?s0 = (Inr parentId, s1)"
        using parent Inr by (auto simp: resolveParentId_def split: option.splits)
      from epic(2) show ?thesis
        by (cases rule: create_cases) (use None epic(1) in \<open>auto simp: commands_of_def first_commands_def\<close>)
    qed
    let ?tickets = "map snd (new_map (map (\<lambda>ticket. (it_key ticket, ticket)) (tp_tickets plan)))"
    have keys: "distinct (map it_key (tp_tickets plan))" using assms(2) by (simp add: plan_integral_def)
    then have tickets: "?tickets = tp_tickets plan" by (simp add: new_map_distinct comp_def)
    obtain q s2 where waves: "waves_loop run parentId worktreePath (tp_tickets plan) [] s1 = (q, s2)" by fastforce
    have plain: "\<forall>t \<in> set (tp_tickets plan). ''constructor'' \<notin> set (it_depends_on t)"
      using assms(2,3) by (auto simp: plan_integral_def)
    from waves_loop_outcome [OF waves keys _ _ plain keys] obtain order rest new where
      "mset (order @ rest) = mset (tp_tickets plan)" "deps_before (depends_of (tp_tickets plan)) {} (map it_key order)"
      "waves_end parentId Map.empty order rest new s1 q s2" by auto
    moreover have "s' = s2" "r = (case q of Inl e \<Rightarrow> Inl e
        | Inr ids \<Rightarrow> Inr \<lparr>ap_createdIds = as_createdIds s', ap_parentId = parentId, ap_taskIdsByKey = ids\<rparr>)"
      using assms(1) parent Inr waves tickets
      by (auto simp: applyTicketPlan_def createChildTickets_def split: sum.splits prod.splits)
    ultimately show thesis using Waves resolved by blast
  qed
qed

text \<open>What a single creation keeps, and what its errors say, holds of the whole application.\<close>

definition keeps_with ::
  "('w apply_state \<Rightarrow> bool) \<Rightarrow> (apply_error \<Rightarrow> 'w apply_state \<Rightarrow> bool) \<Rightarrow> ('w apply_state \<Rightarrow> (apply_error + 'x) \<times> 'w apply_state) \<Rightarrow> bool" where
  "keeps_with P E f \<longleftrightarrow> (\<forall>s r s'. P s \<longrightarrow> f s = (r, s') \<longrightarrow> P s' \<and> (\<forall>e. r = Inl e \<longrightarrow> E e s'))"

lemma keeps_withI:
  "(\<And>s r s'. P s \<Longrightarrow> f s = (r, s') \<Longrightarrow> P s' \<and> (\<forall>e. r = Inl e \<longrightarrow> E e s')) \<Longrightarrow> keeps_with P E f"
  by (simp add: keeps_with_def)

lemma keeps_withD: "keeps_with P E f \<Longrightarrow> P s \<Longrightarrow> f s = (r, s') \<Longrightarrow> P s' \<and> (\<forall>e. r = Inl e \<longrightarrow> E e s')"
  by (simp add: keeps_with_def)

lemma wave_keeps:
  assumes "\<And>args. keeps_with P E (runCreateAndParseId run args worktreePath)"
  shows "keeps_with P E (create_wave run parentId worktreePath ready remaining ids)"
proof (rule keeps_withI)
  fix s r s' assume "P s" "create_wave run parentId worktreePath ready remaining ids s = (r, s')"
  then show "P s' \<and> (\<forall>e. r = Inl e \<longrightarrow> E e s')"
  proof (induction ready arbitrary: remaining ids s)
    case (Cons t ready)
    obtain q s1 where created: "runCreateAndParseId run (ticketCreateArgs (TaskSource t)
        (Some (map (\<lambda>key. or_else (object_value ids key) ''undefined'') (it_depends_on t))) (Some parentId)) worktreePath s = (q, s1)"
      by fastforce
    note kept = keeps_withD [OF assms Cons.prems(1) created]
    show ?case using kept Cons.prems(2) created Cons.IH [of s1] by (cases q) auto
  qed auto
qed

lemma loop_keeps:
  assumes "\<And>args. keeps_with P E (runCreateAndParseId run args worktreePath)"
    and "\<And>s message. P s \<Longrightarrow> E (plain_failure (as_createdIds s) message) s"
  shows "keeps_with P E (waves_loop run parentId worktreePath remaining ids)"
proof (rule keeps_withI)
  fix s r s' assume "P s" "waves_loop run parentId worktreePath remaining ids s = (r, s')"
  then show "P s' \<and> (\<forall>e. r = Inl e \<longrightarrow> E e s')"
    using assms
  proof (induction run parentId worktreePath remaining ids s rule: waves_loop.induct)
    case (1 run parentId worktreePath remaining ids s)
    let ?ready = "filter (ready_ticket ids) remaining"
    consider (all) "remaining = []" | (stuck) "remaining \<noteq> []" "?ready = []" | (wave) "remaining \<noteq> []" "?ready \<noteq> []" by blast
    then show ?case
    proof cases
      case all
      then show ?thesis using "1.prems"(1,2) by (auto simp: waves_loop.simps)
    next
      case stuck
      then have "r = Inl (plain_failure (as_createdIds s)
          ''Cannot apply ticket plan because local dependency keys contain a cycle or unresolved prerequisite.'') \<and> s' = s"
        using "1.prems"(2) by (subst (asm) waves_loop.simps) (simp only: Let_def if_False if_True refl prod.inject, blast)
      then show ?thesis using "1.prems"(1,4) by simp
    next
      case wave
      obtain q s1 where created: "create_wave run parentId worktreePath ?ready remaining ids s = (q, s1)" by fastforce
      note kept = keeps_withD [OF wave_keeps [OF "1.prems"(3)] "1.prems"(1) created]
      show ?thesis
      proof (cases q)
        case (Inl e)
        then show ?thesis using kept "1.prems"(2) created wave by (auto simp: waves_loop.simps Let_def)
      next
        case (Inr answer)
        obtain remaining1 ids1 where answer: "answer = (remaining1, ids1)" by fastforce
        have again: "waves_loop run parentId worktreePath remaining1 ids1 s1 = (r, s')"
          using "1.prems"(2) created wave unfolding Inr answer by (simp add: waves_loop.simps Let_def)
        show ?thesis
          using kept by (intro "1.IH" [OF wave(1) refl wave(2) created [symmetric] Inr [unfolded answer] refl _ again "1.prems"(3,4)]) blast
      qed
    qed
  qed
qed

lemma apply_keeps:
  assumes "applyTicketPlan run plan worktreePath parentOption w = (r, s')"
    and "\<And>args. keeps_with P E (runCreateAndParseId run args worktreePath)"
    and "\<And>s message. P s \<Longrightarrow> E (plain_failure (as_createdIds s) message) s"
    and "P \<lparr>as_world = w, as_commands = [], as_createdIds = []\<rparr>"
  shows "P s' \<and> (\<forall>e. r = Inl e \<longrightarrow> E e s')"
proof -
  let ?s0 = "\<lparr>as_world = w, as_commands = [], as_createdIds = []\<rparr>"
  have "keeps_with P E (resolveParentId run plan parentOption worktreePath)"
    using assms(2,3) by (auto simp: keeps_with_def resolveParentId_def split: option.splits)
  moreover obtain p s1 where parent: "resolveParentId run plan parentOption worktreePath ?s0 = (p, s1)" by fastforce
  ultimately have kept: "P s1 \<and> (\<forall>e. p = Inl e \<longrightarrow> E e s1)" using keeps_withD assms(4) by blast
  show ?thesis
  proof (cases p)
    case (Inl e)
    then show ?thesis using kept assms(1) parent by (auto simp: applyTicketPlan_def)
  next
    case (Inr parentId)
    obtain q s2 where waves: "createChildTickets run plan parentId worktreePath s1 = (q, s2)" by fastforce
    have "P s2 \<and> (\<forall>e. q = Inl e \<longrightarrow> E e s2)"
      using waves kept unfolding createChildTickets_def by (intro keeps_withD [OF loop_keeps [OF assms(2,3)]]) blast+
    then show ?thesis using assms(1) parent waves Inr by (auto simp: applyTicketPlan_def split: sum.splits)
  qed
qed

definition answered_id :: "backlog_error + string \<Rightarrow> string option" where
  "answered_id r = (case r of Inl e \<Rightarrow> None | Inr stdout \<Rightarrow> parseBacklogTaskId stdout)"

text \<open>
  C29: However the application of a plan ends, the ids it reports as created, in its result or in its error,
  are exactly the ids that the backlog answered with, in order: nothing created goes unreported.
\<close>

theorem created_ids_reported:
  assumes "applyTicketPlan run plan worktreePath parentOption w = (r, s')"
  shows "(case r of Inl e \<Rightarrow> ae_createdIds e | Inr applied \<Rightarrow> ap_createdIds applied) =
     List.map_filter answered_id (map snd (as_commands s'))"
proof -
  let ?P = "\<lambda>s. as_createdIds s = List.map_filter answered_id (map snd (as_commands s))"
  let ?E = "\<lambda>e s. ae_createdIds e = as_createdIds s"
  have "keeps_with ?P ?E (runCreateAndParseId run args worktreePath)" for args
    by (rule keeps_withI)
      (auto simp: runCreateAndParseId_def Let_def commandFailure_def unparsed_id_def answered_id_def map_filter_def
        split: prod.splits sum.splits option.splits)
  from apply_keeps [OF assms this] have "?P s' \<and> (\<forall>e. r = Inl e \<longrightarrow> ?E e s')"
    by (simp add: plain_failure_def map_filter_def)
  moreover have "ap_createdIds applied = as_createdIds s'" if "r = Inr applied" for applied
    using assms that by (auto simp: applyTicketPlan_def split: prod.splits sum.splits)
  ultimately show ?thesis by (auto split: sum.splits)
qed

text \<open>
  C27: Applying a plan that is integral creates each of its tickets once, every ticket after all the tickets it
  depends on and with the ids answered for those, under one parent: the parent given or else the epic, which is
  created first. The result maps each key to its id.
\<close>

theorem plan_applied_in_order:
  assumes "applyTicketPlan run plan worktreePath parentOption w = (Inr applied, s')"
    and "plan_integral plan" "''constructor'' \<notin> it_key ` set (tp_tickets plan)"
  shows "\<exists>order new. mset order = mset (tp_tickets plan) \<and> deps_before (depends_of (tp_tickets plan)) {} (map it_key order) \<and>
     length new = length order \<and> map_of (ap_taskIdsByKey applied) = map_of (zip (map it_key order) new) \<and>
     commands_of s' = first_commands plan parentOption @
       map (creation (ap_parentId applied) (map_of (ap_taskIdsByKey applied))) order \<and>
     ap_createdIds applied = (if truthy parentOption = None then [ap_parentId applied] else []) @ new"
  using assms
proof (cases rule: apply_cases)
  case (Waves parentId s1 q order rest new)
  then obtain ids where q: "q = Inr ids" "applied = \<lparr>ap_createdIds = as_createdIds s', ap_parentId = parentId, ap_taskIdsByKey = ids\<rparr>"
    by (auto split: sum.splits)
  then have "rest = []" and ids: "map_of ids = known_ids Map.empty order new"
    and so_far: "created_so_far parentId Map.empty order [] new s1 s'"
    using Waves(6) by (simp_all add: waves_end_def)
  then show ?thesis
    using Waves(1-5) q by (intro exI [of _ order] exI [of _ new]) (auto simp: created_so_far_def known_ids_def ids)
qed simp

subsection \<open>Cycles\<close>

inductive creatable :: "plan_task list \<Rightarrow> string \<Rightarrow> bool" for tickets :: "plan_task list" where
  "t \<in> set tickets \<Longrightarrow> \<forall>d \<in> set (it_depends_on t). creatable tickets d \<Longrightarrow> creatable tickets (it_key t)"

definition depends_rel :: "plan_task list \<Rightarrow> (string \<times> string) set" where
  "depends_rel tickets = {(d, key). d \<in> depends_of tickets key}"

text \<open>A backlog command that always works and prints an id.\<close>

definition reliable :: "'w backlog_run \<Rightarrow> string \<Rightarrow> bool" where
  "reliable run worktreePath \<longleftrightarrow> (\<forall>args w. \<not> failed_answer (fst (run args worktreePath w)))"

lemma reliable_never_fails:
  assumes "applyTicketPlan run plan worktreePath parentOption w = (r, s')" "reliable run worktreePath"
  shows "\<not> wave_failed e s'"
proof -
  let ?P = "\<lambda>s. \<forall>c \<in> set (as_commands s). \<not> failed_answer (snd c)"
  have "keeps_with ?P (\<lambda>e s. True) (runCreateAndParseId run args worktreePath)" for args
  proof (rule keeps_withI)
    fix s r s' assume ok: "?P s" and ran: "runCreateAndParseId run args worktreePath s = (r, s')"
    obtain a w1 where answer: "run args worktreePath (as_world s) = (a, w1)" by fastforce
    have "\<not> failed_answer a" using assms(2) answer unfolding reliable_def by (metis fst_conv)
    moreover have "as_commands s' = as_commands s @ [(args, a)]"
      using ran answer by (auto simp: runCreateAndParseId_def Let_def split: sum.splits option.splits)
    ultimately show "?P s' \<and> (\<forall>e. r = Inl e \<longrightarrow> True)" using ok by auto
  qed
  from apply_keeps [OF assms(1) this] have "?P s'" by simp
  then show ?thesis by (auto simp: wave_failed_def)
qed

lemma waiting_not_creatable:
  assumes "creatable tickets key" "mset (order @ rest) = mset tickets" "distinct (map it_key tickets)"
    and "\<forall>t \<in> set rest. \<not> set (it_depends_on t) \<subseteq> it_key ` set order"
  shows "key \<in> it_key ` set order"
  using assms(1)
proof induction
  case (1 t)
  have "set tickets = set order \<union> set rest" using assms(2) by (metis mset_eq_setD set_append)
  then show ?case using 1 assms(4) by blast
qed

lemma created_creatable:
  assumes "deps_before (depends_of tickets) {} (map it_key order)" "set order \<subseteq> set tickets" "distinct (map it_key tickets)"
  shows "\<forall>t \<in> set order. creatable tickets (it_key t)"
  using assms(1,2)
proof (induction order rule: rev_induct)
  case (snoc t order)
  have "set (it_depends_on t) \<subseteq> it_key ` set order"
    using snoc.prems deps_by_key [OF assms(3), of t] by (simp add: deps_before_append)
  then have "creatable tickets (it_key t)" using snoc by (intro creatable.intros) (auto simp: deps_before_append)
  then show ?case using snoc by (auto simp: deps_before_append)
qed simp

lemma waiting_cycle:
  assumes "plan_integral plan" "mset (order @ rest) = mset (tp_tickets plan)" "rest \<noteq> []"
    and "\<forall>t \<in> set rest. \<not> set (it_depends_on t) \<subseteq> it_key ` set order"
  shows "\<not> acyclic (depends_rel (tp_tickets plan))"
proof
  let ?waiting = "it_key ` set rest"
  assume "acyclic (depends_rel (tp_tickets plan))"
  then have "acyclic {(d, x). x \<in> ?waiting \<and> d \<in> depends_of (tp_tickets plan) x \<and> d \<in> ?waiting}"
    by (rule acyclic_subset) (auto simp: depends_rel_def)
  from acyclic_has_source [OF _ _ this] assms(3) obtain t where t: "t \<in> set rest" "depends_of (tp_tickets plan) (it_key t) \<inter> ?waiting = {}"
    by auto
  have all: "set (tp_tickets plan) = set order \<union> set rest" using assms(2) by (metis mset_eq_setD set_append)
  have "depends_of (tp_tickets plan) (it_key t) = set (it_depends_on t)"
    using assms(1) t(1) all by (intro deps_by_key) (auto simp: plan_integral_def)
  moreover have "set (it_depends_on t) \<subseteq> it_key ` set (tp_tickets plan)"
    using assms(1) t(1) all unfolding plan_integral_def by blast
  ultimately have "set (it_depends_on t) \<subseteq> it_key ` set order" using t(2) unfolding all image_Un by blast
  with assms(4) t(1) show False by blast
qed

text \<open>
  C30: The cycles of a plan are found only by creating tickets: with a parent or an epic and a backlog command
  that works, applying an integral plan succeeds exactly when its dependencies have no cycle, and either way the
  tickets created in the backlog are those that depend on no cycle, each once, which a failure leaves behind.
\<close>

theorem cyclic_plan_partly_created:
  assumes "applyTicketPlan run plan worktreePath parentOption w = (r, s')"
    and "plan_integral plan" "''constructor'' \<notin> it_key ` set (tp_tickets plan)"
    and "reliable run worktreePath" "truthy parentOption \<noteq> None \<or> tp_epic plan \<noteq> None"
  shows "((\<exists>applied. r = Inr applied) \<longleftrightarrow> acyclic (depends_rel (tp_tickets plan))) \<and>
     (\<exists>order parentId ids. commands_of s' = first_commands plan parentOption @ map (creation parentId ids) order \<and>
        distinct (map it_key order) \<and> set order \<subseteq> set (tp_tickets plan) \<and> it_key ` set order = {key. creatable (tp_tickets plan) key})"
  using assms(1-3)
proof (cases rule: apply_cases)
  case (NoParent e)
  then show ?thesis using assms(5) reliable_never_fails [OF assms(1,4)] by blast
next
  case (Waves parentId s1 q order rest new)
  let ?tickets = "tp_tickets plan"
  have keys: "distinct (map it_key ?tickets)" using assms(2) by (simp add: plan_integral_def)
  have all: "set ?tickets = set order \<union> set rest" using Waves(4) by (metis mset_eq_setD set_append)
  have "mset (map it_key (order @ rest)) = mset (map it_key ?tickets)" using Waves(4) by (simp only: mset_map)
  then have apart: "distinct (map it_key (order @ rest))" using keys by (metis mset_eq_imp_distinct_iff)
  have so_far: "created_so_far parentId Map.empty order [] new s1 s'"
    and ends: "(\<exists>ids. q = Inr ids) \<longleftrightarrow> rest = []"
    and waits: "\<forall>t \<in> set rest. \<not> set (it_depends_on t) \<subseteq> it_key ` set order"
    using Waves(6) reliable_never_fails [OF assms(1,4)] by (auto simp: waves_end_def split: sum.splits)
  have made: "it_key ` set order = {key. creatable ?tickets key}"
    using created_creatable [OF Waves(5) _ keys] waiting_not_creatable [OF _ Waves(4) keys waits] all by auto
  have "acyclic (depends_rel ?tickets)" if "rest = []"
    using Waves(5) apart that all
    by (intro deps_before_acyclic [of "depends_of ?tickets" "map it_key order"]) (auto simp: depends_rel_def depends_of_def)
  moreover have "\<not> acyclic (depends_rel ?tickets)" if "rest \<noteq> []"
    using waiting_cycle [OF assms(2) Waves(4) that waits] .
  moreover have "(\<exists>applied. r = Inr applied) \<longleftrightarrow> (\<exists>ids. q = Inr ids)" using Waves(7) by (cases q) auto
  ultimately show ?thesis using ends made apart all so_far Waves(2)
    unfolding created_so_far_def by (metis append_Nil2 distinct_append map_append sup_ge1)
qed

text \<open>
  C6: A ticket that depends on a ticket of the key \<open>constructor\<close>, which the schema accepts, is created before it,
  and with the text of a JavaScript function for an id.
\<close>

definition keyed :: "string \<Rightarrow> string list \<Rightarrow> plan_task" where
  "keyed key deps = \<lparr>it_acceptance_criteria = [], it_description = ''d'', it_key = key, it_likely_files = [], it_plan = ''p'',
     it_priority = None, it_references = [], it_title = key, it_depends_on = deps\<rparr>"

definition numbering :: "nat backlog_run" where
  "numbering args worktreePath n = (Inr (''Task T-'' @ show_nat n), Suc n)"

theorem constructor_key_created_too_late:
  "ticket_plan_issues \<lparr>tp_epic = None, tp_tickets = [keyed ''a'' [''constructor''], keyed ''constructor'' []]\<rparr> = [] \<and>
   LOCAL_KEY_RE ''constructor'' \<and>
   commands_of (snd (applyTicketPlan numbering
      \<lparr>tp_epic = None, tp_tickets = [keyed ''a'' [''constructor''], keyed ''constructor'' []]\<rparr> ''w'' (Some ''E'') 1)) =
     [ticketCreateArgs (TaskSource (keyed ''a'' [''constructor''])) (Some [''function Object() { [native code] }'']) (Some ''E''),
      ticketCreateArgs (TaskSource (keyed ''constructor'' [])) (Some []) (Some ''E'')]"
  by code_simp

subsection \<open>Witnesses\<close>

definition small_plan :: "plan_task list \<Rightarrow> ticket_plan" where
  "small_plan tickets = \<lparr>tp_epic = Some (plan_item.truncate (keyed ''epic'' [])), tp_tickets = tickets\<rparr>"

lemma created_ids_reported_witness:
  "ap_createdIds \<lparr>ap_createdIds = [''T-1''], ap_parentId = ''E'', ap_taskIdsByKey = [(''a'', ''T-1'')]\<rparr> =
     List.map_filter answered_id (map snd (as_commands (snd (applyTicketPlan numbering (small_plan [keyed ''a'' []]) ''w'' (Some ''E'') 1))))"
proof -
  have "applyTicketPlan numbering (small_plan [keyed ''a'' []]) ''w'' (Some ''E'') 1 =
      (Inr \<lparr>ap_createdIds = [''T-1''], ap_parentId = ''E'', ap_taskIdsByKey = [(''a'', ''T-1'')]\<rparr>,
       snd (applyTicketPlan numbering (small_plan [keyed ''a'' []]) ''w'' (Some ''E'') 1))"
    by code_simp
  from created_ids_reported [OF this] show ?thesis by simp
qed

lemma plan_applied_in_order_witness:
  "\<exists>order new. mset order = mset [keyed ''b'' [''a''], keyed ''a'' []] \<and> map_of (zip (map it_key order) new) ''b'' = Some ''T-3'' \<and>
     deps_before (depends_of [keyed ''b'' [''a''], keyed ''a'' []]) {} (map it_key order)"
proof -
  let ?plan = "small_plan [keyed ''b'' [''a''], keyed ''a'' []]"
  have run: "applyTicketPlan numbering ?plan ''w'' None 1 =
      (Inr \<lparr>ap_createdIds = [''T-1'', ''T-2'', ''T-3''], ap_parentId = ''T-1'', ap_taskIdsByKey = [(''a'', ''T-2''), (''b'', ''T-3'')]\<rparr>,
       snd (applyTicketPlan numbering ?plan ''w'' None 1))"
    by code_simp
  have "plan_integral ?plan" unfolding plan_issues_Nil [symmetric] by code_simp
  moreover have "''constructor'' \<notin> it_key ` set (tp_tickets ?plan)" by code_simp
  ultimately obtain order new where "mset order = mset (tp_tickets ?plan)" "deps_before (depends_of (tp_tickets ?plan)) {} (map it_key order)"
    "map_of [(''a'', ''T-2''), (''b'', ''T-3'')] = map_of (zip (map it_key order) new)"
    using plan_applied_in_order [OF run] by auto
  moreover have "map_of [(''a'', ''T-2''), (''b'', ''T-3'')] ''b'' = Some ''T-3''" by simp
  ultimately show ?thesis by (intro exI [of _ order] exI [of _ new]) (simp add: small_plan_def)
qed

definition same_id :: "unit backlog_run" where
  "same_id args worktreePath w = (Inr ''Task T-1'', w)"

lemma cyclic_plan_partly_created_witness:
  "\<exists>e s'. applyTicketPlan same_id (small_plan [keyed ''a'' [''b''], keyed ''b'' [''a''], keyed ''c'' []]) ''w'' (Some ''E'') () = (Inl e, s') \<and>
     \<not> acyclic (depends_rel [keyed ''a'' [''b''], keyed ''b'' [''a''], keyed ''c'' []])"
proof -
  let ?plan = "small_plan [keyed ''a'' [''b''], keyed ''b'' [''a''], keyed ''c'' []]"
  have "case applyTicketPlan same_id ?plan ''w'' (Some ''E'') () of (Inl e, s') \<Rightarrow> True | (Inr applied, s') \<Rightarrow> False" by code_simp
  then obtain e s' where run: "applyTicketPlan same_id ?plan ''w'' (Some ''E'') () = (Inl e, s')"
    by (auto split: prod.splits sum.splits)
  have integral: "plan_integral ?plan" unfolding plan_issues_Nil [symmetric] by code_simp
  have keys: "''constructor'' \<notin> it_key ` set (tp_tickets ?plan)" by code_simp
  have "parseBacklogTaskId ''Task T-1'' = Some ''T-1''" by code_simp
  then have works: "reliable same_id ''w''" by (simp add: reliable_def same_id_def failed_answer_def)
  from cyclic_plan_partly_created [OF run integral keys works] run show ?thesis
    by (auto simp: truthy_def small_plan_def)
qed

end
