(* ===== verification/RunnerEvents.thy ===== *)
theory RunnerEvents
  imports Plan JsData NodeStore
begin

text \<open>
  The events of a run and the records sent for them (\<^verbatim>\<open>src/runtime/contracts/contracts.ts\<close>, the union
  \<open>PipelineRuntimeEvent\<close>, and \<^verbatim>\<open>src/runner-command-contract.ts\<close>, the mapping of events to records with
  \<^verbatim>\<open>src/runner-event-mapping.ts\<close>). Names of hook events and of observations are strings; the text of a JSON
  value is a parameter. The fields of a mapping are read from the constructor it is tagged with.
\<close>

subsection \<open>Events\<close>

record edge_details =
  ed_source :: string
  ed_target :: string

record plan_node_details =
  pnd_id :: string
  pnd_kind :: node_kind
  pnd_needs :: "string list"
  pnd_profile :: "string option"
  pnd_runnerId :: "string option"

record hook_artifact =
  ha_contentType :: "string option"
  ha_name :: string
  ha_path :: string

datatype hook_status = HookFail | HookPass | HookSkip

datatype log_level = InfoLevel | WarnLevel

datatype delivery_action = PullRequestOpened | PullRequestUpdated

text \<open>What every event of a hook says: event, functionId, gateId, hookId, nodeId, workflowId.\<close>

record hook_ref =
  hr_event :: string
  hr_functionId :: string
  hr_gateId :: "string option"
  hr_hookId :: string
  hr_nodeId :: "string option"
  hr_workflowId :: string

datatype pipeline_event =
    WorkflowPlannedEvent (wpe_edges: "edge_details list") "plan_node_details list" string
  | WorkflowStartEvent "string list" string
  | NodeStartedEvent nat string "string option" "string option"
  | NodeFinishedEvent nat int string "string option" "string option" result_status
  | NodeOutputEvent nat string string json "string option" "string option" "string option"
  | NodeSessionEvent string string
  | AgentStartEvent nat string "string option" "string option"
  | AgentFinishEvent nat int string "string option" "string option"
  | GateStartedEvent string string string
  | GateFinishedEvent "string list option" string string string bool "string option"
  | ArtifactStartEvent string string bool
  | ArtifactFinishEvent string bool string "string option" bool
  | HookStartEvent hook_ref bool
  | HookFinishEvent hook_ref bool "string option" bool
  | HookResultEvent "hook_artifact list option" hook_ref "(string \<times> json) list option" hook_status "string option"
  | OutputRepairEvent nat string bool "string option"
  | ObservabilityEvent log_level string "string option" string string
  | PullRequestEvent delivery_action string
  | WorkflowFinishEvent run_outcome string

fun event_type :: "pipeline_event \<Rightarrow> string" where
  "event_type (WorkflowPlannedEvent edges nodes w) = ''workflow.planned''"
| "event_type (WorkflowStartEvent ids w) = ''workflow.start''"
| "event_type (NodeStartedEvent a n p r) = ''node.start''"
| "event_type (NodeFinishedEvent a x n p r s) = ''node.finish''"
| "event_type (NodeOutputEvent a f n out e p s) = ''node.output.recorded''"
| "event_type (NodeSessionEvent n s) = ''node.session''"
| "event_type (AgentStartEvent a n p r) = ''agent.start''"
| "event_type (AgentFinishEvent a x n p r) = ''agent.finish''"
| "event_type (GateStartedEvent g k n) = ''gate.start''"
| "event_type (GateFinishedEvent e g k n p r) = ''gate.finish''"
| "event_type (ArtifactStartEvent n p q) = ''artifact.check.start''"
| "event_type (ArtifactFinishEvent n p path r q) = ''artifact.check.finish''"
| "event_type (HookStartEvent h q) = ''hook.start''"
| "event_type (HookFinishEvent h p r q) = ''hook.finish''"
| "event_type (HookResultEvent a h outs s m) = ''hook.result''"
| "event_type (OutputRepairEvent a n p r) = ''output.repair''"
| "event_type (ObservabilityEvent l name n s w) = ''runtime.observability''"
| "event_type (PullRequestEvent a url) = ''delivery.pull-request''"
| "event_type (WorkflowFinishEvent out w) = ''workflow.finish''"

subsection \<open>Records\<close>

record plan_details =
  pd_edges :: "edge_details list option"
  pd_nodeIds :: "string list option"
  pd_nodes :: "plan_node_details list option"
  pd_workflowId :: string

datatype runner_node_status = AgentFinished | AgentRunning | RunnerNodeFailed | RunnerNodePassed | RunnerNodeRunning

record node_details =
  nd_attempt :: nat
  nd_exitCode :: "int option"
  nd_nodeId :: string
  nd_profile :: "string option"
  nd_runnerId :: "string option"
  nd_status :: runner_node_status

datatype check_status = CheckFailed | CheckPassed | CheckRunning

record gate_details =
  gt_event :: "string option"
  gt_evidence :: "string list option"
  gt_gateId :: "string option"
  gt_hookId :: "string option"
  gt_kind :: "string option"
  gt_label :: "string option"
  gt_nodeId :: "string option"
  gt_passed :: "bool option"
  gt_reason :: "string option"
  gt_required :: "bool option"
  gt_status :: check_status
  gt_workflowId :: "string option"

record artifact_details =
  ad_kind :: string
  ad_label :: string
  ad_nodeId :: string
  ad_passed :: "bool option"
  ad_path :: string
  ad_reason :: "string option"
  ad_required :: bool
  ad_status :: check_status
  ad_uri :: string

record log_details =
  lg_attempt :: "nat option"
  lg_format :: "string option"
  lg_level :: log_level
  lg_message :: string
  lg_nodeId :: "string option"
  lg_output :: "json option"
  lg_passed :: "bool option"
  lg_reason :: "string option"
  lg_workflowId :: "string option"

record hook_details =
  hd_artifacts :: "hook_artifact list option"
  hd_outputs :: "(string \<times> json) list option"
  hd_ref :: hook_ref
  hd_status :: hook_status
  hd_summary :: "string option"

datatype record_body =
    PlanBody plan_details
  | EdgeBody string edge_details
  | NodeBody node_details
  | GateBody gate_details
  | HookResultBody hook_details
  | ArtifactBody artifact_details
  | LogBody log_details
  | FinalResultBody run_outcome string
  | PullRequestBody delivery_action string

record event_base =
  eb_at :: string
  eb_runId :: string
  eb_sequence :: nat

record event_record = event_base +
  re_body :: record_body
  re_type :: string

definition recorded :: "event_base \<Rightarrow> string \<Rightarrow> record_body \<Rightarrow> event_record" where
  "recorded b type body = event_base.extend b \<lparr>re_body = body, re_type = type\<rparr>"

record mapping_context =
  mc_runId :: string
  mc_sequence :: "nat option"
  mc_timestamp :: string

subsection \<open>The mapping\<close>

definition edgeRecords :: "mapping_context \<Rightarrow> edge_details list \<Rightarrow> event_record list" where
  "edgeRecords cx edges = map (\<lambda>(index, edge).
     recorded \<lparr>eb_at = mc_timestamp cx, eb_runId = mc_runId cx, eb_sequence = or_else (mc_sequence cx) 1 + index + 1\<rparr>
       ''workflow.edge'' (EdgeBody (ed_source edge @ '':'' @ ed_target edge) edge)) (enumerate 0 edges)"

fun mapWorkflowRunnerEvent :: "pipeline_event \<Rightarrow> mapping_context \<Rightarrow> event_base \<Rightarrow> event_record list option" where
  "mapWorkflowRunnerEvent (WorkflowPlannedEvent edges nodes w) cx b = Some
     (recorded b ''workflow.planned'' (PlanBody \<lparr>pd_edges = Some edges, pd_nodeIds = None, pd_nodes = Some nodes, pd_workflowId = w\<rparr>)
      # edgeRecords cx edges)"
| "mapWorkflowRunnerEvent (WorkflowStartEvent ids w) cx b = Some
     [recorded b ''workflow.start'' (PlanBody \<lparr>pd_edges = None, pd_nodeIds = Some ids, pd_nodes = None, pd_workflowId = w\<rparr>)]"
| "mapWorkflowRunnerEvent (WorkflowFinishEvent out w) cx b = Some [recorded b ''workflow.finish'' (FinalResultBody out w)]"
| "mapWorkflowRunnerEvent event cx b = None"

fun mapDeliveryRunnerEvent :: "pipeline_event \<Rightarrow> event_base \<Rightarrow> event_record list option" where
  "mapDeliveryRunnerEvent (PullRequestEvent action url) b = Some [recorded b ''delivery.pull-request'' (PullRequestBody action url)]"
| "mapDeliveryRunnerEvent event b = None"

fun nodeEventStatus :: "result_status option \<Rightarrow> string \<Rightarrow> runner_node_status" where
  "nodeEventStatus (Some ResultPassed) type = RunnerNodePassed"
| "nodeEventStatus (Some ResultFailed) type = RunnerNodeFailed"
| "nodeEventStatus None type =
     (if type = ''agent.finish'' then AgentFinished else if type = ''agent.start'' then AgentRunning else RunnerNodeRunning)"

fun nodeEventDetails :: "pipeline_event \<Rightarrow> node_details option" where
  "nodeEventDetails (NodeStartedEvent a n p r) = Some \<lparr>nd_attempt = a, nd_exitCode = None, nd_nodeId = n, nd_profile = p,
     nd_runnerId = r, nd_status = nodeEventStatus None ''node.start''\<rparr>"
| "nodeEventDetails (NodeFinishedEvent a x n p r s) = Some \<lparr>nd_attempt = a, nd_exitCode = Some x, nd_nodeId = n, nd_profile = p,
     nd_runnerId = r, nd_status = nodeEventStatus (Some s) ''node.finish''\<rparr>"
| "nodeEventDetails (AgentStartEvent a n p r) = Some \<lparr>nd_attempt = a, nd_exitCode = None, nd_nodeId = n, nd_profile = p,
     nd_runnerId = r, nd_status = nodeEventStatus None ''agent.start''\<rparr>"
| "nodeEventDetails (AgentFinishEvent a x n p r) = Some \<lparr>nd_attempt = a, nd_exitCode = Some x, nd_nodeId = n, nd_profile = p,
     nd_runnerId = r, nd_status = nodeEventStatus None ''agent.finish''\<rparr>"
| "nodeEventDetails event = None"

definition mapNodeRunnerEvent :: "pipeline_event \<Rightarrow> event_base \<Rightarrow> event_record list option" where
  "mapNodeRunnerEvent event b = (case event of
     NodeSessionEvent n s \<Rightarrow> Some []
   | _ \<Rightarrow> map_option (\<lambda>details. [recorded b (event_type event) (NodeBody details)]) (nodeEventDetails event))"

definition passed_status :: "bool \<Rightarrow> check_status" where
  "passed_status passed = (if passed then CheckPassed else CheckFailed)"

fun mapGateRunnerEvent :: "pipeline_event \<Rightarrow> event_base \<Rightarrow> event_record list option" where
  "mapGateRunnerEvent (GateStartedEvent g k n) b = Some [recorded b ''gate.start'' (GateBody
     \<lparr>gt_event = None, gt_evidence = None, gt_gateId = Some g, gt_hookId = None, gt_kind = Some k, gt_label = Some g,
      gt_nodeId = Some n, gt_passed = None, gt_reason = None, gt_required = None, gt_status = CheckRunning, gt_workflowId = None\<rparr>)]"
| "mapGateRunnerEvent (GateFinishedEvent e g k n p r) b = Some [recorded b ''gate.finish'' (GateBody
     \<lparr>gt_event = None, gt_evidence = e, gt_gateId = Some g, gt_hookId = None, gt_kind = Some k, gt_label = Some g,
      gt_nodeId = Some n, gt_passed = Some p, gt_reason = r, gt_required = None, gt_status = passed_status p, gt_workflowId = None\<rparr>)]"
| "mapGateRunnerEvent event b = None"

definition artifactEventStatus :: "bool option \<Rightarrow> check_status" where
  "artifactEventStatus passed = (case passed of None \<Rightarrow> CheckRunning | Some p \<Rightarrow> passed_status p)"

definition artifactEventDetails :: "string \<Rightarrow> bool option \<Rightarrow> string \<Rightarrow> string option \<Rightarrow> bool \<Rightarrow> artifact_details" where
  "artifactEventDetails nodeId passed path reason required =
     \<lparr>ad_kind = ''artifact'', ad_label = path, ad_nodeId = nodeId, ad_passed = passed, ad_path = path, ad_reason = reason,
      ad_required = required, ad_status = artifactEventStatus passed, ad_uri = path\<rparr>"

fun mapArtifactRunnerEvent :: "pipeline_event \<Rightarrow> event_base \<Rightarrow> event_record list option" where
  "mapArtifactRunnerEvent (ArtifactStartEvent n path q) b =
     Some [recorded b ''artifact.check.start'' (ArtifactBody (artifactEventDetails n None path None q))]"
| "mapArtifactRunnerEvent (ArtifactFinishEvent n p path r q) b =
     Some [recorded b ''artifact.check.finish'' (ArtifactBody (artifactEventDetails n (Some p) path r q))]"
| "mapArtifactRunnerEvent event b = None"

definition hookGateDetails :: "hook_ref \<Rightarrow> bool option \<Rightarrow> string option \<Rightarrow> bool \<Rightarrow> gate_details" where
  "hookGateDetails h passed reason required =
     \<lparr>gt_event = Some (hr_event h), gt_evidence = None, gt_gateId = hr_gateId h, gt_hookId = Some (hr_hookId h), gt_kind = None,
      gt_label = None, gt_nodeId = hr_nodeId h, gt_passed = passed, gt_reason = reason, gt_required = Some required,
      gt_status = artifactEventStatus passed, gt_workflowId = Some (hr_workflowId h)\<rparr>"

fun mapHookRunnerEvent :: "pipeline_event \<Rightarrow> event_base \<Rightarrow> event_record list option" where
  "mapHookRunnerEvent (HookStartEvent h q) b = Some [recorded b ''hook.start'' (GateBody (hookGateDetails h None None q))]"
| "mapHookRunnerEvent (HookFinishEvent h p r q) b = Some [recorded b ''hook.finish'' (GateBody (hookGateDetails h (Some p) r q))]"
| "mapHookRunnerEvent (HookResultEvent a h outs s m) b = Some [recorded b ''hook.result'' (HookResultBody
     \<lparr>hd_artifacts = a, hd_outputs = outs, hd_ref = h, hd_status = s, hd_summary = m\<rparr>)]"
| "mapHookRunnerEvent event b = None"

definition plain_log :: "log_level \<Rightarrow> string \<Rightarrow> log_details" where
  "plain_log level message =
     \<lparr>lg_attempt = None, lg_format = None, lg_level = level, lg_message = message, lg_nodeId = None, lg_output = None,
      lg_passed = None, lg_reason = None, lg_workflowId = None\<rparr>"

definition formatLogMessage :: "(json \<Rightarrow> string) \<Rightarrow> json \<Rightarrow> string" where
  "formatLogMessage stringify output = (case output of JStr s \<Rightarrow> s | _ \<Rightarrow> stringify output)"

definition outputRepairLogMessage :: "bool \<Rightarrow> string option \<Rightarrow> string" where
  "outputRepairLogMessage passed reason = or_else reason (''Output repair '' @ (if passed then ''passed'' else ''failed''))"

fun logRecorder :: "(json \<Rightarrow> string) \<Rightarrow> pipeline_event \<Rightarrow> log_details option" where
  "logRecorder stringify (NodeOutputEvent a f n out e p s) = Some
     ((plain_log (if truthy e \<noteq> None then WarnLevel else InfoLevel) (formatLogMessage stringify out))
        \<lparr>lg_format := Some f, lg_nodeId := Some n, lg_output := Some out\<rparr>)"
| "logRecorder stringify (OutputRepairEvent a n p r) = Some
     ((plain_log (if p then InfoLevel else WarnLevel) (outputRepairLogMessage p r))
        \<lparr>lg_attempt := Some a, lg_nodeId := Some n, lg_passed := Some p, lg_reason := r\<rparr>)"
| "logRecorder stringify (ObservabilityEvent l name n s w) = Some
     ((plain_log l (''Runtime observed: '' @ name @ '' - '' @ s))\<lparr>lg_nodeId := n, lg_workflowId := Some w\<rparr>)"
| "logRecorder stringify event = None"

definition mapLogRunnerEvent :: "(json \<Rightarrow> string) \<Rightarrow> pipeline_event \<Rightarrow> event_base \<Rightarrow> event_record list option" where
  "mapLogRunnerEvent stringify event b =
     map_option (\<lambda>details. [recorded b (event_type event) (LogBody details)]) (logRecorder stringify event)"

fun firstSomeOf :: "'x option list \<Rightarrow> 'x option" where
  "firstSomeOf [] = None"
| "firstSomeOf (Some x # xs) = Some x"
| "firstSomeOf (None # xs) = firstSomeOf xs"

definition mapRuntimeEventToRunnerEventRecords ::
  "(json \<Rightarrow> string) \<Rightarrow> pipeline_event \<Rightarrow> mapping_context \<Rightarrow> string + event_record list" where
  "mapRuntimeEventToRunnerEventRecords stringify event cx =
     (let b = \<lparr>eb_at = mc_timestamp cx, eb_runId = mc_runId cx, eb_sequence = or_else (mc_sequence cx) 1\<rparr> in
      case firstSomeOf [mapWorkflowRunnerEvent event cx b, mapNodeRunnerEvent event b, mapGateRunnerEvent event b,
          mapArtifactRunnerEvent event b, mapHookRunnerEvent event b, mapDeliveryRunnerEvent event b,
          mapLogRunnerEvent stringify event b] of
        Some records \<Rightarrow> Inr records
      | None \<Rightarrow> Inl (''Unhandled runtime event: '' @ event_type event))"

subsection \<open>Every event is mapped\<close>

lemma recorded_simps [simp]:
  "eb_at (recorded b type body) = eb_at b" "eb_runId (recorded b type body) = eb_runId b"
  "eb_sequence (recorded b type body) = eb_sequence b" "re_type (recorded b type body) = type" "re_body (recorded b type body) = body"
  by (simp_all add: recorded_def event_base.defs)

definition record_count :: "pipeline_event \<Rightarrow> nat" where
  "record_count event = (case event of NodeSessionEvent n s \<Rightarrow> 0 | WorkflowPlannedEvent edges nodes w \<Rightarrow> Suc (length edges) | _ \<Rightarrow> 1)"

lemma edgeRecords_numbered:
  "map eb_sequence (edgeRecords cx edges) = [Suc (or_else (mc_sequence cx) 1) ..< Suc (or_else (mc_sequence cx) 1) + length edges]"
  by (rule nth_equalityI) (auto simp: edgeRecords_def nth_enumerate_eq simp del: upt_Suc)

lemma edgeRecords_fields:
  "length (edgeRecords cx edges) = length edges" "eb_runId ` set (edgeRecords cx edges) \<subseteq> {mc_runId cx}"
  "re_type ` set (edgeRecords cx edges) \<subseteq> {''workflow.edge''}"
  by (auto simp: edgeRecords_def)

lemma event_records_numbered:
  "\<exists>records. mapRuntimeEventToRunnerEventRecords stringify event cx = Inr records \<and> length records = record_count event \<and>
     map eb_sequence records = [or_else (mc_sequence cx) 1 ..< or_else (mc_sequence cx) 1 + length records] \<and>
     eb_runId ` set records \<subseteq> {mc_runId cx} \<and>
     (if records = [] then event_type event = ''node.session'' else re_type (hd records) = event_type event) \<and>
     re_type ` set (tl records) \<subseteq> {''workflow.edge''}"
  using edgeRecords_numbered [of cx] edgeRecords_fields [of cx]
  by (cases event)
    (auto simp: mapRuntimeEventToRunnerEventRecords_def mapNodeRunnerEvent_def mapLogRunnerEvent_def record_count_def Let_def
      upt_conv_Cons simp del: upt_Suc)

text \<open>
  Every event of a run has records, no event is unhandled: one with its type, run and sequence number, except
  that a session has none and a planned workflow has one more for each edge; together they take consecutive numbers.
\<close>

theorem every_event_recorded:
  "\<exists>records. mapRuntimeEventToRunnerEventRecords stringify event cx = Inr records \<and> length records = record_count event \<and>
     map eb_sequence records = [or_else (mc_sequence cx) 1 ..< or_else (mc_sequence cx) 1 + length records] \<and>
     eb_runId ` set records \<subseteq> {mc_runId cx} \<and>
     (if records = [] then event_type event = ''node.session'' else re_type (hd records) = event_type event) \<and>
     re_type ` set (tl records) \<subseteq> {''workflow.edge''}"
  by (rule event_records_numbered)

end
