(* ===== verification/EventSink.thy ===== *)
theory EventSink
  imports RunnerEvents
begin

text \<open>
  The sink of runner events (\<^verbatim>\<open>src/runner-event-sink.ts\<close>): records are numbered and queued, and flushes, one
  after the other, post them in batches. The sink is a step relation: calls of its interface, the microtask of a
  scheduled flush and the pieces of a flush between two suspensions interleave freely, and whether a post is
  accepted is the choice of a step. The clock is a sequence of time stamps, the HTTP client a parameter.
\<close>

subsection \<open>Options\<close>

record sink_options =
  so_authHeader :: "string option"
  so_authToken :: string
  so_batchSize :: "int option"
  so_hasFetch :: bool
  so_maxRetries :: "int option"
  so_retryDelayMs :: "int option"
  so_runId :: string
  so_url :: string

definition DEFAULT_BATCH_SIZE :: int where "DEFAULT_BATCH_SIZE = 50"
definition SINK_MAX_RETRIES :: int where "SINK_MAX_RETRIES = 2"
definition DEFAULT_RETRY_DELAY_MS :: int where "DEFAULT_RETRY_DELAY_MS = 250"

definition positiveOrDefault :: "int option \<Rightarrow> int \<Rightarrow> int" where
  "positiveOrDefault v fallback = max 1 (or_else v fallback)"

definition nonNegativeOrDefault :: "int option \<Rightarrow> int \<Rightarrow> int" where
  "nonNegativeOrDefault v fallback = max 0 (or_else v fallback)"

definition resolveFetch :: "bool \<Rightarrow> bool \<Rightarrow> string + unit" where
  "resolveFetch given globalFetch =
     (if given \<or> globalFetch then Inr () else Inl ''Runner event sink requires fetch support'')"

definition assertAuthToken :: "string \<Rightarrow> string + unit" where
  "assertAuthToken authToken = (if js_trim authToken = [] then Inl ''Runner event sink requires an auth token'' else Inr ())"

record post_request =
  pr_authHeader :: "string option"
  pr_authToken :: string
  pr_events :: "event_record list"
  pr_maxRetries :: int
  pr_retryDelayMs :: int
  pr_url :: string

definition postBatchRequest :: "sink_options \<Rightarrow> event_record list \<Rightarrow> post_request" where
  "postBatchRequest options events =
     \<lparr>pr_authHeader = so_authHeader options, pr_authToken = so_authToken options, pr_events = events,
      pr_maxRetries = nonNegativeOrDefault (so_maxRetries options) SINK_MAX_RETRIES,
      pr_retryDelayMs = nonNegativeOrDefault (so_retryDelayMs options) DEFAULT_RETRY_DELAY_MS, pr_url = so_url options\<rparr>"

definition batch_size :: "sink_options \<Rightarrow> nat" where
  "batch_size options = nat (positiveOrDefault (so_batchSize options) DEFAULT_BATCH_SIZE)"

lemma batch_size_positive [simp]: "0 < batch_size options"
  by (simp add: batch_size_def positiveOrDefault_def)

subsection \<open>State\<close>

text \<open>
  \<open>flushChain\<close> is the flush that runs and the number of flushes waiting for it. Two fields are for
  specification: everything recorded so far and the batches that were accepted.
\<close>

datatype flush_phase = Idle | Draining | Posting "event_record list"

record sink_state =
  sk_queue :: "event_record list"
  sk_nextSequence :: nat
  sk_scheduledFlush :: bool
  sk_waiting :: nat
  sk_active :: flush_phase
  sk_failed :: bool
  sk_ticks :: nat
  sk_recorded :: "event_record list"
  sk_posted :: "event_record list list"

definition initial_sink :: sink_state where
  "initial_sink = \<lparr>sk_queue = [], sk_nextSequence = 1, sk_scheduledFlush = False, sk_waiting = 0, sk_active = Idle,
     sk_failed = False, sk_ticks = 0, sk_recorded = [], sk_posted = []\<rparr>"

definition createRunnerEventSink :: "sink_options \<Rightarrow> bool \<Rightarrow> string + sink_state" where
  "createRunnerEventSink options globalFetch = (case resolveFetch (so_hasFetch options) globalFetch of
     Inl e \<Rightarrow> Inl e
   | Inr _ \<Rightarrow> (case assertAuthToken (so_authToken options) of Inl e \<Rightarrow> Inl e | Inr _ \<Rightarrow> Inr initial_sink))"

subsection \<open>Recording\<close>

definition timestamp :: "(nat \<Rightarrow> string) \<Rightarrow> sink_state \<Rightarrow> string \<times> sink_state" where
  "timestamp now s = (now (sk_ticks s), s\<lparr>sk_ticks := Suc (sk_ticks s)\<rparr>)"

definition nextEnvelope :: "sink_options \<Rightarrow> (nat \<Rightarrow> string) \<Rightarrow> sink_state \<Rightarrow> event_base \<times> sink_state" where
  "nextEnvelope options now s = (case timestamp now s of (at_time, s1) \<Rightarrow>
     (\<lparr>eb_at = at_time, eb_runId = so_runId options, eb_sequence = sk_nextSequence s\<rparr>,
      s1\<lparr>sk_nextSequence := Suc (sk_nextSequence s)\<rparr>))"

definition queue_push :: "event_record list \<Rightarrow> sink_state \<Rightarrow> sink_state" where
  "queue_push records s = s\<lparr>sk_queue := sk_queue s @ records, sk_recorded := sk_recorded s @ records\<rparr>"

definition scheduleFlush :: "sink_state \<Rightarrow> sink_state" where
  "scheduleFlush s = (if sk_scheduledFlush s then s else s\<lparr>sk_scheduledFlush := True\<rparr>)"

definition push_enveloped :: "sink_options \<Rightarrow> (nat \<Rightarrow> string) \<Rightarrow> string \<Rightarrow> record_body \<Rightarrow> sink_state \<Rightarrow> sink_state" where
  "push_enveloped options now type body s = (case nextEnvelope options now s of (b, s1) \<Rightarrow> queue_push [recorded b type body] s1)"

definition recordRuntimeEvent ::
  "sink_options \<Rightarrow> (nat \<Rightarrow> string) \<Rightarrow> (json \<Rightarrow> string) \<Rightarrow> pipeline_event \<Rightarrow> sink_state \<Rightarrow> (string + unit) \<times> sink_state" where
  "recordRuntimeEvent options now stringify event s = (case timestamp now s of (at_time, s1) \<Rightarrow>
     (case mapRuntimeEventToRunnerEventRecords stringify event
         \<lparr>mc_runId = so_runId options, mc_sequence = Some (sk_nextSequence s), mc_timestamp = at_time\<rparr> of
        Inl e \<Rightarrow> (Inl e, s1)
      | Inr records \<Rightarrow> (Inr (), scheduleFlush ((queue_push records s1)\<lparr>sk_nextSequence := sk_nextSequence s + length records\<rparr>))))"

definition recordFinalResult ::
  "sink_options \<Rightarrow> (nat \<Rightarrow> string) \<Rightarrow> (json \<Rightarrow> string) \<Rightarrow> run_outcome \<Rightarrow> string \<Rightarrow> sink_state \<Rightarrow> (string + unit) \<times> sink_state" where
  "recordFinalResult options now stringify outcome workflowId =
     recordRuntimeEvent options now stringify (WorkflowFinishEvent outcome workflowId)"

definition recordCancellation :: "sink_options \<Rightarrow> (nat \<Rightarrow> string) \<Rightarrow> string \<Rightarrow> sink_state \<Rightarrow> sink_state" where
  "recordCancellation options now workflowId s =
     scheduleFlush (push_enveloped options now ''workflow.finish'' (FinalResultBody CANCELLED workflowId)
       (push_enveloped options now ''run.cancelled''
         (LogBody (plain_log WarnLevel ''Runner received a termination signal and cancelled the run.'')) s))"

definition recordRunnerCommandPhase ::
  "sink_options \<Rightarrow> (nat \<Rightarrow> string) \<Rightarrow> string \<Rightarrow> string \<Rightarrow> (string \<times> json) list \<Rightarrow> sink_state \<Rightarrow> sink_state" where
  "recordRunnerCommandPhase options now phase message output s =
     scheduleFlush (push_enveloped options now ''runner.command.phase''
       (LogBody ((plain_log InfoLevel message)\<lparr>lg_output := Some (JObj (new_map ((''phase'', JStr phase) # output)))\<rparr>)) s)"

definition recordSchemaValidationFailure ::
  "sink_options \<Rightarrow> (nat \<Rightarrow> string) \<Rightarrow> string \<Rightarrow> (string \<times> string) list \<Rightarrow> string \<Rightarrow> sink_state \<Rightarrow> sink_state" where
  "recordSchemaValidationFailure options now message issues workflowId s =
     scheduleFlush (push_enveloped options now ''workflow.finish'' (FinalResultBody FAIL workflowId)
       (push_enveloped options now ''runner.schema.validation''
         (LogBody ((plain_log WarnLevel (''Runner payload schema validation failed: '' @ message))
           \<lparr>lg_output := Some (JObj [(''issues'',
              JArr (map (\<lambda>(m, path). JObj [(''message'', JStr m), (''path'', JStr path)]) issues))]),
            lg_workflowId := Some workflowId\<rparr>)) s))"

datatype sink_call =
    RecordCancellation string
  | RecordFinalResult run_outcome string
  | RecordRunnerCommandPhase string string "(string \<times> json) list"
  | RecordRuntimeEvent pipeline_event
  | RecordSchemaValidationFailure string "(string \<times> string) list" string

fun perform_call :: "sink_options \<Rightarrow> (nat \<Rightarrow> string) \<Rightarrow> (json \<Rightarrow> string) \<Rightarrow> sink_call \<Rightarrow> sink_state \<Rightarrow> sink_state" where
  "perform_call options now stringify (RecordCancellation w) s = recordCancellation options now w s"
| "perform_call options now stringify (RecordFinalResult r w) s = snd (recordFinalResult options now stringify r w s)"
| "perform_call options now stringify (RecordRunnerCommandPhase p m output) s = recordRunnerCommandPhase options now p m output s"
| "perform_call options now stringify (RecordRuntimeEvent event) s = snd (recordRuntimeEvent options now stringify event s)"
| "perform_call options now stringify (RecordSchemaValidationFailure m issues w) s =
     recordSchemaValidationFailure options now m issues w s"

subsection \<open>Flushing\<close>

text \<open>One round of \<open>flushQueue\<close>: the batch that is posted, and what happens when the post is accepted or fails.\<close>

definition next_batch :: "sink_options \<Rightarrow> sink_state \<Rightarrow> event_record list" where
  "next_batch options s = take (batch_size options) (sk_queue s)"

definition batch_accepted :: "event_record list \<Rightarrow> sink_state \<Rightarrow> sink_state" where
  "batch_accepted batch s =
     s\<lparr>sk_queue := drop (length batch) (sk_queue s), sk_active := Draining, sk_posted := sk_posted s @ [batch]\<rparr>"

definition flush_ended :: "bool \<Rightarrow> sink_state \<Rightarrow> sink_state" where
  "flush_ended failed s = s\<lparr>sk_active := Idle, sk_failed := failed\<rparr>"

inductive sink_step ::
  "sink_options \<Rightarrow> (nat \<Rightarrow> string) \<Rightarrow> (json \<Rightarrow> string) \<Rightarrow> sink_state \<Rightarrow> sink_state \<Rightarrow> bool"
  for options :: sink_options and now :: "nat \<Rightarrow> string" and stringify :: "json \<Rightarrow> string" where
  Record: "sink_step options now stringify s (perform_call options now stringify call s)"
| Microtask: "sk_scheduledFlush s \<Longrightarrow>
    sink_step options now stringify s (s\<lparr>sk_scheduledFlush := False, sk_waiting := Suc (sk_waiting s)\<rparr>)"
| CallFlush: "sink_step options now stringify s (s\<lparr>sk_waiting := Suc (sk_waiting s)\<rparr>)"
| Begin: "sk_active s = Idle \<Longrightarrow> sk_waiting s = Suc n \<Longrightarrow>
    sink_step options now stringify s (s\<lparr>sk_active := Draining, sk_waiting := n\<rparr>)"
| PostNext: "sk_active s = Draining \<Longrightarrow> sk_queue s \<noteq> [] \<Longrightarrow>
    sink_step options now stringify s (s\<lparr>sk_active := Posting (next_batch options s)\<rparr>)"
| Accept: "sk_active s = Posting batch \<Longrightarrow> sink_step options now stringify s (batch_accepted batch s)"
| Reject: "sk_active s = Posting batch \<Longrightarrow> sink_step options now stringify s (flush_ended True s)"
| Drained: "sk_active s = Draining \<Longrightarrow> sk_queue s = [] \<Longrightarrow> sink_step options now stringify s (flush_ended False s)"

inductive_cases sink_stepE: "sink_step options now stringify s s'"

abbreviation sink_run :: "sink_options \<Rightarrow> (nat \<Rightarrow> string) \<Rightarrow> (json \<Rightarrow> string) \<Rightarrow> sink_state \<Rightarrow> bool" where
  "sink_run options now stringify \<equiv> (sink_step options now stringify)\<^sup>*\<^sup>* initial_sink"

text \<open>
  \<open>flushQueue\<close> as a whole, when nothing is recorded meanwhile: \<open>post\<close> answers whether the batch was accepted.
\<close>

function flushQueue ::
  "sink_options \<Rightarrow> (post_request \<Rightarrow> 'w \<Rightarrow> (string + unit) \<times> 'w) \<Rightarrow> event_record list \<Rightarrow> 'w \<Rightarrow>
   (string + unit) \<times> event_record list \<times> 'w" where
  "flushQueue options post queue w =
     (if queue = [] then (Inr (), [], w)
      else let batch = take (batch_size options) queue in
        case post (postBatchRequest options batch) w of
          (Inl e, w1) \<Rightarrow> (Inl e, queue, w1)
        | (Inr _, w1) \<Rightarrow> flushQueue options post (drop (length batch) queue) w1)"
  by pat_completeness auto

termination
  by (relation "measure (\<lambda>(options, post, queue, w). length queue)") auto

declare flushQueue.simps [simp del]

subsection \<open>The invariant of the sink\<close>

fun posting_ok :: "nat \<Rightarrow> event_record list \<Rightarrow> flush_phase \<Rightarrow> bool" where
  "posting_ok limit queue (Posting batch) \<longleftrightarrow> (\<exists>later. queue = batch @ later) \<and> batch \<noteq> [] \<and> length batch \<le> limit"
| "posting_ok limit queue phase \<longleftrightarrow> True"

lemma posting_ok_append: "posting_ok limit queue phase \<Longrightarrow> posting_ok limit (queue @ records) phase"
  by (cases phase) auto

definition sink_inv :: "sink_options \<Rightarrow> sink_state \<Rightarrow> bool" where
  "sink_inv options s \<longleftrightarrow>
     concat (sk_posted s) @ sk_queue s = sk_recorded s \<and>
     0 < sk_nextSequence s \<and> map eb_sequence (sk_recorded s) = [1 ..< sk_nextSequence s] \<and>
     eb_runId ` set (sk_recorded s) \<subseteq> {so_runId options} \<and>
     (\<forall>batch \<in> set (sk_posted s). batch \<noteq> [] \<and> length batch \<le> batch_size options) \<and>
     posting_ok (batch_size options) (sk_queue s) (sk_active s) \<and>
     (sk_queue s \<noteq> [] \<longrightarrow> sk_scheduledFlush s \<or> 0 < sk_waiting s \<or> sk_active s \<noteq> Idle \<or> sk_failed s)"

text \<open>What a call of the interface does to the state.\<close>

definition recording :: "sink_options \<Rightarrow> sink_state \<Rightarrow> sink_state \<Rightarrow> bool" where
  "recording options s s' \<longleftrightarrow> (\<exists>records.
     sk_queue s' = sk_queue s @ records \<and> sk_recorded s' = sk_recorded s @ records \<and>
     sk_nextSequence s' = sk_nextSequence s + length records \<and>
     map eb_sequence records = [sk_nextSequence s ..< sk_nextSequence s + length records] \<and>
     eb_runId ` set records \<subseteq> {so_runId options} \<and>
     sk_waiting s' = sk_waiting s \<and> sk_active s' = sk_active s \<and> sk_failed s' = sk_failed s \<and> sk_posted s' = sk_posted s)"

lemma recording_refl: "recording options s (s\<lparr>sk_ticks := n\<rparr>)"
  by (auto simp: recording_def intro: exI [of _ "[]"])

lemma recording_scheduled: "recording options s s' \<Longrightarrow> recording options s (scheduleFlush s')"
  by (auto simp: recording_def scheduleFlush_def)

lemma recording_trans:
  assumes "recording options s s1" "recording options s1 s2"
  shows "recording options s s2"
proof -
  obtain rs where rs: "sk_queue s1 = sk_queue s @ rs" "sk_recorded s1 = sk_recorded s @ rs" "sk_nextSequence s1 = sk_nextSequence s + length rs"
    "map eb_sequence rs = [sk_nextSequence s ..< sk_nextSequence s + length rs]" "eb_runId ` set rs \<subseteq> {so_runId options}"
    using assms(1) by (auto simp: recording_def)
  obtain qs where qs: "sk_queue s2 = sk_queue s1 @ qs" "sk_recorded s2 = sk_recorded s1 @ qs" "sk_nextSequence s2 = sk_nextSequence s1 + length qs"
    "map eb_sequence qs = [sk_nextSequence s1 ..< sk_nextSequence s1 + length qs]" "eb_runId ` set qs \<subseteq> {so_runId options}"
    using assms(2) by (auto simp: recording_def)
  have "map eb_sequence (rs @ qs) = [sk_nextSequence s ..< sk_nextSequence s + length (rs @ qs)]"
    using rs(4) qs(4) unfolding rs(3) map_append length_append add.assoc [symmetric]
    by (simp only: upt_add_eq_append [of "sk_nextSequence s" "sk_nextSequence s + length rs", OF le_add1])
  then show ?thesis
    using assms rs qs unfolding recording_def by (intro exI [of _ "rs @ qs"]) auto
qed

lemma recording_push: "recording options s (push_enveloped options now type body s)"
  unfolding recording_def
  by (intro exI [of _ "[recorded \<lparr>eb_at = now (sk_ticks s), eb_runId = so_runId options, eb_sequence = sk_nextSequence s\<rparr> type body]"])
    (simp add: push_enveloped_def nextEnvelope_def timestamp_def queue_push_def)

lemma recording_event: "recording options s (snd (recordRuntimeEvent options now stringify event s))"
proof -
  let ?cx = "\<lparr>mc_runId = so_runId options, mc_sequence = Some (sk_nextSequence s), mc_timestamp = now (sk_ticks s)\<rparr>"
  obtain records where records: "mapRuntimeEventToRunnerEventRecords stringify event ?cx = Inr records"
    "map eb_sequence records = [sk_nextSequence s ..< sk_nextSequence s + length records]" "eb_runId ` set records \<subseteq> {so_runId options}"
    using event_records_numbered [of stringify event ?cx] by auto
  have "recording options s ((queue_push records (s\<lparr>sk_ticks := Suc (sk_ticks s)\<rparr>))\<lparr>sk_nextSequence := sk_nextSequence s + length records\<rparr>)"
    using records unfolding recording_def by (intro exI [of _ records]) (simp add: queue_push_def)
  from recording_scheduled [OF this] show ?thesis by (simp add: recordRuntimeEvent_def timestamp_def records)
qed

lemma perform_call_recording: "recording options s (perform_call options now stringify call s)"
  by (cases call)
    (simp_all add: recordCancellation_def recordFinalResult_def recordRunnerCommandPhase_def recordSchemaValidationFailure_def
      recording_event recording_scheduled [OF recording_push]
      recording_scheduled [OF recording_trans [OF recording_push recording_push]])

lemma perform_call_schedules: "sk_scheduledFlush (perform_call options now stringify call s)"
proof -
  have "sk_scheduledFlush (scheduleFlush t)" for t by (simp add: scheduleFlush_def)
  moreover have "sk_scheduledFlush (snd (recordRuntimeEvent options now stringify event s))" for event
    using event_records_numbered [of stringify event "\<lparr>mc_runId = so_runId options, mc_sequence = Some (sk_nextSequence s), mc_timestamp = now (sk_ticks s)\<rparr>"]
    by (auto simp: recordRuntimeEvent_def timestamp_def scheduleFlush_def)
  ultimately show ?thesis
    by (cases call) (simp_all add: recordCancellation_def recordFinalResult_def recordRunnerCommandPhase_def recordSchemaValidationFailure_def)
qed

lemma sink_inv_initial: "sink_inv options initial_sink"
  by (simp add: sink_inv_def initial_sink_def)

lemma sink_inv_recording:
  assumes "recording options s s'" "sk_scheduledFlush s'" "sink_inv options s"
  shows "sink_inv options s'"
proof -
  obtain rs where rs: "sk_queue s' = sk_queue s @ rs" "sk_recorded s' = sk_recorded s @ rs" "sk_nextSequence s' = sk_nextSequence s + length rs"
    "map eb_sequence rs = [sk_nextSequence s ..< sk_nextSequence s + length rs]" "eb_runId ` set rs \<subseteq> {so_runId options}"
    and same: "sk_active s' = sk_active s" "sk_posted s' = sk_posted s"
    using assms(1) by (auto simp: recording_def)
  have "map eb_sequence (sk_recorded s') = [1 ..< sk_nextSequence s']"
    using assms(3) rs(2,3,4) upt_add_eq_append [of 1 "sk_nextSequence s" "length rs"] by (simp add: sink_inv_def)
  then show ?thesis using assms(2,3) rs same unfolding sink_inv_def by (auto simp: posting_ok_append)
qed

lemma sink_inv_step: "sink_step options now stringify s s' \<Longrightarrow> sink_inv options s \<Longrightarrow> sink_inv options s'"
proof (induction rule: sink_step.induct)
  case (Record s call)
  show ?case by (rule sink_inv_recording [OF perform_call_recording perform_call_schedules Record])
next
  case (PostNext s)
  have "\<exists>later. sk_queue s = next_batch options s @ later"
    unfolding next_batch_def by (intro exI [of _ "drop (batch_size options) (sk_queue s)"]) simp
  moreover have "next_batch options s \<noteq> []" using PostNext(2) by (simp add: next_batch_def)
  moreover have "length (next_batch options s) \<le> batch_size options" by (simp add: next_batch_def)
  ultimately show ?case using PostNext by (simp add: sink_inv_def)
next
  case (Accept s batch)
  then show ?case by (auto simp: sink_inv_def batch_accepted_def)
qed (auto simp: sink_inv_def flush_ended_def)

lemma sink_inv_run: "sink_run options now stringify s \<Longrightarrow> sink_inv options s"
  by (induction rule: rtranclp_induct) (auto intro: sink_inv_initial sink_inv_step)

text \<open>
  C31: Whatever the interleaving, the batches accepted are exactly the records made, in order, up to those still
  queued: no record is lost, sent twice or overtaken after a failed post. The records are numbered from 1 without
  gaps, and no batch is empty or larger than the batch size.
\<close>

theorem sink_posts_in_order:
  assumes "sink_run options now stringify s"
  shows "concat (sk_posted s) @ sk_queue s = sk_recorded s \<and> map eb_sequence (sk_recorded s) = [1 ..< sk_nextSequence s] \<and>
     (\<forall>batch \<in> set (sk_posted s). batch \<noteq> [] \<and> length batch \<le> batch_size options) \<and>
     (\<forall>batch. sk_active s = Posting batch \<longrightarrow> (\<exists>later. sk_queue s = batch @ later))"
  using sink_inv_run [OF assms] by (auto simp: sink_inv_def)

text \<open>
  No record is forgotten: when the sink is at rest, with no flush scheduled, waiting or running, everything has
  been posted, unless the last flush failed.
\<close>

theorem sink_forgets_nothing:
  assumes "sink_run options now stringify s" "\<not> sk_scheduledFlush s" "sk_waiting s = 0" "sk_active s = Idle" "\<not> sk_failed s"
  shows "concat (sk_posted s) = sk_recorded s"
  using sink_inv_run [OF assms(1)] assms(2-) unfolding sink_inv_def by auto

subsection \<open>A flush as a run of the sink\<close>

lemma flush_rounds:
  assumes "0 < n" "0 < (k :: nat)"
  shows "(k + n - 1) div n = Suc ((k - min k n + n - 1) div n)"
proof (cases "k \<le> n")
  case True
  then have "(k + n - 1) div n = Suc 0" using assms by (simp add: div_nat_eqI)
  then show ?thesis using True assms by simp
next
  case False
  have "k + n - 1 = (k - 1) + n" using assms by simp
  then have "(k + n - 1) div n = Suc ((k - 1) div n)" using assms(1) by (simp only: div_add_self2 Suc_eq_plus1)
  then show ?thesis using False by (simp add: min_def)
qed

text \<open>
  A flush during which nothing is recorded is a run of the sink that ends with the flush over. It posts the
  queue from the front in batches, as few as the batch size allows; if all posts are accepted it leaves the queue
  empty, and if one is refused it fails with that error and keeps exactly the records that were not accepted.
\<close>

theorem flush_drains_queue:
  assumes "sk_active s = Draining" "flushQueue options post (sk_queue s) w = (r, rest, w')"
  shows "\<exists>batches s'. (sink_step options now stringify)\<^sup>*\<^sup>* s s' \<and> sk_active s' = Idle \<and> sk_failed s' = (r \<noteq> Inr ()) \<and>
     sk_queue s' = rest \<and> sk_queue s = concat batches @ rest \<and> sk_posted s' = sk_posted s @ batches \<and>
     sk_recorded s' = sk_recorded s \<and>
     (r = Inr () \<longrightarrow> rest = [] \<and> length batches = (length (sk_queue s) + batch_size options - 1) div batch_size options)"
  using assms
proof (induction options post "sk_queue s" w arbitrary: s rule: flushQueue.induct)
  case (1 options post w s)
  show ?case
  proof (cases "sk_queue s = []")
    case True
    have "sink_step options now stringify s (flush_ended False s)" using "1.prems"(1) True by (rule Drained)
    moreover have "r = Inr () \<and> rest = []" using "1.prems"(2) True by (simp add: flushQueue.simps)
    moreover have "(batch_size options - 1) div batch_size options = 0" by simp
    ultimately show ?thesis using True
      by (intro exI [of _ "[]"] exI [of _ "flush_ended False s"]) (simp add: flush_ended_def)
  next
    case False
    let ?batch = "next_batch options s"
    let ?posting = "s\<lparr>sk_active := Posting ?batch\<rparr>"
    have begun: "sink_step options now stringify s ?posting" using "1.prems"(1) False by (rule PostNext)
    obtain a w1 where answer: "post (postBatchRequest options ?batch) w = (a, w1)" by fastforce
    show ?thesis
    proof (cases a)
      case (Inl e)
      have over: "sink_step options now stringify ?posting (flush_ended True ?posting)" by (rule Reject) simp
      have "r = Inl e \<and> rest = sk_queue s" using "1.prems"(2) False answer Inl by (simp add: flushQueue.simps next_batch_def)
      then show ?thesis using begun over
        by (intro exI [of _ "[]"] exI [of _ "flush_ended True ?posting"]) (simp add: flush_ended_def)
    next
      case (Inr u)
      let ?next = "batch_accepted ?batch ?posting"
      have accepted: "sink_step options now stringify ?posting ?next" by (rule Accept) simp
      have queue: "sk_queue ?next = drop (length ?batch) (sk_queue s)" "sk_active ?next = Draining"
        "sk_posted ?next = sk_posted s @ [?batch]" "sk_recorded ?next = sk_recorded s"
        by (simp_all add: batch_accepted_def)
      have again: "flushQueue options post (sk_queue ?next) w1 = (r, rest, w')"
        using "1.prems"(2) False answer Inr unfolding queue by (simp add: flushQueue.simps next_batch_def)
      have split: "sk_queue s = ?batch @ sk_queue ?next" unfolding queue by (simp add: next_batch_def min_def)
      from "1.hyps" [OF False refl answer [unfolded next_batch_def, symmetric] Inr, of ?next, folded next_batch_def, OF queue(1) [symmetric] queue(2) again]
      obtain batches s' where run: "(sink_step options now stringify)\<^sup>*\<^sup>* ?next s'"
        and ends: "sk_active s' = Idle" "sk_failed s' = (r \<noteq> Inr ())" "sk_queue s' = rest" "sk_queue ?next = concat batches @ rest"
          "sk_posted s' = sk_posted ?next @ batches" "sk_recorded s' = sk_recorded ?next"
          "r = Inr () \<longrightarrow> rest = [] \<and> length batches = (length (sk_queue ?next) + batch_size options - 1) div batch_size options"
        by (elim exE conjE)
      have "(sink_step options now stringify)\<^sup>*\<^sup>* s s'"
        using begun accepted run by (meson converse_rtranclp_into_rtranclp)
      moreover have "sk_queue s = concat (?batch # batches) @ rest" using split ends(4) by simp
      moreover have "length (sk_queue ?next) = length (sk_queue s) - min (length (sk_queue s)) (batch_size options)"
        unfolding queue by (simp add: next_batch_def)
      then have "r = Inr () \<longrightarrow> rest = [] \<and>
          length (?batch # batches) = (length (sk_queue s) + batch_size options - 1) div batch_size options"
        using ends(7) flush_rounds [OF batch_size_positive, of "length (sk_queue s)" options] False by (simp only: list.size length_greater_0_conv) simp
      moreover have "sk_posted s' = sk_posted s @ ?batch # batches" "sk_recorded s' = sk_recorded s"
        using ends(5,6) unfolding queue(3,4) by simp_all
      ultimately show ?thesis
        using ends(1-3) by (intro exI [of _ "?batch # batches"] exI [of _ s'] conjI)
    qed
  qed
qed

text \<open>A sink is created exactly when there is a way to send and a token that is not blank.\<close>

lemma sink_created_iff:
  "createRunnerEventSink options globalFetch = Inr initial_sink \<longleftrightarrow>
   (so_hasFetch options \<or> globalFetch) \<and> js_trim (so_authToken options) \<noteq> []"
  by (simp add: createRunnerEventSink_def resolveFetch_def assertAuthToken_def)

subsection \<open>Witnesses\<close>

definition small_sink :: sink_options where
  "small_sink = \<lparr>so_authHeader = None, so_authToken = ''t'', so_batchSize = Some 2, so_hasFetch = True, so_maxRetries = None,
     so_retryDelayMs = None, so_runId = ''r'', so_url = ''u''\<rparr>"

definition three_calls :: "sink_state \<Rightarrow> sink_state" where
  "three_calls s = perform_call small_sink (\<lambda>n. ''t'') (\<lambda>j. ''json'') (RecordCancellation ''w'')
     (perform_call small_sink (\<lambda>n. ''t'') (\<lambda>j. ''json'') (RecordRunnerCommandPhase ''clone'' ''m'' []) s)"

definition flushing :: sink_state where
  "flushing = (three_calls initial_sink)\<lparr>sk_scheduledFlush := False, sk_active := Draining, sk_waiting := 0\<rparr>"

lemma small_run: "sink_run small_sink (\<lambda>n. ''t'') (\<lambda>j. ''json'') flushing"
proof -
  let ?step = "sink_step small_sink (\<lambda>n. ''t'') (\<lambda>j. ''json'')"
  let ?s = "three_calls initial_sink"
  let ?waiting = "?s\<lparr>sk_scheduledFlush := False, sk_waiting := Suc (sk_waiting ?s)\<rparr>"
  have calls: "?step\<^sup>*\<^sup>* initial_sink ?s"
    unfolding three_calls_def by (meson Record converse_rtranclp_into_rtranclp r_into_rtranclp)
  have micro: "?step ?s ?waiting"
    by (rule Microtask) (simp add: three_calls_def perform_call_schedules del: perform_call.simps)
  have quiet: "sk_waiting ?s = 0" "sk_active ?s = Idle" by code_simp+
  have "?step ?waiting (?waiting\<lparr>sk_active := Draining, sk_waiting := 0\<rparr>)" by (rule Begin) (simp_all add: quiet)
  then have begun: "?step ?waiting flushing" by (simp add: flushing_def)
  show ?thesis using calls micro begun by (rule rtranclp.rtrancl_into_rtrancl [OF rtranclp.rtrancl_into_rtrancl])
qed

lemma sink_posts_in_order_witness:
  "concat (sk_posted flushing) @ sk_queue flushing = sk_recorded flushing \<and> length (sk_queue flushing) = 3"
proof -
  have "length (sk_queue flushing) = 3" by code_simp
  then show ?thesis using sink_posts_in_order [OF small_run] by simp
qed

definition accepting :: "post_request \<Rightarrow> unit \<Rightarrow> (string + unit) \<times> unit" where
  "accepting request w = (Inr (), w)"

lemma small_flush:
  "sk_active flushing = Draining" "flushQueue small_sink accepting (sk_queue flushing) () = (Inr (), [], ())"
proof -
  show "sk_active flushing = Draining" by (simp add: flushing_def)
  have "case flushQueue small_sink accepting (sk_queue flushing) () of (r, rest, w) \<Rightarrow> r = Inr () \<and> rest = []" by code_simp
  then show "flushQueue small_sink accepting (sk_queue flushing) () = (Inr (), [], ())"
    by (cases "flushQueue small_sink accepting (sk_queue flushing) ()") auto
qed

lemma flush_drains_queue_witness:
  "\<exists>batches s'. (sink_step small_sink (\<lambda>n. ''t'') (\<lambda>j. ''json''))\<^sup>*\<^sup>* flushing s' \<and> sk_queue s' = [] \<and> length batches = 2 \<and>
     sk_posted s' = sk_posted flushing @ batches"
proof -
  have "(length (sk_queue flushing) + batch_size small_sink - 1) div batch_size small_sink = 2" by code_simp
  then show ?thesis
    using flush_drains_queue [OF small_flush, of "\<lambda>n. ''t''" "\<lambda>j. ''json''"] by (elim exE conjE) (intro exI conjI; simp)
qed

lemma sink_forgets_nothing_witness:
  "concat (sk_posted initial_sink) = sk_recorded initial_sink"
  by (rule sink_forgets_nothing [OF rtranclp.rtrancl_refl]) (simp_all add: initial_sink_def)

end
