(* ===== verification/ConfigValidation.thy ===== *)
theory ConfigValidation
  imports Gates
begin

text \<open>
  The validation of a pipeline configuration (\<^verbatim>\<open>src/config/validate.ts\<close>, with the reference paths of
  \<^verbatim>\<open>src/path-refs.ts\<close> and the error of \<^verbatim>\<open>src/config/schemas.ts\<close>). The schema library, which decodes the raw
  configuration, the file system and the standard library's paths are services. A registry is an association
  list of its own keys. Issues that the source pushes on one array are lists here, appended in its order.
\<close>

subsection \<open>Configuration\<close>

datatype source_root = PackageRoot | ProjectRoot

record path_ref =
  rf_path :: "string option"
  rf_source_root :: "source_root option"

record capabilities =
  ca_filesystem :: "string list option"
  ca_mcp_servers :: "bool option"
  ca_network :: "string list option"
  ca_output_formats :: "string list option"
  ca_rules :: "bool option"
  ca_skills :: "bool option"
  ca_tools :: "string list option"

record output_config =
  oc_format :: string
  oc_repair_runner :: "string option"
  oc_schema_path :: "string option"

datatype scheduling_role = CoverageRole | ImplementationRole

record profile_config =
  prf_filesystem_mode :: "string option"
  prf_instructions_inline :: "string option"
  prf_instructions_path :: "string option"
  prf_mcp_servers :: "string list option"
  prf_network_mode :: "string option"
  prf_output :: "output_config option"
  prf_rules :: "string list option"
  prf_runner :: string
  prf_scheduling_roles :: "scheduling_role list option"
  prf_skills :: "string list option"
  prf_tools :: "string list option"

record hook_binding =
  hb_function :: string
  hb_id :: string

datatype entrypoint = WorkflowEntrypoint string | ScheduleEntrypoint string

record node_template =
  nt_category :: string
  nt_models :: "string list"
  nt_profile :: string
  nt_reasoning_effort :: "string option"

record node_catalog =
  nc_nodes :: "(string \<times> node_template) list"
  nc_required_categories :: "string list"

datatype schedule_baseline = ExecuteBaseline | QuickBaseline

record schedule_policy =
  sp_baseline :: schedule_baseline
  sp_node_catalog :: "string option"
  sp_planner_profile :: "string option"

text \<open>
  The fields the planner does not see: a hook function has the schema of its returns, and \<open>fc_pull_request\<close>
  tells whether the delivery of a pull request is declared, and enabled.
\<close>

record full_config = "(artifact_spec list, gate_spec list) pipeline_config" +
  fc_by_category :: "(string \<times> nat) list"
  fc_entrypoints :: "(string \<times> entrypoint) list"
  fc_hook_functions :: "(string \<times> string option) list"
  fc_hook_on :: "(string \<times> hook_binding list) list"
  fc_mcp_gateway :: bool
  fc_mcp_servers :: "(string \<times> unit) list"
  fc_node_catalogs :: "(string \<times> node_catalog) list"
  fc_orchestrator :: "string option"
  fc_profiles :: "(string \<times> profile_config) list"
  fc_pull_request :: "bool option"
  fc_rules :: "(string \<times> path_ref) list"
  fc_runners :: "(string \<times> capabilities) list"
  fc_schedules :: "(string \<times> schedule_policy) list"
  fc_skills :: "(string \<times> path_ref) list"

type_synonym config_node = "(artifact_spec list, gate_spec list) workflow_node"

record config_issue =
  ci_message :: string
  ci_path :: string

record 'r config_services =
  cs_parse :: "'r \<Rightarrow> config_issue list + full_config"
  cs_exists :: "string \<Rightarrow> bool"
  cs_homedir :: string
  cs_isAbsolute :: "string \<Rightarrow> bool"
  cs_join :: "string \<Rightarrow> string \<Rightarrow> string"
  cs_packagePath :: "string \<Rightarrow> string"
  cs_standardSchema :: "string \<Rightarrow> string option"

text \<open>The last argument of the validations: the project root and \<open>allowMissingLintFileReferences\<close>.\<close>

record validation_root =
  vr_projectRoot :: string
  vr_allowMissing :: bool

definition HOOK_EVENTS :: "string list" where
  "HOOK_EVENTS = [''workflow.start'', ''workflow.success'', ''workflow.failure'', ''workflow.complete'', ''node.start'',
     ''node.success'', ''node.error'', ''node.finish'', ''gate.failure'']"

definition PIPELINE_GATEWAY_SERVER_ID :: string where
  "PIPELINE_GATEWAY_SERVER_ID = ''pipeline-gateway''"

definition ID_RE :: "string \<Rightarrow> bool" where
  "ID_RE i \<longleftrightarrow> (case i of [] \<Rightarrow> False | c # cs \<Rightarrow> is_lower c \<and> list_all (\<lambda>c. is_lower c \<or> is_digit c \<or> c = CHR ''-'') cs)"

definition ID_RE_source :: string where
  "ID_RE_source = ''^[a-z][a-z0-9-]*$''"

definition record_has :: "(string \<times> 'v) list \<Rightarrow> string \<Rightarrow> bool" where
  "record_has registry key \<longleftrightarrow> map_of registry key \<noteq> None"

definition found :: "string \<Rightarrow> string \<Rightarrow> config_issue list" where
  "found message path = [\<lparr>ci_message = message, ci_path = path\<rparr>]"

definition found_unless :: "bool \<Rightarrow> string \<Rightarrow> string \<Rightarrow> config_issue list" where
  "found_unless ok message path = (if ok then [] else found message path)"

subsection \<open>Registries and budgets\<close>

definition knownNodeCategories :: "full_config \<Rightarrow> string list" where
  "knownNodeCategories config =
     concat (map (\<lambda>catalog. nc_required_categories catalog @ map nt_category (object_values (nc_nodes catalog)))
       (object_values (fc_node_catalogs config)))"

definition validateTokenBudget :: "full_config \<Rightarrow> config_issue list" where
  "validateTokenBudget config =
     concat (map (\<lambda>(category, cap). found_unless (category \<in> set (knownNodeCategories config))
       (''fan-out width cap references unknown node category '' @ quoted category)
       (''token_budget.fan_out_width.by_category.'' @ category)) (object_entries (fc_by_category config)))"

definition validateRegistryIds :: "string \<Rightarrow> (string \<times> 'v) list \<Rightarrow> config_issue list" where
  "validateRegistryIds name registry =
     concat (map (\<lambda>(i, v). found_unless (ID_RE i) (''registry id '' @ quoted i @ '' must match '' @ ID_RE_source)
       (name @ ''.'' @ i)) (object_entries registry))"

subsection \<open>Workflow nodes\<close>

definition validateWorkflowNodeKind :: "string \<Rightarrow> config_node \<Rightarrow> full_config \<Rightarrow> config_issue list" where
  "validateWorkflowNodeKind workflowId node config = (case wn_body node of
     AgentBody profile category \<Rightarrow> found_unless (record_has (fc_profiles config) profile)
       (''node '' @ quoted (wn_id node) @ '' references missing profile '' @ quoted profile)
       (''workflows.'' @ workflowId @ ''.nodes.'' @ wn_id node @ ''.profile'')
   | _ \<Rightarrow> [])"

fun collectNodeIds :: "config_node list \<Rightarrow> (config_node \<Rightarrow> config_issue list) \<Rightarrow> string list \<Rightarrow> string list \<times> config_issue list" where
  "collectNodeIds [] duplicateIssue ids = (ids, [])"
| "collectNodeIds (node # nodes) duplicateIssue ids =
     (case collectNodeIds nodes duplicateIssue (set_add ids (wn_id node)) of (all_ids, issues) \<Rightarrow>
        (all_ids, (if wn_id node \<in> set ids then duplicateIssue node else []) @ issues))"

fun validateWorkflowNode :: "string \<Rightarrow> string list \<Rightarrow> full_config \<Rightarrow> config_node \<Rightarrow> config_issue list" where
  "validateWorkflowNode workflowId nodeIds config (WorkflowNode i body needs art gts models effort retries task_cx timeout) =
     found_unless (ID_RE i) (''workflow node id '' @ quoted i @ '' must match '' @ ID_RE_source)
       (''workflows.'' @ workflowId @ ''.nodes.'' @ i) @
     concat (map (\<lambda>need. found_unless (need \<in> set nodeIds)
       (''node '' @ quoted i @ '' references missing dependency '' @ quoted need)
       (''workflows.'' @ workflowId @ ''.nodes.'' @ i @ ''.needs'')) (or_else needs [])) @
     validateWorkflowNodeKind workflowId (WorkflowNode i body needs art gts models effort retries task_cx timeout) config @
     (case body of
        ParallelBody children \<Rightarrow>
          (case collectNodeIds children (\<lambda>child. found
               (''parallel node '' @ quoted i @ '' declares duplicate child node id '' @ quoted (wn_id child))
               (''workflows.'' @ workflowId @ ''.nodes.'' @ i @ ''.nodes.'' @ wn_id child)) [] of
             (childIds, duplicates) \<Rightarrow> duplicates @ concat (map (validateWorkflowNode workflowId childIds config) children))
      | _ \<Rightarrow> [])"

definition body_source :: "gate_body \<Rightarrow> json_source option" where
  "body_source body = (case body of
     AcceptanceGate src key \<Rightarrow> Some src | JsonSchemaGate src schema \<Rightarrow> Some src | VerdictGate src e f \<Rightarrow> Some src | _ \<Rightarrow> None)"

definition gateMissingFields :: "gate_spec \<Rightarrow> (string \<times> (string \<Rightarrow> string)) list" where
  "gateMissingFields gate = (case body_source (gsp_body gate) of
     None \<Rightarrow> []
   | Some src \<Rightarrow> if js_target src = Some ArtifactTarget \<and> js_path src = None
       then [(''path'', \<lambda>nodeId. gsp_kind gate @ '' artifact gate on node '' @ quoted nodeId @ '' must declare path'')] else [])"

definition validateGateRequiredFields :: "gate_spec \<Rightarrow> string \<Rightarrow> string \<Rightarrow> config_issue list" where
  "validateGateRequiredFields gate path nodeId =
     concat (map (\<lambda>(field, message). found (message nodeId) (path @ ''.'' @ field)) (gateMissingFields gate))"

subsection \<open>References and capabilities\<close>

definition validateReferences :: "string \<Rightarrow> string list option \<Rightarrow> (string \<times> 'v) list \<Rightarrow> string \<Rightarrow> config_issue list" where
  "validateReferences path refs registry label =
     concat (map (\<lambda>ref. found_unless (record_has registry ref) (''references missing '' @ label @ '' '' @ quoted ref) path)
       (or_else refs []))"

definition validateBooleanCapability :: "string \<Rightarrow> string list option \<Rightarrow> bool option \<Rightarrow> string \<Rightarrow> config_issue list" where
  "validateBooleanCapability path refs capability label =
     found_unless (\<not> (or_else refs [] \<noteq> [] \<and> \<not> or_else capability False)) (''selected runner does not support '' @ label) path"

definition validateListCapability :: "string \<Rightarrow> string list option \<Rightarrow> string list option \<Rightarrow> string \<Rightarrow> config_issue list" where
  "validateListCapability path requested supported label =
     (let requestedItems = or_else requested [] in
      if requestedItems = [] then []
      else concat (map (\<lambda>item. found_unless (item \<in> set (or_else supported []))
        (''selected runner does not support '' @ label @ '' '' @ quoted item) path) requestedItems))"

definition optionalSingleton :: "'v option \<Rightarrow> 'v list option" where
  "optionalSingleton v = map_option (\<lambda>item. [item]) v"

definition resolveFileReference :: "'r config_services \<Rightarrow> string \<Rightarrow> string \<Rightarrow> string" where
  "resolveFileReference sv basePath pathRef =
     (if pathRef = ''~'' then cs_homedir sv
      else if starts_with pathRef ''~/'' then cs_join sv (cs_homedir sv) (drop 2 pathRef)
      else if cs_isAbsolute sv pathRef then pathRef
      else cs_join sv basePath pathRef)"

definition resolvePathReference :: "'r config_services \<Rightarrow> string \<Rightarrow> path_ref \<Rightarrow> string" where
  "resolvePathReference sv projectRoot ref =
     (if rf_source_root ref = Some PackageRoot then cs_packagePath sv (or_else (rf_path ref) [])
      else resolveFileReference sv projectRoot (or_else (rf_path ref) []))"

fun dot_parts :: "string \<Rightarrow> string \<Rightarrow> string list" where
  "dot_parts part [] = [part]"
| "dot_parts part (c # cs) = (if c = CHR ''.'' then part # dot_parts [] cs else dot_parts (part @ [c]) cs)"

definition SKILLS_REGEX :: "string \<Rightarrow> bool" where
  "SKILLS_REGEX path \<longleftrightarrow> (case dot_parts [] path of [a, b, c] \<Rightarrow> a = ''skills'' \<and> b \<noteq> [] \<and> c = ''path'' | _ \<Rightarrow> False)"

definition PROFILES_INSTRUCTIONS_REGEX :: "string \<Rightarrow> bool" where
  "PROFILES_INSTRUCTIONS_REGEX path \<longleftrightarrow>
     (case dot_parts [] path of [a, b, c, d] \<Rightarrow> a = ''profiles'' \<and> b \<noteq> [] \<and> c = ''instructions'' \<and> d = ''path'' | _ \<Rightarrow> False)"

definition PROFILES_OUTPUT_REGEX :: "string \<Rightarrow> bool" where
  "PROFILES_OUTPUT_REGEX path \<longleftrightarrow>
     (case dot_parts [] path of [a, b, c, d] \<Rightarrow> a = ''profiles'' \<and> b \<noteq> [] \<and> c = ''output'' \<and> d = ''schema_path'' | _ \<Rightarrow> False)"

definition isLintableMissingFileReferencePath :: "string \<Rightarrow> bool" where
  "isLintableMissingFileReferencePath path \<longleftrightarrow>
     SKILLS_REGEX path \<or> PROFILES_INSTRUCTIONS_REGEX path \<or> PROFILES_OUTPUT_REGEX path"

definition validatePath :: "'r config_services \<Rightarrow> string \<Rightarrow> path_ref \<Rightarrow> validation_root \<Rightarrow> config_issue list" where
  "validatePath sv path ref vroot = (case rf_path ref of
     None \<Rightarrow> []
   | Some v \<Rightarrow>
       if v = [] \<or> vr_projectRoot vroot = [] then []
       else if truthy (cs_standardSchema sv v) \<noteq> None then []
       else if \<not> cs_exists sv (resolvePathReference sv (vr_projectRoot vroot) ref)
         then if vr_allowMissing vroot \<and> isLintableMissingFileReferencePath path then []
              else found (''referenced file '' @ quoted v @ '' does not exist'') path
       else [])"

definition project_ref :: "string option \<Rightarrow> path_ref" where
  "project_ref path = \<lparr>rf_path = path, rf_source_root = None\<rparr>"

subsection \<open>Hooks\<close>

definition validateHookBinding :: "full_config \<Rightarrow> string \<Rightarrow> nat \<Rightarrow> hook_binding \<Rightarrow> config_issue list" where
  "validateHookBinding config event index binding =
     found_unless (ID_RE (hb_id binding)) (''hook binding id '' @ quoted (hb_id binding) @ '' must match '' @ ID_RE_source)
       (''hooks.on.'' @ event @ ''.'' @ show_nat index @ ''.id'') @
     found_unless (record_has (fc_hook_functions config) (hb_function binding))
       (''hook binding '' @ quoted (hb_id binding) @ '' references missing function '' @ quoted (hb_function binding))
       (''hooks.on.'' @ event @ ''.'' @ show_nat index @ ''.function'')"

definition validateHookConfig :: "'r config_services \<Rightarrow> full_config \<Rightarrow> validation_root \<Rightarrow> config_issue list" where
  "validateHookConfig sv config vroot =
     concat (map (\<lambda>(functionId, schema). validatePath sv (''hooks.functions.'' @ functionId @ ''.returns.schema'') (project_ref schema) vroot)
       (object_entries (fc_hook_functions config))) @
     concat (map (\<lambda>(event, bindings).
        if event \<notin> set HOOK_EVENTS then found (''unsupported hook event '' @ quoted event) (''hooks.on.'' @ event)
        else concat (map (\<lambda>(index, binding). validateHookBinding config event index binding) (enumerate 0 bindings)))
       (object_entries (fc_hook_on config)))"

subsection \<open>Profiles\<close>

definition validateActorInstructions ::
  "'r config_services \<Rightarrow> string \<Rightarrow> string \<Rightarrow> profile_config \<Rightarrow> validation_root \<Rightarrow> config_issue list" where
  "validateActorInstructions sv label path actor vroot =
     found_unless (\<not> (prf_instructions_path actor = None \<and> prf_instructions_inline actor = None))
       (label @ '' must declare instructions.path or instructions.inline'') (path @ ''.instructions'') @
     validatePath sv (path @ ''.instructions.path'') (project_ref (prf_instructions_path actor)) vroot"

definition mcpServerRegistryFor :: "full_config \<Rightarrow> (string \<times> unit) list" where
  "mcpServerRegistryFor config = (if \<not> fc_mcp_gateway config then fc_mcp_servers config else [(PIPELINE_GATEWAY_SERVER_ID, ())])"

definition validateActorReferences :: "string \<Rightarrow> profile_config \<Rightarrow> full_config \<Rightarrow> config_issue list" where
  "validateActorReferences path actor config =
     validateReferences (path @ ''.rules'') (prf_rules actor) (fc_rules config) ''rule'' @
     validateReferences (path @ ''.skills'') (prf_skills actor) (fc_skills config) ''skill'' @
     validateReferences (path @ ''.mcp_servers'') (prf_mcp_servers actor) (mcpServerRegistryFor config) ''MCP server''"

definition validateActorGatewayPolicy :: "string \<Rightarrow> profile_config \<Rightarrow> full_config \<Rightarrow> config_issue list" where
  "validateActorGatewayPolicy path actor config =
     (if \<not> fc_mcp_gateway config then []
      else concat (map (\<lambda>serverId. found_unless (serverId = PIPELINE_GATEWAY_SERVER_ID)
        (path @ ''.mcp_servers must only reference '' @ PIPELINE_GATEWAY_SERVER_ID @ '' when mcp_gateway is configured'')
        (path @ ''.mcp_servers'')) (or_else (prf_mcp_servers actor) [])))"

definition validateActorCapabilities :: "string \<Rightarrow> profile_config \<Rightarrow> capabilities \<Rightarrow> config_issue list" where
  "validateActorCapabilities path actor runner =
     validateBooleanCapability (path @ ''.rules'') (prf_rules actor) (ca_rules runner) ''rules'' @
     validateBooleanCapability (path @ ''.skills'') (prf_skills actor) (ca_skills runner) ''skills'' @
     validateBooleanCapability (path @ ''.mcp_servers'') (prf_mcp_servers actor) (ca_mcp_servers runner) ''MCP servers'' @
     validateListCapability (path @ ''.tools'') (prf_tools actor) (ca_tools runner) ''tool'' @
     validateListCapability (path @ ''.filesystem.mode'') (optionalSingleton (prf_filesystem_mode actor)) (ca_filesystem runner)
       ''filesystem mode'' @
     validateListCapability (path @ ''.network.mode'') (optionalSingleton (prf_network_mode actor)) (ca_network runner) ''network mode''"

definition validateActor ::
  "'r config_services \<Rightarrow> string \<Rightarrow> string \<Rightarrow> profile_config \<Rightarrow> capabilities \<Rightarrow> full_config \<Rightarrow> validation_root \<Rightarrow> config_issue list" where
  "validateActor sv label path actor runner config vroot =
     validateActorInstructions sv label path actor vroot @ validateActorReferences path actor config @
     validateActorGatewayPolicy path actor config @ validateActorCapabilities path actor runner"

definition configuredRepairRunnerId :: "profile_config \<Rightarrow> string option" where
  "configuredRepairRunnerId profile = truthy (Option.bind (prf_output profile) oc_repair_runner)"

definition validateProfileOutputFormat :: "string \<Rightarrow> profile_config \<Rightarrow> capabilities \<Rightarrow> config_issue list" where
  "validateProfileOutputFormat profileId profile runner =
     validateListCapability (''profiles.'' @ profileId @ ''.output.format'') (optionalSingleton (map_option oc_format (prf_output profile)))
       (ca_output_formats runner) ''output format''"

definition validateJsonSchemaOutputRequirement :: "string \<Rightarrow> profile_config \<Rightarrow> config_issue list" where
  "validateJsonSchemaOutputRequirement profileId profile = (case prf_output profile of
     None \<Rightarrow> []
   | Some output \<Rightarrow> found_unless (\<not> (oc_format output = ''json_schema'' \<and> oc_schema_path output = None))
       (''profile '' @ quoted profileId @ '' must declare output.schema_path for json_schema output'')
       (''profiles.'' @ profileId @ ''.output.schema_path''))"

definition validateProfileRepairRunner :: "string \<Rightarrow> profile_config \<Rightarrow> full_config \<Rightarrow> config_issue list" where
  "validateProfileRepairRunner profileId profile config = (case configuredRepairRunnerId profile of
     None \<Rightarrow> []
   | Some repairRunnerId \<Rightarrow> (case map_of (fc_runners config) repairRunnerId of
       None \<Rightarrow> found (''profile '' @ quoted profileId @ '' references missing repair runner '' @ quoted repairRunnerId)
         (''profiles.'' @ profileId @ ''.output.repair.runner'')
     | Some runner \<Rightarrow> validateListCapability (''profiles.'' @ profileId @ ''.output.repair.runner'') (Some [''text''])
         (ca_output_formats runner) ''repair output format''))"

definition validateProfileOutputSchemaPath ::
  "'r config_services \<Rightarrow> string \<Rightarrow> profile_config \<Rightarrow> validation_root \<Rightarrow> config_issue list" where
  "validateProfileOutputSchemaPath sv profileId profile vroot =
     validatePath sv (''profiles.'' @ profileId @ ''.output.schema_path'') (project_ref (Option.bind (prf_output profile) oc_schema_path)) vroot"

definition validateProfile ::
  "'r config_services \<Rightarrow> string \<Rightarrow> profile_config \<Rightarrow> capabilities \<Rightarrow> full_config \<Rightarrow> validation_root \<Rightarrow> config_issue list" where
  "validateProfile sv profileId profile runner config vroot =
     validateActor sv (''profile '' @ quoted profileId) (''profiles.'' @ profileId) profile runner config vroot @
     validateProfileOutputFormat profileId profile runner @ validateJsonSchemaOutputRequirement profileId profile @
     validateProfileRepairRunner profileId profile config @ validateProfileOutputSchemaPath sv profileId profile vroot"

definition validateProfileEntry ::
  "'r config_services \<Rightarrow> full_config \<Rightarrow> validation_root \<Rightarrow> string \<Rightarrow> profile_config \<Rightarrow> config_issue list" where
  "validateProfileEntry sv config vroot profileId profile = (case map_of (fc_runners config) (prf_runner profile) of
     None \<Rightarrow> found (''profile '' @ quoted profileId @ '' references missing runner '' @ quoted (prf_runner profile))
       (''profiles.'' @ profileId @ ''.runner'')
   | Some runner \<Rightarrow> validateProfile sv profileId profile runner config vroot)"

subsection \<open>Workflows, entrypoints, schedules\<close>

definition validateNodeGates :: "'r config_services \<Rightarrow> string \<Rightarrow> config_node \<Rightarrow> validation_root \<Rightarrow> config_issue list" where
  "validateNodeGates sv workflowId node vroot =
     concat (map (\<lambda>(index, gate).
       let path = ''workflows.'' @ workflowId @ ''.nodes.'' @ wn_id node @ ''.gates.'' @ show_nat index in
       validateGateRequiredFields gate path (wn_id node) @
       (case gsp_body gate of
          JsonSchemaGate src schema_path \<Rightarrow> validatePath sv (path @ ''.schema_path'') (project_ref (Some schema_path)) vroot
        | _ \<Rightarrow> [])) (enumerate 0 (or_else (wn_gates node) [])))"

definition validateWorkflow ::
  "'r config_services \<Rightarrow> full_config \<Rightarrow> validation_root \<Rightarrow> string \<Rightarrow> (artifact_spec list, gate_spec list) workflow \<Rightarrow> config_issue list" where
  "validateWorkflow sv config vroot workflowId w =
     (case collectNodeIds (wf_nodes w) (\<lambda>node. found
          (''workflow '' @ quoted workflowId @ '' declares duplicate node id '' @ quoted (wn_id node))
          (''workflows.'' @ workflowId @ ''.nodes.'' @ wn_id node)) [] of
        (nodeIds, duplicates) \<Rightarrow>
          duplicates @ concat (map (\<lambda>node. validateWorkflowNode workflowId nodeIds config node @
            validateNodeGates sv workflowId node vroot) (wf_nodes w)))"

definition validateEntrypointReferences :: "full_config \<Rightarrow> config_issue list" where
  "validateEntrypointReferences config =
     found_unless (record_has (pc_workflows config) (pc_default_workflow config))
       (''default workflow references missing workflow '' @ quoted (pc_default_workflow config)) ''default_workflow'' @
     concat (map (\<lambda>(entrypointId, entrypoint). case entrypoint of
        WorkflowEntrypoint w \<Rightarrow> found_unless (record_has (pc_workflows config) w)
          (''entrypoint '' @ quoted entrypointId @ '' references missing workflow '' @ quoted w)
          (''entrypoints.'' @ entrypointId @ ''.workflow'')
      | ScheduleEntrypoint s \<Rightarrow> found_unless (record_has (fc_schedules config) s)
          (''entrypoint '' @ quoted entrypointId @ '' references missing schedule '' @ quoted s)
          (''entrypoints.'' @ entrypointId @ ''.schedule'')) (object_entries (fc_entrypoints config)))"

definition validateScheduleReferences :: "full_config \<Rightarrow> config_issue list" where
  "validateScheduleReferences config =
     concat (map (\<lambda>(scheduleId, schedule). case sp_planner_profile schedule of
        None \<Rightarrow> []
      | Some p \<Rightarrow> found_unless (record_has (fc_profiles config) p)
          (''schedule '' @ quoted scheduleId @ '' references missing planner profile '' @ quoted p)
          (''schedules.'' @ scheduleId @ ''.planner_profile'')) (object_entries (fc_schedules config)))"

definition validateOrchestrator :: "full_config \<Rightarrow> config_issue list" where
  "validateOrchestrator config = (case fc_orchestrator config of
     None \<Rightarrow> []
   | Some profile \<Rightarrow> found_unless (record_has (fc_profiles config) profile)
       (''orchestrator references missing profile '' @ quoted profile) ''orchestrator.profile'')"

definition config_issues :: "'r config_services \<Rightarrow> full_config \<Rightarrow> validation_root \<Rightarrow> config_issue list" where
  "config_issues sv config vroot =
     validateRegistryIds ''runners'' (fc_runners config) @ validateRegistryIds ''profiles'' (fc_profiles config) @
     validateRegistryIds ''rules'' (fc_rules config) @ validateRegistryIds ''skills'' (fc_skills config) @
     validateRegistryIds ''mcp_servers'' (fc_mcp_servers config) @
     validateRegistryIds ''hooks.functions'' (fc_hook_functions config) @
     validateRegistryIds ''workflows'' (pc_workflows config) @ validateRegistryIds ''entrypoints'' (fc_entrypoints config) @
     validateOrchestrator config @
     concat (map (\<lambda>(profileId, profile). validateProfileEntry sv config vroot profileId profile) (object_entries (fc_profiles config))) @
     validateHookConfig sv config vroot @ validateTokenBudget config @ validateEntrypointReferences config @
     validateScheduleReferences config @
     concat (map (\<lambda>(ruleId, rule). validatePath sv (''rules.'' @ ruleId @ ''.path'') rule vroot) (object_entries (fc_rules config))) @
     concat (map (\<lambda>(workflowId, w). validateWorkflow sv config vroot workflowId w) (object_entries (pc_workflows config)))"

record config_error =
  ce_message :: string
  ce_issues :: "config_issue list"

definition validationError :: "config_issue list \<Rightarrow> config_error" where
  "validationError issues =
     \<lparr>ce_message = join_with [newline] (''Invalid pipeline config:'' # map (\<lambda>i.
        if ci_path i = [] then ''- '' @ ci_message i else ''- '' @ ci_path i @ '': '' @ ci_message i) issues),
      ce_issues = issues\<rparr>"

definition validatePipelineConfig :: "'r config_services \<Rightarrow> 'r \<Rightarrow> validation_root \<Rightarrow> config_error + full_config" where
  "validatePipelineConfig sv rawConfig vroot = (case cs_parse sv rawConfig of
     Inl issues \<Rightarrow> Inl (validationError issues)
   | Inr config \<Rightarrow>
       let issues = config_issues sv config vroot in
       if issues \<noteq> [] then Inl (validationError issues) else Inr config)"


subsection \<open>What a valid configuration is\<close>

text \<open>
  The contract of the validation, without its messages: which identifiers are well formed, which references
  resolve and which requests the chosen runner supports.
\<close>

definition ids_valid :: "(string \<times> 'v) list \<Rightarrow> bool" where
  "ids_valid registry \<longleftrightarrow> (\<forall>i \<in> fst ` set registry. ID_RE i)"

definition supports :: "string list option \<Rightarrow> string list \<Rightarrow> bool" where
  "supports supported requested \<longleftrightarrow> set requested \<subseteq> set (or_else supported [])"

definition file_found :: "'r config_services \<Rightarrow> string \<Rightarrow> path_ref \<Rightarrow> validation_root \<Rightarrow> bool" where
  "file_found sv path ref vroot \<longleftrightarrow>
     or_else (rf_path ref) [] = [] \<or> vr_projectRoot vroot = [] \<or>
     truthy (cs_standardSchema sv (or_else (rf_path ref) [])) \<noteq> None \<or>
     cs_exists sv (resolvePathReference sv (vr_projectRoot vroot) ref) \<or>
     (vr_allowMissing vroot \<and> isLintableMissingFileReferencePath path)"

function (sequential) node_valid :: "full_config \<Rightarrow> string set \<Rightarrow> config_node \<Rightarrow> bool" where
  "node_valid config ids (WorkflowNode i body needs art gts models effort retries task_cx timeout) \<longleftrightarrow>
     ID_RE i \<and> set (or_else needs []) \<subseteq> ids \<and>
     (case body of
        AgentBody profile category \<Rightarrow> record_has (fc_profiles config) profile
      | ParallelBody children \<Rightarrow> distinct (map wn_id children) \<and>
          (\<forall>child \<in> set children. node_valid config (wn_id ` set children) child)
      | _ \<Rightarrow> True)"
  by pat_completeness auto
termination
proof (relation "measure (\<lambda>(config, ids, node). size node)", goal_cases)
  case (2 config ids i body needs art gts models effort retries task_cx timeout children child)
  then show ?case using size_list_estimation' [of child children "size child" size] by simp
qed simp

definition gates_valid :: "'r config_services \<Rightarrow> string \<Rightarrow> config_node \<Rightarrow> validation_root \<Rightarrow> bool" where
  "gates_valid sv workflowId node vroot \<longleftrightarrow>
     (\<forall>(index, gate) \<in> set (enumerate 0 (or_else (wn_gates node) [])).
        gateMissingFields gate = [] \<and>
        (case gsp_body gate of
           JsonSchemaGate src schema_path \<Rightarrow>
             file_found sv (''workflows.'' @ workflowId @ ''.nodes.'' @ wn_id node @ ''.gates.'' @ show_nat index @ ''.schema_path'')
               (project_ref (Some schema_path)) vroot
         | _ \<Rightarrow> True))"

definition workflow_valid ::
  "'r config_services \<Rightarrow> full_config \<Rightarrow> validation_root \<Rightarrow> string \<Rightarrow> (artifact_spec list, gate_spec list) workflow \<Rightarrow> bool" where
  "workflow_valid sv config vroot workflowId w \<longleftrightarrow>
     distinct (map wn_id (wf_nodes w)) \<and>
     (\<forall>node \<in> set (wf_nodes w). node_valid config (wn_id ` set (wf_nodes w)) node \<and> gates_valid sv workflowId node vroot)"

definition references_valid :: "profile_config \<Rightarrow> full_config \<Rightarrow> bool" where
  "references_valid actor config \<longleftrightarrow>
     list_all (record_has (fc_rules config)) (or_else (prf_rules actor) []) \<and>
     list_all (record_has (fc_skills config)) (or_else (prf_skills actor) []) \<and>
     list_all (record_has (mcpServerRegistryFor config)) (or_else (prf_mcp_servers actor) [])"

definition capabilities_valid :: "profile_config \<Rightarrow> capabilities \<Rightarrow> bool" where
  "capabilities_valid actor runner \<longleftrightarrow>
     (or_else (prf_rules actor) [] = [] \<or> or_else (ca_rules runner) False) \<and>
     (or_else (prf_skills actor) [] = [] \<or> or_else (ca_skills runner) False) \<and>
     (or_else (prf_mcp_servers actor) [] = [] \<or> or_else (ca_mcp_servers runner) False) \<and>
     supports (ca_tools runner) (or_else (prf_tools actor) []) \<and>
     supports (ca_filesystem runner) (or_else (optionalSingleton (prf_filesystem_mode actor)) []) \<and>
     supports (ca_network runner) (or_else (optionalSingleton (prf_network_mode actor)) [])"

definition output_valid ::
  "'r config_services \<Rightarrow> string \<Rightarrow> profile_config \<Rightarrow> capabilities \<Rightarrow> full_config \<Rightarrow> validation_root \<Rightarrow> bool" where
  "output_valid sv profileId profile runner config vroot \<longleftrightarrow> (case prf_output profile of
     None \<Rightarrow> True
   | Some output \<Rightarrow>
       supports (ca_output_formats runner) [oc_format output] \<and>
       (oc_format output = ''json_schema'' \<longrightarrow> oc_schema_path output \<noteq> None) \<and>
       file_found sv (''profiles.'' @ profileId @ ''.output.schema_path'') (project_ref (oc_schema_path output)) vroot \<and>
       (case truthy (oc_repair_runner output) of
          None \<Rightarrow> True
        | Some repair \<Rightarrow> (case map_of (fc_runners config) repair of
            None \<Rightarrow> False | Some r \<Rightarrow> supports (ca_output_formats r) [''text''])))"

definition profile_valid :: "'r config_services \<Rightarrow> full_config \<Rightarrow> validation_root \<Rightarrow> string \<Rightarrow> profile_config \<Rightarrow> bool" where
  "profile_valid sv config vroot profileId profile \<longleftrightarrow> (case map_of (fc_runners config) (prf_runner profile) of
     None \<Rightarrow> False
   | Some runner \<Rightarrow>
       (prf_instructions_path profile \<noteq> None \<or> prf_instructions_inline profile \<noteq> None) \<and>
       file_found sv (''profiles.'' @ profileId @ ''.instructions.path'') (project_ref (prf_instructions_path profile)) vroot \<and>
       references_valid profile config \<and> capabilities_valid profile runner \<and>
       output_valid sv profileId profile runner config vroot)"

definition hooks_valid :: "'r config_services \<Rightarrow> full_config \<Rightarrow> validation_root \<Rightarrow> bool" where
  "hooks_valid sv config vroot \<longleftrightarrow>
     (\<forall>(functionId, schema) \<in> set (fc_hook_functions config).
        file_found sv (''hooks.functions.'' @ functionId @ ''.returns.schema'') (project_ref schema) vroot) \<and>
     (\<forall>(event, bindings) \<in> set (fc_hook_on config).
        event \<in> set HOOK_EVENTS \<and>
        (\<forall>b \<in> set bindings. ID_RE (hb_id b) \<and> record_has (fc_hook_functions config) (hb_function b)))"

definition entrypoint_valid :: "full_config \<Rightarrow> entrypoint \<Rightarrow> bool" where
  "entrypoint_valid config e \<longleftrightarrow> (case e of
     WorkflowEntrypoint w \<Rightarrow> record_has (pc_workflows config) w
   | ScheduleEntrypoint s \<Rightarrow> record_has (fc_schedules config) s)"

definition known_profile :: "full_config \<Rightarrow> string option \<Rightarrow> bool" where
  "known_profile config p \<longleftrightarrow> (case p of None \<Rightarrow> True | Some profile \<Rightarrow> record_has (fc_profiles config) profile)"

definition registries_valid :: "full_config \<Rightarrow> bool" where
  "registries_valid config \<longleftrightarrow>
     ids_valid (fc_runners config) \<and> ids_valid (fc_profiles config) \<and> ids_valid (fc_rules config) \<and>
     ids_valid (fc_skills config) \<and> ids_valid (fc_mcp_servers config) \<and> ids_valid (fc_hook_functions config) \<and>
     ids_valid (pc_workflows config) \<and> ids_valid (fc_entrypoints config)"

definition config_valid :: "'r config_services \<Rightarrow> full_config \<Rightarrow> validation_root \<Rightarrow> bool" where
  "config_valid sv config vroot \<longleftrightarrow>
     registries_valid config \<and> known_profile config (fc_orchestrator config) \<and>
     (\<forall>(profileId, profile) \<in> set (fc_profiles config). profile_valid sv config vroot profileId profile) \<and>
     hooks_valid sv config vroot \<and>
     fst ` set (fc_by_category config) \<subseteq> set (knownNodeCategories config) \<and>
     record_has (pc_workflows config) (pc_default_workflow config) \<and>
     (\<forall>(i, e) \<in> set (fc_entrypoints config). entrypoint_valid config e) \<and>
     (\<forall>(i, schedule) \<in> set (fc_schedules config). known_profile config (sp_planner_profile schedule)) \<and>
     (\<forall>(ruleId, rule) \<in> set (fc_rules config). file_found sv (''rules.'' @ ruleId @ ''.path'') rule vroot) \<and>
     (\<forall>(workflowId, w) \<in> set (pc_workflows config). workflow_valid sv config vroot workflowId w)"

subsection \<open>No issue is found exactly in a valid configuration\<close>

lemma found_unless_Nil [simp]: "found_unless ok message path = [] \<longleftrightarrow> ok"
  by (simp add: found_unless_def found_def)

lemma found_not_Nil [simp]: "found message path \<noteq> []"
  by (simp add: found_def)

lemma concat_map_Nil: "concat (map f xs) = [] \<longleftrightarrow> (\<forall>x \<in> set xs. f x = [])"
  by auto

lemma validatePath_Nil [simp]: "validatePath sv path ref vroot = [] \<longleftrightarrow> file_found sv path ref vroot"
  by (cases "rf_path ref") (auto simp: validatePath_def file_found_def)

lemma validateRegistryIds_Nil [simp]: "validateRegistryIds name registry = [] \<longleftrightarrow> ids_valid registry"
  by (auto simp: validateRegistryIds_def ids_valid_def)

lemma validateListCapability_Nil [simp]:
  "validateListCapability path requested supported label = [] \<longleftrightarrow> supports supported (or_else requested [])"
  by (cases requested) (auto simp: validateListCapability_def supports_def Let_def)

lemma validateBooleanCapability_Nil [simp]:
  "validateBooleanCapability path refs capability label = [] \<longleftrightarrow> or_else refs [] = [] \<or> or_else capability False"
  by (auto simp: validateBooleanCapability_def)

lemma validateReferences_Nil [simp]:
  "validateReferences path refs registry label = [] \<longleftrightarrow> list_all (record_has registry) (or_else refs [])"
  by (auto simp: validateReferences_def list_all_iff)

lemma collectNodeIds_ids: "set (fst (collectNodeIds nodes f ids)) = set ids \<union> wn_id ` set nodes"
  by (induction nodes arbitrary: ids) (auto simp: set_add_def case_prod_beta)

lemma collectNodeIds_Nil:
  assumes "\<And>node. f node \<noteq> []"
  shows "snd (collectNodeIds nodes f ids) = [] \<longleftrightarrow> distinct (map wn_id nodes) \<and> wn_id ` set nodes \<inter> set ids = {}"
  using assms
proof (induction nodes arbitrary: ids)
  case (Cons node nodes)
  show ?case using Cons.IH [of "set_add ids (wn_id node)"] Cons.prems
    by (auto simp: set_add_def case_prod_beta)
qed simp

lemma collected:
  assumes "collectNodeIds nodes (\<lambda>node. found (m node) (p node)) [] = (ids, dups)"
  shows "set ids = wn_id ` set nodes" "dups = [] \<longleftrightarrow> distinct (map wn_id nodes)"
  using collectNodeIds_ids [of nodes "\<lambda>node. found (m node) (p node)" "[]"]
    collectNodeIds_Nil [of "\<lambda>node. found (m node) (p node)" nodes "[]"] assms by simp_all

lemma collected_children_Nil:
  assumes "\<And>ids dups child. (ids, dups) = collectNodeIds nodes (\<lambda>node. found (m node) (p node)) [] \<Longrightarrow>
    child \<in> set nodes \<Longrightarrow> g ids child = [] \<longleftrightarrow> P child"
  shows "(case collectNodeIds nodes (\<lambda>node. found (m node) (p node)) [] of
      (ids, dups) \<Rightarrow> dups @ concat (map (g ids) nodes)) = [] \<longleftrightarrow>
    distinct (map wn_id nodes) \<and> (\<forall>child \<in> set nodes. P child)"
  using collected(2) assms by (cases "collectNodeIds nodes (\<lambda>node. found (m node) (p node)) []") fastforce

lemma validateWorkflowNode_Nil [simp]:
  "validateWorkflowNode workflowId ids config node = [] \<longleftrightarrow> node_valid config (set ids) node"
proof (induction workflowId ids config node rule: validateWorkflowNode.induct)
  case IH: (1 workflowId ids config i body needs art gts models effort retries task_cx timeout)
  show ?case
  proof (cases body)
    case (ParallelBody children)
    have "(case collectNodeIds children (\<lambda>child. found
        (''parallel node '' @ quoted i @ '' declares duplicate child node id '' @ quoted (wn_id child))
        (''workflows.'' @ workflowId @ ''.nodes.'' @ i @ ''.nodes.'' @ wn_id child)) [] of
      (childIds, dups) \<Rightarrow> dups @ concat (map (validateWorkflowNode workflowId childIds config) children)) = [] \<longleftrightarrow>
      distinct (map wn_id children) \<and> (\<forall>child \<in> set children. node_valid config (wn_id ` set children) child)"
    proof (rule collected_children_Nil, goal_cases)
      case (1 childIds dups child)
      show ?case using IH [OF ParallelBody 1] collected(1) [OF 1(1) [symmetric]] by (simp only:)
    qed
    note children = this
    show ?thesis
      unfolding validateWorkflowNode.simps node_valid.simps ParallelBody node_body.case append_is_Nil_conv children
      by (auto simp: validateWorkflowNodeKind_def)
  qed (auto simp: validateWorkflowNodeKind_def)
qed

lemma validateGateRequiredFields_Nil [simp]:
  "validateGateRequiredFields gate path nodeId = [] \<longleftrightarrow> gateMissingFields gate = []"
  by (cases "gateMissingFields gate") (simp_all add: validateGateRequiredFields_def case_prod_beta)

lemma validateNodeGates_Nil [simp]: "validateNodeGates sv workflowId node vroot = [] \<longleftrightarrow> gates_valid sv workflowId node vroot"
  unfolding validateNodeGates_def gates_valid_def concat_map_Nil Let_def
proof (rule ball_cong [OF refl], goal_cases)
  case (1 x)
  obtain index gate where x: "x = (index, gate)" by (cases x)
  show ?case unfolding x by (cases "gsp_body gate") simp_all
qed

lemma validateWorkflow_Nil [simp]: "validateWorkflow sv config vroot workflowId w = [] \<longleftrightarrow> workflow_valid sv config vroot workflowId w"
  by (auto simp: validateWorkflow_def workflow_valid_def dest: collected split: prod.splits)

text \<open>With a gateway, an MCP server that resolves is the gateway itself, so the policy adds nothing.\<close>

lemma validateActor_Nil [simp]:
  "validateActor sv label path actor runner config vroot = [] \<longleftrightarrow>
     (prf_instructions_path actor \<noteq> None \<or> prf_instructions_inline actor \<noteq> None) \<and>
     file_found sv (path @ ''.instructions.path'') (project_ref (prf_instructions_path actor)) vroot \<and>
     references_valid actor config \<and> capabilities_valid actor runner"
proof -
  have "validateActorReferences path actor config = [] \<longleftrightarrow> references_valid actor config"
    by (simp add: validateActorReferences_def references_valid_def)
  moreover have "references_valid actor config \<Longrightarrow> validateActorGatewayPolicy path actor config = []"
    by (auto simp: references_valid_def validateActorGatewayPolicy_def mcpServerRegistryFor_def list_all_iff
        record_has_def split: if_splits)
  moreover have "validateActorCapabilities path actor runner = [] \<longleftrightarrow> capabilities_valid actor runner"
    by (simp add: validateActorCapabilities_def capabilities_valid_def)
  moreover have "validateActorInstructions sv label path actor vroot = [] \<longleftrightarrow>
      (prf_instructions_path actor \<noteq> None \<or> prf_instructions_inline actor \<noteq> None) \<and>
      file_found sv (path @ ''.instructions.path'') (project_ref (prf_instructions_path actor)) vroot"
    by (auto simp: validateActorInstructions_def)
  ultimately show ?thesis by (simp add: validateActor_def) blast
qed

lemma file_found_None [simp]: "file_found sv path (project_ref None) vroot"
  by (simp add: file_found_def project_ref_def)

lemma supports_Nil [simp]: "supports supported []"
  by (simp add: supports_def)

lemma validateOutput_Nil:
  "validateProfileOutputFormat profileId profile runner @ validateJsonSchemaOutputRequirement profileId profile @
     validateProfileRepairRunner profileId profile config @ validateProfileOutputSchemaPath sv profileId profile vroot = []
   \<longleftrightarrow> output_valid sv profileId profile runner config vroot"
proof (cases "prf_output profile")
  case None
  then show ?thesis
    by (simp add: validateProfileOutputFormat_def validateJsonSchemaOutputRequirement_def
        validateProfileRepairRunner_def configuredRepairRunnerId_def validateProfileOutputSchemaPath_def
        output_valid_def optionalSingleton_def truthy_def)
next
  case (Some out)
  then show ?thesis
    by (cases "truthy (oc_repair_runner out)")
       (auto simp: validateProfileOutputFormat_def validateJsonSchemaOutputRequirement_def
        validateProfileRepairRunner_def configuredRepairRunnerId_def validateProfileOutputSchemaPath_def
        output_valid_def optionalSingleton_def split: option.splits)
qed

lemma validateProfileEntry_Nil [simp]:
  "validateProfileEntry sv config vroot profileId profile = [] \<longleftrightarrow> profile_valid sv config vroot profileId profile"
proof (cases "map_of (fc_runners config) (prf_runner profile)")
  case (Some runner)
  then show ?thesis
    using validateOutput_Nil [of profileId profile runner config sv vroot]
    by (simp add: validateProfileEntry_def profile_valid_def validateProfile_def)
qed (simp add: validateProfileEntry_def profile_valid_def)

lemma enumerate_issues_Nil:
  "concat (map f (enumerate n xs)) = [] \<longleftrightarrow> (\<forall>i < length xs. f (n + i, xs ! i) = [])"
  by (induction xs arbitrary: n) (auto simp: All_less_Suc2)

lemma validateHookBinding_Nil [simp]:
  "validateHookBinding config event index b = [] \<longleftrightarrow> ID_RE (hb_id b) \<and> record_has (fc_hook_functions config) (hb_function b)"
  by (simp add: validateHookBinding_def)

lemma validateHookConfig_Nil [simp]: "validateHookConfig sv config vroot = [] \<longleftrightarrow> hooks_valid sv config vroot"
proof -
  have event_Nil: "(case x of (event, bindings) \<Rightarrow>
      if event \<notin> set HOOK_EVENTS then issues_of event
      else concat (map (\<lambda>(index, binding). validateHookBinding config event index binding) (enumerate 0 bindings))) = [] \<longleftrightarrow>
    (case x of (event, bindings) \<Rightarrow> event \<in> set HOOK_EVENTS \<and>
      (\<forall>b \<in> set bindings. ID_RE (hb_id b) \<and> record_has (fc_hook_functions config) (hb_function b)))"
    if "\<And>event. issues_of event \<noteq> []" for x issues_of
    using that by (cases x) (simp add: enumerate_issues_Nil all_set_conv_all_nth del: concat_eq_Nil_conv)
  have "concat (map (\<lambda>(functionId, schema).
      validatePath sv (''hooks.functions.'' @ functionId @ ''.returns.schema'') (project_ref schema) vroot)
      (object_entries (fc_hook_functions config))) = [] \<longleftrightarrow>
    (\<forall>(functionId, schema) \<in> set (fc_hook_functions config).
      file_found sv (''hooks.functions.'' @ functionId @ ''.returns.schema'') (project_ref schema) vroot)"
    by (simp add: case_prod_beta)
  then show ?thesis
    unfolding validateHookConfig_def hooks_valid_def append_is_Nil_conv
    by (simp only: concat_map_Nil [where xs = "object_entries (fc_hook_on config)"] event_Nil [OF found_not_Nil] set_object_entries)
qed

lemma validateTokenBudget_Nil [simp]:
  "validateTokenBudget config = [] \<longleftrightarrow> fst ` set (fc_by_category config) \<subseteq> set (knownNodeCategories config)"
  by (auto simp: validateTokenBudget_def)

lemma validateEntrypointReferences_Nil [simp]:
  "validateEntrypointReferences config = [] \<longleftrightarrow>
     record_has (pc_workflows config) (pc_default_workflow config) \<and>
     (\<forall>(i, e) \<in> set (fc_entrypoints config). entrypoint_valid config e)"
proof -
  have "(case e of WorkflowEntrypoint w \<Rightarrow> found_unless (record_has (pc_workflows config) w) (m w) p
      | ScheduleEntrypoint s \<Rightarrow> found_unless (record_has (fc_schedules config) s) (m' s) p') = [] \<longleftrightarrow>
      entrypoint_valid config e" for e m m' p p'
    by (cases e) (simp_all add: entrypoint_valid_def)
  then show ?thesis by (simp add: validateEntrypointReferences_def case_prod_beta)
qed

lemma validateScheduleReferences_Nil [simp]:
  "validateScheduleReferences config = [] \<longleftrightarrow> (\<forall>(i, schedule) \<in> set (fc_schedules config). known_profile config (sp_planner_profile schedule))"
  by (auto simp: validateScheduleReferences_def known_profile_def split: option.splits)

lemma validateOrchestrator_Nil [simp]:
  "validateOrchestrator config = [] \<longleftrightarrow> known_profile config (fc_orchestrator config)"
  by (simp add: validateOrchestrator_def known_profile_def split: option.splits)

lemma config_issues_Nil: "config_issues sv config vroot = [] \<longleftrightarrow> config_valid sv config vroot"
  unfolding config_issues_def config_valid_def registries_valid_def append_is_Nil_conv
  by (simp add: case_prod_beta)


subsection \<open>A validated configuration is ready for the planner\<close>

abbreviation planner_config :: "full_config \<Rightarrow> (artifact_spec list, gate_spec list) pipeline_config" where
  "planner_config config \<equiv> pipeline_config.truncate config"

lemma planner_config_fields [simp]:
  "pc_workflows (planner_config config) = pc_workflows config"
  "pc_default_workflow (planner_config config) = pc_default_workflow config"
  by (simp_all add: pipeline_config.truncate_def)

lemma validatePipelineConfig_Inr:
  "validatePipelineConfig sv raw vroot = Inr config \<longleftrightarrow> cs_parse sv raw = Inr config \<and> config_valid sv config vroot"
  by (auto simp: validatePipelineConfig_def config_issues_Nil Let_def split: sum.splits)

lemma ID_RE_nonempty: "ID_RE i \<Longrightarrow> i \<noteq> []"
  by (auto simp: ID_RE_def)

lemma node_valid_facts:
  assumes "node_valid config ids node"
  shows "ID_RE (wn_id node)" "set (wn_needs_list node) \<subseteq> ids"
  using assms by (cases node, simp add: wn_needs_list_def)+

lemma valid_nonempty_ids:
  assumes "config_valid sv config vroot"
  shows "nonempty_ids (planner_config config)"
proof -
  have "[] \<notin> wn_id ` set (wf_nodes w)" if "(i, w) \<in> set (pc_workflows config)" for i w
  proof -
    have "ID_RE (wn_id node)" if "node \<in> set (wf_nodes w)" for node
      using assms \<open>(i, w) \<in> _\<close> that node_valid_facts(1)
      unfolding config_valid_def workflow_valid_def by fastforce
    then show ?thesis using ID_RE_nonempty by fastforce
  qed
  then show ?thesis by (auto simp: nonempty_ids_def)
qed

lemma normalizeGroupNode_facts [simp]:
  "wn_id (normalizeGroupNode node) = wn_id node" "wn_body (normalizeGroupNode node) = wn_body node"
  by (induction node rule: normalizeGroupNode.induct) simp_all

lemma normalizeGroupNode_needs:
  "set (wn_needs_list (normalizeGroupNode node)) =
     set (wn_needs_list node) \<union> (case wn_body node of GroupBody members \<Rightarrow> set members | _ \<Rightarrow> {})"
  by (induction node rule: normalizeGroupNode.induct) (auto simp: wn_needs_list_def)

lemma valid_workflow_plannable:
  assumes "workflow_valid sv config vroot workflowId w" "map_of (pc_workflows config) workflowId = Some w"
  shows "plannable (declared_nodes (planner_config config) workflowId) \<longleftrightarrow>
    (\<forall>node \<in> set (wf_nodes w). group_ok (wn_id ` set (wf_nodes w)) node) \<and>
    acyclic (list_edges wn_id wn_needs (declared_nodes (planner_config config) workflowId))"
proof -
  have nodes: "declared_nodes (planner_config config) workflowId = map normalizeGroupNode (wf_nodes w)"
    using assms(2) by (simp add: declared_nodes_def normalizeGroupDependencies_def)
  have ids: "map wn_id (map normalizeGroupNode (wf_nodes w)) = map wn_id (wf_nodes w)" by simp
  have ids': "wn_id ` set (map normalizeGroupNode (wf_nodes w)) = wn_id ` set (wf_nodes w)"
    by (auto simp: image_iff)
  have groups: "(\<forall>node \<in> set (map normalizeGroupNode (wf_nodes w)). group_ok ids node) \<longleftrightarrow>
      (\<forall>node \<in> set (wf_nodes w). group_ok ids node)" for ids
    by (auto simp: group_ok_def split: node_body.splits)
  have "set (wn_needs_list (normalizeGroupNode node)) \<subseteq> wn_id ` set (wf_nodes w)"
    if "node \<in> set (wf_nodes w)" "group_ok (wn_id ` set (wf_nodes w)) node" for node
    using that assms(1) node_valid_facts(2) unfolding workflow_valid_def normalizeGroupNode_needs group_ok_def
    by (fastforce split: node_body.splits)
  then show ?thesis
    using assms(1) unfolding plannable_def nodes ids ids' groups workflow_valid_def by auto
qed


text \<open>A configuration of one workflow, with a parallel node of two children and a group.\<close>

definition plain_node :: "string \<Rightarrow> (artifact_spec list, gate_spec list) node_body \<Rightarrow> gate_spec list \<Rightarrow> config_node" where
  "plain_node i body gts = WorkflowNode i body None None (Some gts) None None None None None"

definition config_with :: "config_node list \<Rightarrow> full_config" where
  "config_with nodes = \<lparr>pc_default_workflow = ''ci'', pc_workflows = [(''ci'', \<lparr>wf_nodes = nodes, wf_execution = None\<rparr>)],
     fc_by_category = [], fc_entrypoints = [(''main'', WorkflowEntrypoint ''ci'')], fc_hook_functions = [],
     fc_hook_on = [], fc_mcp_gateway = False, fc_mcp_servers = [], fc_node_catalogs = [], fc_orchestrator = None,
     fc_profiles = [], fc_pull_request = None, fc_rules = [], fc_runners = [], fc_schedules = [], fc_skills = []\<rparr>"

definition decoding_services :: "full_config config_services" where
  "decoding_services = \<lparr>cs_parse = Inr, cs_exists = (\<lambda>path. True), cs_homedir = ''~'', cs_isAbsolute = (\<lambda>path. False),
     cs_join = (@), cs_packagePath = (\<lambda>path. path), cs_standardSchema = (\<lambda>path. None)\<rparr>"

definition at_project :: validation_root where
  "at_project = \<lparr>vr_projectRoot = ''p'', vr_allowMissing = False\<rparr>"

definition two_commands :: "config_node list" where
  "two_commands = [plain_node ''a'' (CommandBody [''a'']) [], plain_node ''b'' (ParallelBody
     [plain_node ''c'' (CommandBody [''c'']) []]) [], plain_node ''g'' (GroupBody [''a'', ''b'']) []]"

definition config_build :: "(artifact_spec list, gate_spec list) planned_node graph_op list \<Rightarrow>
    (artifact_spec list, gate_spec list) planned_node dep_graph" where
  "config_build = reference_graph (toPlannedNode (plain_node [] (CommandBody []) []) 0)"

lemma two_commands_validated:
  "validatePipelineConfig decoding_services (config_with two_commands) at_project = Inr (config_with two_commands)"
  by code_simp

lemma config_build_spec: "graphlib_spec config_build"
  by (simp add: config_build_def reference_graph_spec)

text \<open>
  C26: A workflow of a validated configuration compiles to a plan exactly when its groups are not empty, refer to
  other nodes of the workflow, and its dependencies are acyclic: duplicate identifiers, undeclared needs, a
  missing workflow and empty identifiers are errors the planner can no longer meet.
\<close>

theorem validated_workflow_compiles:
  assumes "validatePipelineConfig sv raw vroot = Inr config" "graphlib_spec build"
    and "map_of (pc_workflows config) workflowId = Some w"
  shows "(\<exists>plan. compileWorkflowPlan build (planner_config config) (Some workflowId) = Inr plan) \<longleftrightarrow>
    (\<forall>node \<in> set (wf_nodes w). group_ok (wn_id ` set (wf_nodes w)) node) \<and>
    acyclic (list_edges wn_id wn_needs (declared_nodes (planner_config config) workflowId))"
proof -
  have valid: "config_valid sv config vroot" using assms(1) by (simp add: validatePipelineConfig_Inr)
  have "workflow_valid sv config vroot workflowId w"
    using valid map_of_SomeD [OF assms(3)] by (auto simp: config_valid_def)
  note plannable = valid_workflow_plannable [OF this assms(3)]
  show ?thesis
  proof (rule iffI, goal_cases)
    case 1
    then obtain plan where "compileWorkflowPlan build (planner_config config) (Some workflowId) = Inr plan" by blast
    with assms(2) valid_nonempty_ids [OF valid] have "plannable (declared_nodes (planner_config config) workflowId)"
      by (rule compileWorkflowPlan_Inr) simp
    then show ?case using plannable by blast
  next
    case 2
    let ?wid = "or_else (Some workflowId) (pc_default_workflow (planner_config config))"
    have w: "map_of (pc_workflows (planner_config config)) ?wid = Some w" using assms(3) by simp
    have ok: "plannable (declared_nodes (planner_config config) ?wid)" using plannable 2 by simp
    from assms(2) valid_nonempty_ids [OF valid] w ok show ?case
      by (rule compileWorkflowPlan_plannable) blast
  qed
qed

lemma validated_workflow_compiles_witness:
  "map wn_id (filter (\<lambda>node. \<not> group_ok (set [''a'', ''b'', ''g'']) node) two_commands) = []"
proof -
  have "case compileWorkflowPlan config_build (planner_config (config_with two_commands)) (Some ''ci'') of
      Inl e \<Rightarrow> False | Inr plan \<Rightarrow> True" by code_simp
  then have "\<exists>plan. compileWorkflowPlan config_build (planner_config (config_with two_commands)) (Some ''ci'') = Inr plan"
    by (auto split: sum.splits)
  moreover have "map_of (pc_workflows (config_with two_commands)) ''ci'' = Some \<lparr>wf_nodes = two_commands, wf_execution = None\<rparr>"
    by (simp add: config_with_def)
  ultimately show ?thesis
    using validated_workflow_compiles [OF two_commands_validated config_build_spec, of "''ci''"]
    by (simp add: two_commands_def plain_node_def filter_empty_conv)
qed

text \<open>
  C1: The gates of a parallel node's children are not checked: a gate that reads an artifact without a path is
  refused on a node of the workflow, and accepted on a child of a parallel node.
\<close>

definition pathless_gate :: gate_spec where
  "pathless_gate = \<lparr>gsp_id = None, gsp_required = None,
     gsp_body = VerdictGate \<lparr>js_path = None, js_target = Some ArtifactTarget\<rparr> None None\<rparr>"

theorem child_gates_not_validated:
  "map (\<lambda>nodes. case validatePipelineConfig decoding_services (config_with nodes) at_project of
       Inl e \<Rightarrow> map ci_path (ce_issues e) | Inr config \<Rightarrow> [])
     [[plain_node ''c'' (CommandBody [''c'']) [pathless_gate]],
      [plain_node ''b'' (ParallelBody [plain_node ''c'' (CommandBody [''c'']) [pathless_gate]]) []]] =
   [[''workflows.ci.nodes.c.gates.0.path''], []]"
  by code_simp

end
