(* ===== verification/SchedulePasses.thy ===== *)
theory SchedulePasses
  imports ConfigValidation
begin

text \<open>
  The passes that normalize a generated schedule (\<^verbatim>\<open>src/schedule/passes\<close>, with the roles of
  \<^verbatim>\<open>src/schedule/scheduling-roles.ts\<close> and the generated ids of \<^verbatim>\<open>src/strings.ts\<close>): downstream coverage, integration of
  parallel writers, delivery, models, canonical ids and the names of the scheduled workflows. Reading a role of
  a profile that is not declared throws, which is a branch of the model.
\<close>

subsection \<open>Generated ids\<close>

fun hyphenate :: "bool \<Rightarrow> string \<Rightarrow> string" where
  "hyphenate replacing [] = []"
| "hyphenate replacing (c # cs) =
     (if is_lower c \<or> is_digit c then c # hyphenate False cs
      else (if replacing then [] else ''-'') @ hyphenate True cs)"

definition trim_hyphens :: "string \<Rightarrow> string" where
  "trim_hyphens s = rev (dropWhile (\<lambda>c. c = CHR ''-'') (rev (dropWhile (\<lambda>c. c = CHR ''-'') s)))"

definition generatedId :: "string \<Rightarrow> string \<Rightarrow> string" where
  "generatedId source fallbackPrefix =
     (let slug = trim_hyphens (hyphenate False (to_lower (js_trim source))) in
      if slug \<noteq> [] \<and> is_lower (hd slug) then slug
      else if slug \<noteq> [] then fallbackPrefix @ ''-'' @ slug else fallbackPrefix)"

lemma numeric_value_snoc: "numeric_value (s @ [c]) = 10 * numeric_value s + (of_char c - 48)"
  by (simp add: numeric_value_def)

lemma numeric_value_show_nat: "numeric_value (show_nat n) = n"
proof (induction n rule: show_nat.induct)
  case (1 n)
  have "of_char (digit_char d) = 48 + d" if "d < 10" for d :: nat
    using that by (auto simp: digit_char_def)
  then show ?case using 1 by (subst show_nat.simps) (auto simp: numeric_value_snoc numeric_value_def)
qed

lemma inj_suffixed: "inj (\<lambda>n. base @ ''-'' @ show_nat n)"
  by (rule injI) (metis append_same_eq numeric_value_show_nat same_append_eq)

definition free_suffixes :: "string \<Rightarrow> string list \<Rightarrow> nat \<Rightarrow> nat set" where
  "free_suffixes base used suffix = {n. suffix \<le> n \<and> base @ ''-'' @ show_nat n \<in> set used}"

lemma finite_free_suffixes: "finite (free_suffixes base used suffix)"
  unfolding free_suffixes_def
  by (rule finite_subset [OF _ finite_vimageI [OF finite_set [of used] inj_suffixed [of base]]]) auto

lemma free_suffixes_smaller:
  assumes "base @ ''-'' @ show_nat suffix \<in> set used"
  shows "card (free_suffixes base used (Suc suffix)) < card (free_suffixes base used suffix)"
proof (rule psubset_card_mono [OF finite_free_suffixes])
  have "suffix \<in> free_suffixes base used suffix" using assms by (simp add: free_suffixes_def)
  moreover have "suffix \<notin> free_suffixes base used (Suc suffix)" by (simp add: free_suffixes_def)
  moreover have "free_suffixes base used (Suc suffix) \<subseteq> free_suffixes base used suffix"
    by (auto simp: free_suffixes_def)
  ultimately show "free_suffixes base used (Suc suffix) \<subset> free_suffixes base used suffix" by blast
qed

function suffixed_id :: "string \<Rightarrow> string list \<Rightarrow> nat \<Rightarrow> string" where
  "suffixed_id base used suffix =
     (let candidate = base @ ''-'' @ show_nat suffix in
      if candidate \<in> set used then suffixed_id base used (Suc suffix) else candidate)"
  by pat_completeness auto

termination
  by (relation "measure (\<lambda>(base, used, suffix). card (free_suffixes base used suffix))")
    (use free_suffixes_smaller in auto)

declare suffixed_id.simps [simp del]

definition uniqueGeneratedId :: "string \<Rightarrow> string list \<Rightarrow> string \<Rightarrow> string \<times> string list" where
  "uniqueGeneratedId source usedIds fallbackPrefix =
     (let base = generatedId source fallbackPrefix;
          candidate = (if base \<in> set usedIds then suffixed_id base usedIds 2 else base)
      in (candidate, set_add usedIds candidate))"

lemma suffixed_id_fresh: "suffixed_id base used suffix \<notin> set used"
  by (induction base used suffix rule: suffixed_id.induct)
    (subst suffixed_id.simps, auto simp: Let_def)

lemma suffixed_id_form: "\<exists>n. suffixed_id base used suffix = base @ ''-'' @ show_nat n"
  by (induction base used suffix rule: suffixed_id.induct)
    (subst suffixed_id.simps, auto simp: Let_def)

lemma uniqueGeneratedId_fresh:
  assumes "uniqueGeneratedId source used fallback = (i, used')"
  shows "i \<notin> set used" "set used' = insert i (set used)"
  using assms suffixed_id_fresh [of "generatedId source fallback" used 2]
  by (auto simp: uniqueGeneratedId_def Let_def set_add_def split: if_splits)

subsection \<open>Generated ids are well formed\<close>

definition slug_char :: "char \<Rightarrow> bool" where
  "slug_char c \<longleftrightarrow> is_lower c \<or> is_digit c \<or> c = CHR ''-''"

lemma ID_RE_iff: "ID_RE i \<longleftrightarrow> i \<noteq> [] \<and> is_lower (hd i) \<and> list_all slug_char (tl i)"
  by (cases i) (simp_all add: ID_RE_def slug_char_def [abs_def])

lemma ID_RE_append: "ID_RE i \<Longrightarrow> list_all slug_char s \<Longrightarrow> ID_RE (i @ s)"
  by (cases i) (auto simp: ID_RE_iff)

lemma hyphenate_slug: "list_all slug_char (hyphenate replacing s)"
  by (induction replacing s rule: hyphenate.induct) (auto simp: slug_char_def)

lemma trim_slug: "list_all slug_char s \<Longrightarrow> list_all slug_char (trim_hyphens s)"
  by (auto simp: trim_hyphens_def list_all_iff dest!: set_dropWhileD)

lemma ID_RE_slug: "s \<noteq> [] \<Longrightarrow> is_lower (hd s) \<Longrightarrow> list_all slug_char s \<Longrightarrow> ID_RE s"
  by (cases s) (auto simp: ID_RE_iff)

lemma slug_char_hyphen [simp]: "slug_char (CHR ''-'')"
  by (simp add: slug_char_def)

lemma generatedId_ID_RE:
  assumes "ID_RE fallback"
  shows "ID_RE (generatedId source fallback)"
proof -
  have "list_all slug_char (trim_hyphens (hyphenate False (to_lower (js_trim source))))"
    by (intro trim_slug hyphenate_slug)
  then show ?thesis
    using assms by (auto simp: generatedId_def Let_def intro: ID_RE_slug ID_RE_append)
qed

lemma show_nat_slug: "list_all slug_char (show_nat n)"
proof (induction n rule: show_nat.induct)
  case (1 n)
  have "slug_char (digit_char d)" if "d < 10" for d :: nat
    using that by (auto simp: digit_char_def slug_char_def is_digit_def)
  then show ?case using 1 by (subst show_nat.simps) auto
qed

lemma uniqueGeneratedId_ID_RE:
  assumes "ID_RE fallback" "uniqueGeneratedId source used fallback = (i, used')"
  shows "ID_RE i"
  using assms(2) generatedId_ID_RE [OF assms(1), of source] suffixed_id_form [of "generatedId source fallback" used 2]
    show_nat_slug
  by (auto simp: uniqueGeneratedId_def Let_def intro!: ID_RE_append split: if_splits)


subsection \<open>Schedules\<close>

type_synonym config_workflow = "(artifact_spec list, gate_spec list) workflow"

record schedule_artifact =
  sa_generated_at :: string
  sa_root_workflow :: string
  sa_schedule_id :: string
  sa_source_entrypoint :: string
  sa_task :: string
  sa_workflows :: "(string \<times> config_workflow) list"

text \<open>What a generation throws; \<open>ProfileUndefined\<close> is the \<open>TypeError\<close> of reading a role of an undeclared profile.\<close>

datatype schedule_failure =
    ScheduleArtifactError string
  | ProfileUndefined string
  | InvalidConfig config_error
  | InvalidPlan planner_error
  | ThrownFailure thrown

fun filter_or_throw :: "('x \<Rightarrow> 'e + bool) \<Rightarrow> 'x list \<Rightarrow> 'e + 'x list" where
  "filter_or_throw p [] = Inr []"
| "filter_or_throw p (x # xs) = (case p x of
     Inl e \<Rightarrow> Inl e
   | Inr keep \<Rightarrow> (case filter_or_throw p xs of Inl e \<Rightarrow> Inl e | Inr ys \<Rightarrow> Inr (if keep then x # ys else ys)))"

fun map_or_throw :: "('x \<Rightarrow> 'e + 'y) \<Rightarrow> 'x list \<Rightarrow> 'e + 'y list" where
  "map_or_throw f [] = Inr []"
| "map_or_throw f (x # xs) = (case f x of
     Inl e \<Rightarrow> Inl e
   | Inr y \<Rightarrow> (case map_or_throw f xs of Inl e \<Rightarrow> Inl e | Inr ys \<Rightarrow> Inr (y # ys)))"

definition on_nodes :: "(config_node list \<Rightarrow> config_node list) \<Rightarrow> config_workflow \<Rightarrow> config_workflow" where
  "on_nodes f w = w\<lparr>wf_nodes := f (wf_nodes w)\<rparr>"

text \<open>\<open>Object.fromEntries(Object.entries(artifact.workflows).map(...))\<close>\<close>

definition on_workflows :: "(config_workflow \<Rightarrow> config_workflow) \<Rightarrow> schedule_artifact \<Rightarrow> schedule_artifact" where
  "on_workflows f artifact =
     artifact\<lparr>sa_workflows := map (\<lambda>(i, w). (i, f w)) (object_entries (sa_workflows artifact))\<rparr>"

subsection \<open>Scheduling roles\<close>

definition has_role :: "scheduling_role \<Rightarrow> profile_config \<Rightarrow> bool" where
  "has_role role profile \<longleftrightarrow> role \<in> set (or_else (prf_scheduling_roles profile) [])"

definition agentHasSchedulingRole :: "full_config \<Rightarrow> config_node \<Rightarrow> scheduling_role \<Rightarrow> schedule_failure + bool" where
  "agentHasSchedulingRole config node role = (case wn_body node of
     AgentBody profile category \<Rightarrow> (case map_of (fc_profiles config) profile of
       None \<Rightarrow> Inl (ProfileUndefined profile) | Some p \<Rightarrow> Inr (has_role role p))
   | _ \<Rightarrow> Inr False)"

definition isImplementationNode :: "full_config \<Rightarrow> config_node \<Rightarrow> schedule_failure + bool" where
  "isImplementationNode config node = agentHasSchedulingRole config node ImplementationRole"

definition isCoverageNode :: "full_config \<Rightarrow> config_node \<Rightarrow> schedule_failure + bool" where
  "isCoverageNode config node = agentHasSchedulingRole config node CoverageRole"

definition isWorkspaceWriteProfile :: "full_config \<Rightarrow> string \<Rightarrow> bool" where
  "isWorkspaceWriteProfile config profileId =
     (Option.bind (map_of (fc_profiles config) profileId) prf_filesystem_mode = Some ''workspace-write'')"

fun isWriteCapableParallelChild :: "full_config \<Rightarrow> config_node \<Rightarrow> bool" where
  "isWriteCapableParallelChild config (WorkflowNode i body needs art gts models effort retries task_cx timeout) = (case body of
     CommandBody command \<Rightarrow> True
   | ParallelBody children \<Rightarrow> list_ex (isWriteCapableParallelChild config) children
   | AgentBody profile category \<Rightarrow> isWorkspaceWriteProfile config profile
   | _ \<Rightarrow> False)"

subsection \<open>Nodes as a graph\<close>

record sched_node = graph_node +
  sn_node :: config_node

definition graph_view :: "config_node \<Rightarrow> sched_node" where
  "graph_view node = \<lparr>gn_id = wn_id node, gn_needs = wn_needs node, sn_node = node\<rparr>"

lemma graph_view_simps [simp]:
  "gn_id (graph_view node) = wn_id node" "gn_needs (graph_view node) = wn_needs node" "sn_node (graph_view node) = node"
  by (simp_all add: graph_view_def)

definition need_index :: "config_node list \<Rightarrow> (string \<times> sched_node list) list" where
  "need_index nodes = dependentsByNeed (map graph_view nodes)"

definition hasDownstreamCoverage :: "full_config \<Rightarrow> string \<Rightarrow> (string \<times> sched_node list) list \<Rightarrow> bool" where
  "hasDownstreamCoverage config nodeId index =
     hasReachableDependent nodeId index (\<lambda>node. isCoverageNode config (sn_node node) = Inr True)"

subsection \<open>Coverage\<close>

definition DEFAULT_GENERATED_COVERAGE_PROFILE_PREFERENCE :: "string list" where
  "DEFAULT_GENERATED_COVERAGE_PROFILE_PREFERENCE =
     [''moka-verifier'', ''moka-acceptance-reviewer'', ''moka-thermo-nuclear-reviewer'']"

fun nodeNeedsImplementationCoverage :: "full_config \<Rightarrow> config_node \<Rightarrow> schedule_failure + bool"
and some_needs_coverage :: "full_config \<Rightarrow> config_node list \<Rightarrow> schedule_failure + bool" where
  "nodeNeedsImplementationCoverage config (WorkflowNode i body needs art gts models effort retries task_cx timeout) =
     (case isImplementationNode config (WorkflowNode i body needs art gts models effort retries task_cx timeout) of
        Inl e \<Rightarrow> Inl e
      | Inr True \<Rightarrow> Inr True
      | Inr False \<Rightarrow> (case body of ParallelBody children \<Rightarrow> some_needs_coverage config children | _ \<Rightarrow> Inr False))"
| "some_needs_coverage config [] = Inr False"
| "some_needs_coverage config (child # children) = (case nodeNeedsImplementationCoverage config child of
     Inl e \<Rightarrow> Inl e | Inr True \<Rightarrow> Inr True | Inr False \<Rightarrow> some_needs_coverage config children)"

definition preferred_profile :: "string list \<Rightarrow> string list \<Rightarrow> string option" where
  "preferred_profile preferred matching = (case find (\<lambda>i. i \<in> set matching) preferred of
     Some i \<Rightarrow> Some i | None \<Rightarrow> js_nth (sort matching) 0)"

definition profiles_with_role :: "full_config \<Rightarrow> scheduling_role \<Rightarrow> string list" where
  "profiles_with_role config role =
     map fst (filter (\<lambda>(i, profile). has_role role profile) (object_entries (fc_profiles config)))"

definition generatedCoverageProfileId :: "full_config \<Rightarrow> string option" where
  "generatedCoverageProfileId config =
     (let coverageProfiles = profiles_with_role config CoverageRole in
      if coverageProfiles = [] then None
      else preferred_profile DEFAULT_GENERATED_COVERAGE_PROFILE_PREFERENCE coverageProfiles)"

definition builtin_gate :: "string \<Rightarrow> string \<Rightarrow> gate_spec" where
  "builtin_gate i builtin = \<lparr>gsp_id = Some i, gsp_required = None, gsp_body = BuiltinGate builtin\<rparr>"

definition stdout_verdict_gate :: "string \<Rightarrow> gate_spec" where
  "stdout_verdict_gate i = \<lparr>gsp_id = Some i, gsp_required = None,
     gsp_body = VerdictGate \<lparr>js_path = None, js_target = Some StdoutTarget\<rparr> None None\<rparr>"

definition generatedCoverageGates :: "string \<Rightarrow> gate_spec list" where
  "generatedCoverageGates nodeId =
     [builtin_gate (nodeId @ ''-typecheck'') ''typecheck'', builtin_gate (nodeId @ ''-tests'') ''test'',
      builtin_gate (nodeId @ ''-lint'') ''lint'', builtin_gate (nodeId @ ''-fallow'') ''fallow'',
      builtin_gate (nodeId @ ''-semgrep'') ''semgrep'', builtin_gate (nodeId @ ''-duplication'') ''duplication'',
      stdout_verdict_gate (nodeId @ ''-verdict'')]"

definition plain_config_node ::
  "string \<Rightarrow> (artifact_spec list, gate_spec list) node_body \<Rightarrow> string list option \<Rightarrow> gate_spec list option \<Rightarrow> config_node" where
  "plain_config_node i body needs gts = WorkflowNode i body needs None gts None None None None None"

lemma plain_config_node_simps [simp]:
  "wn_id (plain_config_node i body needs gts) = i" "wn_body (plain_config_node i body needs gts) = body"
  "wn_needs (plain_config_node i body needs gts) = needs"
  by (simp_all add: plain_config_node_def)

definition coverage_node :: "string \<Rightarrow> string list \<Rightarrow> string \<Rightarrow> config_node" where
  "coverage_node i needs profile = plain_config_node i (AgentBody profile None) (Some needs) (Some (generatedCoverageGates i))"

definition addNodeScopeImplementationCoverage ::
  "full_config \<Rightarrow> config_node list \<Rightarrow> string \<Rightarrow> schedule_failure + config_node list" where
  "addNodeScopeImplementationCoverage config nodes coverageProfileId =
     (let index = need_index nodes in
      case filter_or_throw (nodeNeedsImplementationCoverage config) nodes of
        Inl e \<Rightarrow> Inl e
      | Inr needing \<Rightarrow>
          let uncovered = filter (\<lambda>node. \<not> hasDownstreamCoverage config (wn_id node) index) needing in
          if uncovered = [] then Inr nodes
          else case uniqueGeneratedId ''generated-coverage'' (js_set (map wn_id nodes)) ''generated-coverage'' of
            (coverageNodeId, usedIds) \<Rightarrow>
              Inr (nodes @ [coverage_node coverageNodeId (map wn_id uncovered) coverageProfileId]))"

definition addWorkflowImplementationCoverage ::
  "full_config \<Rightarrow> string \<Rightarrow> config_workflow \<Rightarrow> schedule_failure + config_workflow" where
  "addWorkflowImplementationCoverage config coverageProfileId w =
     (case addNodeScopeImplementationCoverage config (wf_nodes w) coverageProfileId of
        Inl e \<Rightarrow> Inl e | Inr nodes \<Rightarrow> Inr (w\<lparr>wf_nodes := nodes\<rparr>))"

definition addGeneratedImplementationCoverage ::
  "full_config \<Rightarrow> schedule_artifact \<Rightarrow> schedule_failure + schedule_artifact" where
  "addGeneratedImplementationCoverage config artifact = (case generatedCoverageProfileId config of
     None \<Rightarrow> Inr artifact
   | Some coverageProfileId \<Rightarrow>
       (case map_or_throw (\<lambda>(i, w). case addWorkflowImplementationCoverage config coverageProfileId w of
             Inl e \<Rightarrow> Inl e | Inr w1 \<Rightarrow> Inr (i, w1)) (object_entries (sa_workflows artifact)) of
          Inl e \<Rightarrow> Inl e | Inr workflows \<Rightarrow> Inr (artifact\<lparr>sa_workflows := workflows\<rparr>)))"

subsection \<open>Integration of parallel writers\<close>

definition DRAIN_MERGE_BUILTIN :: string where
  "DRAIN_MERGE_BUILTIN = ''drain-merge''"

definition isUnintegratedWriteFanout :: "full_config \<Rightarrow> config_node \<Rightarrow> bool" where
  "isUnintegratedWriteFanout config node = (case wn_body node of
     ParallelBody children \<Rightarrow> 1 < length (filter (isWriteCapableParallelChild config) children) | _ \<Rightarrow> False)"

definition is_builtin :: "string \<Rightarrow> config_node \<Rightarrow> bool" where
  "is_builtin builtin node \<longleftrightarrow> wn_body node = BuiltinBody builtin"

definition hasDrainMerge :: "string \<Rightarrow> (string \<times> sched_node list) list \<Rightarrow> bool" where
  "hasDrainMerge parallelId index = hasReachableDependent parallelId index (\<lambda>node. is_builtin DRAIN_MERGE_BUILTIN (sn_node node))"

fun set_needs :: "string list option \<Rightarrow> config_node \<Rightarrow> config_node" where
  "set_needs ns (WorkflowNode i body needs art gts models effort retries task_cx timeout) =
     WorkflowNode i body ns art gts models effort retries task_cx timeout"

lemma set_needs_simps [simp]:
  "wn_id (set_needs ns node) = wn_id node" "wn_body (set_needs ns node) = wn_body node" "wn_needs (set_needs ns node) = ns"
  by (cases node, simp)+

definition rerouteNeed :: "config_node \<Rightarrow> string \<Rightarrow> string \<Rightarrow> config_node" where
  "rerouteNeed node source target = (case wn_needs node of
     None \<Rightarrow> node
   | Some needs \<Rightarrow> if source \<notin> set needs then node
       else set_needs (Some (js_set (map (\<lambda>need. if need = source then target else need) needs))) node)"

definition insertDrainMerge :: "config_node list \<Rightarrow> string \<Rightarrow> string list \<Rightarrow> config_node list \<times> string list" where
  "insertDrainMerge nodes parallelId usedIds =
     (case uniqueGeneratedId (''generated-drain-merge-'' @ parallelId) usedIds ''generated-drain-merge'' of
        (mergeId, usedIds1) \<Rightarrow>
          (map (\<lambda>node. rerouteNeed node parallelId mergeId) nodes @
             [plain_config_node mergeId (BuiltinBody DRAIN_MERGE_BUILTIN) (Some [parallelId]) None],
           usedIds1))"

fun insert_all_merges :: "config_node list \<Rightarrow> config_node list \<Rightarrow> string list \<Rightarrow> config_node list" where
  "insert_all_merges [] current usedIds = current"
| "insert_all_merges (parallel # parallels) current usedIds =
     (case insertDrainMerge current (wn_id parallel) usedIds of
        (current1, usedIds1) \<Rightarrow> insert_all_merges parallels current1 usedIds1)"

definition integrateNodeList :: "full_config \<Rightarrow> config_node list \<Rightarrow> config_node list" where
  "integrateNodeList config nodes =
     (let index = need_index nodes;
          unintegrated = filter (\<lambda>node. isUnintegratedWriteFanout config node \<and> \<not> hasDrainMerge (wn_id node) index) nodes
      in if unintegrated = [] then nodes else insert_all_merges unintegrated nodes (js_set (map wn_id nodes)))"

definition integrateParallelWriteFanout :: "full_config \<Rightarrow> schedule_artifact \<Rightarrow> schedule_artifact" where
  "integrateParallelWriteFanout config artifact = on_workflows (on_nodes (integrateNodeList config)) artifact"

subsection \<open>Delivery\<close>

definition OPEN_PR_BUILTIN :: string where
  "OPEN_PR_BUILTIN = ''open-pull-request''"

definition isPullRequestDeliveryEnabled :: "full_config \<Rightarrow> bool" where
  "isPullRequestDeliveryEnabled config = (fc_pull_request config = Some True)"

definition shouldAppendPullRequestDelivery :: "full_config \<Rightarrow> bool option \<Rightarrow> bool" where
  "shouldAppendPullRequestDelivery config requested \<longleftrightarrow> requested = Some True \<or> isPullRequestDeliveryEnabled config"

definition hasPullRequestNode :: "config_node list \<Rightarrow> bool" where
  "hasPullRequestNode nodes = list_ex (is_builtin OPEN_PR_BUILTIN) nodes"

definition terminalNodeIds :: "config_node list \<Rightarrow> string list" where
  "terminalNodeIds nodes =
     (let dependents = need_index nodes in
      filter (\<lambda>i. or_else (map_of dependents i) [] = []) (map wn_id nodes))"

definition buildPrNode :: "string list \<Rightarrow> string list \<Rightarrow> config_node" where
  "buildPrNode terminalIds usedIds =
     plain_config_node (fst (uniqueGeneratedId ''generated-open-pull-request'' usedIds ''generated-open-pull-request''))
       (BuiltinBody OPEN_PR_BUILTIN) (Some terminalIds) None"

definition appendPullRequestDelivery :: "bool \<Rightarrow> schedule_artifact \<Rightarrow> schedule_artifact" where
  "appendPullRequestDelivery enabled artifact =
     (if \<not> enabled then artifact
      else case map_of (sa_workflows artifact) (sa_root_workflow artifact) of
        None \<Rightarrow> artifact
      | Some rootWorkflow \<Rightarrow>
          let nodes = wf_nodes rootWorkflow; terminals = terminalNodeIds nodes in
          if hasPullRequestNode nodes \<or> terminals = [] then artifact
          else artifact\<lparr>sa_workflows := AList.update (sa_root_workflow artifact)
            (rootWorkflow\<lparr>wf_nodes := nodes @ [buildPrNode terminals (js_set (map wn_id nodes))]\<rparr>) (sa_workflows artifact)\<rparr>)"

subsection \<open>Models of the node catalog\<close>

definition nodeModelsOrCatalog :: "string list option \<Rightarrow> node_template \<Rightarrow> string list" where
  "nodeModelsOrCatalog models template = (if or_else models [] \<noteq> [] then or_else models [] else nt_models template)"

definition nodeCatalogTemplateFor :: "string \<Rightarrow> string \<Rightarrow> (string \<times> node_template) list \<Rightarrow> node_template option" where
  "nodeCatalogTemplateFor nodeId profile templates = (case map_of templates nodeId of
     Some template \<Rightarrow> Some template
   | None \<Rightarrow> (case find (\<lambda>candidate. str_includes nodeId (nt_category candidate)) (object_values templates) of
       Some template \<Rightarrow> Some template
     | None \<Rightarrow> find (\<lambda>candidate. nt_profile candidate = profile) (object_values templates)))"

fun applyNodeCatalogModelsToNode :: "(string \<times> node_template) list \<Rightarrow> config_node \<Rightarrow> config_node" where
  "applyNodeCatalogModelsToNode templates (WorkflowNode i body needs art gts models effort retries task_cx timeout) = (case body of
     AgentBody profile category \<Rightarrow> (case nodeCatalogTemplateFor i profile templates of
       None \<Rightarrow> WorkflowNode i body needs art gts models effort retries task_cx timeout
     | Some template \<Rightarrow>
         WorkflowNode i (AgentBody profile (Some (or_else category (nt_category template)))) needs art gts
           (Some (nodeModelsOrCatalog models template))
           (if effort = None then nt_reasoning_effort template else effort) retries task_cx timeout)
   | ParallelBody children \<Rightarrow>
       WorkflowNode i (ParallelBody (map (applyNodeCatalogModelsToNode templates) children)) needs art gts models effort retries task_cx timeout
   | _ \<Rightarrow> WorkflowNode i body needs art gts models effort retries task_cx timeout)"

definition applyNodeCatalogModelFallbacks :: "full_config \<Rightarrow> string option \<Rightarrow> schedule_artifact \<Rightarrow> schedule_artifact" where
  "applyNodeCatalogModelFallbacks config catalogId artifact = (case catalogId of
     None \<Rightarrow> artifact
   | Some i \<Rightarrow> (case map_of (fc_node_catalogs config) i of
       None \<Rightarrow> artifact
     | Some catalog \<Rightarrow> on_workflows (on_nodes (map (applyNodeCatalogModelsToNode (nc_nodes catalog)))) artifact))"

subsection \<open>Canonical ids\<close>

fun node_tree :: "config_node \<Rightarrow> config_node tree_node" where
  "node_tree (WorkflowNode i body needs art gts models effort retries task_cx timeout) =
     TreeNode (WorkflowNode i body needs art gts models effort retries task_cx timeout)
       (case body of ParallelBody children \<Rightarrow> Some (map node_tree children) | _ \<Rightarrow> None)"

definition flattenWorkflowNodes :: "config_node list \<Rightarrow> config_node list" where
  "flattenWorkflowNodes nodes = flattenNodes (map node_tree nodes)"

definition renamed :: "(string \<times> string) list \<Rightarrow> string \<Rightarrow> string" where
  "renamed nodeIdMap i = or_else (map_of nodeIdMap i) i"

fun rewriteGeneratedWorkflowNodeIds :: "(string \<times> string) list \<Rightarrow> config_node \<Rightarrow> config_node" where
  "rewriteGeneratedWorkflowNodeIds nodeIdMap (WorkflowNode i body needs art gts models effort retries task_cx timeout) =
     WorkflowNode (renamed nodeIdMap i)
       (case body of
          ParallelBody children \<Rightarrow> ParallelBody (map (rewriteGeneratedWorkflowNodeIds nodeIdMap) children)
        | _ \<Rightarrow> body)
       (map_option (map (renamed nodeIdMap)) needs) art gts models effort retries task_cx timeout"

fun canonical_id_map :: "config_node list \<Rightarrow> (string \<times> string) list \<Rightarrow> string list \<Rightarrow> (string \<times> string) list" where
  "canonical_id_map [] nodeIdMap usedNodeIds = nodeIdMap"
| "canonical_id_map (node # nodes) nodeIdMap usedNodeIds =
     (case uniqueGeneratedId (wn_id node) usedNodeIds ''node'' of
        (i, usedNodeIds1) \<Rightarrow> canonical_id_map nodes (AList.update (wn_id node) i nodeIdMap) usedNodeIds1)"

definition canonical_nodes :: "config_node list \<Rightarrow> config_node list" where
  "canonical_nodes nodes = map (rewriteGeneratedWorkflowNodeIds (canonical_id_map (flattenWorkflowNodes nodes) [] [])) nodes"

definition canonicalizeWorkflowNodeIds :: "config_workflow \<Rightarrow> config_workflow" where
  "canonicalizeWorkflowNodeIds w = on_nodes canonical_nodes w"

definition canonicalizeGeneratedScheduleIds :: "schedule_artifact \<Rightarrow> schedule_artifact" where
  "canonicalizeGeneratedScheduleIds artifact = on_workflows canonicalizeWorkflowNodeIds artifact"

subsection \<open>Names of the scheduled workflows\<close>

definition scheduleWorkflowId :: "string \<Rightarrow> string \<Rightarrow> string" where
  "scheduleWorkflowId scheduleId workflowId = ''schedule-'' @ scheduleId @ ''-'' @ workflowId"

definition namespaceScheduleWorkflows :: "schedule_artifact \<Rightarrow> schedule_failure + (string \<times> config_workflow) list \<times> string" where
  "namespaceScheduleWorkflows artifact =
     (let mappedIds = map (\<lambda>(i, w). (i, scheduleWorkflowId (sa_schedule_id artifact) i)) (object_entries (sa_workflows artifact));
          scheduledWorkflows = map (\<lambda>(i, w). (or_else (map_of mappedIds i) i, w)) (object_entries (sa_workflows artifact))
      in case truthy (map_of mappedIds (sa_root_workflow artifact)) of
           None \<Rightarrow> Inl (ScheduleArtifactError
             (''schedule root workflow '' @ quoted (sa_root_workflow artifact) @ '' is not declared''))
         | Some workflowId \<Rightarrow> Inr (scheduledWorkflows, workflowId))"


subsection \<open>Reachability over nodes\<close>

definition node_edges :: "config_node list \<Rightarrow> (string \<times> string) set" where
  "node_edges nodes = {(d, wn_id node) | d node. node \<in> set nodes \<and> d \<in> set (wn_needs_list node)}"

lemma needs_of_view [simp]: "needs_of (graph_view node) = wn_needs_list node"
  by (simp add: needs_of_def wn_needs_list_def)

lemma node_edges_view: "need_edges (map graph_view nodes) = node_edges nodes"
proof -
  have "need_edges ns = (\<Union>n \<in> set ns. (\<lambda>d. (d, gn_id n)) ` set (needs_of n))" for ns :: "sched_node list"
    by (auto simp: need_edges_def)
  moreover have "node_edges nodes = (\<Union>n \<in> set nodes. (\<lambda>d. (d, wn_id n)) ` set (wn_needs_list n))"
    by (auto simp: node_edges_def)
  ultimately show ?thesis by simp
qed

lemma node_edges_append [simp]: "node_edges (xs @ ys) = node_edges xs \<union> node_edges ys"
  by (auto simp: node_edges_def)

lemma node_edges_single [simp]: "node_edges [node] = (\<lambda>d. (d, wn_id node)) ` set (wn_needs_list node)"
  by (auto simp: node_edges_def)

lemma node_edges_Cons: "node_edges (node # nodes) = (\<lambda>d. (d, wn_id node)) ` set (wn_needs_list node) \<union> node_edges nodes"
  by (auto simp: node_edges_def)

lemma node_edges_Nil [simp]: "node_edges [] = {}"
  by (simp add: node_edges_def)

lemma finite_node_edges [simp]: "finite (node_edges nodes)"
proof -
  have "node_edges nodes = (\<Union>node \<in> set nodes. (\<lambda>d. (d, wn_id node)) ` set (wn_needs_list node))"
    by (auto simp: node_edges_def)
  then show ?thesis by simp
qed

lemma reaches_node:
  assumes "distinct (map wn_id nodes)"
  shows "hasReachableDependent k (need_index nodes) (\<lambda>node. P (sn_node node)) \<longleftrightarrow>
    (\<exists>node \<in> set nodes. P node \<and> (k, wn_id node) \<in> (node_edges nodes)\<^sup>+)"
proof -
  have "distinct (map gn_id (map graph_view nodes))" using assms by (simp add: comp_def)
  from hasReachableDependent_iff [OF this, of k "\<lambda>node. P (sn_node node)"] show ?thesis
    by (simp add: need_index_def node_edges_view)
qed

lemma hasDownstreamCoverage_iff:
  assumes "distinct (map wn_id nodes)"
  shows "hasDownstreamCoverage config k (need_index nodes) \<longleftrightarrow>
    (\<exists>c \<in> set nodes. isCoverageNode config c = Inr True \<and> (k, wn_id c) \<in> (node_edges nodes)\<^sup>+)"
  unfolding hasDownstreamCoverage_def by (rule reaches_node [OF assms, of k "\<lambda>node. isCoverageNode config node = Inr True"])

lemma hasDrainMerge_iff:
  assumes "distinct (map wn_id nodes)"
  shows "hasDrainMerge k (need_index nodes) \<longleftrightarrow>
    (\<exists>m \<in> set nodes. is_builtin DRAIN_MERGE_BUILTIN m \<and> (k, wn_id m) \<in> (node_edges nodes)\<^sup>+)"
  unfolding hasDrainMerge_def by (rule reaches_node [OF assms, of k "is_builtin DRAIN_MERGE_BUILTIN"])

lemma filter_or_throw_Inr:
  "filter_or_throw p xs = Inr ys \<Longrightarrow> ys = filter (\<lambda>x. p x = Inr True) xs \<and> (\<forall>x \<in> set xs. \<exists>b. p x = Inr b)"
  by (induction xs arbitrary: ys) (auto split: sum.splits if_splits)

lemma map_or_throw_Inr:
  "map_or_throw f xs = Inr ys \<Longrightarrow> list_all2 (\<lambda>x y. f x = Inr y) xs ys"
  by (induction xs arbitrary: ys) (auto split: sum.splits)

subsection \<open>Coverage is complete\<close>

lemma preferred_profile_in: "preferred_profile preferred matching = Some i \<Longrightarrow> i \<in> set matching"
proof (cases "find (\<lambda>i. i \<in> set matching) preferred")
  case None
  then show "preferred_profile preferred matching = Some i \<Longrightarrow> i \<in> set matching"
    using js_nth_in_set [of "sort matching" 0 i] by (simp add: preferred_profile_def)
qed (auto simp: preferred_profile_def find_Some_iff)

lemma profile_with_role:
  assumes "i \<in> set (profiles_with_role config role)" "distinct (map fst (fc_profiles config))"
  shows "\<exists>p. map_of (fc_profiles config) i = Some p \<and> has_role role p"
  using assms by (auto simp: profiles_with_role_def)

lemma coverage_node_covers:
  assumes "generatedCoverageProfileId config = Some profile" "distinct (map fst (fc_profiles config))"
  shows "isCoverageNode config (coverage_node i needs profile) = Inr True"
proof -
  have "profile \<in> set (profiles_with_role config CoverageRole)"
    using assms(1) preferred_profile_in by (auto simp: generatedCoverageProfileId_def Let_def split: if_splits)
  from profile_with_role [OF this assms(2)] show ?thesis
    by (auto simp: isCoverageNode_def agentHasSchedulingRole_def coverage_node_def)
qed

lemma coverage_added:
  assumes "addNodeScopeImplementationCoverage config nodes profile = Inr nodes'" "distinct (map wn_id nodes)"
  obtains (Covered) "nodes' = nodes"
      "\<And>node. node \<in> set nodes \<Longrightarrow> nodeNeedsImplementationCoverage config node = Inr True \<Longrightarrow>
        hasDownstreamCoverage config (wn_id node) (need_index nodes)"
  | (Added) i uncovered where "nodes' = nodes @ [coverage_node i (map wn_id uncovered) profile]" "i \<notin> wn_id ` set nodes"
      "uncovered = filter (\<lambda>node. nodeNeedsImplementationCoverage config node = Inr True \<and>
        \<not> hasDownstreamCoverage config (wn_id node) (need_index nodes)) nodes" "ID_RE i"
proof -
  obtain needing where f: "filter_or_throw (nodeNeedsImplementationCoverage config) nodes = Inr needing"
    using assms(1) by (auto simp: addNodeScopeImplementationCoverage_def Let_def split: sum.splits)
  note needing = filter_or_throw_Inr [OF f, THEN conjunct1]
  define uncovered where "uncovered = filter (\<lambda>node. nodeNeedsImplementationCoverage config node = Inr True \<and>
        \<not> hasDownstreamCoverage config (wn_id node) (need_index nodes)) nodes"
  have un: "filter (\<lambda>node. \<not> hasDownstreamCoverage config (wn_id node) (need_index nodes)) needing = uncovered"
    by (simp add: needing uncovered_def conj_commute)
  obtain i used where u: "uniqueGeneratedId ''generated-coverage'' (js_set (map wn_id nodes)) ''generated-coverage'' = (i, used)"
    by fastforce
  have res: "nodes' = (if uncovered = [] then nodes else nodes @ [coverage_node i (map wn_id uncovered) profile])"
    using assms(1) by (simp add: addNodeScopeImplementationCoverage_def Let_def f un u split: if_splits)
  show thesis
  proof (cases "uncovered = []")
    case True
    then show thesis using res by (intro Covered) (auto simp: uncovered_def filter_empty_conv)
  next
    case False
    have "ID_RE ''generated-coverage''" by code_simp
    then show thesis using False res uniqueGeneratedId_fresh(1) [OF u] uniqueGeneratedId_ID_RE [OF _ u]
      by (intro Added [of i uncovered]) (simp_all add: uncovered_def)
  qed
qed

lemma coverage_complete:
  assumes "addNodeScopeImplementationCoverage config nodes profile = Inr nodes'" "distinct (map wn_id nodes)"
    and "generatedCoverageProfileId config = Some profile" "distinct (map fst (fc_profiles config))"
  shows "take (length nodes) nodes' = nodes \<and> length nodes' \<le> Suc (length nodes) \<and> distinct (map wn_id nodes') \<and>
    (\<forall>node \<in> set nodes. nodeNeedsImplementationCoverage config node = Inr True \<longrightarrow>
      (\<exists>c \<in> set nodes'. isCoverageNode config c = Inr True \<and> (wn_id node, wn_id c) \<in> (node_edges nodes')\<^sup>+))"
  using assms(1,2)
proof (cases rule: coverage_added)
  case Covered
  then show ?thesis using assms(2) by (simp add: hasDownstreamCoverage_iff [OF assms(2)])
next
  case (Added i uncovered)
  let ?c = "coverage_node i (map wn_id uncovered) profile"
  have c: "wn_id ?c = i" "wn_needs_list ?c = map wn_id uncovered" by (simp_all add: coverage_node_def wn_needs_list_def)
  have "\<exists>k \<in> set nodes'. isCoverageNode config k = Inr True \<and> (wn_id node, wn_id k) \<in> (node_edges nodes')\<^sup>+"
    if node: "node \<in> set nodes" "nodeNeedsImplementationCoverage config node = Inr True" for node
  proof (cases "hasDownstreamCoverage config (wn_id node) (need_index nodes)")
    case True
    then obtain k where "k \<in> set nodes" "isCoverageNode config k = Inr True" "(wn_id node, wn_id k) \<in> (node_edges nodes)\<^sup>+"
      using hasDownstreamCoverage_iff [OF assms(2)] by blast
    moreover have "(node_edges nodes)\<^sup>+ \<subseteq> (node_edges nodes')\<^sup>+"
      by (rule trancl_mono_subset) (simp add: Added(1))
    ultimately show ?thesis using Added(1) by auto
  next
    case False
    then have "wn_id node \<in> set (map wn_id uncovered)" using node Added(3) by auto
    then have "(wn_id node, wn_id ?c) \<in> (node_edges nodes')\<^sup>+"
      unfolding Added(1) by (intro r_into_trancl') (simp only: node_edges_append node_edges_single c, blast)
    moreover have "?c \<in> set nodes'" using Added(1) by simp
    ultimately show ?thesis using coverage_node_covers [OF assms(3,4)] by blast
  qed
  then show ?thesis using Added(1,2) assms(2) by (simp add: c)
qed


subsection \<open>Integration joins parallel writers\<close>

definition joined :: "string \<Rightarrow> string \<Rightarrow> (string \<times> string) set \<Rightarrow> (string \<times> string) set" where
  "joined p m E = {(a, b). a = p \<and> b = m \<or> a = m \<and> (p, b) \<in> E \<or> a \<noteq> p \<and> (a, b) \<in> E}"

lemma joined_iff: "(a, b) \<in> joined p m E \<longleftrightarrow> a = p \<and> b = m \<or> a = m \<and> (p, b) \<in> E \<or> a \<noteq> p \<and> (a, b) \<in> E"
  by (simp add: joined_def)

lemma node_edges_iff: "(d, i) \<in> node_edges nodes \<longleftrightarrow> (\<exists>node \<in> set nodes. wn_id node = i \<and> d \<in> set (wn_needs_list node))"
  by (auto simp: node_edges_def)

lemma rerouteNeed_simps [simp]:
  "wn_id (rerouteNeed node p m) = wn_id node" "wn_body (rerouteNeed node p m) = wn_body node"
  by (simp_all add: rerouteNeed_def split: option.splits)

lemma rerouteNeed_needs:
  "d \<in> set (wn_needs_list (rerouteNeed node p m)) \<longleftrightarrow>
     d = m \<and> p \<in> set (wn_needs_list node) \<or> d \<noteq> p \<and> d \<in> set (wn_needs_list node)"
proof (cases "wn_needs node")
  case (Some needs)
  have "d \<in> (\<lambda>need. if need = p then m else need) ` set needs \<longleftrightarrow> d = m \<and> p \<in> set needs \<or> d \<noteq> p \<and> d \<in> set needs"
    by (auto simp: image_iff)
  then show ?thesis using Some by (auto simp: rerouteNeed_def wn_needs_list_def)
qed (simp add: rerouteNeed_def wn_needs_list_def)

lemma rerouted_edges:
  "(d, i) \<in> node_edges (map (\<lambda>node. rerouteNeed node p m) nodes) \<longleftrightarrow>
     d = m \<and> (p, i) \<in> node_edges nodes \<or> d \<noteq> p \<and> (d, i) \<in> node_edges nodes"
  unfolding node_edges_iff by (auto simp: rerouteNeed_needs)

lemma insertDrainMerge_facts:
  assumes "insertDrainMerge nodes p used = (nodes', used')" "distinct (map wn_id nodes)" "set used = wn_id ` set nodes"
  obtains m where "m \<notin> wn_id ` set nodes" "set used' = wn_id ` set nodes'" "distinct (map wn_id nodes')"
    "map (\<lambda>node. (wn_id node, wn_body node)) nodes' =
       map (\<lambda>node. (wn_id node, wn_body node)) nodes @ [(m, BuiltinBody DRAIN_MERGE_BUILTIN)]"
    "node_edges nodes' = joined p m (node_edges nodes)"
proof -
  obtain m used1 where u: "uniqueGeneratedId (''generated-drain-merge-'' @ p) used ''generated-drain-merge'' = (m, used1)"
    by fastforce
  define merge where "merge = plain_config_node m (BuiltinBody DRAIN_MERGE_BUILTIN) (Some [p]) None"
  have res: "nodes' = map (\<lambda>node. rerouteNeed node p m) nodes @ [merge]" "used' = used1"
    using assms(1) by (simp_all add: insertDrainMerge_def u merge_def del: append.simps)
  have merge: "wn_id merge = m" "wn_body merge = BuiltinBody DRAIN_MERGE_BUILTIN" "wn_needs_list merge = [p]"
    by (simp_all add: merge_def wn_needs_list_def)
  have fresh: "m \<notin> wn_id ` set nodes" using uniqueGeneratedId_fresh(1) [OF u] assms(3) by simp
  show thesis
  proof (rule that [of m])
    show "set used' = wn_id ` set nodes'"
      using uniqueGeneratedId_fresh(2) [OF u] assms(3) by (auto simp: res merge image_iff)
    show "node_edges nodes' = joined p m (node_edges nodes)"
      by (rule set_eqI) (auto simp: res merge joined_iff rerouted_edges)
  qed (use fresh assms(2) in \<open>simp_all add: res merge comp_def\<close>)
qed

lemma joined_mono: "E\<^sup>+ \<subseteq> (joined p m E)\<^sup>+"
proof -
  have "E \<subseteq> (joined p m E)\<^sup>+"
  proof (rule subrelI)
    fix a b assume e: "(a, b) \<in> E"
    show "(a, b) \<in> (joined p m E)\<^sup>+"
    proof (cases "a = p")
      case True
      then have "(p, m) \<in> joined p m E" "(m, b) \<in> joined p m E" using e by (simp_all add: joined_iff)
      then show ?thesis using True by (meson r_into_trancl' trancl_into_trancl)
    next
      case False
      then show ?thesis using e by (intro r_into_trancl') (simp add: joined_iff)
    qed
  qed
  then show ?thesis by (metis trancl_mono_subset trancl_id trans_trancl)
qed

lemma joined_path:
  assumes "(a, b) \<in> (joined p m E)\<^sup>+" "m \<notin> Field E" "p \<noteq> m"
  shows "(if a = m then p else a, if b = m then p else b) \<in> E\<^sup>+ \<or> a = p \<and> b = m"
  using assms(1)
proof (induction rule: trancl_induct)
  case (base y)
  then show ?case using assms(2,3) by (auto simp: joined_iff Field_def intro: r_into_trancl')
next
  case (step y z)
  consider "y = p" "z = m" | "y = m" "(p, z) \<in> E" | "y \<noteq> p" "(y, z) \<in> E"
    using step(2) by (auto simp: joined_iff)
  then show ?case
  proof cases
    case 1
    then show ?thesis using step(3) assms(3) by auto
  next
    case 2
    then have "z \<noteq> m" using assms(2) by (auto simp: Field_def)
    then show ?thesis using step(3) 2 assms(3) by (auto intro: trancl_into_trancl r_into_trancl')
  next
    case 3
    then have "z \<noteq> m" "y \<noteq> m" using assms(2) by (auto simp: Field_def)
    then show ?thesis using step(3) 3 by (auto intro: trancl_into_trancl)
  qed
qed

lemma joined_acyclic: "acyclic E \<Longrightarrow> m \<notin> Field E \<Longrightarrow> p \<noteq> m \<Longrightarrow> acyclic (joined p m E)"
  using joined_path [of _ _ p m E] unfolding acyclic_def by fastforce

lemma joined_Field: "Field (joined p m E) \<subseteq> insert m (insert p (Field E))"
  by (auto simp: Field_def joined_iff)

lemma same_ids:
  "map (\<lambda>node. (wn_id node, wn_body node)) xs = map (\<lambda>node. (wn_id node, wn_body node)) ys @ zs \<Longrightarrow>
   wn_id ` set xs = wn_id ` set ys \<union> fst ` set zs"
  by (metis (no_types, lifting) fst_conv image_Un image_cong image_image set_append set_map)

text \<open>\<open>joins p nodes nodes'\<close>: the dependents of \<open>p\<close> wait for a drain-merge that is the only dependent of \<open>p\<close>.\<close>

definition joins :: "string \<Rightarrow> config_node list \<Rightarrow> config_node list \<Rightarrow> bool" where
  "joins p nodes nodes' \<longleftrightarrow> (\<exists>m \<in> set nodes'. is_builtin DRAIN_MERGE_BUILTIN m \<and> wn_id m \<notin> wn_id ` set nodes \<and>
     (\<forall>b. (p, b) \<in> node_edges nodes' \<longleftrightarrow> b = wn_id m) \<and>
     (\<forall>b. (p, b) \<in> node_edges nodes \<longrightarrow> (wn_id m, b) \<in> node_edges nodes'))"

definition same_but_merges :: "config_node list \<Rightarrow> config_node list \<Rightarrow> bool" where
  "same_but_merges nodes nodes' \<longleftrightarrow> (\<exists>merges. map (\<lambda>node. (wn_id node, wn_body node)) nodes' =
     map (\<lambda>node. (wn_id node, wn_body node)) nodes @ map (\<lambda>m. (m, BuiltinBody DRAIN_MERGE_BUILTIN)) merges)"

lemma same_but_merges_ids: "same_but_merges nodes nodes' \<Longrightarrow> wn_id ` set nodes \<subseteq> wn_id ` set nodes'"
  unfolding same_but_merges_def using same_ids by blast

lemma same_but_merges_trans:
  assumes "same_but_merges xs ys" "same_but_merges ys zs"
  shows "same_but_merges xs zs"
proof -
  obtain ms ns where "map (\<lambda>node. (wn_id node, wn_body node)) ys =
      map (\<lambda>node. (wn_id node, wn_body node)) xs @ map (\<lambda>m. (m, BuiltinBody DRAIN_MERGE_BUILTIN)) ms"
    "map (\<lambda>node. (wn_id node, wn_body node)) zs =
      map (\<lambda>node. (wn_id node, wn_body node)) ys @ map (\<lambda>m. (m, BuiltinBody DRAIN_MERGE_BUILTIN)) ns"
    using assms unfolding same_but_merges_def by blast
  then show ?thesis unfolding same_but_merges_def by (intro exI [of _ "ms @ ns"]) simp
qed

lemma same_but_merges_member:
  assumes "same_but_merges nodes nodes'" "node \<in> set nodes"
  shows "\<exists>node' \<in> set nodes'. wn_id node' = wn_id node \<and> wn_body node' = wn_body node"
proof -
  obtain merges where eq: "map (\<lambda>node. (wn_id node, wn_body node)) nodes' =
      map (\<lambda>node. (wn_id node, wn_body node)) nodes @ map (\<lambda>m. (m, BuiltinBody DRAIN_MERGE_BUILTIN)) merges"
    using assms(1) unfolding same_but_merges_def by blast
  have "(wn_id node, wn_body node) \<in> set (map (\<lambda>node. (wn_id node, wn_body node)) nodes')"
    unfolding eq using assms(2) by simp
  then show ?thesis by auto
qed

text \<open>What the insertions keep: the nodes but for their needs, every path, and acyclicity; each parallel gets its join.\<close>

lemma insert_all_merges_facts:
  assumes "distinct (map wn_id current)" "set used = wn_id ` set current"
    and "distinct (map wn_id parallels)" "wn_id ` set parallels \<subseteq> wn_id ` set current"
  defines "result \<equiv> insert_all_merges parallels current used"
  shows "distinct (map wn_id result) \<and> same_but_merges current result \<and> (node_edges current)\<^sup>+ \<subseteq> (node_edges result)\<^sup>+ \<and>
    (Field (node_edges current) \<subseteq> wn_id ` set current \<longrightarrow> acyclic (node_edges current) \<longrightarrow> acyclic (node_edges result)) \<and>
    (\<forall>a \<in> wn_id ` set current - wn_id ` set parallels. \<forall>b. (a, b) \<in> node_edges result \<longleftrightarrow> (a, b) \<in> node_edges current) \<and>
    (\<forall>p \<in> wn_id ` set parallels. joins p current result)"
  using assms(1-4) unfolding result_def
proof (induction parallels current used rule: insert_all_merges.induct)
  case (2 parallel parallels current used)
  let ?p = "wn_id parallel"
  obtain current1 used1 where i: "insertDrainMerge current ?p used = (current1, used1)" by fastforce
  obtain m where m: "m \<notin> wn_id ` set current" "set used1 = wn_id ` set current1" "distinct (map wn_id current1)"
    "map (\<lambda>node. (wn_id node, wn_body node)) current1 =
       map (\<lambda>node. (wn_id node, wn_body node)) current @ [(m, BuiltinBody DRAIN_MERGE_BUILTIN)]"
    "node_edges current1 = joined ?p m (node_edges current)"
    using insertDrainMerge_facts [OF i 2(2,3)] .
  have ids: "wn_id ` set current1 = insert m (wn_id ` set current)" using same_ids [OF m(4)] by simp
  have p: "?p \<in> wn_id ` set current" "?p \<notin> wn_id ` set parallels" "wn_id ` set parallels \<subseteq> wn_id ` set current"
    using 2(4,5) by auto
  then have pm: "?p \<noteq> m" using m(1) by auto
  define result where "result = insert_all_merges parallels current1 used1"
  have "distinct (map wn_id parallels)" "wn_id ` set parallels \<subseteq> wn_id ` set current1" using 2(4) p(3) ids by auto
  note IH = 2(1) [OF i [symmetric] m(3,2) this, folded result_def]
  note IH_distinct = IH [THEN conjunct1] and IH_same = IH [THEN conjunct2, THEN conjunct1]
    and IH_paths = IH [THEN conjunct2, THEN conjunct2, THEN conjunct1]
    and IH_acyclic = IH [THEN conjunct2, THEN conjunct2, THEN conjunct2, THEN conjunct1]
    and IH_kept = IH [THEN conjunct2, THEN conjunct2, THEN conjunct2, THEN conjunct2, THEN conjunct1]
    and IH_joins = IH [THEN conjunct2, THEN conjunct2, THEN conjunct2, THEN conjunct2, THEN conjunct2]
  have same1: "same_but_merges current current1" unfolding same_but_merges_def using m(4) by (intro exI [of _ "[m]"]) simp
  have edges1: "(a, b) \<in> node_edges current1 \<longleftrightarrow> a = ?p \<and> b = m \<or> a = m \<and> (?p, b) \<in> node_edges current \<or> a \<noteq> ?p \<and> (a, b) \<in> node_edges current"
    for a b by (simp add: m(5) joined_iff)
  have kept: "(a, b) \<in> node_edges result \<longleftrightarrow> (a, b) \<in> node_edges current1" if "a \<in> insert m (wn_id ` set current)" "a \<notin> wn_id ` set parallels" for a b
    using that by (intro IH_kept [unfolded ids, THEN bspec, THEN spec] DiffI)
  have res: "insert_all_merges (parallel # parallels) current used = result" by (simp add: i result_def)
  have acyclic1: "Field (node_edges current1) \<subseteq> wn_id ` set current1 \<and> acyclic (node_edges current1)"
    if "Field (node_edges current) \<subseteq> wn_id ` set current" "acyclic (node_edges current)"
  proof -
    have "m \<notin> Field (node_edges current)" using that(1) m(1) by blast
    then have "acyclic (node_edges current1)" unfolding m(5) by (rule joined_acyclic [OF that(2) _ pm])
    moreover have "Field (node_edges current1) \<subseteq> insert m (wn_id ` set current)" unfolding m(5)
      by (rule order_trans [OF joined_Field]) (intro insert_mono insert_subsetI p(1) that(1))
    ultimately show ?thesis unfolding ids by blast
  qed
  show ?case unfolding res
  proof (intro conjI ballI allI impI)
    show "distinct (map wn_id result)" "same_but_merges current result"
      by (rule IH_distinct, rule same_but_merges_trans [OF same1 IH_same])
    show "(node_edges current)\<^sup>+ \<subseteq> (node_edges result)\<^sup>+"
      using IH_paths joined_mono [of "node_edges current" ?p m] m(5) by simp
    show "acyclic (node_edges result)"
      if "Field (node_edges current) \<subseteq> wn_id ` set current" "acyclic (node_edges current)"
      using IH_acyclic acyclic1 [OF that] by blast
    show "((a, b) \<in> node_edges result) = ((a, b) \<in> node_edges current)"
      if "a \<in> wn_id ` set current - wn_id ` set (parallel # parallels)" for a b
      using kept [of a b] edges1 [of a b] that m(1) by auto
    show "joins q current result" if "q \<in> wn_id ` set (parallel # parallels)" for q
    proof (cases "q = ?p")
      case True
      obtain node where node: "node \<in> set current1" "wn_id node = m" "is_builtin DRAIN_MERGE_BUILTIN node"
      proof -
        have "(m, BuiltinBody DRAIN_MERGE_BUILTIN) \<in> set (map (\<lambda>node. (wn_id node, wn_body node)) current1)"
          unfolding m(4) by simp
        then show thesis using that by (auto simp: is_builtin_def)
      qed
      obtain node' where "node' \<in> set result" "wn_id node' = m" "wn_body node' = wn_body node"
        using same_but_merges_member [OF IH_same node(1)] node(2) by metis
      moreover have "m \<notin> wn_id ` set parallels" using m(1) p(3) by blast
      ultimately show ?thesis
        using node(3) m(1) kept [of ?p] kept [of m] edges1 p(1,2) pm unfolding True joins_def
        by (intro bexI [of _ node']) (auto simp: is_builtin_def)
    next
      case False
      then have q: "q \<in> wn_id ` set parallels" using that by auto
      then obtain k where k: "k \<in> set result" "is_builtin DRAIN_MERGE_BUILTIN k" "wn_id k \<notin> wn_id ` set current1"
        "\<forall>b. (q, b) \<in> node_edges result \<longleftrightarrow> b = wn_id k" "\<forall>b. (q, b) \<in> node_edges current1 \<longrightarrow> (wn_id k, b) \<in> node_edges result"
        using IH_joins [THEN bspec, OF q] unfolding joins_def by blast
      then show ?thesis using edges1 [of q] False ids unfolding joins_def by (intro bexI [of _ k]) auto
    qed
  qed
qed (auto simp: same_but_merges_def)


lemma fanout_body: "wn_body a = wn_body b \<Longrightarrow> isUnintegratedWriteFanout config a = isUnintegratedWriteFanout config b"
  by (simp add: isUnintegratedWriteFanout_def)

lemma same_but_merges_back:
  assumes "same_but_merges nodes nodes'" "node' \<in> set nodes'" "wn_body node' \<noteq> BuiltinBody DRAIN_MERGE_BUILTIN"
  shows "\<exists>node \<in> set nodes. wn_id node = wn_id node' \<and> wn_body node = wn_body node'"
proof -
  obtain merges where eq: "map (\<lambda>node. (wn_id node, wn_body node)) nodes' =
      map (\<lambda>node. (wn_id node, wn_body node)) nodes @ map (\<lambda>m. (m, BuiltinBody DRAIN_MERGE_BUILTIN)) merges"
    using assms(1) unfolding same_but_merges_def by blast
  have "(wn_id node', wn_body node') \<in> set (map (\<lambda>node. (wn_id node, wn_body node)) nodes')" using assms(2) by simp
  then show ?thesis unfolding eq using assms(3) by auto
qed

lemma integrateNodeList_facts:
  fixes config
  assumes "distinct (map wn_id nodes)"
  defines "nodes' \<equiv> integrateNodeList config nodes"
  shows "distinct (map wn_id nodes') \<and> same_but_merges nodes nodes' \<and> (node_edges nodes)\<^sup>+ \<subseteq> (node_edges nodes')\<^sup>+ \<and>
    (Field (node_edges nodes) \<subseteq> wn_id ` set nodes \<longrightarrow> acyclic (node_edges nodes) \<longrightarrow> acyclic (node_edges nodes')) \<and>
    (\<forall>node \<in> set nodes. isUnintegratedWriteFanout config node \<longrightarrow> \<not> hasDrainMerge (wn_id node) (need_index nodes) \<longrightarrow>
       joins (wn_id node) nodes nodes')"
proof -
  define unintegrated where
    "unintegrated = filter (\<lambda>node. isUnintegratedWriteFanout config node \<and> \<not> hasDrainMerge (wn_id node) (need_index nodes)) nodes"
  have eq: "nodes' = (if unintegrated = [] then nodes else insert_all_merges unintegrated nodes (js_set (map wn_id nodes)))"
    by (simp add: nodes'_def integrateNodeList_def Let_def unintegrated_def)
  show ?thesis
  proof (cases "unintegrated = []")
    case True
    then show ?thesis using assms(1) unfolding eq unintegrated_def
      by (auto simp: same_but_merges_def filter_empty_conv intro: exI [of _ "[]"])
  next
    case False
    have "distinct (map wn_id unintegrated)" "wn_id ` set unintegrated \<subseteq> wn_id ` set nodes"
      using assms(1) by (auto simp: unintegrated_def distinct_map_filter)
    from insert_all_merges_facts [OF assms(1) _ this, of "js_set (map wn_id nodes)"]
    show ?thesis using False unfolding eq by (auto simp: unintegrated_def)
  qed
qed

lemma integration_complete:
  assumes "distinct (map wn_id nodes)" "node' \<in> set (integrateNodeList config nodes)" "isUnintegratedWriteFanout config node'"
  shows "hasDrainMerge (wn_id node') (need_index (integrateNodeList config nodes))"
proof -
  let ?nodes' = "integrateNodeList config nodes"
  note facts = integrateNodeList_facts [OF assms(1), of config]
  note dist = facts [THEN conjunct1] and same = facts [THEN conjunct2, THEN conjunct1]
    and paths = facts [THEN conjunct2, THEN conjunct2, THEN conjunct1]
  have "wn_body node' \<noteq> BuiltinBody DRAIN_MERGE_BUILTIN"
    using assms(3) by (auto simp: isUnintegratedWriteFanout_def)
  from same_but_merges_back [OF same assms(2) this]
  obtain node where node: "node \<in> set nodes" "wn_id node = wn_id node'" "wn_body node = wn_body node'" by blast
  have fanout: "isUnintegratedWriteFanout config node" using fanout_body [OF node(3)] assms(3) by simp
  show ?thesis
  proof (cases "hasDrainMerge (wn_id node) (need_index nodes)")
    case True
    then obtain m where m: "m \<in> set nodes" "is_builtin DRAIN_MERGE_BUILTIN m" "(wn_id node, wn_id m) \<in> (node_edges nodes)\<^sup>+"
      using hasDrainMerge_iff [OF assms(1)] by blast
    obtain m' where "m' \<in> set ?nodes'" "wn_id m' = wn_id m" "wn_body m' = wn_body m"
      using same_but_merges_member [OF same m(1)] by blast
    then show ?thesis unfolding hasDrainMerge_iff [OF dist]
      using m(2) subsetD [OF paths m(3)] node(2) by (intro bexI [of _ m']) (simp_all add: is_builtin_def)
  next
    case False
    then have "joins (wn_id node) nodes ?nodes'"
      using facts [THEN conjunct2, THEN conjunct2, THEN conjunct2, THEN conjunct2] fanout node(1) by simp
    then obtain m where "m \<in> set ?nodes'" "is_builtin DRAIN_MERGE_BUILTIN m" "(wn_id node, wn_id m) \<in> node_edges ?nodes'"
      unfolding joins_def by blast
    then show ?thesis unfolding hasDrainMerge_iff [OF dist] using node(2) by (intro bexI [of _ m]) (simp_all add: r_into_trancl')
  qed
qed

subsection \<open>Delivery comes last\<close>

lemma terminalNodeIds_set: "set (terminalNodeIds nodes) = {i \<in> wn_id ` set nodes. \<forall>b. (i, b) \<notin> node_edges nodes}"
proof -
  have "dependents_at (need_index nodes) i = [] \<longleftrightarrow> {v \<in> set (map graph_view nodes). i \<in> set (needs_of v)} = {}" for i
    unfolding need_index_def set_empty [symmetric] set_dependentsByNeed_at ..
  then have "dependents_at (need_index nodes) i = [] \<longleftrightarrow> (\<forall>node \<in> set nodes. i \<notin> set (wn_needs_list node))" for i
    by (simp add: image_iff) (metis needs_of_view)
  then have "or_else (map_of (need_index nodes) i) [] = [] \<longleftrightarrow> (\<forall>b. (i, b) \<notin> node_edges nodes)" for i
    by (auto simp: dependents_at_def node_edges_iff)
  then show ?thesis by (auto simp: terminalNodeIds_def Let_def)
qed

lemma reaches_terminal:
  assumes "acyclic (node_edges nodes)" "Field (node_edges nodes) \<subseteq> wn_id ` set nodes" "i \<in> wn_id ` set nodes"
  shows "\<exists>t \<in> set (terminalNodeIds nodes). (i, t) \<in> (node_edges nodes)\<^sup>*"
proof -
  have "wf ((node_edges nodes)\<inverse>)" using assms(1) by (rule finite_acyclic_wf_converse [OF finite_node_edges])
  then show ?thesis using assms(3)
  proof (induction i rule: wf_induct_rule)
    case (less i)
    show ?case
    proof (cases "\<exists>b. (i, b) \<in> node_edges nodes")
      case True
      then obtain b where b: "(i, b) \<in> node_edges nodes" by blast
      then have "b \<in> wn_id ` set nodes" using assms(2) by (auto simp: Field_def)
      with less(1) [of b] b obtain t where "t \<in> set (terminalNodeIds nodes)" "(b, t) \<in> (node_edges nodes)\<^sup>*" by auto
      then show ?thesis using b by (meson converse_rtrancl_into_rtrancl)
    next
      case False
      then show ?thesis using less(2) by (auto simp: terminalNodeIds_set)
    qed
  qed
qed

lemma delivery_last:
  assumes "acyclic (node_edges nodes)" "Field (node_edges nodes) \<subseteq> wn_id ` set nodes" "i \<in> wn_id ` set nodes"
  defines "pr \<equiv> buildPrNode (terminalNodeIds nodes) (js_set (map wn_id nodes))"
  shows "(i, wn_id pr) \<in> (node_edges (nodes @ [pr]))\<^sup>+"
proof -
  obtain t where t: "t \<in> set (terminalNodeIds nodes)" "(i, t) \<in> (node_edges nodes)\<^sup>*"
    using reaches_terminal [OF assms(1-3)] by blast
  have "(t, wn_id pr) \<in> node_edges (nodes @ [pr])"
    using t(1) by (simp add: pr_def buildPrNode_def wn_needs_list_def)
  moreover have "(i, t) \<in> (node_edges (nodes @ [pr]))\<^sup>*" using t(2) by (rule rtrancl_mono [THEN subsetD, rotated]) simp
  ultimately show ?thesis by (rule rtrancl_into_trancl1 [rotated])
qed


subsection \<open>Canonical ids are a renaming\<close>

fun flat_nodes :: "config_node list \<Rightarrow> config_node list" where
  "flat_nodes [] = []"
| "flat_nodes (WorkflowNode i body needs art gts models effort retries task_cx timeout # rest) =
     WorkflowNode i body needs art gts models effort retries task_cx timeout #
     (case body of ParallelBody children \<Rightarrow> flat_nodes children | _ \<Rightarrow> []) @ flat_nodes rest"

lemma flattenWorkflowNodes_flat: "flattenWorkflowNodes nodes = flat_nodes nodes"
proof (induction nodes rule: flat_nodes.induct)
  case (2 i body needs art gts models effort retries task_cx timeout rest)
  then show ?case by (cases body) (auto simp: flattenWorkflowNodes_def)
qed (simp add: flattenWorkflowNodes_def)

lemma flat_nodes_renamed:
  "flat_nodes (map (rewriteGeneratedWorkflowNodeIds m) nodes) = map (rewriteGeneratedWorkflowNodeIds m) (flat_nodes nodes)"
proof (induction nodes rule: flat_nodes.induct)
  case (2 i body needs art gts models effort retries task_cx timeout rest)
  then show ?case by (cases body) auto
qed simp

lemma rewrite_simps [simp]:
  "wn_id (rewriteGeneratedWorkflowNodeIds m node) = renamed m (wn_id node)"
  "wn_needs (rewriteGeneratedWorkflowNodeIds m node) = map_option (map (renamed m)) (wn_needs node)"
  by (cases node, simp)+

lemma rewrite_needs_list [simp]:
  "wn_needs_list (rewriteGeneratedWorkflowNodeIds m node) = map (renamed m) (wn_needs_list node)"
  by (cases "wn_needs node") (simp_all add: wn_needs_list_def)

lemma canonical_id_map_facts:
  fixes nodes
  assumes "ran (map_of m) \<subseteq> set used" "inj_on (map_of m) (dom (map_of m))" "\<forall>i \<in> ran (map_of m). ID_RE i"
  defines "m' \<equiv> canonical_id_map nodes m used"
  shows "dom (map_of m') = dom (map_of m) \<union> wn_id ` set nodes \<and> inj_on (map_of m') (dom (map_of m')) \<and> (\<forall>i \<in> ran (map_of m'). ID_RE i)"
  using assms(1-3) unfolding m'_def
proof (induction nodes m used rule: canonical_id_map.induct)
  case (2 node nodes m used)
  obtain i used1 where u: "uniqueGeneratedId (wn_id node) used ''node'' = (i, used1)" by fastforce
  have "ID_RE ''node''" by code_simp
  then have i: "ID_RE i" "i \<notin> set used" "set used1 = insert i (set used)"
    using uniqueGeneratedId_ID_RE [OF _ u] uniqueGeneratedId_fresh [OF u] by auto
  let ?m1 = "AList.update (wn_id node) i m"
  have fresh: "i \<notin> ran (map_of m)" using i(2) 2(2) by blast
  have m1: "map_of ?m1 = (map_of m)(wn_id node \<mapsto> i)" by (simp add: AList.update_conv' fun_eq_iff)
  have r1: "ran (map_of ?m1) \<subseteq> set used1" using 2(2) i(3) unfolding m1 by (auto simp: ran_def)
  have r2: "inj_on (map_of ?m1) (dom (map_of ?m1))"
    using 2(3) fresh unfolding m1 by (auto simp: inj_on_def ran_def)
  have r3: "\<forall>j \<in> ran (map_of ?m1). ID_RE j" using 2(4) i(1) unfolding m1 by (auto simp: ran_def)
  have doms: "dom (map_of ?m1) \<union> wn_id ` set nodes = dom (map_of m) \<union> wn_id ` set (node # nodes)"
    unfolding m1 by auto
  show ?case unfolding canonical_id_map.simps u prod.case doms [symmetric] by (rule 2(1) [OF u [symmetric] r1 r2 r3])
qed auto

lemma canonical_renaming:
  fixes nodes
  defines "\<rho> \<equiv> renamed (canonical_id_map (flattenWorkflowNodes nodes) [] [])"
  shows "inj_on \<rho> (wn_id ` set (flattenWorkflowNodes nodes)) \<and>
    list_all ID_RE (map wn_id (flattenWorkflowNodes (canonical_nodes nodes))) \<and>
    map wn_id (flattenWorkflowNodes (canonical_nodes nodes)) = map \<rho> (map wn_id (flattenWorkflowNodes nodes)) \<and>
    map wn_id (canonical_nodes nodes) = map \<rho> (map wn_id nodes) \<and>
    map wn_needs_list (flattenWorkflowNodes (canonical_nodes nodes)) = map (map \<rho>) (map wn_needs_list (flattenWorkflowNodes nodes))"
proof -
  define m where "m = canonical_id_map (flattenWorkflowNodes nodes) [] []"
  have m: "dom (map_of m) = wn_id ` set (flattenWorkflowNodes nodes)" "inj_on (map_of m) (dom (map_of m))"
    "\<forall>i \<in> ran (map_of m). ID_RE i"
  proof -
    have facts: "dom (map_of m) = dom (map_of ([] :: (string \<times> string) list)) \<union> wn_id ` set (flattenWorkflowNodes nodes) \<and>
        inj_on (map_of m) (dom (map_of m)) \<and> (\<forall>i \<in> ran (map_of m). ID_RE i)"
      unfolding m_def by (rule canonical_id_map_facts) simp_all
    show "dom (map_of m) = wn_id ` set (flattenWorkflowNodes nodes)" using facts [THEN conjunct1] by simp
    show "inj_on (map_of m) (dom (map_of m))" by (rule facts [THEN conjunct2, THEN conjunct1])
    show "\<forall>i \<in> ran (map_of m). ID_RE i" by (rule facts [THEN conjunct2, THEN conjunct2])
  qed
  have \<rho>: "map_of m i = Some (renamed m i)" if "i \<in> wn_id ` set (flattenWorkflowNodes nodes)" for i
    using that unfolding m(1) [symmetric] by (auto simp: renamed_def)
  have "inj_on (renamed m) (wn_id ` set (flattenWorkflowNodes nodes))"
    using m(2) \<rho> unfolding m(1) inj_on_def by simp
  moreover have "ID_RE (renamed m (wn_id node))" if "node \<in> set (flattenWorkflowNodes nodes)" for node
    using \<rho> [of "wn_id node"] m(3) that by (auto simp: ran_def)
  moreover have "canonical_nodes nodes = map (rewriteGeneratedWorkflowNodeIds m) nodes" by (simp add: canonical_nodes_def m_def)
  moreover have "\<rho> = renamed m" by (simp add: \<rho>_def m_def)
  ultimately show ?thesis
    by (simp add: flattenWorkflowNodes_flat flat_nodes_renamed comp_def list_all_iff)
qed

subsection \<open>Properties of the passes\<close>

text \<open>A profile that implements and one that reviews, and two writers in parallel before a publication.\<close>

definition role_profile :: "scheduling_role list \<Rightarrow> string \<Rightarrow> profile_config" where
  "role_profile roles mode = \<lparr>prf_filesystem_mode = Some mode, prf_instructions_inline = Some ''do'', prf_instructions_path = None,
     prf_mcp_servers = None, prf_network_mode = None, prf_output = None, prf_rules = None, prf_runner = ''r'',
     prf_scheduling_roles = Some roles, prf_skills = None, prf_tools = None\<rparr>"

definition plain_runner :: capabilities where
  "plain_runner = \<lparr>ca_filesystem = Some [''workspace-write'', ''read-only''], ca_mcp_servers = None, ca_network = None,
     ca_output_formats = Some [''text''], ca_rules = None, ca_skills = None, ca_tools = None\<rparr>"

definition role_config :: full_config where
  "role_config = (config_with [])\<lparr>fc_runners := [(''r'', plain_runner)],
     fc_profiles := [(''writer'', role_profile [ImplementationRole] ''workspace-write''),
       (''checker'', role_profile [CoverageRole] ''read-only'')]\<rparr>"

definition agent_node :: "string \<Rightarrow> string \<Rightarrow> string list \<Rightarrow> config_node" where
  "agent_node i profile needs = plain_config_node i (AgentBody profile None) (Some needs) None"

definition writers :: "config_node list" where
  "writers = [plain_config_node ''w'' (ParallelBody [agent_node ''x'' ''writer'' [], agent_node ''y'' ''writer'' []]) None None,
     plain_config_node ''z'' (CommandBody [''publish'']) (Some [''w'']) None]"

definition covered_writers :: "config_node list" where
  "covered_writers = writers @ [coverage_node ''generated-coverage'' [''w''] ''checker'']"

lemma writers_covered: "addNodeScopeImplementationCoverage role_config writers ''checker'' = Inr covered_writers"
proof -
  have "case addNodeScopeImplementationCoverage role_config writers ''checker'' of Inl e \<Rightarrow> False | Inr ns \<Rightarrow> ns = covered_writers"
    by code_simp
  then show ?thesis by (simp split: sum.splits)
qed

lemma writers_facts: "distinct (map wn_id writers)" "generatedCoverageProfileId role_config = Some ''checker''"
  "distinct (map fst (fc_profiles role_config))"
  by code_simp+

text \<open>
  C35: The coverage pass keeps the nodes of a workflow and adds at most one, with a new id, and after it every node
  that implements, or holds a node that implements, has a node with the coverage role downstream.
\<close>

theorem generated_coverage_complete:
  assumes "addNodeScopeImplementationCoverage config nodes profile = Inr nodes'" "distinct (map wn_id nodes)"
    and "generatedCoverageProfileId config = Some profile" "distinct (map fst (fc_profiles config))"
  shows "take (length nodes) nodes' = nodes \<and> length nodes' \<le> Suc (length nodes) \<and> distinct (map wn_id nodes') \<and>
    (\<forall>node \<in> set nodes. nodeNeedsImplementationCoverage config node = Inr True \<longrightarrow>
      (\<exists>c \<in> set nodes'. isCoverageNode config c = Inr True \<and> (wn_id node, wn_id c) \<in> (node_edges nodes')\<^sup>+))"
  by (rule coverage_complete [OF assms])

lemma generated_coverage_complete_witness:
  "\<exists>c \<in> set covered_writers. isCoverageNode role_config c = Inr True \<and> (''w'', wn_id c) \<in> (node_edges covered_writers)\<^sup>+"
proof -
  have "nodeNeedsImplementationCoverage role_config (hd writers) = Inr True"
  proof -
    have "case nodeNeedsImplementationCoverage role_config (hd writers) of Inl e \<Rightarrow> False | Inr b \<Rightarrow> b" by code_simp
    then show ?thesis by (simp split: sum.splits)
  qed
  moreover have "hd writers \<in> set writers" "wn_id (hd writers) = ''w''" by (simp_all add: writers_def)
  ultimately show ?thesis using generated_coverage_complete [OF writers_covered writers_facts] by metis
qed

text \<open>
  C36: The integration pass gives each parallel node with several writers a drain-merge downstream. A node that had
  none gets one as its only dependent, on which all its former dependents then wait. The nodes keep their order,
  ids and bodies, every path between them stays, and the dependencies stay acyclic.
\<close>

theorem parallel_writers_joined:
  assumes "distinct (map wn_id nodes)"
  shows "same_but_merges nodes (integrateNodeList config nodes) \<and>
    (node_edges nodes)\<^sup>+ \<subseteq> (node_edges (integrateNodeList config nodes))\<^sup>+ \<and>
    (Field (node_edges nodes) \<subseteq> wn_id ` set nodes \<longrightarrow> acyclic (node_edges nodes) \<longrightarrow>
       acyclic (node_edges (integrateNodeList config nodes))) \<and>
    (\<forall>node \<in> set nodes. isUnintegratedWriteFanout config node \<longrightarrow> \<not> hasDrainMerge (wn_id node) (need_index nodes) \<longrightarrow>
       joins (wn_id node) nodes (integrateNodeList config nodes)) \<and>
    (\<forall>node \<in> set (integrateNodeList config nodes). isUnintegratedWriteFanout config node \<longrightarrow>
       hasDrainMerge (wn_id node) (need_index (integrateNodeList config nodes)))"
  using integrateNodeList_facts [OF assms, of config] integration_complete [OF assms] by blast

lemma parallel_writers_joined_witness: "joins ''w'' writers (integrateNodeList role_config writers)"
proof -
  have "isUnintegratedWriteFanout role_config (hd writers)" "\<not> hasDrainMerge ''w'' (need_index writers)" by code_simp+
  moreover have "hd writers \<in> set writers" "wn_id (hd writers) = ''w''" by (simp_all add: writers_def)
  ultimately show ?thesis using parallel_writers_joined [OF writers_facts(1), of role_config] by metis
qed

text \<open>
  C37: The canonical ids are well formed and a renaming of the nodes at every level of nesting: different ids stay
  different, and every need follows the node it names.
\<close>

theorem canonical_ids_rename:
  "\<exists>\<rho>. inj_on \<rho> (wn_id ` set (flattenWorkflowNodes nodes)) \<and>
    list_all ID_RE (map wn_id (flattenWorkflowNodes (canonical_nodes nodes))) \<and>
    map wn_id (flattenWorkflowNodes (canonical_nodes nodes)) = map \<rho> (map wn_id (flattenWorkflowNodes nodes)) \<and>
    map wn_id (canonical_nodes nodes) = map \<rho> (map wn_id nodes) \<and>
    map wn_needs_list (flattenWorkflowNodes (canonical_nodes nodes)) = map (map \<rho>) (map wn_needs_list (flattenWorkflowNodes nodes))"
  by (rule exI [of _ "renamed (canonical_id_map (flattenWorkflowNodes nodes) [] [])"], rule canonical_renaming)

text \<open>
  The members of a group are not renamed: a group over a node whose id is not canonical refers to a node that
  the pass has renamed away.
\<close>

theorem group_members_not_renamed:
  "map (\<lambda>node. (wn_id node, wn_body node))
     (canonical_nodes [plain_config_node ''Build'' (CommandBody [''make'']) None None,
                       plain_config_node ''all'' (GroupBody [''Build'']) None None]) =
   [(''build'', CommandBody [''make'']), (''all'', GroupBody [''Build''])]"
  by code_simp

text \<open>
  C38: The delivery is last: in an acyclic workflow whose needs are declared, the node that opens the pull request
  has a new id and runs after every other node.
\<close>

theorem delivery_runs_last:
  assumes "acyclic (node_edges nodes)" "Field (node_edges nodes) \<subseteq> wn_id ` set nodes" "i \<in> wn_id ` set nodes"
    and "map_of (sa_workflows artifact) (sa_root_workflow artifact) = Some w" "wf_nodes w = nodes" "\<not> hasPullRequestNode nodes"
  shows "\<exists>pr. map_of (sa_workflows (appendPullRequestDelivery True artifact)) (sa_root_workflow artifact) =
      Some (w\<lparr>wf_nodes := nodes @ [pr]\<rparr>) \<and>
    is_builtin OPEN_PR_BUILTIN pr \<and> wn_id pr \<notin> wn_id ` set nodes \<and> (i, wn_id pr) \<in> (node_edges (nodes @ [pr]))\<^sup>+"
proof -
  define pr where "pr = buildPrNode (terminalNodeIds nodes) (js_set (map wn_id nodes))"
  have "terminalNodeIds nodes \<noteq> []" using reaches_terminal [OF assms(1-3)] by auto
  then have "map_of (sa_workflows (appendPullRequestDelivery True artifact)) (sa_root_workflow artifact) =
      Some (w\<lparr>wf_nodes := nodes @ [pr]\<rparr>)"
    using assms(4-6) by (simp add: appendPullRequestDelivery_def Let_def pr_def AList.update_conv')
  moreover have "is_builtin OPEN_PR_BUILTIN pr" by (simp add: pr_def buildPrNode_def is_builtin_def)
  moreover have "wn_id pr \<notin> wn_id ` set nodes"
  proof -
    have "fst (uniqueGeneratedId t used f) \<notin> set used" for t used f
      using uniqueGeneratedId_fresh(1) [of t used f] by (cases "uniqueGeneratedId t used f") simp
    from this [of _ "js_set (map wn_id nodes)"] show ?thesis by (simp add: pr_def buildPrNode_def)
  qed
  ultimately show ?thesis using delivery_last [OF assms(1-3), folded pr_def] by blast
qed


definition writers_artifact :: schedule_artifact where
  "writers_artifact = \<lparr>sa_generated_at = ''now'', sa_root_workflow = ''root'', sa_schedule_id = ''run-1'',
     sa_source_entrypoint = ''main'', sa_task = ''t'', sa_workflows = [(''root'', \<lparr>wf_nodes = writers, wf_execution = None\<rparr>)]\<rparr>"

lemma delivery_runs_last_witness:
  "\<exists>pr. map_of (sa_workflows (appendPullRequestDelivery True writers_artifact)) ''root'' =
      Some \<lparr>wf_nodes = writers @ [pr], wf_execution = None\<rparr> \<and> (''w'', wn_id pr) \<in> (node_edges (writers @ [pr]))\<^sup>+"
proof -
  have edges: "node_edges writers = {(''w'', ''z'')}"
    by (simp add: writers_def node_edges_Cons wn_needs_list_def)
  have "acyclic (node_edges writers)" unfolding edges by (simp add: acyclic_insert) (simp add: acyclic_def)
  moreover have "Field (node_edges writers) \<subseteq> wn_id ` set writers" unfolding edges by (simp add: writers_def Field_def)
  moreover have "''w'' \<in> wn_id ` set writers" by (simp add: writers_def)
  moreover have "map_of (sa_workflows writers_artifact) (sa_root_workflow writers_artifact) = Some \<lparr>wf_nodes = writers, wf_execution = None\<rparr>"
    by (simp add: writers_artifact_def)
  moreover have "\<not> hasPullRequestNode writers" by code_simp
  ultimately show ?thesis
    using delivery_runs_last [of writers "''w''" writers_artifact "\<lparr>wf_nodes = writers, wf_execution = None\<rparr>"]
    by (auto simp: writers_artifact_def)
qed

end
