(* ===== verification/ScheduleGeneration.thy ===== *)
theory ScheduleGeneration
  imports SchedulePasses TicketPlans
begin

text \<open>
  The generation of a schedule (\<^verbatim>\<open>src/planning/generate.ts\<close>, with the seeds of \<^verbatim>\<open>src/schedule/baseline.ts\<close>): the
  planning context, the planner agent with its one repair and its fallbacks, the passes, the validation and the
  compilation. The planner agent, the YAML parser, the schema library, the reading of the backlog and the clock
  are services; a request to the planner carries what its prompt is written from.
\<close>

subsection \<open>Planning context\<close>

record work_unit =
  wu_acceptance_criteria :: "(string \<times> string) list"
  wu_dependencies :: "string list option"
  wu_description :: "string option"
  wu_id :: string
  wu_title :: "string option"

record research_context =
  rx_ac :: "string list"
  rx_files :: "string list option"
  rx_findings :: "string list"
  rx_risks :: "string list option"
  rx_target :: "string option"

record planning_context =
  px_parentWorkUnits :: "work_unit list"
  px_research :: "research_context option"
  px_workUnits :: "work_unit list"

record phase_context =
  ph_research :: "research_context option"
  ph_ticketPlan :: "ticket_plan option"

definition prune_unit :: "string list \<Rightarrow> work_unit \<Rightarrow> work_unit" where
  "prune_unit inScope work = (case wu_dependencies work of
     None \<Rightarrow> work
   | Some dependencies \<Rightarrow> work\<lparr>wu_dependencies := Some (filter (\<lambda>i. i \<in> set inScope) dependencies)\<rparr>)"

definition pruneOutOfScopeDependencies :: "planning_context \<Rightarrow> planning_context" where
  "pruneOutOfScopeDependencies context =
     (let inScope = js_set (map wu_id (px_parentWorkUnits context @ px_workUnits context)) in
      \<lparr>px_parentWorkUnits = map (prune_unit inScope) (px_parentWorkUnits context), px_research = None,
       px_workUnits = map (prune_unit inScope) (px_workUnits context)\<rparr>)"

definition plan_work_unit :: "plan_item \<Rightarrow> string list \<Rightarrow> work_unit" where
  "plan_work_unit item dependencies =
     \<lparr>wu_acceptance_criteria = map (\<lambda>(index, criterion). (it_key item @ ''-ac-'' @ show_nat (index + 1), pl_text criterion))
        (enumerate 0 (it_acceptance_criteria item)),
      wu_dependencies = Some dependencies, wu_description = Some (it_description item), wu_id = it_key item,
      wu_title = Some (it_title item)\<rparr>"

definition ticketPlanTaskWorkUnit :: "ticket_source \<Rightarrow> (string \<times> string) list \<Rightarrow> work_unit" where
  "ticketPlanTaskWorkUnit task localIds =
     plan_work_unit (source_item task) (List.map_filter (map_of localIds) (localDependencyKeys task))"

definition ticketPlanPlanningContext :: "ticket_plan \<Rightarrow> work_unit list \<times> work_unit list" where
  "ticketPlanPlanningContext plan =
     (let localIds = new_map (map (\<lambda>ticket. (it_key ticket, it_key ticket)) (tp_tickets plan)) in
      (case tp_epic plan of None \<Rightarrow> [] | Some epic \<Rightarrow> [ticketPlanTaskWorkUnit (EpicSource epic) []],
       map (\<lambda>ticket. ticketPlanTaskWorkUnit (TaskSource ticket) localIds) (tp_tickets plan)))"

definition mergePhasePlanningContext :: "work_unit list \<times> work_unit list \<Rightarrow> phase_context option \<Rightarrow> planning_context" where
  "mergePhasePlanningContext base phaseContext =
     (let planned = (case Option.bind phaseContext ph_ticketPlan of None \<Rightarrow> ([], []) | Some plan \<Rightarrow> ticketPlanPlanningContext plan) in
      \<lparr>px_parentWorkUnits = fst base @ fst planned, px_research = Option.bind phaseContext ph_research,
       px_workUnits = snd base @ snd planned\<rparr>)"

subsection \<open>Seeds\<close>

definition plain_workflow :: "config_node list \<Rightarrow> config_workflow" where
  "plain_workflow nodes = \<lparr>wf_nodes = nodes, wf_execution = None\<rparr>"

definition seed_agent :: "string \<Rightarrow> string list option \<Rightarrow> string \<Rightarrow> gate_spec list option \<Rightarrow> config_node" where
  "seed_agent i needs profile gts = plain_config_node i (AgentBody profile None) needs gts"

definition seed_builtin :: "string \<Rightarrow> string \<Rightarrow> string list \<Rightarrow> config_node" where
  "seed_builtin i builtin needs = plain_config_node i (BuiltinBody builtin) (Some needs) None"

definition quickBaselineWorkflow :: "(string \<times> config_workflow) list" where
  "quickBaselineWorkflow = [(''root'', plain_workflow
     [seed_agent ''backlog-intake'' None ''moka-researcher'' None,
      seed_agent ''red-tests'' (Some [''backlog-intake'']) ''moka-test-writer'' None,
      seed_agent ''implement'' (Some [''red-tests'']) ''moka-code-writer'' None,
      seed_builtin ''mechanical-tests'' ''test'' [''implement''],
      seed_builtin ''mechanical-typecheck'' ''typecheck'' [''implement''],
      seed_agent ''verify'' (Some [''mechanical-tests'', ''mechanical-typecheck'']) ''moka-verifier'' (Some
        [builtin_gate ''verify-typecheck'' ''typecheck'', builtin_gate ''verify-tests'' ''test'', builtin_gate ''verify-lint'' ''lint'',
         builtin_gate ''verify-fallow'' ''fallow'', stdout_verdict_gate ''verify-verdict''])])]"

definition test_globs :: "string list" where
  "test_globs = [''**/*.test.*'', ''**/*.spec.*'', ''**/*_test.*'', ''**/__tests__/**'', ''test/**'', ''tests/**'', ''**/test/**'', ''**/tests/**'']"

definition green_checks :: "string list" where
  "green_checks = [''mechanical-green-tests'', ''mechanical-green-typecheck'', ''mechanical-green-lint'', ''mechanical-green-fallow'']"

definition executeBaselineWorkflow :: "(string \<times> config_workflow) list" where
  "executeBaselineWorkflow = [(''root'', plain_workflow
     [seed_agent ''backlog-intake'' None ''moka-researcher'' None,
      seed_agent ''research'' (Some [''backlog-intake'']) ''moka-researcher'' None,
      seed_agent ''red-tests'' (Some [''research'']) ''moka-test-writer'' (Some
        [\<lparr>gsp_id = Some ''red-test-file-policy'', gsp_required = None,
          gsp_body = ChangedFilesGate \<lparr>cp_allow = Some (test_globs @ [''**/*.snap'']), cp_deny = None,
            cp_include_untracked = None, cp_require_any = Some test_globs\<rparr>\<rparr>]),
      seed_agent ''green-implementation'' (Some [''red-tests'']) ''moka-code-writer'' None,
      seed_builtin ''mechanical-green-tests'' ''test'' [''green-implementation''],
      seed_builtin ''mechanical-green-typecheck'' ''typecheck'' [''green-implementation''],
      seed_builtin ''mechanical-green-lint'' ''lint'' [''green-implementation''],
      seed_builtin ''mechanical-green-fallow'' ''fallow'' [''green-implementation''],
      seed_agent ''acceptance-review'' (Some green_checks) ''moka-acceptance-reviewer'' (Some
        [\<lparr>gsp_id = Some ''acceptance-coverage'', gsp_required = Some False,
          gsp_body = AcceptanceGate \<lparr>js_path = None, js_target = Some StdoutTarget\<rparr> None\<rparr>,
         stdout_verdict_gate ''acceptance-verdict'']),
      seed_agent ''verification'' (Some green_checks) ''moka-verifier'' (Some
        [builtin_gate ''verify-typecheck'' ''typecheck'', builtin_gate ''verify-tests'' ''test'', builtin_gate ''verify-lint'' ''lint'',
         builtin_gate ''verify-fallow'' ''fallow'', builtin_gate ''verify-semgrep'' ''semgrep'',
         builtin_gate ''verify-duplication'' ''duplication'', stdout_verdict_gate ''verify-verdict'']),
      seed_agent ''code-quality-review'' (Some green_checks) ''moka-thermo-nuclear-reviewer'' None,
      seed_agent ''learn'' (Some [''acceptance-review'', ''verification'', ''code-quality-review'']) ''moka-learner'' None])]"

definition baselineWorkflows :: "schedule_baseline \<Rightarrow> string \<times> (string \<times> config_workflow) list" where
  "baselineWorkflows baseline =
     (if baseline = QuickBaseline then (''root'', quickBaselineWorkflow) else (''root'', executeBaselineWorkflow))"

definition defaultScheduleId :: "string \<Rightarrow> string" where
  "defaultScheduleId stamp = ''run-'' @ take 14 (filter (\<lambda>c. c \<notin> set ''-:.TZ'') stamp)"

definition baselineScheduleArtifact :: "schedule_baseline \<Rightarrow> string \<Rightarrow> string \<Rightarrow> string option \<Rightarrow> string \<Rightarrow> schedule_artifact" where
  "baselineScheduleArtifact baseline entrypointId generatedAt runId task =
     (case baselineWorkflows baseline of (rootWorkflow, workflows) \<Rightarrow>
        \<lparr>sa_generated_at = generatedAt, sa_root_workflow = rootWorkflow,
         sa_schedule_id = or_else runId (defaultScheduleId generatedAt), sa_source_entrypoint = entrypointId,
         sa_task = task, sa_workflows = workflows\<rparr>)"

subsection \<open>Services\<close>

record agent_run =
  ar_exitCode :: int
  ar_stderr :: "string option"
  ar_stdout :: string
  ar_timedOut :: "bool option"

datatype planner_request =
    PlannerRequest string schedule_artifact planning_context
  | RepairRequest nat schedule_artifact string string

record 'w generation_services =
  gn_backlog :: "string \<Rightarrow> string \<Rightarrow> work_unit list \<times> work_unit list"
  gn_build :: "(artifact_spec list, gate_spec list) planned_node graph_op list \<Rightarrow> (artifact_spec list, gate_spec list) planned_node dep_graph"
  gn_config :: "full_config config_services"
  gn_decode :: "string \<Rightarrow> config_issue list + schedule_artifact"
  gn_normalize :: "string \<Rightarrow> string"
  gn_now :: string
  gn_planner :: "string \<Rightarrow> planner_request \<Rightarrow> 'w \<Rightarrow> (thrown + agent_run) \<times> 'w"
  gn_yamlErrors :: "string \<Rightarrow> string list"

record generate_options =
  go_entrypointId :: string
  go_generatedAt :: "string option"
  go_phaseContext :: "phase_context option"
  go_pullRequestDeliveryRequested :: "bool option"
  go_runId :: "string option"
  go_task :: string
  go_worktreePath :: string

definition schedulePlanningContext :: "'w generation_services \<Rightarrow> phase_context option \<Rightarrow> string \<Rightarrow> string \<Rightarrow> planning_context" where
  "schedulePlanningContext sv phaseContext task worktreePath =
     pruneOutOfScopeDependencies (mergePhasePlanningContext (gn_backlog sv task worktreePath) phaseContext)"

subsection \<open>Parsing and compiling a schedule\<close>

definition parseScheduleArtifact :: "'w generation_services \<Rightarrow> string \<Rightarrow> string \<Rightarrow> schedule_failure + schedule_artifact" where
  "parseScheduleArtifact sv source sourcePath =
     (let errors = gn_yamlErrors sv source in
      if errors \<noteq> [] then Inl (ScheduleArtifactError (''Failed to parse '' @ sourcePath @ '': '' @ join_with ''; '' errors))
      else case gn_decode sv source of
        Inr artifact \<Rightarrow> Inr artifact
      | Inl issues \<Rightarrow> Inl (ScheduleArtifactError (join_with [newline]
          ((''Invalid schedule artifact '' @ sourcePath @ '':'') # map (\<lambda>i.
             if ci_path i \<noteq> [] then ''- '' @ ci_path i @ '': '' @ ci_message i else ''- '' @ ci_message i) issues))))"

definition spread :: "(string \<times> 'v) list \<Rightarrow> (string \<times> 'v) list \<Rightarrow> (string \<times> 'v) list" where
  "spread entries later = foldl (\<lambda>m (k, v). AList.update k v m) entries (object_entries later)"

record compiled_schedule =
  cc_config :: full_config
  cc_plan :: "(artifact_spec list, gate_spec list) execution_plan"
  cc_workflowId :: string

definition compileScheduleArtifact ::
  "'w generation_services \<Rightarrow> full_config \<Rightarrow> schedule_artifact \<Rightarrow> string option \<Rightarrow> schedule_failure + compiled_schedule" where
  "compileScheduleArtifact sv config artifact projectRoot =
     (if map_of (sa_workflows artifact) (sa_root_workflow artifact) = None
      then Inl (ScheduleArtifactError (''schedule root workflow '' @ quoted (sa_root_workflow artifact) @ '' is not declared''))
      else case namespaceScheduleWorkflows artifact of
        Inl e \<Rightarrow> Inl e
      | Inr (scheduledWorkflows, workflowId) \<Rightarrow>
          (case validatePipelineConfig (gn_config sv)
              (config\<lparr>pc_workflows := spread (pc_workflows config) scheduledWorkflows\<rparr>)
              \<lparr>vr_projectRoot = or_else projectRoot [], vr_allowMissing = True\<rparr> of
             Inl e \<Rightarrow> Inl (InvalidConfig e)
           | Inr mergedConfig \<Rightarrow> (case compileWorkflowPlan (gn_build sv) (planner_config mergedConfig) (Some workflowId) of
               Inl e \<Rightarrow> Inl (InvalidPlan e)
             | Inr plan \<Rightarrow> Inr \<lparr>cc_config = mergedConfig, cc_plan = plan, cc_workflowId = workflowId\<rparr>)))"

subsection \<open>The schedule of a ticket plan\<close>

definition PREFERRED_IMPLEMENTATION_PROFILE_IDS :: "string list" where
  "PREFERRED_IMPLEMENTATION_PROFILE_IDS = [''moka-code-writer'']"

definition profileIdForSchedulingRole :: "full_config \<Rightarrow> scheduling_role \<Rightarrow> string list \<Rightarrow> string option" where
  "profileIdForSchedulingRole config role preferredIds = preferred_profile preferredIds (profiles_with_role config role)"

fun unit_node_ids :: "work_unit list \<Rightarrow> string list \<Rightarrow> (string \<times> string) list" where
  "unit_node_ids [] usedIds = []"
| "unit_node_ids (work # works) usedIds =
     (case uniqueGeneratedId (wu_id work @ ''-implement'') usedIds ''work-implement'' of
        (i, usedIds1) \<Rightarrow> (wu_id work, i) # unit_node_ids works usedIds1)"

fun with_task_context :: "task_context \<Rightarrow> config_node \<Rightarrow> config_node" where
  "with_task_context cx (WorkflowNode i body needs art gts models effort retries task_cx timeout) =
     WorkflowNode i body needs art gts models effort retries (Some cx) timeout"

definition id_context :: "string \<Rightarrow> task_context" where
  "id_context i = \<lparr>tc_acceptanceCriteria = None, tc_description = None, tc_id = Some i, tc_title = None\<rparr>"

definition unit_node :: "string \<Rightarrow> (string \<times> string) list \<Rightarrow> work_unit \<Rightarrow> config_node" where
  "unit_node profileId nodeIdsByUnit work =
     (let needs = List.map_filter (map_of nodeIdsByUnit) (or_else (wu_dependencies work) []) in
      with_task_context (id_context (wu_id work))
        (plain_config_node (or_else (map_of nodeIdsByUnit (wu_id work)) ''work-implement'') (AgentBody profileId None)
          (if needs \<noteq> [] then Some needs else None) None))"

definition ticketPlanScheduleArtifact ::
  "schedule_artifact \<Rightarrow> full_config \<Rightarrow> planning_context \<Rightarrow> phase_context option \<Rightarrow> schedule_failure + schedule_artifact option" where
  "ticketPlanScheduleArtifact baseline config planningContext phaseContext =
     (if Option.bind phaseContext ph_ticketPlan = None \<or> px_workUnits planningContext = [] then Inr None
      else case profileIdForSchedulingRole config ImplementationRole PREFERRED_IMPLEMENTATION_PROFILE_IDS of
        None \<Rightarrow> Inl (ScheduleArtifactError
          (''Cannot generate TicketPlan schedule: no profile declares scheduling role '' @ quoted ''implementation''))
      | Some profileId \<Rightarrow>
          let nodeIdsByUnit = new_map (unit_node_ids (px_workUnits planningContext) []) in
          Inr (Some (baseline\<lparr>sa_root_workflow := ''root'',
            sa_workflows := [(''root'', plain_workflow (map (unit_node profileId nodeIdsByUnit) (px_workUnits planningContext)))]\<rparr>)))"


subsection \<open>The planner\<close>

definition requireSchedulePlannerProfile :: "string option \<Rightarrow> string \<Rightarrow> schedule_failure + string" where
  "requireSchedulePlannerProfile plannerProfile entrypointId = (case truthy plannerProfile of
     Some profile \<Rightarrow> Inr profile
   | None \<Rightarrow> Inl (ScheduleArtifactError (''schedule '' @ quoted entrypointId @ '' requires planner_profile'')))"

text \<open>
  The first fence that can be closed: after the tag, the white space up to one of its line breaks, as late as
  possible, and the shortest body up to a line break before the closing fence.
\<close>

fun before_closing :: "string \<Rightarrow> string option" where
  "before_closing [] = None"
| "before_closing (c # cs) =
     (if starts_with (c # cs) (newline # fence) \<or> starts_with (c # cs) (CHR 0x0D # newline # fence) then Some []
      else map_option ((#) c) (before_closing cs))"

definition line_break_indices :: "string \<Rightarrow> nat list" where
  "line_break_indices s = rev (filter (\<lambda>i. s ! i = newline) [0 ..< length (takeWhile is_space s)])"

fun first_some :: "'x option list \<Rightarrow> 'x option" where
  "first_some [] = None"
| "first_some (x # xs) = (if x = None then first_some xs else x)"

definition fenced_body :: "string \<Rightarrow> string option" where
  "fenced_body s =
     (let rest = (if to_lower (take 4 s) = ''yaml'' then drop 4 s else if to_lower (take 3 s) = ''yml'' then drop 3 s else s)
      in first_some (map (\<lambda>i. before_closing (drop (Suc i) rest)) (line_break_indices rest)))"

fun MARKDOWN_YAML_FENCE_RE :: "string \<Rightarrow> string option" where
  "MARKDOWN_YAML_FENCE_RE [] = None"
| "MARKDOWN_YAML_FENCE_RE (c # cs) =
     (case (if starts_with (c # cs) fence then fenced_body (drop 3 (c # cs)) else None) of
        Some body \<Rightarrow> Some body | None \<Rightarrow> MARKDOWN_YAML_FENCE_RE cs)"

definition normalizeGeneratedScheduleSource :: "string \<Rightarrow> string" where
  "normalizeGeneratedScheduleSource source = or_else (MARKDOWN_YAML_FENCE_RE source) source"

definition failure_message :: "schedule_failure \<Rightarrow> string" where
  "failure_message e = (case e of ScheduleArtifactError message \<Rightarrow> message | _ \<Rightarrow> [])"

definition parseGeneratedSchedule :: "'w generation_services \<Rightarrow> string \<Rightarrow> string \<Rightarrow> schedule_failure + schedule_artifact" where
  "parseGeneratedSchedule sv source sourcePath =
     (case parseScheduleArtifact sv (normalizeGeneratedScheduleSource source) sourcePath of
        Inr artifact \<Rightarrow> Inr artifact
      | Inl e \<Rightarrow> Inl (ScheduleArtifactError (failure_message e @ [newline] @ ''Planner output:'' @ [newline] @ source)))"

definition plannerFailureMessage :: "string \<Rightarrow> agent_run \<Rightarrow> string" where
  "plannerFailureMessage plannerProfile result =
     (let stderr = js_trim (or_else (ar_stderr result) []);
          stdout = js_trim (ar_stdout result);
          details = (if ar_timedOut result = Some True then [''timed out waiting for scheduler subprocess''] else []) @
            (if stderr \<noteq> [] then [''stderr:'' @ [newline] @ stderr] else []) @
            (if stdout \<noteq> [] then [''stdout:'' @ [newline] @ stdout] else []);
          message = ''schedule planner '' @ quoted plannerProfile @ '' failed with exit '' @ show_int (ar_exitCode result)
      in if details = [] then message else message @ [newline] @ join_with [newline] details)"

definition runSchedulePlanner ::
  "'w generation_services \<Rightarrow> string \<Rightarrow> planner_request \<Rightarrow> 'w \<Rightarrow> (schedule_failure + string) \<times> 'w" where
  "runSchedulePlanner sv plannerProfile request w = (case gn_planner sv plannerProfile request w of
     (Inl t, w1) \<Rightarrow> (Inl (ThrownFailure t), w1)
   | (Inr result, w1) \<Rightarrow>
       (if ar_exitCode result \<noteq> 0 then Inl (ScheduleArtifactError (plannerFailureMessage plannerProfile result))
        else Inr (js_trim (gn_normalize sv (ar_stdout result))), w1))"

definition SCHEDULE_BUILTINS :: "string list" where
  "SCHEDULE_BUILTINS = [''drain-merge'', ''duplication'', ''fallow'', ''lint'', ''open-pull-request'', ''semgrep'', ''test'', ''typecheck'']"

definition allWorkflowNodes :: "(string \<times> config_workflow) list \<Rightarrow> config_node list" where
  "allWorkflowNodes workflows = concat (map (\<lambda>w. flattenWorkflowNodes (wf_nodes w)) (object_values workflows))"

definition node_builtin_issues :: "config_node \<Rightarrow> string list" where
  "node_builtin_issues node = (case wn_body node of
     BuiltinBody builtin \<Rightarrow> if builtin \<notin> set SCHEDULE_BUILTINS
       then [''unsupported generated builtin '' @ quoted builtin @ '' on node '' @ quoted (wn_id node) @ ''. Allowed builtins: '' @
               join_with '', '' SCHEDULE_BUILTINS] else []
   | _ \<Rightarrow> [])"

definition gate_builtin_issues :: "config_node \<Rightarrow> string list" where
  "gate_builtin_issues node = concat (map (\<lambda>gate. case gsp_body gate of
     BuiltinGate builtin \<Rightarrow> if builtin \<notin> set SCHEDULE_BUILTINS
       then [''unsupported generated builtin gate '' @ quoted builtin @ '' on node '' @ quoted (wn_id node) @ '' gate '' @
               quoted (or_else (gsp_id gate) ''undefined'') @ ''. Allowed builtins: '' @ join_with '', '' SCHEDULE_BUILTINS] else []
   | _ \<Rightarrow> []) (or_else (wn_gates node) []))"

definition unsupportedGeneratedBuiltinIssues :: "schedule_artifact \<Rightarrow> string list" where
  "unsupportedGeneratedBuiltinIssues artifact =
     concat (map (\<lambda>node. node_builtin_issues node @ gate_builtin_issues node) (allWorkflowNodes (sa_workflows artifact)))"

definition invalid_schedule :: "string list \<Rightarrow> schedule_failure" where
  "invalid_schedule issues =
     ScheduleArtifactError (join_with [newline] (''Invalid generated schedule:'' # map (\<lambda>i. ''- '' @ i) issues))"

definition generatedBuiltinsSupported :: "schedule_artifact \<Rightarrow> schedule_failure option" where
  "generatedBuiltinsSupported artifact =
     (let issues = unsupportedGeneratedBuiltinIssues artifact in if issues = [] then None else Some (invalid_schedule issues))"

definition acceptedGeneratedSchedule :: "schedule_failure + schedule_artifact \<Rightarrow> schedule_failure + schedule_artifact" where
  "acceptedGeneratedSchedule parsed = (case parsed of
     Inl e \<Rightarrow> Inl e
   | Inr artifact \<Rightarrow> (case generatedBuiltinsSupported artifact of None \<Rightarrow> Inr artifact | Some e \<Rightarrow> Inl e))"

datatype repair_result = RepairAccepted schedule_artifact | RepairFallback | RepairInvalid schedule_failure string

definition SCHEDULE_PLANNER_REPAIR_ATTEMPTS :: nat where
  "SCHEDULE_PLANNER_REPAIR_ATTEMPTS = 1"

definition runScheduleRepair ::
  "'w generation_services \<Rightarrow> string \<Rightarrow> schedule_artifact \<Rightarrow> schedule_failure \<Rightarrow> string \<Rightarrow> nat \<Rightarrow> 'w \<Rightarrow>
   (schedule_failure + string option) \<times> 'w" where
  "runScheduleRepair sv plannerProfile baseline latestFailure latestSource attempt w =
     (case runSchedulePlanner sv plannerProfile (RepairRequest attempt baseline (failure_message latestFailure) latestSource) w of
        (Inr source, w1) \<Rightarrow> (Inr (Some source), w1)
      | (Inl (ScheduleArtifactError message), w1) \<Rightarrow> (Inr None, w1)
      | (Inl e, w1) \<Rightarrow> (Inl e, w1))"

text \<open>The loop of \<open>repairInvalidScheduleArtifact\<close>, with the number of attempts left.\<close>

fun repair_loop ::
  "'w generation_services \<Rightarrow> string \<Rightarrow> schedule_artifact \<Rightarrow> nat \<Rightarrow> schedule_failure \<Rightarrow> string \<Rightarrow> 'w \<Rightarrow>
   (schedule_failure + repair_result) \<times> 'w" where
  "repair_loop sv plannerProfile baseline 0 latestFailure latestSource w = (Inr (RepairInvalid latestFailure latestSource), w)"
| "repair_loop sv plannerProfile baseline (Suc left) latestFailure latestSource w =
     (case runScheduleRepair sv plannerProfile baseline latestFailure latestSource (SCHEDULE_PLANNER_REPAIR_ATTEMPTS - left) w of
        (Inl e, w1) \<Rightarrow> (Inl e, w1)
      | (Inr repairedSource, w1) \<Rightarrow> (case truthy repairedSource of
          None \<Rightarrow> (Inr RepairFallback, w1)
        | Some source \<Rightarrow> (case acceptedGeneratedSchedule (parseGeneratedSchedule sv source ''planner repair output'') of
            Inr artifact \<Rightarrow> (Inr (RepairAccepted artifact), w1)
          | Inl e \<Rightarrow> repair_loop sv plannerProfile baseline left e source w1)))"

definition repairInvalidScheduleArtifact ::
  "'w generation_services \<Rightarrow> string \<Rightarrow> schedule_artifact \<Rightarrow> schedule_failure \<Rightarrow> string \<Rightarrow> 'w \<Rightarrow>
   (schedule_failure + repair_result) \<times> 'w" where
  "repairInvalidScheduleArtifact sv plannerProfile baseline initialFailure initialSource w =
     repair_loop sv plannerProfile baseline SCHEDULE_PLANNER_REPAIR_ATTEMPTS initialFailure initialSource w"

definition scheduleArtifactAfterRepair ::
  "repair_result \<Rightarrow> schedule_artifact \<Rightarrow> schedule_failure \<Rightarrow> string \<Rightarrow> schedule_failure + schedule_artifact" where
  "scheduleArtifactAfterRepair repair baseline initialFailure initialSource = (case repair of
     RepairAccepted artifact \<Rightarrow> Inr artifact
   | RepairFallback \<Rightarrow> Inr baseline
   | RepairInvalid latestFailure latestSource \<Rightarrow> Inl (ScheduleArtifactError (join_with [newline]
       [''Schedule planner produced invalid output after repair.'', failure_message initialFailure, ''Original planner output:'',
        initialSource, failure_message latestFailure, ''Planner repair output:'', latestSource])))"

definition planScheduleArtifact ::
  "'w generation_services \<Rightarrow> full_config \<Rightarrow> schedule_artifact \<Rightarrow> string option \<Rightarrow> generate_options \<Rightarrow> planning_context \<Rightarrow> 'w \<Rightarrow>
   (schedule_failure + schedule_artifact) \<times> 'w" where
  "planScheduleArtifact sv config baseline plannerProfile options planningContext w =
     (case requireSchedulePlannerProfile plannerProfile (go_entrypointId options) of
        Inl e \<Rightarrow> (Inl e, w)
      | Inr profile \<Rightarrow> (case ticketPlanScheduleArtifact baseline config planningContext (go_phaseContext options) of
          Inl e \<Rightarrow> (Inl e, w)
        | Inr ticketPlanFallback \<Rightarrow>
            (case runSchedulePlanner sv profile (PlannerRequest (go_task options) baseline planningContext) w of
               (Inl (ScheduleArtifactError message), w1) \<Rightarrow>
                 (case ticketPlanFallback of Some artifact \<Rightarrow> Inr artifact | None \<Rightarrow> Inl (ScheduleArtifactError message), w1)
             | (Inl e, w1) \<Rightarrow> (Inl e, w1)
             | (Inr source, w1) \<Rightarrow>
                 if source = [] then (Inl (ScheduleArtifactError ''schedule planner returned empty output''), w1)
                 else case acceptedGeneratedSchedule (parseGeneratedSchedule sv source ''planner output'') of
                   Inr artifact \<Rightarrow> (Inr artifact, w1)
                 | Inl e \<Rightarrow> (case repairInvalidScheduleArtifact sv profile baseline e source w1 of
                     (Inl failure, w2) \<Rightarrow> (Inl failure, w2)
                   | (Inr repair, w2) \<Rightarrow>
                       (scheduleArtifactAfterRepair repair (or_else ticketPlanFallback baseline) e source, w2)))))"

subsection \<open>Task contexts\<close>

definition backlogWorkUnitTaskContext :: "work_unit \<Rightarrow> task_context" where
  "backlogWorkUnitTaskContext work =
     \<lparr>tc_acceptanceCriteria = (if wu_acceptance_criteria work \<noteq> [] then Some (wu_acceptance_criteria work) else None),
      tc_description = truthy (wu_description work), tc_id = Some (wu_id work), tc_title = truthy (wu_title work)\<rparr>"

definition assigned_unit :: "config_node \<Rightarrow> string option" where
  "assigned_unit node = truthy (Option.bind (wn_task_context node) tc_id)"

fun hydrateWorkflowNodeTaskContext :: "(string \<times> task_context) list \<Rightarrow> config_node \<Rightarrow> config_node" where
  "hydrateWorkflowNodeTaskContext contexts (WorkflowNode i body needs art gts models effort retries task_cx timeout) =
     WorkflowNode i
       (case body of
          ParallelBody children \<Rightarrow> ParallelBody (map (hydrateWorkflowNodeTaskContext contexts) children) | _ \<Rightarrow> body)
       needs art gts models effort retries
       (case Option.bind (truthy (Option.bind task_cx tc_id)) (map_of contexts) of Some cx \<Rightarrow> Some cx | None \<Rightarrow> task_cx) timeout"

definition hydrateScheduleTaskContexts :: "schedule_artifact \<Rightarrow> planning_context \<Rightarrow> schedule_artifact" where
  "hydrateScheduleTaskContexts artifact planningContext =
     (let contexts = new_map (map (\<lambda>work. (wu_id work, backlogWorkUnitTaskContext work))
            (px_parentWorkUnits planningContext @ px_workUnits planningContext)) in
      if contexts = [] then artifact
      else on_workflows (on_nodes (map (hydrateWorkflowNodeTaskContext contexts))) artifact)"

subsection \<open>Validation\<close>

definition registerContainmentEdge ::
  "config_node \<Rightarrow> config_node \<Rightarrow> (string \<times> sched_node list) list \<Rightarrow> (string \<times> sched_node list) list" where
  "registerContainmentEdge parent child index =
     AList.update (wn_id child) (or_else (map_of index (wn_id child)) [] @ [graph_view parent]) index"

fun addParallelContainmentEdges :: "config_node list \<Rightarrow> (string \<times> sched_node list) list \<Rightarrow> (string \<times> sched_node list) list" where
  "addParallelContainmentEdges [] index = index"
| "addParallelContainmentEdges (WorkflowNode i body needs art gts models effort retries task_cx timeout # rest) index =
     addParallelContainmentEdges rest (case body of
       ParallelBody children \<Rightarrow> addParallelContainmentEdges children
         (foldl (\<lambda>index child. registerContainmentEdge
            (WorkflowNode i body needs art gts models effort retries task_cx timeout) child index) index children)
     | _ \<Rightarrow> index)"

definition dependentsByNeedWithContainment :: "config_node list \<Rightarrow> config_node list \<Rightarrow> (string \<times> sched_node list) list" where
  "dependentsByNeedWithContainment nested flat = addParallelContainmentEdges nested (need_index flat)"

definition hasDownstreamDrainMerge :: "string \<Rightarrow> (string \<times> sched_node list) list \<Rightarrow> bool" where
  "hasDownstreamDrainMerge nodeId index =
     hasReachableDependent nodeId index (\<lambda>node. is_builtin DRAIN_MERGE_BUILTIN (sn_node node))"

definition generatedRootWorkflowIssues :: "schedule_artifact \<Rightarrow> string list" where
  "generatedRootWorkflowIssues artifact =
     (if sa_root_workflow artifact \<noteq> ''root'' then [''generated schedules must use root_workflow '' @ quoted ''root''] else []) @
     (if length (sa_workflows artifact) \<noteq> 1 \<or> map_of (sa_workflows artifact) ''root'' = None
      then [''generated schedules must embed exactly one task-specific workflow named '' @ quoted ''root''] else [])"

fun nodesByAssignedWorkUnit :: "config_node list \<Rightarrow> (string \<times> config_node list) list \<Rightarrow> (string \<times> config_node list) list" where
  "nodesByAssignedWorkUnit [] grouped = grouped"
| "nodesByAssignedWorkUnit (node # nodes) grouped = nodesByAssignedWorkUnit nodes (case assigned_unit node of
     None \<Rightarrow> grouped | Some i \<Rightarrow> AList.update i (or_else (map_of grouped i) [] @ [node]) grouped)"

definition workflow_index :: "config_workflow \<Rightarrow> (string \<times> sched_node list) list" where
  "workflow_index w = dependentsByNeedWithContainment (wf_nodes w) (flattenWorkflowNodes (wf_nodes w))"

definition workflowNodeIssues ::
  "schedule_artifact \<Rightarrow> ((string \<times> sched_node list) list \<Rightarrow> config_node list \<Rightarrow> string \<Rightarrow> schedule_failure + string list) \<Rightarrow>
   schedule_failure + string list" where
  "workflowNodeIssues artifact collectIssues =
     (case map_or_throw (\<lambda>(workflowId, w). collectIssues (workflow_index w) (flattenWorkflowNodes (wf_nodes w)) workflowId)
        (object_entries (sa_workflows artifact)) of
        Inl e \<Rightarrow> Inl e | Inr issues \<Rightarrow> Inr (concat issues))"

definition uncovered_issues ::
  "full_config \<Rightarrow> (string \<times> sched_node list) list \<Rightarrow> config_node list \<Rightarrow> string \<Rightarrow> schedule_failure + string list" where
  "uncovered_issues config index nodes workflowId = (case filter_or_throw (isImplementationNode config) nodes of
     Inl e \<Rightarrow> Inl e
   | Inr implementing \<Rightarrow> Inr (map
       (\<lambda>node. ''implementation node '' @ quoted (workflowId @ ''.'' @ wn_id node) @ '' is without downstream verification or review'')
       (filter (\<lambda>node. \<not> hasDownstreamCoverage config (wn_id node) index) implementing)))"

definition implementationCoverageIssues :: "full_config \<Rightarrow> schedule_artifact \<Rightarrow> schedule_failure + string list" where
  "implementationCoverageIssues config artifact = workflowNodeIssues artifact (uncovered_issues config)"

definition unmerged_issues ::
  "full_config \<Rightarrow> (string \<times> sched_node list) list \<Rightarrow> config_node list \<Rightarrow> string \<Rightarrow> string list" where
  "unmerged_issues config index nodes workflowId = map
     (\<lambda>node. ''parallel node '' @ quoted (workflowId @ ''.'' @ wn_id node) @
        '' has write-capable children sharing a worktree without isolated worktree roots or drain-merge integration'')
     (filter (\<lambda>node. isUnintegratedWriteFanout config node \<and> \<not> hasDownstreamDrainMerge (wn_id node) index) nodes)"

definition unsafeParallelWorktreeIssues :: "full_config \<Rightarrow> schedule_artifact \<Rightarrow> schedule_failure + string list" where
  "unsafeParallelWorktreeIssues config artifact =
     workflowNodeIssues artifact (\<lambda>index nodes workflowId. Inr (unmerged_issues config index nodes workflowId))"

definition missing_edge_issue :: "string \<Rightarrow> string \<Rightarrow> config_node \<Rightarrow> string \<Rightarrow> config_node list \<Rightarrow> string" where
  "missing_edge_issue workflowId dependentId node prerequisiteId prerequisiteNodes =
     ''work unit dependency edge missing in '' @ quoted workflowId @ '': '' @ quoted dependentId @ '' node '' @ quoted (wn_id node) @
     '' must depend on prerequisite '' @ quoted prerequisiteId @ '' nodes '' @
     join_with '', '' (map (\<lambda>p. quoted (wn_id p)) prerequisiteNodes)"

definition depends_on_some :: "(string \<times> sched_node list) list \<Rightarrow> config_node \<Rightarrow> config_node list \<Rightarrow> bool" where
  "depends_on_some index node prerequisites =
     list_ex (\<lambda>p. hasReachableDependent (wn_id p) index (\<lambda>candidate. gn_id candidate = wn_id node)) prerequisites"

definition node_dependency_issues ::
  "(string \<times> string list) list \<Rightarrow> (string \<times> sched_node list) list \<Rightarrow> (string \<times> config_node list) list \<Rightarrow> string \<Rightarrow> config_node \<Rightarrow> string list" where
  "node_dependency_issues dependenciesByUnit index grouped workflowId node = (case assigned_unit node of
     None \<Rightarrow> []
   | Some dependentId \<Rightarrow> concat (map (\<lambda>prerequisiteId.
       let prerequisites = or_else (map_of grouped prerequisiteId) [] in
       if depends_on_some index node prerequisites then []
       else [missing_edge_issue workflowId dependentId node prerequisiteId prerequisites])
       (or_else (map_of dependenciesByUnit dependentId) [])))"

definition unit_dependencies :: "work_unit list \<Rightarrow> (string \<times> string list) list" where
  "unit_dependencies works = new_map (map (\<lambda>work.
     (wu_id work, filter (\<lambda>i. i \<in> wu_id ` set works) (or_else (wu_dependencies work) []))) works)"

definition workUnitDependencyIssues :: "full_config \<Rightarrow> schedule_artifact \<Rightarrow> work_unit list \<Rightarrow> schedule_failure + string list" where
  "workUnitDependencyIssues config artifact workUnits =
     (if workUnits = [] then Inr []
      else workflowNodeIssues artifact (\<lambda>index nodes workflowId.
        case filter_or_throw (isImplementationNode config) nodes of
          Inl e \<Rightarrow> Inl e
        | Inr implementing \<Rightarrow> Inr (concat (map
            (node_dependency_issues (unit_dependencies workUnits) index (nodesByAssignedWorkUnit nodes []) workflowId) implementing))))"

definition missingAssignedWorkUnitIssues :: "schedule_artifact \<Rightarrow> work_unit list \<Rightarrow> string list" where
  "missingAssignedWorkUnitIssues artifact workUnits =
     (let assigned = List.map_filter assigned_unit (allWorkflowNodes (sa_workflows artifact));
          missing = filter (\<lambda>i. i \<notin> set assigned) (map wu_id workUnits)
      in if missing \<noteq> [] then [''missing assigned backlog work units: '' @ join_with '', '' missing] else [])"

definition validateScheduleArtifact :: "full_config \<Rightarrow> schedule_artifact \<Rightarrow> planning_context \<Rightarrow> schedule_failure + unit" where
  "validateScheduleArtifact config artifact planningContext =
     (case workUnitDependencyIssues config artifact (px_workUnits planningContext) of
        Inl e \<Rightarrow> Inl e
      | Inr edgeIssues \<Rightarrow> (case implementationCoverageIssues config artifact of
          Inl e \<Rightarrow> Inl e
        | Inr coverageIssues \<Rightarrow> (case unsafeParallelWorktreeIssues config artifact of
            Inl e \<Rightarrow> Inl e
          | Inr worktreeIssues \<Rightarrow>
              let issues = generatedRootWorkflowIssues artifact @ missingAssignedWorkUnitIssues artifact (px_workUnits planningContext) @
                edgeIssues @ unsupportedGeneratedBuiltinIssues artifact @ coverageIssues @ worktreeIssues
              in if issues \<noteq> [] then Inl (invalid_schedule issues) else Inr ())))"

subsection \<open>Generation\<close>

definition normalizeSchedule ::
  "full_config \<Rightarrow> schedule_policy \<Rightarrow> generate_options \<Rightarrow> planning_context \<Rightarrow> schedule_artifact \<Rightarrow> schedule_failure + schedule_artifact" where
  "normalizeSchedule config policy options planningContext generated =
     (case addGeneratedImplementationCoverage config generated of
        Inl e \<Rightarrow> Inl e
      | Inr covered \<Rightarrow> Inr (hydrateScheduleTaskContexts
          (canonicalizeGeneratedScheduleIds (applyNodeCatalogModelFallbacks config (sp_node_catalog policy)
            (appendPullRequestDelivery (shouldAppendPullRequestDelivery config (go_pullRequestDeliveryRequested options))
              (integrateParallelWriteFanout config covered))))
          planningContext))"

definition generateScheduleArtifactInMemory ::
  "'w generation_services \<Rightarrow> full_config \<Rightarrow> generate_options \<Rightarrow> 'w \<Rightarrow> (schedule_failure + schedule_artifact) \<times> 'w" where
  "generateScheduleArtifactInMemory sv config options w =
     (let not_scheduled = ScheduleArtifactError (''entrypoint '' @ quoted (go_entrypointId options) @ '' is not a scheduled entrypoint'') in
      case map_of (fc_entrypoints config) (go_entrypointId options) of
        None \<Rightarrow> (Inl not_scheduled, w)
      | Some (WorkflowEntrypoint i) \<Rightarrow> (Inl not_scheduled, w)
      | Some (ScheduleEntrypoint schedule) \<Rightarrow> (case map_of (fc_schedules config) schedule of
          None \<Rightarrow> (Inl (ScheduleArtifactError (''schedule policy '' @ quoted schedule @ '' is not declared'')), w)
        | Some policy \<Rightarrow>
            let baseline = baselineScheduleArtifact (sp_baseline policy) (go_entrypointId options)
                  (or_else (go_generatedAt options) (gn_now sv)) (go_runId options) (go_task options);
                planningContext = schedulePlanningContext sv (go_phaseContext options) (go_task options) (go_worktreePath options)
            in (case planScheduleArtifact sv config baseline (sp_planner_profile policy) options planningContext w of
                  (Inl e, w1) \<Rightarrow> (Inl e, w1)
                | (Inr generated, w1) \<Rightarrow> (case normalizeSchedule config policy options planningContext generated of
                    Inl e \<Rightarrow> (Inl e, w1)
                  | Inr artifact \<Rightarrow> (case validateScheduleArtifact config artifact planningContext of
                      Inl e \<Rightarrow> (Inl e, w1)
                    | Inr _ \<Rightarrow> (case compileScheduleArtifact sv config artifact (Some (go_worktreePath options)) of
                        Inl e \<Rightarrow> (Inl e, w1)
                      | Inr compiled \<Rightarrow> (Inr artifact, w1)))))))"

end
