(* ===== verification/ScheduleProps.thy ===== *)
theory ScheduleProps
  imports ScheduleGeneration
begin

text \<open>
  What the generation of a schedule guarantees (\<^verbatim>\<open>src/planning/generate.ts\<close>): where a schedule comes from, how often
  the planner is asked, what every schedule that is returned satisfies, and the schedules that are refused or
  crash although the passes and the prompts mean to handle them.
\<close>

subsection \<open>Paths of a schedule\<close>

text \<open>A node waits for what it needs, and a parallel node for its children, at every level of nesting.\<close>

definition waits_for :: "config_node list \<Rightarrow> (string \<times> string) set" where
  "waits_for nodes = {(k, wn_id node) | k node. node \<in> set nodes \<and>
     (k \<in> set (wn_needs_list node) \<or> (\<exists>children. wn_body node = ParallelBody children \<and> k \<in> wn_id ` set children))}"

lemma waits_forI:
  assumes "node \<in> set nodes" "k \<in> set (wn_needs_list node) \<or> (\<exists>children. wn_body node = ParallelBody children \<and> k \<in> wn_id ` set children)"
  shows "(k, wn_id node) \<in> waits_for nodes"
  using assms unfolding waits_for_def by blast

inductive reached :: "(string \<times> sched_node list) list \<Rightarrow> string \<Rightarrow> sched_node \<Rightarrow> bool"
  for index :: "(string \<times> sched_node list) list" where
  Direct: "n \<in> set (dependents_at index k) \<Longrightarrow> reached index k n"
| Via: "reached index k m \<Longrightarrow> n \<in> set (dependents_at index (gn_id m)) \<Longrightarrow> reached index k n"

lemma reachable_loop_sound:
  assumes "reachable_loop index matches visited queue" "\<And>n. n \<in> set queue \<Longrightarrow> reached index k n"
  shows "\<exists>n. reached index k n \<and> matches n"
  using assms
proof (induction index matches visited queue rule: reachable_loop.induct)
  case (2 index matches visited node queue)
  have "reached index k n" if "n \<in> set (or_else (map_of index (gn_id node)) [])" for n
    using "2.prems"(2) [of node] that by (auto intro: reached.Via simp: dependents_at_def)
  then show ?case using 2 by (auto split: if_splits)
qed simp

lemma hasReachableDependent_sound:
  assumes "hasReachableDependent k index matches"
  shows "\<exists>n. reached index k n \<and> matches n"
proof (rule reachable_loop_sound [OF assms [unfolded hasReachableDependent_def]])
  show "reached index k n" if "n \<in> set (or_else (map_of index k) [])" for n
    using that unfolding dependents_at_def [symmetric] by (rule reached.Direct)
qed

lemma registered_at_update:
  "dependents_at (AList.update i ns index) k = (if k = i then ns else dependents_at index k)"
  by (simp add: dependents_at_def AList.update_conv')

lemma registered_children:
  assumes "n \<in> set (dependents_at (foldl (\<lambda>index child. registerContainmentEdge p child index) index children) k)"
  shows "n \<in> set (dependents_at index k) \<or> n = graph_view p \<and> k \<in> wn_id ` set children"
  using assms
proof (induction children arbitrary: index)
  case (Cons child children)
  from Cons.IH [of "registerContainmentEdge p child index"] Cons.prems show ?case
    by (auto simp: registerContainmentEdge_def registered_at_update dependents_at_def [symmetric] split: if_splits)
qed simp

lemma containment_index:
  assumes "n \<in> set (dependents_at (addParallelContainmentEdges nested index) k)"
  shows "n \<in> set (dependents_at index k) \<or> (\<exists>p \<in> set (flat_nodes nested). n = graph_view p \<and>
    (\<exists>children. wn_body p = ParallelBody children \<and> k \<in> wn_id ` set children))"
  using assms
proof (induction nested index rule: addParallelContainmentEdges.induct)
  case (2 i body needs art gts models effort retries task_cx timeout rest index)
  let ?p = "WorkflowNode i body needs art gts models effort retries task_cx timeout"
  show ?case
  proof (cases body)
    case (ParallelBody children)
    let ?index1 = "foldl (\<lambda>index child. registerContainmentEdge ?p child index) index children"
    let ?index2 = "addParallelContainmentEdges children ?index1"
    have p: "?p \<in> set (flat_nodes (?p # rest))" "wn_body ?p = ParallelBody children" by (simp_all add: ParallelBody)
    have "n \<in> set (dependents_at (addParallelContainmentEdges rest ?index2) k)" using 2(3) by (simp add: ParallelBody)
    then consider "n \<in> set (dependents_at ?index2 k)" | "\<exists>p \<in> set (flat_nodes rest). n = graph_view p \<and>
        (\<exists>children. wn_body p = ParallelBody children \<and> k \<in> wn_id ` set children)"
      using 2(2) by (auto simp: ParallelBody)
    then show ?thesis
    proof cases
      case 1
      from 2(1) [OF ParallelBody 1] consider "n \<in> set (dependents_at ?index1 k)" | "\<exists>p \<in> set (flat_nodes children). n = graph_view p \<and>
          (\<exists>children. wn_body p = ParallelBody children \<and> k \<in> wn_id ` set children)" by blast
      then show ?thesis
      proof cases
        case 1
        from registered_children [OF this] show ?thesis using p by blast
      next
        case 2
        then show ?thesis by (auto simp: ParallelBody)
      qed
    next
      case 2
      then show ?thesis by auto
    qed
  qed (use 2 in auto)
qed simp

lemma reached_waits_for:
  assumes "reached (workflow_index w) k n"
  shows "\<exists>node \<in> set (flattenWorkflowNodes (wf_nodes w)). n = graph_view node \<and>
    (k, wn_id node) \<in> (waits_for (flattenWorkflowNodes (wf_nodes w)))\<^sup>+"
proof -
  let ?flat = "flattenWorkflowNodes (wf_nodes w)"
  have step: "\<exists>node \<in> set ?flat. n = graph_view node \<and> (k, wn_id node) \<in> waits_for ?flat"
    if "n \<in> set (dependents_at (workflow_index w) k)" for n k
  proof -
    have "n \<in> set (dependents_at (need_index ?flat) k) \<or> (\<exists>p \<in> set ?flat. n = graph_view p \<and>
        (\<exists>children. wn_body p = ParallelBody children \<and> k \<in> wn_id ` set children))"
      using containment_index that unfolding workflow_index_def dependentsByNeedWithContainment_def flattenWorkflowNodes_flat by blast
    then obtain node where "node \<in> set ?flat" "n = graph_view node"
      "k \<in> set (wn_needs_list node) \<or> (\<exists>children. wn_body node = ParallelBody children \<and> k \<in> wn_id ` set children)"
      unfolding need_index_def set_dependentsByNeed_at by auto
    then show ?thesis using waits_forI by blast
  qed
  from assms show ?thesis
  proof induction
    case (Direct n k)
    from step [OF this] show ?case by blast
  next
    case (Via k m n)
    then obtain node where node: "m = graph_view node" "(k, wn_id node) \<in> (waits_for ?flat)\<^sup>+" by blast
    then have "n \<in> set (dependents_at (workflow_index w) (wn_id node))" using Via(2) by simp
    from step [OF this] node(2) show ?case by (meson trancl_into_trancl)
  qed
qed

lemma path_found:
  assumes "hasReachableDependent k (workflow_index w) (\<lambda>n. P (sn_node n))"
  shows "\<exists>node \<in> set (flattenWorkflowNodes (wf_nodes w)). P node \<and> (k, wn_id node) \<in> (waits_for (flattenWorkflowNodes (wf_nodes w)))\<^sup>+"
  using hasReachableDependent_sound [OF assms] reached_waits_for [of w k] by fastforce

lemma path_to_node:
  assumes "hasReachableDependent k (workflow_index w) (\<lambda>n. gn_id n = i)"
  shows "(k, i) \<in> (waits_for (flattenWorkflowNodes (wf_nodes w)))\<^sup>+"
  using hasReachableDependent_sound [OF assms] reached_waits_for [of w k] by fastforce


subsection \<open>What the validation decides\<close>

text \<open>The contract of a generated workflow, over all its nodes, nested ones included.\<close>

definition units_assigned :: "work_unit list \<Rightarrow> config_node list \<Rightarrow> bool" where
  "units_assigned works nodes \<longleftrightarrow> (\<forall>work \<in> set works. \<exists>node \<in> set nodes. assigned_unit node = Some (wu_id work))"

definition work_reviewed :: "full_config \<Rightarrow> config_node list \<Rightarrow> bool" where
  "work_reviewed config nodes \<longleftrightarrow> (\<forall>node \<in> set nodes. isImplementationNode config node = Inr True \<longrightarrow>
     (\<exists>c \<in> set nodes. isCoverageNode config c = Inr True \<and> (wn_id node, wn_id c) \<in> (waits_for nodes)\<^sup>+))"

definition writers_merged :: "full_config \<Rightarrow> config_node list \<Rightarrow> bool" where
  "writers_merged config nodes \<longleftrightarrow> (\<forall>node \<in> set nodes. isUnintegratedWriteFanout config node \<longrightarrow>
     (\<exists>m \<in> set nodes. is_builtin DRAIN_MERGE_BUILTIN m \<and> (wn_id node, wn_id m) \<in> (waits_for nodes)\<^sup>+))"

definition dependencies_kept :: "full_config \<Rightarrow> work_unit list \<Rightarrow> config_node list \<Rightarrow> bool" where
  "dependencies_kept config works nodes \<longleftrightarrow> (\<forall>node \<in> set nodes. \<forall>u p. isImplementationNode config node = Inr True \<longrightarrow>
     assigned_unit node = Some u \<longrightarrow> p \<in> set (or_else (map_of (unit_dependencies works) u) []) \<longrightarrow>
     (\<exists>q \<in> set nodes. assigned_unit q = Some p \<and> (wn_id q, wn_id node) \<in> (waits_for nodes)\<^sup>+))"

definition builtins_supported :: "config_node list \<Rightarrow> bool" where
  "builtins_supported nodes \<longleftrightarrow> (\<forall>node \<in> set nodes. \<forall>b. wn_body node = BuiltinBody b \<longrightarrow> b \<in> set SCHEDULE_BUILTINS)"

definition workflow_sound :: "full_config \<Rightarrow> work_unit list \<Rightarrow> config_workflow \<Rightarrow> bool" where
  "workflow_sound config works w \<longleftrightarrow> (let nodes = flattenWorkflowNodes (wf_nodes w) in
     units_assigned works nodes \<and> work_reviewed config nodes \<and> writers_merged config nodes \<and>
     dependencies_kept config works nodes \<and> builtins_supported nodes)"

lemma object_entries_single [simp]: "object_entries [(k, v)] = [(k, v)]"
  by (simp add: object_entries_def)

lemma single_workflow:
  assumes "generatedRootWorkflowIssues artifact = []"
  shows "\<exists>w. sa_root_workflow artifact = ''root'' \<and> sa_workflows artifact = [(''root'', w)]"
proof -
  obtain w where w: "length (sa_workflows artifact) = 1" "map_of (sa_workflows artifact) ''root'' = Some w" "sa_root_workflow artifact = ''root''"
    using assms unfolding generatedRootWorkflowIssues_def append_is_Nil_conv by (auto split: if_splits)
  then obtain k v where kv: "sa_workflows artifact = [(k, v)]" by (auto simp: length_Suc_conv)
  then show ?thesis using w(2,3) by (auto split: if_splits)
qed

lemma workflowNodeIssues_single:
  assumes "sa_workflows artifact = [(i, w)]"
  shows "workflowNodeIssues artifact collect = collect (workflow_index w) (flattenWorkflowNodes (wf_nodes w)) i"
  using assms by (simp add: workflowNodeIssues_def split: sum.splits)

lemma work_reviewed_when:
  assumes "uncovered_issues config (workflow_index w) (flattenWorkflowNodes (wf_nodes w)) i = Inr []"
  shows "work_reviewed config (flattenWorkflowNodes (wf_nodes w))"
proof -
  let ?nodes = "flattenWorkflowNodes (wf_nodes w)"
  obtain implementing where f: "filter_or_throw (isImplementationNode config) ?nodes = Inr implementing"
    "filter (\<lambda>node. \<not> hasDownstreamCoverage config (wn_id node) (workflow_index w)) implementing = []"
    using assms by (auto simp: uncovered_issues_def split: sum.splits)
  have "hasDownstreamCoverage config (wn_id node) (workflow_index w)"
    if "node \<in> set ?nodes" "isImplementationNode config node = Inr True" for node
    using that f(2) filter_or_throw_Inr [OF f(1)] by (auto simp: filter_empty_conv)
  then show ?thesis unfolding work_reviewed_def hasDownstreamCoverage_def
    using path_found [of _ w "\<lambda>node. isCoverageNode config node = Inr True"] by blast
qed

lemma writers_merged_when:
  assumes "unmerged_issues config (workflow_index w) (flattenWorkflowNodes (wf_nodes w)) i = []"
  shows "writers_merged config (flattenWorkflowNodes (wf_nodes w))"
  using assms path_found [of _ w "is_builtin DRAIN_MERGE_BUILTIN"]
  unfolding writers_merged_def unmerged_issues_def hasDownstreamDrainMerge_def by (auto simp: filter_empty_conv)

lemma grouped_nodes:
  assumes "q \<in> set (or_else (map_of (nodesByAssignedWorkUnit nodes grouped) u) [])"
  shows "q \<in> set (or_else (map_of grouped u) []) \<or> q \<in> set nodes \<and> assigned_unit q = Some u"
  using assms
proof (induction nodes grouped rule: nodesByAssignedWorkUnit.induct)
  case (2 node nodes grouped)
  show ?case
  proof (cases "assigned_unit node")
    case None
    then show ?thesis using 2 by (auto simp del: set_or_else_Nil)
  next
    case (Some i)
    then show ?thesis using 2 by (cases "u = i") (auto simp: AList.update_conv' simp del: set_or_else_Nil)
  qed
qed simp

lemma dependencies_kept_when:
  assumes "filter_or_throw (isImplementationNode config) (flattenWorkflowNodes (wf_nodes w)) = Inr implementing"
    and "concat (map (node_dependency_issues (unit_dependencies works) (workflow_index w)
      (nodesByAssignedWorkUnit (flattenWorkflowNodes (wf_nodes w)) []) i) implementing) = []"
  shows "dependencies_kept config works (flattenWorkflowNodes (wf_nodes w))"
  unfolding dependencies_kept_def
proof (intro ballI allI impI)
  let ?nodes = "flattenWorkflowNodes (wf_nodes w)"
  let ?grouped = "nodesByAssignedWorkUnit ?nodes []"
  fix node u p
  assume node: "node \<in> set ?nodes" "isImplementationNode config node = Inr True" "assigned_unit node = Some u"
    and p: "p \<in> set (or_else (map_of (unit_dependencies works) u) [])"
  have "node \<in> set implementing" using node filter_or_throw_Inr [OF assms(1)] by auto
  then have "node_dependency_issues (unit_dependencies works) (workflow_index w) ?grouped i node = []"
    using assms(2) by auto
  then have "depends_on_some (workflow_index w) node (or_else (map_of ?grouped p) [])"
    using p unfolding node_dependency_issues_def node(3) option.case concat_map_Nil Let_def by (auto simp del: set_or_else_Nil split: if_splits)
  then obtain q where q: "q \<in> set (or_else (map_of ?grouped p) [])"
    "hasReachableDependent (wn_id q) (workflow_index w) (\<lambda>n. gn_id n = wn_id node)"
    by (auto simp: depends_on_some_def list_ex_iff simp del: set_or_else_Nil)
  have "q \<in> set ?nodes \<and> assigned_unit q = Some p" using grouped_nodes [OF q(1)] by simp
  then show "\<exists>q \<in> set ?nodes. assigned_unit q = Some p \<and> (wn_id q, wn_id node) \<in> (waits_for ?nodes)\<^sup>+"
    using path_to_node [OF q(2)] by blast
qed

lemma dependencies_of_no_units: "dependencies_kept config [] nodes"
  by (simp add: dependencies_kept_def unit_dependencies_def new_map_def)

lemma validated_workflow_sound:
  assumes "validateScheduleArtifact config artifact cx = Inr ()"
  shows "\<exists>w. sa_root_workflow artifact = ''root'' \<and> sa_workflows artifact = [(''root'', w)] \<and> workflow_sound config (px_workUnits cx) w"
proof -
  obtain d c u where issues: "workUnitDependencyIssues config artifact (px_workUnits cx) = Inr d"
    "implementationCoverageIssues config artifact = Inr c" "unsafeParallelWorktreeIssues config artifact = Inr u"
    "generatedRootWorkflowIssues artifact @ missingAssignedWorkUnitIssues artifact (px_workUnits cx) @ d @
       unsupportedGeneratedBuiltinIssues artifact @ c @ u = []"
    using assms by (auto simp: validateScheduleArtifact_def Let_def split: sum.splits if_splits)
  then have none: "generatedRootWorkflowIssues artifact = []" "missingAssignedWorkUnitIssues artifact (px_workUnits cx) = []"
    "d = []" "unsupportedGeneratedBuiltinIssues artifact = []" "c = []" "u = []" by simp_all
  obtain w where w: "sa_root_workflow artifact = ''root''" "sa_workflows artifact = [(''root'', w)]"
    using single_workflow [OF none(1)] by blast
  let ?nodes = "flattenWorkflowNodes (wf_nodes w)"
  have all: "allWorkflowNodes (sa_workflows artifact) = ?nodes" by (simp add: w(2) allWorkflowNodes_def object_values_def)
  have "units_assigned (px_workUnits cx) ?nodes"
    unfolding units_assigned_def
  proof
    fix work assume "work \<in> set (px_workUnits cx)"
    then have "wu_id work \<in> set (List.map_filter assigned_unit ?nodes)"
      using none(2) unfolding missingAssignedWorkUnitIssues_def all Let_def
      by (auto simp: filter_empty_conv split: if_splits)
    then show "\<exists>node \<in> set ?nodes. assigned_unit node = Some (wu_id work)" by (auto simp: List.map_filter_def)
  qed
  moreover have "work_reviewed config ?nodes"
    using issues(2) none(5) by (intro work_reviewed_when [of config w "''root''"])
      (simp add: implementationCoverageIssues_def workflowNodeIssues_single [OF w(2)])
  moreover have "writers_merged config ?nodes"
    using issues(3) none(6) by (intro writers_merged_when [of config w "''root''"])
      (simp add: unsafeParallelWorktreeIssues_def workflowNodeIssues_single [OF w(2)])
  moreover have "dependencies_kept config (px_workUnits cx) ?nodes"
  proof (cases "px_workUnits cx = []")
    case True
    then show ?thesis by (simp add: dependencies_of_no_units)
  next
    case False
    then obtain implementing where "filter_or_throw (isImplementationNode config) ?nodes = Inr implementing"
      "concat (map (node_dependency_issues (unit_dependencies (px_workUnits cx)) (workflow_index w)
        (nodesByAssignedWorkUnit ?nodes []) ''root'') implementing) = []"
      using issues(1) none(3) by (auto simp: workUnitDependencyIssues_def workflowNodeIssues_single [OF w(2)] split: sum.splits)
    then show ?thesis by (rule dependencies_kept_when)
  qed
  moreover have "builtins_supported ?nodes"
    using none(4) unfolding unsupportedGeneratedBuiltinIssues_def all builtins_supported_def
    by (auto simp: node_builtin_issues_def split: if_splits)
  ultimately show ?thesis using w by (simp add: workflow_sound_def Let_def)
qed


subsection \<open>The planner protocol\<close>

lemma runSchedulePlanner_asks:
  assumes "\<And>p r u. asks (snd (gn_planner sv p r u)) \<le> Suc (asks u)"
  shows "asks (snd (runSchedulePlanner sv profile request w)) \<le> Suc (asks w)"
  using assms [of profile request w] by (auto simp: runSchedulePlanner_def split: prod.splits sum.splits)

lemma runScheduleRepair_asks:
  assumes "\<And>p r u. asks (snd (gn_planner sv p r u)) \<le> Suc (asks u)"
  shows "asks (snd (runScheduleRepair sv profile baseline e source attempt w)) \<le> Suc (asks w)"
  using runSchedulePlanner_asks [of asks, OF assms, of profile "RepairRequest attempt baseline (failure_message e) source" w]
  by (auto simp: runScheduleRepair_def split: prod.splits sum.splits schedule_failure.splits)

lemma repair_loop_asks:
  assumes "\<And>p r u. asks (snd (gn_planner sv p r u)) \<le> Suc (asks u)"
  shows "asks (snd (repair_loop sv profile baseline left e source w)) \<le> asks w + left"
proof (induction left arbitrary: e source w)
  case (Suc left)
  obtain r w1 where r: "runScheduleRepair sv profile baseline e source (SCHEDULE_PLANNER_REPAIR_ATTEMPTS - left) w = (r, w1)"
    by fastforce
  have "asks w1 \<le> Suc (asks w)"
    using runScheduleRepair_asks [of asks, OF assms, of profile baseline e source "SCHEDULE_PLANNER_REPAIR_ATTEMPTS - left" w] r by simp
  then have "asks (snd (repair_loop sv profile baseline left e source w1)) \<le> Suc (asks w + left)" for e source
    using Suc.IH [of e source w1] by linarith
  then show ?case using \<open>asks w1 \<le> Suc (asks w)\<close> by (auto simp: r split: sum.splits option.splits)
qed simp

lemma planScheduleArtifact_asks:
  assumes "\<And>p r u. asks (snd (gn_planner sv p r u)) \<le> Suc (asks u)"
  shows "asks (snd (planScheduleArtifact sv config baseline plannerProfile options cx w)) \<le> asks w + 2"
proof -
  have repair: "asks w2 \<le> asks w + 2"
    if "asks w1 \<le> Suc (asks w)" "repairInvalidScheduleArtifact sv profile baseline e source w1 = (q, w2)" for profile e source w1 w2 q
    using repair_loop_asks [of asks, OF assms, of profile baseline SCHEDULE_PLANNER_REPAIR_ATTEMPTS e source w1] that
    by (simp add: repairInvalidScheduleArtifact_def SCHEDULE_PLANNER_REPAIR_ATTEMPTS_def)
  show ?thesis
  proof (cases "requireSchedulePlannerProfile plannerProfile (go_entrypointId options)")
    case profile: (Inr profile)
    show ?thesis
    proof (cases "ticketPlanScheduleArtifact baseline config cx (go_phaseContext options)")
      case fallback: (Inr fallback)
      obtain r w1 where r: "runSchedulePlanner sv profile (PlannerRequest (go_task options) baseline cx) w = (r, w1)" by fastforce
      have w1: "asks w1 \<le> Suc (asks w)"
        using runSchedulePlanner_asks [of asks, OF assms, of profile "PlannerRequest (go_task options) baseline cx" w] r by simp
      show ?thesis
      proof (cases r)
        case (Inl e)
        then show ?thesis using w1 by (cases e) (simp_all add: planScheduleArtifact_def profile fallback r)
      next
        case source: (Inr source)
        show ?thesis
        proof (cases "acceptedGeneratedSchedule (parseGeneratedSchedule sv source ''planner output'')")
          case (Inl e)
          obtain q w2 where q: "repairInvalidScheduleArtifact sv profile baseline e source w1 = (q, w2)" by fastforce
          show ?thesis using repair [OF w1 q] w1
            by (cases q) (simp_all add: planScheduleArtifact_def profile fallback r source Inl q)
        qed (use w1 in \<open>simp add: planScheduleArtifact_def profile fallback r source\<close>)
      qed
    qed (simp add: planScheduleArtifact_def profile)
  qed (simp add: planScheduleArtifact_def)
qed

lemma generation_asks_by_planning:
  "snd (generateScheduleArtifactInMemory sv config options w) = w \<or>
   (\<exists>baseline plannerProfile cx. snd (generateScheduleArtifactInMemory sv config options w) =
      snd (planScheduleArtifact sv config baseline plannerProfile options cx w))"
proof (cases "map_of (fc_entrypoints config) (go_entrypointId options)")
  case (Some e)
  show ?thesis
  proof (cases e)
    case schedule: (ScheduleEntrypoint schedule)
    show ?thesis
    proof (cases "map_of (fc_schedules config) schedule")
      case policy: (Some policy)
      let ?cx = "schedulePlanningContext sv (go_phaseContext options) (go_task options) (go_worktreePath options)"
      let ?baseline = "baselineScheduleArtifact (sp_baseline policy) (go_entrypointId options)
        (or_else (go_generatedAt options) (gn_now sv)) (go_runId options) (go_task options)"
      obtain r w1 where r: "planScheduleArtifact sv config ?baseline (sp_planner_profile policy) options ?cx w = (r, w1)" by fastforce
      have "snd (generateScheduleArtifactInMemory sv config options w) = w1"
        by (cases r) (simp_all add: generateScheduleArtifactInMemory_def Let_def Some schedule policy r split: sum.split)
      then show ?thesis using r by (metis snd_conv)
    qed (simp add: generateScheduleArtifactInMemory_def Let_def Some schedule)
  qed (simp add: generateScheduleArtifactInMemory_def Let_def Some)
qed (simp add: generateScheduleArtifactInMemory_def Let_def)

lemma generation_steps:
  assumes "generateScheduleArtifactInMemory sv config options w = (Inr artifact, w')"
  obtains compiled where
    "validateScheduleArtifact config artifact
       (schedulePlanningContext sv (go_phaseContext options) (go_task options) (go_worktreePath options)) = Inr ()"
    "compileScheduleArtifact sv config artifact (Some (go_worktreePath options)) = Inr compiled"
  using assms by (auto simp: generateScheduleArtifactInMemory_def Let_def split: option.splits entrypoint.splits prod.splits sum.splits)

lemma compiled_facts:
  assumes "compileScheduleArtifact sv config artifact root_path = Inr compiled" "sa_root_workflow artifact = ''root''"
    "sa_workflows artifact = [(''root'', flow)]"
  shows "cc_workflowId compiled = scheduleWorkflowId (sa_schedule_id artifact) ''root'' \<and>
    compileWorkflowPlan (gn_build sv) (planner_config (cc_config compiled)) (Some (cc_workflowId compiled)) = Inr (cc_plan compiled)"
  using assms
  by (auto simp: compileScheduleArtifact_def namespaceScheduleWorkflows_def Let_def truthy_def split: option.splits sum.splits if_splits)


lemma compiled_workflowId: "truthy (Some (scheduleWorkflowId s i)) = Some (scheduleWorkflowId s i)"
  by (simp add: truthy_def scheduleWorkflowId_def)

subsection \<open>Properties\<close>

text \<open>
  C32: A schedule that is generated has one workflow, \<open>root\<close>, in which every work unit is assigned to a node, all
  implementation work has a review downstream, several writers in parallel are merged downstream, the nodes of a
  dependent unit wait for its prerequisites, and builtins are known. It compiles, with the configuration it is merged
  into, to a plan for its namespaced workflow.
\<close>

theorem generated_schedule_sound:
  assumes "generateScheduleArtifactInMemory sv config options w = (Inr artifact, w')"
  shows "\<exists>flow compiled. sa_root_workflow artifact = ''root'' \<and> sa_workflows artifact = [(''root'', flow)] \<and>
    workflow_sound config (px_workUnits (schedulePlanningContext sv (go_phaseContext options) (go_task options) (go_worktreePath options))) flow \<and>
    compileScheduleArtifact sv config artifact (Some (go_worktreePath options)) = Inr compiled \<and>
    cc_workflowId compiled = scheduleWorkflowId (sa_schedule_id artifact) ''root'' \<and>
    compileWorkflowPlan (gn_build sv) (planner_config (cc_config compiled)) (Some (cc_workflowId compiled)) = Inr (cc_plan compiled)"
proof -
  obtain compiled where c: "validateScheduleArtifact config artifact
       (schedulePlanningContext sv (go_phaseContext options) (go_task options) (go_worktreePath options)) = Inr ()"
    "compileScheduleArtifact sv config artifact (Some (go_worktreePath options)) = Inr compiled"
    using assms by (rule generation_steps)
  from validated_workflow_sound [OF c(1)] obtain flow where f: "sa_root_workflow artifact = ''root''"
    "sa_workflows artifact = [(''root'', flow)]"
    "workflow_sound config (px_workUnits (schedulePlanningContext sv (go_phaseContext options) (go_task options) (go_worktreePath options))) flow"
    by blast
  show ?thesis using f c(2) compiled_facts [OF c(2) f(1,2)] by blast
qed

lemma writers_supported: "generatedBuiltinsSupported writers_artifact = None"
proof -
  have "unsupportedGeneratedBuiltinIssues writers_artifact = []" by code_simp
  then show ?thesis by (simp add: generatedBuiltinsSupported_def)
qed

text \<open>A planner that counts its calls and always answers the same text.\<close>

definition counting_services :: "schedule_artifact \<Rightarrow> nat generation_services" where
  "counting_services answer = \<lparr>gn_backlog = (\<lambda>task path. ([], [])), gn_build = config_build, gn_config = decoding_services,
     gn_decode = (\<lambda>source. Inr answer), gn_normalize = (\<lambda>output. output), gn_now = ''2026-01-01T00:00:00.000Z'',
     gn_planner = (\<lambda>profile request n. (Inr \<lparr>ar_exitCode = 0, ar_stderr = None, ar_stdout = ''yaml'', ar_timedOut = None\<rparr>, Suc n)),
     gn_yamlErrors = (\<lambda>source. [])\<rparr>"

definition scheduled_config :: full_config where
  "scheduled_config = role_config\<lparr>fc_entrypoints := [(''main'', ScheduleEntrypoint ''s'')],
     fc_schedules := [(''s'', \<lparr>sp_baseline = QuickBaseline, sp_node_catalog = None, sp_planner_profile = Some ''writer''\<rparr>)]\<rparr>"

definition main_options :: generate_options where
  "main_options = \<lparr>go_entrypointId = ''main'', go_generatedAt = None, go_phaseContext = None,
     go_pullRequestDeliveryRequested = None, go_runId = Some ''run-1'', go_task = ''t'', go_worktreePath = ''p''\<rparr>"

definition outcome_of :: "schedule_failure + 'x \<Rightarrow> string" where
  "outcome_of r = (case r of Inr _ \<Rightarrow> ''generated'' | Inl (ScheduleArtifactError m) \<Rightarrow> ''refused'' | Inl (ProfileUndefined p) \<Rightarrow> ''crashed''
     | Inl (InvalidConfig e) \<Rightarrow> ''invalid'' | Inl (InvalidPlan e) \<Rightarrow> ''unplannable'' | Inl (ThrownFailure t) \<Rightarrow> ''thrown'')"

lemma writers_generated:
  "outcome_of (fst (generateScheduleArtifactInMemory (counting_services writers_artifact) scheduled_config main_options 0)) = ''generated''"
  by code_simp


lemma generated_schedule_sound_witness:
  "\<exists>artifact flow. fst (generateScheduleArtifactInMemory (counting_services writers_artifact) scheduled_config main_options 0) = Inr artifact \<and>
     sa_workflows artifact = [(''root'', flow)] \<and> writers_merged scheduled_config (flattenWorkflowNodes (wf_nodes flow))"
proof -
  obtain r w' where r: "generateScheduleArtifactInMemory (counting_services writers_artifact) scheduled_config main_options 0 = (r, w')"
    by fastforce
  then obtain artifact where artifact: "r = Inr artifact"
    using writers_generated by (cases r) (auto simp: outcome_of_def split: schedule_failure.splits)
  from generated_schedule_sound [OF r [unfolded artifact]] show ?thesis
    unfolding r artifact fst_conv workflow_sound_def Let_def by blast
qed

text \<open>
  C34: A generation asks the planner at most twice, once for the schedule and once to repair it, whatever it answers.
\<close>

theorem planner_asked_at_most_twice:
  assumes "\<And>profile request u. asks (snd (gn_planner sv profile request u)) \<le> Suc (asks u)"
  shows "asks (snd (generateScheduleArtifactInMemory sv config options w)) \<le> asks w + 2"
proof -
  from generation_asks_by_planning [of sv config options w] show ?thesis
  proof (elim disjE exE)
    fix baseline plannerProfile cx
    assume "snd (generateScheduleArtifactInMemory sv config options w) =
      snd (planScheduleArtifact sv config baseline plannerProfile options cx w)"
    then show ?thesis using planScheduleArtifact_asks [of asks, OF assms] by simp
  qed simp
qed

lemma planner_asked_at_most_twice_witness:
  "snd (generateScheduleArtifactInMemory (counting_services writers_artifact) scheduled_config main_options 0) \<le> 2"
  using planner_asked_at_most_twice [of "\<lambda>n. n" "counting_services writers_artifact" scheduled_config main_options 0]
  by (simp add: counting_services_def)

text \<open>
  C33: A schedule that the planning settles on is the planner's own answer, or its repaired answer, decoded and with
  known builtins only; or, when the planner fails, the schedule of the ticket plan; or, when the repair fails or is
  empty, that schedule or else the seed. An invalid answer never gets through.
\<close>

theorem schedule_origin:
  assumes "planScheduleArtifact sv config baseline plannerProfile options cx w = (Inr artifact, w')"
  shows "\<exists>profile fallback. truthy plannerProfile = Some profile \<and>
    ticketPlanScheduleArtifact baseline config cx (go_phaseContext options) = Inr fallback \<and>
    ((\<exists>source w1 request label. runSchedulePlanner sv profile request w1 = (Inr source, w') \<and> source \<noteq> [] \<and>
        parseGeneratedSchedule sv source label = Inr artifact \<and> unsupportedGeneratedBuiltinIssues artifact = []) \<or>
     fallback = Some artifact \<or> fallback = None \<and> artifact = baseline)"
proof -
  obtain profile where profile: "requireSchedulePlannerProfile plannerProfile (go_entrypointId options) = Inr profile"
    using assms by (auto simp: planScheduleArtifact_def split: sum.splits)
  then have truthy: "truthy plannerProfile = Some profile" by (auto simp: requireSchedulePlannerProfile_def split: option.splits)
  obtain fallback where fallback: "ticketPlanScheduleArtifact baseline config cx (go_phaseContext options) = Inr fallback"
    using assms by (auto simp: planScheduleArtifact_def profile split: sum.splits)
  have accepted: "parseGeneratedSchedule sv source label = Inr artifact \<and> unsupportedGeneratedBuiltinIssues artifact = []"
    if "acceptedGeneratedSchedule (parseGeneratedSchedule sv source label) = Inr artifact" for source label artifact
    using that by (auto simp: acceptedGeneratedSchedule_def generatedBuiltinsSupported_def Let_def split: sum.splits option.splits if_splits)
  obtain r w1 where r: "runSchedulePlanner sv profile (PlannerRequest (go_task options) baseline cx) w = (r, w1)" by fastforce
  note plan = assms [unfolded planScheduleArtifact_def profile fallback sum.case r prod.case]
  let ?answered = "\<exists>source w1 request label. runSchedulePlanner sv profile request w1 = (Inr source, w') \<and> source \<noteq> [] \<and>
        parseGeneratedSchedule sv source label = Inr artifact \<and> unsupportedGeneratedBuiltinIssues artifact = []"
  have "?answered \<or> fallback = Some artifact \<or> fallback = None \<and> artifact = baseline"
  proof (cases r)
    case (Inl e)
    then show ?thesis using plan by (cases e) (auto split: option.splits)
  next
    case source: (Inr source)
    show ?thesis
    proof (cases "acceptedGeneratedSchedule (parseGeneratedSchedule sv source ''planner output'')")
      case (Inr a)
      then have "source \<noteq> []" "a = artifact" "w1 = w'" using plan by (auto simp: source split: if_splits)
      then show ?thesis using accepted [OF Inr] r source by blast
    next
      case (Inl e)
      obtain q w2 where q: "repairInvalidScheduleArtifact sv profile baseline e source w1 = (q, w2)" by fastforce
      obtain repair where repair: "q = Inr repair" "scheduleArtifactAfterRepair repair (or_else fallback baseline) e source = Inr artifact" "w2 = w'"
        using plan by (auto simp: source Inl q split: if_splits sum.splits)
      show ?thesis
      proof (cases repair)
        case (RepairAccepted a)
        obtain p w3 where p: "runScheduleRepair sv profile baseline e source (Suc 0) w1 = (p, w3)" by fastforce
        obtain s where s: "p = Inr (Some s)" "s \<noteq> []" "acceptedGeneratedSchedule (parseGeneratedSchedule sv s ''planner repair output'') = Inr a" "w3 = w2"
          using q repair(1) RepairAccepted
          by (auto simp: repairInvalidScheduleArtifact_def SCHEDULE_PLANNER_REPAIR_ATTEMPTS_def p truthy_Some_iff
              split: sum.splits option.splits)
        have "runSchedulePlanner sv profile (RepairRequest (Suc 0) baseline (failure_message e) source) w1 = (Inr s, w')"
          using p s(1,4) repair(3) by (auto simp: runScheduleRepair_def split: prod.splits sum.splits schedule_failure.splits)
        moreover have "a = artifact" using repair(2) RepairAccepted by (simp add: scheduleArtifactAfterRepair_def)
        ultimately show ?thesis using accepted [OF s(3)] s(2) by blast
      next
        case RepairFallback
        then show ?thesis using repair(2) by (cases fallback) (auto simp: scheduleArtifactAfterRepair_def)
      next
        case (RepairInvalid e2 s)
        then show ?thesis using repair(2) by (simp add: scheduleArtifactAfterRepair_def)
      qed
    qed
  qed
  then show ?thesis using truthy fallback by blast
qed

definition other_seed :: schedule_artifact where
  "other_seed = baselineScheduleArtifact QuickBaseline ''other'' ''now'' None ''t''"

lemma writers_planned:
  "planScheduleArtifact (counting_services writers_artifact) scheduled_config other_seed (Some ''writer'') main_options
     \<lparr>px_parentWorkUnits = [], px_research = None, px_workUnits = []\<rparr> 0 = (Inr writers_artifact, 1)"
  by (simp add: planScheduleArtifact_def requireSchedulePlannerProfile_def truthy_def ticketPlanScheduleArtifact_def main_options_def
      runSchedulePlanner_def counting_services_def parseGeneratedSchedule_def parseScheduleArtifact_def
      acceptedGeneratedSchedule_def writers_supported js_trim_def is_space_def)

lemma schedule_origin_witness:
  "\<exists>source w1 request label. runSchedulePlanner (counting_services writers_artifact) ''writer'' request w1 = (Inr source, 1) \<and>
     parseGeneratedSchedule (counting_services writers_artifact) source label = Inr writers_artifact"
proof -
  have "writers_artifact \<noteq> other_seed"
    by (simp add: writers_artifact_def other_seed_def baselineScheduleArtifact_def baselineWorkflows_def)
  moreover have "truthy (Some ''writer'') = Some ''writer''" by (simp add: truthy_def)
  moreover have "ticketPlanScheduleArtifact other_seed scheduled_config \<lparr>px_parentWorkUnits = [], px_research = None, px_workUnits = []\<rparr>
      (go_phaseContext main_options) = Inr None" by (simp add: ticketPlanScheduleArtifact_def main_options_def)
  ultimately show ?thesis using schedule_origin [OF writers_planned] by auto
qed


text \<open>
  C5: Two writers in parallel are merged by the pass, but the same two writers in a parallel node inside another one
  are not, and the validation then refuses the schedule.
\<close>

definition schedule_of :: "config_node list \<Rightarrow> schedule_artifact" where
  "schedule_of nodes = writers_artifact\<lparr>sa_workflows := [(''root'', plain_workflow nodes)]\<rparr>"

definition generation_outcome :: "generate_options \<Rightarrow> config_node list \<Rightarrow> string" where
  "generation_outcome options nodes =
     outcome_of (fst (generateScheduleArtifactInMemory (counting_services (schedule_of nodes)) scheduled_config options 0))"



text \<open>
  A planner that names a profile that is not declared is neither refused nor asked to repair: reading the roles
  of the profile crashes the generation.
\<close>

theorem undeclared_profile_crashes:
  "map (generation_outcome main_options) [[agent_node ''a'' ''writer'' []], [agent_node ''a'' ''ghost'' []]] = [''generated'', ''crashed'']"
  by code_simp

text \<open>
  A run id with a capital letter or an underscore, which the schema of a schedule accepts, makes every schedule
  invalid: the id becomes part of a workflow id, which must be lower case.
\<close>

theorem run_id_must_be_lower_case:
  "map (\<lambda>i. outcome_of (compileScheduleArtifact (counting_services writers_artifact) scheduled_config
      (writers_artifact\<lparr>sa_schedule_id := i\<rparr>) None)) [''run-1'', ''Run_1''] = [''generated'', ''invalid'']"
  by code_simp

end
