(* ===== verification/Spec2Isabelle.thy ===== *)
theory Spec2Isabelle
  imports Plan SchedulerRuns Remediation GoalEvidence GoalLoop WorkflowRun ControllerDeps ArgoPoll ArgoGraph Adjudication ParallelNode TicketPlans EventSink ScheduleProps
begin

text \<open>
  A verification development of the pipeline runner (\<^verbatim>\<open>@oisincoveney/pipeline\<close>, the \<open>moka\<close> command). All
  paths below are under \<^verbatim>\<open>src/src/\<close>.

  \<^bold>\<open>The program and its model.\<close> A run compiles a declared workflow into a plan, schedules the nodes of
  the plan, executes each node with retries, gates and remediation, keeps a journal it can resume from,
  and derives a goal state from the events it emits. Around it the loop controller works through a
  backlog of tickets, one run and one pull request per ticket.

  \<^enum> Dependency graphs (\<^verbatim>\<open>planning/graph.ts\<close>): \<open>Graph\<close> (flattening, downstream search), \<open>Cycles\<close> (cycle
    search), \<open>Toposort\<close> (graph construction, iterative topological sort), \<open>Batches\<close>. The graph library is
    a parameter with the contract \<open>graphlib_spec\<close>; \<open>Graphlib\<close> is a graph that satisfies it.
  \<^enum> The planner (\<^verbatim>\<open>planning/compile.ts\<close>, \<^verbatim>\<open>config/schemas.ts\<close>): \<open>Plan\<close>.
  \<^enum> The scheduler (\<^verbatim>\<open>runtime/scheduler.ts\<close>): \<open>Scheduler\<close> (every operation), \<open>SchedulerSafety\<close> (the
    invariant of a tick), \<open>SchedulerRuns\<close> (the step relation of the ticks, runs, outcomes, crashes and
    resumption). Fibers and the completion queue are the environment of the step relation.
  \<^enum> Durability (\<^verbatim>\<open>runtime/durable-store\<close>, \<^verbatim>\<open>runtime/run-journal.ts\<close>, \<^verbatim>\<open>runtime/step/step-node.ts\<close>):
    \<open>DurableStore\<close>, with the interfaces \<open>durable_store\<close> and \<open>run_journal\<close> interpreted on the code's models.
  \<^enum> Nodes: \<open>Contracts\<close> (\<^verbatim>\<open>runtime/contracts\<close>), \<open>NodeState\<close> (\<^verbatim>\<open>runtime/node-state-tracker.ts\<close>), \<open>NodeStore\<close>
    and \<open>Postorder\<close> (\<^verbatim>\<open>runtime/node-state-store.ts\<close>, \<^verbatim>\<open>runtime/scheduled-dependencies.ts\<close>), \<open>Retry\<close>
    (\<^verbatim>\<open>runtime/retry.ts\<close>), \<open>NodeRun\<close> (the effects of node execution), \<open>NodeExecution\<close>
    (\<^verbatim>\<open>runtime/node-execution.ts\<close>), \<open>NodeProtocol\<close> (a small Hoare logic between executor and state machine)
    and \<open>Remediation\<close> (\<^verbatim>\<open>runtime/remediation\<close>, and the executor tied to it).
  \<^enum> The execution graph submitted to Argo (\<^verbatim>\<open>argo-graph.ts\<close>, \<^verbatim>\<open>planning/dependency-refs.ts\<close>): \<open>ArgoGraph\<close>.
  \<^enum> Gates: \<open>JsonValidation\<close> (\<^verbatim>\<open>runtime/json-validation\<close>, \<^verbatim>\<open>safe-json.ts\<close>), \<open>ChangedFiles\<close>
    (\<^verbatim>\<open>runtime/changed-files\<close>), \<open>Gates\<close> (\<^verbatim>\<open>runtime/gates\<close>: the kinds, the registry, the loop), \<open>GateRuns\<close> (the gates
    of a node as the executor calls them, and what its passing means), \<open>Adjudication\<close> (\<^verbatim>\<open>runtime/gates/adjudication\<close>,
    \<^verbatim>\<open>runtime/gates/adjudicator\<close>, \<^verbatim>\<open>tickets/completion\<close>) over \<open>TicketStore\<close> (\<^verbatim>\<open>tickets/backlog-task-store.ts\<close>).
  \<^enum> Parallel nodes: \<open>ParallelNode\<close> (\<^verbatim>\<open>runtime/parallel-node\<close>), the fan-out as a step relation whose steps are
    the pieces a fiber runs between two suspensions.
  \<^enum> Ticket plans: \<open>TicketPlans\<close> (\<^verbatim>\<open>tickets/ticket-plan.ts\<close>, \<^verbatim>\<open>tickets/apply-ticket-plan.ts\<close> and their neighbours),
    with the shell words of a dry run and the state of a partly created plan.
  \<^enum> Reporting: \<open>RunnerEvents\<close> (the events of \<^verbatim>\<open>runtime/contracts/contracts.ts\<close> and their records in
    \<^verbatim>\<open>runner-command-contract.ts\<close>), \<open>EventSink\<close> (\<^verbatim>\<open>runner-event-sink.ts\<close>, a step relation of calls and flushes).
  \<^enum> Configuration: \<open>ConfigValidation\<close> (\<^verbatim>\<open>config/validate.ts\<close>), with the contract it decides and what it gives the planner.
  \<^enum> Generated schedules: \<open>SchedulePasses\<close> (\<^verbatim>\<open>schedule/passes\<close>, \<^verbatim>\<open>schedule/scheduling-roles.ts\<close>), what each pass adds and
    keeps; \<open>ScheduleGeneration\<close> (\<^verbatim>\<open>planning/generate.ts\<close>, \<^verbatim>\<open>schedule/baseline.ts\<close>), from the backlog to the compiled
    schedule; \<open>ScheduleProps\<close>, what holds of a schedule that is generated.
  \<^enum> Goals: \<open>GoalState\<close> and \<open>GoalEvidence\<close> (\<^verbatim>\<open>runtime/goal-state\<close>), \<open>GoalLoop\<close> (\<^verbatim>\<open>runtime/goal-loop\<close>).
  \<^enum> Whole runs: \<open>WorkflowRun\<close> (\<^verbatim>\<open>runtime/workflow-lifecycle.ts\<close>, \<^verbatim>\<open>runtime/workflow-execution.ts\<close>,
    \<^verbatim>\<open>runtime/local-scheduler.ts\<close>, \<^verbatim>\<open>runtime/runtime-results.ts\<close>) composes planner, scheduler and executor.
  \<^enum> The loop: \<open>Tickets\<close> (\<^verbatim>\<open>tickets/ticket-graph.ts\<close>, \<^verbatim>\<open>ticket-selection.ts\<close> and their neighbours),
    \<open>LoopController\<close> (\<^verbatim>\<open>loop/controller.ts\<close>), \<open>LoopProps\<close> (its properties over the history of calls),
    \<open>LoopServices\<close> (the interface \<open>controller_services\<close>: what the injected effects keep, a run keeps),
    \<open>PullRequests\<close> (\<^verbatim>\<open>loop/gh-checks.ts\<close>, \<^verbatim>\<open>loop/merge.ts\<close>), \<open>ControllerDeps\<close> (\<^verbatim>\<open>loop/controller-deps.ts\<close>,
    the production wiring, which interprets the interface), \<open>ArgoPoll\<close> (\<^verbatim>\<open>loop/argo-poll.ts\<close>).
  \<^enum> Shared: \<open>Prelude\<close> (collections and strings), \<open>JsData\<close> (JSON values, \<^verbatim>\<open>strings.ts\<close>), \<open>Effects\<close> (effects with
    an error channel and their rules).

  \<^bold>\<open>How the code is read.\<close> An interface or class is a record, a union a datatype with one constructor per
  tag, a thrown or failed error an \<open>Inl\<close> or a constructor of the result. A \<open>Map\<close> is an association list, a
  \<open>Set\<close> that is iterated a list without duplicates. Every effect on the outside world is a function
  argument on a world \<open>'w\<close>; where the order of effects matters the state also lists the calls made. An
  \<open>Effect\<close> is a state function with a result; interleaving appears where the program has it (the
  completion order of the scheduler), as the choice of a step relation.

  \<^bold>\<open>Bounds and fuel.\<close> \<open>runWorkflowScheduler\<close> takes one unit of fuel per tick: as many as there are nodes and
  one more are enough (\<open>scheduler_terminates\<close>). \<open>executeNode\<close> takes one unit per level of remediation, of
  which there is one, and \<open>runNodeAttempts\<close> one per attempt (\<open>node_execution_bounded\<close>). \<open>continueGoalLoop\<close>
  takes one per continuation (\<open>goal_loop_terminates\<close>), \<open>drainStep\<close> one per ticket and one more
  (\<open>loop_terminates\<close>). The \<open>depth\<close> of the walks down the children of a ticket is bounded by the number of
  tickets where the parent relation has no cycle (\<open>ticket_selection_returns\<close>); the code checks
  cycles of dependencies only, so that a cycle of parents makes the selection recurse without end. The fuel
  of \<open>pollLoop\<close> bounds the nesting of its recursion, at most one per read. Other recursions terminate by a measure.

  \<^bold>\<open>What the lemmas show.\<close> The planner accepts exactly the plannable workflows and orders them rightly; the
  scheduler launches only ready nodes within its caps, ends, and its outcome is right; a killed run resumes
  with exactly the passed results; node execution follows the state machine, passes only through its gates
  and is bounded; the goal state is what the events say and the loop's verdicts follow from it; the loop
  controller starts only startable tickets, each once, resolves pull requests by the merge protocol, and
  uses its bypass token only on an outage. Where the code does something else than it means to, a
  property states what it does (the findings of the manifest).

  \<^bold>\<open>Not modelled.\<close> The command line, the installers of host adapters, the doctors and the MCP gateway (\<^verbatim>\<open>cli\<close>,
  \<^verbatim>\<open>install-commands\<close>, \<^verbatim>\<open>mcp\<close>, \<^verbatim>\<open>factory\<close>, \<^verbatim>\<open>credentials\<close>), which read and write files and start programs; the submission to
  Kubernetes and Argo (\<^verbatim>\<open>argo-submit.ts\<close>, \<^verbatim>\<open>remote\<close>, \<^verbatim>\<open>runner-command\<close>), which render manifests and call the cluster; the
  agent runtimes (\<^verbatim>\<open>runtime/opencode-*\<close>, \<^verbatim>\<open>runtime/agent-node\<close>), which are the runner of \<open>node_env\<close>; the schema
  library; the Postgres stores; the wording of the planner's prompts and the reading of the backlog for it (\<^verbatim>\<open>schedule/prompts.ts\<close>, \<^verbatim>\<open>schedule/backlog-context.ts\<close>);
  the loading and merging of configuration files (\<^verbatim>\<open>config/load.ts\<close>); hooks beyond their results. The components of
  the manifest say for each part what is left. Floating-point rounding of delays, prototype keys of JavaScript objects (but for
  the key \<open>constructor\<close> in \<open>TicketPlans\<close>) and
  non-integer JSON numbers are not modelled.
\<close>

end
